(* ===== verification/Prelude.thy ===== *)
theory Prelude
  imports Complex_Main "HOL-Library.AList" "HOL-Library.Word" "HOL-Library.Sublist"
    "HOL-Library.List_Lexorder" "HOL-Library.Char_ord"
begin

text \<open>
  Shared vocabulary of the development: results that carry a Python exception, the
  operations of Python's \<open>str\<close> type the SDK uses, dictionaries as association lists in
  insertion order, and big-endian byte fields as \<open>struct\<close> packs them.

  A \<open>str\<close> is a \<^typ>\<open>string\<close>: a list of code points below 256, which is the range of
  \<^typ>\<open>char\<close>. The character classes below are Python's on that range.
\<close>

named_theorems py_str \<open>rewriting rules for the string operations\<close>
named_theorems py_dict \<open>rewriting rules for dictionaries\<close>
named_theorems res_simps \<open>rewriting rules for results\<close>

section \<open>Results\<close>

text \<open>
  The exceptions the modelled code raises or lets through. Message texts are not part of
  the model; the classes and the codes they carry are. \<open>IllTyped\<close> is no exception of the code: it marks
  a value outside the declared type of a field that the code does not check, where the model stops.
\<close>

datatype py_error =
    NpsFrameError
  | NpsCodecError
  | NpsEncodingUnsupportedError
  | NpsAnchorNotFoundError string
  | NpsAnchorPoisonError string
  | NcpPreambleInvalidError string
  | NcpHandshakeError string
  | NdpClusterSplitError string int
  | NdpFederationLoopError
  | NopMappingError
  | NopConditionError
  | LlmContextStoreError string "int option"
  | NipCaException string
  | NipRaPendingException string
  | DerParseError
  | HttpError
  | IncompleteReadError
  | StructError
  | OverflowError
  | ValueError
  | UnicodeDecodeError
  | KeyError
  | IndexError
  | TypeError
  | AttributeError
  | AssertionError
  | CancelledError
  | RuntimeError
  | IllTyped

type_synonym 'a res = "py_error + 'a"
type_synonym byte = "8 word"
type_synonym bytes = "8 word list"
type_synonym 'v dict = "(string \<times> 'v) list"

definition res_bind :: "'a res \<Rightarrow> ('a \<Rightarrow> 'b res) \<Rightarrow> 'b res" where
  "res_bind r f = (case r of Inl e \<Rightarrow> Inl e | Inr x \<Rightarrow> f x)"

text \<open>The loop that evaluates a fallible expression for every element, left to right.\<close>

fun res_map :: "('a \<Rightarrow> 'b res) \<Rightarrow> 'a list \<Rightarrow> 'b list res" where
  "res_map f [] = Inr []"
| "res_map f (x # xs) = res_bind (f x) (\<lambda>y. res_bind (res_map f xs) (\<lambda>ys. Inr (y # ys)))"

definition of_option :: "py_error \<Rightarrow> 'a option \<Rightarrow> 'a res" where
  "of_option e v = (case v of None \<Rightarrow> Inl e | Some x \<Rightarrow> Inr x)"

section \<open>Operations on a state\<close>

text \<open>
  A method of an object with state: it returns or raises, and in both cases leaves a state behind.
  What was written before an exception stays written.
\<close>

type_synonym ('s, 'a) effectful = "'s \<Rightarrow> 'a res \<times> 's"

definition st_bind :: "('s, 'a) effectful \<Rightarrow> ('a \<Rightarrow> ('s, 'b) effectful) \<Rightarrow> ('s, 'b) effectful" where
  "st_bind m f s = (case m s of (Inl e, s') \<Rightarrow> (Inl e, s') | (Inr x, s') \<Rightarrow> f x s')"

definition st_lift :: "'a res \<Rightarrow> ('s, 'a) effectful" where
  "st_lift r s = (r, s)"

definition st_read :: "('s \<Rightarrow> 'a) \<Rightarrow> ('s, 'a) effectful" where
  "st_read f s = (Inr (f s), s)"

definition st_write :: "('s \<Rightarrow> 's) \<Rightarrow> ('s, unit) effectful" where
  "st_write f s = (Inr (), f s)"

definition st_when :: "bool \<Rightarrow> py_error \<Rightarrow> ('s, unit) effectful" where
  "st_when b e = st_lift (if b then Inl e else Inr ())"

section \<open>Times\<close>

text \<open>
  An aware \<open>datetime\<close> as an instant, in microseconds of UTC since year 1, up to \<open>datetime.max\<close>. Adding a
  \<open>timedelta\<close> raises \<open>OverflowError\<close> outside that range.
\<close>

definition MAX_TIME :: int where "MAX_TIME = 315537897599999999"

definition time_plus :: "int \<Rightarrow> int \<Rightarrow> int res" where
  "time_plus t d = (if 0 \<le> t + d \<and> t + d \<le> MAX_TIME then Inr (t + d) else Inl OverflowError)"

section \<open>Characters and strings\<close>

definition py_isspace :: "char \<Rightarrow> bool" where
  "py_isspace c = (let n = of_char c :: nat in
     (9 \<le> n \<and> n \<le> 13) \<or> (28 \<le> n \<and> n \<le> 32) \<or> n = 133 \<or> n = 160)"

definition py_isdecimal :: "char \<Rightarrow> bool" where
  "py_isdecimal c = (let n = of_char c :: nat in 48 \<le> n \<and> n \<le> 57)"

text \<open>\<open>str.isdigit\<close> also accepts the superscripts two, three and one.\<close>

definition py_isdigit :: "char \<Rightarrow> bool" where
  "py_isdigit c = (let n = of_char c :: nat in
     (48 \<le> n \<and> n \<le> 57) \<or> n = 178 \<or> n = 179 \<or> n = 185)"

definition py_isalpha :: "char \<Rightarrow> bool" where
  "py_isalpha c = (let n = of_char c :: nat in
     (65 \<le> n \<and> n \<le> 90) \<or> (97 \<le> n \<and> n \<le> 122) \<or> n = 170 \<or> n = 181 \<or> n = 186
     \<or> (192 \<le> n \<and> n \<noteq> 215 \<and> n \<noteq> 247))"

text \<open>\<open>str.isalnum\<close> adds the digits and the three vulgar fractions (numeric characters).\<close>

definition py_isalnum :: "char \<Rightarrow> bool" where
  "py_isalnum c = (let n = of_char c :: nat in
     py_isalpha c \<or> py_isdigit c \<or> (188 \<le> n \<and> n \<le> 190))"

text \<open>\<open>str.lower\<close>\<close>

definition py_lower :: "string \<Rightarrow> string" where
  "py_lower s = map (\<lambda>c. let n = of_char c :: nat in
     if (65 \<le> n \<and> n \<le> 90) \<or> (192 \<le> n \<and> n \<le> 222 \<and> n \<noteq> 215) then char_of (n + 32) else c) s"

definition py_startswith :: "string \<Rightarrow> string \<Rightarrow> bool" where
  "py_startswith s p = (take (length p) s = p)"

definition py_lstrip :: "string \<Rightarrow> string" where
  "py_lstrip s = dropWhile py_isspace s"

definition py_strip :: "string \<Rightarrow> string" where
  "py_strip s = rev (dropWhile py_isspace (rev (dropWhile py_isspace s)))"

text \<open>\<open>s.split(c)\<close> for a one-character separator.\<close>

fun split_on :: "char \<Rightarrow> string \<Rightarrow> string list" where
  "split_on c [] = [[]]"
| "split_on c (x # xs) =
     (if x = c then [] # split_on c xs
      else (case split_on c xs of [] \<Rightarrow> [[x]] | y # ys \<Rightarrow> (x # y) # ys))"

text \<open>\<open>s.split(c, n)\<close>: at most \<open>n\<close> splits, the rest stays in the last piece.\<close>

fun split_max :: "char \<Rightarrow> nat \<Rightarrow> string \<Rightarrow> string list" where
  "split_max c 0 s = [s]"
| "split_max c (Suc n) s =
     (if c \<in> set s
      then takeWhile (\<lambda>x. x \<noteq> c) s # split_max c n (drop 1 (dropWhile (\<lambda>x. x \<noteq> c) s))
      else [s])"

text \<open>\<open>s.split()\<close>: maximal runs of characters that are not white space.\<close>

function py_split_ws :: "string \<Rightarrow> string list" where
  "py_split_ws s =
     (let t = dropWhile py_isspace s in
      if t = [] then []
      else takeWhile (\<lambda>c. \<not> py_isspace c) t
           # py_split_ws (dropWhile (\<lambda>c. \<not> py_isspace c) t))"
  by pat_completeness auto
termination
proof (relation "measure length")
  fix s t assume t: "t = dropWhile py_isspace s" and ne: "t \<noteq> []"
  then have "\<not> py_isspace (hd t)" by (metis hd_dropWhile)
  then have "length (dropWhile (\<lambda>c. \<not> py_isspace c) t) < length t"
    using ne by (cases t) (auto simp: le_imp_less_Suc length_dropWhile_le)
  also have "length t \<le> length s" using t by (simp add: length_dropWhile_le)
  finally show "(dropWhile (\<lambda>c. \<not> py_isspace c) t, s) \<in> measure length" by simp
qed simp

declare py_split_ws.simps [simp del]

fun join_with :: "string \<Rightarrow> string list \<Rightarrow> string" where
  "join_with sep [] = []"
| "join_with sep [x] = x"
| "join_with sep (x # y # ys) = x @ sep @ join_with sep (y # ys)"

definition py_replace_char :: "char \<Rightarrow> string \<Rightarrow> string \<Rightarrow> string" where
  "py_replace_char c r s = concat (map (\<lambda>x. if x = c then r else [x]) s)"

section \<open>Decimal numerals\<close>

definition digit_val :: "char \<Rightarrow> nat" where
  "digit_val c = of_char c - 48"

definition digit_char :: "nat \<Rightarrow> char" where
  "digit_char n = char_of (48 + n)"

definition dec_value :: "string \<Rightarrow> nat" where
  "dec_value s = foldl (\<lambda>a c. 10 * a + digit_val c) 0 s"

fun nat_str :: "nat \<Rightarrow> string" where
  "nat_str n = (if n < 10 then [digit_char n] else nat_str (n div 10) @ [digit_char (n mod 10)])"

declare nat_str.simps [simp del]

definition int_str :: "int \<Rightarrow> string" where
  "int_str i = (if i < 0 then CHR ''-'' # nat_str (nat (- i)) else nat_str (nat i))"

text \<open>
  \<open>int(s)\<close> for a string: surrounding white space, an optional sign, decimal digits with
  single underscores between digits; anything else raises \<open>ValueError\<close>.
\<close>

fun digits_us :: "bool \<Rightarrow> string \<Rightarrow> bool" where
  "digits_us after_digit [] = after_digit"
| "digits_us after_digit (c # cs) =
     (if py_isdecimal c then digits_us True cs
      else c = CHR ''_'' \<and> after_digit \<and> digits_us False cs)"

definition unsigned_of_str :: "string \<Rightarrow> int res" where
  "unsigned_of_str s =
     (if digits_us False s then Inr (int (dec_value (filter py_isdecimal s))) else Inl ValueError)"

definition py_int_of_str :: "string \<Rightarrow> int res" where
  "py_int_of_str s =
     (case py_strip s of
        [] \<Rightarrow> Inl ValueError
      | c # cs \<Rightarrow>
          if c = CHR ''-'' then res_bind (unsigned_of_str cs) (\<lambda>n. Inr (- n))
          else if c = CHR ''+'' then unsigned_of_str cs
          else unsigned_of_str (c # cs))"

section \<open>Big-endian fields\<close>

definition be16 :: "nat \<Rightarrow> bytes" where
  "be16 n = [of_nat (n div 256), of_nat (n mod 256)]"

definition be32 :: "nat \<Rightarrow> bytes" where
  "be32 n = [of_nat (n div 16777216), of_nat (n div 65536 mod 256),
             of_nat (n div 256 mod 256), of_nat (n mod 256)]"

definition rd16 :: "bytes \<Rightarrow> nat \<Rightarrow> nat" where
  "rd16 b i = unat (b ! i) * 256 + unat (b ! (i + 1))"

definition rd32 :: "bytes \<Rightarrow> nat \<Rightarrow> nat" where
  "rd32 b i = unat (b ! i) * 16777216 + unat (b ! (i + 1)) * 65536
              + unat (b ! (i + 2)) * 256 + unat (b ! (i + 3))"

text \<open>\<open>struct.pack\<close> raises \<open>struct.error\<close> when an unsigned field is out of range.\<close>

definition pack_u16 :: "int \<Rightarrow> bytes res" where
  "pack_u16 v = (if 0 \<le> v \<and> v \<le> 65535 then Inr (be16 (nat v)) else Inl StructError)"

definition pack_u32 :: "int \<Rightarrow> bytes res" where
  "pack_u32 v = (if 0 \<le> v \<and> v \<le> 4294967295 then Inr (be32 (nat v)) else Inl StructError)"

section \<open>Dictionaries\<close>

definition dict_get :: "('k \<times> 'v) list \<Rightarrow> 'k \<Rightarrow> 'v option" where
  "dict_get d k = map_of d k"

definition dict_set :: "'k \<Rightarrow> 'v \<Rightarrow> ('k \<times> 'v) list \<Rightarrow> ('k \<times> 'v) list" where
  "dict_set k v d = AList.update k v d"

definition dict_pop :: "'k \<Rightarrow> ('k \<times> 'v) list \<Rightarrow> ('k \<times> 'v) list" where
  "dict_pop k d = AList.delete k d"

text \<open>\<open>d[k]\<close> raises \<open>KeyError\<close> on a missing key.\<close>

definition dict_item :: "'v dict \<Rightarrow> string \<Rightarrow> 'v res" where
  "dict_item d k = of_option KeyError (map_of d k)"

text \<open>An entry written only when the value is present.\<close>

definition opt_entry :: "string \<Rightarrow> 'v option \<Rightarrow> 'v dict" where
  "opt_entry k v = (case v of None \<Rightarrow> [] | Some x \<Rightarrow> [(k, x)])"

section \<open>Lemmas\<close>

subsection \<open>Results\<close>

lemma res_bind_Inl [simp]: "res_bind (Inl e) f = Inl e"
  by (simp add: res_bind_def)

lemma res_bind_Inr [simp]: "res_bind (Inr x) f = f x"
  by (simp add: res_bind_def)

lemma res_bind_eq_Inr [res_simps]: "res_bind r f = Inr y \<longleftrightarrow> (\<exists>x. r = Inr x \<and> f x = Inr y)"
  by (cases r) simp_all

lemma res_bind_eq_Inl [res_simps]:
  "res_bind r f = Inl e \<longleftrightarrow> r = Inl e \<or> (\<exists>x. r = Inr x \<and> f x = Inl e)"
  by (cases r) simp_all

lemma of_option_simps [simp]:
  "of_option e None = Inl e" "of_option e (Some x) = Inr x"
  by (simp_all add: of_option_def)

lemma of_option_eq_Inr [res_simps]: "of_option e v = Inr x \<longleftrightarrow> v = Some x"
  by (cases v) simp_all

lemma res_map_Inr [simp]: "res_map Inr xs = Inr xs"
  by (induction xs) simp_all

lemma res_map_comp: "(\<And>x. x \<in> set xs \<Longrightarrow> f (g x) = Inr x) \<Longrightarrow> res_map f (map g xs) = Inr xs"
  by (induction xs) simp_all

lemma res_map_length: "res_map f xs = Inr ys \<Longrightarrow> length ys = length xs"
  by (induction xs arbitrary: ys) (auto simp: res_simps)

subsection \<open>Operations on a state\<close>

lemma st_run [simp]:
  "st_lift r s = (r, s)" "st_read f s = (Inr (f s), s)" "st_write g s = (Inr (), g s)"
  "st_when b e s = (if b then Inl e else Inr (), s)"
  by (simp_all add: st_lift_def st_read_def st_write_def st_when_def)

lemma st_bind_run [simp]:
  "m s = (Inr x, s') \<Longrightarrow> st_bind m f s = f x s'"
  "m s = (Inl e, s') \<Longrightarrow> st_bind m f s = (Inl e, s')"
  by (simp_all add: st_bind_def)

lemma st_bind_Inr [res_simps]:
  "st_bind m f s = (Inr y, s') \<longleftrightarrow> (\<exists>x s1. m s = (Inr x, s1) \<and> f x s1 = (Inr y, s'))"
  by (auto simp: st_bind_def split: prod.splits sum.splits)

text \<open>
  A property of the state that an operation keeps, whether it returns or raises; \<open>st_ret\<close> also says
  what it returns.
\<close>

definition st_keeps :: "('s \<Rightarrow> bool) \<Rightarrow> ('s, 'a) effectful \<Rightarrow> bool" where
  "st_keeps P m \<longleftrightarrow> (\<forall>s. P s \<longrightarrow> P (snd (m s)))"

lemma st_keepsD: "st_keeps P m \<Longrightarrow> P s \<Longrightarrow> m s = (r, s') \<Longrightarrow> P s'"
  unfolding st_keeps_def by (metis snd_conv)

named_theorems keeps \<open>rules for the properties an operation keeps\<close>

lemma st_keeps_lift [keeps]: "st_keeps P (st_lift r)"
  by (simp add: st_keeps_def)

lemma st_keeps_read [keeps]: "st_keeps P (st_read f)"
  by (simp add: st_keeps_def)

lemma st_keeps_when [keeps]: "st_keeps P (st_when b e)"
  by (simp add: st_keeps_def)

lemma st_keeps_bind [keeps]: "st_keeps P m \<Longrightarrow> (\<And>x. st_keeps P (f x)) \<Longrightarrow> st_keeps P (st_bind m f)"
  by (auto simp: st_keeps_def st_bind_def split: prod.splits sum.splits)

lemma st_keeps_if [keeps]: "(b \<Longrightarrow> st_keeps P m) \<Longrightarrow> (\<not> b \<Longrightarrow> st_keeps P n) \<Longrightarrow> st_keeps P (if b then m else n)"
  by simp

lemma st_keeps_option [keeps]:
  "st_keeps P m \<Longrightarrow> (\<And>x. st_keeps P (f x)) \<Longrightarrow> st_keeps P (case v of None \<Rightarrow> m | Some x \<Rightarrow> f x)"
  by (simp split: option.split)

subsection \<open>Splitting and joining\<close>

lemma split_on_nonempty [simp]: "split_on c s \<noteq> []"
  by (cases s) (auto split: list.splits)

lemma join_split_on [py_str]: "join_with [c] (split_on c s) = s"
proof (induction s)
  case (Cons x xs)
  obtain y ys where s: "split_on c xs = y # ys" by (cases "split_on c xs") auto
  with Cons show ?case by (cases ys) auto
qed simp

lemma split_on_no_sep: "c \<notin> set s \<Longrightarrow> split_on c s = [s]"
  by (induction s) auto

lemma split_on_append: "c \<notin> set x \<Longrightarrow> split_on c (x @ c # s) = x # split_on c s"
  by (induction x) auto

lemma split_on_join [py_str]:
  "xs \<noteq> [] \<Longrightarrow> (\<And>x. x \<in> set xs \<Longrightarrow> c \<notin> set x) \<Longrightarrow> split_on c (join_with [c] xs) = xs"
proof (induction "[c]" xs rule: join_with.induct)
  case (2 x)
  then show ?case by (simp add: split_on_no_sep)
next
  case (3 x y ys)
  then show ?case by (simp add: split_on_append)
qed simp

lemma split_on_pieces: "x \<in> set (split_on c s) \<Longrightarrow> c \<notin> set x"
proof (induction s arbitrary: x)
  case (Cons a s)
  then show ?case by (cases "split_on c s") (auto split: if_splits)
qed simp

lemma split_on_chars: "x \<in> set (split_on c s) \<Longrightarrow> y \<in> set x \<Longrightarrow> y \<in> set s"
proof (induction s arbitrary: x)
  case (Cons a s)
  obtain z zs where s: "split_on c s = z # zs" by (cases "split_on c s") auto
  show ?case using Cons.prems Cons.IH [of z] Cons.IH [of x] s by (auto split: if_splits)
qed simp

lemma py_strip_id: "s = [] \<or> (\<not> py_isspace (hd s) \<and> \<not> py_isspace (last s)) \<Longrightarrow> py_strip s = s"
proof (cases s rule: rev_cases)
  case (snoc ys y)
  assume "s = [] \<or> (\<not> py_isspace (hd s) \<and> \<not> py_isspace (last s))"
  with snoc have "\<not> py_isspace (hd s)" "\<not> py_isspace y" by auto
  then have "dropWhile py_isspace s = s" using snoc by (metis dropWhile_eq_self_iff)
  with snoc \<open>\<not> py_isspace y\<close> show ?thesis by (simp add: py_strip_def)
qed (simp add: py_strip_def)

subsection \<open>Decimal numerals\<close>

lemma digit_val_char [simp]: "n < 10 \<Longrightarrow> digit_val (digit_char n) = n"
  by (simp add: digit_val_def digit_char_def)

lemma isdecimal_digit_char [simp]: "n < 10 \<Longrightarrow> py_isdecimal (digit_char n)"
  by (simp add: py_isdecimal_def digit_char_def Let_def)

lemma py_isdecimal_isdigit: "py_isdecimal c \<Longrightarrow> py_isdigit c"
  by (simp add: py_isdecimal_def py_isdigit_def Let_def)

lemma nat_str_decimal: "c \<in> set (nat_str n) \<Longrightarrow> py_isdecimal c"
proof (induction n rule: nat_str.induct)
  case (1 n)
  then show ?case by (subst (asm) (2) nat_str.simps) (auto split: if_splits)
qed

lemma nat_str_nonempty [simp]: "nat_str n \<noteq> []"
  by (subst nat_str.simps) simp

lemma dec_value_snoc [simp]: "dec_value (s @ [c]) = 10 * dec_value s + digit_val c"
  by (simp add: dec_value_def)

lemma dec_value_nat_str [simp]: "dec_value (nat_str n) = n"
proof (induction n rule: nat_str.induct)
  case (1 n)
  show ?case
  proof (cases "n < 10")
    case True
    then show ?thesis by (subst nat_str.simps) (simp add: dec_value_def)
  next
    case False
    then show ?thesis using 1 by (subst nat_str.simps) simp
  qed
qed

lemma decimal_not_space: "py_isdecimal c \<Longrightarrow> \<not> py_isspace c"
  by (auto simp: py_isdecimal_def py_isspace_def Let_def)

lemma digits_us_decimal: "(\<And>c. c \<in> set s \<Longrightarrow> py_isdecimal c) \<Longrightarrow> digits_us b s = (b \<or> s \<noteq> [])"
  by (induction s arbitrary: b) auto

lemma nat_str_no_char: "\<not> py_isdecimal c \<Longrightarrow> c \<notin> set (nat_str n)"
  using nat_str_decimal by blast

lemma unsigned_of_nat_str [simp]: "unsigned_of_str (nat_str n) = Inr (int n)"
proof -
  have "filter py_isdecimal (nat_str n) = nat_str n"
    by (rule filter_True) (simp add: nat_str_decimal)
  then show ?thesis
    by (simp add: unsigned_of_str_def digits_us_decimal nat_str_decimal)
qed

lemma py_int_of_nat_str [simp]: "py_int_of_str (nat_str n) = Inr (int n)"
proof -
  obtain c cs where s: "nat_str n = c # cs" by (cases "nat_str n") auto
  have c: "py_isdecimal c" using nat_str_decimal [of c n] s by simp
  have "\<not> py_isspace (hd (nat_str n)) \<and> \<not> py_isspace (last (nat_str n))"
    by (intro conjI decimal_not_space nat_str_decimal [of _ n]) simp_all
  then have "py_strip (nat_str n) = nat_str n" by (simp add: py_strip_id)
  moreover have "c \<noteq> CHR ''-''" "c \<noteq> CHR ''+''"
    using c by (auto simp: py_isdecimal_def)
  ultimately show ?thesis
    using unsigned_of_nat_str [of n] by (simp add: py_int_of_str_def s)
qed

subsection \<open>Byte fields\<close>

lemma length_be [simp]: "length (be16 n) = 2" "length (be32 n) = 4"
  by (simp_all add: be16_def be32_def)

lemma unat_of_nat_byte [simp]: "unat (of_nat n :: byte) = n mod 256"
  by (simp add: unat_of_nat)

lemma byte_bound: "unat (b :: byte) < 256"
  using unsigned_less [where ?'b = 8 and ?'a = nat, of b] by simp

lemma rd16_bound: "rd16 b i \<le> 65535"
  using byte_bound [of "b ! i"] byte_bound [of "b ! (i + 1)"] by (simp add: rd16_def)

lemma rd32_bound: "rd32 b i \<le> 4294967295"
  using byte_bound [of "b ! i"] byte_bound [of "b ! (i + 1)"] byte_bound [of "b ! (i + 2)"]
    byte_bound [of "b ! (i + 3)"] by (simp add: rd32_def)

lemma rd16_be16: "n \<le> 65535 \<Longrightarrow> rd16 (xs @ be16 n @ ys) (length xs) = n"
proof -
  assume "n \<le> 65535"
  then have "n div 256 mod 256 = n div 256" by simp
  then show ?thesis by (simp add: rd16_def be16_def nth_append)
qed

lemma rd16_at: "b = xs @ be16 n @ ys \<Longrightarrow> length xs = i \<Longrightarrow> n \<le> 65535 \<Longrightarrow> rd16 b i = n"
  using rd16_be16 by blast

lemma base256_sum:
  "n = 256 * p + r0 \<Longrightarrow> p = 256 * q + r1 \<Longrightarrow> q = 256 * r + r2 \<Longrightarrow>
     r * 16777216 + r2 * 65536 + r1 * 256 + r0 = (n :: nat)"
  by simp

lemma base256_digits:
  "(n div 16777216) * 16777216 + (n div 65536 mod 256) * 65536 + (n div 256 mod 256) * 256
     + n mod 256 = (n :: nat)"
proof (rule base256_sum)
  have q: "n div 65536 = n div 256 div 256" "n div 16777216 = n div 65536 div 256"
    by (simp_all add: div_mult2_eq [symmetric])
  show "n = 256 * (n div 256) + n mod 256" by simp
  show "n div 256 = 256 * (n div 65536) + n div 256 mod 256" unfolding q(1) by simp
  show "n div 65536 = 256 * (n div 16777216) + n div 65536 mod 256" unfolding q(2) by simp
qed

lemma rd32_be32: "n \<le> 4294967295 \<Longrightarrow> rd32 (xs @ be32 n @ ys) (length xs) = n"
proof -
  assume "n \<le> 4294967295"
  then have "n div 16777216 mod 256 = n div 16777216" by simp
  then show ?thesis
    using base256_digits [of n] by (simp add: rd32_def be32_def nth_append numeral_3_eq_3)
qed

lemma rd32_at: "b = xs @ be32 n @ ys \<Longrightarrow> length xs = i \<Longrightarrow> n \<le> 4294967295 \<Longrightarrow> rd32 b i = n"
  using rd32_be32 by blast

subsection \<open>Dictionaries\<close>

lemma dict_get_set [simp]: "dict_get (dict_set k v d) k' = (if k = k' then Some v else dict_get d k')"
  by (auto simp: dict_get_def dict_set_def update_conv)

lemma dict_get_pop [simp]: "dict_get (dict_pop k d) k' = (if k = k' then None else dict_get d k')"
  by (auto simp: dict_get_def dict_pop_def delete_conv)

lemma map_of_dict_set [simp]: "map_of (dict_set k v d) k' = (if k = k' then Some v else map_of d k')"
  by (auto simp: dict_set_def update_conv)

lemma map_of_dict_pop [simp]: "map_of (dict_pop k d) k' = (if k = k' then None else map_of d k')"
  by (auto simp: dict_pop_def delete_conv)

lemma dict_set_set [simp]: "dict_set k a (dict_set k b d) = dict_set k a d"
  by (induction d) (auto simp: dict_set_def)

lemma dict_get_Nil [simp]: "dict_get [] k = None"
  by (simp add: dict_get_def)

lemma keys_dict_set: "fst ` set (dict_set k v d) = insert k (fst ` set d)"
  by (simp add: dict_set_def dom_map_of_conv_image_fst [symmetric] update_conv')

lemma keys_dict_pop: "fst ` set (dict_pop k d) = fst ` set d - {k}"
  by (auto simp: dict_pop_def AList.delete_eq image_iff)

lemma distinct_dict_set: "distinct (map fst d) \<Longrightarrow> distinct (map fst (dict_set k v d))"
  by (simp add: dict_set_def distinct_update)

lemma distinct_dict_pop: "distinct (map fst d) \<Longrightarrow> distinct (map fst (dict_pop k d))"
  by (simp add: dict_pop_def distinct_delete)

lemma dict_get_mem: "dict_get d k = Some v \<Longrightarrow> (k, v) \<in> set d"
  by (simp add: dict_get_def map_of_SomeD)

lemma dict_get_iff: "distinct (map fst d) \<Longrightarrow> dict_get d k = Some v \<longleftrightarrow> (k, v) \<in> set d"
  by (simp add: dict_get_def)

lemma dict_get_None_iff: "dict_get d k = None \<longleftrightarrow> k \<notin> fst ` set d"
  by (simp add: dict_get_def map_of_eq_None_iff)

text \<open>Filtering and counting by value.\<close>

lemma dict_get_filter:
  "distinct (map fst d) \<Longrightarrow>
     dict_get (filter (\<lambda>(k, v). P v) d) k = (case dict_get d k of None \<Rightarrow> None | Some v \<Rightarrow> if P v then Some v else None)"
  by (induction d) (auto simp: dict_get_def map_of_eq_None_iff rev_image_eqI split: option.splits)

lemma distinct_dict_filter: "distinct (map fst d) \<Longrightarrow> distinct (map fst (filter P d))"
  by (simp add: distinct_map_filter)

definition dict_count :: "('v \<Rightarrow> bool) \<Rightarrow> ('k \<times> 'v) list \<Rightarrow> nat" where
  "dict_count P d = length (filter (\<lambda>(k, v). P v) d)"

lemma dict_count_set:
  "distinct (map fst d) \<Longrightarrow>
     dict_count P (dict_set k v d) + (case dict_get d k of None \<Rightarrow> 0 | Some x \<Rightarrow> if P x then 1 else 0)
     = dict_count P d + (if P v then 1 else 0)"
  by (induction d) (auto simp: dict_count_def dict_set_def dict_get_def split: option.splits)

lemma dict_count_pop:
  "distinct (map fst d) \<Longrightarrow>
     dict_count P (dict_pop k d) + (case dict_get d k of None \<Rightarrow> 0 | Some x \<Rightarrow> if P x then 1 else 0) = dict_count P d"
proof (induction d)
  case (Cons x d)
  show ?case
  proof (cases "fst x = k")
    case True
    then have "dict_pop k (x # d) = d" using Cons.prems by (cases x) (force simp: dict_pop_def AList.delete_eq filter_id_conv)
    then show ?thesis using True by (cases x) (auto simp: dict_count_def dict_get_def)
  next
    case False
    then show ?thesis using Cons by (cases x) (auto simp: dict_count_def dict_get_def dict_pop_def)
  qed
qed (simp add: dict_count_def dict_pop_def)

lemma dict_count_filter: "dict_count P (filter (\<lambda>(k, v). Q v) d) \<le> dict_count P d"
  by (induction d) (auto simp: dict_count_def)

lemma map_of_opt_entry [simp]:
  "map_of (opt_entry k v) k' = (if k = k' then v else None)"
  by (auto simp: opt_entry_def split: option.splits)

lemmas dict_simps [py_dict] = dict_item_def dict_get_def opt_entry_def

end
