(* ===== verification/PyValue.thy ===== *)
theory PyValue
  imports Prelude
begin

text \<open>
  The values that cross the wire: JSON / MessagePack data as Python objects, with Python's
  truth value, equality, ordering and the conversions \<open>int\<close>, \<open>bool\<close>, \<open>float\<close> and \<open>tuple\<close>.

  Floats are binary64 numbers: a finite float is the rational number it denotes, obtained
  by rounding half to even; the sign of zero is not represented. Tuples and lists are the
  same constructor, because the code converts between them only at the frame boundary.
\<close>

named_theorems py_val \<open>rewriting rules for Python values\<close>

section \<open>Floats\<close>

datatype pyfloat = FNaN | FInf bool | FFin rat

definition pow2 :: "int \<Rightarrow> rat" where
  "pow2 e = (if 0 \<le> e then of_int (2 ^ nat e) else 1 / of_int (2 ^ nat (- e)))"

definition round_half_even :: "rat \<Rightarrow> int" where
  "round_half_even q =
     (let f = \<lfloor>q\<rfloor>; r = q - of_int f in
      if r < 1 / 2 then f else if 1 / 2 < r then f + 1 else if even f then f else f + 1)"

text \<open>\<open>int.bit_length()\<close> of a positive number.\<close>

function bit_length :: "int \<Rightarrow> int" where
  "bit_length n = (if n \<le> 0 then 0 else 1 + bit_length (n div 2))"
  by pat_completeness auto
termination
  by (relation "measure nat") auto

declare bit_length.simps [simp del]

text \<open>The exponent \<open>e\<close> with \<open>2 ^ e \<le> q < 2 ^ (e + 1)\<close>.\<close>

definition ilog2 :: "rat \<Rightarrow> int" where
  "ilog2 q =
     (let (n, d) = quotient_of q; e = bit_length n - bit_length d
      in if pow2 e \<le> q then e else e - 1)"

text \<open>
  Rounding to \<open>p\<close> significant bits with least exponent \<open>emin\<close> (of the last bit); values
  of magnitude \<open>2 ^ emax\<close> and more overflow to an infinity.
\<close>

definition round_float :: "int \<Rightarrow> int \<Rightarrow> int \<Rightarrow> rat \<Rightarrow> pyfloat" where
  "round_float p emin emax q =
     (if q = 0 then FFin 0
      else let a = \<bar>q\<bar>; u = max (ilog2 a - (p - 1)) emin;
               r = of_int (round_half_even (a / pow2 u)) * pow2 u
           in if r \<noteq> 0 \<and> emax \<le> ilog2 r then FInf (q < 0) else FFin (sgn q * r))"

definition double :: "rat \<Rightarrow> pyfloat" where
  "double q = round_float 53 (- 1074) 1024 q"

text \<open>\<open>float(i)\<close> for an integer raises \<open>OverflowError\<close> beyond the largest double.\<close>

definition float_of_int :: "int \<Rightarrow> pyfloat res" where
  "float_of_int i =
     (case double (of_int i) of FFin r \<Rightarrow> Inr (FFin r) | _ \<Rightarrow> Inl OverflowError)"

fun flt_eq :: "pyfloat \<Rightarrow> pyfloat \<Rightarrow> bool" where
  "flt_eq (FFin a) (FFin b) = (a = b)"
| "flt_eq (FInf s) (FInf t) = (s = t)"
| "flt_eq _ _ = False"

fun flt_less :: "pyfloat \<Rightarrow> pyfloat \<Rightarrow> bool" where
  "flt_less (FFin a) (FFin b) = (a < b)"
| "flt_less (FInf s) (FFin b) = s"
| "flt_less (FFin a) (FInf t) = (\<not> t)"
| "flt_less (FInf s) (FInf t) = (s \<and> \<not> t)"
| "flt_less _ _ = False"

definition flt_le :: "pyfloat \<Rightarrow> pyfloat \<Rightarrow> bool" where
  "flt_le a b = (flt_less a b \<or> flt_eq a b)"

subsection \<open>Binary32 as \<open>struct\<close> packs it\<close>

definition f32_bits :: "pyfloat \<Rightarrow> nat res" where
  "f32_bits x =
     (case x of
        FNaN \<Rightarrow> Inr 2143289344
      | FInf s \<Rightarrow> Inr ((if s then 2147483648 else 0) + 2139095040)
      | FFin q \<Rightarrow>
          (case round_float 24 (- 149) 128 q of
             FFin r \<Rightarrow>
               (if r = 0 then Inr 0
                else let a = \<bar>r\<bar>; u = max (ilog2 a - 23) (- 149);
                         m = nat \<lfloor>a / pow2 u\<rfloor>;
                         s = (if r < 0 then 2147483648 else 0)
                     in if m < 8388608 then Inr (s + m)
                        else Inr (s + nat (u + 150) * 8388608 + (m - 8388608)))
           | _ \<Rightarrow> Inl OverflowError))"

definition f32_of_bits :: "nat \<Rightarrow> pyfloat" where
  "f32_of_bits n =
     (let neg = 2147483648 \<le> n; e = n div 8388608 mod 256; m = n mod 8388608;
          sg = (if neg then - 1 else 1 :: rat)
      in if e = 255 then (if m = 0 then FInf neg else FNaN)
         else if e = 0 then FFin (sg * of_nat m * pow2 (- 149))
         else FFin (sg * of_nat (m + 8388608) * pow2 (int e - 150)))"

text \<open>\<open>struct.pack_into("<f", ...)\<close>: the four bytes, least significant first.\<close>

definition pack_f32 :: "pyfloat \<Rightarrow> bytes res" where
  "pack_f32 x = res_bind (f32_bits x) (\<lambda>n. Inr (rev (be32 n)))"

definition unpack_f32 :: "bytes \<Rightarrow> nat \<Rightarrow> pyfloat" where
  "unpack_f32 b i = f32_of_bits (rd32 (rev (take 4 (drop i b))) 0)"

section \<open>Values\<close>

datatype pyval =
    PNone
  | PBool bool
  | PInt int
  | PFloat pyfloat
  | PStr string
  | PList "pyval list"
  | PDict "(string \<times> pyval) list"

definition is_num :: "pyval \<Rightarrow> bool" where
  "is_num v = (case v of PBool _ \<Rightarrow> True | PInt _ \<Rightarrow> True | PFloat _ \<Rightarrow> True | _ \<Rightarrow> False)"

text \<open>The exact number a \<open>bool\<close>, \<open>int\<close> or \<open>float\<close> stands for when two numbers are compared.\<close>

definition num_val :: "pyval \<Rightarrow> pyfloat option" where
  "num_val v =
     (case v of
        PBool b \<Rightarrow> Some (FFin (if b then 1 else 0))
      | PInt i \<Rightarrow> Some (FFin (of_int i))
      | PFloat f \<Rightarrow> Some f
      | _ \<Rightarrow> None)"

text \<open>Truth value testing.\<close>

fun py_bool :: "pyval \<Rightarrow> bool" where
  "py_bool PNone = False"
| "py_bool (PBool b) = b"
| "py_bool (PInt i) = (i \<noteq> 0)"
| "py_bool (PFloat f) = (f \<noteq> FFin 0)"
| "py_bool (PStr s) = (s \<noteq> [])"
| "py_bool (PList xs) = (xs \<noteq> [])"
| "py_bool (PDict d) = (d \<noteq> [])"

text \<open>\<open>==\<close>: numbers compare by value across \<open>bool\<close>, \<open>int\<close> and \<open>float\<close>; dictionaries ignore order.\<close>

fun py_eq :: "pyval \<Rightarrow> pyval \<Rightarrow> bool"
and py_eq_list :: "pyval list \<Rightarrow> pyval list \<Rightarrow> bool"
and py_eq_items :: "(string \<times> pyval) list \<Rightarrow> (string \<times> pyval) list \<Rightarrow> bool" where
  "py_eq v w =
     (case v of
        PNone \<Rightarrow> w = PNone
      | PStr s \<Rightarrow> w = PStr s
      | PList xs \<Rightarrow> (case w of PList ys \<Rightarrow> py_eq_list xs ys | _ \<Rightarrow> False)
      | PDict d \<Rightarrow>
          (case w of PDict e \<Rightarrow> length d = length e \<and> py_eq_items d e | _ \<Rightarrow> False)
      | _ \<Rightarrow> (case (num_val v, num_val w) of (Some a, Some b) \<Rightarrow> flt_eq a b | _ \<Rightarrow> False))"
| "py_eq_list [] ys = (ys = [])"
| "py_eq_list (x # xs) ys = (case ys of [] \<Rightarrow> False | y # zs \<Rightarrow> py_eq x y \<and> py_eq_list xs zs)"
| "py_eq_items [] e = True"
| "py_eq_items (kv # d) e =
     ((case map_of e (fst kv) of None \<Rightarrow> False | Some w \<Rightarrow> py_eq (snd kv) w) \<and> py_eq_items d e)"

declare py_eq.simps [simp del]

text \<open>\<open>int(v)\<close>.\<close>

definition py_int :: "pyval \<Rightarrow> int res" where
  "py_int v =
     (case v of
        PBool b \<Rightarrow> Inr (if b then 1 else 0)
      | PInt i \<Rightarrow> Inr i
      | PFloat f \<Rightarrow>
          (case f of
             FNaN \<Rightarrow> Inl ValueError
           | FInf _ \<Rightarrow> Inl OverflowError
           | FFin q \<Rightarrow> Inr (if q < 0 then - \<lfloor>- q\<rfloor> else \<lfloor>q\<rfloor>))
      | PStr s \<Rightarrow> py_int_of_str s
      | _ \<Rightarrow> Inl TypeError)"

text \<open>\<open>tuple(v)\<close>, \<open>list(v)\<close> and iteration.\<close>

definition py_iter :: "pyval \<Rightarrow> pyval list res" where
  "py_iter v =
     (case v of
        PList xs \<Rightarrow> Inr xs
      | PStr s \<Rightarrow> Inr (map (\<lambda>c. PStr [c]) s)
      | PDict d \<Rightarrow> Inr (map (\<lambda>kv. PStr (fst kv)) d)
      | _ \<Rightarrow> Inl TypeError)"

text \<open>\<open>v[k]\<close> and \<open>v.get(k)\<close>, \<open>v.get(k, default)\<close> with a string key.\<close>

definition py_item :: "pyval \<Rightarrow> string \<Rightarrow> pyval res" where
  "py_item v k =
     (case v of PDict d \<Rightarrow> of_option KeyError (map_of d k) | _ \<Rightarrow> Inl TypeError)"

definition py_get_or :: "pyval \<Rightarrow> string \<Rightarrow> pyval \<Rightarrow> pyval res" where
  "py_get_or v k dflt =
     (case v of
        PDict d \<Rightarrow> Inr (case map_of d k of None \<Rightarrow> dflt | Some w \<Rightarrow> w)
      | _ \<Rightarrow> Inl AttributeError)"

definition py_get :: "pyval \<Rightarrow> string \<Rightarrow> pyval res" where
  "py_get v k = py_get_or v k PNone"

text \<open>A string method called on a value that is not a \<open>str\<close> raises \<open>AttributeError\<close>.\<close>

definition as_str :: "pyval \<Rightarrow> string res" where
  "as_str v = (case v of PStr s \<Rightarrow> Inr s | _ \<Rightarrow> Inl AttributeError)"

text \<open>An entry that is written only when the attribute is not \<open>None\<close>.\<close>

definition not_none :: "string \<Rightarrow> pyval \<Rightarrow> (string \<times> pyval) list" where
  "not_none k v = (if v = PNone then [] else [(k, v)])"

text \<open>A value that \<open>None\<close> stands for when absent, as the frames' optional attributes.\<close>

fun opt_val :: "('a \<Rightarrow> pyval) \<Rightarrow> 'a option \<Rightarrow> pyval" where
  "opt_val f None = PNone"
| "opt_val f (Some x) = f x"

text \<open>\<open>C.from_dict(raw) if raw else None\<close>\<close>

definition opt_sub :: "(pyval \<Rightarrow> 'a res) \<Rightarrow> pyval \<Rightarrow> 'a option res" where
  "opt_sub from_dict raw =
     (if py_bool raw then res_bind (from_dict raw) (\<lambda>x. Inr (Some x)) else Inr None)"

lemma opt_sub_None [simp]: "opt_sub g PNone = Inr None"
  by (simp add: opt_sub_def)

lemma opt_sub_opt_val:
  "(\<And>y. x = Some y \<Longrightarrow> py_bool (h y) \<and> g (h y) = Inr y) \<Longrightarrow> opt_sub g (opt_val h x) = Inr x"
  by (cases x) (simp_all add: opt_sub_def)

text \<open>
  Dictionaries whose keys are arbitrary hashable values: keys are compared with \<open>==\<close>; setting an
  existing key keeps its position. A list or a dictionary as a key raises \<open>TypeError\<close>.
\<close>

definition py_hashable :: "pyval \<Rightarrow> bool" where
  "py_hashable v = (case v of PList _ \<Rightarrow> False | PDict _ \<Rightarrow> False | _ \<Rightarrow> True)"

fun pd_get :: "(pyval \<times> 'v) list \<Rightarrow> pyval \<Rightarrow> 'v option" where
  "pd_get [] k = None"
| "pd_get ((k', v) # d) k = (if py_eq k' k then Some v else pd_get d k)"

fun pd_set :: "pyval \<Rightarrow> 'v \<Rightarrow> (pyval \<times> 'v) list \<Rightarrow> (pyval \<times> 'v) list" where
  "pd_set k v [] = [(k, v)]"
| "pd_set k v ((k', w) # d) = (if py_eq k' k then (k', v) # d else (k', w) # pd_set k v d)"

fun pd_pop :: "pyval \<Rightarrow> (pyval \<times> 'v) list \<Rightarrow> (pyval \<times> 'v) list" where
  "pd_pop k [] = []"
| "pd_pop k ((k', w) # d) = (if py_eq k' k then d else (k', w) # pd_pop k d)"

section \<open>Lemmas\<close>

lemma py_item_dict [simp]: "py_item (PDict d) k = of_option KeyError (map_of d k)"
  by (simp add: py_item_def)

lemma py_get_dict [simp]:
  "py_get (PDict d) k = Inr (case map_of d k of None \<Rightarrow> PNone | Some w \<Rightarrow> w)"
  by (simp add: py_get_def py_get_or_def)

lemma py_get_or_dict [simp]:
  "py_get_or (PDict d) k w = Inr (case map_of d k of None \<Rightarrow> w | Some w \<Rightarrow> w)"
  by (simp add: py_get_or_def)

lemma py_iter_list [simp]: "py_iter (PList xs) = Inr xs"
  by (simp add: py_iter_def)

lemma py_int_int [simp]: "py_int (PInt i) = Inr i"
  by (simp add: py_int_def)

lemma as_str_simps [simp]: "as_str (PStr s) = Inr s"
  by (simp add: as_str_def)

lemma as_str_eq_Inr [res_simps]: "as_str v = Inr s \<longleftrightarrow> v = PStr s"
  by (cases v) (auto simp: as_str_def)

lemma map_of_not_none [simp]:
  "map_of (not_none k v) k' = (if k = k' \<and> v \<noteq> PNone then Some v else None)"
  by (auto simp: not_none_def)

lemma py_eq_simps [simp]:
  "py_eq PNone w = (w = PNone)"
  "py_eq (PStr s) w = (w = PStr s)"
  "py_eq (PList xs) (PList ys) = py_eq_list xs ys"
  "py_eq (PBool b) (PBool c) = (b = c)"
  "py_eq (PInt i) (PInt j) = (i = j)"
  "py_eq (PFloat f) (PFloat g) = flt_eq f g"
  by (auto simp: py_eq.simps num_val_def split: pyval.splits)

lemma py_eq_PStr_right [simp]: "py_eq v (PStr s) = (v = PStr s)"
  by (cases v) (auto simp: py_eq.simps num_val_def)

lemma py_eq_PNone_right [simp]: "py_eq v PNone = (v = PNone)"
  by (cases v) (auto simp: py_eq.simps num_val_def)

end
