(* ===== verification/NpsFrames.thy ===== *)
theory NpsFrames
  imports PyValue
begin

unbundle bit_operations_syntax

text \<open>
  \<open>nps_sdk/core/frames.py\<close> and \<open>nps_sdk/core/registry.py\<close>: the frame type codes, the
  flags byte, the 4- and 8-byte frame headers and the registry that maps a frame type to
  the class that decodes it.
\<close>

section \<open>Frame types and flags\<close>

datatype frame_type =
    ANCHOR | DIFF | STREAM | CAPS | ALIGN | HELLO
  | QUERY | ACTION
  | IDENT | TRUST | REVOKE
  | ANNOUNCE | RESOLVE | GRAPH
  | TASK | DELEGATE | SYNC | ALIGN_STREAM
  | ERROR

datatype encoding_tier = JSON | MSGPACK | BINARY_VECTOR

fun frame_type_code :: "frame_type \<Rightarrow> byte" where
  "frame_type_code ANCHOR = 0x01"
| "frame_type_code DIFF = 0x02"
| "frame_type_code STREAM = 0x03"
| "frame_type_code CAPS = 0x04"
| "frame_type_code ALIGN = 0x05"
| "frame_type_code HELLO = 0x06"
| "frame_type_code QUERY = 0x10"
| "frame_type_code ACTION = 0x11"
| "frame_type_code IDENT = 0x20"
| "frame_type_code TRUST = 0x21"
| "frame_type_code REVOKE = 0x22"
| "frame_type_code ANNOUNCE = 0x30"
| "frame_type_code RESOLVE = 0x31"
| "frame_type_code GRAPH = 0x32"
| "frame_type_code TASK = 0x40"
| "frame_type_code DELEGATE = 0x41"
| "frame_type_code SYNC = 0x42"
| "frame_type_code ALIGN_STREAM = 0x43"
| "frame_type_code ERROR = 0xFE"

definition frame_types :: "frame_type list" where
  "frame_types = [ANCHOR, DIFF, STREAM, CAPS, ALIGN, HELLO, QUERY, ACTION, IDENT, TRUST, REVOKE,
     ANNOUNCE, RESOLVE, GRAPH, TASK, DELEGATE, SYNC, ALIGN_STREAM, ERROR]"

text \<open>\<open>FrameType(b)\<close> raises \<open>ValueError\<close> for a byte that is no member of the enumeration.\<close>

definition frame_type_of :: "byte \<Rightarrow> frame_type res" where
  "frame_type_of b = of_option ValueError (find (\<lambda>t. frame_type_code t = b) frame_types)"

fun tier_code :: "encoding_tier \<Rightarrow> byte" where
  "tier_code JSON = 0x00"
| "tier_code MSGPACK = 0x01"
| "tier_code BINARY_VECTOR = 0x02"

text \<open>\<open>EncodingTier(n)\<close> raises \<open>ValueError\<close> for the reserved value 3.\<close>

definition encoding_tier_of :: "byte \<Rightarrow> encoding_tier res" where
  "encoding_tier_of b =
     (if b = 0x00 then Inr JSON else if b = 0x01 then Inr MSGPACK
      else if b = 0x02 then Inr BINARY_VECTOR else Inl ValueError)"

definition FLAG_FINAL :: byte where "FLAG_FINAL = 0x04"
definition FLAG_ENCRYPTED :: byte where "FLAG_ENCRYPTED = 0x08"
definition FLAG_EXT :: byte where "FLAG_EXT = 0x80"

definition DEFAULT_HEADER_SIZE :: nat where "DEFAULT_HEADER_SIZE = 4"
definition EXTENDED_HEADER_SIZE :: nat where "EXTENDED_HEADER_SIZE = 8"
definition DEFAULT_MAX_PAYLOAD :: int where "DEFAULT_MAX_PAYLOAD = 0xFFFF"
definition EXTENDED_MAX_PAYLOAD :: int where "EXTENDED_MAX_PAYLOAD = 0xFFFFFFFF"

section \<open>The frame header\<close>

record frame_header =
  hdr_frame_type :: frame_type
  hdr_flags :: byte
  hdr_payload_length :: int

definition is_extended :: "frame_header \<Rightarrow> bool" where
  "is_extended h = (hdr_flags h AND FLAG_EXT \<noteq> 0)"

definition header_size :: "frame_header \<Rightarrow> nat" where
  "header_size h = (if is_extended h then EXTENDED_HEADER_SIZE else DEFAULT_HEADER_SIZE)"

definition hdr_encoding_tier :: "frame_header \<Rightarrow> encoding_tier res" where
  "hdr_encoding_tier h = encoding_tier_of (hdr_flags h AND 0x03)"

definition is_final :: "frame_header \<Rightarrow> bool" where
  "is_final h = (hdr_flags h AND 0x04 \<noteq> 0)"

definition is_encrypted :: "frame_header \<Rightarrow> bool" where
  "is_encrypted h = (hdr_flags h AND 0x08 \<noteq> 0)"

definition parse_header :: "bytes \<Rightarrow> frame_header res" where
  "parse_header buf =
     (if length buf < 2 then Inl NpsFrameError
      else let flags = buf ! 1 in
        if flags AND FLAG_EXT \<noteq> 0 then
          (if length buf < EXTENDED_HEADER_SIZE then Inl NpsFrameError
           else res_bind (frame_type_of (buf ! 0)) (\<lambda>ft.
                  Inr \<lparr>hdr_frame_type = ft, hdr_flags = flags,
                       hdr_payload_length = int (rd32 buf 4)\<rparr>))
        else
          (if length buf < DEFAULT_HEADER_SIZE then Inl NpsFrameError
           else res_bind (frame_type_of (buf ! 0)) (\<lambda>ft.
                  Inr \<lparr>hdr_frame_type = ft, hdr_flags = flags,
                       hdr_payload_length = int (rd16 buf 2)\<rparr>)))"

definition header_to_bytes :: "frame_header \<Rightarrow> bytes res" where
  "header_to_bytes h =
     (if is_extended h then
        res_bind (pack_u32 (hdr_payload_length h)) (\<lambda>l.
          Inr ([frame_type_code (hdr_frame_type h), hdr_flags h] @ be16 0 @ l))
      else
        res_bind (pack_u16 (hdr_payload_length h)) (\<lambda>l.
          Inr ([frame_type_code (hdr_frame_type h), hdr_flags h] @ l)))"

section \<open>The frame registry\<close>

datatype frame_class =
    AnchorFrame | DiffFrame | StreamFrame | CapsFrame | HelloFrame | ErrorFrame
  | NcpHandshakeCapsFrame | QueryFrame | ActionFrame | IdentFrame | TrustFrame | RevokeFrame
  | AnnounceFrame | ResolveFrame | GraphFrame
  | TaskFrame | DelegateFrame | SyncFrame | AlignStreamFrame

type_synonym frame_registry = "frame_type \<rightharpoonup> frame_class"

definition registry_resolve :: "frame_registry \<Rightarrow> frame_type \<Rightarrow> frame_class res" where
  "registry_resolve reg ft = of_option NpsFrameError (reg ft)"

definition registry_register :: "frame_type \<Rightarrow> frame_class \<Rightarrow> frame_registry \<Rightarrow> frame_registry" where
  "registry_register ft cls reg = reg(ft \<mapsto> cls)"

definition create_default :: frame_registry where
  "create_default = map_of
     [(ANCHOR, AnchorFrame), (DIFF, DiffFrame), (STREAM, StreamFrame),
      (CAPS, CapsFrame), (HELLO, HelloFrame), (ERROR, ErrorFrame)]"

definition create_full :: frame_registry where
  "create_full =
     (registry_register ALIGN_STREAM AlignStreamFrame
     (registry_register SYNC SyncFrame
     (registry_register DELEGATE DelegateFrame
     (registry_register TASK TaskFrame
     (registry_register GRAPH GraphFrame
     (registry_register RESOLVE ResolveFrame
     (registry_register ANNOUNCE AnnounceFrame
     (registry_register REVOKE RevokeFrame
     (registry_register TRUST TrustFrame
     (registry_register IDENT IdentFrame
     (registry_register ACTION ActionFrame
     (registry_register QUERY QueryFrame create_default))))))))))))"

section \<open>Headers that fit their length field\<close>

definition header_ok :: "frame_header \<Rightarrow> bool" where
  "header_ok h =
     (0 \<le> hdr_payload_length h \<and>
      hdr_payload_length h \<le> (if is_extended h then EXTENDED_MAX_PAYLOAD else DEFAULT_MAX_PAYLOAD))"

lemmas header_consts = DEFAULT_HEADER_SIZE_def EXTENDED_HEADER_SIZE_def
  DEFAULT_MAX_PAYLOAD_def EXTENDED_MAX_PAYLOAD_def

lemma frame_type_of_code [simp]: "frame_type_of (frame_type_code t) = Inr t"
  by (cases t) (simp_all add: frame_type_of_def frame_types_def)

lemma frame_type_of_Inr: "frame_type_of b = Inr t \<longleftrightarrow> b = frame_type_code t"
proof
  assume "frame_type_of b = Inr t"
  then show "b = frame_type_code t"
    by (auto simp: frame_type_of_def res_simps find_Some_iff)
qed simp

lemma frame_type_of_Inl: "frame_type_of b = Inl e \<Longrightarrow> e = ValueError \<and> b \<notin> range frame_type_code"
proof -
  assume a: "frame_type_of b = Inl e"
  then have "e = ValueError" by (auto simp: frame_type_of_def of_option_def split: option.splits)
  moreover have "b \<noteq> frame_type_code t" for t using a by auto
  ultimately show ?thesis by auto
qed

lemma encoding_tier_of_code [simp]: "encoding_tier_of (tier_code t) = Inr t"
  by (cases t) (simp_all add: encoding_tier_of_def)

lemma encoding_tier_of_Inr: "encoding_tier_of b = Inr t \<longleftrightarrow> b = tier_code t"
  by (cases t) (auto simp: encoding_tier_of_def)

lemma tier_code_bits [simp]: "tier_code t AND 3 = tier_code t"
  by (cases t) simp_all

lemma header_ok_to_bytes:
  assumes "header_ok h"
  shows "\<exists>bs. header_to_bytes h = Inr bs \<and> length bs = header_size h"
  using assms by (auto simp: header_ok_def header_to_bytes_def header_size_def header_consts
      pack_u16_def pack_u32_def split: if_splits)

lemma header_to_bytes_ok: "header_to_bytes h = Inr bs \<Longrightarrow> header_ok h \<and> length bs = header_size h"
  by (auto simp: header_ok_def header_to_bytes_def header_size_def header_consts res_simps
      pack_u16_def pack_u32_def split: if_splits)

lemma parse_to_bytes:
  assumes "header_to_bytes h = Inr bs"
  shows "parse_header (bs @ rest) = Inr h"
proof (cases "is_extended h")
  case True
  define n where "n = nat (hdr_payload_length h)"
  have l: "0 \<le> hdr_payload_length h" "hdr_payload_length h \<le> 4294967295"
    and bs: "bs = [frame_type_code (hdr_frame_type h), hdr_flags h] @ be16 0 @ be32 n"
    using assms True by (auto simp: header_to_bytes_def pack_u32_def n_def res_simps split: if_splits)
  have "rd32 (bs @ rest) 4 = n"
    using rd32_be32 [of n "[frame_type_code (hdr_frame_type h), hdr_flags h] @ be16 0" rest] l
    by (simp add: bs n_def)
  then show ?thesis
    using True l
    by (simp add: parse_header_def bs is_extended_def header_consts n_def be16_def)
next
  case False
  define n where "n = nat (hdr_payload_length h)"
  have l: "0 \<le> hdr_payload_length h" "hdr_payload_length h \<le> 65535"
    and bs: "bs = [frame_type_code (hdr_frame_type h), hdr_flags h] @ be16 n"
    using assms False by (auto simp: header_to_bytes_def pack_u16_def n_def res_simps split: if_splits)
  have "rd16 (bs @ rest) 2 = n"
    using rd16_be16 [of n "[frame_type_code (hdr_frame_type h), hdr_flags h]" rest] l
    by (simp add: bs n_def numeral_2_eq_2)
  then show ?thesis
    using False l by (simp add: parse_header_def bs is_extended_def header_consts n_def)
qed

lemma parse_header_ok: "parse_header buf = Inr h \<Longrightarrow> header_ok h \<and> header_size h \<le> length buf"
  using rd16_bound [of buf 2] rd32_bound [of buf 4]
  by (auto simp: parse_header_def header_ok_def header_size_def is_extended_def header_consts
      res_simps Let_def split: if_splits)

lemma parse_header_only_header:
  "parse_header buf = Inr h \<Longrightarrow> parse_header (take (header_size h) buf @ rest) = Inr h"
  by (auto simp: parse_header_def header_size_def is_extended_def header_consts res_simps Let_def
      rd16_def rd32_def nth_append split: if_splits)

text \<open>
  A frame header whose length fits its length field is written by \<open>to_bytes\<close> to exactly
  \<open>header_size\<close> bytes, and \<open>parse\<close> reads back the same header from those bytes, whatever
  follows them.
\<close>

theorem header_roundtrip:
  assumes "header_ok h"
  shows "\<exists>bs. header_to_bytes h = Inr bs \<and> length bs = header_size h
    \<and> (\<forall>rest. parse_header (bs @ rest) = Inr h)"
  using header_ok_to_bytes [OF assms] parse_to_bytes by blast

theorem header_roundtrip_witness:
  "\<exists>bs. header_to_bytes \<lparr>hdr_frame_type = QUERY, hdr_flags = 0x85, hdr_payload_length = 70000\<rparr> = Inr bs
     \<and> length bs = 8
     \<and> (\<forall>rest. parse_header (bs @ rest)
          = Inr \<lparr>hdr_frame_type = QUERY, hdr_flags = 0x85, hdr_payload_length = 70000\<rparr>)"
proof -
  let ?h = "\<lparr>hdr_frame_type = QUERY, hdr_flags = 0x85, hdr_payload_length = 70000\<rparr>"
  have "header_ok ?h" "header_size ?h = 8"
    by (simp_all add: header_ok_def header_size_def is_extended_def FLAG_EXT_def header_consts)
  with header_roundtrip [of ?h] show ?thesis by simp
qed

text \<open>
  \<open>parse\<close> classifies every buffer: it succeeds exactly when the buffer holds a whole header
  (4 bytes, or 8 when the EXT bit is set) with a known type byte; a short buffer raises
  \<open>NpsFrameError\<close>; and a complete header with an unknown type byte raises \<open>ValueError\<close>, not
  \<open>NpsFrameError\<close>.
\<close>

theorem parse_header_outcomes:
  "case parse_header buf of
     Inr h \<Rightarrow> header_ok h \<and> header_size h \<le> length buf
              \<and> buf ! 0 = frame_type_code (hdr_frame_type h) \<and> buf ! 1 = hdr_flags h
   | Inl e \<Rightarrow>
       (let need = (if 2 \<le> length buf \<and> buf ! 1 AND FLAG_EXT \<noteq> 0 then 8 else 4) in
        if length buf < need then e = NpsFrameError
        else e = ValueError \<and> buf ! 0 \<notin> range frame_type_code)"
proof (cases "parse_header buf")
  case (Inr h)
  then have "buf ! 0 = frame_type_code (hdr_frame_type h) \<and> buf ! 1 = hdr_flags h"
    by (auto simp: parse_header_def res_simps Let_def frame_type_of_Inr split: if_splits)
  with Inr parse_header_ok show ?thesis by simp
next
  case (Inl e)
  show ?thesis
  proof (cases "length buf < (if 2 \<le> length buf \<and> buf ! 1 AND FLAG_EXT \<noteq> 0 then 8 else 4)")
    case True
    with Inl show ?thesis
      by (auto simp: parse_header_def Let_def header_consts split: if_splits)
  next
    case False
    with Inl have "frame_type_of (buf ! 0) = Inl e"
      by (auto simp: parse_header_def Let_def header_consts res_simps split: if_splits)
    with Inl False show ?thesis by (auto dest: frame_type_of_Inl)
  qed
qed

text \<open>
  The registry made by \<open>create_full\<close> resolves every frame type except the deprecated \<open>ALIGN\<close>,
  for which \<open>resolve\<close> raises \<open>NpsFrameError\<close>; it agrees with \<open>create_default\<close> on the NCP frames.
\<close>

theorem create_full_resolves:
  "(registry_resolve create_full ft = Inl NpsFrameError \<longleftrightarrow> ft = ALIGN)
   \<and> (create_default ft \<noteq> None \<longrightarrow> registry_resolve create_full ft = registry_resolve create_default ft)"
  by (cases ft)
    (simp_all add: registry_resolve_def create_full_def create_default_def registry_register_def)

theorem create_full_resolves_witness:
  "create_default HELLO \<noteq> None \<and> registry_resolve create_full HELLO = Inr HelloFrame
   \<and> registry_resolve create_full ALIGN = Inl NpsFrameError"
  using create_full_resolves [of HELLO] create_full_resolves [of ALIGN]
  by (simp add: registry_resolve_def create_default_def)

end
