(* ===== verification/Codec.thy ===== *)
theory Codec
  imports NpsFrames
begin

unbundle bit_operations_syntax

text \<open>
  \<open>nps_sdk/core/codec.py\<close>: the Tier-1 JSON, Tier-2 MessagePack and Tier-3 BinaryVector
  payload codecs and the dispatcher \<open>NpsFrameCodec\<close>.

  A frame class is seen through the operations the codec calls on it (\<open>frame_api\<close>). The
  \<open>json\<close> text functions and the third-party \<open>msgpack\<close> package are the functions of a
  \<open>wire_lib\<close>.
\<close>

section \<open>What the codec calls\<close>

record 'f frame_api =
  fa_type :: "'f \<Rightarrow> frame_type"
  fa_tier :: "'f \<Rightarrow> encoding_tier"
  fa_to_dict :: "'f \<Rightarrow> pyval"
  fa_stream_last :: "'f \<Rightarrow> bool option"  \<comment> \<open>\<open>Some is_last\<close> for a \<open>StreamFrame\<close>\<close>
  fa_from_dict :: "frame_class \<Rightarrow> pyval \<Rightarrow> 'f res"

record wire_lib =
  json_dumps :: "pyval \<Rightarrow> bytes res"
  json_loads :: "bytes \<Rightarrow> pyval res"
  msgpack_packb :: "pyval \<Rightarrow> bytes res"
  msgpack_unpackb :: "bytes \<Rightarrow> pyval res"

text \<open>\<open>except Exception as exc: raise NpsCodecError(...) from exc\<close>\<close>

definition wrap_codec_error :: "'a res \<Rightarrow> 'a res" where
  "wrap_codec_error r = (case r of Inl _ \<Rightarrow> Inl NpsCodecError | Inr x \<Rightarrow> Inr x)"

section \<open>Tier 1 and Tier 2\<close>

definition tier1_encode :: "wire_lib \<Rightarrow> 'f frame_api \<Rightarrow> 'f \<Rightarrow> bytes res" where
  "tier1_encode lib api f = wrap_codec_error (json_dumps lib (fa_to_dict api f))"

definition tier1_decode ::
  "wire_lib \<Rightarrow> 'f frame_api \<Rightarrow> frame_registry \<Rightarrow> frame_type \<Rightarrow> bytes \<Rightarrow> 'f res" where
  "tier1_decode lib api reg ft payload =
     res_bind (registry_resolve reg ft) (\<lambda>cls.
       wrap_codec_error (res_bind (json_loads lib payload) (fa_from_dict api cls)))"

definition tier2_encode :: "wire_lib \<Rightarrow> 'f frame_api \<Rightarrow> 'f \<Rightarrow> bytes res" where
  "tier2_encode lib api f = wrap_codec_error (msgpack_packb lib (fa_to_dict api f))"

definition tier2_decode ::
  "wire_lib \<Rightarrow> 'f frame_api \<Rightarrow> frame_registry \<Rightarrow> frame_type \<Rightarrow> bytes \<Rightarrow> 'f res" where
  "tier2_decode lib api reg ft payload =
     res_bind (registry_resolve reg ft) (\<lambda>cls.
       wrap_codec_error (res_bind (msgpack_unpackb lib payload) (fa_from_dict api cls)))"

section \<open>Tier 3: BinaryVector\<close>

definition MAGIC :: bytes where "MAGIC = [0x4E, 0x50, 0x42, 0x56]"  \<comment> \<open>\<open>b"NPBV"\<close>\<close>
definition VERSION :: byte where "VERSION = 1"
definition PREFIX_SIZE :: nat where "PREFIX_SIZE = 16"
definition MARKER_KEY :: string where "MARKER_KEY = ''$nps_binary_vector''"

text \<open>The finite floats of a list of numbers; \<open>None\<close> when an item stops the extraction.\<close>

fun vector_values :: "pyval list \<Rightarrow> pyfloat list option res" where
  "vector_values [] = Inr (Some [])"
| "vector_values (item # items) =
     (if \<not> is_num item then Inr None
      else res_bind (case item of PInt i \<Rightarrow> float_of_int i
                                | PBool b \<Rightarrow> Inr (FFin (if b then 1 else 0))
                                | PFloat f \<Rightarrow> Inr f
                                | _ \<Rightarrow> Inl TypeError) (\<lambda>value.
        (case value of
           FFin q \<Rightarrow> res_bind (vector_values items) (\<lambda>vs. Inr (map_option (\<lambda>xs. FFin q # xs) vs))
         | _ \<Rightarrow> Inr None)))"

definition vector_marker :: "nat \<Rightarrow> pyfloat list \<Rightarrow> pyval" where
  "vector_marker index values =
     PDict [(MARKER_KEY, PInt (int index)), (''dtype'', PStr ''float32''),
            (''dim'', PInt (int (length values)))]"

definition extract_vector_search_vector ::
  "pyval dict \<Rightarrow> pyfloat list list \<Rightarrow> (pyval dict \<times> pyfloat list list) res" where
  "extract_vector_search_vector metadata vectors =
     (case map_of metadata ''vector_search'' of
        Some (PDict vs) \<Rightarrow>
          (case map_of vs ''vector'' of
             Some (PList items) \<Rightarrow>
               res_bind (vector_values items) (\<lambda>r.
                 (case r of
                    None \<Rightarrow> Inr (metadata, vectors)
                  | Some values \<Rightarrow>
                      Inr (dict_set ''vector_search''
                             (PDict (dict_set ''vector'' (vector_marker (length vectors) values) vs))
                             metadata,
                           vectors @ [values])))
           | _ \<Rightarrow> Inr (metadata, vectors))
      | _ \<Rightarrow> Inr (metadata, vectors))"

definition vector_segment :: "pyfloat list \<Rightarrow> bytes res" where
  "vector_segment vector =
     res_bind (pack_u32 (int (length vector))) (\<lambda>dim.
       res_bind (res_map pack_f32 vector) (\<lambda>fs. Inr (dim @ concat fs)))"

definition tier3_layout :: "bytes \<Rightarrow> pyfloat list list \<Rightarrow> bytes res" where
  "tier3_layout metadata_bytes vectors =
     res_bind (pack_u16 (int (length vectors))) (\<lambda>count.
       res_bind (pack_u32 (int (length metadata_bytes))) (\<lambda>mlen.
         res_bind (res_map vector_segment vectors) (\<lambda>segs.
           Inr (MAGIC @ [VERSION, 0] @ count @ mlen @ be32 0 @ metadata_bytes @ concat segs))))"

definition tier3_encode :: "wire_lib \<Rightarrow> 'f frame_api \<Rightarrow> 'f \<Rightarrow> bytes res" where
  "tier3_encode lib api f =
     wrap_codec_error
       (case fa_to_dict api f of
          PDict metadata \<Rightarrow>
            res_bind (extract_vector_search_vector metadata []) (\<lambda>(metadata', vectors).
              if length vectors > 0xFFFF then Inl NpsCodecError
              else res_bind (msgpack_packb lib (PDict metadata')) (\<lambda>metadata_bytes.
                     tier3_layout metadata_bytes vectors))
        | _ \<Rightarrow> Inl NpsCodecError)"

fun read_vectors :: "bytes \<Rightarrow> nat \<Rightarrow> nat \<Rightarrow> (pyfloat list list \<times> nat) res" where
  "read_vectors payload 0 off = Inr ([], off)"
| "read_vectors payload (Suc n) off =
     (if length payload - off < 4 then Inl NpsCodecError
      else let dim = rd32 payload off; off1 = off + 4; byte_len = dim * 4 in
        if length payload - off1 < byte_len then Inl NpsCodecError
        else res_bind (read_vectors payload n (off1 + byte_len)) (\<lambda>(vs, off').
               Inr (map (\<lambda>i. unpack_f32 payload (off1 + 4 * i)) [0..<dim] # vs, off')))"

definition tier3_decode_payload ::
  "wire_lib \<Rightarrow> bytes \<Rightarrow> (pyval dict \<times> pyfloat list list) res" where
  "tier3_decode_payload lib payload =
     (if length payload < PREFIX_SIZE then Inl NpsCodecError
      else if take 4 payload \<noteq> MAGIC then Inl NpsCodecError
      else if payload ! 4 \<noteq> VERSION then Inl NpsCodecError
      else if payload ! 5 \<noteq> 0 \<or> rd32 payload 12 \<noteq> 0 then Inl NpsCodecError
      else let vector_count = rd16 payload 6; metadata_len = rd32 payload 8 in
        if metadata_len > length payload - PREFIX_SIZE then Inl NpsCodecError
        else res_bind (msgpack_unpackb lib (take metadata_len (drop PREFIX_SIZE payload))) (\<lambda>metadata.
          (case metadata of
             PDict md \<Rightarrow>
               res_bind (read_vectors payload vector_count (PREFIX_SIZE + metadata_len)) (\<lambda>(vectors, off).
                 if off \<noteq> length payload then Inl NpsCodecError else Inr (md, vectors))
           | _ \<Rightarrow> Inl NpsCodecError)))"

definition restore_vector_search_vector ::
  "pyval dict \<Rightarrow> pyfloat list list \<Rightarrow> pyval dict res" where
  "restore_vector_search_vector metadata vectors =
     (case map_of metadata ''vector_search'' of
        Some (PDict vs) \<Rightarrow>
          (case map_of vs ''vector'' of
             None \<Rightarrow> Inr metadata
           | Some (PDict marker) \<Rightarrow>
               (case map_of marker MARKER_KEY of
                  None \<Rightarrow> Inl NpsCodecError
                | Some iv \<Rightarrow>
                    res_bind (py_int iv) (\<lambda>index.
                      if index < 0 \<or> int (length vectors) \<le> index then Inl NpsCodecError
                      else if map_of marker ''dtype'' \<noteq> Some (PStr ''float32'') then Inl NpsCodecError
                      else res_bind (py_int (case map_of marker ''dim'' of None \<Rightarrow> PNone | Some d \<Rightarrow> d)) (\<lambda>dim.
                        let vec = vectors ! nat index in
                        if dim \<noteq> int (length vec) then Inl NpsCodecError
                        else Inr (dict_set ''vector_search''
                               (PDict (dict_set ''vector'' (PList (map PFloat vec)) vs)) metadata))))
           | Some _ \<Rightarrow> Inl NpsCodecError)
      | _ \<Rightarrow> Inr metadata)"

definition tier3_decode ::
  "wire_lib \<Rightarrow> 'f frame_api \<Rightarrow> frame_registry \<Rightarrow> frame_type \<Rightarrow> bytes \<Rightarrow> 'f res" where
  "tier3_decode lib api reg ft payload =
     res_bind (registry_resolve reg ft) (\<lambda>cls.
       wrap_codec_error
         (res_bind (tier3_decode_payload lib payload) (\<lambda>(metadata, vectors).
            res_bind (restore_vector_search_vector metadata vectors) (\<lambda>md.
              fa_from_dict api cls (PDict md)))))"

section \<open>The dispatcher\<close>

definition tier_encode :: "wire_lib \<Rightarrow> 'f frame_api \<Rightarrow> encoding_tier \<Rightarrow> 'f \<Rightarrow> bytes res" where
  "tier_encode lib api tier f =
     (case tier of JSON \<Rightarrow> tier1_encode lib api f
      | MSGPACK \<Rightarrow> tier2_encode lib api f
      | BINARY_VECTOR \<Rightarrow> tier3_encode lib api f)"

definition tier_decode ::
  "wire_lib \<Rightarrow> 'f frame_api \<Rightarrow> frame_registry \<Rightarrow> encoding_tier \<Rightarrow> frame_type \<Rightarrow> bytes \<Rightarrow> 'f res" where
  "tier_decode lib api reg tier ft payload =
     (case tier of JSON \<Rightarrow> tier1_decode lib api reg ft payload
      | MSGPACK \<Rightarrow> tier2_decode lib api reg ft payload
      | BINARY_VECTOR \<Rightarrow> tier3_decode lib api reg ft payload)"

definition build_flags :: "'f frame_api \<Rightarrow> 'f \<Rightarrow> encoding_tier \<Rightarrow> byte" where
  "build_flags api f tier =
     (let flags = tier_code tier;
          final = (case fa_stream_last api f of None \<Rightarrow> True | Some is_last \<Rightarrow> is_last)
      in if final then flags OR FLAG_FINAL else flags)"

definition codec_encode ::
  "wire_lib \<Rightarrow> 'f frame_api \<Rightarrow> int \<Rightarrow> encoding_tier option \<Rightarrow> 'f \<Rightarrow> bytes res" where
  "codec_encode lib api max_payload override_tier f =
     (let tier = (case override_tier of None \<Rightarrow> fa_tier api f | Some t \<Rightarrow> t) in
      res_bind (tier_encode lib api tier f) (\<lambda>payload.
        if int (length payload) > max_payload then Inl NpsCodecError
        else let use_ext = int (length payload) > DEFAULT_MAX_PAYLOAD;
                 flags0 = build_flags api f tier;
                 flags = (if use_ext then flags0 OR FLAG_EXT else flags0);
                 header = \<lparr>hdr_frame_type = fa_type api f, hdr_flags = flags,
                           hdr_payload_length = int (length payload)\<rparr>
             in res_bind (header_to_bytes header) (\<lambda>hb. Inr (hb @ payload))))"

definition codec_decode ::
  "wire_lib \<Rightarrow> 'f frame_api \<Rightarrow> frame_registry \<Rightarrow> bytes \<Rightarrow> 'f res" where
  "codec_decode lib api reg wire =
     res_bind (parse_header wire) (\<lambda>header.
       let payload = take (nat (hdr_payload_length header)) (drop (header_size header) wire) in
       res_bind (hdr_encoding_tier header) (\<lambda>tier.
         tier_decode lib api reg tier (hdr_frame_type header) payload))"

definition peek_header :: "bytes \<Rightarrow> frame_header res" where
  "peek_header wire = parse_header wire"

section \<open>Lemmas\<close>

lemma wrap_codec_error_simps [simp]:
  "wrap_codec_error (Inl e) = Inl NpsCodecError" "wrap_codec_error (Inr x) = Inr x"
  by (simp_all add: wrap_codec_error_def)

lemma wrap_codec_error_Inr [res_simps]: "wrap_codec_error r = Inr x \<longleftrightarrow> r = Inr x"
  by (cases r) simp_all

lemma wrap_codec_error_Inl [res_simps]: "wrap_codec_error r = Inl e \<longleftrightarrow> e = NpsCodecError \<and> (\<exists>e'. r = Inl e')"
  by (cases r) auto

subsection \<open>The flags byte\<close>

lemma build_flags_bits:
  "build_flags api f t AND 0x03 = tier_code t"
  "build_flags api f t AND FLAG_EXT = 0"
  "build_flags api f t AND 0x08 = 0"
  "build_flags api f t AND 0x04 = 0 \<longleftrightarrow> fa_stream_last api f = Some False"
  by (cases t; simp add: build_flags_def FLAG_FINAL_def FLAG_EXT_def split: option.splits)+

lemma build_flags_ext_bits:
  "(build_flags api f t OR FLAG_EXT) AND 0x03 = tier_code t"
  "(build_flags api f t OR FLAG_EXT) AND FLAG_EXT = FLAG_EXT"
  "(build_flags api f t OR FLAG_EXT) AND 0x04 = build_flags api f t AND 0x04"
  by (cases t; simp add: build_flags_def FLAG_FINAL_def FLAG_EXT_def split: option.splits)+

definition frame_hdr :: "'f frame_api \<Rightarrow> 'f \<Rightarrow> encoding_tier \<Rightarrow> nat \<Rightarrow> frame_header" where
  "frame_hdr api f t n =
     \<lparr>hdr_frame_type = fa_type api f,
      hdr_flags = (if int n > DEFAULT_MAX_PAYLOAD then build_flags api f t OR FLAG_EXT
                   else build_flags api f t),
      hdr_payload_length = int n\<rparr>"

lemma frame_hdr_simps [simp]:
  "hdr_frame_type (frame_hdr api f t n) = fa_type api f"
  "hdr_payload_length (frame_hdr api f t n) = int n"
  "hdr_encoding_tier (frame_hdr api f t n) = Inr t"
  "is_extended (frame_hdr api f t n) \<longleftrightarrow> int n > DEFAULT_MAX_PAYLOAD"
  "is_final (frame_hdr api f t n) \<longleftrightarrow> fa_stream_last api f \<noteq> Some False"
proof -
  have e: "FLAG_EXT \<noteq> 0" by (simp add: FLAG_EXT_def)
  show "hdr_frame_type (frame_hdr api f t n) = fa_type api f"
    "hdr_payload_length (frame_hdr api f t n) = int n" by (simp_all add: frame_hdr_def)
  show "hdr_encoding_tier (frame_hdr api f t n) = Inr t"
    by (simp add: frame_hdr_def hdr_encoding_tier_def build_flags_bits build_flags_ext_bits)
  show "is_extended (frame_hdr api f t n) \<longleftrightarrow> int n > DEFAULT_MAX_PAYLOAD"
    by (simp add: frame_hdr_def is_extended_def build_flags_bits build_flags_ext_bits e)
  show "is_final (frame_hdr api f t n) \<longleftrightarrow> fa_stream_last api f \<noteq> Some False"
    by (simp add: frame_hdr_def is_final_def build_flags_bits build_flags_ext_bits)
qed

lemma codec_encode_eq:
  "codec_encode lib api maxp ov f =
     (let t = (case ov of None \<Rightarrow> fa_tier api f | Some t \<Rightarrow> t) in
      res_bind (tier_encode lib api t f) (\<lambda>p.
        if int (length p) > maxp then Inl NpsCodecError
        else res_bind (header_to_bytes (frame_hdr api f t (length p))) (\<lambda>hb. Inr (hb @ p))))"
  by (simp add: codec_encode_def frame_hdr_def Let_def cong: if_cong)

lemma frame_hdr_ok: "int n \<le> EXTENDED_MAX_PAYLOAD \<Longrightarrow> header_ok (frame_hdr api f t n)"
  by (simp add: header_ok_def header_consts)

lemma codec_encode_wire:
  assumes "codec_encode lib api maxp ov f = Inr wire"
  obtains p hb where
    "tier_encode lib api (case ov of None \<Rightarrow> fa_tier api f | Some t \<Rightarrow> t) f = Inr p"
    "int (length p) \<le> maxp"
    "header_to_bytes (frame_hdr api f (case ov of None \<Rightarrow> fa_tier api f | Some t \<Rightarrow> t) (length p)) = Inr hb"
    "wire = hb @ p"
  using assms by (auto simp: codec_encode_eq Let_def res_simps split: if_splits)

lemma codec_decode_wire:
  assumes hb: "header_to_bytes (frame_hdr api f t (length p)) = Inr hb"
  shows "codec_decode lib api reg (hb @ p @ rest) = tier_decode lib api reg t (fa_type api f) p"
proof -
  have "length hb = header_size (frame_hdr api f t (length p))"
    using header_to_bytes_ok [OF hb] by simp
  then show ?thesis
    by (simp add: codec_decode_def parse_to_bytes [OF hb])
qed

subsection \<open>BinaryVector framing\<close>

lemma bit_length_bounds: "0 < n \<Longrightarrow> 2 ^ nat (bit_length n - 1) \<le> n \<and> n < 2 ^ nat (bit_length n) \<and> 1 \<le> bit_length n"
proof (induction n rule: bit_length.induct)
  case (1 n)
  show ?case
  proof (cases "n = 1")
    case True
    then show ?thesis by (simp add: bit_length.simps)
  next
    case False
    define k where "k = bit_length (n div 2)"
    have h: "0 < n div 2" using False 1(2) by simp
    have ih: "2 ^ nat (k - 1) \<le> n div 2" "n div 2 < 2 ^ nat k" "1 \<le> k"
      using 1(1) [OF _ h] 1(2) by (simp_all add: k_def)
    have bl: "bit_length n = 1 + k" using 1(2) by (simp add: bit_length.simps [of n] k_def)
    have "nat k = Suc (nat (k - 1))" "nat (1 + k) = Suc (nat k)" using ih(3) by simp_all
    then have "(2 :: int) ^ nat k = 2 * 2 ^ nat (k - 1)" "(2 :: int) ^ nat (1 + k) = 2 * 2 ^ nat k"
      by simp_all
    then show ?thesis using ih bl by simp linarith
  qed
qed

lemma pow2_pos [simp]: "0 < pow2 e" "0 \<le> pow2 e" "pow2 e \<noteq> 0" "\<not> pow2 e < 0"
  by (simp_all add: pow2_def)

lemma pow2_add: "pow2 (a + b) = pow2 a * pow2 b"
proof -
  have p: "pow2 e = 2 powi e" for e
    by (cases "0 \<le> e") (simp_all add: pow2_def power_int_def power_one_over)
  have "(2 :: rat) powi (a + b) = 2 powi a * 2 powi b" by (rule power_int_add) simp
  then show ?thesis by (simp only: p)
qed

lemma pow2_mono: "a \<le> b \<Longrightarrow> pow2 a \<le> pow2 b"
proof -
  assume "a \<le> b"
  then have "pow2 b = pow2 a * pow2 (b - a)" using pow2_add [of a "b - a"] by simp
  moreover have "1 \<le> pow2 (b - a)" using \<open>a \<le> b\<close> by (simp add: pow2_def)
  ultimately show ?thesis by (simp add: mult_le_cancel_left1)
qed

lemma ilog2_upper: "0 < q \<Longrightarrow> q < pow2 (ilog2 q + 1)"
proof -
  assume q: "0 < q"
  obtain n d where nd: "quotient_of q = (n, d)" by (cases "quotient_of q")
  have d: "0 < d" using quotient_of_denom_pos [OF nd] .
  have qe: "q = of_int n / of_int d" using quotient_of_div [OF nd] .
  have n: "0 < n" using q d by (simp add: qe zero_less_divide_iff)
  define e where "e = bit_length n - bit_length d"
  have "rat_of_int n < of_int (2 ^ nat (bit_length n))"
    using bit_length_bounds [OF n] by (simp only: of_int_less_iff)
  then have n2: "rat_of_int n < pow2 (bit_length n)"
    using bit_length_bounds [OF n] by (simp add: pow2_def)
  have "rat_of_int (2 ^ nat (bit_length d - 1)) \<le> of_int d"
    using bit_length_bounds [OF d] by (simp only: of_int_le_iff)
  then have d2: "pow2 (bit_length d - 1) \<le> rat_of_int d"
    using bit_length_bounds [OF d] by (simp add: pow2_def)
  have "q \<le> of_int n / pow2 (bit_length d - 1)"
    using d2 n by (simp add: qe frac_le)
  also have "\<dots> < pow2 (bit_length n) / pow2 (bit_length d - 1)"
    using n2 by (simp add: divide_strict_right_mono)
  also have "\<dots> = pow2 (e + 1)"
    using pow2_add [of "e + 1" "bit_length d - 1"] by (simp add: e_def field_simps)
  finally have "q < pow2 (e + 1)" .
  then show ?thesis by (auto simp: ilog2_def nd e_def [symmetric] Let_def)
qed

lemma round_half_even_nonneg: "0 \<le> q \<Longrightarrow> 0 \<le> round_half_even q"
  by (simp add: round_half_even_def Let_def)

lemma round_float_bound:
  assumes "round_float p emin emax q = FFin r" "r \<noteq> 0"
  shows "ilog2 \<bar>r\<bar> < emax"
proof -
  have q: "q \<noteq> 0" using assms by (auto simp: round_float_def)
  define u where "u = max (ilog2 \<bar>q\<bar> - (p - 1)) emin"
  define s where "s = of_int (round_half_even (\<bar>q\<bar> / pow2 u)) * pow2 u"
  have s: "0 \<le> s" by (simp add: s_def round_half_even_nonneg)
  have r: "r = sgn q * s" "\<not> (s \<noteq> 0 \<and> emax \<le> ilog2 s)"
    using assms(1) q unfolding round_float_def Let_def u_def [symmetric] s_def [symmetric]
    by (auto split: if_splits)
  have "\<bar>r\<bar> = s" using q s by (simp add: r(1) abs_mult abs_sgn_eq)
  with r assms(2) show ?thesis by auto
qed

lemma f32_bits_bound: "f32_bits x = Inr n \<Longrightarrow> n \<le> 4294967295"
proof (cases x)
  case (FFin q)
  assume n: "f32_bits x = Inr n"
  then obtain r where rr: "round_float 24 (- 149) 128 q = FFin r"
    using FFin by (auto simp: f32_bits_def split: pyfloat.splits)
  show ?thesis
  proof (cases "r = 0")
    case True
    then show ?thesis using n rr FFin by (simp add: f32_bits_def)
  next
    case False
    define a where "a = \<bar>r\<bar>"
    define u where "u = max (ilog2 a - 23) (- 149)"
    have "0 < a" using False by (simp add: a_def)
    have "ilog2 a < 128" unfolding a_def by (rule round_float_bound [OF rr False])
    then have u: "u \<le> 104" "ilog2 a + 1 \<le> u + 24" by (auto simp: u_def)
    have "a < pow2 (u + 24)"
      using ilog2_upper [OF \<open>0 < a\<close>] pow2_mono [OF u(2)] by linarith
    then have "a / pow2 u < 16777216"
      using pow2_add [of u 24] by (simp add: divide_less_eq mult.commute pow2_def [of 24])
    then have m: "nat \<lfloor>a / pow2 u\<rfloor> < 16777216" by linarith
    have "nat (u + 150) \<le> 254" using u by simp
    then show ?thesis
      using n rr FFin False m
      by (auto simp: f32_bits_def Let_def a_def [symmetric] u_def [symmetric] split: if_splits)
  qed
qed (auto simp: f32_bits_def split: if_splits)

text \<open>The float a vector component is on the other side: its binary32 image.\<close>

definition f32_image :: "pyfloat \<Rightarrow> pyfloat" where
  "f32_image x = (case f32_bits x of Inr n \<Rightarrow> f32_of_bits n | Inl _ \<Rightarrow> x)"

lemma unpack_pack_f32:
  assumes "pack_f32 x = Inr b"
  shows "length b = 4" "unpack_f32 (xs @ b @ ys) (length xs) = f32_image x"
proof -
  obtain n where n: "f32_bits x = Inr n" and b: "b = rev (be32 n)"
    using assms by (auto simp: pack_f32_def res_simps)
  show "length b = 4" by (simp add: b)
  have "rd32 (be32 n) 0 = n"
    using rd32_be32 [OF f32_bits_bound [OF n], of "[]" "[]"] by simp
  then show "unpack_f32 (xs @ b @ ys) (length xs) = f32_image x"
    by (simp add: unpack_f32_def b f32_image_def n)
qed

lemma length_concat_f32: "res_map pack_f32 v = Inr fs \<Longrightarrow> length (concat fs) = 4 * length v"
  by (induction v arbitrary: fs) (auto simp: res_simps unpack_pack_f32)

lemma unpack_concat_f32:
  "res_map pack_f32 v = Inr fs \<Longrightarrow>
   map (\<lambda>i. unpack_f32 (xs @ concat fs @ ys) (length xs + 4 * i)) [0..<length v] = map f32_image v"
proof (induction v arbitrary: fs xs)
  case (Cons x v)
  then obtain b gs where b: "pack_f32 x = Inr b" and gs: "res_map pack_f32 v = Inr gs"
    and fs: "fs = b # gs" by (auto simp: res_simps)
  note four = unpack_pack_f32(1) [OF b]
  have tl: "map (\<lambda>i. unpack_f32 ((xs @ b) @ concat gs @ ys) (length (xs @ b) + 4 * i)) [0..<length v]
      = map f32_image v" by (rule Cons.IH [OF gs])
  have "[0..<length (x # v)] = 0 # map Suc [0..<length v]"
    by (simp add: upt_conv_Cons map_Suc_upt del: upt_Suc)
  then show ?case
    using tl unpack_pack_f32(2) [OF b, of xs "concat gs @ ys"]
    by (simp add: fs four comp_def add.assoc del: upt_Suc)
qed simp

lemma read_vectors_segments:
  assumes "res_map vector_segment vs = Inr segs"
  shows "read_vectors (xs @ concat segs) (length vs) (length xs)
         = Inr (map (map f32_image) vs, length (xs @ concat segs))"
  using assms
proof (induction vs arbitrary: segs xs)
  case (Cons v vs)
  then obtain fs ss where l: "int (length v) \<le> 4294967295" and fs: "res_map pack_f32 v = Inr fs"
    and ss: "res_map vector_segment vs = Inr ss"
    and segs: "segs = (be32 (length v) @ concat fs) # ss"
    by (auto simp: res_simps vector_segment_def [of v] pack_u32_def split: if_splits)
  let ?p = "xs @ concat segs"
  have dim: "rd32 ?p (length xs) = length v"
    using rd32_be32 [of "length v" xs "concat fs @ concat ss"] l by (simp add: segs)
  have len: "length (concat fs) = 4 * length v" by (rule length_concat_f32 [OF fs])
  have vec: "map (\<lambda>i. unpack_f32 ?p (length xs + 4 + 4 * i)) [0..<length v] = map f32_image v"
    using unpack_concat_f32 [OF fs, of "xs @ be32 (length v)" "concat ss"] by (simp add: segs)
  have "read_vectors ?p (length vs) (length xs + 4 + length v * 4)
      = Inr (map (map f32_image) vs, length ?p)"
    using Cons.IH [OF ss, of "xs @ be32 (length v) @ concat fs"] by (simp add: segs len mult.commute add.assoc)
  moreover have "length ?p = length xs + 4 + 4 * length v + length (concat ss)"
    by (simp add: segs len)
  ultimately show ?case
    by (simp add: dim vec Let_def del: append_assoc)
qed simp

lemma tier3_decode_layout:
  assumes p: "tier3_layout mb vs = Inr p" and up: "msgpack_unpackb lib mb = Inr (PDict md)"
  shows "tier3_decode_payload lib p = Inr (md, map (map f32_image) vs)"
proof -
  obtain segs where l: "length vs \<le> 65535" "length mb \<le> 4294967295"
    and segs: "res_map vector_segment vs = Inr segs"
    and pe: "p = MAGIC @ [VERSION, 0] @ be16 (length vs) @ be32 (length mb) @ be32 0 @ mb @ concat segs"
    using p by (auto simp: tier3_layout_def res_simps pack_u16_def pack_u32_def split: if_splits)
  have count: "rd16 p 6 = length vs"
    by (rule rd16_at [where xs = "MAGIC @ [VERSION, 0]"]) (simp_all add: pe MAGIC_def l)
  have mlen: "rd32 p 8 = length mb"
    by (rule rd32_at [where xs = "MAGIC @ [VERSION, 0] @ be16 (length vs)"])
      (simp_all add: pe MAGIC_def l)
  have rsv: "rd32 p 12 = 0"
    by (rule rd32_at [where xs = "MAGIC @ [VERSION, 0] @ be16 (length vs) @ be32 (length mb)"])
      (simp_all add: pe MAGIC_def)
  define pre where "pre = MAGIC @ [VERSION, 0] @ be16 (length vs) @ be32 (length mb) @ be32 0"
  have pre: "length pre = 16" by (simp add: pre_def MAGIC_def)
  have pm: "p = pre @ mb @ concat segs" by (simp add: pe pre_def)
  have heads: "take 4 p = MAGIC" "p ! 4 = VERSION" "p ! 5 = 0"
    by (simp_all add: pe MAGIC_def)
  have rv: "read_vectors p (length vs) (16 + length mb) = Inr (map (map f32_image) vs, length p)"
    using read_vectors_segments [OF segs, of "pre @ mb"] by (simp add: pm pre)
  have "take (length mb) (drop 16 p) = mb" by (simp add: pm pre)
  then show ?thesis
    using up pre
    by (simp add: tier3_decode_payload_def count mlen rsv heads rv PREFIX_SIZE_def Let_def)
      (simp add: pm)
qed

lemma restore_extract:
  assumes m: "map_of md ''vector_search'' = Some (PDict vs)" "map_of vs ''vector'' = Some (PList items)"
    and v: "vector_values items = Inr (Some values)"
  shows "\<exists>md'. extract_vector_search_vector md [] = Inr (md', [values])
     \<and> (\<forall>values'. length values' = length values \<longrightarrow>
          restore_vector_search_vector md' [values']
          = Inr (dict_set ''vector_search''
                   (PDict (dict_set ''vector'' (PList (map PFloat values')) vs)) md))"
proof -
  let ?vs = "dict_set ''vector'' (vector_marker 0 values) vs"
  let ?md = "dict_set ''vector_search'' (PDict ?vs) md"
  have e: "extract_vector_search_vector md [] = Inr (?md, [values])"
    using m v by (simp add: extract_vector_search_vector_def)
  have "restore_vector_search_vector ?md [values']
      = Inr (dict_set ''vector_search''
                (PDict (dict_set ''vector'' (PList (map PFloat values')) vs)) md)"
    if "length values' = length values" for values'
    by (simp add: restore_vector_search_vector_def vector_marker_def MARKER_KEY_def that)
  with e show ?thesis by blast
qed

section \<open>Frame classes\<close>

text \<open>
  What a group of frame classes promises the codec: on well-formed frames \<open>from_dict\<close> of the class
  inverts \<open>to_dict\<close>.
  With a text and a MessagePack library that read back what they wrote, a frame then survives
  the wire. The frames of \<open>plain_frames\<close> have no \<open>vector_search\<close> entry, so that also Tier 3
  carries them unchanged.
\<close>

definition lib_reads_back :: "wire_lib \<Rightarrow> pyval \<Rightarrow> bool" where
  "lib_reads_back lib v \<longleftrightarrow>
     (case json_dumps lib v of Inl _ \<Rightarrow> True | Inr b \<Rightarrow> json_loads lib b = Inr v) \<and>
     (case msgpack_packb lib v of Inl _ \<Rightarrow> True | Inr b \<Rightarrow> msgpack_unpackb lib b = Inr v)"

locale dict_frames =
  fixes api :: "'f frame_api" and class_of :: "'f \<Rightarrow> frame_class" and wf :: "'f \<Rightarrow> bool"
  assumes from_to_dict: "wf f \<Longrightarrow> fa_from_dict api (class_of f) (fa_to_dict api f) = Inr f"
begin

lemma text_tier_roundtrip:
  assumes wf: "wf f" and "lib_reads_back lib (fa_to_dict api f)" "registry_resolve reg ft = Inr (class_of f)"
    and "tier \<noteq> BINARY_VECTOR" "tier_encode lib api tier f = Inr p"
  shows "tier_decode lib api reg tier ft p = Inr f"
  using assms
  by (cases tier)
    (auto simp: tier_encode_def tier_decode_def tier1_encode_def tier1_decode_def tier2_encode_def
      tier2_decode_def lib_reads_back_def wrap_codec_error_Inr from_to_dict [OF wf])

lemma text_wire_roundtrip:
  assumes wf: "wf f" and "lib_reads_back lib (fa_to_dict api f)" "registry_resolve reg (fa_type api f) = Inr (class_of f)"
    and "(case ov of None \<Rightarrow> fa_tier api f | Some t \<Rightarrow> t) \<noteq> BINARY_VECTOR"
    and "codec_encode lib api maxp ov f = Inr wire"
  shows "codec_decode lib api reg (wire @ rest) = Inr f"
  using assms(5)
proof (rule codec_encode_wire)
  fix p hb
  assume "tier_encode lib api (case ov of None \<Rightarrow> fa_tier api f | Some t \<Rightarrow> t) f = Inr p"
    "header_to_bytes (frame_hdr api f (case ov of None \<Rightarrow> fa_tier api f | Some t \<Rightarrow> t) (length p)) = Inr hb"
    "wire = hb @ p"
  with assms(1-4) show ?thesis by (simp add: codec_decode_wire text_tier_roundtrip)
qed

end

locale plain_frames = dict_frames +
  assumes no_vector: "\<exists>d. fa_to_dict api f = PDict d \<and> map_of d ''vector_search'' = None"
begin

lemma vector_tier_roundtrip:
  assumes wf: "wf f" and "lib_reads_back lib (fa_to_dict api f)" "registry_resolve reg ft = Inr (class_of f)"
    and "tier3_encode lib api f = Inr p"
  shows "tier3_decode lib api reg ft p = Inr f"
proof -
  obtain d where d: "fa_to_dict api f = PDict d" "map_of d ''vector_search'' = None"
    using no_vector by blast
  obtain mb where mb: "msgpack_packb lib (PDict d) = Inr mb" "tier3_layout mb [] = Inr p"
    using assms(4) d
    by (auto simp: tier3_encode_def extract_vector_search_vector_def wrap_codec_error_Inr res_simps)
  have "tier3_decode_payload lib p = Inr (d, [])"
    using tier3_decode_layout [OF mb(2), of lib d] assms(2) mb(1) d by (simp add: lib_reads_back_def)
  then show ?thesis
    using assms(3) d from_to_dict [OF wf] by (simp add: tier3_decode_def restore_vector_search_vector_def)
qed

lemma wire_roundtrip:
  assumes wf: "wf f" and "lib_reads_back lib (fa_to_dict api f)" "registry_resolve reg (fa_type api f) = Inr (class_of f)"
    and "codec_encode lib api maxp ov f = Inr wire"
  shows "codec_decode lib api reg (wire @ rest) = Inr f"
proof (cases "(case ov of None \<Rightarrow> fa_tier api f | Some t \<Rightarrow> t) = BINARY_VECTOR")
  case True
  obtain p hb where p: "tier3_encode lib api f = Inr p"
    "header_to_bytes (frame_hdr api f BINARY_VECTOR (length p)) = Inr hb" "wire = hb @ p"
    using assms(4) by (rule codec_encode_wire) (simp add: True tier_encode_def)
  with vector_tier_roundtrip [OF assms(1-3) p(1)] show ?thesis
    by (simp add: codec_decode_wire tier_decode_def)
qed (use assms text_wire_roundtrip in blast)

end

section \<open>A small concrete library\<close>

text \<open>
  Two metadata maps with the byte strings a MessagePack library could give them; the examples
  below evaluate the codec on them.
\<close>

definition ex_vs_md :: "pyval dict" where
  "ex_vs_md = [(''vector_search'', PDict [(''vector'', PList [PInt 1, PInt (- 2)])])]"

definition ex_vs_marked :: "pyval dict" where
  "ex_vs_marked = [(''vector_search'', PDict [(''vector'', vector_marker 0 [FFin 1, FFin (- 2)])])]"

definition ex_nan_md :: "pyval dict" where
  "ex_nan_md = [(''vector_search'', PDict [(''vector'', PList [PFloat FNaN])])]"

definition ex_lib :: wire_lib where
  "ex_lib = \<lparr>json_dumps = (\<lambda>v. Inr [0x7B, 0x7D]), json_loads = (\<lambda>b. Inr (PDict [])),
     msgpack_packb = (\<lambda>v. if v = PDict ex_nan_md then Inr [0x81]
        else if v = PDict ex_vs_marked then Inr [0x82] else Inl TypeError),
     msgpack_unpackb = (\<lambda>b. if b = [0x81] then Inr (PDict ex_nan_md)
        else if b = [0x82] then Inr (PDict ex_vs_marked) else Inl ValueError)\<rparr>"

text \<open>Frames that are just their dictionary, sent as queries.\<close>

definition ex_api :: "pyval frame_api" where
  "ex_api = \<lparr>fa_type = (\<lambda>_. QUERY), fa_tier = (\<lambda>_. JSON), fa_to_dict = (\<lambda>v. v),
     fa_stream_last = (\<lambda>_. None), fa_from_dict = (\<lambda>_ v. Inr v)\<rparr>"

lemmas ex_defs = ex_vs_md_def ex_vs_marked_def ex_nan_md_def ex_lib_def ex_api_def

lemmas float_eval = round_float_def ilog2_def bit_length.simps pow2_def round_half_even_def

lemma ex_f32: "f32_bits (FFin 1) = Inr 1065353216" "f32_bits (FFin (- 2)) = Inr 3221225472"
  by (simp_all add: f32_bits_def float_eval)

lemma ex_values: "vector_values [PInt 1, PInt (- 2)] = Inr (Some [FFin 1, FFin (- 2)])"
  by (simp add: is_num_def float_of_int_def double_def float_eval)

lemma ex_tier3_encode: "\<exists>p. tier3_encode ex_lib ex_api (PDict ex_vs_md) = Inr p"
proof -
  have "extract_vector_search_vector ex_vs_md [] = Inr (ex_vs_marked, [[FFin 1, FFin (- 2)]])"
    by (simp add: extract_vector_search_vector_def ex_vs_md_def ex_vs_marked_def ex_values
        dict_set_def del: vector_values.simps)
  moreover have "ex_vs_marked \<noteq> ex_nan_md"
    by (simp add: ex_vs_marked_def ex_nan_md_def vector_marker_def)
  ultimately show ?thesis
    by (simp add: tier3_encode_def ex_lib_def ex_api_def tier3_layout_def pack_u16_def pack_u32_def
        vector_segment_def pack_f32_def ex_f32)
qed

section \<open>Properties\<close>

text \<open>
  Whatever a tier codec makes of a frame, the dispatcher adds a header that lets \<open>decode\<close>
  recover it: if the tier encodes the frame to a payload within \<open>max_payload\<close> (itself at most
  4 GiB - 1), \<open>encode\<close> succeeds, sets EXT exactly when the payload exceeds 65535 bytes, FINAL
  except on a non-last stream chunk, and \<open>decode\<close> of the wire bytes, also with bytes following,
  gives what the tier decodes from the payload.
\<close>

theorem codec_encode_decode:
  assumes enc: "tier_encode lib api (case ov of None \<Rightarrow> fa_tier api f | Some t \<Rightarrow> t) f = Inr p"
    and fit: "int (length p) \<le> maxp" and lim: "maxp \<le> EXTENDED_MAX_PAYLOAD"
  shows "\<exists>wire h. codec_encode lib api maxp ov f = Inr wire \<and> peek_header wire = Inr h
    \<and> hdr_frame_type h = fa_type api f
    \<and> hdr_encoding_tier h = Inr (case ov of None \<Rightarrow> fa_tier api f | Some t \<Rightarrow> t)
    \<and> (is_extended h \<longleftrightarrow> length p > 65535)
    \<and> (is_final h \<longleftrightarrow> fa_stream_last api f \<noteq> Some False)
    \<and> length wire = header_size h + length p
    \<and> (\<forall>reg rest. codec_decode lib api reg (wire @ rest)
         = tier_decode lib api reg (case ov of None \<Rightarrow> fa_tier api f | Some t \<Rightarrow> t) (fa_type api f) p)"
proof -
  define t where "t = (case ov of None \<Rightarrow> fa_tier api f | Some t \<Rightarrow> t)"
  obtain hb where hb: "header_to_bytes (frame_hdr api f t (length p)) = Inr hb"
    and len: "length hb = header_size (frame_hdr api f t (length p))"
    using header_ok_to_bytes [OF frame_hdr_ok [of "length p"]] fit lim by fastforce
  have "codec_encode lib api maxp ov f = Inr (hb @ p)"
    using enc fit hb by (simp add: codec_encode_eq t_def [symmetric])
  moreover have "peek_header (hb @ p) = Inr (frame_hdr api f t (length p))"
    by (simp add: peek_header_def parse_to_bytes [OF hb])
  moreover have "\<forall>reg rest. codec_decode lib api reg ((hb @ p) @ rest)
      = tier_decode lib api reg t (fa_type api f) p"
    using codec_decode_wire [OF hb] by simp
  ultimately show ?thesis
    unfolding t_def [symmetric] using len
    by (intro exI [of _ "hb @ p"] exI [of _ "frame_hdr api f t (length p)"])
      (auto simp: DEFAULT_MAX_PAYLOAD_def)
qed

theorem codec_encode_decode_witness:
  "\<exists>wire h. codec_encode ex_lib ex_api 65535 None (PDict []) = Inr wire \<and> peek_header wire = Inr h
    \<and> hdr_frame_type h = QUERY \<and> hdr_encoding_tier h = Inr JSON \<and> \<not> is_extended h \<and> is_final h
    \<and> length wire = header_size h + 2
    \<and> codec_decode ex_lib ex_api create_full (wire @ [0]) = Inr (PDict [])"
proof -
  have enc: "tier_encode ex_lib ex_api (case None of None \<Rightarrow> fa_tier ex_api (PDict []) | Some t \<Rightarrow> t) (PDict [])
      = Inr [0x7B, 0x7D]"
    by (simp add: tier_encode_def tier1_encode_def ex_defs)
  have "tier_decode ex_lib ex_api create_full JSON QUERY [0x7B, 0x7D] = Inr (PDict [])"
    by (simp add: tier_decode_def tier1_decode_def registry_resolve_def create_full_def
        registry_register_def ex_lib_def ex_api_def)
  then show ?thesis
    using codec_encode_decode [OF enc, of 65535]
    by (fastforce simp: header_consts ex_api_def)
qed

text \<open>
  Tier-3 BinaryVector round trip. For a frame whose dictionary holds a \<open>vector_search.vector\<close>
  list of finite numbers, if MessagePack reads back the metadata it wrote, then decoding the
  encoded payload and restoring the vector gives the original metadata in which every component
  is its binary32 image; nothing else changes.
\<close>

theorem tier3_roundtrip:
  assumes m: "map_of md ''vector_search'' = Some (PDict vs)" "map_of vs ''vector'' = Some (PList items)"
    and v: "vector_values items = Inr (Some values)"
    and d: "fa_to_dict api f = PDict md"
    and msgpack: "\<And>m b. msgpack_packb lib (PDict m) = Inr b \<Longrightarrow> msgpack_unpackb lib b = Inr (PDict m)"
    and enc: "tier3_encode lib api f = Inr p"
  shows "\<exists>md'. tier3_decode_payload lib p = Inr (md', [map f32_image values])
    \<and> restore_vector_search_vector md' [map f32_image values]
      = Inr (dict_set ''vector_search''
               (PDict (dict_set ''vector'' (PList (map (\<lambda>x. PFloat (f32_image x)) values)) vs)) md)"
proof -
  obtain md' where e: "extract_vector_search_vector md [] = Inr (md', [values])"
    and r: "\<And>values'. length values' = length values \<Longrightarrow>
          restore_vector_search_vector md' [values']
          = Inr (dict_set ''vector_search''
                   (PDict (dict_set ''vector'' (PList (map PFloat values')) vs)) md)"
    using restore_extract [OF m v] by blast
  obtain mb where mb: "msgpack_packb lib (PDict md') = Inr mb" and p: "tier3_layout mb [values] = Inr p"
    using enc by (auto simp: tier3_encode_def d e res_simps)
  have "tier3_decode_payload lib p = Inr (md', [map f32_image values])"
    using tier3_decode_layout [OF p msgpack [OF mb]] by simp
  with r [of "map f32_image values"] show ?thesis by (auto simp: comp_def)
qed

theorem tier3_roundtrip_witness:
  "\<exists>p md'. tier3_encode ex_lib ex_api (PDict ex_vs_md) = Inr p
     \<and> tier3_decode_payload ex_lib p = Inr (md', [[FFin 1, FFin (- 2)]])
     \<and> restore_vector_search_vector md' [[FFin 1, FFin (- 2)]]
       = Inr [(''vector_search'', PDict [(''vector'', PList [PFloat (FFin 1), PFloat (FFin (- 2))])])]"
proof -
  obtain p where p: "tier3_encode ex_lib ex_api (PDict ex_vs_md) = Inr p"
    using ex_tier3_encode by blast
  have img: "map f32_image [FFin 1, FFin (- 2)] = [FFin 1, FFin (- 2)]"
    by (simp add: f32_image_def ex_f32 f32_of_bits_def pow2_def)
  have lib: "msgpack_unpackb ex_lib b = Inr (PDict m)" if "msgpack_packb ex_lib (PDict m) = Inr b" for m b
    using that by (auto simp: ex_lib_def split: if_splits)
  have "\<exists>md'. tier3_decode_payload ex_lib p = Inr (md', [map f32_image [FFin 1, FFin (- 2)]])
    \<and> restore_vector_search_vector md' [map f32_image [FFin 1, FFin (- 2)]]
      = Inr (dict_set ''vector_search''
          (PDict (dict_set ''vector'' (PList (map (\<lambda>x. PFloat (f32_image x)) [FFin 1, FFin (- 2)]))
             [(''vector'', PList [PInt 1, PInt (- 2)])])) ex_vs_md)"
    by (rule tier3_roundtrip [OF _ _ ex_values _ lib p]) (simp_all add: ex_vs_md_def ex_api_def)
  then show ?thesis
    using p img by (auto simp: ex_vs_md_def dict_set_def)
qed

text \<open>
  A BinaryVector frame whose vector has an item that is not a finite number is encoded with
  the vector left inline, and the decoder refuses that inline list: whatever the metadata
  library does, \<open>tier3_decode\<close> of the payload raises \<open>NpsCodecError\<close>.
\<close>

theorem tier3_inline_vector_rejected:
  assumes m: "map_of md ''vector_search'' = Some (PDict vs)" "map_of vs ''vector'' = Some (PList items)"
    and v: "vector_values items = Inr None"
    and d: "fa_to_dict api f = PDict md"
    and mb: "msgpack_packb lib (PDict md) = Inr mb" "msgpack_unpackb lib mb = Inr (PDict md)"
    and len: "length mb \<le> 4294967295" and reg: "registry_resolve reg ft = Inr cls"
  shows "\<exists>p. tier3_encode lib api f = Inr p \<and> tier3_decode lib api reg ft p = Inl NpsCodecError"
proof -
  have "extract_vector_search_vector md [] = Inr (md, [])"
    using m v by (simp add: extract_vector_search_vector_def)
  moreover obtain p where p: "tier3_layout mb [] = Inr p"
    using len by (simp add: tier3_layout_def pack_u16_def pack_u32_def)
  ultimately have "tier3_encode lib api f = Inr p"
    using d mb by (simp add: tier3_encode_def)
  moreover have "tier3_decode_payload lib p = Inr (md, [])"
    using tier3_decode_layout [OF p mb(2)] by simp
  moreover have "restore_vector_search_vector md [] = Inl NpsCodecError"
    using m by (simp add: restore_vector_search_vector_def)
  ultimately show ?thesis using reg by (simp add: tier3_decode_def)
qed

theorem tier3_inline_vector_rejected_witness:
  "\<exists>p. tier3_encode ex_lib ex_api (PDict ex_nan_md) = Inr p
     \<and> tier3_decode ex_lib ex_api create_full QUERY p = Inl NpsCodecError"
  by (rule tier3_inline_vector_rejected
      [where md = ex_nan_md and vs = "[(''vector'', PList [PFloat FNaN])]" and items = "[PFloat FNaN]"
        and mb = "[0x81]" and cls = QueryFrame])
    (simp_all add: ex_defs is_num_def registry_resolve_def create_full_def registry_register_def)

text \<open>
  A wire message whose flags carry the reserved tier value 3 makes \<open>decode\<close> raise
  \<open>ValueError\<close>: the \<open>NpsCodecError\<close> the dispatcher has for an unsupported tier is never reached.
\<close>

theorem decode_reserved_tier:
  assumes "parse_header wire = Inr h" "hdr_flags h AND 0x03 = 0x03"
  shows "codec_decode lib api reg wire = Inl ValueError"
  using assms by (simp add: codec_decode_def hdr_encoding_tier_def encoding_tier_of_def)

theorem decode_reserved_tier_witness:
  "codec_decode ex_lib ex_api create_full [0x10, 0x07, 0x00, 0x00] = Inl ValueError"
proof (rule decode_reserved_tier)
  show "parse_header [0x10, 0x07, 0x00, 0x00]
      = Inr \<lparr>hdr_frame_type = QUERY, hdr_flags = 0x07, hdr_payload_length = 0\<rparr>"
    using frame_type_of_code [of QUERY]
    by (simp add: parse_header_def FLAG_EXT_def header_consts rd16_def)
qed simp

end
