(* ===== verification/NcpFrames.thy ===== *)
theory NcpFrames
  imports Codec
begin

text \<open>
  \<open>nps_sdk/ncp/frames.py\<close>: the NCP frame dataclasses with their \<open>to_dict\<close> and \<open>from_dict\<close>.

  \<open>from_dict\<close> takes most attributes from the wire as they come, whatever their type, so those
  attributes are \<^typ>\<open>pyval\<close> (\<open>None\<close> is \<^const>\<open>PNone\<close>); the ones it converts with \<open>int\<close>, \<open>bool\<close>
  or \<open>tuple\<close> have the converted type.
\<close>

section \<open>FrameSchema and AnchorFrame\<close>

record schema_field =
  sf_name :: pyval
  sf_type :: pyval
  sf_semantic :: pyval
  sf_nullable :: bool

definition schema_field_to_dict :: "schema_field \<Rightarrow> pyval" where
  "schema_field_to_dict f =
     PDict ([(''name'', sf_name f), (''type'', sf_type f)]
       @ not_none ''semantic'' (sf_semantic f)
       @ (if sf_nullable f then [(''nullable'', PBool (sf_nullable f))] else []))"

definition schema_field_from_dict :: "pyval \<Rightarrow> schema_field res" where
  "schema_field_from_dict data =
     res_bind (py_item data ''name'') (\<lambda>name.
     res_bind (py_item data ''type'') (\<lambda>type.
     res_bind (py_get data ''semantic'') (\<lambda>semantic.
     res_bind (py_get_or data ''nullable'' (PBool False)) (\<lambda>nullable.
       Inr \<lparr>sf_name = name, sf_type = type, sf_semantic = semantic, sf_nullable = py_bool nullable\<rparr>))))"

type_synonym frame_schema = "schema_field list"

definition schema_to_dict :: "frame_schema \<Rightarrow> pyval" where
  "schema_to_dict fs = PDict [(''fields'', PList (map schema_field_to_dict fs))]"

definition schema_from_dict :: "pyval \<Rightarrow> frame_schema res" where
  "schema_from_dict data =
     res_bind (py_get_or data ''fields'' (PList [])) (\<lambda>fs.
     res_bind (py_iter fs) (res_map schema_field_from_dict))"

record anchor_frame =
  anc_anchor_id :: pyval
  anc_schema :: frame_schema
  anc_ttl :: int

definition anchor_to_dict :: "anchor_frame \<Rightarrow> pyval" where
  "anchor_to_dict f =
     PDict [(''anchor_id'', anc_anchor_id f), (''schema'', schema_to_dict (anc_schema f)),
            (''ttl'', PInt (anc_ttl f))]"

definition anchor_from_dict :: "pyval \<Rightarrow> anchor_frame res" where
  "anchor_from_dict data =
     res_bind (py_item data ''anchor_id'') (\<lambda>anchor_id.
     res_bind (py_item data ''schema'') (\<lambda>s.
     res_bind (schema_from_dict s) (\<lambda>schema.
     res_bind (py_get_or data ''ttl'' (PInt 3600)) (\<lambda>t.
     res_bind (py_int t) (\<lambda>ttl.
       Inr \<lparr>anc_anchor_id = anchor_id, anc_schema = schema, anc_ttl = ttl\<rparr>)))))"

section \<open>DiffFrame\<close>

record json_patch_op =
  jp_op :: pyval
  jp_path :: pyval
  jp_value :: pyval
  jp_from :: pyval

definition patch_op_to_dict :: "json_patch_op \<Rightarrow> pyval" where
  "patch_op_to_dict p =
     PDict ([(''op'', jp_op p), (''path'', jp_path p)]
       @ not_none ''value'' (jp_value p) @ not_none ''from'' (jp_from p))"

definition patch_op_from_dict :: "pyval \<Rightarrow> json_patch_op res" where
  "patch_op_from_dict data =
     res_bind (py_item data ''op'') (\<lambda>op.
     res_bind (py_item data ''path'') (\<lambda>path.
     res_bind (py_get data ''value'') (\<lambda>value.
     res_bind (py_get data ''from'') (\<lambda>frm.
       Inr \<lparr>jp_op = op, jp_path = path, jp_value = value, jp_from = frm\<rparr>))))"

record diff_frame =
  dif_anchor_ref :: pyval
  dif_base_seq :: int
  dif_patch :: "json_patch_op list"
  dif_entity_id :: pyval

definition diff_to_dict :: "diff_frame \<Rightarrow> pyval" where
  "diff_to_dict f =
     PDict ([(''anchor_ref'', dif_anchor_ref f), (''base_seq'', PInt (dif_base_seq f)),
             (''patch'', PList (map patch_op_to_dict (dif_patch f)))]
       @ not_none ''entity_id'' (dif_entity_id f))"

definition diff_from_dict :: "pyval \<Rightarrow> diff_frame res" where
  "diff_from_dict data =
     res_bind (py_item data ''anchor_ref'') (\<lambda>anchor_ref.
     res_bind (py_item data ''base_seq'') (\<lambda>b.
     res_bind (py_int b) (\<lambda>base_seq.
     res_bind (py_get_or data ''patch'' (PList [])) (\<lambda>p.
     res_bind (py_iter p) (\<lambda>ops.
     res_bind (res_map patch_op_from_dict ops) (\<lambda>patch.
     res_bind (py_get data ''entity_id'') (\<lambda>entity_id.
       Inr \<lparr>dif_anchor_ref = anchor_ref, dif_base_seq = base_seq, dif_patch = patch,
            dif_entity_id = entity_id\<rparr>)))))))"

section \<open>StreamFrame and CapsFrame\<close>

record stream_frame =
  str_stream_id :: pyval
  str_seq :: int
  str_is_last :: bool
  str_data :: "pyval list"
  str_anchor_ref :: pyval
  str_window_size :: pyval
  str_error_code :: pyval

definition stream_to_dict :: "stream_frame \<Rightarrow> pyval" where
  "stream_to_dict f =
     PDict ([(''stream_id'', str_stream_id f), (''seq'', PInt (str_seq f)),
             (''is_last'', PBool (str_is_last f)), (''data'', PList (str_data f))]
       @ not_none ''anchor_ref'' (str_anchor_ref f)
       @ not_none ''window_size'' (str_window_size f)
       @ not_none ''error_code'' (str_error_code f))"

definition stream_from_dict :: "pyval \<Rightarrow> stream_frame res" where
  "stream_from_dict data =
     res_bind (py_item data ''stream_id'') (\<lambda>stream_id.
     res_bind (py_item data ''seq'') (\<lambda>s.
     res_bind (py_int s) (\<lambda>seq.
     res_bind (py_item data ''is_last'') (\<lambda>is_last.
     res_bind (py_get_or data ''data'' (PList [])) (\<lambda>ds.
     res_bind (py_iter ds) (\<lambda>items.
     res_bind (py_get data ''anchor_ref'') (\<lambda>anchor_ref.
     res_bind (py_get data ''window_size'') (\<lambda>window_size.
     res_bind (py_get data ''error_code'') (\<lambda>error_code.
       Inr \<lparr>str_stream_id = stream_id, str_seq = seq, str_is_last = py_bool is_last,
            str_data = items, str_anchor_ref = anchor_ref, str_window_size = window_size,
            str_error_code = error_code\<rparr>)))))))))"

record caps_frame =
  cap_anchor_ref :: pyval
  cap_count :: int
  cap_data :: "pyval list"
  cap_next_cursor :: pyval
  cap_token_est :: pyval
  cap_cached :: pyval
  cap_tokenizer_used :: pyval
  cap_request_id :: pyval

definition caps_to_dict :: "caps_frame \<Rightarrow> pyval" where
  "caps_to_dict f =
     PDict ([(''anchor_ref'', cap_anchor_ref f), (''count'', PInt (cap_count f)),
             (''data'', PList (cap_data f))]
       @ not_none ''next_cursor'' (cap_next_cursor f)
       @ not_none ''token_est'' (cap_token_est f)
       @ not_none ''cached'' (cap_cached f)
       @ not_none ''tokenizer_used'' (cap_tokenizer_used f)
       @ not_none ''request_id'' (cap_request_id f))"

definition caps_from_dict :: "pyval \<Rightarrow> caps_frame res" where
  "caps_from_dict data =
     res_bind (py_item data ''anchor_ref'') (\<lambda>anchor_ref.
     res_bind (py_item data ''count'') (\<lambda>c.
     res_bind (py_int c) (\<lambda>count.
     res_bind (py_get_or data ''data'' (PList [])) (\<lambda>ds.
     res_bind (py_iter ds) (\<lambda>items.
     res_bind (py_get data ''next_cursor'') (\<lambda>next_cursor.
     res_bind (py_get data ''token_est'') (\<lambda>token_est.
     res_bind (py_get data ''cached'') (\<lambda>cached.
     res_bind (py_get data ''tokenizer_used'') (\<lambda>tokenizer_used.
     res_bind (py_get data ''request_id'') (\<lambda>request_id.
       Inr \<lparr>cap_anchor_ref = anchor_ref, cap_count = count, cap_data = items,
            cap_next_cursor = next_cursor, cap_token_est = token_est, cap_cached = cached,
            cap_tokenizer_used = tokenizer_used, cap_request_id = request_id\<rparr>))))))))))"

section \<open>HelloFrame and NcpHandshakeCapsFrame\<close>

text \<open>\<open>tuple(data[k]) if data.get(k) is not None else None\<close>\<close>

definition opt_tuple :: "pyval \<Rightarrow> string \<Rightarrow> pyval list option res" where
  "opt_tuple data k =
     res_bind (py_get data k) (\<lambda>v.
       if v = PNone then Inr None else res_bind (py_iter v) (\<lambda>xs. Inr (Some xs)))"

record hello_frame =
  hel_nps_version :: pyval
  hel_supported_encodings :: "pyval list"
  hel_supported_protocols :: "pyval list"
  hel_min_version :: pyval
  hel_agent_id :: pyval
  hel_max_frame_payload :: int
  hel_ext_support :: bool
  hel_max_concurrent_streams :: int
  hel_e2e_enc_algorithms :: "pyval list option"

definition hello_to_dict :: "hello_frame \<Rightarrow> pyval" where
  "hello_to_dict f =
     PDict ([(''nps_version'', hel_nps_version f),
             (''supported_encodings'', PList (hel_supported_encodings f)),
             (''supported_protocols'', PList (hel_supported_protocols f)),
             (''max_frame_payload'', PInt (hel_max_frame_payload f)),
             (''ext_support'', PBool (hel_ext_support f)),
             (''max_concurrent_streams'', PInt (hel_max_concurrent_streams f))]
       @ not_none ''min_version'' (hel_min_version f)
       @ not_none ''agent_id'' (hel_agent_id f)
       @ not_none ''e2e_enc_algorithms'' (opt_val PList (hel_e2e_enc_algorithms f)))"

definition hello_from_dict :: "pyval \<Rightarrow> hello_frame res" where
  "hello_from_dict data =
     res_bind (py_item data ''nps_version'') (\<lambda>nps_version.
     res_bind (py_get_or data ''supported_encodings'' (PList [])) (\<lambda>e.
     res_bind (py_iter e) (\<lambda>encodings.
     res_bind (py_get_or data ''supported_protocols'' (PList [])) (\<lambda>p.
     res_bind (py_iter p) (\<lambda>protocols.
     res_bind (py_get data ''min_version'') (\<lambda>min_version.
     res_bind (py_get data ''agent_id'') (\<lambda>agent_id.
     res_bind (py_get_or data ''max_frame_payload'' (PInt 0xFFFF)) (\<lambda>m.
     res_bind (py_int m) (\<lambda>max_frame_payload.
     res_bind (py_get_or data ''ext_support'' (PBool False)) (\<lambda>ext.
     res_bind (py_get_or data ''max_concurrent_streams'' (PInt 32)) (\<lambda>s.
     res_bind (py_int s) (\<lambda>max_concurrent_streams.
     res_bind (opt_tuple data ''e2e_enc_algorithms'') (\<lambda>algs.
       Inr \<lparr>hel_nps_version = nps_version, hel_supported_encodings = encodings,
            hel_supported_protocols = protocols, hel_min_version = min_version,
            hel_agent_id = agent_id, hel_max_frame_payload = max_frame_payload,
            hel_ext_support = py_bool ext, hel_max_concurrent_streams = max_concurrent_streams,
            hel_e2e_enc_algorithms = algs\<rparr>)))))))))))))"

record handshake_caps_frame =
  hc_node_id :: pyval
  hc_caps :: "pyval list"
  hc_negotiated_encoding :: pyval
  hc_enabled_encodings :: "pyval list option"
  hc_session_version :: pyval
  hc_supported_protocols :: "pyval list option"
  hc_max_frame_payload :: pyval
  hc_ext_support :: pyval
  hc_max_concurrent_streams :: pyval
  hc_anchor_ref :: pyval
  hc_payload :: pyval

definition handshake_caps_to_dict :: "handshake_caps_frame \<Rightarrow> pyval" where
  "handshake_caps_to_dict f =
     PDict ([(''node_id'', hc_node_id f), (''caps'', PList (hc_caps f))]
       @ not_none ''negotiated_encoding'' (hc_negotiated_encoding f)
       @ not_none ''enabled_encodings'' (opt_val PList (hc_enabled_encodings f))
       @ not_none ''session_version'' (hc_session_version f)
       @ not_none ''supported_protocols'' (opt_val PList (hc_supported_protocols f))
       @ not_none ''max_frame_payload'' (hc_max_frame_payload f)
       @ not_none ''ext_support'' (hc_ext_support f)
       @ not_none ''max_concurrent_streams'' (hc_max_concurrent_streams f)
       @ not_none ''anchor_ref'' (hc_anchor_ref f)
       @ not_none ''payload'' (hc_payload f))"

definition handshake_caps_from_dict :: "pyval \<Rightarrow> handshake_caps_frame res" where
  "handshake_caps_from_dict data =
     res_bind (py_item data ''node_id'') (\<lambda>node_id.
     res_bind (py_get_or data ''caps'' (PList [])) (\<lambda>c.
     res_bind (py_iter c) (\<lambda>caps.
     res_bind (py_get data ''negotiated_encoding'') (\<lambda>negotiated_encoding.
     res_bind (opt_tuple data ''enabled_encodings'') (\<lambda>enabled_encodings.
     res_bind (py_get data ''session_version'') (\<lambda>session_version.
     res_bind (opt_tuple data ''supported_protocols'') (\<lambda>supported_protocols.
     res_bind (py_get data ''max_frame_payload'') (\<lambda>max_frame_payload.
     res_bind (py_get data ''ext_support'') (\<lambda>ext_support.
     res_bind (py_get data ''max_concurrent_streams'') (\<lambda>max_concurrent_streams.
     res_bind (py_get data ''anchor_ref'') (\<lambda>anchor_ref.
     res_bind (py_get data ''payload'') (\<lambda>payload.
       Inr \<lparr>hc_node_id = node_id, hc_caps = caps, hc_negotiated_encoding = negotiated_encoding,
            hc_enabled_encodings = enabled_encodings, hc_session_version = session_version,
            hc_supported_protocols = supported_protocols, hc_max_frame_payload = max_frame_payload,
            hc_ext_support = ext_support, hc_max_concurrent_streams = max_concurrent_streams,
            hc_anchor_ref = anchor_ref, hc_payload = payload\<rparr>))))))))))))"

section \<open>ErrorFrame\<close>

record error_frame =
  err_status :: pyval
  err_error :: pyval
  err_message :: pyval
  err_details :: pyval

definition error_to_dict :: "error_frame \<Rightarrow> pyval" where
  "error_to_dict f =
     PDict ([(''status'', err_status f), (''error'', err_error f)]
       @ not_none ''message'' (err_message f) @ not_none ''details'' (err_details f))"

definition error_from_dict :: "pyval \<Rightarrow> error_frame res" where
  "error_from_dict data =
     res_bind (py_item data ''status'') (\<lambda>status.
     res_bind (py_item data ''error'') (\<lambda>error.
     res_bind (py_get data ''message'') (\<lambda>message.
     res_bind (py_get data ''details'') (\<lambda>details.
       Inr \<lparr>err_status = status, err_error = error, err_message = message, err_details = details\<rparr>))))"

section \<open>The NCP frames as the codec sees them\<close>

datatype ncp_frame =
    NAnchor anchor_frame
  | NDiff diff_frame
  | NStream stream_frame
  | NCaps caps_frame
  | NHello hello_frame
  | NHandshakeCaps handshake_caps_frame
  | NError error_frame

fun ncp_class :: "ncp_frame \<Rightarrow> frame_class" where
  "ncp_class (NAnchor _) = AnchorFrame"
| "ncp_class (NDiff _) = DiffFrame"
| "ncp_class (NStream _) = StreamFrame"
| "ncp_class (NCaps _) = CapsFrame"
| "ncp_class (NHello _) = HelloFrame"
| "ncp_class (NHandshakeCaps _) = NcpHandshakeCapsFrame"
| "ncp_class (NError _) = ErrorFrame"

fun ncp_type :: "ncp_frame \<Rightarrow> frame_type" where
  "ncp_type (NAnchor _) = ANCHOR"
| "ncp_type (NDiff _) = DIFF"
| "ncp_type (NStream _) = STREAM"
| "ncp_type (NCaps _) = CAPS"
| "ncp_type (NHello _) = HELLO"
| "ncp_type (NHandshakeCaps _) = CAPS"
| "ncp_type (NError _) = ERROR"

fun ncp_preferred_tier :: "ncp_frame \<Rightarrow> encoding_tier" where
  "ncp_preferred_tier (NHello _) = JSON"
| "ncp_preferred_tier (NHandshakeCaps _) = JSON"
| "ncp_preferred_tier _ = MSGPACK"

fun ncp_to_dict :: "ncp_frame \<Rightarrow> pyval" where
  "ncp_to_dict (NAnchor f) = anchor_to_dict f"
| "ncp_to_dict (NDiff f) = diff_to_dict f"
| "ncp_to_dict (NStream f) = stream_to_dict f"
| "ncp_to_dict (NCaps f) = caps_to_dict f"
| "ncp_to_dict (NHello f) = hello_to_dict f"
| "ncp_to_dict (NHandshakeCaps f) = handshake_caps_to_dict f"
| "ncp_to_dict (NError f) = error_to_dict f"

definition res_wrap :: "('a \<Rightarrow> 'b) \<Rightarrow> 'a res \<Rightarrow> 'b res" where
  "res_wrap c r = res_bind r (\<lambda>x. Inr (c x))"

text \<open>
  A class outside \<open>ncp/frames.py\<close> has its own \<open>from_dict\<close>; registries of NCP frames do not
  name it.
\<close>

definition ncp_from_dict :: "frame_class \<Rightarrow> pyval \<Rightarrow> ncp_frame res" where
  "ncp_from_dict cls data =
     (case cls of
        AnchorFrame \<Rightarrow> res_wrap NAnchor (anchor_from_dict data)
      | DiffFrame \<Rightarrow> res_wrap NDiff (diff_from_dict data)
      | StreamFrame \<Rightarrow> res_wrap NStream (stream_from_dict data)
      | CapsFrame \<Rightarrow> res_wrap NCaps (caps_from_dict data)
      | HelloFrame \<Rightarrow> res_wrap NHello (hello_from_dict data)
      | NcpHandshakeCapsFrame \<Rightarrow> res_wrap NHandshakeCaps (handshake_caps_from_dict data)
      | ErrorFrame \<Rightarrow> res_wrap NError (error_from_dict data)
      | _ \<Rightarrow> Inl AttributeError)"

definition ncp_stream_last :: "ncp_frame \<Rightarrow> bool option" where
  "ncp_stream_last f = (case f of NStream s \<Rightarrow> Some (str_is_last s) | _ \<Rightarrow> None)"

definition ncp_api :: "ncp_frame frame_api" where
  "ncp_api = \<lparr>fa_type = ncp_type, fa_tier = ncp_preferred_tier, fa_to_dict = ncp_to_dict,
     fa_stream_last = ncp_stream_last, fa_from_dict = ncp_from_dict\<rparr>"

section \<open>Lemmas\<close>

named_theorems ncp_frame_defs

lemmas [ncp_frame_defs] =
  schema_field_to_dict_def schema_field_from_dict_def schema_to_dict_def schema_from_dict_def
  anchor_to_dict_def anchor_from_dict_def patch_op_to_dict_def patch_op_from_dict_def
  diff_to_dict_def diff_from_dict_def stream_to_dict_def stream_from_dict_def
  caps_to_dict_def caps_from_dict_def hello_to_dict_def hello_from_dict_def
  handshake_caps_to_dict_def handshake_caps_from_dict_def error_to_dict_def error_from_dict_def
  opt_tuple_def map_add_def

lemma case_opt_if [simp]:
  "(case if c then Some a else None of None \<Rightarrow> x | Some w \<Rightarrow> g w) = (if c then g a else x)"
  "(case if c then None else Some a of None \<Rightarrow> x | Some w \<Rightarrow> g w) = (if c then x else g a)"
  by simp_all

lemma opt_val_PList_None [simp]: "opt_val PList x = PNone \<longleftrightarrow> x = None"
  by (cases x) simp_all

lemma py_iter_opt_val: "x \<noteq> None \<Longrightarrow> py_iter (opt_val PList x) = Inr (the x)"
  by auto

lemma res_map_id: "(\<And>x. x \<in> set xs \<Longrightarrow> g (f x) = Inr x) \<Longrightarrow> res_map g (map f xs) = Inr xs"
  by (induction xs) simp_all

lemma schema_field_dict [simp]: "schema_field_from_dict (schema_field_to_dict f) = Inr f"
  by (simp add: ncp_frame_defs)

lemma schema_dict [simp]: "schema_from_dict (schema_to_dict s) = Inr s"
  by (simp add: schema_to_dict_def schema_from_dict_def res_map_id)

lemma anchor_dict [simp]: "anchor_from_dict (anchor_to_dict f) = Inr f"
  by (simp add: anchor_to_dict_def anchor_from_dict_def)

lemma patch_op_dict [simp]: "patch_op_from_dict (patch_op_to_dict p) = Inr p"
  by (simp add: ncp_frame_defs)

lemma diff_dict [simp]: "diff_from_dict (diff_to_dict f) = Inr f"
  by (simp add: diff_to_dict_def diff_from_dict_def res_map_id)

lemma stream_dict [simp]: "stream_from_dict (stream_to_dict f) = Inr f"
  by (simp add: ncp_frame_defs)

lemma caps_dict [simp]: "caps_from_dict (caps_to_dict f) = Inr f"
  by (simp add: ncp_frame_defs)

lemma hello_dict [simp]: "hello_from_dict (hello_to_dict f) = Inr f"
  by (cases "hel_e2e_enc_algorithms f") (simp_all add: ncp_frame_defs)

lemma handshake_caps_dict [simp]: "handshake_caps_from_dict (handshake_caps_to_dict f) = Inr f"
  by (cases "hc_enabled_encodings f"; cases "hc_supported_protocols f")
    (simp_all add: ncp_frame_defs)

lemma error_dict [simp]: "error_from_dict (error_to_dict f) = Inr f"
  by (simp add: ncp_frame_defs)

lemma res_wrap_Inr [simp]: "res_wrap c (Inr x) = Inr (c x)"
  by (simp add: res_wrap_def)

lemma ncp_dict: "ncp_from_dict (ncp_class f) (ncp_to_dict f) = Inr f"
  by (cases f) (simp_all add: ncp_from_dict_def)

lemma ncp_no_vector: "\<exists>d. ncp_to_dict f = PDict d \<and> map_of d ''vector_search'' = None"
  by (cases f) (simp_all add: ncp_frame_defs)

lemma ncp_api_simps [simp]:
  "fa_type ncp_api = ncp_type" "fa_tier ncp_api = ncp_preferred_tier" "fa_to_dict ncp_api = ncp_to_dict"
  "fa_stream_last ncp_api = ncp_stream_last" "fa_from_dict ncp_api = ncp_from_dict"
  by (simp_all add: ncp_api_def)

interpretation ncp: plain_frames ncp_api ncp_class "\<lambda>_. True"
  by unfold_locales (simp_all add: ncp_dict ncp_no_vector)

section \<open>Properties\<close>

text \<open>
  Every NCP frame survives the wire: whatever tier it is encoded with, if the codec encodes
  it and the JSON and MessagePack libraries read back the frame's dictionary, decoding the bytes
  with a registry that has the frame's class gives exactly that frame, also when more bytes
  follow.
\<close>

theorem ncp_wire_roundtrip:
  assumes "lib_reads_back lib (ncp_to_dict f)"
    and "registry_resolve reg (ncp_type f) = Inr (ncp_class f)"
    and "codec_encode lib ncp_api maxp ov f = Inr wire"
  shows "codec_decode lib ncp_api reg (wire @ rest) = Inr f"
  using ncp.wire_roundtrip [of lib f reg maxp ov wire rest] assms by simp

definition ex_error_frame :: ncp_frame where
  "ex_error_frame = NError \<lparr>err_status = PStr ''NPS-CLIENT-BAD-FRAME'', err_error = PStr ''NCP-FRAME-UNKNOWN-TYPE'',
     err_message = PNone, err_details = PList [PInt 5]\<rparr>"

text \<open>A library that knows one value: enough to evaluate the codec on a concrete frame.\<close>

definition one_value_lib :: "pyval \<Rightarrow> wire_lib" where
  "one_value_lib v = \<lparr>json_dumps = (\<lambda>w. if w = v then Inr [0x7B, 0x7D] else Inl TypeError),
     json_loads = (\<lambda>b. Inr v), msgpack_packb = (\<lambda>w. Inl TypeError), msgpack_unpackb = (\<lambda>b. Inl ValueError)\<rparr>"

lemma one_value_reads_back: "lib_reads_back (one_value_lib v) v"
  by (simp add: lib_reads_back_def one_value_lib_def)

lemma one_value_encode:
  "\<exists>w. codec_encode (one_value_lib (ncp_to_dict f)) ncp_api 65535 (Some JSON) f = Inr w"
proof -
  have "tier_encode (one_value_lib (ncp_to_dict f)) ncp_api JSON f = Inr [0x7B, 0x7D]"
    by (simp add: tier_encode_def tier1_encode_def one_value_lib_def)
  moreover obtain hb where "header_to_bytes (frame_hdr ncp_api f JSON 2) = Inr hb"
    using header_ok_to_bytes [OF frame_hdr_ok [of 2]] by (fastforce simp: header_consts)
  ultimately show ?thesis by (simp add: codec_encode_eq numeral_2_eq_2)
qed

theorem ncp_wire_roundtrip_witness:
  "\<exists>wire. codec_encode (one_value_lib (ncp_to_dict ex_error_frame)) ncp_api 65535 (Some JSON) ex_error_frame = Inr wire
     \<and> codec_decode (one_value_lib (ncp_to_dict ex_error_frame)) ncp_api create_default (wire @ [0]) = Inr ex_error_frame"
proof -
  have "registry_resolve create_default (ncp_type ex_error_frame) = Inr (ncp_class ex_error_frame)"
    by (simp add: ex_error_frame_def registry_resolve_def create_default_def)
  then show ?thesis using ncp_wire_roundtrip one_value_encode one_value_reads_back by blast
qed

end
