(* ===== verification/NcpHandshake.thy ===== *)
theory NcpHandshake
  imports NcpFrames
begin

unbundle bit_operations_syntax

text \<open>
  The native-mode handshake: the connection preamble (\<open>nps_sdk/ncp/preamble.py\<close>), the session's
  encoding policy (\<open>encoding_policy.py\<close>), the admission and negotiation policy
  (\<open>handshake_profile.py\<close>) and the failover connector (\<open>failover.py\<close>).
\<close>

section \<open>Preamble\<close>

definition PREAMBLE_LENGTH :: nat where "PREAMBLE_LENGTH = 8"

text \<open>\<open>b"NPS/1.0\\n"\<close>\<close>

definition PREAMBLE_BYTES :: bytes where
  "PREAMBLE_BYTES = [0x4E, 0x50, 0x53, 0x2F, 0x31, 0x2E, 0x30, 0x0A]"

definition preamble_matches :: "bytes \<Rightarrow> bool" where
  "preamble_matches buf \<longleftrightarrow> PREAMBLE_LENGTH \<le> length buf \<and> take PREAMBLE_LENGTH buf = PREAMBLE_BYTES"

text \<open>The three reasons a buffer is refused, by kind.\<close>

definition try_validate :: "bytes \<Rightarrow> bool \<times> string" where
  "try_validate buf =
     (if length buf < PREAMBLE_LENGTH then (False, ''short read'')
      else if take PREAMBLE_LENGTH buf \<noteq> PREAMBLE_BYTES then
        (if take 4 buf = take 4 PREAMBLE_BYTES then (False, ''future-major-version NPS preamble'')
         else (False, ''preamble mismatch''))
      else (True, []))"

definition preamble_validate :: "bytes \<Rightarrow> unit res" where
  "preamble_validate buf =
     (let (ok, reason) = try_validate buf in
      if ok then Inr () else Inl (NcpPreambleInvalidError reason))"

section \<open>Encoding policy\<close>

definition BINARY_VECTOR_TOKEN :: string where "BINARY_VECTOR_TOKEN = ''binary_vector.v1''"

record encoding_policy =
  default_tier :: encoding_tier
  binary_vector_enabled :: bool

fun encoding_token :: "encoding_tier \<Rightarrow> string" where
  "encoding_token JSON = ''json''"
| "encoding_token MSGPACK = ''msgpack''"
| "encoding_token BINARY_VECTOR = BINARY_VECTOR_TOKEN"

definition policy_enabled_encodings :: "encoding_policy \<Rightarrow> string list" where
  "policy_enabled_encodings p =
     (if binary_vector_enabled p then [encoding_token (default_tier p), BINARY_VECTOR_TOKEN]
      else [encoding_token (default_tier p)])"

definition is_binary_vector_frame :: "frame_type \<Rightarrow> bool" where
  "is_binary_vector_frame ft \<longleftrightarrow> ft = QUERY"

definition policy_allows :: "encoding_policy \<Rightarrow> encoding_tier \<Rightarrow> frame_type \<Rightarrow> bool" where
  "policy_allows p tier ft \<longleftrightarrow>
     tier = default_tier p
     \<or> tier = BINARY_VECTOR \<and> binary_vector_enabled p \<and> is_binary_vector_frame ft"

definition ensure_allows :: "encoding_policy \<Rightarrow> frame_header \<Rightarrow> unit res" where
  "ensure_allows p h =
     res_bind (hdr_encoding_tier h) (\<lambda>tier.
       if policy_allows p tier (hdr_frame_type h) then Inr () else Inl NpsEncodingUnsupportedError)"

definition from_enabled_encodings :: "encoding_tier \<Rightarrow> pyval list option \<Rightarrow> encoding_policy" where
  "from_enabled_encodings tier enabled =
     (let tokens = (case enabled of None \<Rightarrow> [] | Some ts \<Rightarrow> ts) in
      \<lparr>default_tier = tier, binary_vector_enabled = (\<exists>t \<in> set tokens. py_eq t (PStr BINARY_VECTOR_TOKEN))\<rparr>)"

section \<open>Admission and negotiation\<close>

record handshake_profile =
  prf_min_version :: string
  prf_nps_version :: string
  prf_supported_encodings :: "string list"
  prf_supported_protocols :: "string list"
  prf_max_frame_payload :: int
  prf_ext_support :: bool
  prf_max_concurrent_streams :: int

definition default_profile :: handshake_profile where
  "default_profile =
     \<lparr>prf_min_version = ''0.1'', prf_nps_version = ''0.11'',
      prf_supported_encodings = [''msgpack'', ''json'', ''binary_vector.v1''],
      prf_supported_protocols = [''ncp'', ''nwp'', ''nip'', ''ndp'', ''nop''],
      prf_max_frame_payload = DEFAULT_MAX_PAYLOAD, prf_ext_support = False,
      prf_max_concurrent_streams = 32\<rparr>"

datatype handshake_action = CONTINUE | ACCEPT | SILENT_CLOSE | ERROR_CLOSE

record handshake_decision =
  hd_action :: handshake_action
  hd_status :: "string option"
  hd_error :: "string option"
  hd_diagnostic_error :: "string option"
  hd_session_version :: "string option"
  hd_negotiated_encoding :: "string option"
  hd_enabled_encodings :: "string list option"
  hd_supported_protocols :: "string list option"
  hd_max_frame_payload :: "int option"
  hd_ext_support :: "bool option"
  hd_max_concurrent_streams :: "int option"

definition bare_decision :: "handshake_action \<Rightarrow> handshake_decision" where
  "bare_decision a =
     \<lparr>hd_action = a, hd_status = None, hd_error = None, hd_diagnostic_error = None,
      hd_session_version = None, hd_negotiated_encoding = None, hd_enabled_encodings = None,
      hd_supported_protocols = None, hd_max_frame_payload = None, hd_ext_support = None,
      hd_max_concurrent_streams = None\<rparr>"

definition evaluate_preamble :: "bytes \<Rightarrow> int \<Rightarrow> int \<Rightarrow> handshake_decision" where
  "evaluate_preamble received elapsed_ms timeout_ms =
     (if timeout_ms > 0 \<and> elapsed_ms \<ge> timeout_ms then bare_decision SILENT_CLOSE
      else if length received < PREAMBLE_LENGTH then bare_decision CONTINUE
      else if take PREAMBLE_LENGTH received \<noteq> PREAMBLE_BYTES then
        (bare_decision SILENT_CLOSE)\<lparr>hd_diagnostic_error := Some ''NCP-PREAMBLE-INVALID''\<rparr>
      else bare_decision CONTINUE)"

definition evaluate_hello_header :: "frame_header \<Rightarrow> int \<Rightarrow> int \<Rightarrow> int \<Rightarrow> handshake_decision res" where
  "evaluate_hello_header h elapsed_ms timeout_ms max_hello_payload =
     (if timeout_ms > 0 \<and> elapsed_ms \<ge> timeout_ms then Inr (bare_decision SILENT_CLOSE)
      else if hdr_frame_type h \<noteq> HELLO then Inr (bare_decision SILENT_CLOSE)
      else res_bind (hdr_encoding_tier h) (\<lambda>tier.
        if tier \<noteq> JSON \<or> is_encrypted h \<or> is_extended h
           \<or> hdr_payload_length h > max_hello_payload
        then Inr (bare_decision SILENT_CLOSE) else Inr (bare_decision CONTINUE)))"

definition version_error :: handshake_decision where
  "version_error =
     (bare_decision ERROR_CLOSE)\<lparr>hd_status := Some ''NPS-PROTO-VERSION-INCOMPATIBLE'',
       hd_error := Some ''NCP-VERSION-INCOMPATIBLE''\<rparr>"

definition encoding_error :: handshake_decision where
  "encoding_error =
     (bare_decision ERROR_CLOSE)\<lparr>hd_status := Some ''NPS-SERVER-ENCODING-UNSUPPORTED'',
       hd_error := Some ''NCP-ENCODING-UNSUPPORTED''\<rparr>"

type_synonym version = "int \<times> int"

definition parse_version :: "string \<Rightarrow> version res" where
  "parse_version value =
     (case split_on (CHR ''.'') value of
        [a, b] \<Rightarrow>
          if a \<noteq> [] \<and> b \<noteq> [] \<and> (\<forall>c \<in> set (a @ b). py_isdigit c)
          then res_bind (py_int_of_str a) (\<lambda>x. res_bind (py_int_of_str b) (\<lambda>y. Inr (x, y)))
          else Inl ValueError
      | _ \<Rightarrow> Inl ValueError)"

text \<open>Tuples compare lexicographically.\<close>

definition ver_le :: "version \<Rightarrow> version \<Rightarrow> bool" where
  "ver_le v w \<longleftrightarrow> fst v < fst w \<or> fst v = fst w \<and> snd v \<le> snd w"

definition ver_max :: "version \<Rightarrow> version \<Rightarrow> version" where
  "ver_max v w = (if ver_le w v then v else w)"

definition ver_min :: "version \<Rightarrow> version \<Rightarrow> version" where
  "ver_min v w = (if ver_le v w then v else w)"

definition version_str :: "version \<Rightarrow> string" where
  "version_str v = int_str (fst v) @ ''.'' @ int_str (snd v)"

text \<open>
  \<open>token in server_set\<close> hashes the token, so a list or a dictionary raises \<open>TypeError\<close>; a token
  that is in the set is a string.
\<close>

definition token_in :: "string list \<Rightarrow> pyval \<Rightarrow> string option res" where
  "token_in xs v =
     (case v of
        PStr s \<Rightarrow> Inr (if s \<in> set xs then Some s else None)
      | PList _ \<Rightarrow> Inl TypeError
      | PDict _ \<Rightarrow> Inl TypeError
      | _ \<Rightarrow> Inr None)"

text \<open>The keys of \<open>dict.fromkeys(xs)\<close>: first occurrences, in order.\<close>

fun from_keys :: "'a list \<Rightarrow> 'a list" where
  "from_keys [] = []"
| "from_keys (x # xs) = x # filter (\<lambda>y. y \<noteq> x) (from_keys xs)"

definition common_protocols :: "string list \<Rightarrow> pyval list \<Rightarrow> string list res" where
  "common_protocols server tokens =
     res_bind (res_map (token_in server) tokens) (\<lambda>found.
       Inr (from_keys (map the (filter (\<lambda>t. t \<noteq> None) found))))"

definition stable_token :: "string list \<Rightarrow> pyval \<Rightarrow> bool" where
  "stable_token server v =
     (case v of PStr s \<Rightarrow> (s = ''msgpack'' \<or> s = ''json'') \<and> s \<in> set server | _ \<Rightarrow> False)"

definition stable_encoding :: "string list \<Rightarrow> pyval list \<Rightarrow> string option" where
  "stable_encoding server tokens =
     map_option (\<lambda>v. case v of PStr s \<Rightarrow> s | _ \<Rightarrow> []) (find (stable_token server) tokens)"

definition handshake_versions ::
  "handshake_profile \<Rightarrow> hello_frame \<Rightarrow> (version \<times> version \<times> version \<times> version) res" where
  "handshake_versions server client =
     res_bind (parse_version (prf_min_version server)) (\<lambda>server_min.
     res_bind (parse_version (prf_nps_version server)) (\<lambda>server_max.
     res_bind (as_str (if py_bool (hel_min_version client) then hel_min_version client
                       else hel_nps_version client)) (\<lambda>cmin.
     res_bind (parse_version cmin) (\<lambda>client_min.
     res_bind (as_str (hel_nps_version client)) (\<lambda>cmax.
     res_bind (parse_version cmax) (\<lambda>client_max.
       Inr (server_min, server_max, client_min, client_max)))))))"

definition accepted ::
  "handshake_profile \<Rightarrow> hello_frame \<Rightarrow> version \<Rightarrow> string \<Rightarrow> string list \<Rightarrow> handshake_decision" where
  "accepted server client overlap_max stab protocols =
     \<lparr>hd_action = ACCEPT, hd_status = None, hd_error = None, hd_diagnostic_error = None,
      hd_session_version = Some (version_str overlap_max),
      hd_negotiated_encoding = Some stab,
      hd_enabled_encodings =
        Some (if BINARY_VECTOR_TOKEN \<in> set (prf_supported_encodings server)
                 \<and> PStr BINARY_VECTOR_TOKEN \<in> set (hel_supported_encodings client)
              then [stab, BINARY_VECTOR_TOKEN] else [stab]),
      hd_supported_protocols = Some protocols,
      hd_max_frame_payload = Some (min (prf_max_frame_payload server) (hel_max_frame_payload client)),
      hd_ext_support = Some (prf_ext_support server \<and> hel_ext_support client),
      hd_max_concurrent_streams =
        Some (min (prf_max_concurrent_streams server) (hel_max_concurrent_streams client))\<rparr>"

definition negotiate_features ::
  "handshake_profile \<Rightarrow> hello_frame \<Rightarrow> version \<Rightarrow> handshake_decision res" where
  "negotiate_features server client overlap_max =
     (case stable_encoding (prf_supported_encodings server) (hel_supported_encodings client) of
        None \<Rightarrow> Inr encoding_error
      | Some stab \<Rightarrow>
          res_bind (common_protocols (prf_supported_protocols server) (hel_supported_protocols client)) (\<lambda>protocols.
            if ''ncp'' \<notin> set protocols
               \<or> hel_max_frame_payload client \<le> 0 \<or> prf_max_frame_payload server \<le> 0
               \<or> hel_max_concurrent_streams client \<le> 0 \<or> prf_max_concurrent_streams server \<le> 0
            then Inr version_error
            else Inr (accepted server client overlap_max stab protocols)))"

definition negotiate_handshake :: "handshake_profile \<Rightarrow> hello_frame \<Rightarrow> handshake_decision res" where
  "negotiate_handshake server client =
     (case handshake_versions server client of
        Inl e \<Rightarrow> if e = ValueError then Inr version_error else Inl e
      | Inr (server_min, server_max, client_min, client_max) \<Rightarrow>
          if \<not> ver_le server_min server_max \<or> \<not> ver_le client_min client_max then Inr version_error
          else if \<not> ver_le (ver_max server_min client_min) (ver_min server_max client_max)
          then Inr version_error
          else negotiate_features server client (ver_min server_max client_max))"

section \<open>Failover connector\<close>

text \<open>The exceptions the connector tells apart: \<open>OSError\<close>, one with a \<open>protocol_error_code\<close>, any other.\<close>

datatype conn_exn = OSErrorExn nat | ProtocolExn string | OtherExn nat

fun is_failover_shaped :: "conn_exn \<Rightarrow> bool" where
  "is_failover_shaped (OSErrorExn _) = True"
| "is_failover_shaped (ProtocolExn code) = (code = ''NCP-NID-MISMATCH'')"
| "is_failover_shaped (OtherExn _) = False"

datatype conn_call = Resolve | Connect "string \<times> int"

text \<open>
  The injected resolver and connect step may answer differently at every call, so both take
  the number of the attempt. The result carries the calls made, in order.
\<close>

fun connect_attempts ::
  "(nat \<Rightarrow> conn_exn + string \<times> int) \<Rightarrow> (nat \<Rightarrow> string \<times> int \<Rightarrow> conn_exn + 's) \<Rightarrow> nat \<Rightarrow> nat
     \<Rightarrow> conn_exn option \<Rightarrow> (conn_exn option + 's) \<times> conn_call list" where
  "connect_attempts resolve conn i 0 last_error = (Inl last_error, [])"
| "connect_attempts resolve conn i (Suc n) last_error =
     (case resolve i of
        Inl e \<Rightarrow> (Inl (Some e), [Resolve])
      | Inr ep \<Rightarrow>
          (case conn i ep of
             Inr session \<Rightarrow> (Inr session, [Resolve, Connect ep])
           | Inl e \<Rightarrow>
               if \<not> is_failover_shaped e then (Inl (Some e), [Resolve, Connect ep])
               else let (r, calls) = connect_attempts resolve conn (Suc i) n (Some e)
                    in (r, Resolve # Connect ep # calls)))"

text \<open>\<open>Inl None\<close> is the constructor's \<open>ValueError\<close> for \<open>max_attempts < 1\<close>.\<close>

definition failover_connect ::
  "(nat \<Rightarrow> conn_exn + string \<times> int) \<Rightarrow> (nat \<Rightarrow> string \<times> int \<Rightarrow> conn_exn + 's) \<Rightarrow> int
     \<Rightarrow> (conn_exn option + 's) \<times> conn_call list" where
  "failover_connect resolve conn max_attempts =
     (if max_attempts < 1 then (Inl None, [])
      else connect_attempts resolve conn 0 (nat max_attempts) None)"

section \<open>Lemmas\<close>

subsection \<open>Versions\<close>

lemma ver_le_refl [simp]: "ver_le v v"
  by (simp add: ver_le_def)

lemma ver_le_trans: "ver_le u v \<Longrightarrow> ver_le v w \<Longrightarrow> ver_le u w"
  by (auto simp: ver_le_def)

lemma ver_le_linear: "ver_le v w \<or> ver_le w v"
  by (auto simp: ver_le_def)

lemma ver_max_le: "ver_le (ver_max u v) w \<longleftrightarrow> ver_le u w \<and> ver_le v w"
  by (auto simp: ver_max_def ver_le_def)

lemma le_ver_min: "ver_le w (ver_min u v) \<longleftrightarrow> ver_le w u \<and> ver_le w v"
  by (auto simp: ver_min_def ver_le_def)

lemma py_isdecimal_all_digit: "py_isdecimal c \<Longrightarrow> py_isdigit c \<and> c \<noteq> CHR ''.''"
  by (auto simp: py_isdecimal_def py_isdigit_def Let_def)

lemma parse_version_str:
  assumes "0 \<le> fst v" "0 \<le> snd v"
  shows "parse_version (version_str v) = Inr v"
proof -
  have dig: "py_isdigit c \<and> c \<noteq> CHR ''.''" if "c \<in> set (nat_str n)" for c n
    using nat_str_decimal [OF that] py_isdecimal_all_digit by blast
  then have "CHR ''.'' \<notin> set (nat_str n)" for n by blast
  then have "split_on (CHR ''.'') (nat_str a @ CHR ''.'' # nat_str b) = [nat_str a, nat_str b]" for a b
    by (simp add: split_on_append split_on_no_sep)
  then show ?thesis
    using assms dig by (auto simp: version_str_def int_str_def parse_version_def)
qed

lemma digits_not_sign:
  assumes "\<forall>c \<in> set s. py_isdigit c" "py_int_of_str s = Inr i"
  shows "0 \<le> i"
proof (cases "py_strip s")
  case (Cons c cs)
  have "set (py_strip s) \<subseteq> set s"
    by (auto simp: py_strip_def dest!: set_dropWhileD)
  with assms(1) Cons have "py_isdigit c" by auto
  then have "c \<noteq> CHR ''-''" "c \<noteq> CHR ''+''" by (auto simp: py_isdigit_def Let_def)
  with assms(2) Cons show ?thesis
    by (auto simp: py_int_of_str_def unsigned_of_str_def split: if_splits)
qed (use assms in \<open>simp add: py_int_of_str_def\<close>)

lemma parse_version_nonneg: "parse_version s = Inr v \<Longrightarrow> 0 \<le> fst v \<and> 0 \<le> snd v"
  by (auto simp: parse_version_def res_simps ball_Un split: list.splits if_splits dest: digits_not_sign)

subsection \<open>Tokens\<close>

lemma from_keys_set [simp]: "set (from_keys xs) = set xs"
  by (induction xs) auto

lemma from_keys_distinct [simp]: "distinct (from_keys xs)"
  by (induction xs) (auto intro: distinct_filter)

lemma token_in_Some: "token_in xs v = Inr (Some s) \<longleftrightarrow> v = PStr s \<and> s \<in> set xs"
  by (auto simp: token_in_def split: pyval.splits)

lemma res_map_mem: "res_map f xs = Inr ys \<Longrightarrow> y \<in> set ys \<longleftrightarrow> (\<exists>x \<in> set xs. f x = Inr y)"
proof (induction xs arbitrary: ys)
  case (Cons x xs)
  obtain z zs where "f x = Inr z" "res_map f xs = Inr zs" "ys = z # zs"
    using Cons.prems by (auto simp: res_simps)
  with Cons.IH show ?case by auto
qed auto

lemma common_protocols_set:
  assumes "common_protocols server tokens = Inr ps"
  shows "set ps = {s. s \<in> set server \<and> PStr s \<in> set tokens}" "distinct ps"
proof -
  obtain found where f: "res_map (token_in server) tokens = Inr found"
    and ps: "ps = from_keys (map the (filter (\<lambda>t. t \<noteq> None) found))"
    using assms by (auto simp: common_protocols_def res_simps)
  have "set ps = {s. Some s \<in> set found}" by (force simp: ps)
  then show "set ps = {s. s \<in> set server \<and> PStr s \<in> set tokens}"
    by (auto simp: res_map_mem [OF f] token_in_Some)
  show "distinct ps" by (simp add: ps)
qed

lemma stable_token_iff:
  "stable_token server v \<longleftrightarrow> (\<exists>s. v = PStr s \<and> (s = ''msgpack'' \<or> s = ''json'') \<and> s \<in> set server)"
  by (auto simp: stable_token_def split: pyval.splits)

text \<open>The client's order decides.\<close>

lemma stable_encoding_Some:
  "stable_encoding server tokens = Some s \<longleftrightarrow>
     (\<exists>i < length tokens. tokens ! i = PStr s \<and> stable_token server (PStr s)
        \<and> (\<forall>j < i. \<not> stable_token server (tokens ! j)))"
proof -
  have "\<exists>s. v = PStr s" if "find (stable_token server) tokens = Some v" for v
    using that by (auto simp: find_Some_iff stable_token_iff)
  then have "stable_encoding server tokens = Some s \<longleftrightarrow> find (stable_token server) tokens = Some (PStr s)"
    by (cases "find (stable_token server) tokens") (auto simp: stable_encoding_def)
  then show ?thesis by (auto simp: find_Some_iff)
qed

lemma stable_encoding_None:
  "stable_encoding server tokens = None \<longleftrightarrow> (\<forall>v \<in> set tokens. \<not> stable_token server v)"
  by (auto simp: stable_encoding_def find_None_iff)

subsection \<open>Negotiation\<close>

lemma decision_actions [simp]:
  "hd_action version_error = ERROR_CLOSE" "hd_action encoding_error = ERROR_CLOSE"
  "hd_action (accepted server client v enc ps) = ACCEPT"
  by (simp_all add: version_error_def encoding_error_def bare_decision_def accepted_def)

definition limits_positive :: "handshake_profile \<Rightarrow> hello_frame \<Rightarrow> bool" where
  "limits_positive server client \<longleftrightarrow>
     0 < hel_max_frame_payload client \<and> 0 < prf_max_frame_payload server
     \<and> 0 < hel_max_concurrent_streams client \<and> 0 < prf_max_concurrent_streams server"

lemma negotiate_features_accept:
  "negotiate_features server client v = Inr d \<and> hd_action d = ACCEPT \<longleftrightarrow>
     (\<exists>enc ps. stable_encoding (prf_supported_encodings server) (hel_supported_encodings client) = Some enc
        \<and> common_protocols (prf_supported_protocols server) (hel_supported_protocols client) = Inr ps
        \<and> ''ncp'' \<in> set ps \<and> limits_positive server client \<and> d = accepted server client v enc ps)"
  by (auto simp: negotiate_features_def limits_positive_def res_simps not_le split: option.splits if_splits)

lemma negotiate_accept_iff:
  "negotiate_handshake server client = Inr d \<and> hd_action d = ACCEPT \<longleftrightarrow>
     (\<exists>smin smax cmin cmax. handshake_versions server client = Inr (smin, smax, cmin, cmax)
        \<and> ver_le smin smax \<and> ver_le cmin cmax
        \<and> ver_le (ver_max smin cmin) (ver_min smax cmax)
        \<and> negotiate_features server client (ver_min smax cmax) = Inr d \<and> hd_action d = ACCEPT)"
  by (auto simp: negotiate_handshake_def split: sum.splits if_splits)

lemma negotiate_accept_cases:
  assumes "negotiate_handshake server client = Inr d" "hd_action d = ACCEPT"
  obtains smin smax cmin cmax enc ps where
    "handshake_versions server client = Inr (smin, smax, cmin, cmax)"
    "ver_le (ver_max smin cmin) (ver_min smax cmax)"
    "stable_encoding (prf_supported_encodings server) (hel_supported_encodings client) = Some enc"
    "common_protocols (prf_supported_protocols server) (hel_supported_protocols client) = Inr ps"
    "''ncp'' \<in> set ps" "limits_positive server client"
    "d = accepted server client (ver_min smax cmax) enc ps"
  using assms negotiate_accept_iff [of server client d] negotiate_features_accept by metis

lemma handshake_versions_nonneg:
  assumes "handshake_versions server client = Inr (smin, smax, cmin, cmax)"
  shows "0 \<le> fst smax" "0 \<le> snd smax" "0 \<le> fst cmax" "0 \<le> snd cmax"
  using assms by (auto simp: handshake_versions_def res_simps dest: parse_version_nonneg)

lemma negotiate_accept_parts:
  assumes acc: "negotiate_handshake server client = Inr d" "hd_action d = ACCEPT"
  shows "\<exists>smin smax cmin cmax v. handshake_versions server client = Inr (smin, smax, cmin, cmax)
      \<and> hd_session_version d = Some (version_str v) \<and> parse_version (version_str v) = Inr v
      \<and> ver_le smin v \<and> ver_le v smax \<and> ver_le cmin v \<and> ver_le v cmax
      \<and> (\<forall>w. ver_le w smax \<and> ver_le w cmax \<longrightarrow> ver_le w v)"
    and "\<exists>enc es i. hd_negotiated_encoding d = Some enc \<and> hd_enabled_encodings d = Some es
      \<and> i < length (hel_supported_encodings client) \<and> hel_supported_encodings client ! i = PStr enc
      \<and> stable_token (prf_supported_encodings server) (PStr enc)
      \<and> (\<forall>j < i. \<not> stable_token (prf_supported_encodings server) (hel_supported_encodings client ! j))
      \<and> (BINARY_VECTOR_TOKEN \<in> set es \<longleftrightarrow> BINARY_VECTOR_TOKEN \<in> set (prf_supported_encodings server)
           \<and> PStr BINARY_VECTOR_TOKEN \<in> set (hel_supported_encodings client))"
    and "\<exists>ps n k. hd_supported_protocols d = Some ps \<and> distinct ps \<and> ''ncp'' \<in> set ps
      \<and> set ps = {s. s \<in> set (prf_supported_protocols server) \<and> PStr s \<in> set (hel_supported_protocols client)}
      \<and> hd_max_frame_payload d = Some n \<and> 0 < n \<and> n \<le> prf_max_frame_payload server \<and> n \<le> hel_max_frame_payload client
      \<and> hd_max_concurrent_streams d = Some k \<and> 0 < k \<and> k \<le> prf_max_concurrent_streams server
      \<and> k \<le> hel_max_concurrent_streams client"
proof -
  obtain smin smax cmin cmax enc ps where
    v: "handshake_versions server client = Inr (smin, smax, cmin, cmax)"
    and ov: "ver_le (ver_max smin cmin) (ver_min smax cmax)"
    and e: "stable_encoding (prf_supported_encodings server) (hel_supported_encodings client) = Some enc"
    and ps: "common_protocols (prf_supported_protocols server) (hel_supported_protocols client) = Inr ps"
    and pos: "''ncp'' \<in> set ps" "limits_positive server client"
    and d: "d = accepted server client (ver_min smax cmax) enc ps"
    using acc by (rule negotiate_accept_cases)
  let ?v = "ver_min smax cmax"
  have "0 \<le> fst ?v" "0 \<le> snd ?v"
    using handshake_versions_nonneg [OF v] by (auto simp: ver_min_def)
  then have "parse_version (version_str ?v) = Inr ?v" by (rule parse_version_str)
  moreover have "ver_le smin ?v" "ver_le ?v smax" "ver_le cmin ?v" "ver_le ?v cmax"
    using ov le_ver_min [of ?v smax cmax] by (auto simp: ver_max_le)
  moreover have "\<forall>w. ver_le w smax \<and> ver_le w cmax \<longrightarrow> ver_le w ?v"
    by (simp add: le_ver_min)
  moreover have "hd_session_version d = Some (version_str ?v)"
    by (simp add: d accepted_def)
  ultimately show "\<exists>smin smax cmin cmax v. handshake_versions server client = Inr (smin, smax, cmin, cmax)
      \<and> hd_session_version d = Some (version_str v) \<and> parse_version (version_str v) = Inr v
      \<and> ver_le smin v \<and> ver_le v smax \<and> ver_le cmin v \<and> ver_le v cmax
      \<and> (\<forall>w. ver_le w smax \<and> ver_le w cmax \<longrightarrow> ver_le w v)"
    using v by blast
  obtain i where "i < length (hel_supported_encodings client)" "hel_supported_encodings client ! i = PStr enc"
    "stable_token (prf_supported_encodings server) (PStr enc)"
    "\<forall>j < i. \<not> stable_token (prf_supported_encodings server) (hel_supported_encodings client ! j)"
    using e unfolding stable_encoding_Some by blast
  moreover from this(3) have "enc \<noteq> BINARY_VECTOR_TOKEN"
    by (auto simp: stable_token_iff BINARY_VECTOR_TOKEN_def)
  ultimately show "\<exists>enc es i. hd_negotiated_encoding d = Some enc \<and> hd_enabled_encodings d = Some es
      \<and> i < length (hel_supported_encodings client) \<and> hel_supported_encodings client ! i = PStr enc
      \<and> stable_token (prf_supported_encodings server) (PStr enc)
      \<and> (\<forall>j < i. \<not> stable_token (prf_supported_encodings server) (hel_supported_encodings client ! j))
      \<and> (BINARY_VECTOR_TOKEN \<in> set es \<longleftrightarrow> BINARY_VECTOR_TOKEN \<in> set (prf_supported_encodings server)
           \<and> PStr BINARY_VECTOR_TOKEN \<in> set (hel_supported_encodings client))"
    by (intro exI [of _ enc] exI [of _ "the (hd_enabled_encodings d)"] exI [of _ i]) (simp add: d accepted_def)
  show "\<exists>ps n k. hd_supported_protocols d = Some ps \<and> distinct ps \<and> ''ncp'' \<in> set ps
      \<and> set ps = {s. s \<in> set (prf_supported_protocols server) \<and> PStr s \<in> set (hel_supported_protocols client)}
      \<and> hd_max_frame_payload d = Some n \<and> 0 < n \<and> n \<le> prf_max_frame_payload server \<and> n \<le> hel_max_frame_payload client
      \<and> hd_max_concurrent_streams d = Some k \<and> 0 < k \<and> k \<le> prf_max_concurrent_streams server
      \<and> k \<le> hel_max_concurrent_streams client"
    using pos common_protocols_set [OF ps] by (simp add: d accepted_def limits_positive_def)
qed

text \<open>Strings as the type annotations of \<open>HelloFrame\<close> ask for.\<close>

definition hello_typed :: "hello_frame \<Rightarrow> bool" where
  "hello_typed h \<longleftrightarrow> (\<exists>s. hel_nps_version h = PStr s)
     \<and> (hel_min_version h = PNone \<or> (\<exists>s. hel_min_version h = PStr s))
     \<and> (\<forall>t \<in> set (hel_supported_protocols h). \<exists>s. t = PStr s)"

lemma res_map_total: "(\<And>x. x \<in> set xs \<Longrightarrow> \<exists>y. f x = Inr y) \<Longrightarrow> \<exists>ys. res_map f xs = Inr ys"
  by (induction xs) fastforce+

lemma common_protocols_typed:
  assumes "\<forall>t \<in> set tokens. \<exists>s. t = PStr s"
  shows "\<exists>ps. common_protocols server tokens = Inr ps"
proof -
  obtain ys where "res_map (token_in server) tokens = Inr ys"
    using res_map_total [of tokens "token_in server"] assms by (fastforce simp: token_in_def)
  then show ?thesis by (simp add: common_protocols_def)
qed

lemma parse_version_error: "parse_version s = Inl e \<Longrightarrow> e = ValueError"
  by (auto simp: parse_version_def py_int_of_str_def unsigned_of_str_def res_simps
      split: list.splits if_splits)

lemma handshake_versions_typed:
  assumes "hello_typed client" "handshake_versions server client = Inl e"
  shows "e = ValueError"
  using assms
  by (auto simp: hello_typed_def handshake_versions_def res_simps dest: parse_version_error split: if_splits)

lemma negotiate_total:
  assumes "hello_typed client"
  shows "\<exists>d. negotiate_handshake server client = Inr d
    \<and> (hd_action d = ACCEPT \<or> d = version_error \<or> d = encoding_error)"
proof -
  obtain ps where ps: "common_protocols (prf_supported_protocols server) (hel_supported_protocols client) = Inr ps"
    using common_protocols_typed [of "hel_supported_protocols client"] assms unfolding hello_typed_def by blast
  have "\<exists>d. negotiate_features server client v = Inr d
      \<and> (hd_action d = ACCEPT \<or> d = version_error \<or> d = encoding_error)" for v
    by (auto simp: negotiate_features_def ps split: option.split)
  then show ?thesis
    using handshake_versions_typed [OF assms]
    by (auto simp: negotiate_handshake_def split: sum.split)
qed

lemma ver_overlap:
  "ver_le (ver_max a b) (ver_min c e) \<longleftrightarrow>
     ver_le a c \<and> ver_le b e \<and> (\<exists>v. ver_le a v \<and> ver_le v c \<and> ver_le b v \<and> ver_le v e)"
proof
  assume "ver_le (ver_max a b) (ver_min c e)"
  then have "ver_le a (ver_max a b)" "ver_le (ver_max a b) c" "ver_le b (ver_max a b)" "ver_le (ver_max a b) e"
    using ver_max_le [of a b "ver_max a b"] by (simp_all add: le_ver_min)
  then show "ver_le a c \<and> ver_le b e \<and> (\<exists>v. ver_le a v \<and> ver_le v c \<and> ver_le b v \<and> ver_le v e)"
    using ver_le_trans by blast
qed (auto simp: ver_max_le le_ver_min intro: ver_le_trans)

lemma accept_conditions:
  assumes d: "negotiate_handshake server client = Inr d"
    and ps: "common_protocols (prf_supported_protocols server) (hel_supported_protocols client) = Inr ps"
  shows "hd_action d = ACCEPT \<longleftrightarrow>
    (\<exists>smin smax cmin cmax. handshake_versions server client = Inr (smin, smax, cmin, cmax)
       \<and> ver_le smin smax \<and> ver_le cmin cmax
       \<and> (\<exists>v. ver_le smin v \<and> ver_le v smax \<and> ver_le cmin v \<and> ver_le v cmax))
    \<and> (\<exists>enc. stable_encoding (prf_supported_encodings server) (hel_supported_encodings client) = Some enc)
    \<and> ''ncp'' \<in> set ps \<and> limits_positive server client"
    (is "_ \<longleftrightarrow> ?V \<and> ?E \<and> ?N \<and> ?L")
proof
  assume "hd_action d = ACCEPT"
  with d show "?V \<and> ?E \<and> ?N \<and> ?L"
  proof (rule negotiate_accept_cases)
    fix smin smax cmin cmax enc ps'
    assume "handshake_versions server client = Inr (smin, smax, cmin, cmax)"
      "ver_le (ver_max smin cmin) (ver_min smax cmax)"
      "stable_encoding (prf_supported_encodings server) (hel_supported_encodings client) = Some enc"
      "common_protocols (prf_supported_protocols server) (hel_supported_protocols client) = Inr ps'"
      "''ncp'' \<in> set ps'" "limits_positive server client"
    with ps show ?thesis by (simp add: ver_overlap)
  qed
next
  assume "?V \<and> ?E \<and> ?N \<and> ?L"
  then obtain smin smax cmin cmax enc where v: "handshake_versions server client = Inr (smin, smax, cmin, cmax)"
    "ver_le smin smax" "ver_le cmin cmax" "ver_le (ver_max smin cmin) (ver_min smax cmax)"
    "stable_encoding (prf_supported_encodings server) (hel_supported_encodings client) = Some enc" ?N ?L
    unfolding ver_overlap by blast
  then have "negotiate_features server client (ver_min smax cmax)
      = Inr (accepted server client (ver_min smax cmax) enc ps)"
    using ps by (simp add: negotiate_features_def limits_positive_def)
  then have "d = accepted server client (ver_min smax cmax) enc ps"
    using d v(1-4) by (simp add: negotiate_handshake_def)
  then show "hd_action d = ACCEPT" by simp
qed

subsection \<open>Failover attempts\<close>

definition attempt_result ::
  "(nat \<Rightarrow> conn_exn + string \<times> int) \<Rightarrow> (nat \<Rightarrow> string \<times> int \<Rightarrow> conn_exn + 's) \<Rightarrow> nat \<Rightarrow> conn_exn option + 's" where
  "attempt_result resolve conn i =
     (case resolve i of Inl e \<Rightarrow> Inl (Some e)
      | Inr ep \<Rightarrow> (case conn i ep of Inl e \<Rightarrow> Inl (Some e) | Inr s \<Rightarrow> Inr s))"

definition attempt_calls :: "(nat \<Rightarrow> conn_exn + string \<times> int) \<Rightarrow> nat \<Rightarrow> conn_call list" where
  "attempt_calls resolve i = (case resolve i of Inl e \<Rightarrow> [Resolve] | Inr ep \<Rightarrow> [Resolve, Connect ep])"

definition failed_over ::
  "(nat \<Rightarrow> conn_exn + string \<times> int) \<Rightarrow> (nat \<Rightarrow> string \<times> int \<Rightarrow> conn_exn + 's) \<Rightarrow> nat \<Rightarrow> bool" where
  "failed_over resolve conn i \<longleftrightarrow>
     (\<exists>ep e. resolve i = Inr ep \<and> conn i ep = Inl e \<and> is_failover_shaped e)"

lemma upt_split: "i \<le> k \<Longrightarrow> [i..<Suc k] = i # [Suc i..<Suc k]"
  by (simp add: upt_conv_Cons)

lemma connect_attempts_spec:
  assumes "0 < n"
  shows "\<exists>k. i \<le> k \<and> k < i + n \<and> (\<forall>j. i \<le> j \<and> j < k \<longrightarrow> failed_over resolve conn j)
    \<and> (failed_over resolve conn k \<longrightarrow> Suc k = i + n)
    \<and> connect_attempts resolve conn i n le
      = (attempt_result resolve conn k, concat (map (attempt_calls resolve) [i..<Suc k]))"
  using assms
proof (induction n arbitrary: i le)
  case (Suc n)
  show ?case
  proof (cases "failed_over resolve conn i \<and> n \<noteq> 0")
    case False
    then show ?thesis
      by (intro exI [of _ i])
        (auto simp: failed_over_def attempt_result_def attempt_calls_def split: sum.splits)
  next
    case True
    then obtain ep e where f: "resolve i = Inr ep" "conn i ep = Inl e" "is_failover_shaped e"
      by (auto simp: failed_over_def)
    obtain k where k: "Suc i \<le> k" "k < Suc i + n"
      "\<forall>j. Suc i \<le> j \<and> j < k \<longrightarrow> failed_over resolve conn j"
      "failed_over resolve conn k \<longrightarrow> Suc k = Suc i + n"
      "connect_attempts resolve conn (Suc i) n (Some e)
        = (attempt_result resolve conn k, concat (map (attempt_calls resolve) [Suc i..<Suc k]))"
      using Suc.IH [of "Suc i" "Some e"] True by blast
    have "\<forall>j. i \<le> j \<and> j < k \<longrightarrow> failed_over resolve conn j"
      using k(3) True by (metis Suc_leI le_neq_implies_less)
    moreover have "attempt_calls resolve i = [Resolve, Connect ep]"
      by (simp add: attempt_calls_def f)
    ultimately show ?thesis
      using k f by (intro exI [of _ k]) (simp add: upt_split [of i] del: upt_Suc)
  qed
qed simp

section \<open>Properties\<close>

text \<open>
  What an accepted negotiation promises: the session version is the highest one that both
  version ranges contain and it prints to a string that parses back; the encoding is the first
  stable one in the client's order that the server knows; the protocols are exactly the common
  ones, without duplicates and with \<open>ncp\<close>; BinaryVector is enabled exactly when both sides list
  it; the limits are positive and within both sides' limits.
\<close>

theorem negotiate_accept_sound:
  assumes "negotiate_handshake server client = Inr d" "hd_action d = ACCEPT"
  shows "(\<exists>smin smax cmin cmax v. handshake_versions server client = Inr (smin, smax, cmin, cmax)
      \<and> hd_session_version d = Some (version_str v) \<and> parse_version (version_str v) = Inr v
      \<and> ver_le smin v \<and> ver_le v smax \<and> ver_le cmin v \<and> ver_le v cmax
      \<and> (\<forall>w. ver_le w smax \<and> ver_le w cmax \<longrightarrow> ver_le w v))
    \<and> (\<exists>enc es i. hd_negotiated_encoding d = Some enc \<and> hd_enabled_encodings d = Some es
      \<and> i < length (hel_supported_encodings client) \<and> hel_supported_encodings client ! i = PStr enc
      \<and> stable_token (prf_supported_encodings server) (PStr enc)
      \<and> (\<forall>j < i. \<not> stable_token (prf_supported_encodings server) (hel_supported_encodings client ! j))
      \<and> (BINARY_VECTOR_TOKEN \<in> set es \<longleftrightarrow> BINARY_VECTOR_TOKEN \<in> set (prf_supported_encodings server)
           \<and> PStr BINARY_VECTOR_TOKEN \<in> set (hel_supported_encodings client)))
    \<and> (\<exists>ps n k. hd_supported_protocols d = Some ps \<and> distinct ps \<and> ''ncp'' \<in> set ps
      \<and> set ps = {s. s \<in> set (prf_supported_protocols server) \<and> PStr s \<in> set (hel_supported_protocols client)}
      \<and> hd_max_frame_payload d = Some n \<and> 0 < n \<and> n \<le> prf_max_frame_payload server \<and> n \<le> hel_max_frame_payload client
      \<and> hd_max_concurrent_streams d = Some k \<and> 0 < k \<and> k \<le> prf_max_concurrent_streams server
      \<and> k \<le> hel_max_concurrent_streams client)"
  using negotiate_accept_parts [OF assms] by (intro conjI)

definition ex_hello :: hello_frame where
  "ex_hello = \<lparr>hel_nps_version = PStr ''0.9'', hel_supported_encodings = [PStr ''cbor'', PStr ''json'', PStr ''msgpack''],
     hel_supported_protocols = [PStr ''nwp'', PStr ''ncp'', PStr ''nwp''], hel_min_version = PStr ''0.2'',
     hel_agent_id = PNone, hel_max_frame_payload = 4096, hel_ext_support = True,
     hel_max_concurrent_streams = 64, hel_e2e_enc_algorithms = None\<rparr>"

lemma ex_version_str: "version_str (0, 9) = ''0.9''"
  by code_simp

lemma ex_hello_accept:
  "negotiate_handshake default_profile ex_hello
     = Inr (accepted default_profile ex_hello (0, 9) ''json'' [''nwp'', ''ncp''])"
  by (simp add: negotiate_handshake_def handshake_versions_def default_profile_def ex_hello_def parse_version_def
      py_isdigit_def py_int_of_str_def py_strip_def py_isspace_def unsigned_of_str_def py_isdecimal_def
      dec_value_def digit_val_def ver_le_def ver_max_def ver_min_def negotiate_features_def
      stable_encoding_def stable_token_def common_protocols_def token_in_def header_consts)

theorem negotiate_accept_sound_witness:
  "\<exists>d. negotiate_handshake default_profile ex_hello = Inr d \<and> hd_action d = ACCEPT
     \<and> hd_session_version d = Some ''0.9''
     \<and> (\<exists>ps n k. hd_supported_protocols d = Some ps \<and> distinct ps \<and> ''ncp'' \<in> set ps
      \<and> hd_max_frame_payload d = Some n \<and> 0 < n \<and> n \<le> prf_max_frame_payload default_profile
      \<and> hd_max_concurrent_streams d = Some k \<and> 0 < k)"
proof -
  let ?d = "accepted default_profile ex_hello (0, 9) ''json'' [''nwp'', ''ncp'']"
  have "hd_session_version ?d = Some ''0.9''"
    using ex_version_str by (simp add: accepted_def)
  then show ?thesis
    using negotiate_accept_sound [OF ex_hello_accept] ex_hello_accept by (intro exI [of _ ?d]) auto
qed

text \<open>
  Negotiation decides every well-typed hello: it returns a decision, never an exception, and
  it accepts exactly when both version ranges are well formed and overlap, the two sides share a
  stable encoding and the protocol \<open>ncp\<close>, and all limits are positive; otherwise it closes with
  the version or the encoding error.
\<close>

theorem negotiate_decides:
  assumes "hello_typed client"
  shows "\<exists>d. negotiate_handshake server client = Inr d
    \<and> (hd_action d = ACCEPT \<longleftrightarrow>
         (\<exists>smin smax cmin cmax. handshake_versions server client = Inr (smin, smax, cmin, cmax)
            \<and> ver_le smin smax \<and> ver_le cmin cmax
            \<and> (\<exists>v. ver_le smin v \<and> ver_le v smax \<and> ver_le cmin v \<and> ver_le v cmax))
         \<and> (\<exists>t \<in> set (hel_supported_encodings client). stable_token (prf_supported_encodings server) t)
         \<and> ''ncp'' \<in> set (prf_supported_protocols server) \<and> PStr ''ncp'' \<in> set (hel_supported_protocols client)
         \<and> limits_positive server client)
    \<and> (hd_action d = ACCEPT \<or> d = version_error \<or> d = encoding_error)"
proof -
  obtain d where d: "negotiate_handshake server client = Inr d"
    "hd_action d = ACCEPT \<or> d = version_error \<or> d = encoding_error"
    using negotiate_total [OF assms] by blast
  obtain ps where ps: "common_protocols (prf_supported_protocols server) (hel_supported_protocols client) = Inr ps"
    using common_protocols_typed [of "hel_supported_protocols client"] assms unfolding hello_typed_def by blast
  have "''ncp'' \<in> set ps \<longleftrightarrow> ''ncp'' \<in> set (prf_supported_protocols server) \<and> PStr ''ncp'' \<in> set (hel_supported_protocols client)"
    using common_protocols_set [OF ps] by auto
  moreover have "(\<exists>enc. stable_encoding (prf_supported_encodings server) (hel_supported_encodings client) = Some enc)
      \<longleftrightarrow> (\<exists>t \<in> set (hel_supported_encodings client). stable_token (prf_supported_encodings server) t)"
    using stable_encoding_None [of "prf_supported_encodings server" "hel_supported_encodings client"] by auto
  ultimately show ?thesis
    using d accept_conditions [OF d(1) ps] by (intro exI [of _ d]) simp
qed

theorem negotiate_decides_witness:
  "hello_typed ex_hello \<and> (\<exists>d. negotiate_handshake default_profile ex_hello = Inr d
     \<and> (hd_action d = ACCEPT \<or> d = version_error \<or> d = encoding_error))"
proof -
  have "hello_typed ex_hello" by (simp add: hello_typed_def ex_hello_def)
  then show ?thesis using negotiate_decides [of ex_hello default_profile] by blast
qed

text \<open>
  The failover connector makes at least one and at most \<open>max_attempts\<close> attempts, resolves
  once before every connect and connects to what that resolution returned; it moves on only
  after a failover-shaped failure, and its outcome is the outcome of the last attempt it made:
  the session, the error that is not failover-shaped, or the last failure when the attempts are
  exhausted.
\<close>

theorem failover_connect_spec:
  assumes "1 \<le> max_attempts"
  shows "\<exists>k. k < nat max_attempts \<and> (\<forall>j < k. failed_over resolve conn j)
    \<and> (failed_over resolve conn k \<longrightarrow> Suc k = nat max_attempts)
    \<and> failover_connect resolve conn max_attempts
      = (attempt_result resolve conn k, concat (map (attempt_calls resolve) [0..<Suc k]))"
  using connect_attempts_spec [of "nat max_attempts" 0 resolve conn None] assms
  by (auto simp: failover_connect_def)

theorem failover_connect_spec_witness:
  "(1 :: int) \<le> 2 \<and> (\<exists>k < 2. failover_connect (\<lambda>i. Inr (if i = 0 then ''old'' else ''new'', 17433))
      (\<lambda>i ep. if fst ep = ''old'' then Inl (OSErrorExn 111) else Inr (snd ep)) 2
     = (attempt_result (\<lambda>i. Inr (if i = 0 then ''old'' else ''new'', 17433))
          (\<lambda>i ep. if fst ep = ''old'' then Inl (OSErrorExn 111) else Inr (snd ep)) k,
        concat (map (attempt_calls (\<lambda>i. Inr (if i = 0 then ''old'' else ''new'', 17433))) [0..<Suc k])))"
  using failover_connect_spec [of 2 "\<lambda>i. Inr (if i = 0 then ''old'' else ''new'', 17433)"
      "\<lambda>i ep. if fst ep = ''old'' then Inl (OSErrorExn 111) else Inr (snd ep)"]
  by auto

end
