(* ===== verification/NcpSession.thy ===== *)
theory NcpSession
  imports NcpHandshake
begin

unbundle bit_operations_syntax

text \<open>
  Native-mode sessions: \<open>nps_sdk/ncp/session.py\<close>, \<open>client.py\<close>, \<open>server.py\<close> and \<open>server_options.py\<close>.

  A stream is the list of bytes its reader will deliver before the end of file; reading returns
  the bytes still to come. What an endpoint writes is returned as bytes. The wall-clock budgets
  of the server's reads are not modelled, nor are sockets: \<open>drain\<close> and \<open>wait_closed\<close> have no
  effect here.
\<close>

section \<open>Reading from a stream\<close>

definition readexactly :: "nat \<Rightarrow> bytes \<Rightarrow> (bytes \<times> bytes) res" where
  "readexactly n s = (if length s < n then Inl IncompleteReadError else Inr (take n s, drop n s))"

definition read_frame_header :: "bytes \<Rightarrow> (frame_header \<times> bytes \<times> bytes) res" where
  "read_frame_header s =
     res_bind (readexactly 2 s) (\<lambda>(peek, s1).
       let ext = (peek ! 1 AND FLAG_EXT \<noteq> 0);
           remaining = (if ext then EXTENDED_HEADER_SIZE else DEFAULT_HEADER_SIZE) - 2
       in res_bind (readexactly remaining s1) (\<lambda>(rest, s2).
            res_bind (parse_header (peek @ rest)) (\<lambda>header. Inr (header, peek @ rest, s2))))"

text \<open>Header, raw header bytes and payload of the next frame.\<close>

definition read_frame :: "bytes \<Rightarrow> (frame_header \<times> bytes \<times> bytes) res" where
  "read_frame s =
     res_bind (read_frame_header s) (\<lambda>(header, raw, s1).
       res_bind (readexactly (nat (hdr_payload_length header)) s1) (\<lambda>(payload, s2).
         Inr (header, raw @ payload, s2)))"

section \<open>Sessions\<close>

record codec =
  cd_lib :: wire_lib
  cd_registry :: frame_registry
  cd_max_payload :: int

record session =
  ses_codec :: codec
  ses_server_caps :: handshake_caps_frame
  ses_policy :: encoding_policy
  ses_closed :: bool

definition negotiated_tier :: "session \<Rightarrow> encoding_tier" where
  "negotiated_tier s = default_tier (ses_policy s)"

text \<open>The bytes \<open>send_frame\<close> writes.\<close>

definition send_frame :: "'f frame_api \<Rightarrow> session \<Rightarrow> encoding_tier option \<Rightarrow> 'f \<Rightarrow> bytes res" where
  "send_frame api s tier f =
     (let chosen = (case tier of None \<Rightarrow> default_tier (ses_policy s) | Some t \<Rightarrow> t);
          header = \<lparr>hdr_frame_type = fa_type api f, hdr_flags = tier_code chosen, hdr_payload_length = 0\<rparr>
      in res_bind (ensure_allows (ses_policy s) header) (\<lambda>_.
           codec_encode (cd_lib (ses_codec s)) api (cd_max_payload (ses_codec s)) (Some chosen) f))"

text \<open>The frame \<open>receive_frame\<close> returns and the stream behind it.\<close>

definition receive_frame :: "'f frame_api \<Rightarrow> session \<Rightarrow> bytes \<Rightarrow> ('f \<times> bytes) res" where
  "receive_frame api s stream =
     res_bind (read_frame stream) (\<lambda>(header, wire, rest).
       res_bind (ensure_allows (ses_policy s) header) (\<lambda>_.
         res_bind (codec_decode (cd_lib (ses_codec s)) api (cd_registry (ses_codec s)) wire) (\<lambda>f.
           Inr (f, rest))))"

definition close_session :: "session \<Rightarrow> session" where
  "close_session s = (if ses_closed s then s else s\<lparr>ses_closed := True\<rparr>)"

section \<open>The client's handshake\<close>

definition handshake_registry :: frame_registry where
  "handshake_registry = [CAPS \<mapsto> NcpHandshakeCapsFrame, ERROR \<mapsto> ErrorFrame]"

text \<open>The error code of a rejecting frame, a string in every frame this package sends.\<close>

definition error_code_of :: "error_frame \<Rightarrow> string" where
  "error_code_of e = (case err_error e of PStr s \<Rightarrow> s | _ \<Rightarrow> [])"

text \<open>What the client writes before it reads: the preamble and the hello frame.\<close>

definition client_opening :: "codec \<Rightarrow> hello_frame \<Rightarrow> bytes res" where
  "client_opening c hello =
     res_bind (codec_encode (cd_lib c) ncp_api (cd_max_payload c) (Some JSON) (NHello hello)) (\<lambda>w.
       Inr (PREAMBLE_BYTES @ w))"

definition client_finish :: "codec \<Rightarrow> bytes \<Rightarrow> (session \<times> bytes) res" where
  "client_finish c stream =
     res_bind (read_frame stream) (\<lambda>(header, wire, rest).
       if hdr_frame_type header = ERROR then
         res_bind (codec_decode (cd_lib c) ncp_api handshake_registry wire) (\<lambda>f.
           case f of NError e \<Rightarrow> Inl (NcpHandshakeError (error_code_of e)) | _ \<Rightarrow> Inl AssertionError)
       else if hdr_frame_type header \<noteq> CAPS then Inl (NcpHandshakeError ''NCP-HANDSHAKE-UNEXPECTED-FRAME'')
       else res_bind (hdr_encoding_tier header) (\<lambda>tier.
         res_bind (codec_decode (cd_lib c) ncp_api handshake_registry wire) (\<lambda>f.
           case f of
             NHandshakeCaps caps \<Rightarrow>
               Inr (\<lparr>ses_codec = c, ses_server_caps = caps,
                     ses_policy = from_enabled_encodings tier (hc_enabled_encodings caps),
                     ses_closed = False\<rparr>, rest)
           | _ \<Rightarrow> Inl AssertionError)))"

section \<open>The server's handshake\<close>

definition hello_registry :: frame_registry where
  "hello_registry = [HELLO \<mapsto> HelloFrame]"

text \<open>Stream objects by identity, for the authentication hook.\<close>

type_synonym stream_pair = "nat \<times> nat"

record server_options =
  opt_authenticate :: "(stream_pair \<Rightarrow> (nat option \<times> nat option) res) option"
  opt_require_authenticated_stream :: bool
  opt_max_hello_payload :: int
  opt_handshake_profile :: handshake_profile

definition server_authenticate :: "server_options \<Rightarrow> stream_pair \<Rightarrow> stream_pair res" where
  "server_authenticate opts rw =
     (case opt_authenticate opts of
        None \<Rightarrow> if opt_require_authenticated_stream opts then Inl NpsFrameError else Inr rw
      | Some hook \<Rightarrow>
          res_bind (hook rw) (\<lambda>(r, w).
            case (r, w) of
              (Some r', Some w') \<Rightarrow>
                if opt_require_authenticated_stream opts \<and> w' = snd rw then Inl NpsFrameError
                else Inr (r', w')
            | _ \<Rightarrow> Inl NpsFrameError))"

record server_connection =
  con_codec :: codec
  con_client_hello :: hello_frame
  con_profile :: handshake_profile

definition server_handshake :: "codec \<Rightarrow> server_options \<Rightarrow> bytes \<Rightarrow> (server_connection \<times> bytes) res" where
  "server_handshake c opts stream =
     res_bind (readexactly PREAMBLE_LENGTH stream) (\<lambda>(preamble_buf, s1).
     res_bind (preamble_validate preamble_buf) (\<lambda>_.
     res_bind (read_frame_header s1) (\<lambda>(header, raw, s2).
     res_bind (evaluate_hello_header header 0 0 (opt_max_hello_payload opts)) (\<lambda>decision.
       if hd_action decision = SILENT_CLOSE then Inl NpsFrameError
       else res_bind (readexactly (nat (hdr_payload_length header)) s2) (\<lambda>(payload, s3).
         res_bind (codec_decode (cd_lib c) ncp_api hello_registry (raw @ payload)) (\<lambda>f.
           case f of
             NHello hello \<Rightarrow>
               Inr (\<lparr>con_codec = c, con_client_hello = hello, con_profile = opt_handshake_profile opts\<rparr>, s3)
           | _ \<Rightarrow> Inl AssertionError))))))"

text \<open>\<open>_on_client\<close>: a connection that fails any step is closed and never reaches the queue.\<close>

definition on_client ::
  "codec \<Rightarrow> server_options \<Rightarrow> stream_pair \<Rightarrow> bytes \<Rightarrow> server_connection list \<Rightarrow> server_connection list" where
  "on_client c opts rw stream pending =
     (case res_bind (server_authenticate opts rw) (\<lambda>_. server_handshake c opts stream) of
        Inl _ \<Rightarrow> pending
      | Inr (conn, _) \<Rightarrow> pending @ [conn])"

definition str_or_none :: "string option \<Rightarrow> pyval" where
  "str_or_none s = opt_val PStr s"

definition rejection :: "handshake_decision \<Rightarrow> error_frame" where
  "rejection d =
     \<lparr>err_status = PStr (case hd_status d of None \<Rightarrow> ''NPS-PROTO-VERSION-INCOMPATIBLE'' | Some s \<Rightarrow> s),
      err_error = PStr (case hd_error d of None \<Rightarrow> ''NCP-VERSION-INCOMPATIBLE'' | Some e \<Rightarrow> e),
      err_message = PStr ''Native NCP handshake negotiation failed.'', err_details = PNone\<rparr>"

definition answered_caps :: "handshake_caps_frame \<Rightarrow> handshake_decision \<Rightarrow> handshake_caps_frame" where
  "answered_caps server_caps d =
     server_caps\<lparr>hc_session_version := str_or_none (hd_session_version d),
       hc_negotiated_encoding := str_or_none (hd_negotiated_encoding d),
       hc_enabled_encodings := map_option (map PStr) (hd_enabled_encodings d),
       hc_supported_protocols := map_option (map PStr) (hd_supported_protocols d),
       hc_max_frame_payload := opt_val PInt (hd_max_frame_payload d),
       hc_ext_support := opt_val PBool (hd_ext_support d),
       hc_max_concurrent_streams := opt_val PInt (hd_max_concurrent_streams d)\<rparr>"

definition decided_policy :: "handshake_decision \<Rightarrow> encoding_policy" where
  "decided_policy d =
     \<lparr>default_tier = (if hd_negotiated_encoding d = Some ''msgpack'' then MSGPACK else JSON),
      binary_vector_enabled =
        (BINARY_VECTOR_TOKEN \<in> set (case hd_enabled_encodings d of None \<Rightarrow> [] | Some es \<Rightarrow> es))\<rparr>"

text \<open>\<open>reject\<close>: the bytes written before the connection is closed.\<close>

definition reject :: "codec \<Rightarrow> error_frame \<Rightarrow> bytes res" where
  "reject c e = codec_encode (cd_lib c) ncp_api (cd_max_payload c) (Some JSON) (NError e)"

text \<open>\<open>accept\<close>: the session or the exception, and the bytes written.\<close>

definition accept :: "server_connection \<Rightarrow> handshake_caps_frame \<Rightarrow> session res \<times> bytes" where
  "accept conn server_caps =
     (case negotiate_handshake (con_profile conn) (con_client_hello conn) of
        Inl err \<Rightarrow> (Inl err, [])
      | Inr d \<Rightarrow>
          if hd_action d \<noteq> ACCEPT then
            (case reject (con_codec conn) (rejection d) of
               Inl err \<Rightarrow> (Inl err, [])
             | Inr w \<Rightarrow> (Inl NpsFrameError, w))
          else
            (let policy = decided_policy d; caps = answered_caps server_caps d; c = con_codec conn in
             case codec_encode (cd_lib c) ncp_api (cd_max_payload c) (Some (default_tier policy))
                    (NHandshakeCaps caps) of
               Inl err \<Rightarrow> (Inl err, [])
             | Inr w \<Rightarrow> (Inr \<lparr>ses_codec = c, ses_server_caps = caps, ses_policy = policy,
                             ses_closed = False\<rparr>, w)))"

section \<open>Lemmas\<close>

lemma readexactly_append: "n = length x \<Longrightarrow> readexactly n (x @ rest) = Inr (x, rest)"
  by (simp add: readexactly_def)

lemma frame_hdr_encrypted [simp]:
  "int n \<le> DEFAULT_MAX_PAYLOAD \<Longrightarrow> \<not> is_encrypted (frame_hdr api f t n)"
  by (simp add: is_encrypted_def frame_hdr_def build_flags_bits)

lemma read_header_bytes:
  assumes hb: "header_to_bytes h = Inr hb"
  shows "read_frame_header (hb @ rest) = Inr (h, hb, rest)"
proof -
  have len: "length hb = header_size h" using header_to_bytes_ok [OF hb] by simp
  have hd: "hb ! 1 = hdr_flags h" "2 \<le> length hb"
    using hb len
    by (auto simp: header_to_bytes_def res_simps header_size_def header_consts split: if_splits)
  have "readexactly 2 (hb @ rest) = Inr (take 2 hb, drop 2 hb @ rest)"
    using hd by (simp add: readexactly_def)
  moreover have "take 2 hb ! 1 = hdr_flags h" using hd by simp
  moreover have "readexactly (header_size h - 2) (drop 2 hb @ rest) = Inr (drop 2 hb, rest)"
    by (rule readexactly_append) (simp add: len)
  moreover have "parse_header hb = Inr h" using parse_to_bytes [OF hb, of "[]"] by simp
  ultimately show ?thesis
    by (simp add: read_frame_header_def header_size_def is_extended_def Let_def split: if_splits)
qed

lemma read_frame_bytes:
  assumes "header_to_bytes (frame_hdr api f t (length p)) = Inr hb"
  shows "read_frame ((hb @ p) @ rest) = Inr (frame_hdr api f t (length p), hb @ p, rest)"
  using read_header_bytes [OF assms, of "p @ rest"] readexactly_append [of "length p" p rest]
  by (simp add: read_frame_def)

text \<open>Reading what the codec wrote.\<close>

lemma read_encoded:
  assumes "codec_encode lib api maxp (Some t) f = Inr w"
  obtains h where "read_frame (w @ rest) = Inr (h, w, rest)" "hdr_frame_type h = fa_type api f"
    "hdr_encoding_tier h = Inr t"
  using assms
proof (rule codec_encode_wire)
  fix p hb
  assume "header_to_bytes (frame_hdr api f (case Some t of None \<Rightarrow> fa_tier api f | Some t \<Rightarrow> t) (length p)) = Inr hb"
    and w: "w = hb @ p"
  then have "read_frame (w @ rest) = Inr (frame_hdr api f t (length p), w, rest)"
    using read_frame_bytes [of api f t p hb rest] by simp
  then show thesis by (rule that) simp_all
qed

section \<open>Exchanging frames\<close>

fun send_frames :: "'f frame_api \<Rightarrow> session \<Rightarrow> (encoding_tier option \<times> 'f) list \<Rightarrow> bytes res" where
  "send_frames api s [] = Inr []"
| "send_frames api s ((tier, f) # fs) =
     res_bind (send_frame api s tier f) (\<lambda>w. res_bind (send_frames api s fs) (\<lambda>ws. Inr (w @ ws)))"

fun receive_frames :: "'f frame_api \<Rightarrow> session \<Rightarrow> nat \<Rightarrow> bytes \<Rightarrow> ('f list \<times> bytes) res" where
  "receive_frames api s 0 stream = Inr ([], stream)"
| "receive_frames api s (Suc n) stream =
     res_bind (receive_frame api s stream) (\<lambda>(f, rest).
       res_bind (receive_frames api s n rest) (\<lambda>(fs, rest'). Inr (f # fs, rest')))"

text \<open>Two ends of one connection: they share the policy and the libraries.\<close>

definition peers :: "session \<Rightarrow> session \<Rightarrow> bool" where
  "peers a b \<longleftrightarrow> ses_policy a = ses_policy b \<and> cd_lib (ses_codec a) = cd_lib (ses_codec b)"

context plain_frames
begin

lemma receive_sent:
  assumes "peers a b" "wf f" "lib_reads_back (cd_lib (ses_codec a)) (fa_to_dict api f)"
    and "registry_resolve (cd_registry (ses_codec b)) (fa_type api f) = Inr (class_of f)"
    and "send_frame api a tier f = Inr w"
  shows "receive_frame api b (w @ rest) = Inr (f, rest)"
proof -
  let ?t = "case tier of None \<Rightarrow> default_tier (ses_policy a) | Some t \<Rightarrow> t"
  have enc: "codec_encode (cd_lib (ses_codec a)) api (cd_max_payload (ses_codec a)) (Some ?t) f = Inr w"
    and ok: "policy_allows (ses_policy a) ?t (fa_type api f)"
    using assms(5) tier_code_bits [of ?t]
    by (auto simp: send_frame_def ensure_allows_def hdr_encoding_tier_def res_simps Let_def split: if_splits)
  obtain h where h: "read_frame (w @ rest) = Inr (h, w, rest)" "hdr_frame_type h = fa_type api f"
    "hdr_encoding_tier h = Inr ?t"
    using read_encoded [OF enc] .
  have "codec_decode (cd_lib (ses_codec b)) api (cd_registry (ses_codec b)) w = Inr f"
    using wire_roundtrip [OF assms(2-4), of _ _ _ "[]"] enc assms(1) by (auto simp: peers_def)
  then show ?thesis
    using h ok assms(1) by (simp add: receive_frame_def ensure_allows_def peers_def)
qed

lemma receive_frames_sent:
  assumes "peers a b" "\<forall>(tier, f) \<in> set fs. wf f \<and> lib_reads_back (cd_lib (ses_codec a)) (fa_to_dict api f)
      \<and> registry_resolve (cd_registry (ses_codec b)) (fa_type api f) = Inr (class_of f)"
    and "send_frames api a fs = Inr w"
  shows "receive_frames api b (length fs) (w @ rest) = Inr (map snd fs, rest)"
  using assms(2,3)
proof (induction fs arbitrary: w)
  case (Cons tf fs)
  obtain tier f where tf: "tf = (tier, f)" by (cases tf)
  obtain w1 ws where w: "send_frame api a tier f = Inr w1" "send_frames api a fs = Inr ws" "w = w1 @ ws"
    using Cons.prems(2) by (auto simp: tf res_simps)
  then show ?case
    using Cons.IH [OF _ w(2)] Cons.prems(1) receive_sent [OF assms(1) _ _ _ w(1), of "ws @ rest"]
    by (simp add: tf)
qed simp

end

section \<open>The handshake\<close>

lemma tier_preserved:
  "from_enabled_encodings (default_tier (decided_policy d)) (hc_enabled_encodings (answered_caps sc d))
     = decided_policy d"
  by (cases "hd_enabled_encodings d")
    (auto simp: from_enabled_encodings_def decided_policy_def answered_caps_def)

lemma accept_Inr:
  assumes "accept conn sc = (Inr s, w)"
  obtains d where "negotiate_handshake (con_profile conn) (con_client_hello conn) = Inr d"
    "hd_action d = ACCEPT" "ses_policy s = decided_policy d" "ses_server_caps s = answered_caps sc d"
    "codec_encode (cd_lib (con_codec conn)) ncp_api (cd_max_payload (con_codec conn))
       (Some (default_tier (decided_policy d))) (NHandshakeCaps (answered_caps sc d)) = Inr w"
  using assms by (auto simp: accept_def Let_def split: sum.splits if_splits)

lemma hello_wire:
  assumes j: "json_dumps lib (hello_to_dict hello) = Inr p" "json_loads lib p = Inr (hello_to_dict hello)"
    and len: "int (length p) \<le> maxp" "int (length p) \<le> DEFAULT_MAX_PAYLOAD"
  obtains hb where "codec_encode lib ncp_api maxp (Some JSON) (NHello hello) = Inr (hb @ p)"
    "header_to_bytes (frame_hdr ncp_api (NHello hello) JSON (length p)) = Inr hb"
    "codec_decode lib ncp_api hello_registry (hb @ p) = Inr (NHello hello)"
proof -
  obtain hb where hb: "header_to_bytes (frame_hdr ncp_api (NHello hello) JSON (length p)) = Inr hb"
    using header_ok_to_bytes [OF frame_hdr_ok [of "length p"]] len(2) by (fastforce simp: header_consts)
  have enc: "codec_encode lib ncp_api maxp (Some JSON) (NHello hello) = Inr (hb @ p)"
    using j len hb by (simp add: codec_encode_eq tier_encode_def tier1_encode_def)
  have "codec_decode lib ncp_api hello_registry (hb @ p) = Inr (NHello hello)"
    using codec_decode_wire [OF hb, of lib hello_registry "[]"] j
    by (simp add: tier_decode_def tier1_decode_def hello_registry_def registry_resolve_def ncp_from_dict_def)
  with enc hb show thesis by (rule that)
qed

section \<open>Properties\<close>

text \<open>
  C31: A session delivers frames in order: when one end sends any sequence of NCP frames, each at
  an allowed tier, and the other end has the same policy and libraries and knows the classes, then
  receiving that many frames from the concatenated bytes returns exactly those frames in order
  and leaves the following bytes untouched.
\<close>

theorem session_delivers_in_order:
  assumes "peers a b"
    and "\<forall>(tier, f) \<in> set fs. lib_reads_back (cd_lib (ses_codec a)) (ncp_to_dict f)
      \<and> registry_resolve (cd_registry (ses_codec b)) (ncp_type f) = Inr (ncp_class f)"
    and "send_frames ncp_api a fs = Inr w"
  shows "receive_frames ncp_api b (length fs) (w @ rest) = Inr (map snd fs, rest)"
  using ncp.receive_frames_sent [OF assms(1) _ assms(3)] assms(2) by simp

definition ex_codec :: "pyval \<Rightarrow> codec" where
  "ex_codec v = \<lparr>cd_lib = one_value_lib v, cd_registry = create_default, cd_max_payload = 65535\<rparr>"

definition ex_caps :: handshake_caps_frame where
  "ex_caps = \<lparr>hc_node_id = PStr ''urn:nps:node:example.com:a'', hc_caps = [PStr ''nwp.query''],
     hc_negotiated_encoding = PNone, hc_enabled_encodings = None, hc_session_version = PNone,
     hc_supported_protocols = None, hc_max_frame_payload = PNone, hc_ext_support = PNone,
     hc_max_concurrent_streams = PNone, hc_anchor_ref = PNone, hc_payload = PNone\<rparr>"

definition ex_session :: session where
  "ex_session = \<lparr>ses_codec = ex_codec (ncp_to_dict ex_error_frame), ses_server_caps = ex_caps,
     ses_policy = \<lparr>default_tier = JSON, binary_vector_enabled = False\<rparr>, ses_closed = False\<rparr>"

theorem session_delivers_in_order_witness:
  "\<exists>w. send_frames ncp_api ex_session [(None, ex_error_frame), (Some JSON, ex_error_frame)] = Inr w
     \<and> receive_frames ncp_api ex_session 2 (w @ [0]) = Inr ([ex_error_frame, ex_error_frame], [0])"
proof -
  obtain w where w: "codec_encode (one_value_lib (ncp_to_dict ex_error_frame)) ncp_api 65535 (Some JSON) ex_error_frame = Inr w"
    using one_value_encode by blast
  let ?fs = "[(None, ex_error_frame), (Some JSON, ex_error_frame)]"
  have "send_frames ncp_api ex_session ?fs = Inr (w @ w)"
    using w by (simp add: send_frame_def ensure_allows_def policy_allows_def hdr_encoding_tier_def
        ex_session_def ex_codec_def encoding_tier_of_def)
  moreover have "registry_resolve create_default (ncp_type ex_error_frame) = Inr (ncp_class ex_error_frame)"
    by (simp add: ex_error_frame_def registry_resolve_def create_default_def)
  ultimately show ?thesis
    using session_delivers_in_order [of ex_session ex_session ?fs "w @ w" "[0]"] one_value_reads_back
    by (simp add: peers_def ex_session_def ex_codec_def numeral_2_eq_2)
qed

text \<open>
  The opening of a handshake reaches the server: if the hello frame's JSON fits the codec,
  a normal frame and the server's hello limit and the JSON library reads it back, then the
  client's opening bytes make the server's handshake succeed with exactly that hello, whatever
  follows in the stream.
\<close>

theorem handshake_hello_delivered:
  assumes "json_dumps (cd_lib c) (hello_to_dict hello) = Inr p"
    and "json_loads (cd_lib c) p = Inr (hello_to_dict hello)" "cd_lib s = cd_lib c"
    and "int (length p) \<le> cd_max_payload c" "int (length p) \<le> DEFAULT_MAX_PAYLOAD"
    and "int (length p) \<le> opt_max_hello_payload opts"
  shows "\<exists>w. client_opening c hello = Inr w
    \<and> server_handshake s opts (w @ rest)
      = Inr (\<lparr>con_codec = s, con_client_hello = hello, con_profile = opt_handshake_profile opts\<rparr>, rest)"
  using assms(1,2,4,5)
proof (rule hello_wire)
  fix hb
  assume enc: "codec_encode (cd_lib c) ncp_api (cd_max_payload c) (Some JSON) (NHello hello) = Inr (hb @ p)"
    and hb: "header_to_bytes (frame_hdr ncp_api (NHello hello) JSON (length p)) = Inr hb"
    and dec: "codec_decode (cd_lib c) ncp_api hello_registry (hb @ p) = Inr (NHello hello)"
  have "readexactly PREAMBLE_LENGTH (PREAMBLE_BYTES @ hb @ p @ rest) = Inr (PREAMBLE_BYTES, hb @ p @ rest)"
    by (rule readexactly_append) (simp add: PREAMBLE_LENGTH_def PREAMBLE_BYTES_def)
  moreover have "preamble_validate PREAMBLE_BYTES = Inr ()"
    by (simp add: preamble_validate_def try_validate_def PREAMBLE_LENGTH_def PREAMBLE_BYTES_def)
  moreover have "evaluate_hello_header (frame_hdr ncp_api (NHello hello) JSON (length p)) 0 0 (opt_max_hello_payload opts)
      = Inr (bare_decision CONTINUE)"
    using assms(5,6) by (simp add: evaluate_hello_header_def)
  ultimately have "server_handshake s opts ((PREAMBLE_BYTES @ hb @ p) @ rest)
      = Inr (\<lparr>con_codec = s, con_client_hello = hello, con_profile = opt_handshake_profile opts\<rparr>, rest)"
    using read_header_bytes [OF hb, of "p @ rest"] dec assms(3) readexactly_append [of "length p" p rest]
    by (simp add: server_handshake_def bare_decision_def)
  then show ?thesis using enc by (simp add: client_opening_def)
qed

definition ex_options :: server_options where
  "ex_options = \<lparr>opt_authenticate = None, opt_require_authenticated_stream = False,
     opt_max_hello_payload = DEFAULT_MAX_PAYLOAD, opt_handshake_profile = default_profile\<rparr>"

theorem handshake_hello_delivered_witness:
  "\<exists>w. client_opening (ex_codec (hello_to_dict ex_hello)) ex_hello = Inr w
    \<and> server_handshake (ex_codec (hello_to_dict ex_hello)) ex_options (w @ [7])
      = Inr (\<lparr>con_codec = ex_codec (hello_to_dict ex_hello), con_client_hello = ex_hello,
              con_profile = default_profile\<rparr>, [7])"
  using handshake_hello_delivered [of "ex_codec (hello_to_dict ex_hello)" ex_hello "[0x7B, 0x7D]"
      "ex_codec (hello_to_dict ex_hello)" ex_options "[7]"]
  by (simp add: ex_codec_def one_value_lib_def ex_options_def header_consts)

text \<open>
  C30: The two ends agree after a handshake. When the server accepts and the JSON and MessagePack
  libraries read back the answered capabilities, the client that reads the answer gets a session
  with the same encoding policy and the same capabilities as the server's session.
\<close>

theorem handshake_agreement:
  assumes "accept conn sc = (Inr ss, w)" "cd_lib c = cd_lib (con_codec conn)"
    and "lib_reads_back (cd_lib c) (handshake_caps_to_dict (ses_server_caps ss))"
  shows "\<exists>cs. client_finish c (w @ rest) = Inr (cs, rest) \<and> ses_policy cs = ses_policy ss
    \<and> ses_server_caps cs = ses_server_caps ss \<and> ses_codec cs = c"
  using assms(1)
proof (rule accept_Inr)
  fix d
  assume d: "ses_policy ss = decided_policy d" "ses_server_caps ss = answered_caps sc d"
    and enc: "codec_encode (cd_lib (con_codec conn)) ncp_api (cd_max_payload (con_codec conn))
       (Some (default_tier (decided_policy d))) (NHandshakeCaps (answered_caps sc d)) = Inr w"
  obtain h where h: "read_frame (w @ rest) = Inr (h, w, rest)" "hdr_frame_type h = CAPS"
    "hdr_encoding_tier h = Inr (default_tier (decided_policy d))"
    using read_encoded [OF enc, of rest] by auto
  have "codec_decode (cd_lib c) ncp_api handshake_registry (w @ []) = Inr (NHandshakeCaps (answered_caps sc d))"
    using assms(2,3) d enc
    by (intro ncp.wire_roundtrip) (auto simp: handshake_registry_def registry_resolve_def)
  then show ?thesis
    using h d by (simp add: client_finish_def tier_preserved)
qed

definition ex_conn :: "pyval \<Rightarrow> hello_frame \<Rightarrow> server_connection" where
  "ex_conn v hello = \<lparr>con_codec = ex_codec v, con_client_hello = hello, con_profile = default_profile\<rparr>"

theorem handshake_agreement_witness:
  "\<exists>ss w cs v. accept (ex_conn v ex_hello) ex_caps = (Inr ss, w)
     \<and> client_finish (ex_codec v) (w @ [9]) = Inr (cs, [9]) \<and> ses_policy cs = ses_policy ss
     \<and> default_tier (ses_policy cs) = JSON"
proof -
  let ?d = "accepted default_profile ex_hello (0, 9) ''json'' [''nwp'', ''ncp'']"
  let ?caps = "answered_caps ex_caps ?d"
  let ?v = "handshake_caps_to_dict ?caps"
  obtain w where w: "codec_encode (one_value_lib ?v) ncp_api 65535 (Some JSON) (NHandshakeCaps ?caps) = Inr w"
    using one_value_encode [of "NHandshakeCaps ?caps"] by auto
  have pol: "default_tier (decided_policy ?d) = JSON" by (simp add: decided_policy_def accepted_def)
  have acc: "accept (ex_conn ?v ex_hello) ex_caps
      = (Inr \<lparr>ses_codec = ex_codec ?v, ses_server_caps = ?caps, ses_policy = decided_policy ?d, ses_closed = False\<rparr>, w)"
    using w pol by (simp add: accept_def ex_conn_def ex_codec_def ex_hello_accept Let_def)
  from handshake_agreement [OF acc, of "ex_codec ?v" "[9]"] acc pol show ?thesis
    by (fastforce simp: ex_conn_def ex_codec_def one_value_reads_back)
qed

text \<open>
  A rejected client learns why: when negotiation does not accept and the rejecting frame can
  be encoded and read back, \<open>accept\<close> raises on the server and the client raises
  \<open>NcpHandshakeError\<close> with the negotiation's error code.
\<close>

theorem handshake_rejection:
  assumes "negotiate_handshake (con_profile conn) (con_client_hello conn) = Inr d" "hd_action d \<noteq> ACCEPT"
    and "hd_error d = Some code" "reject (con_codec conn) (rejection d) = Inr w"
    and "cd_lib c = cd_lib (con_codec conn)" "lib_reads_back (cd_lib c) (error_to_dict (rejection d))"
  shows "accept conn sc = (Inl NpsFrameError, w) \<and> client_finish c (w @ rest) = Inl (NcpHandshakeError code)"
proof -
  have enc: "codec_encode (cd_lib c) ncp_api (cd_max_payload (con_codec conn)) (Some JSON) (NError (rejection d)) = Inr w"
    using assms(4,5) by (simp add: reject_def)
  obtain h where h: "read_frame (w @ rest) = Inr (h, w, rest)" "hdr_frame_type h = ERROR"
    using read_encoded [OF enc, of rest] by auto
  have "codec_decode (cd_lib c) ncp_api handshake_registry (w @ []) = Inr (NError (rejection d))"
    using assms(6) enc by (intro ncp.wire_roundtrip) (auto simp: handshake_registry_def registry_resolve_def)
  then have "client_finish c (w @ rest) = Inl (NcpHandshakeError code)"
    using h assms(3) by (simp add: client_finish_def error_code_of_def rejection_def)
  then show ?thesis using assms by (simp add: accept_def)
qed

theorem handshake_rejection_witness:
  "\<exists>v w. accept (ex_conn v (ex_hello\<lparr>hel_supported_encodings := []\<rparr>)) ex_caps = (Inl NpsFrameError, w)
     \<and> client_finish (ex_codec v) (w @ [9]) = Inl (NcpHandshakeError ''NCP-ENCODING-UNSUPPORTED'')"
proof -
  let ?h = "ex_hello\<lparr>hel_supported_encodings := []\<rparr>"
  let ?v = "error_to_dict (rejection encoding_error)"
  obtain w where w: "codec_encode (one_value_lib ?v) ncp_api 65535 (Some JSON) (NError (rejection encoding_error)) = Inr w"
    using one_value_encode [of "NError (rejection encoding_error)"] by auto
  have "handshake_versions default_profile ?h = handshake_versions default_profile ex_hello"
    by (simp add: handshake_versions_def)
  then have "negotiate_handshake default_profile ?h = Inr encoding_error"
    using ex_hello_accept
    by (auto simp: negotiate_handshake_def negotiate_features_def stable_encoding_def
        version_error_def accepted_def bare_decision_def split: sum.splits if_splits)
  then have "accept (ex_conn ?v ?h) ex_caps = (Inl NpsFrameError, w)
      \<and> client_finish (ex_codec ?v) (w @ [9]) = Inl (NcpHandshakeError ''NCP-ENCODING-UNSUPPORTED'')"
    using w one_value_reads_back
    by (intro handshake_rejection [where d = encoding_error])
      (simp_all add: ex_conn_def ex_codec_def reject_def encoding_error_def bare_decision_def)
  then show ?thesis by blast
qed

end
