(* ===== verification/NcpPolicies.thy ===== *)
theory NcpPolicies
  imports NcpHandshake
begin

text \<open>
  Small decision functions: the status table (\<open>nps_sdk/core/status_codes.py\<close>), the patch-format
  check (\<open>core/patch_format.py\<close>), the connection-hardening policy (\<open>ncp/runtime_hardening.py\<close>) and
  the required-features header (\<open>alpha20/feature_wire_parser.py\<close>).
\<close>

section \<open>Status codes and patch formats\<close>

definition NPS_STATUS_TO_HTTP :: "int dict" where
  "NPS_STATUS_TO_HTTP =
     [(''NPS-OK'', 200), (''NPS-OK-ACCEPTED'', 202), (''NPS-OK-NO-CONTENT'', 204),
      (''NPS-CLIENT-BAD-FRAME'', 400), (''NPS-CLIENT-BAD-PARAM'', 400), (''NPS-CLIENT-NOT-FOUND'', 404),
      (''NPS-CLIENT-CONFLICT'', 409), (''NPS-CLIENT-GONE'', 410), (''NPS-CLIENT-UNPROCESSABLE'', 422),
      (''NPS-AUTH-UNAUTHENTICATED'', 401), (''NPS-AUTH-FORBIDDEN'', 403), (''NPS-LIMIT-RATE'', 429),
      (''NPS-LIMIT-BUDGET'', 429), (''NPS-LIMIT-PAYLOAD'', 413), (''NPS-LIMIT-RESOURCE'', 429),
      (''NPS-SERVER-INTERNAL'', 500), (''NPS-SERVER-UNSUPPORTED'', 501), (''NPS-SERVER-UNAVAILABLE'', 503),
      (''NPS-SERVER-TIMEOUT'', 408), (''NPS-SERVER-ENCODING-UNSUPPORTED'', 415),
      (''NPS-DOWNSTREAM-UNAVAILABLE'', 502), (''NPS-STREAM-SEQ-GAP'', 422), (''NPS-STREAM-NOT-FOUND'', 404),
      (''NPS-STREAM-LIMIT'', 429), (''NPS-PROTO-VERSION-INCOMPATIBLE'', 426),
      (''NPS-PROTO-PREAMBLE-INVALID'', 400)]"

definition to_http_status :: "string \<Rightarrow> int" where
  "to_http_status nps_code = (case dict_get NPS_STATUS_TO_HTTP nps_code of None \<Rightarrow> 500 | Some s \<Rightarrow> s)"

definition patch_format_is_valid :: "string \<Rightarrow> bool" where
  "patch_format_is_valid pf \<longleftrightarrow> pf = ''json_patch'' \<or> pf = ''binary_bitset''"

definition patch_format_validate :: "string \<Rightarrow> encoding_tier \<Rightarrow> unit res" where
  "patch_format_validate pf tier =
     (if \<not> patch_format_is_valid pf then Inl ValueError
      else if pf = ''binary_bitset'' \<and> tier \<noteq> MSGPACK then Inl ValueError
      else Inr ())"

section \<open>Connection hardening\<close>

definition int_item :: "pyval dict \<Rightarrow> string \<Rightarrow> int res" where
  "int_item d k = res_bind (dict_item d k) py_int"

fun positive_offers :: "pyval dict \<Rightarrow> string list \<Rightarrow> int list res" where
  "positive_offers d [] = Inr []"
| "positive_offers d (k # ks) =
     res_bind (int_item d k) (\<lambda>v. res_bind (positive_offers d ks) (\<lambda>vs.
       Inr (if v > 0 then v # vs else vs)))"

fun inbound_clock :: "int \<Rightarrow> pyval list \<Rightarrow> int res" where
  "inbound_clock clock [] = Inr clock"
| "inbound_clock clock (event # events) =
     res_bind (py_item event ''event'') (\<lambda>name.
       if py_eq name (PStr ''valid_inbound_frame'')
       then res_bind (py_item event ''at_ms'') (\<lambda>v. res_bind (py_int v) (\<lambda>t. inbound_clock t events))
       else inbound_clock clock events)"

definition evaluate_runtime_hardening :: "pyval dict \<Rightarrow> pyval dict res" where
  "evaluate_runtime_hardening d =
     (if dict_get d ''client_ping_ms'' \<noteq> None then
        res_bind (positive_offers d [''client_ping_ms'', ''server_ping_ms'']) (\<lambda>offers.
          Inr [(''keepalive_enabled'', PBool (offers \<noteq> [])),
               (''effective_interval_ms'', if offers = [] then PNone else PInt (max 1000 (Min (set offers))))])
      else if dict_get d ''events'' \<noteq> None then
        res_bind (int_item d ''last_valid_inbound_ms'') (\<lambda>clock0.
        res_bind (dict_item d ''events'') (\<lambda>ev. res_bind (py_iter ev) (\<lambda>events.
        res_bind (inbound_clock clock0 events) (\<lambda>clock.
          Inr [(''last_valid_inbound_ms'', PInt clock)]))))
      else if dict_get d ''queued_probe_count'' \<noteq> None then
        res_bind (int_item d ''queued_probe_count'') (\<lambda>queued.
        res_bind (int_item d ''evaluate_at_ms'') (\<lambda>now.
        res_bind (int_item d ''last_application_send_ms'') (\<lambda>sent.
        res_bind (int_item d ''effective_interval_ms'') (\<lambda>interval.
          if now - sent \<ge> interval \<and> queued = 0
          then Inr [(''enqueue'', PDict [(''frame'', PStr ''0x07''), (''payload_length'', PInt 0)]),
                    (''queued_probe_count'', PInt 1)]
          else Inr [(''queued_probe_count'', PInt queued)]))))
      else if dict_get d ''active_streams'' \<noteq> None then
        res_bind (int_item d ''last_valid_inbound_ms'') (\<lambda>last_valid.
        res_bind (int_item d ''effective_interval_ms'') (\<lambda>interval.
        res_bind (int_item d ''evaluate_at_ms'') (\<lambda>now.
          if now \<ge> last_valid + 3 * interval
          then res_bind (int_item d ''active_streams'') (\<lambda>active.
                 Inr [(''state'', PStr ''closing''), (''error'', PStr ''NCP-KEEPALIVE-TIMEOUT''),
                      (''error_count'', PInt 1), (''cancelled_streams'', PInt active),
                      (''close_by_ms'', PInt (now + 500)),
                      (''allow_later_application_frames'', PBool False)])
          else Inr [(''state'', PStr ''open'')])))
      else if dict_get d ''payload_length'' \<noteq> None then
        res_bind (int_item d ''payload_length'') (\<lambda>len.
          if len \<noteq> 0
          then res_bind (int_item d ''last_valid_inbound_ms'') (\<lambda>t.
                 Inr [(''accepted'', PBool False), (''error'', PStr ''NCP-FRAME-PAYLOAD-TOO-LARGE''),
                      (''last_valid_inbound_ms'', PInt t)])
          else res_bind (int_item d ''received_at_ms'') (\<lambda>t.
                 Inr [(''accepted'', PBool True), (''last_valid_inbound_ms'', PInt t)]))
      else if dict_get d ''early_data'' \<noteq> None then
        (if dict_get d ''carrier'' = Some (PStr ''quic'')
            \<and> \<not> py_bool (case dict_get d ''handshake_confirmed'' of None \<Rightarrow> PNone | Some v \<Rightarrow> v)
         then Inr [(''accepted'', PBool False), (''error'', PStr ''NCP-EARLY-DATA-REJECTED''),
                   (''retry_after_confirmation'', PBool True)]
         else Inr [(''accepted'', PBool True)])
      else if dict_get d ''bound_nid'' \<noteq> None then
        res_bind (if \<not> py_bool (case dict_get d ''handshake_confirmed'' of None \<Rightarrow> PNone | Some v \<Rightarrow> v)
                  then Inr True
                  else res_bind (dict_item d ''bound_nid'') (\<lambda>b. res_bind (dict_item d ''migrated_nid'') (\<lambda>m.
                         Inr (\<not> py_eq b m)))) (\<lambda>refused.
          if refused
          then Inr [(''migration_allowed'', PBool False), (''session_preserved'', PBool False),
                    (''error'', PStr ''NCP-NID-MISMATCH'')]
          else res_bind (int_item d ''carrier_credit_bytes'') (\<lambda>credit.
            if credit > 0
            then res_bind (int_item d ''ncp_window_cgn'') (\<lambda>window.
                   if window > 0
                   then Inr [(''migration_allowed'', PBool True), (''session_preserved'', PBool True),
                             (''send_allowed'', PBool True)]
                   else Inr [(''migration_allowed'', PBool True), (''session_preserved'', PBool True),
                             (''send_allowed'', PBool False), (''reason'', PStr ''ncp_window_exhausted'')])
            else res_bind (int_item d ''ncp_window_cgn'') (\<lambda>window.
                   Inr [(''migration_allowed'', PBool True), (''session_preserved'', PBool True),
                        (''send_allowed'', PBool False),
                        (''reason'', PStr (if window \<le> 0 then ''ncp_window_exhausted''
                                          else ''carrier_credit_exhausted''))])))
      else Inl ValueError)"

section \<open>The required-features header\<close>

text \<open>
  The regular expressions are matched in full. An identifier is dot-separated: splitting at the
  dots gives the segments the expression describes.
\<close>

definition is_lower :: "char \<Rightarrow> bool" where
  "is_lower c \<longleftrightarrow> (let n = of_char c :: nat in 97 \<le> n \<and> n \<le> 122)"

definition first_segment :: "string \<Rightarrow> bool" where
  "first_segment s = (case s of [] \<Rightarrow> False
     | c # cs \<Rightarrow> is_lower c \<and> (\<forall>x \<in> set cs. is_lower x \<or> py_isdecimal x))"

definition later_segment :: "string \<Rightarrow> bool" where
  "later_segment s = (case s of [] \<Rightarrow> False
     | c # cs \<Rightarrow> is_lower c
         \<and> (\<forall>x \<in> set cs. is_lower x \<or> py_isdecimal x \<or> x = CHR ''_'' \<or> x = CHR ''-''))"

definition id_match :: "string \<Rightarrow> bool" where
  "id_match s = (case split_on (CHR ''.'') s of
     a # b # cs \<Rightarrow> first_segment a \<and> list_all later_segment (b # cs) | _ \<Rightarrow> False)"

definition feature_id :: "string \<Rightarrow> string res" where
  "feature_id value = (if length value \<le> 96 \<and> id_match value then Inr value else Inl ValueError)"

definition feature_integer :: "string \<Rightarrow> nat res" where
  "feature_integer raw =
     (if raw \<noteq> [] \<and> (\<forall>c \<in> set raw. py_isdecimal c) \<and> hd raw \<noteq> CHR ''0'' \<and> length raw \<le> 5
         \<and> dec_value raw \<le> 65535
      then Inr (dec_value raw) else Inl ValueError)"

record feature_selection =
  fs_id :: string
  fs_revision :: nat

fun parse_pairs :: "string \<Rightarrow> string list \<Rightarrow> feature_selection list res" where
  "parse_pairs last_name [] = Inr []"
| "parse_pairs last_name (pair # pairs) =
     (case split_on (CHR ''='') pair of
        [n, r] \<Rightarrow>
          res_bind (feature_id n) (\<lambda>name.
            if name > last_name
            then res_bind (feature_integer r) (\<lambda>rev.
                   res_bind (parse_pairs name pairs) (\<lambda>rest.
                     Inr (\<lparr>fs_id = name, fs_revision = rev\<rparr> # rest)))
            else Inl ValueError)
      | _ \<Rightarrow> Inl ValueError)"

definition is_ascii :: "string \<Rightarrow> bool" where
  "is_ascii s \<longleftrightarrow> (\<forall>c \<in> set s. (of_char c :: nat) < 128)"

text \<open>The error is a \<open>FeatureFormatError\<close>, which is a \<open>ValueError\<close>.\<close>

definition parse_required_feature_header :: "string list \<Rightarrow> feature_selection list res" where
  "parse_required_feature_header instances =
     (case instances of
        [] \<Rightarrow> Inr []
      | [raw] \<Rightarrow>
          if length raw \<le> 4096 \<and> is_ascii raw
          then let pairs = split_on (CHR '','') raw in
               if 1 \<le> length pairs \<and> length pairs \<le> 32 then parse_pairs [] pairs else Inl ValueError
          else Inl ValueError
      | _ \<Rightarrow> Inl ValueError)"

section \<open>Lemmas\<close>

subsection \<open>Decimal tokens\<close>

lemma digit_char_val: "py_isdecimal c \<Longrightarrow> digit_char (digit_val c) = c"
  by (simp add: py_isdecimal_def digit_char_def digit_val_def Let_def)

lemma digit_val_bound: "py_isdecimal c \<Longrightarrow> digit_val c < 10"
  by (simp add: py_isdecimal_def digit_val_def Let_def) linarith

lemma digit_val_0: "py_isdecimal c \<Longrightarrow> digit_val c = 0 \<longleftrightarrow> c = CHR ''0''"
proof
  assume "py_isdecimal c" "digit_val c = 0"
  then have "c = digit_char 0" by (metis digit_char_val)
  moreover have "digit_char 0 = CHR ''0''" by code_simp
  ultimately show "c = CHR ''0''" by simp
qed (simp add: digit_val_def)

lemma dec_value_pos:
  assumes "s \<noteq> []" "\<forall>c \<in> set s. py_isdecimal c" "hd s \<noteq> CHR ''0''"
  shows "0 < dec_value s"
  using assms
proof (induction s rule: rev_induct)
  case (snoc c s)
  then show ?case
    using digit_val_0 [of c] by (cases "s = []") (auto simp: dec_value_def)
qed simp

lemma nat_str_dec_value:
  assumes "s \<noteq> []" "\<forall>c \<in> set s. py_isdecimal c" "hd s \<noteq> CHR ''0''"
  shows "nat_str (dec_value s) = s"
  using assms
proof (induction s rule: rev_induct)
  case (snoc c s)
  have c: "digit_char (digit_val c) = c" "digit_val c < 10"
    using snoc.prems by (simp_all add: digit_char_val digit_val_bound)
  show ?case
  proof (cases "s = []")
    case True
    then show ?thesis using c by (simp add: dec_value_def nat_str.simps)
  next
    case False
    with snoc.prems have p: "\<forall>c \<in> set s. py_isdecimal c" "hd s \<noteq> CHR ''0''" by auto
    have "0 < dec_value s" using dec_value_pos [OF False p] .
    then have "nat_str (10 * dec_value s + digit_val c) = nat_str (dec_value s) @ [c]"
      using c by (subst nat_str.simps) simp
    then show ?thesis using snoc.IH [OF False p] by simp
  qed
qed simp

lemma nat_str_hd: "0 < n \<Longrightarrow> hd (nat_str n) \<noteq> CHR ''0''"
proof (induction n rule: nat_str.induct)
  case (1 n)
  show ?case
  proof (cases "n < 10")
    case True
    then have "digit_val (digit_char n) \<noteq> 0" using "1.prems" by simp
    then show ?thesis using True by (auto simp: nat_str.simps digit_val_def)
  next
    case False
    then have "nat_str n = nat_str (n div 10) @ [digit_char (n mod 10)]" by (simp add: nat_str.simps)
    then show ?thesis using "1.IH" [OF False] False by simp
  qed
qed

lemma nat_str_length: "n < 10 ^ k \<Longrightarrow> 0 < k \<Longrightarrow> length (nat_str n) \<le> k"
proof (induction k arbitrary: n)
  case (Suc k)
  show ?case
  proof (cases "n < 10")
    case False
    then have "0 < k" using Suc.prems by (cases k) auto
    moreover have "n div 10 < 10 ^ k" using Suc.prems by (simp add: div_less_iff_less_mult mult.commute)
    ultimately show ?thesis using Suc.IH False by (simp add: nat_str.simps [of n])
  qed (simp add: nat_str.simps)
qed simp

lemma feature_integer_iff:
  "feature_integer raw = Inr n \<longleftrightarrow> 1 \<le> n \<and> n \<le> 65535 \<and> raw = nat_str n"
proof
  assume "feature_integer raw = Inr n"
  then have "raw \<noteq> []" "\<forall>c \<in> set raw. py_isdecimal c" "hd raw \<noteq> CHR ''0''" "n = dec_value raw" "n \<le> 65535"
    by (simp_all add: feature_integer_def split: if_splits)
  then show "1 \<le> n \<and> n \<le> 65535 \<and> raw = nat_str n"
    using dec_value_pos nat_str_dec_value by fastforce
next
  assume n: "1 \<le> n \<and> n \<le> 65535 \<and> raw = nat_str n"
  then have "length (nat_str n) \<le> 5" by (intro nat_str_length) simp_all
  then show "feature_integer raw = Inr n"
    using n nat_str_hd [of n] nat_str_decimal by (auto simp: feature_integer_def)
qed

subsection \<open>Identifiers and pairs\<close>

lemma split_two: "split_on c s = [a, b] \<longleftrightarrow> s = a @ c # b \<and> c \<notin> set a \<and> c \<notin> set b"
proof
  assume h: "split_on c s = [a, b]"
  then have "s = a @ c # b" using join_split_on [of c s] by simp
  moreover have "c \<notin> set a" "c \<notin> set b" using split_on_pieces [of _ c s] h by simp_all
  ultimately show "s = a @ c # b \<and> c \<notin> set a \<and> c \<notin> set b" by simp
qed (simp add: split_on_append split_on_no_sep)

definition id_char :: "char \<Rightarrow> bool" where
  "id_char c \<longleftrightarrow> is_lower c \<or> py_isdecimal c \<or> c = CHR ''_'' \<or> c = CHR ''-''"

lemma segment_chars: "first_segment s \<or> later_segment s \<Longrightarrow> c \<in> set s \<Longrightarrow> id_char c"
  by (cases s) (auto simp: first_segment_def later_segment_def id_char_def)

lemma join_chars: "c \<in> set (join_with sep xs) \<Longrightarrow> c \<in> set sep \<or> (\<exists>x \<in> set xs. c \<in> set x)"
  by (induction sep xs rule: join_with.induct) auto

lemma id_match_chars:
  assumes "id_match s" "c \<in> set s"
  shows "id_char c \<or> c = CHR ''.''"
proof -
  have "\<forall>x \<in> set (split_on (CHR ''.'') s). first_segment x \<or> later_segment x"
    using assms(1) by (auto simp: id_match_def list_all_iff split: list.splits)
  moreover have "c \<in> set (join_with ''.'' (split_on (CHR ''.'') s))"
    using assms(2) by (simp add: join_split_on)
  then have "c \<in> set ''.'' \<or> (\<exists>x \<in> set (split_on (CHR ''.'') s). c \<in> set x)" by (rule join_chars)
  ultimately show ?thesis using segment_chars by auto
qed

lemma id_char_plain: "id_char c \<Longrightarrow> c \<noteq> CHR ''='' \<and> c \<noteq> CHR '','' \<and> (of_char c :: nat) < 128"
  by (auto simp: id_char_def is_lower_def py_isdecimal_def Let_def)

lemma id_match_plain:
  "id_match s \<Longrightarrow> CHR ''='' \<notin> set s \<and> CHR '','' \<notin> set s \<and> is_ascii s"
proof -
  assume m: "id_match s"
  have "c \<noteq> CHR ''='' \<and> c \<noteq> CHR '','' \<and> (of_char c :: nat) < 128" if "c \<in> set s" for c
    using id_match_chars [OF m that] id_char_plain [of c] by auto
  then show ?thesis unfolding is_ascii_def by blast
qed

definition valid_feature :: "feature_selection \<Rightarrow> bool" where
  "valid_feature f \<longleftrightarrow> length (fs_id f) \<le> 96 \<and> id_match (fs_id f) \<and> 1 \<le> fs_revision f \<and> fs_revision f \<le> 65535"

definition print_feature :: "feature_selection \<Rightarrow> string" where
  "print_feature f = fs_id f @ CHR ''='' # nat_str (fs_revision f)"

definition print_features :: "feature_selection list \<Rightarrow> string" where
  "print_features fs = join_with '','' (map print_feature fs)"

lemma nat_str_no_eq: "CHR ''='' \<notin> set (nat_str n)" "CHR '','' \<notin> set (nat_str n)"
  by (simp_all add: nat_str_no_char py_isdecimal_def)

lemma parse_pairs_iff:
  "parse_pairs prev pairs = Inr fs \<longleftrightarrow>
     pairs = map print_feature fs \<and> list_all valid_feature fs \<and> sorted_wrt (<) (prev # map fs_id fs)"
proof (induction pairs arbitrary: prev fs)
  case (Cons pair pairs)
  have pair: "split_on (CHR ''='') pair = [fs_id f, nat_str (fs_revision f)] \<longleftrightarrow> pair = print_feature f"
    if "valid_feature f" for f
    using that id_match_plain [of "fs_id f"] nat_str_no_eq
    by (auto simp: split_two print_feature_def valid_feature_def)
  have "parse_pairs prev (pair # pairs) = Inr fs \<longleftrightarrow>
      (\<exists>f gs. fs = f # gs \<and> valid_feature f \<and> pair = print_feature f \<and> prev < fs_id f
         \<and> parse_pairs (fs_id f) pairs = Inr gs)"
  proof
    assume "parse_pairs prev (pair # pairs) = Inr fs"
    then obtain n r rev gs where h: "split_on (CHR ''='') pair = [n, r]" "length n \<le> 96" "id_match n" "prev < n"
      "feature_integer r = Inr rev" "parse_pairs n pairs = Inr gs" "fs = \<lparr>fs_id = n, fs_revision = rev\<rparr> # gs"
      by (auto simp: feature_id_def res_simps split: list.splits if_splits)
    then have "valid_feature \<lparr>fs_id = n, fs_revision = rev\<rparr>" "r = nat_str rev"
      by (simp_all add: valid_feature_def feature_integer_iff)
    with h pair [of "\<lparr>fs_id = n, fs_revision = rev\<rparr>"]
    show "\<exists>f gs. fs = f # gs \<and> valid_feature f \<and> pair = print_feature f \<and> prev < fs_id f
         \<and> parse_pairs (fs_id f) pairs = Inr gs" by auto
  next
    assume "\<exists>f gs. fs = f # gs \<and> valid_feature f \<and> pair = print_feature f \<and> prev < fs_id f
         \<and> parse_pairs (fs_id f) pairs = Inr gs"
    then obtain f gs where f: "fs = f # gs" "valid_feature f" "pair = print_feature f" "prev < fs_id f"
      "parse_pairs (fs_id f) pairs = Inr gs" by blast
    then have "feature_integer (nat_str (fs_revision f)) = Inr (fs_revision f)" "feature_id (fs_id f) = Inr (fs_id f)"
      by (simp_all add: feature_integer_iff valid_feature_def feature_id_def)
    with f pair [of f] show "parse_pairs prev (pair # pairs) = Inr fs" by simp
  qed
  also have "\<dots> \<longleftrightarrow> pair # pairs = map print_feature fs \<and> list_all valid_feature fs \<and> sorted_wrt (<) (prev # map fs_id fs)"
    unfolding Cons.IH by (cases fs) (auto dest: less_trans)
  finally show ?case .
qed auto

subsection \<open>The whole header\<close>

lemma split_print_features:
  assumes "fs \<noteq> []" "list_all valid_feature fs"
  shows "split_on (CHR '','') (print_features fs) = map print_feature fs"
proof -
  have "CHR '','' \<notin> set (print_feature f)" if "valid_feature f" for f
    using that id_match_plain [of "fs_id f"] nat_str_no_eq
    by (auto simp: print_feature_def valid_feature_def)
  then show ?thesis
    unfolding print_features_def using assms by (intro split_on_join) (auto simp: list_all_iff)
qed

lemma ascii_print_features:
  assumes "list_all valid_feature fs"
  shows "is_ascii (print_features fs)"
proof -
  have "is_ascii (print_feature f)" if "valid_feature f" for f
  proof -
    have "is_ascii (nat_str n)" for n
      using nat_str_decimal by (fastforce simp: is_ascii_def py_isdecimal_def Let_def)
    then show ?thesis
      using that id_match_plain [of "fs_id f"] by (auto simp: print_feature_def valid_feature_def is_ascii_def)
  qed
  then show ?thesis
    using assms join_chars unfolding print_features_def is_ascii_def list_all_iff by fastforce
qed

section \<open>Properties\<close>

text \<open>
  The required-features header has exactly one spelling: a header value parses to a list of
  selections if and only if it is the printed form of that list, with strictly increasing valid
  identifiers, revisions from 1 to 65535, at most 32 entries and 4096 characters.
\<close>

theorem feature_header_iff:
  "parse_required_feature_header [raw] = Inr fs \<longleftrightarrow>
     fs \<noteq> [] \<and> length fs \<le> 32 \<and> list_all valid_feature fs \<and> sorted_wrt (<) (map fs_id fs)
     \<and> raw = print_features fs \<and> length raw \<le> 4096"
proof
  assume h: "parse_required_feature_header [raw] = Inr fs"
  then have p: "parse_pairs [] (split_on (CHR '','') raw) = Inr fs" "length raw \<le> 4096"
    "length (split_on (CHR '','') raw) \<le> 32"
    by (simp_all add: parse_required_feature_header_def Let_def split: if_splits)
  then have m: "split_on (CHR '','') raw = map print_feature fs" "list_all valid_feature fs"
    "sorted_wrt (<) (map fs_id fs)"
    by (simp_all add: parse_pairs_iff)
  moreover have "raw = print_features fs"
    using join_split_on [of "CHR '',''" raw] m(1) by (simp add: print_features_def)
  moreover have "fs \<noteq> []" using m(1) split_on_nonempty [of "CHR '',''" raw] by auto
  ultimately show "fs \<noteq> [] \<and> length fs \<le> 32 \<and> list_all valid_feature fs \<and> sorted_wrt (<) (map fs_id fs)
     \<and> raw = print_features fs \<and> length raw \<le> 4096"
    using p by simp
next
  assume h: "fs \<noteq> [] \<and> length fs \<le> 32 \<and> list_all valid_feature fs \<and> sorted_wrt (<) (map fs_id fs)
     \<and> raw = print_features fs \<and> length raw \<le> 4096"
  have "[] < fs_id f" if "f \<in> set fs" for f
  proof -
    have "fs_id f \<noteq> []" using h that by (auto simp: list_all_iff valid_feature_def id_match_def)
    then show ?thesis by (cases "fs_id f") simp_all
  qed
  then have "parse_pairs [] (map print_feature fs) = Inr fs"
    using h by (simp add: parse_pairs_iff)
  moreover have "split_on (CHR '','') raw = map print_feature fs" "is_ascii raw"
    using h split_print_features ascii_print_features by simp_all
  moreover have "1 \<le> length fs" "length fs \<le> 32" "length raw \<le> 4096" using h by (cases fs; simp)+
  ultimately show "parse_required_feature_header [raw] = Inr fs"
    by (simp add: parse_required_feature_header_def)
qed

text \<open>
  The keep-alive interval two ends agree on: no keep-alive when neither end offers a positive
  interval, otherwise the smallest positive offer, raised to at least one second.
\<close>

theorem hardening_keepalive:
  "evaluate_runtime_hardening [(''client_ping_ms'', PInt c), (''server_ping_ms'', PInt s)] =
     Inr [(''keepalive_enabled'', PBool (0 < c \<or> 0 < s)),
          (''effective_interval_ms'',
             if 0 < c \<and> 0 < s then PInt (max 1000 (min c s))
             else if 0 < c then PInt (max 1000 c)
             else if 0 < s then PInt (max 1000 s) else PNone)]"
  by (simp add: evaluate_runtime_hardening_def int_item_def dict_item_def dict_get_def)

end
