(* ===== verification/NdpFrames.thy ===== *)
theory NdpFrames
  imports NcpFrames
begin

text \<open>
  \<open>nps_sdk/ndp/frames.py\<close>: the discovery frames. As in \<open>NcpFrames\<close>, attributes that \<open>from_dict\<close>
  takes from the wire unchecked are \<^typ>\<open>pyval\<close>.
\<close>

section \<open>Addresses and resolve results\<close>

record ndp_address =
  adr_host :: pyval
  adr_port :: int
  adr_protocol :: pyval

definition address_to_dict :: "ndp_address \<Rightarrow> pyval" where
  "address_to_dict a =
     PDict [(''host'', adr_host a), (''port'', PInt (adr_port a)), (''protocol'', adr_protocol a)]"

definition address_from_dict :: "pyval \<Rightarrow> ndp_address res" where
  "address_from_dict data =
     res_bind (py_item data ''host'') (\<lambda>host.
     res_bind (py_item data ''port'') (\<lambda>p.
     res_bind (py_int p) (\<lambda>port.
     res_bind (py_item data ''protocol'') (\<lambda>protocol.
       Inr \<lparr>adr_host = host, adr_port = port, adr_protocol = protocol\<rparr>))))"

record resolve_result =
  rr_host :: pyval
  rr_port :: int
  rr_ttl :: int
  rr_cert_fingerprint :: pyval

definition resolve_result_to_dict :: "resolve_result \<Rightarrow> pyval" where
  "resolve_result_to_dict r =
     PDict ([(''host'', rr_host r), (''port'', PInt (rr_port r)), (''ttl'', PInt (rr_ttl r))]
       @ not_none ''cert_fingerprint'' (rr_cert_fingerprint r))"

definition resolve_result_from_dict :: "pyval \<Rightarrow> resolve_result res" where
  "resolve_result_from_dict data =
     res_bind (py_item data ''host'') (\<lambda>host.
     res_bind (py_item data ''port'') (\<lambda>p.
     res_bind (py_int p) (\<lambda>port.
     res_bind (py_item data ''ttl'') (\<lambda>t.
     res_bind (py_int t) (\<lambda>ttl.
     res_bind (py_get data ''cert_fingerprint'') (\<lambda>fp.
       Inr \<lparr>rr_host = host, rr_port = port, rr_ttl = ttl, rr_cert_fingerprint = fp\<rparr>))))))"

section \<open>Graph nodes and edges\<close>

record graph_node =
  gn_nid :: pyval
  gn_cluster_anchor :: pyval
  gn_node_roles :: "pyval list"

definition graph_node_to_dict :: "graph_node \<Rightarrow> pyval" where
  "graph_node_to_dict n =
     PDict ([(''nid'', gn_nid n)] @ not_none ''cluster_anchor'' (gn_cluster_anchor n)
       @ (if gn_node_roles n \<noteq> [] then [(''node_roles'', PList (gn_node_roles n))] else []))"

definition graph_node_from_dict :: "pyval \<Rightarrow> graph_node res" where
  "graph_node_from_dict data =
     res_bind (py_item data ''nid'') (\<lambda>nid.
     res_bind (py_get data ''cluster_anchor'') (\<lambda>ca.
     res_bind (py_get_or data ''node_roles'' (PList [])) (\<lambda>r.
     res_bind (py_iter r) (\<lambda>roles.
       Inr \<lparr>gn_nid = nid, gn_cluster_anchor = ca, gn_node_roles = roles\<rparr>))))"

record graph_edge =
  ge_from_nid :: pyval
  ge_to_nid :: pyval
  ge_latency_ms :: pyval
  ge_protocol :: pyval

definition graph_edge_to_dict :: "graph_edge \<Rightarrow> pyval" where
  "graph_edge_to_dict e =
     PDict ([(''from_nid'', ge_from_nid e), (''to_nid'', ge_to_nid e)]
       @ not_none ''latency_ms'' (ge_latency_ms e) @ not_none ''protocol'' (ge_protocol e))"

definition graph_edge_from_dict :: "pyval \<Rightarrow> graph_edge res" where
  "graph_edge_from_dict data =
     res_bind (py_item data ''from_nid'') (\<lambda>f.
     res_bind (py_item data ''to_nid'') (\<lambda>t.
     res_bind (py_get data ''latency_ms'') (\<lambda>l.
     res_bind (py_get data ''protocol'') (\<lambda>p.
       Inr \<lparr>ge_from_nid = f, ge_to_nid = t, ge_latency_ms = l, ge_protocol = p\<rparr>))))"

section \<open>AnnounceFrame\<close>

record announce_frame =
  an_nid :: pyval
  an_addresses :: "ndp_address list"
  an_capabilities :: "pyval list"
  an_ttl :: int
  an_timestamp :: pyval
  an_signature :: pyval
  an_node_type :: pyval
  an_node_roles :: "pyval list option"
  an_cluster_anchor :: pyval
  an_cluster_epoch :: "int option"
  an_spawn_spec_ref :: pyval
  an_bridge_protocols :: "pyval list option"
  an_bridge_inbound_protocols :: "pyval list option"
  an_activation_mode :: pyval
  an_activation_endpoint :: "ndp_address option"
  an_heartbeat_interval_ms :: int
  an_health :: pyval
  an_last_seen :: pyval
  an_graph_seq :: "int option"

definition announce_dict :: "announce_frame \<Rightarrow> pyval dict" where
  "announce_dict f =
     [(''nid'', an_nid f), (''addresses'', PList (map address_to_dict (an_addresses f))),
      (''capabilities'', PList (an_capabilities f)), (''ttl'', PInt (an_ttl f)),
      (''timestamp'', an_timestamp f), (''signature'', an_signature f),
      (''heartbeat_interval_ms'', PInt (an_heartbeat_interval_ms f))]
     @ not_none ''node_type'' (an_node_type f)
     @ not_none ''node_roles'' (opt_val PList (an_node_roles f))
     @ not_none ''cluster_anchor'' (an_cluster_anchor f)
     @ not_none ''cluster_epoch'' (opt_val PInt (an_cluster_epoch f))
     @ not_none ''spawn_spec_ref'' (an_spawn_spec_ref f)
     @ not_none ''bridge_protocols'' (opt_val PList (an_bridge_protocols f))
     @ not_none ''bridge_inbound_protocols'' (opt_val PList (an_bridge_inbound_protocols f))
     @ not_none ''activation_mode'' (an_activation_mode f)
     @ not_none ''activation_endpoint'' (opt_val address_to_dict (an_activation_endpoint f))
     @ not_none ''graph_seq'' (opt_val PInt (an_graph_seq f))
     @ not_none ''health'' (an_health f)
     @ not_none ''last_seen'' (an_last_seen f)"

definition announce_to_dict :: "announce_frame \<Rightarrow> pyval" where
  "announce_to_dict f = PDict (announce_dict f)"

definition unsigned_dict :: "announce_frame \<Rightarrow> pyval dict" where
  "unsigned_dict f =
     dict_pop ''last_seen'' (dict_pop ''health'' (dict_pop ''signature'' (announce_dict f)))"

definition opt_int :: "pyval \<Rightarrow> int option res" where
  "opt_int v = (if v = PNone then Inr None else res_bind (py_int v) (\<lambda>i. Inr (Some i)))"

definition tuple_or_none :: "pyval \<Rightarrow> pyval list option res" where
  "tuple_or_none v = (if v = PNone then Inr None else res_bind (py_iter v) (\<lambda>xs. Inr (Some xs)))"

definition announce_from_dict :: "pyval \<Rightarrow> announce_frame res" where
  "announce_from_dict data =
     res_bind (py_get data ''node_roles'') (\<lambda>nr.
     res_bind (if py_bool nr then Inr nr else py_get data ''node_kind'') (\<lambda>node_roles_raw.
     res_bind (py_get data ''bridge_protocols'') (\<lambda>bridge_raw.
     res_bind (py_get data ''bridge_inbound_protocols'') (\<lambda>inbound_raw.
     res_bind (py_get data ''cluster_epoch'') (\<lambda>epoch_raw.
     res_bind (py_item data ''nid'') (\<lambda>nid.
     res_bind (py_get_or data ''addresses'' (PList [])) (\<lambda>as.
     res_bind (py_iter as) (\<lambda>al.
     res_bind (res_map address_from_dict al) (\<lambda>addresses.
     res_bind (py_get_or data ''capabilities'' (PList [])) (\<lambda>cs.
     res_bind (py_iter cs) (\<lambda>capabilities.
     res_bind (py_item data ''ttl'') (\<lambda>t.
     res_bind (py_int t) (\<lambda>ttl.
     res_bind (py_item data ''timestamp'') (\<lambda>timestamp.
     res_bind (py_item data ''signature'') (\<lambda>signature.
     res_bind (py_get data ''node_type'') (\<lambda>node_type.
     res_bind (tuple_or_none node_roles_raw) (\<lambda>node_roles.
     res_bind (py_get data ''cluster_anchor'') (\<lambda>cluster_anchor.
     res_bind (opt_int epoch_raw) (\<lambda>cluster_epoch.
     res_bind (py_get data ''spawn_spec_ref'') (\<lambda>spawn_spec_ref.
     res_bind (tuple_or_none bridge_raw) (\<lambda>bridge_protocols.
     res_bind (tuple_or_none inbound_raw) (\<lambda>bridge_inbound.
     res_bind (py_get data ''activation_mode'') (\<lambda>activation_mode.
     res_bind (py_get data ''activation_endpoint'') (\<lambda>ae.
     res_bind (case ae of PDict _ \<Rightarrow> res_bind (address_from_dict ae) (\<lambda>a. Inr (Some a))
                        | _ \<Rightarrow> Inr None) (\<lambda>activation_endpoint.
     res_bind (py_get_or data ''heartbeat_interval_ms'' (PInt 60000)) (\<lambda>hb.
     res_bind (py_int hb) (\<lambda>heartbeat.
     res_bind (py_get data ''health'') (\<lambda>health.
     res_bind (py_get data ''last_seen'') (\<lambda>last_seen.
     res_bind (py_get data ''graph_seq'') (\<lambda>gs.
     res_bind (opt_int gs) (\<lambda>graph_seq.
       Inr \<lparr>an_nid = nid, an_addresses = addresses, an_capabilities = capabilities, an_ttl = ttl,
            an_timestamp = timestamp, an_signature = signature, an_node_type = node_type,
            an_node_roles = node_roles, an_cluster_anchor = cluster_anchor,
            an_cluster_epoch = cluster_epoch, an_spawn_spec_ref = spawn_spec_ref,
            an_bridge_protocols = bridge_protocols, an_bridge_inbound_protocols = bridge_inbound,
            an_activation_mode = activation_mode, an_activation_endpoint = activation_endpoint,
            an_heartbeat_interval_ms = heartbeat, an_health = health, an_last_seen = last_seen,
            an_graph_seq = graph_seq\<rparr>)))))))))))))))))))))))))))))))"

section \<open>ResolveFrame\<close>

record resolve_frame =
  rf_target :: pyval
  rf_requester_nid :: pyval
  rf_resolved :: "resolve_result option"

definition resolve_to_dict :: "resolve_frame \<Rightarrow> pyval" where
  "resolve_to_dict f =
     PDict ([(''target'', rf_target f)] @ not_none ''requester_nid'' (rf_requester_nid f)
       @ not_none ''resolved'' (opt_val resolve_result_to_dict (rf_resolved f)))"

definition resolve_from_dict :: "pyval \<Rightarrow> resolve_frame res" where
  "resolve_from_dict data =
     res_bind (py_get data ''resolved'') (\<lambda>raw.
     res_bind (py_item data ''target'') (\<lambda>target.
     res_bind (py_get data ''requester_nid'') (\<lambda>requester.
     res_bind (if py_bool raw then res_bind (resolve_result_from_dict raw) (\<lambda>r. Inr (Some r))
               else Inr None) (\<lambda>resolved.
       Inr \<lparr>rf_target = target, rf_requester_nid = requester, rf_resolved = resolved\<rparr>))))"

section \<open>GraphFrame\<close>

definition MAX_GRAPH_NODES :: nat where "MAX_GRAPH_NODES = 256"
definition MAX_GRAPH_EDGES :: nat where "MAX_GRAPH_EDGES = 1024"

record graph_frame =
  gf_graph_id :: pyval
  gf_nodes :: "graph_node list"
  gf_edges :: "graph_edge list"
  gf_ttl :: int
  gf_metadata :: pyval

definition in_nids :: "pyval \<Rightarrow> pyval list \<Rightarrow> bool res" where
  "in_nids v nids = (if py_hashable v then Inr (\<exists>n \<in> set nids. py_eq v n) else Inl TypeError)"

text \<open>The loop over the edges in \<open>__post_init__\<close>.\<close>

fun check_edges :: "pyval list \<Rightarrow> graph_edge list \<Rightarrow> unit res" where
  "check_edges nids [] = Inr ()"
| "check_edges nids (e # es) =
     (if \<not> py_bool (ge_from_nid e) \<or> \<not> py_bool (ge_to_nid e) then Inl ValueError
      else if py_eq (ge_from_nid e) (ge_to_nid e) then Inl ValueError
      else res_bind (in_nids (ge_from_nid e) nids) (\<lambda>a.
        if \<not> a then Inl ValueError
        else res_bind (in_nids (ge_to_nid e) nids) (\<lambda>b.
          if \<not> b then Inl ValueError else check_edges nids es)))"

definition graph_post_init :: "graph_frame \<Rightarrow> unit res" where
  "graph_post_init g =
     (if length (gf_nodes g) > MAX_GRAPH_NODES then Inl ValueError
      else if length (gf_edges g) > MAX_GRAPH_EDGES then Inl ValueError
      else if \<exists>n \<in> set (gf_nodes g). \<not> py_hashable (gn_nid n) then Inl TypeError
      else if \<exists>n \<in> set (gf_nodes g). \<not> py_bool (gn_nid n) then Inl ValueError
      else check_edges (map gn_nid (gf_nodes g)) (gf_edges g))"

definition graph_to_dict :: "graph_frame \<Rightarrow> pyval" where
  "graph_to_dict g =
     PDict ([(''graph_id'', gf_graph_id g), (''nodes'', PList (map graph_node_to_dict (gf_nodes g))),
             (''edges'', PList (map graph_edge_to_dict (gf_edges g))), (''ttl'', PInt (gf_ttl g))]
       @ not_none ''metadata'' (gf_metadata g))"

definition graph_from_dict :: "pyval \<Rightarrow> graph_frame res" where
  "graph_from_dict data =
     res_bind (py_item data ''graph_id'') (\<lambda>graph_id.
     res_bind (py_get_or data ''nodes'' (PList [])) (\<lambda>ns.
     res_bind (py_iter ns) (\<lambda>nl.
     res_bind (res_map graph_node_from_dict nl) (\<lambda>nodes.
     res_bind (py_get_or data ''edges'' (PList [])) (\<lambda>es.
     res_bind (py_iter es) (\<lambda>el.
     res_bind (res_map graph_edge_from_dict el) (\<lambda>edges.
     res_bind (py_item data ''ttl'') (\<lambda>t.
     res_bind (py_int t) (\<lambda>ttl.
     res_bind (py_get data ''metadata'') (\<lambda>metadata.
       let g = \<lparr>gf_graph_id = graph_id, gf_nodes = nodes, gf_edges = edges, gf_ttl = ttl,
                gf_metadata = metadata\<rparr>
       in res_bind (graph_post_init g) (\<lambda>_. Inr g)))))))))))"

section \<open>The NDP frames as the codec sees them\<close>

datatype ndp_frame = NAnnounce announce_frame | NResolve resolve_frame | NGraph graph_frame

fun ndp_class :: "ndp_frame \<Rightarrow> frame_class" where
  "ndp_class (NAnnounce _) = AnnounceFrame"
| "ndp_class (NResolve _) = ResolveFrame"
| "ndp_class (NGraph _) = GraphFrame"

fun ndp_type :: "ndp_frame \<Rightarrow> frame_type" where
  "ndp_type (NAnnounce _) = ANNOUNCE"
| "ndp_type (NResolve _) = RESOLVE"
| "ndp_type (NGraph _) = GRAPH"

fun ndp_to_dict :: "ndp_frame \<Rightarrow> pyval" where
  "ndp_to_dict (NAnnounce f) = announce_to_dict f"
| "ndp_to_dict (NResolve f) = resolve_to_dict f"
| "ndp_to_dict (NGraph f) = graph_to_dict f"

definition ndp_from_dict :: "frame_class \<Rightarrow> pyval \<Rightarrow> ndp_frame res" where
  "ndp_from_dict cls data =
     (case cls of
        AnnounceFrame \<Rightarrow> res_wrap NAnnounce (announce_from_dict data)
      | ResolveFrame \<Rightarrow> res_wrap NResolve (resolve_from_dict data)
      | GraphFrame \<Rightarrow> res_wrap NGraph (graph_from_dict data)
      | _ \<Rightarrow> Inl AttributeError)"

definition ndp_api :: "ndp_frame frame_api" where
  "ndp_api = \<lparr>fa_type = ndp_type, fa_tier = (\<lambda>_. MSGPACK), fa_to_dict = ndp_to_dict,
     fa_stream_last = (\<lambda>_. None), fa_from_dict = ndp_from_dict\<rparr>"

text \<open>
  The frames that survive \<open>from_dict\<close>: a graph as its constructor admits it, an announcement
  whose role list is absent or not empty.
\<close>

fun ndp_wf :: "ndp_frame \<Rightarrow> bool" where
  "ndp_wf (NAnnounce f) = (an_node_roles f \<noteq> Some [])"
| "ndp_wf (NResolve f) = True"
| "ndp_wf (NGraph g) = (graph_post_init g = Inr ())"

section \<open>Lemmas\<close>

named_theorems ndp_frame_defs

lemmas [ndp_frame_defs] =
  address_to_dict_def address_from_dict_def resolve_result_to_dict_def resolve_result_from_dict_def
  graph_node_to_dict_def graph_node_from_dict_def graph_edge_to_dict_def graph_edge_from_dict_def
  resolve_to_dict_def resolve_from_dict_def opt_int_def tuple_or_none_def map_add_def

lemma to_dict_not_None [simp]: "address_to_dict a \<noteq> PNone" "resolve_result_to_dict r \<noteq> PNone"
  by (simp_all add: address_to_dict_def resolve_result_to_dict_def)

lemma opt_val_None: "(\<And>x. g x \<noteq> PNone) \<Longrightarrow> opt_val g x = PNone \<longleftrightarrow> x = None"
  by (cases x) simp_all

lemma opt_val_None_simps [simp]:
  "opt_val PInt x = PNone \<longleftrightarrow> x = None"
  "opt_val address_to_dict y = PNone \<longleftrightarrow> y = None"
  "opt_val resolve_result_to_dict z = PNone \<longleftrightarrow> z = None"
  by (simp_all add: opt_val_None)

lemma address_dict [simp]: "address_from_dict (address_to_dict a) = Inr a"
  by (simp add: ndp_frame_defs)

lemma resolve_result_dict [simp]: "resolve_result_from_dict (resolve_result_to_dict r) = Inr r"
  by (simp add: ndp_frame_defs)

lemma graph_node_dict [simp]: "graph_node_from_dict (graph_node_to_dict n) = Inr n"
  by (simp add: ndp_frame_defs)

lemma graph_edge_dict [simp]: "graph_edge_from_dict (graph_edge_to_dict e) = Inr e"
  by (simp add: ndp_frame_defs)

lemma resolve_dict [simp]: "resolve_from_dict (resolve_to_dict f) = Inr f"
proof (cases "rf_resolved f")
  case (Some r)
  have "py_bool (resolve_result_to_dict r)" by (simp add: resolve_result_to_dict_def)
  with Some show ?thesis by (simp add: resolve_from_dict_def resolve_to_dict_def map_add_def)
qed (simp add: ndp_frame_defs)

lemma graph_dict: "graph_post_init g = Inr () \<Longrightarrow> graph_from_dict (graph_to_dict g) = Inr g"
  by (cases g) (auto simp: graph_from_dict_def graph_to_dict_def res_map_id)

lemma tuple_or_none_opt_val [simp]: "tuple_or_none (opt_val PList x) = Inr x"
  by (cases x) (simp_all add: tuple_or_none_def)

lemma opt_int_opt_val [simp]: "opt_int (opt_val PInt x) = Inr x"
  by (cases x) (simp_all add: opt_int_def)

lemma endpoint_opt_val [simp]:
  "(case opt_val address_to_dict x of
      PDict d \<Rightarrow> res_bind (address_from_dict (opt_val address_to_dict x)) (\<lambda>a. Inr (Some a))
    | _ \<Rightarrow> Inr None) = Inr x"
  by (cases x) (simp_all add: address_from_dict_def address_to_dict_def)

lemma announce_lookup:
  "map_of (announce_dict f) ''nid'' = Some (an_nid f)"
  "map_of (announce_dict f) ''addresses'' = Some (PList (map address_to_dict (an_addresses f)))"
  "map_of (announce_dict f) ''capabilities'' = Some (PList (an_capabilities f))"
  "map_of (announce_dict f) ''ttl'' = Some (PInt (an_ttl f))"
  "map_of (announce_dict f) ''timestamp'' = Some (an_timestamp f)"
  "map_of (announce_dict f) ''signature'' = Some (an_signature f)"
  "map_of (announce_dict f) ''heartbeat_interval_ms'' = Some (PInt (an_heartbeat_interval_ms f))"
  "map_of (announce_dict f) ''node_kind'' = None"
  "map_of (announce_dict f) ''vector_search'' = None"
  by (simp_all add: announce_dict_def map_add_def)

text \<open>The optional entries.\<close>

definition some_val :: "pyval \<Rightarrow> pyval option" where
  "some_val v = (if v = PNone then None else Some v)"

lemma some_val_case [simp]: "(case some_val v of None \<Rightarrow> PNone | Some w \<Rightarrow> w) = v"
  by (simp add: some_val_def)

lemma announce_lookup_opt:
  "map_of (announce_dict f) ''node_type'' = some_val (an_node_type f)"
  "map_of (announce_dict f) ''node_roles'' = some_val (opt_val PList (an_node_roles f))"
  "map_of (announce_dict f) ''cluster_anchor'' = some_val (an_cluster_anchor f)"
  "map_of (announce_dict f) ''cluster_epoch'' = some_val (opt_val PInt (an_cluster_epoch f))"
  "map_of (announce_dict f) ''spawn_spec_ref'' = some_val (an_spawn_spec_ref f)"
  "map_of (announce_dict f) ''bridge_protocols'' = some_val (opt_val PList (an_bridge_protocols f))"
  "map_of (announce_dict f) ''bridge_inbound_protocols'' = some_val (opt_val PList (an_bridge_inbound_protocols f))"
  "map_of (announce_dict f) ''activation_mode'' = some_val (an_activation_mode f)"
  "map_of (announce_dict f) ''activation_endpoint'' = some_val (opt_val address_to_dict (an_activation_endpoint f))"
  "map_of (announce_dict f) ''graph_seq'' = some_val (opt_val PInt (an_graph_seq f))"
  "map_of (announce_dict f) ''health'' = some_val (an_health f)"
  "map_of (announce_dict f) ''last_seen'' = some_val (an_last_seen f)"
  by (simp_all add: announce_dict_def map_add_def some_val_def del: opt_val_None_simps)

lemma announce_from_to:
  "announce_from_dict (announce_to_dict f)
     = Inr (if an_node_roles f = Some [] then f\<lparr>an_node_roles := None\<rparr> else f)"
proof (cases "an_node_roles f")
  case (Some xs)
  then show ?thesis
    by (cases xs)
      (simp_all add: announce_from_dict_def announce_to_dict_def announce_lookup announce_lookup_opt
        res_map_id tuple_or_none_def [of PNone] tuple_or_none_def [of "PList _"])
qed (simp add: announce_from_dict_def announce_to_dict_def announce_lookup announce_lookup_opt
    res_map_id tuple_or_none_def [of PNone])

lemma ndp_dict: "ndp_wf f \<Longrightarrow> ndp_from_dict (ndp_class f) (ndp_to_dict f) = Inr f"
  by (cases f) (simp_all add: ndp_from_dict_def announce_from_to graph_dict)

lemma ndp_no_vector: "\<exists>d. ndp_to_dict f = PDict d \<and> map_of d ''vector_search'' = None"
  by (cases f) (simp_all add: announce_to_dict_def announce_lookup resolve_to_dict_def graph_to_dict_def map_add_def)

lemma ndp_api_simps [simp]:
  "fa_type ndp_api = ndp_type" "fa_to_dict ndp_api = ndp_to_dict" "fa_from_dict ndp_api = ndp_from_dict"
  by (simp_all add: ndp_api_def)

interpretation ndp: plain_frames ndp_api ndp_class ndp_wf
  by unfold_locales (simp_all add: ndp_dict ndp_no_vector)

subsection \<open>Signed bodies and graphs\<close>

lemma dict_pop_not_none [simp]:
  "dict_pop k (not_none k' v) = (if k = k' then [] else not_none k' v)"
  by (auto simp: dict_pop_def not_none_def)

lemma dict_pop_append [simp]: "dict_pop k (d @ e) = dict_pop k d @ dict_pop k e"
  by (simp add: dict_pop_def AList.delete_eq)

lemma unsigned_dict_eq:
  "unsigned_dict f =
     [(''nid'', an_nid f), (''addresses'', PList (map address_to_dict (an_addresses f))),
      (''capabilities'', PList (an_capabilities f)), (''ttl'', PInt (an_ttl f)),
      (''timestamp'', an_timestamp f),
      (''heartbeat_interval_ms'', PInt (an_heartbeat_interval_ms f))]
     @ not_none ''node_type'' (an_node_type f)
     @ not_none ''node_roles'' (opt_val PList (an_node_roles f))
     @ not_none ''cluster_anchor'' (an_cluster_anchor f)
     @ not_none ''cluster_epoch'' (opt_val PInt (an_cluster_epoch f))
     @ not_none ''spawn_spec_ref'' (an_spawn_spec_ref f)
     @ not_none ''bridge_protocols'' (opt_val PList (an_bridge_protocols f))
     @ not_none ''bridge_inbound_protocols'' (opt_val PList (an_bridge_inbound_protocols f))
     @ not_none ''activation_mode'' (an_activation_mode f)
     @ not_none ''activation_endpoint'' (opt_val address_to_dict (an_activation_endpoint f))
     @ not_none ''graph_seq'' (opt_val PInt (an_graph_seq f))"
proof -
  have "dict_pop k [] = []" "dict_pop k ((k', v) # d) = (if k = k' then dict_pop k d else (k', v) # dict_pop k d)"
    for k k' :: string and v :: pyval and d
    by (simp_all add: dict_pop_def)
  then show ?thesis by (simp add: unsigned_dict_def announce_dict_def)
qed

lemma check_edges_Inr:
  "check_edges nids es = Inr () \<Longrightarrow> e \<in> set es \<Longrightarrow>
     py_bool (ge_from_nid e) \<and> py_bool (ge_to_nid e) \<and> \<not> py_eq (ge_from_nid e) (ge_to_nid e)
     \<and> (\<exists>n \<in> set nids. py_eq (ge_from_nid e) n) \<and> (\<exists>n \<in> set nids. py_eq (ge_to_nid e) n)"
  by (induction es) (auto simp: in_nids_def split: if_splits)

section \<open>Properties\<close>

text \<open>
  Every discovery frame survives the wire at every tier, given libraries that read back its
  dictionary: a resolve frame always, a graph that its constructor admits, and an announcement
  whose role list is absent or not empty.
\<close>

theorem ndp_wire_roundtrip:
  assumes "ndp_wf f" "lib_reads_back lib (ndp_to_dict f)"
    and "registry_resolve reg (ndp_type f) = Inr (ndp_class f)"
    and "codec_encode lib ndp_api maxp ov f = Inr wire"
  shows "codec_decode lib ndp_api reg (wire @ rest) = Inr f"
  using ndp.wire_roundtrip [of f lib reg maxp ov wire rest] assms by simp

definition ex_announce :: "string \<Rightarrow> announce_frame" where
  "ex_announce nid = \<lparr>an_nid = PStr nid,
     an_addresses = [\<lparr>adr_host = PStr ''10.0.0.5'', adr_port = 17433, adr_protocol = PStr ''https''\<rparr>],
     an_capabilities = [], an_ttl = 60, an_timestamp = PStr ''2026-01-01T00:00:00Z'',
     an_signature = PStr ''ed25519:x'', an_node_type = PNone, an_node_roles = None,
     an_cluster_anchor = PNone, an_cluster_epoch = None, an_spawn_spec_ref = PNone,
     an_bridge_protocols = None, an_bridge_inbound_protocols = None, an_activation_mode = PNone,
     an_activation_endpoint = None, an_heartbeat_interval_ms = 60000, an_health = PNone,
     an_last_seen = PNone, an_graph_seq = Some 4\<rparr>"

theorem ndp_wire_roundtrip_witness:
  "\<exists>wire. codec_encode (one_value_lib (ndp_to_dict (NAnnounce (ex_announce ''n'')))) ndp_api 65535 (Some JSON)
       (NAnnounce (ex_announce ''n'')) = Inr wire
     \<and> codec_decode (one_value_lib (ndp_to_dict (NAnnounce (ex_announce ''n'')))) ndp_api create_full (wire @ [0])
       = Inr (NAnnounce (ex_announce ''n''))"
proof -
  let ?f = "NAnnounce (ex_announce ''n'')"
  let ?lib = "one_value_lib (ndp_to_dict ?f)"
  have "tier_encode ?lib ndp_api JSON ?f = Inr [0x7B, 0x7D]"
    by (simp add: tier_encode_def tier1_encode_def one_value_lib_def)
  moreover obtain hb where "header_to_bytes (frame_hdr ndp_api ?f JSON 2) = Inr hb"
    using header_ok_to_bytes [OF frame_hdr_ok [of 2]] by (fastforce simp: header_consts)
  ultimately have enc: "codec_encode ?lib ndp_api 65535 (Some JSON) ?f = Inr (hb @ [0x7B, 0x7D])"
    by (simp add: codec_encode_eq numeral_2_eq_2)
  have "codec_decode ?lib ndp_api create_full ((hb @ [0x7B, 0x7D]) @ [0]) = Inr ?f"
    using one_value_reads_back
    by (intro ndp_wire_roundtrip [OF _ _ _ enc])
      (simp_all add: ex_announce_def registry_resolve_def create_full_def registry_register_def)
  with enc show ?thesis by blast
qed

text \<open>
  An announcement with an empty role list does not survive its own dictionary: \<open>from_dict\<close>
  reads the empty list as absent, so the received frame signs a body without \<open>node_roles\<close> while
  the sender signed one with it.
\<close>

theorem announce_empty_roles_lost:
  assumes "an_node_roles f = Some []"
  shows "\<exists>g. announce_from_dict (announce_to_dict f) = Inr g \<and> g \<noteq> f
    \<and> map_of (unsigned_dict f) ''node_roles'' = Some (PList [])
    \<and> map_of (unsigned_dict g) ''node_roles'' = None"
proof -
  have "map_of (unsigned_dict f) ''node_roles'' = Some (PList [])"
    "map_of (unsigned_dict (f\<lparr>an_node_roles := None\<rparr>)) ''node_roles'' = None"
    using assms by (simp_all add: unsigned_dict_def announce_lookup_opt some_val_def)
  moreover have "f\<lparr>an_node_roles := None\<rparr> \<noteq> f"
    using assms by (metis announce_frame.select_convs(8) announce_frame.update_convs(8) announce_frame.surjective option.distinct(1))
  ultimately show ?thesis using assms by (simp add: announce_from_to)
qed

theorem announce_empty_roles_lost_witness:
  "\<exists>g. announce_from_dict (announce_to_dict ((ex_announce ''n'')\<lparr>an_node_roles := Some []\<rparr>)) = Inr g
     \<and> g \<noteq> (ex_announce ''n'')\<lparr>an_node_roles := Some []\<rparr> \<and> map_of (unsigned_dict g) ''node_roles'' = None"
  using announce_empty_roles_lost [of "(ex_announce ''n'')\<lparr>an_node_roles := Some []\<rparr>"] by auto

text \<open>
  A heartbeat needs no new signature: the signed body of an announcement does not depend on
  \<open>health\<close>, \<open>last_seen\<close> or the signature itself.
\<close>

theorem unsigned_dict_liveness:
  "unsigned_dict (f\<lparr>an_health := h, an_last_seen := l, an_signature := s\<rparr>) = unsigned_dict f"
  by (simp add: unsigned_dict_eq)

text \<open>
  A graph that \<open>from_dict\<close> accepts has at most 256 nodes and 1024 edges, every node has a
  non-empty id, and every edge joins two different nodes of the graph.
\<close>

theorem graph_from_dict_valid:
  assumes "graph_from_dict data = Inr g"
  shows "length (gf_nodes g) \<le> 256 \<and> length (gf_edges g) \<le> 1024
    \<and> (\<forall>n \<in> set (gf_nodes g). py_bool (gn_nid n))
    \<and> (\<forall>e \<in> set (gf_edges g). \<not> py_eq (ge_from_nid e) (ge_to_nid e)
         \<and> (\<exists>n \<in> set (gf_nodes g). py_eq (ge_from_nid e) (gn_nid n))
         \<and> (\<exists>n \<in> set (gf_nodes g). py_eq (ge_to_nid e) (gn_nid n)))"
proof -
  have p: "graph_post_init g = Inr ()"
    using assms by (auto simp: graph_from_dict_def res_simps Let_def)
  then have "check_edges (map gn_nid (gf_nodes g)) (gf_edges g) = Inr ()"
    by (simp add: graph_post_init_def split: if_splits)
  from check_edges_Inr [OF this] p show ?thesis
    by (auto simp: graph_post_init_def MAX_GRAPH_NODES_def MAX_GRAPH_EDGES_def split: if_splits)
qed

definition ex_graph :: graph_frame where
  "ex_graph = \<lparr>gf_graph_id = PStr ''g'',
     gf_nodes = [\<lparr>gn_nid = PStr ''a'', gn_cluster_anchor = PNone, gn_node_roles = []\<rparr>,
                 \<lparr>gn_nid = PStr ''b'', gn_cluster_anchor = PNone, gn_node_roles = []\<rparr>],
     gf_edges = [\<lparr>ge_from_nid = PStr ''a'', ge_to_nid = PStr ''b'', ge_latency_ms = PInt 3, ge_protocol = PNone\<rparr>],
     gf_ttl = 30, gf_metadata = PNone\<rparr>"

theorem graph_from_dict_valid_witness:
  "graph_from_dict (graph_to_dict ex_graph) = Inr ex_graph
     \<and> length (gf_nodes ex_graph) \<le> 256 \<and> length (gf_edges ex_graph) \<le> 1024"
proof -
  have "graph_from_dict (graph_to_dict ex_graph) = Inr ex_graph"
    by (rule graph_dict)
      (simp add: ex_graph_def graph_post_init_def MAX_GRAPH_NODES_def MAX_GRAPH_EDGES_def py_hashable_def in_nids_def)
  with graph_from_dict_valid [OF this] show ?thesis by simp
qed

end
