(* ===== verification/AnchorCache.thy ===== *)
theory AnchorCache
  imports NcpFrames "HOL-Library.Multiset"
begin

text \<open>
  \<open>nps_sdk/core/cache.py\<close>: \<open>AnchorFrameCache\<close>. The clock (\<open>time.monotonic()\<close>) is an argument of
  the operations that read it, one argument per reading. \<open>json.dumps(..., sort_keys=True)\<close> and
  \<open>sha256(...).hexdigest()\<close> are the two functions of an \<open>canon_hash\<close>.
\<close>

record canon_hash =
  dumps_sorted :: "pyval \<Rightarrow> string res"
  sha256_hex :: "string \<Rightarrow> string"

section \<open>Sorting by a key\<close>

text \<open>\<open><\<close> on Python values: numbers, strings by code point, lists lexicographically.\<close>

fun py_less :: "pyval \<Rightarrow> pyval \<Rightarrow> bool res"
and py_less_list :: "pyval list \<Rightarrow> pyval list \<Rightarrow> bool res" where
  "py_less v w =
     (case (num_val v, num_val w) of
        (Some a, Some b) \<Rightarrow> Inr (flt_less a b)
      | _ \<Rightarrow>
         (case v of
            PStr s \<Rightarrow> (case w of PStr t \<Rightarrow> Inr (s < t) | _ \<Rightarrow> Inl TypeError)
          | PList xs \<Rightarrow> (case w of PList ys \<Rightarrow> py_less_list xs ys | _ \<Rightarrow> Inl TypeError)
          | _ \<Rightarrow> Inl TypeError))"
| "py_less_list [] ys = Inr (ys \<noteq> [])"
| "py_less_list (x # xs) ys =
     (case ys of [] \<Rightarrow> Inr False | y # zs \<Rightarrow> if py_eq x y then py_less_list xs zs else py_less x y)"

declare py_less.simps [simp del]

text \<open>
  \<open>sorted(items, key=key)\<close>: stable, and \<open>TypeError\<close> when two keys cannot be ordered. Elements
  are inserted one after another, each behind the ones that are not greater.
\<close>

fun py_insert :: "('a \<Rightarrow> pyval) \<Rightarrow> 'a \<Rightarrow> 'a list \<Rightarrow> 'a list res" where
  "py_insert key x [] = Inr [x]"
| "py_insert key x (y # ys) =
     res_bind (py_less (key x) (key y)) (\<lambda>b.
       if b then Inr (x # y # ys) else res_bind (py_insert key x ys) (\<lambda>zs. Inr (y # zs)))"

fun py_sort_onto :: "('a \<Rightarrow> pyval) \<Rightarrow> 'a list \<Rightarrow> 'a list \<Rightarrow> 'a list res" where
  "py_sort_onto key acc [] = Inr acc"
| "py_sort_onto key acc (x # xs) = res_bind (py_insert key x acc) (\<lambda>acc'. py_sort_onto key acc' xs)"

section \<open>The anchor id\<close>

definition field_entry :: "schema_field \<Rightarrow> pyval dict" where
  "field_entry f =
     filter (\<lambda>kv. snd kv \<noteq> PNone)
       [(''name'', sf_name f), (''type'', sf_type f), (''semantic'', sf_semantic f),
        (''nullable'', PBool (sf_nullable f))]"

definition compute_anchor_id :: "canon_hash \<Rightarrow> frame_schema \<Rightarrow> string res" where
  "compute_anchor_id H schema =
     res_bind (res_map (\<lambda>d. res_bind (dict_item d ''name'') (\<lambda>n. Inr (n, d))) (map field_entry schema)) (\<lambda>keyed.
     res_bind (py_sort_onto fst [] keyed) (\<lambda>sorted_fields.
     res_bind (dumps_sorted H (PList (map (\<lambda>nd. PDict (snd nd)) sorted_fields))) (\<lambda>canonical.
       Inr (''sha256:'' @ sha256_hex H canonical))))"

definition schemas_equal :: "canon_hash \<Rightarrow> frame_schema \<Rightarrow> frame_schema \<Rightarrow> bool res" where
  "schemas_equal H a b =
     res_bind (compute_anchor_id H a) (\<lambda>ia. res_bind (compute_anchor_id H b) (\<lambda>ib. Inr (ia = ib)))"

section \<open>The cache\<close>

type_synonym anchor_cache = "(anchor_frame \<times> pyfloat) dict"

text \<open>\<open>time.monotonic() + frame.ttl\<close>\<close>

definition expires_at :: "pyfloat \<Rightarrow> int \<Rightarrow> pyfloat res" where
  "expires_at now ttl =
     res_bind (float_of_int ttl) (\<lambda>t.
       Inr (case (now, t) of (FFin a, FFin b) \<Rightarrow> double (a + b) | (FFin _, y) \<Rightarrow> y | (x, _) \<Rightarrow> x))"

definition anchor_key :: "canon_hash \<Rightarrow> anchor_frame \<Rightarrow> string res" where
  "anchor_key H f =
     res_bind (as_str (anc_anchor_id f)) (\<lambda>i.
       if py_startswith i ''sha256:'' then Inr i else compute_anchor_id H (anc_schema f))"

text \<open>The id to store under, after the poisoning check against a live entry.\<close>

definition cache_check :: "canon_hash \<Rightarrow> pyfloat \<Rightarrow> anchor_frame \<Rightarrow> anchor_cache \<Rightarrow> string res" where
  "cache_check H now frame c =
     res_bind (anchor_key H frame) (\<lambda>i.
       case dict_get c i of
         None \<Rightarrow> Inr i
       | Some (existing, expiry) \<Rightarrow>
           if flt_less now expiry
           then res_bind (schemas_equal H (anc_schema existing) (anc_schema frame)) (\<lambda>eq.
                  if eq then Inr i else Inl (NpsAnchorPoisonError i))
           else Inr i)"

text \<open>\<open>now1\<close> is the clock read for the liveness test, \<open>now2\<close> the one the new expiry starts from.\<close>

definition cache_set ::
  "canon_hash \<Rightarrow> pyfloat \<Rightarrow> pyfloat \<Rightarrow> anchor_frame \<Rightarrow> anchor_cache \<Rightarrow> string res \<times> anchor_cache" where
  "cache_set H now1 now2 frame c =
     (case cache_check H now1 frame c of
        Inl err \<Rightarrow> (Inl err, c)
      | Inr i \<Rightarrow>
          (case expires_at now2 (anc_ttl frame) of
             Inl err \<Rightarrow> (Inl err, c)
           | Inr expiry \<Rightarrow> (Inr i, dict_set i (frame, expiry) c)))"

definition cache_get :: "pyfloat \<Rightarrow> string \<Rightarrow> anchor_cache \<Rightarrow> anchor_frame option \<times> anchor_cache" where
  "cache_get now i c =
     (case dict_get c i of
        None \<Rightarrow> (None, c)
      | Some (frame, expiry) \<Rightarrow> if flt_less expiry now then (None, dict_pop i c) else (Some frame, c))"

definition get_required :: "pyfloat \<Rightarrow> string \<Rightarrow> anchor_cache \<Rightarrow> anchor_frame res \<times> anchor_cache" where
  "get_required now i c =
     (case cache_get now i c of
        (None, c') \<Rightarrow> (Inl (NpsAnchorNotFoundError i), c')
      | (Some frame, c') \<Rightarrow> (Inr frame, c'))"

definition invalidate :: "string \<Rightarrow> anchor_cache \<Rightarrow> anchor_cache" where
  "invalidate i c = dict_pop i c"

definition evict_expired :: "pyfloat \<Rightarrow> anchor_cache \<Rightarrow> anchor_cache" where
  "evict_expired now c =
     foldl (\<lambda>d k. dict_pop k d) c (map fst (filter (\<lambda>(k, f, expiry). flt_less expiry now) c))"

definition cache_len :: "pyfloat \<Rightarrow> anchor_cache \<Rightarrow> nat \<times> anchor_cache" where
  "cache_len now c = (let c' = evict_expired now c in (length c', c'))"

section \<open>Lemmas\<close>

lemma py_less_str [simp]: "py_less (PStr s) (PStr t) = Inr (s < t)"
  by (simp add: py_less.simps num_val_def)

subsection \<open>Sorting string keys\<close>

lemma py_insert_strings:
  assumes "\<And>z. z \<in> insert x (set ys) \<Longrightarrow> key z = PStr (k z)"
  shows "\<exists>zs. py_insert key x ys = Inr zs \<and> mset zs = add_mset x (mset ys)
    \<and> (sorted (map k ys) \<longrightarrow> sorted (map k zs))"
  using assms
proof (induction ys)
  case (Cons y ys)
  obtain zs where zs: "py_insert key x ys = Inr zs" "mset zs = add_mset x (mset ys)"
    "sorted (map k ys) \<longrightarrow> sorted (map k zs)"
    using Cons by auto
  have set: "set zs = insert x (set ys)"
    using arg_cong [OF zs(2), of set_mset] by simp
  have "key x = PStr (k x)" "key y = PStr (k y)" using Cons.prems by auto
  then show ?case
    using zs set by (cases "k x < k y") (auto simp: add_mset_commute intro: less_imp_le dual_order.trans)
qed simp

lemma py_sort_strings:
  assumes "\<And>z. z \<in> set acc \<union> set xs \<Longrightarrow> key z = PStr (k z)" "sorted (map k acc)"
  shows "\<exists>zs. py_sort_onto key acc xs = Inr zs \<and> mset zs = mset acc + mset xs \<and> sorted (map k zs)"
  using assms
proof (induction xs arbitrary: acc)
  case (Cons x xs)
  obtain acc' where a: "py_insert key x acc = Inr acc'" "mset acc' = add_mset x (mset acc)"
    "sorted (map k acc')"
    using py_insert_strings [of x acc key k] Cons.prems by auto
  have set: "set acc' = insert x (set acc)"
    using arg_cong [OF a(2), of set_mset] by simp
  show ?case
    using Cons.IH [of acc'] Cons.prems a set by auto
qed simp

text \<open>Lists that are permutations of each other and sorted by distinct keys are equal.\<close>

lemma sorted_perm_unique:
  assumes "mset xs = mset ys" "sorted (map k xs)" "sorted (map k ys)" "distinct (map k xs)"
  shows "xs = ys"
proof -
  have d: "distinct (map k ys)"
    using assms(1,4) by (metis distinct_map mset_eq_imp_distinct_iff mset_eq_setD)
  have "map k xs = map k ys"
    using assms d by (metis mset_map mset_eq_setD sorted_distinct_set_unique)
  then show ?thesis
    using assms(4) mset_eq_setD [OF assms(1)] by (metis distinct_map map_inj_on inf_sup_aci(5) sup.idem)
qed

subsection \<open>The anchor id\<close>

lemma field_entry_name: "sf_name f \<noteq> PNone \<Longrightarrow> dict_item (field_entry f) ''name'' = Inr (sf_name f)"
  by (simp add: field_entry_def dict_item_def dict_get_def)

lemma keyed_entries:
  assumes "\<forall>f \<in> set s. sf_name f \<noteq> PNone"
  shows "res_map (\<lambda>d. res_bind (dict_item d ''name'') (\<lambda>n. Inr (n, d))) (map field_entry s)
    = Inr (map (\<lambda>f. (sf_name f, field_entry f)) s)"
  using assms by (induction s) (simp_all add: field_entry_name)

definition name_of :: "pyval \<Rightarrow> string" where
  "name_of v = (case v of PStr s \<Rightarrow> s | _ \<Rightarrow> [])"

lemma sort_keyed:
  assumes "\<forall>f \<in> set s. \<exists>n. sf_name f = PStr n"
  shows "\<exists>zs. py_sort_onto fst [] (map (\<lambda>f. (sf_name f, field_entry f)) s) = Inr zs
    \<and> mset zs = mset (map (\<lambda>f. (sf_name f, field_entry f)) s) \<and> sorted (map (name_of \<circ> fst) zs)"
proof -
  have "fst z = PStr ((name_of \<circ> fst) z)" if "z \<in> set (map (\<lambda>f. (sf_name f, field_entry f)) s)" for z
    using that assms by (auto simp: name_of_def)
  then show ?thesis
    using py_sort_strings [of "[]" "map (\<lambda>f. (sf_name f, field_entry f)) s" fst "name_of \<circ> fst"] by simp
qed

lemma compute_anchor_id_perm:
  assumes p: "mset s = mset s'" and names: "\<forall>f \<in> set s. \<exists>n. sf_name f = PStr n"
    and dist: "distinct (map sf_name s)"
  shows "compute_anchor_id H s = compute_anchor_id H s'"
proof -
  let ?kd = "\<lambda>f. (sf_name f, field_entry f)"
  have names': "\<forall>f \<in> set s'. \<exists>n. sf_name f = PStr n"
    using names mset_eq_setD [OF p] by simp
  obtain zs where zs: "py_sort_onto fst [] (map ?kd s) = Inr zs" "mset zs = mset (map ?kd s)"
    "sorted (map (name_of \<circ> fst) zs)"
    using sort_keyed [OF names] by blast
  obtain zs' where zs': "py_sort_onto fst [] (map ?kd s') = Inr zs'" "mset zs' = mset (map ?kd s')"
    "sorted (map (name_of \<circ> fst) zs')"
    using sort_keyed [OF names'] by blast
  have nm: "sf_name f = PStr (name_of (sf_name f))" if "f \<in> set s" for f
    using that names by (auto simp: name_of_def)
  have "inj_on (name_of \<circ> sf_name) (set s)"
  proof (rule inj_onI)
    fix f g assume fg: "f \<in> set s" "g \<in> set s" "(name_of \<circ> sf_name) f = (name_of \<circ> sf_name) g"
    then have "sf_name f = sf_name g" using nm [OF fg(1)] nm [OF fg(2)] by simp
    then show "f = g" using dist fg by (simp add: distinct_map inj_on_def)
  qed
  then have "distinct (map (name_of \<circ> sf_name) s)"
    using dist by (simp add: distinct_map)
  then have "distinct (map (name_of \<circ> fst) (map ?kd s))"
    by (simp add: comp_def)
  moreover have "mset (map (name_of \<circ> fst) zs) = mset (map (name_of \<circ> fst) (map ?kd s))"
    by (simp only: mset_map [of "name_of \<circ> fst"] zs(2))
  ultimately have "distinct (map (name_of \<circ> fst) zs)"
    using mset_eq_imp_distinct_iff by blast
  moreover have "mset zs = mset zs'" by (simp add: zs(2) zs'(2) p)
  ultimately have "zs = zs'" using sorted_perm_unique zs(3) zs'(3) by blast
  moreover have "\<forall>f \<in> set s. sf_name f \<noteq> PNone" "\<forall>f \<in> set s'. sf_name f \<noteq> PNone"
    using names names' by auto
  ultimately show ?thesis
    by (simp add: compute_anchor_id_def keyed_entries zs(1) zs'(1))
qed

lemma schemas_equal_True:
  "schemas_equal H a b = Inr True \<longleftrightarrow> (\<exists>i. compute_anchor_id H a = Inr i \<and> compute_anchor_id H b = Inr i)"
  by (auto simp: schemas_equal_def res_simps)

lemma schemas_equal_trans:
  "schemas_equal H a b = Inr True \<Longrightarrow> schemas_equal H b c = Inr True \<Longrightarrow> schemas_equal H a c = Inr True"
  by (auto simp: schemas_equal_True)

subsection \<open>The operations\<close>

lemma flt_less_asym: "flt_less a b \<Longrightarrow> \<not> flt_less b a"
  by (cases a; cases b) auto

lemma cache_check_Inr:
  assumes "cache_check H now f c = Inr i"
  shows "anchor_key H f = Inr i"
    "dict_get c i = Some (g, e) \<Longrightarrow> flt_less now e \<Longrightarrow>
       schemas_equal H (anc_schema g) (anc_schema f) = Inr True"
proof -
  obtain j where "anchor_key H f = Inr j" using assms by (auto simp: cache_check_def res_simps)
  with assms show "anchor_key H f = Inr i"
    "dict_get c i = Some (g, e) \<Longrightarrow> flt_less now e \<Longrightarrow>
       schemas_equal H (anc_schema g) (anc_schema f) = Inr True"
    by (auto simp: cache_check_def res_simps split: option.splits if_splits)
qed

lemma cache_set_cases:
  obtains (error) err where "cache_set H n1 n2 f c = (Inl err, c)"
  | (stored) i e where "cache_set H n1 n2 f c = (Inr i, dict_set i (f, e) c)"
      "cache_check H n1 f c = Inr i" "expires_at n2 (anc_ttl f) = Inr e"
  by (cases "cache_check H n1 f c"; cases "expires_at n2 (anc_ttl f)")
    (auto simp: cache_set_def)

lemma dict_get_foldl_pop:
  "dict_get (foldl (\<lambda>d k. dict_pop k d) c ks) i = (if i \<in> set ks then None else dict_get c i)"
  by (induction ks arbitrary: c) auto

lemma distinct_foldl_pop:
  "distinct (map fst c) \<Longrightarrow> distinct (map fst (foldl (\<lambda>d k. dict_pop k d) c ks))"
  by (induction ks arbitrary: c) (auto simp: distinct_dict_pop)

lemma dict_get_evict:
  assumes "distinct (map fst c)"
  shows "dict_get (evict_expired now c) i =
    (case dict_get c i of None \<Rightarrow> None | Some (f, e) \<Rightarrow> if flt_less e now then None else Some (f, e))"
  using dict_get_iff [OF assms, of i]
  by (cases "dict_get c i")
    (force simp: evict_expired_def dict_get_foldl_pop)+

lemma cache_get_simps:
  "fst (cache_get now i c) = (case dict_get c i of None \<Rightarrow> None | Some (f, e) \<Rightarrow>
     if flt_less e now then None else Some f)"
  "dict_get (snd (cache_get now i c)) j =
     (if j = i then (case dict_get c i of None \<Rightarrow> None | Some (f, e) \<Rightarrow>
        if flt_less e now then None else Some (f, e)) else dict_get c j)"
  by (auto simp: cache_get_def split: option.splits)

section \<open>Runs\<close>

datatype cache_op = OpSet anchor_frame | OpGet string | OpInvalidate string | OpLen

definition cache_exec :: "canon_hash \<Rightarrow> pyfloat \<Rightarrow> pyfloat \<Rightarrow> cache_op \<Rightarrow> anchor_cache \<Rightarrow> anchor_cache" where
  "cache_exec H now1 now2 op c =
     (case op of
        OpSet f \<Rightarrow> snd (cache_set H now1 now2 f c)
      | OpGet i \<Rightarrow> snd (cache_get now1 i c)
      | OpInvalidate i \<Rightarrow> invalidate i c
      | OpLen \<Rightarrow> snd (cache_len now1 c))"

fun cache_run :: "canon_hash \<Rightarrow> (pyfloat \<times> pyfloat \<times> cache_op) list \<Rightarrow> anchor_cache \<Rightarrow> anchor_cache" where
  "cache_run H [] c = c"
| "cache_run H ((now1, now2, op) # ops) c = cache_run H ops (cache_exec H now1 now2 op c)"

text \<open>Along the run the entry of \<open>i\<close> is never invalidated and never found expired.\<close>

fun stays_live :: "canon_hash \<Rightarrow> string \<Rightarrow> (pyfloat \<times> pyfloat \<times> cache_op) list \<Rightarrow> anchor_cache \<Rightarrow> bool" where
  "stays_live H i [] c = True"
| "stays_live H i ((now1, now2, op) # ops) c =
     (op \<noteq> OpInvalidate i
      \<and> (case dict_get c i of None \<Rightarrow> False | Some (f, e) \<Rightarrow> flt_less now1 e)
      \<and> stays_live H i ops (cache_exec H now1 now2 op c))"

lemma distinct_cache_exec:
  "distinct (map fst c) \<Longrightarrow> distinct (map fst (cache_exec H n1 n2 op c))"
proof (cases op)
  case (OpSet f)
  assume "distinct (map fst c)"
  with OpSet show ?thesis
    by (cases rule: cache_set_cases [of H n1 n2 f c]) (simp_all add: cache_exec_def distinct_dict_set)
qed (auto simp: cache_exec_def cache_get_def invalidate_def cache_len_def evict_expired_def Let_def
    distinct_dict_pop distinct_foldl_pop split: option.splits)

lemma cache_exec_live:
  assumes d: "distinct (map fst c)" and c: "dict_get c i = Some (f, e)" "flt_less n1 e"
    and op: "op \<noteq> OpInvalidate i"
  shows "\<exists>f' e'. dict_get (cache_exec H n1 n2 op c) i = Some (f', e')
    \<and> (f' = f \<or> schemas_equal H (anc_schema f) (anc_schema f') = Inr True)"
proof (cases op)
  case (OpSet g)
  then show ?thesis
    using c by (cases rule: cache_set_cases [of H n1 n2 g c]) (auto simp: cache_exec_def dest: cache_check_Inr)
qed (use op c flt_less_asym [OF c(2)] in \<open>auto simp: cache_exec_def cache_get_simps invalidate_def
    cache_len_def Let_def dict_get_evict [OF d]\<close>)

section \<open>Properties\<close>

text \<open>
  The result of \<open>set\<close>: on success the frame is stored under the returned id with expiry
  \<open>now + ttl\<close>; \<open>get\<close> returns it at every time that is not after the expiry and drops it
  afterwards, and no other entry changes. On error the cache is unchanged.
\<close>

theorem cache_get_after_set:
  "case cache_set H now1 now2 f c of
     (Inl err, c') \<Rightarrow> c' = c
   | (Inr i, c') \<Rightarrow> (\<exists>e. expires_at now2 (anc_ttl f) = Inr e
       \<and> (\<forall>t. cache_get t i c' = (if flt_less e t then (None, dict_pop i c') else (Some f, c')))
       \<and> (\<forall>j. j = i \<or> dict_get c' j = dict_get c j))"
  by (cases rule: cache_set_cases [of H now1 now2 f c]) (auto simp: cache_get_def)

section \<open>A concrete cache\<close>

definition ex_hash :: canon_hash where
  "ex_hash = \<lparr>dumps_sorted = (\<lambda>v. Inr (case v of PList xs \<Rightarrow> replicate (length xs) (CHR ''f'') | _ \<Rightarrow> [])),
     sha256_hex = (\<lambda>s. s)\<rparr>"

definition ex_field :: "string \<Rightarrow> schema_field" where
  "ex_field n = \<lparr>sf_name = PStr n, sf_type = PStr ''string'', sf_semantic = PNone, sf_nullable = False\<rparr>"

definition ex_anchor :: "string list \<Rightarrow> anchor_frame" where
  "ex_anchor names = \<lparr>anc_anchor_id = PStr ''sha256:a'', anc_schema = map ex_field names, anc_ttl = 60\<rparr>"

lemma ex_anchor_id:
  "compute_anchor_id ex_hash [ex_field n] = Inr ''sha256:f''"
  "compute_anchor_id ex_hash [ex_field m, ex_field n] = Inr ''sha256:ff''"
  by (simp_all add: compute_anchor_id_def ex_hash_def ex_field_def field_entry_def dict_item_def dict_get_def)

lemma ex_expiry: "expires_at (FFin 0) 60 = Inr (FFin 60)"
  by (simp add: expires_at_def float_of_int_def double_def float_eval)

text \<open>
  Anchor poisoning protection over whole runs: while an entry is live and is not
  invalidated, no sequence of cache operations replaces its schema by one with another canonical
  hash; the entry stays present, with the same frame or one whose schema hashes to the same id.
\<close>

theorem cache_no_poisoning:
  assumes "distinct (map fst c)" "dict_get c i = Some (f, e)" "stays_live H i ops c"
  shows "\<exists>f' e'. dict_get (cache_run H ops c) i = Some (f', e')
    \<and> (f' = f \<or> schemas_equal H (anc_schema f) (anc_schema f') = Inr True)"
  using assms
proof (induction H ops c arbitrary: f e rule: cache_run.induct)
  case (2 H now1 now2 op ops c)
  from "2.prems" have live: "flt_less now1 e" "op \<noteq> OpInvalidate i"
    and rest: "stays_live H i ops (cache_exec H now1 now2 op c)" by simp_all
  obtain f1 e1 where 1: "dict_get (cache_exec H now1 now2 op c) i = Some (f1, e1)"
    "f1 = f \<or> schemas_equal H (anc_schema f) (anc_schema f1) = Inr True"
    using cache_exec_live [OF "2.prems"(1,2) live] by blast
  obtain f' e' where "dict_get (cache_run H ops (cache_exec H now1 now2 op c)) i = Some (f', e')"
    "f' = f1 \<or> schemas_equal H (anc_schema f1) (anc_schema f') = Inr True"
    using "2.IH" [OF distinct_cache_exec [OF "2.prems"(1)] 1(1) rest] by blast
  with 1(2) show ?case by (auto dest: schemas_equal_trans)
qed auto

theorem cache_no_poisoning_witness:
  "\<exists>f' e'. dict_get (cache_run ex_hash [(FFin 1, FFin 1, OpSet (ex_anchor [''x'', ''y''])), (FFin 2, FFin 2, OpLen)]
      [(''sha256:a'', ex_anchor [''x''], FFin 60)]) ''sha256:a'' = Some (f', e')
    \<and> (f' = ex_anchor [''x''] \<or> schemas_equal ex_hash (anc_schema (ex_anchor [''x''])) (anc_schema f') = Inr True)"
proof (rule cache_no_poisoning [where e = "FFin 60"])
  have "cache_set ex_hash (FFin 1) (FFin 1) (ex_anchor [''x'', ''y'']) [(''sha256:a'', ex_anchor [''x''], FFin 60)]
      = (Inl (NpsAnchorPoisonError ''sha256:a''), [(''sha256:a'', ex_anchor [''x''], FFin 60)])"
    by (simp add: cache_set_def cache_check_def anchor_key_def ex_anchor_def py_startswith_def
        schemas_equal_def ex_anchor_id dict_get_def)
  then show "stays_live ex_hash ''sha256:a'' [(FFin 1, FFin 1, OpSet (ex_anchor [''x'', ''y''])), (FFin 2, FFin 2, OpLen)]
      [(''sha256:a'', ex_anchor [''x''], FFin 60)]"
    by (simp add: cache_exec_def dict_get_def)
qed (simp_all add: dict_get_def)

text \<open>
  The anchor id does not depend on the order in which a schema lists its fields, as long as
  the field names are distinct strings.
\<close>

theorem anchor_id_order_independent:
  assumes "mset s = mset s'" "\<forall>f \<in> set s. \<exists>n. sf_name f = PStr n" "distinct (map sf_name s)"
  shows "compute_anchor_id H s = compute_anchor_id H s'"
  using assms by (rule compute_anchor_id_perm)

theorem anchor_id_order_independent_witness:
  "compute_anchor_id ex_hash [ex_field ''b'', ex_field ''a''] = compute_anchor_id ex_hash [ex_field ''a'', ex_field ''b'']"
  by (rule anchor_id_order_independent) (simp_all add: ex_field_def)

text \<open>
  \<open>set\<close> does not check an id that starts with \<open>sha256:\<close>: the frame is stored and announced
  under the id it claims, although the canonical id of its schema is another one.
\<close>

theorem cache_set_trusts_prefix:
  assumes "anc_anchor_id f = PStr i" "py_startswith i ''sha256:''" "dict_get c i = None"
    and "expires_at now2 (anc_ttl f) = Inr e" "compute_anchor_id H (anc_schema f) = Inr j" "j \<noteq> i"
  shows "cache_set H now1 now2 f c = (Inr i, dict_set i (f, e) c)"
  using assms by (simp add: cache_set_def cache_check_def anchor_key_def)

theorem cache_set_trusts_prefix_witness:
  "cache_set ex_hash (FFin 0) (FFin 0) (ex_anchor [''x'']) []
     = (Inr ''sha256:a'', [(''sha256:a'', ex_anchor [''x''], FFin 60)])"
  using cache_set_trusts_prefix [of "ex_anchor [''x'']" "''sha256:a''" "[]" "FFin 0" "FFin 60" ex_hash "''sha256:f''" "FFin 0"]
    ex_anchor_id ex_expiry
  by (simp add: ex_anchor_def py_startswith_def dict_set_def)

end
