(* ===== verification/Election.thy ===== *)
theory Election
  imports Prelude
begin

text \<open>
  Highest-epoch election, the contract that \<open>ndp/cluster.py\<close>, \<open>ndp/registry_profile.py\<close> and
  \<open>ndp/recovery_policy.py\<close> each implement: among the live members of a cluster the one with the
  highest epoch leads, and a tie at the top is a split that nobody may resolve arbitrarily.
\<close>

datatype 'm outcome = NoLeader | Leader 'm | Split

definition top_epoch :: "('m \<Rightarrow> int) \<Rightarrow> 'm list \<Rightarrow> int" where
  "top_epoch epoch xs = Max (set (map epoch xs))"

definition leaders :: "('m \<Rightarrow> int) \<Rightarrow> 'm list \<Rightarrow> 'm list" where
  "leaders epoch xs = filter (\<lambda>x. epoch x = top_epoch epoch xs) xs"

lemma top_epoch_ge: "x \<in> set xs \<Longrightarrow> epoch x \<le> top_epoch epoch xs"
  by (simp add: top_epoch_def)

lemma top_epoch_mem: "xs \<noteq> [] \<Longrightarrow> \<exists>x \<in> set xs. epoch x = top_epoch epoch xs"
proof -
  assume "xs \<noteq> []"
  then have "Max (set (map epoch xs)) \<in> set (map epoch xs)" by (intro Max_in) simp_all
  then show ?thesis by (auto simp: top_epoch_def)
qed

lemma leaders_nonempty: "xs \<noteq> [] \<Longrightarrow> leaders epoch xs \<noteq> []"
  using top_epoch_mem [of xs epoch] by (auto simp: leaders_def filter_empty_conv)

lemma top_epoch_eqI: "x \<in> set xs \<Longrightarrow> \<forall>y \<in> set xs. epoch y \<le> epoch x \<Longrightarrow> top_epoch epoch xs = epoch x"
  unfolding top_epoch_def by (rule Max_eqI) auto

text \<open>
  A list whose only element with the highest epoch is \<open>x\<close>: the form in which the leader law is
  used below.
\<close>

lemma leaders_single:
  "leaders epoch xs = [x] \<longleftrightarrow>
     (\<exists>as bs. xs = as @ x # bs \<and> (\<forall>y \<in> set as \<union> set bs. epoch y < epoch x))"
proof
  assume l: "leaders epoch xs = [x]"
  have "x \<in> set (leaders epoch xs)" by (simp add: l)
  then have x: "epoch x = top_epoch epoch xs" by (simp add: leaders_def)
  from l obtain as bs where s: "xs = as @ x # bs" "\<forall>y \<in> set as \<union> set bs. epoch y \<noteq> top_epoch epoch xs"
    unfolding leaders_def filter_eq_Cons_iff by (metis (mono_tags, lifting) Un_iff filter_empty_conv)
  have "\<forall>y \<in> set as \<union> set bs. epoch y < epoch x"
  proof
    fix y assume y: "y \<in> set as \<union> set bs"
    then have "y \<in> set xs" using s(1) by auto
    then show "epoch y < epoch x" using s(2) y top_epoch_ge [of y xs epoch] by (simp add: x less_le)
  qed
  with s(1) show "\<exists>as bs. xs = as @ x # bs \<and> (\<forall>y \<in> set as \<union> set bs. epoch y < epoch x)" by blast
next
  assume "\<exists>as bs. xs = as @ x # bs \<and> (\<forall>y \<in> set as \<union> set bs. epoch y < epoch x)"
  then obtain as bs where s: "xs = as @ x # bs" "\<forall>y \<in> set as \<union> set bs. epoch y < epoch x" by blast
  then have t: "top_epoch epoch xs = epoch x" by (intro top_epoch_eqI) (auto intro: less_imp_le)
  have "filter (\<lambda>y. epoch y = epoch x) as = []" "filter (\<lambda>y. epoch y = epoch x) bs = []"
    using s(2) unfolding filter_empty_conv by (metis UnI1 less_irrefl, metis UnI2 less_irrefl)
  then show "leaders epoch xs = [x]" unfolding leaders_def t by (simp add: s(1))
qed

lemma two_leaders:
  assumes "leaders epoch xs = x # y # zs"
  shows "\<exists>i j. i < j \<and> j < length xs \<and> epoch (xs ! i) = top_epoch epoch xs \<and> epoch (xs ! j) = top_epoch epoch xs"
proof -
  define T where "T = top_epoch epoch xs"
  have "filter (\<lambda>x. epoch x = T) xs = x # y # zs" using assms by (simp add: leaders_def T_def)
  from iffD1 [OF filter_eq_Cons_iff this]
  obtain us vs where u: "xs = us @ x # vs" "epoch x = T" and v: "filter (\<lambda>x. epoch x = T) vs = y # zs"
    by auto
  have "y \<in> set (filter (\<lambda>x. epoch x = T) vs)" by (simp add: v)
  then obtain k where k: "k < length vs" "vs ! k = y" "epoch y = T"
    by (auto simp: in_set_conv_nth)
  have "xs ! length us = x" "xs ! (Suc (length us + k)) = y"
    using k by (simp_all add: u(1) nth_append)
  moreover have "Suc (length us + k) < length xs" using k by (simp add: u(1))
  ultimately show ?thesis
    using u(2) k(3) by (intro exI [of _ "length us"] exI [of _ "Suc (length us + k)"]) (simp add: T_def)
qed

locale election =
  fixes epoch :: "'m \<Rightarrow> int" and pick :: "'m list \<Rightarrow> 'm outcome"
  assumes pick_none: "pick xs = NoLeader \<longleftrightarrow> xs = []"
    and pick_leader: "pick xs = Leader x \<longleftrightarrow> leaders epoch xs = [x]"
begin

lemma leader_is_highest:
  assumes "pick xs = Leader x"
  shows "x \<in> set xs" "y \<in> set xs \<Longrightarrow> y = x \<or> epoch y < epoch x"
  using assms by (auto simp: pick_leader leaders_single)

lemma higher_epoch_takes_over:
  assumes "\<forall>y \<in> set as \<union> set bs. epoch y < epoch z"
  shows "pick (as @ z # bs) = Leader z"
  using assms unfolding pick_leader leaders_single by blast

lemma lower_epoch_is_ignored:
  assumes "pick (as @ bs) = Leader x" "epoch y < epoch x"
  shows "pick (as @ y # bs) = Leader x"
proof -
  obtain cs ds where s: "as @ bs = cs @ x # ds" "\<forall>z \<in> set cs \<union> set ds. epoch z < epoch x"
    using assms(1) by (auto simp: pick_leader leaders_single)
  from s(1) consider us where "as = cs @ x # us" "ds = us @ bs"
    | us where "bs = us @ x # ds" "cs = as @ us"
    by (auto simp: append_eq_append_conv2 append_eq_Cons_conv Cons_eq_append_conv)
  then show ?thesis
  proof cases
    case (1 us)
    then have "as @ y # bs = cs @ x # (us @ y # bs)" by simp
    moreover have "\<forall>z \<in> set cs \<union> set (us @ y # bs). epoch z < epoch x" using s(2) 1 assms(2) by auto
    ultimately show ?thesis unfolding pick_leader leaders_single by blast
  next
    case (2 us)
    then have "as @ y # bs = (as @ y # us) @ x # ds" by simp
    moreover have "\<forall>z \<in> set (as @ y # us) \<union> set ds. epoch z < epoch x" using s(2) 2 assms(2) by auto
    ultimately show ?thesis unfolding pick_leader leaders_single by blast
  qed
qed

lemma tie_is_split:
  assumes "i < length xs" "j < length xs" "i \<noteq> j" "epoch (xs ! i) = epoch (xs ! j)"
    "\<forall>y \<in> set xs. epoch y \<le> epoch (xs ! i)"
  shows "pick xs = Split"
proof -
  have "pick xs \<noteq> Leader x" for x
  proof
    assume "pick xs = Leader x"
    then obtain as bs where s: "xs = as @ x # bs" "\<forall>y \<in> set as \<union> set bs. epoch y < epoch x"
      by (auto simp: pick_leader leaders_single)
    have other: "epoch (xs ! k) < epoch x" if "k < length xs" "k \<noteq> length as" for k
      using that s by (auto simp: nth_append nth_Cons' not_less_iff_gr_or_eq)
    have "epoch x \<le> epoch (xs ! i)" using assms(5) s(1) by simp
    then show False using other assms(1-4) by (metis less_le_not_le)
  qed
  moreover have "pick xs \<noteq> NoLeader" using assms(1) by (auto simp: pick_none)
  ultimately show ?thesis by (cases "pick xs") auto
qed

end

end
