(* ===== verification/NdpRegistry.thy ===== *)
theory NdpRegistry
  imports NdpFrames AnchorCache Election
begin

text \<open>
  The in-memory discovery registry (\<open>nps_sdk/ndp/registry.py\<close>), cluster resolution
  (\<open>ndp/cluster.py\<close>), DNS TXT discovery (\<open>ndp/dns_txt.py\<close>) and federation forwarding
  (\<open>ndp/federation.py\<close>). The registry's lock makes each operation one step; the clock is an
  argument. The DNS resolver is an argument of \<open>resolve_via_dns\<close>.
\<close>

section \<open>Cluster resolution\<close>

definition effective_cluster_epoch :: "announce_frame \<Rightarrow> int" where
  "effective_cluster_epoch f = (case an_cluster_epoch f of None \<Rightarrow> 1 | Some e \<Rightarrow> e)"

definition select_leader :: "string \<Rightarrow> announce_frame list \<Rightarrow> announce_frame option res" where
  "select_leader cluster_anchor matching =
     (if matching = [] then Inr None
      else let top = Max (set (map effective_cluster_epoch matching));
               leads = filter (\<lambda>f. effective_cluster_epoch f = top) matching
           in if length leads > 1 then Inl (NdpClusterSplitError cluster_anchor top)
              else Inr (Some (hd leads)))"

definition resolve_cluster_from :: "announce_frame list \<Rightarrow> string \<Rightarrow> announce_frame option res" where
  "resolve_cluster_from members cluster_anchor =
     (if cluster_anchor = [] then Inl ValueError
      else select_leader cluster_anchor
             (filter (\<lambda>f. py_eq (an_cluster_anchor f) (PStr cluster_anchor)) members))"

section \<open>The registry\<close>

type_synonym ndp_store = "(pyval \<times> announce_frame \<times> pyfloat) list"

definition ndp_announce :: "pyfloat \<Rightarrow> announce_frame \<Rightarrow> ndp_store \<Rightarrow> unit res \<times> ndp_store" where
  "ndp_announce now f s =
     (if an_ttl f = 0 then
        (if py_hashable (an_nid f) then (Inr (), pd_pop (an_nid f) s) else (Inl TypeError, s))
      else
        (case expires_at now (an_ttl f) of
           Inl err \<Rightarrow> (Inl err, s)
         | Inr expiry \<Rightarrow>
             if py_hashable (an_nid f) then (Inr (), pd_set (an_nid f) (f, expiry) s)
             else (Inl TypeError, s)))"

text \<open>\<open>nid.split(":", 4)\<close> and the prefix test.\<close>

definition target_matches :: "string \<Rightarrow> string \<Rightarrow> bool" where
  "target_matches nid target =
     (case split_max (CHR '':'') 4 nid of
        [p0, p1, p2, nid_authority, p4] \<Rightarrow>
          p0 = ''urn'' \<and> p1 = ''nps'' \<and> py_startswith target ''nwp://''
          \<and> (let nid_path_prefix = py_replace_char (CHR '':'') ''/'' p4;
                 rest = drop (length ''nwp://'') target;
                 (target_authority, target_path) =
                   (if CHR ''/'' \<in> set rest
                    then (case split_max (CHR ''/'') 1 rest of [a, p] \<Rightarrow> (a, p) | _ \<Rightarrow> (rest, []))
                    else (rest, []))
             in target_authority = nid_authority
                \<and> (target_path = nid_path_prefix
                   \<or> py_startswith target_path (nid_path_prefix @ ''/'')))
      | _ \<Rightarrow> False)"

definition nwp_target_matches_nid :: "pyval \<Rightarrow> string \<Rightarrow> bool res" where
  "nwp_target_matches_nid nid target = res_bind (as_str nid) (\<lambda>n. Inr (target_matches n target))"

text \<open>The first https address, else the first address.\<close>

definition pick_address :: "ndp_address list \<Rightarrow> ndp_address option" where
  "pick_address as =
     (case find (\<lambda>a. py_eq (adr_protocol a) (PStr ''https'')) as of
        Some a \<Rightarrow> Some a
      | None \<Rightarrow> (case as of [] \<Rightarrow> None | a # _ \<Rightarrow> Some a))"

text \<open>\<open>max(0, int(expiry - now))\<close>\<close>

definition remaining_ttl :: "pyfloat \<Rightarrow> pyfloat \<Rightarrow> int res" where
  "remaining_ttl expiry now =
     res_bind (py_int (PFloat (case (expiry, now) of
         (FFin a, FFin b) \<Rightarrow> double (a - b) | (FInf s, FFin _) \<Rightarrow> FInf s | _ \<Rightarrow> FNaN))) (\<lambda>i.
       Inr (max 0 i))"

fun resolve_in :: "pyfloat \<Rightarrow> string \<Rightarrow> ndp_store \<Rightarrow> resolve_result option res" where
  "resolve_in now target [] = Inr None"
| "resolve_in now target ((k, f, expiry) # s) =
     (if flt_le expiry now then resolve_in now target s
      else res_bind (nwp_target_matches_nid (an_nid f) target) (\<lambda>m.
        if m then
          (case pick_address (an_addresses f) of
             None \<Rightarrow> resolve_in now target s
           | Some a \<Rightarrow>
               res_bind (remaining_ttl expiry now) (\<lambda>ttl.
                 Inr (Some \<lparr>rr_host = adr_host a, rr_port = adr_port a, rr_ttl = ttl,
                            rr_cert_fingerprint = PNone\<rparr>)))
        else resolve_in now target s))"

definition ndp_resolve :: "pyfloat \<Rightarrow> string \<Rightarrow> ndp_store \<Rightarrow> resolve_result option res" where
  "ndp_resolve now target s = resolve_in now target s"

definition ndp_get_all :: "pyfloat \<Rightarrow> ndp_store \<Rightarrow> announce_frame list" where
  "ndp_get_all now s = map (\<lambda>(k, f, e). f) (filter (\<lambda>(k, f, e). flt_less now e) s)"

definition ndp_get_by_nid :: "pyfloat \<Rightarrow> string \<Rightarrow> ndp_store \<Rightarrow> announce_frame option" where
  "ndp_get_by_nid now nid s =
     (case pd_get s (PStr nid) of
        None \<Rightarrow> None
      | Some (f, expiry) \<Rightarrow> if flt_less now expiry then Some f else None)"

definition resolve_cluster :: "pyfloat \<Rightarrow> string \<Rightarrow> ndp_store \<Rightarrow> announce_frame option res" where
  "resolve_cluster now cluster_anchor s = resolve_cluster_from (ndp_get_all now s) cluster_anchor"

section \<open>DNS TXT discovery\<close>

definition extract_host_from_target :: "string \<Rightarrow> string option" where
  "extract_host_from_target target =
     (if \<not> py_startswith target ''nwp://'' then None
      else let rest = drop (length ''nwp://'') target;
               host = hd (split_on (CHR '':'') (hd (split_max (CHR ''/'') 1 rest)))
           in if host = [] then None else Some host)"

fun txt_pairs :: "string list \<Rightarrow> string dict \<Rightarrow> string dict" where
  "txt_pairs [] d = d"
| "txt_pairs (token # tokens) d =
     txt_pairs tokens
       (if CHR ''='' \<in> set token
        then dict_set (py_strip (takeWhile (\<lambda>c. c \<noteq> CHR ''='') token))
               (py_strip (drop 1 (dropWhile (\<lambda>c. c \<noteq> CHR ''='') token))) d
        else d)"

definition parse_nps_txt_record :: "string \<Rightarrow> string \<Rightarrow> resolve_result option" where
  "parse_nps_txt_record txt host =
     (let pairs = txt_pairs (py_split_ws txt) [];
          get = (\<lambda>k. case dict_get pairs k of None \<Rightarrow> [] | Some v \<Rightarrow> v);
          raw_port = py_strip (get ''port'')
      in if dict_get pairs ''v'' \<noteq> Some ''nps1'' then None
         else if py_strip (get ''nid'') = [] then None
         else case (if raw_port = [] then Inr 17433 else py_int_of_str raw_port) of
                Inl _ \<Rightarrow> None
              | Inr port \<Rightarrow>
                  Some \<lparr>rr_host = PStr host, rr_port = port, rr_ttl = 300,
                        rr_cert_fingerprint = (if get ''fp'' = [] then PNone else PStr (get ''fp''))\<rparr>)"

fun first_record :: "string list list \<Rightarrow> string \<Rightarrow> resolve_result option" where
  "first_record [] host = None"
| "first_record (r # rs) host =
     (case parse_nps_txt_record (join_with '' '' r) host of
        Some x \<Rightarrow> Some x | None \<Rightarrow> first_record rs host)"

text \<open>\<open>lookup\<close> is the injected DNS client; every exception it raises gives \<open>None\<close>.\<close>

definition resolve_via_dns ::
  "(string \<Rightarrow> string list list res) \<Rightarrow> pyfloat \<Rightarrow> string \<Rightarrow> ndp_store \<Rightarrow> resolve_result option res" where
  "resolve_via_dns lookup now target s =
     res_bind (ndp_resolve now target s) (\<lambda>cached.
       case cached of
         Some r \<Rightarrow> Inr (Some r)
       | None \<Rightarrow>
           (case extract_host_from_target target of
              None \<Rightarrow> Inr None
            | Some host \<Rightarrow>
                (case lookup (''_nps-node.'' @ host) of
                   Inl _ \<Rightarrow> Inr None
                 | Inr records \<Rightarrow> Inr (first_record records host))))"

section \<open>Federation\<close>

definition MAX_FEDERATION_HOPS :: nat where "MAX_FEDERATION_HOPS = 3"

definition parse_forwarded_by :: "string option \<Rightarrow> string list" where
  "parse_forwarded_by header =
     (case header of
        None \<Rightarrow> []
      | Some h \<Rightarrow> if h = [] then [] else filter (\<lambda>p. p \<noteq> []) (map py_strip (split_on (CHR '','') h)))"

definition append_forwarded_by :: "string \<Rightarrow> string option \<Rightarrow> string option res" where
  "append_forwarded_by own_nid header =
     (let hops = parse_forwarded_by header in
      if own_nid \<in> set hops then Inl NdpFederationLoopError
      else if length hops \<ge> MAX_FEDERATION_HOPS then Inr None
      else Inr (Some (join_with '', '' (hops @ [own_nid]))))"

section \<open>Lemmas\<close>

subsection \<open>Election\<close>

definition leader_outcome :: "announce_frame option res \<Rightarrow> announce_frame outcome" where
  "leader_outcome r = (case r of Inl _ \<Rightarrow> Split | Inr None \<Rightarrow> NoLeader | Inr (Some f) \<Rightarrow> Leader f)"

lemma select_leader_eq:
  "select_leader ca xs =
     (if xs = [] then Inr None
      else case leaders effective_cluster_epoch xs of
        [x] \<Rightarrow> Inr (Some x) | _ \<Rightarrow> Inl (NdpClusterSplitError ca (top_epoch effective_cluster_epoch xs)))"
proof (cases "xs = []")
  case False
  then have "leaders effective_cluster_epoch xs \<noteq> []" by (rule leaders_nonempty)
  then show ?thesis
    by (auto simp: select_leader_def Let_def leaders_def top_epoch_def split: list.splits)
qed (simp add: select_leader_def)

interpretation cluster: election effective_cluster_epoch "\<lambda>xs. leader_outcome (select_leader ca xs)"
proof
  show "(leader_outcome (select_leader ca xs) = NoLeader) = (xs = [])" for xs
    by (auto simp: select_leader_eq leader_outcome_def split: list.splits)
  show "(leader_outcome (select_leader ca xs) = Leader x) = (leaders effective_cluster_epoch xs = [x])" for xs x
    by (auto simp: select_leader_eq leader_outcome_def leaders_def split: list.splits)
qed

subsection \<open>Keys that are strings\<close>

lemma pd_get_set_str [simp]:
  "pd_get (pd_set (PStr k) v d) (PStr k') = (if k = k' then Some v else pd_get d (PStr k'))"
  by (induction d) auto

lemma pd_get_None: "PStr k \<notin> fst ` set d \<Longrightarrow> pd_get d (PStr k) = None"
  by (induction d) auto

lemma pd_get_pop_str:
  "distinct (map fst d) \<Longrightarrow>
     pd_get (pd_pop (PStr k) d) (PStr k') = (if k = k' then None else pd_get d (PStr k'))"
  by (induction d) (auto simp: pd_get_None)

lemma pd_set_split:
  "\<exists>as bs. pd_set (PStr k) v d = as @ (PStr k, v) # bs \<and> set as \<union> set bs \<subseteq> set d"
proof (induction d)
  case (Cons kw d)
  obtain k' w where kw: "kw = (k', w)" by (cases kw)
  show ?case
  proof (cases "k' = PStr k")
    case True
    then show ?thesis by (intro exI [of _ "[]"] exI [of _ d]) (auto simp: kw)
  next
    case False
    obtain as bs where "pd_set (PStr k) v d = as @ (PStr k, v) # bs" "set as \<union> set bs \<subseteq> set d"
      using Cons.IH by blast
    then show ?thesis using False by (intro exI [of _ "kw # as"] exI [of _ bs]) (auto simp: kw)
  qed
qed simp

lemma pd_set_keys: "set (map fst (pd_set (PStr k) v d)) = insert (PStr k) (set (map fst d))"
proof (induction d)
  case (Cons kw d)
  then show ?case by (cases kw; cases "fst kw = PStr k") auto
qed simp

lemma pd_set_distinct: "distinct (map fst d) \<Longrightarrow> distinct (map fst (pd_set (PStr k) v d))"
proof (induction d)
  case (Cons kw d)
  then show ?case
    using pd_set_keys [of k v d] by (cases kw; cases "fst kw = PStr k") auto
qed simp

lemma pd_pop_subset: "set (pd_pop k d) \<subseteq> set d"
  by (induction d) (auto split: if_splits)

lemma pd_pop_distinct: "distinct (map fst d) \<Longrightarrow> distinct (map fst (pd_pop k d))"
proof (induction d)
  case (Cons kw d)
  have "fst ` set (pd_pop k d) \<subseteq> fst ` set d" using pd_pop_subset by blast
  with Cons show ?case by (cases kw) auto
qed simp

text \<open>The store as announcements with string ids leave it.\<close>

fun entry_ok :: "pyval \<times> announce_frame \<times> pyfloat \<Rightarrow> bool" where
  "entry_ok (k, f, e) = (k = an_nid f \<and> (case k of PStr n \<Rightarrow> True | _ \<Rightarrow> False))"

definition store_ok :: "ndp_store \<Rightarrow> bool" where
  "store_ok s \<longleftrightarrow> distinct (map fst s) \<and> (\<forall>x \<in> set s. entry_ok x)"

lemma store_ok_announce:
  assumes "store_ok s" "an_nid f = PStr n"
  shows "store_ok (snd (ndp_announce now f s))"
proof -
  have "store_ok (pd_pop (PStr n) s)"
    using assms(1) pd_pop_subset [of "PStr n" s] pd_pop_distinct unfolding store_ok_def by blast
  moreover have "store_ok (pd_set (PStr n) (f, e) s)" for e
  proof -
    obtain as bs where "pd_set (PStr n) (f, e) s = as @ (PStr n, f, e) # bs" "set as \<union> set bs \<subseteq> set s"
      using pd_set_split [of n "(f, e)" s] by blast
    then have sub: "set (pd_set (PStr n) (f, e) s) \<subseteq> insert (PStr n, f, e) (set s)" by auto
    have "entry_ok x" if x: "x \<in> set (pd_set (PStr n) (f, e) s)" for x
    proof -
      have "x = (PStr n, f, e) \<or> x \<in> set s" using subsetD [OF sub x] by simp
      then show ?thesis
      proof
        assume "x = (PStr n, f, e)"
        then show ?thesis using assms(2) by simp
      next
        assume "x \<in> set s"
        then show ?thesis using assms(1) unfolding store_ok_def by simp
      qed
    qed
    then show ?thesis
      using assms(1) pd_set_distinct [of s n "(f, e)"] by (simp add: store_ok_def)
  qed
  ultimately show ?thesis
    using assms by (auto simp: ndp_announce_def py_hashable_def split: sum.splits)
qed

subsection \<open>Resolving\<close>

lemma pick_address_None: "pick_address as = None \<longleftrightarrow> as = []"
  by (auto simp: pick_address_def split: option.splits list.splits)

lemma pick_address_Some:
  assumes "pick_address as = Some a"
  shows "a \<in> set as" "b \<in> set as \<Longrightarrow> adr_protocol b = PStr ''https'' \<Longrightarrow> adr_protocol a = PStr ''https''"
proof -
  show "a \<in> set as"
    using assms by (auto simp: pick_address_def find_Some_iff split: option.splits list.splits)
  assume b: "b \<in> set as" "adr_protocol b = PStr ''https''"
  then have "find (\<lambda>a. py_eq (adr_protocol a) (PStr ''https'')) as \<noteq> None"
    unfolding find_None_iff by simp blast
  then obtain c where "find (\<lambda>a. py_eq (adr_protocol a) (PStr ''https'')) as = Some c" by blast
  moreover from this have "adr_protocol c = PStr ''https''" by (auto simp: find_Some_iff)
  ultimately show "adr_protocol a = PStr ''https''"
    using assms by (simp add: pick_address_def)
qed

lemma find_split:
  "find P xs = Some x \<Longrightarrow> \<exists>as bs. xs = as @ x # bs \<and> (\<forall>y \<in> set as. \<not> P y) \<and> P x"
proof (induction xs)
  case (Cons y ys)
  show ?case
  proof (cases "P y")
    case True
    with Cons.prems show ?thesis by (intro exI [of _ "[]"] exI [of _ ys]) simp
  next
    case False
    with Cons obtain as bs where "ys = as @ x # bs" "\<forall>y \<in> set as. \<not> P y" "P x" by auto
    with False show ?thesis by (intro exI [of _ "y # as"] exI [of _ bs]) simp
  qed
qed simp

text \<open>The entries that can answer a target: live, with an id that covers it and an address.\<close>

definition covers :: "pyfloat \<Rightarrow> string \<Rightarrow> pyval \<times> announce_frame \<times> pyfloat \<Rightarrow> bool" where
  "covers now target x = (case x of (k, f, e) \<Rightarrow>
     \<not> flt_le e now \<and> (case an_nid f of PStr n \<Rightarrow> target_matches n target | _ \<Rightarrow> False)
     \<and> an_addresses f \<noteq> [])"

definition answer :: "pyfloat \<Rightarrow> pyval \<times> announce_frame \<times> pyfloat \<Rightarrow> resolve_result option res" where
  "answer now x = (case x of (k, f, e) \<Rightarrow>
     case pick_address (an_addresses f) of None \<Rightarrow> Inr None
     | Some a \<Rightarrow> res_bind (remaining_ttl e now) (\<lambda>ttl.
         Inr (Some \<lparr>rr_host = adr_host a, rr_port = adr_port a, rr_ttl = ttl, rr_cert_fingerprint = PNone\<rparr>)))"

lemma resolve_in_find:
  "\<forall>x \<in> set s. entry_ok x \<Longrightarrow>
     resolve_in now target s = (case find (covers now target) s of None \<Rightarrow> Inr None | Some x \<Rightarrow> answer now x)"
proof (induction s)
  case (Cons x s)
  obtain k f e where x: "x = (k, f, e)" by (cases x)
  obtain n where n: "an_nid f = PStr n"
    using Cons.prems by (auto simp: x split: pyval.splits)
  show ?case
    using Cons n
    by (auto simp: x covers_def answer_def nwp_target_matches_nid_def pick_address_None [symmetric]
        split: option.splits)
qed simp

lemma remaining_ttl_nonneg: "remaining_ttl e now = Inr t \<Longrightarrow> 0 \<le> t"
  by (auto simp: remaining_ttl_def res_simps)

subsection \<open>Matching a target\<close>

lemma split_max_append [simp]: "c \<notin> set x \<Longrightarrow> split_max c (Suc n) (x @ c # s) = x # split_max c n s"
proof -
  assume c: "c \<notin> set x"
  then have "takeWhile (\<lambda>y. y \<noteq> c) (x @ c # s) = x" "dropWhile (\<lambda>y. y \<noteq> c) (x @ c # s) = c # s"
    by (induction x) auto
  then show ?thesis by simp
qed

lemma replace_colon: "py_replace_char (CHR '':'') ''/'' s = map (\<lambda>c. if c = CHR '':'' then CHR ''/'' else c) s"
  by (induction s) (auto simp: py_replace_char_def)

lemma py_startswith_append [simp]: "py_startswith (p @ s) p" "py_startswith s p \<longleftrightarrow> prefix p s"
proof -
  show "py_startswith s p \<longleftrightarrow> prefix p s" for s p :: string
    by (auto simp: py_startswith_def prefix_def) (metis append_take_drop_id)
  then show "py_startswith (p @ s) p" by simp
qed

lemma target_split:
  assumes "CHR ''/'' \<notin> set auth"
  shows "split_max (CHR ''/'') 1 (auth @ CHR ''/'' # path) = [auth, path]"
  using split_max_append [OF assms, of 0 path] by (simp del: split_max_append)

lemma nid_split:
  assumes "CHR '':'' \<notin> set kind" "CHR '':'' \<notin> set auth"
  shows "split_max (CHR '':'') 4 (''urn:nps:'' @ kind @ CHR '':'' # auth @ CHR '':'' # seg)
    = [''urn'', ''nps'', kind, auth, seg]"
proof -
  have "''urn:nps:'' @ x = ''urn'' @ CHR '':'' # ''nps'' @ CHR '':'' # x" for x by simp
  moreover have "(4 :: nat) = Suc (Suc (Suc (Suc 0)))" by simp
  moreover have "split_max (CHR '':'') (Suc (Suc (Suc (Suc 0))))
      (''urn'' @ CHR '':'' # ''nps'' @ CHR '':'' # kind @ CHR '':'' # auth @ CHR '':'' # seg)
    = [''urn'', ''nps'', kind, auth, seg]"
    using split_max_append [of "CHR '':''" "''urn''" "Suc (Suc (Suc 0))"]
      split_max_append [of "CHR '':''" "''nps''" "Suc (Suc 0)"]
      split_max_append [OF assms(1), of "Suc 0"] split_max_append [OF assms(2), of 0]
    by (simp only: list.set char.inject) simp
  ultimately show ?thesis by (simp only:)
qed

subsection \<open>Federation\<close>

definition clean_hop :: "string \<Rightarrow> bool" where
  "clean_hop h \<longleftrightarrow> h \<noteq> [] \<and> CHR '','' \<notin> set h \<and> py_strip h = h"

lemma strip_set: "set (py_strip s) \<subseteq> set s"
  by (auto simp: py_strip_def dest!: set_dropWhileD)

lemma dropWhile_hd: "dropWhile P xs \<noteq> [] \<Longrightarrow> \<not> P (hd (dropWhile P xs))"
  by (rule hd_dropWhile)

lemma strip_ends:
  assumes "py_strip s \<noteq> []"
  shows "\<not> py_isspace (hd (py_strip s)) \<and> \<not> py_isspace (last (py_strip s))"
proof -
  define u where "u = dropWhile py_isspace s"
  have st: "py_strip s = rev (dropWhile py_isspace (rev u))" by (simp add: py_strip_def u_def)
  obtain v where v: "rev u = v @ dropWhile py_isspace (rev u)"
    by (metis takeWhile_dropWhile_id)
  then have "u = rev (dropWhile py_isspace (rev u)) @ rev v" by (metis rev_append rev_rev_ident)
  then have "hd u = hd (py_strip s)" "u \<noteq> []" using assms st by (metis hd_append2, metis append_is_Nil_conv)
  moreover have "last (py_strip s) = hd (dropWhile py_isspace (rev u))" using assms st by (simp add: last_rev)
  ultimately show ?thesis
    using assms st dropWhile_hd [of py_isspace s] dropWhile_hd [of py_isspace "rev u"] u_def by auto
qed

lemma strip_strip [simp]: "py_strip (py_strip s) = py_strip s"
  using strip_ends [of s] py_strip_id [of "py_strip s"] by blast

lemma strip_space [simp]: "py_strip (CHR '' '' # s) = py_strip s"
  by (simp add: py_strip_def py_isspace_def)

lemma parse_hops_clean: "h \<in> set (parse_forwarded_by header) \<Longrightarrow> clean_hop h"
proof -
  assume "h \<in> set (parse_forwarded_by header)"
  then obtain x y where "h = py_strip y" "y \<in> set (split_on (CHR '','') x)" "h \<noteq> []"
    by (auto simp: parse_forwarded_by_def split: option.splits if_splits)
  then show "clean_hop h"
    using split_on_pieces [of y "CHR '',''" x] strip_set [of y] by (auto simp: clean_hop_def)
qed

lemma join_comma:
  "hs \<noteq> [] \<Longrightarrow> join_with '', '' hs = join_with '','' (hd hs # map (\<lambda>h. CHR '' '' # h) (tl hs))"
proof (induction "'', ''" hs rule: join_with.induct)
  case (3 x y ys)
  have "join_with '','' ((CHR '' '' # y) # zs) = CHR '' '' # join_with '','' (y # zs)" for zs
    by (cases zs) simp_all
  with 3 show ?case by simp
qed simp_all

lemma parse_joined:
  assumes "hs \<noteq> []" "\<forall>h \<in> set hs. clean_hop h"
  shows "parse_forwarded_by (Some (join_with '', '' hs)) = hs"
proof -
  obtain h t where hs: "hs = h # t" using assms(1) by (cases hs) auto
  have "split_on (CHR '','') (join_with '','' (h # map (\<lambda>h. CHR '' '' # h) t)) = h # map (\<lambda>h. CHR '' '' # h) t"
    by (rule split_on_join) (use assms hs in \<open>auto simp: clean_hop_def\<close>)
  then have s: "split_on (CHR '','') (join_with '', '' hs) = h # map (\<lambda>h. CHR '' '' # h) t"
    using join_comma [OF assms(1)] by (simp add: hs)
  have "join_with '', '' hs \<noteq> []"
    using assms hs by (cases t) (auto simp: clean_hop_def)
  moreover have "map py_strip (h # map (\<lambda>h. CHR '' '' # h) t) = hs"
    using assms hs by (auto simp: clean_hop_def intro: map_idI)
  moreover have "filter (\<lambda>p. p \<noteq> []) hs = hs"
    using assms by (simp add: clean_hop_def filter_id_conv)
  ultimately show ?thesis using s by (simp add: parse_forwarded_by_def)
qed

subsection \<open>Clusters\<close>

definition cluster_members :: "pyfloat \<Rightarrow> string \<Rightarrow> ndp_store \<Rightarrow> announce_frame list" where
  "cluster_members now ca s = filter (\<lambda>f. an_cluster_anchor f = PStr ca) (ndp_get_all now s)"

lemma resolve_cluster_members:
  "ca \<noteq> [] \<Longrightarrow> resolve_cluster now ca s = select_leader ca (cluster_members now ca s)"
  by (simp add: resolve_cluster_def resolve_cluster_from_def cluster_members_def)

lemma get_all_append: "ndp_get_all now (as @ bs) = ndp_get_all now as @ ndp_get_all now bs"
  by (simp add: ndp_get_all_def)

lemma get_all_mono: "set as \<subseteq> set s \<Longrightarrow> set (ndp_get_all now as) \<subseteq> set (ndp_get_all now s)"
  unfolding ndp_get_all_def by (simp, blast)

lemma members_after_announce:
  assumes "an_nid f = PStr n" "an_ttl f \<noteq> 0" "expires_at now (an_ttl f) = Inr e" "flt_less t e"
    "an_cluster_anchor f = PStr ca"
  shows "\<exists>as bs. cluster_members t ca (snd (ndp_announce now f s)) = as @ f # bs
    \<and> set as \<union> set bs \<subseteq> set (cluster_members t ca s)"
proof -
  obtain us vs where uv: "pd_set (PStr n) (f, e) s = us @ (PStr n, f, e) # vs" "set us \<union> set vs \<subseteq> set s"
    using pd_set_split [of n "(f, e)" s] by blast
  have "snd (ndp_announce now f s) = us @ (PStr n, f, e) # vs"
    using assms uv by (simp add: ndp_announce_def py_hashable_def)
  moreover have "ndp_get_all t ((PStr n, f, e) # vs) = f # ndp_get_all t vs"
    using assms(4) by (simp add: ndp_get_all_def)
  ultimately have "cluster_members t ca (snd (ndp_announce now f s))
      = cluster_members t ca us @ f # cluster_members t ca vs"
    using assms(5) by (simp add: cluster_members_def get_all_append)
  moreover have "set (cluster_members t ca us) \<subseteq> set (cluster_members t ca s)"
    "set (cluster_members t ca vs) \<subseteq> set (cluster_members t ca s)"
    using uv(2) get_all_mono [of us s t] get_all_mono [of vs s t]
    unfolding cluster_members_def by (simp_all, blast+)
  ultimately show ?thesis by blast
qed

lemma select_leader_outcome:
  "leader_outcome (select_leader ca xs) = Leader f \<Longrightarrow> select_leader ca xs = Inr (Some f)"
  by (auto simp: leader_outcome_def split: sum.splits option.splits)

section \<open>Properties\<close>

text \<open>
  After an announcement, looking up its id returns it exactly while its time to live has not
  run out; with time to live 0 the id is gone at once; every other id is unaffected, and the
  store keeps one entry per id.
\<close>

theorem ndp_announce_lookup:
  assumes "store_ok s" "an_nid f = PStr n" "expires_at now (an_ttl f) = Inr e"
  shows "fst (ndp_announce now f s) = Inr () \<and> store_ok (snd (ndp_announce now f s))
    \<and> ndp_get_by_nid t m (snd (ndp_announce now f s))
      = (if m \<noteq> n then ndp_get_by_nid t m s
         else if an_ttl f \<noteq> 0 \<and> flt_less t e then Some f else None)"
  using assms store_ok_announce [OF assms(1,2), of now] pd_get_pop_str [of s n m]
  by (auto simp: ndp_announce_def ndp_get_by_nid_def py_hashable_def store_ok_def)

theorem ndp_announce_lookup_witness:
  "ndp_get_by_nid (FFin 59) ''n'' (snd (ndp_announce (FFin 0) (ex_announce ''n'') [])) = Some (ex_announce ''n'')
   \<and> ndp_get_by_nid (FFin 60) ''n'' (snd (ndp_announce (FFin 0) (ex_announce ''n'') [])) = None"
  using ndp_announce_lookup [of "[]" "ex_announce ''n''" "''n''" "FFin 0" "FFin 60" "FFin 59" "''n''"]
    ndp_announce_lookup [of "[]" "ex_announce ''n''" "''n''" "FFin 0" "FFin 60" "FFin 60" "''n''"] ex_expiry
  by (simp add: store_ok_def ex_announce_def)

text \<open>
  \<open>resolve\<close> answers from the first live announcement, in insertion order, whose id covers the
  target and which has an address; it prefers an https address, never reports a negative time to
  live, and returns nothing exactly when no live announcement can answer.
\<close>

theorem ndp_resolve_spec:
  assumes "store_ok s"
  shows "(ndp_resolve now target s = Inr None \<longleftrightarrow> (\<forall>x \<in> set s. \<not> covers now target x))
    \<and> (ndp_resolve now target s = Inr (Some r) \<longrightarrow>
        (\<exists>as k f e bs a. s = as @ (k, f, e) # bs \<and> (\<forall>y \<in> set as. \<not> covers now target y)
           \<and> covers now target (k, f, e) \<and> a \<in> set (an_addresses f)
           \<and> rr_host r = adr_host a \<and> rr_port r = adr_port a \<and> 0 \<le> rr_ttl r
           \<and> (adr_protocol a = PStr ''https'' \<or> (\<forall>b \<in> set (an_addresses f). adr_protocol b \<noteq> PStr ''https''))))"
proof -
  have find: "ndp_resolve now target s
      = (case find (covers now target) s of None \<Rightarrow> Inr None | Some x \<Rightarrow> answer now x)"
    using assms by (simp add: ndp_resolve_def resolve_in_find store_ok_def)
  show ?thesis
  proof (cases "find (covers now target) s")
    case None
    then have "\<forall>x \<in> set s. \<not> covers now target x" by (auto simp: find_None_iff)
    with None find show ?thesis by simp
  next
    case (Some x)
    obtain k f e where x: "x = (k, f, e)" by (cases x)
    obtain as bs where s: "s = as @ x # bs" "\<forall>y \<in> set as. \<not> covers now target y" and c: "covers now target x"
      using find_split [OF Some] by blast
    obtain a where a: "pick_address (an_addresses f) = Some a"
      using c pick_address_None by (fastforce simp: x covers_def)
    have "ndp_resolve now target s = answer now x" using find Some by simp
    then have ans: "ndp_resolve now target s = res_bind (remaining_ttl e now) (\<lambda>ttl.
         Inr (Some \<lparr>rr_host = adr_host a, rr_port = adr_port a, rr_ttl = ttl, rr_cert_fingerprint = PNone\<rparr>))"
      by (simp add: answer_def x a)
    then have "ndp_resolve now target s \<noteq> Inr None" by (auto simp: res_simps)
    moreover have "\<not> (\<forall>x \<in> set s. \<not> covers now target x)" using s(1) c by auto
    moreover have "rr_host r = adr_host a \<and> rr_port r = adr_port a \<and> 0 \<le> rr_ttl r"
      if "ndp_resolve now target s = Inr (Some r)"
      using that remaining_ttl_nonneg unfolding ans by (auto simp: res_simps)
    ultimately show ?thesis
      using s c pick_address_Some [OF a] unfolding x by blast
  qed
qed

lemma ex_target: "target_matches ''urn:nps:node:a:x'' ''nwp://a/x/1''"
  by code_simp

lemma ex_remaining: "remaining_ttl (FFin 60) (FFin 1) = Inr 59"
  by (simp add: remaining_ttl_def py_int_def double_def float_eval)

theorem ndp_resolve_spec_witness:
  "\<exists>r. ndp_resolve (FFin 1) ''nwp://a/x/1'' [(PStr ''urn:nps:node:a:x'', ex_announce ''urn:nps:node:a:x'', FFin 60)]
       = Inr (Some r) \<and> rr_host r = PStr ''10.0.0.5'' \<and> rr_ttl r = 59"
proof -
  let ?n = "''urn:nps:node:a:x''"
  let ?s = "[(PStr ?n, ex_announce ?n, FFin 60)]"
  have ok: "store_ok ?s" by (simp add: store_ok_def ex_announce_def)
  have nid: "an_nid (ex_announce ?n) = PStr ?n" by (simp add: ex_announce_def)
  obtain a where a: "pick_address (an_addresses (ex_announce ?n)) = Some a"
    by (simp add: ex_announce_def pick_address_def)
  have "ndp_resolve (FFin 1) ''nwp://a/x/1'' ?s
      = Inr (Some \<lparr>rr_host = adr_host a, rr_port = adr_port a, rr_ttl = 59, rr_cert_fingerprint = PNone\<rparr>)"
    by (simp add: ndp_resolve_def flt_le_def nwp_target_matches_nid_def nid ex_target a ex_remaining)
  with ndp_resolve_spec [OF ok, of "FFin 1" "''nwp://a/x/1''"
      "\<lparr>rr_host = adr_host a, rr_port = adr_port a, rr_ttl = 59, rr_cert_fingerprint = PNone\<rparr>"]
  show ?thesis by (auto simp: ex_announce_def Cons_eq_append_conv)
qed

text \<open>
  A node id covers a target exactly when the authorities are equal and the id's last part,
  with its colons read as slashes, is the target's path or a whole leading part of it.
\<close>

theorem target_matches_iff:
  assumes "CHR '':'' \<notin> set kind" "CHR '':'' \<notin> set auth" "CHR ''/'' \<notin> set auth'"
  shows "target_matches (''urn:nps:'' @ kind @ CHR '':'' # auth @ CHR '':'' # seg)
      (''nwp://'' @ auth' @ CHR ''/'' # path)
    \<longleftrightarrow> auth = auth'
      \<and> (let p = map (\<lambda>c. if c = CHR '':'' then CHR ''/'' else c) seg in path = p \<or> prefix (p @ ''/'') path)"
  using nid_split [OF assms(1,2), of seg] target_split [OF assms(3), of path]
  by (auto simp: target_matches_def replace_colon Let_def)

theorem target_matches_iff_witness:
  "target_matches (''urn:nps:'' @ ''node'' @ CHR '':'' # ''api.example.com'' @ CHR '':'' # ''products'')
     (''nwp://'' @ ''api.example.com'' @ CHR ''/'' # ''products/123'')"
  using target_matches_iff [of "''node''" "''api.example.com''" "''api.example.com''" "''products''" "''products/123''"]
  by simp

text \<open>
  Failover by epoch: once a live Anchor announces a cluster under an epoch above those of all
  live members, the registry resolves the cluster to it, whatever else is in the store.
\<close>

theorem cluster_takeover:
  assumes "an_nid f = PStr n" "an_ttl f \<noteq> 0" "expires_at now (an_ttl f) = Inr e" "flt_less t e"
    and "an_cluster_anchor f = PStr ca" "ca \<noteq> []"
    and "\<forall>g \<in> set (cluster_members t ca s). effective_cluster_epoch g < effective_cluster_epoch f"
  shows "resolve_cluster t ca (snd (ndp_announce now f s)) = Inr (Some f)"
proof -
  obtain as bs where m: "cluster_members t ca (snd (ndp_announce now f s)) = as @ f # bs"
    "set as \<union> set bs \<subseteq> set (cluster_members t ca s)"
    using members_after_announce [OF assms(1-5)] by blast
  then have "\<forall>y \<in> set as \<union> set bs. effective_cluster_epoch y < effective_cluster_epoch f"
    using assms(7) by blast
  from select_leader_outcome [OF cluster.higher_epoch_takes_over [OF this, of ca]] show ?thesis
    by (simp add: resolve_cluster_members assms(6) m(1))
qed

definition ex_anchor_announce :: "string \<Rightarrow> int \<Rightarrow> announce_frame" where
  "ex_anchor_announce n ep = (ex_announce n)\<lparr>an_cluster_anchor := PStr ''c'', an_cluster_epoch := Some ep\<rparr>"

theorem cluster_takeover_witness:
  "resolve_cluster (FFin 1) ''c''
     (snd (ndp_announce (FFin 0) (ex_anchor_announce ''b'' 2) [(PStr ''a'', ex_anchor_announce ''a'' 1, FFin 60)]))
   = Inr (Some (ex_anchor_announce ''b'' 2))"
  using ex_expiry
  by (intro cluster_takeover [where n = "''b''" and e = "FFin 60"])
    (auto simp: ex_anchor_announce_def ex_announce_def cluster_members_def ndp_get_all_def
      effective_cluster_epoch_def)

text \<open>
  No arbitrary choice: a cluster resolves to \<open>f\<close> only if \<open>f\<close> is live and every other live
  member has a strictly lower epoch, to nothing only if it has no live member, and in every
  other case the registry raises \<open>NdpClusterSplitError\<close> with the tied epoch.
\<close>

theorem cluster_resolution:
  assumes "ca \<noteq> []"
  shows "case resolve_cluster t ca s of
      Inr None \<Rightarrow> cluster_members t ca s = []
    | Inr (Some f) \<Rightarrow> f \<in> set (cluster_members t ca s)
        \<and> (\<forall>g \<in> set (cluster_members t ca s). g = f \<or> effective_cluster_epoch g < effective_cluster_epoch f)
    | Inl err \<Rightarrow> (\<exists>i j top. i < j \<and> j < length (cluster_members t ca s) \<and> err = NdpClusterSplitError ca top
        \<and> effective_cluster_epoch (cluster_members t ca s ! i) = top
        \<and> effective_cluster_epoch (cluster_members t ca s ! j) = top
        \<and> (\<forall>g \<in> set (cluster_members t ca s). effective_cluster_epoch g \<le> top))"
proof -
  let ?ms = "cluster_members t ca s"
  let ?ep = effective_cluster_epoch
  have r: "resolve_cluster t ca s = select_leader ca ?ms" using assms by (rule resolve_cluster_members)
  consider "?ms = []" | f where "leaders ?ep ?ms = [f]" | f g gs where "?ms \<noteq> []" "leaders ?ep ?ms = f # g # gs"
    using leaders_nonempty [of ?ms ?ep] by (metis remdups_adj.cases)
  then show ?thesis
  proof cases
    case 2
    then have "select_leader ca ?ms = Inr (Some f)" by (auto simp: select_leader_eq leaders_def)
    then show ?thesis
      using cluster.leader_is_highest [of ca ?ms f] by (simp add: r leader_outcome_def)
  next
    case 3
    obtain i j where "i < j" "j < length ?ms" "?ep (?ms ! i) = top_epoch ?ep ?ms" "?ep (?ms ! j) = top_epoch ?ep ?ms"
      using two_leaders [OF 3(2)] by blast
    then show ?thesis
      using 3 top_epoch_ge [of _ ?ms ?ep] by (auto simp: r select_leader_eq intro!: exI)
  qed (simp add: r select_leader_eq)
qed

theorem cluster_resolution_witness:
  "resolve_cluster (FFin 1) ''c'' [(PStr ''a'', ex_anchor_announce ''a'' 1, FFin 60),
      (PStr ''b'', ex_anchor_announce ''b'' 1, FFin 60)] = Inl (NdpClusterSplitError ''c'' 1)"
proof -
  let ?s = "[(PStr ''a'', ex_anchor_announce ''a'' 1, FFin 60), (PStr ''b'', ex_anchor_announce ''b'' 1, FFin 60)]"
  have m: "cluster_members (FFin 1) ''c'' ?s = [ex_anchor_announce ''a'' 1, ex_anchor_announce ''b'' 1]"
    by (simp add: cluster_members_def ndp_get_all_def ex_anchor_announce_def)
  have ep: "effective_cluster_epoch (ex_anchor_announce n e) = e" for n e
    by (simp add: effective_cluster_epoch_def ex_anchor_announce_def)
  have ne: "ex_anchor_announce ''a'' 1 \<noteq> ex_anchor_announce ''b'' 1"
    by (simp add: ex_anchor_announce_def ex_announce_def)
  show ?thesis
    using cluster_resolution [of "''c''" "FFin 1" ?s]
    by (cases "resolve_cluster (FFin 1) ''c'' ?s"; cases "projr (resolve_cluster (FFin 1) ''c'' ?s)")
      (use ne in \<open>auto simp: m ep less_Suc_eq\<close>)
qed

text \<open>
  The forwarding header is a duplicate-free chain of at most three registries: appending a
  clean id to a header either reports the loop, drops the frame at the hop limit, or gives a
  header that parses to the old chain followed by the id.
\<close>

theorem federation_append:
  assumes "clean_hop own"
  shows "case append_forwarded_by own header of
      Inl err \<Rightarrow> err = NdpFederationLoopError \<and> own \<in> set (parse_forwarded_by header)
    | Inr None \<Rightarrow> own \<notin> set (parse_forwarded_by header) \<and> 3 \<le> length (parse_forwarded_by header)
    | Inr (Some h) \<Rightarrow> parse_forwarded_by (Some h) = parse_forwarded_by header @ [own]
        \<and> own \<notin> set (parse_forwarded_by header) \<and> length (parse_forwarded_by (Some h)) \<le> 3"
proof -
  have "parse_forwarded_by (Some (join_with '', '' (parse_forwarded_by header @ [own])))
      = parse_forwarded_by header @ [own]"
    using assms parse_hops_clean by (intro parse_joined) auto
  then show ?thesis by (simp add: append_forwarded_by_def Let_def MAX_FEDERATION_HOPS_def)
qed

theorem federation_append_witness:
  "clean_hop ''urn:nps:node:r:b''
   \<and> append_forwarded_by ''urn:nps:node:r:b'' (Some ''urn:nps:node:r:a'')
     = Inr (Some ''urn:nps:node:r:a, urn:nps:node:r:b'')
   \<and> parse_forwarded_by (Some ''urn:nps:node:r:a, urn:nps:node:r:b'') = [''urn:nps:node:r:a'', ''urn:nps:node:r:b'']"
proof -
  have c: "clean_hop ''urn:nps:node:r:b''"
    by (simp add: clean_hop_def py_strip_def py_isspace_def)
  have p: "parse_forwarded_by (Some ''urn:nps:node:r:a'') = [''urn:nps:node:r:a'']"
    by (simp add: parse_forwarded_by_def py_strip_def py_isspace_def)
  then have "append_forwarded_by ''urn:nps:node:r:b'' (Some ''urn:nps:node:r:a'')
      = Inr (Some ''urn:nps:node:r:a, urn:nps:node:r:b'')"
    by (simp add: append_forwarded_by_def MAX_FEDERATION_HOPS_def)
  then show ?thesis
    using federation_append [OF c, of "Some ''urn:nps:node:r:a''"] c p by simp
qed

end
