(* ===== verification/NdpProfile.thy ===== *)
theory NdpProfile
  imports NdpRegistry
begin

text \<open>
  The portable discovery profile: \<open>nps_sdk/ndp/registry_profile.py\<close> (admission of announcements with
  sequence fencing, freshness and bridge discovery), \<open>ndp/validator.py\<close> and \<open>ndp/recovery_policy.py\<close>.

  A frame is the dictionary the code receives. A \<open>datetime\<close> is its local time in microseconds since
  year 1 and its UTC offset; adding seconds raises \<open>OverflowError\<close> past the year 9999. Reading an ISO
  timestamp is the argument \<open>rd\<close>, the canonical JSON text and SHA-256 are those of a
  \<^typ>\<open>canon_hash\<close>, and Ed25519 verification is an argument of the validator.
\<close>

section \<open>Times\<close>

record datetime =
  dt_local :: int
  dt_offset :: int

definition utc :: "datetime \<Rightarrow> int" where
  "utc t = dt_local t - dt_offset t"

definition add_seconds :: "datetime \<Rightarrow> int \<Rightarrow> datetime res" where
  "add_seconds t s =
     (let l = dt_local t + s * 1000000 in
      if 0 \<le> l \<and> l \<le> MAX_TIME then Inr (t\<lparr>dt_local := l\<rparr>) else Inl OverflowError)"

type_synonym iso_reader = "string \<Rightarrow> datetime option"

definition parse_time :: "iso_reader \<Rightarrow> pyval \<Rightarrow> datetime option" where
  "parse_time rd v = (case v of PStr s \<Rightarrow> rd s | _ \<Rightarrow> None)"

section \<open>Frames\<close>

definition fget :: "pyval dict \<Rightarrow> string \<Rightarrow> pyval" where
  "fget frame k = (case map_of frame k of None \<Rightarrow> PNone | Some v \<Rightarrow> v)"

definition uint_value :: "pyval \<Rightarrow> int \<Rightarrow> int option" where
  "uint_value v maximum = (case v of PInt i \<Rightarrow> if 0 \<le> i \<and> i \<le> maximum then Some i else None | _ \<Rightarrow> None)"

definition MAX_U64 :: int where "MAX_U64 = 18446744073709551615"
definition MAX_U32 :: int where "MAX_U32 = 4294967295"

fun without_nulls :: "pyval \<Rightarrow> pyval"
and without_nulls_list :: "pyval list \<Rightarrow> pyval list"
and without_nulls_items :: "(string \<times> pyval) list \<Rightarrow> (string \<times> pyval) list" where
  "without_nulls v =
     (case v of
        PDict d \<Rightarrow> PDict (without_nulls_items d)
      | PList xs \<Rightarrow> PList (without_nulls_list xs)
      | _ \<Rightarrow> v)"
| "without_nulls_list [] = []"
| "without_nulls_list (x # xs) = without_nulls x # without_nulls_list xs"
| "without_nulls_items [] = []"
| "without_nulls_items (kv # d) =
     (if snd kv = PNone then without_nulls_items d
      else (fst kv, without_nulls (snd kv)) # without_nulls_items d)"

declare without_nulls.simps [simp del]

definition excluded :: "string list" where
  "excluded = [''frame'', ''signature'', ''health'', ''last_seen'']"

definition canonical_announce_json :: "canon_hash \<Rightarrow> pyval dict \<Rightarrow> string res" where
  "canonical_announce_json H frame =
     (let root = map (\<lambda>kv. (fst kv, without_nulls (snd kv)))
                   (filter (\<lambda>kv. fst kv \<notin> set excluded \<and> snd kv \<noteq> PNone) frame);
          root' = (if map_of root ''heartbeat_interval_ms'' = None
                   then root @ [(''heartbeat_interval_ms'', PInt 60000)] else root)
      in dumps_sorted H (PDict root'))"

definition roles :: "pyval dict \<Rightarrow> pyval list" where
  "roles frame = (case map_of frame ''node_roles'' of Some (PList xs) \<Rightarrow> xs | _ \<Rightarrow> [])"

definition has_role :: "string \<Rightarrow> pyval dict \<Rightarrow> bool" where
  "has_role r frame = (\<exists>x \<in> set (roles frame). py_eq x (PStr r))"

definition is_bridge :: "pyval dict \<Rightarrow> bool" where
  "is_bridge frame = (has_role ''bridge'' frame \<or> py_eq (fget frame ''node_type'') (PStr ''bridge''))"

definition protocol_list :: "pyval dict \<Rightarrow> string \<Rightarrow> (bool \<times> pyval list) option" where
  "protocol_list frame field =
     (case map_of frame field of
        None \<Rightarrow> Some (False, [])
      | Some (PList xs) \<Rightarrow>
          if list_all (\<lambda>x. case x of PStr s \<Rightarrow> py_strip s \<noteq> [] | _ \<Rightarrow> False) xs then Some (True, xs) else None
      | Some _ \<Rightarrow> None)"

definition bridge_shape_is_valid :: "pyval dict \<Rightarrow> bool" where
  "bridge_shape_is_valid frame =
     (case (protocol_list frame ''bridge_protocols'', protocol_list frame ''bridge_inbound_protocols'') of
        (Some (has_out, outs), Some (has_in, ins)) \<Rightarrow>
          if is_bridge frame then outs \<noteq> [] \<or> ins \<noteq> [] else \<not> has_out \<and> \<not> has_in
      | _ \<Rightarrow> False)"

definition same_liveness :: "pyval dict \<Rightarrow> pyval dict \<Rightarrow> bool" where
  "same_liveness l r =
     (py_eq (fget l ''health'') (fget r ''health'') \<and> py_eq (fget l ''last_seen'') (fget r ''last_seen''))"

definition freshness_deadline :: "iso_reader \<Rightarrow> pyval dict \<Rightarrow> datetime option res" where
  "freshness_deadline rd frame =
     (case (parse_time rd (if py_bool (fget frame ''last_seen'') then fget frame ''last_seen''
                            else fget frame ''timestamp''),
            uint_value (fget frame ''ttl'') MAX_U32) of
        (Some source, Some ttl) \<Rightarrow> res_bind (add_seconds source ttl) (\<lambda>t. Inr (Some t))
      | _ \<Rightarrow> Inr None)"

section \<open>The registry profile\<close>

datatype decision = ACCEPTED | DUPLICATE | REFRESHED | REMOVED | REJECTED

record entry =
  en_frame :: "pyval dict"
  en_digest :: string
  en_expires :: datetime

record profile_state =
  ps_entries :: "entry dict"
  ps_highest :: "int dict"

definition empty_profile :: profile_state where
  "empty_profile = \<lparr>ps_entries = [], ps_highest = []\<rparr>"

type_synonym admission = "decision \<times> string option"

definition rejected :: "string \<Rightarrow> admission" where
  "rejected code = (REJECTED, Some code)"

text \<open>The checks that need no state: an error code, or the id, sequence and ttl.\<close>

definition check_frame ::
  "iso_reader \<Rightarrow> string \<Rightarrow> datetime \<Rightarrow> pyval dict \<Rightarrow> string + (string \<times> int \<times> int)" where
  "check_frame rd profile received_at frame =
     (case (fget frame ''nid'', parse_time rd (fget frame ''timestamp'')) of
        (PStr nid, Some timestamp) \<Rightarrow>
          if nid = [] then Inl ''NDP-ANNOUNCE-PROFILE-VIOLATION''
          else
            let present = (map_of frame ''graph_seq'' \<noteq> None);
                sequence = uint_value (fget frame ''graph_seq'') MAX_U64;
                ttl = uint_value (fget frame ''ttl'') MAX_U32
            in if (present \<and> sequence = None) \<or> (\<not> present \<and> profile \<noteq> ''local-dev'') \<or> ttl = None
               then Inl ''NDP-ANNOUNCE-PROFILE-VIOLATION''
               else if \<not> bridge_shape_is_valid frame then Inl ''NDP-ANNOUNCE-PROFILE-VIOLATION''
               else if profile \<noteq> ''local-dev'' \<and> \<bar>utc received_at - utc timestamp\<bar> > 300 * 1000000
               then Inl ''NDP-ANNOUNCE-SIGNATURE-INVALID''
               else Inr (nid, (case sequence of None \<Rightarrow> 0 | Some s \<Rightarrow> s), the ttl)
      | _ \<Rightarrow> Inl ''NDP-ANNOUNCE-PROFILE-VIOLATION'')"

text \<open>The part that stores: a fresh announcement or a heartbeat.\<close>

definition store_fresh ::
  "iso_reader \<Rightarrow> datetime \<Rightarrow> pyval dict \<Rightarrow> string \<Rightarrow> string \<Rightarrow> int \<Rightarrow> decision \<Rightarrow> profile_state
     \<Rightarrow> admission res \<times> profile_state" where
  "store_fresh rd received_at frame nid digest sequence verdict s =
     (case freshness_deadline rd frame of
        Inl e \<Rightarrow> (Inl e, s)
      | Inr None \<Rightarrow> (Inr (rejected ''NDP-ANNOUNCE-STALE''), s)
      | Inr (Some expiry) \<Rightarrow>
          if utc expiry \<le> utc received_at then (Inr (rejected ''NDP-ANNOUNCE-STALE''), s)
          else (Inr (verdict, None),
                s\<lparr>ps_highest := dict_set nid sequence (ps_highest s),
                  ps_entries := dict_set nid \<lparr>en_frame = frame, en_digest = digest, en_expires = expiry\<rparr> (ps_entries s)\<rparr>))"

definition apply_checked ::
  "iso_reader \<Rightarrow> datetime \<Rightarrow> pyval dict \<Rightarrow> string \<Rightarrow> int \<Rightarrow> int \<Rightarrow> string \<Rightarrow> profile_state
     \<Rightarrow> admission res \<times> profile_state" where
  "apply_checked rd received_at frame nid sequence ttl digest s =
     (let fresh = (if ttl = 0
                   then (Inr (REMOVED, None),
                         s\<lparr>ps_highest := dict_set nid sequence (ps_highest s),
                           ps_entries := dict_pop nid (ps_entries s)\<rparr>)
                   else store_fresh rd received_at frame nid digest sequence ACCEPTED s)
      in case dict_get (ps_highest s) nid of
           None \<Rightarrow> fresh
         | Some highest \<Rightarrow>
             if sequence < highest then (Inr (rejected ''NDP-GRAPH-SEQ-ROLLBACK''), s)
             else if sequence = highest then
               (case dict_get (ps_entries s) nid of
                  None \<Rightarrow> (Inr (DUPLICATE, None), s)
                | Some current \<Rightarrow>
                    if en_digest current \<noteq> digest then (Inr (rejected ''NDP-ANNOUNCE-CONFLICT''), s)
                    else if same_liveness (en_frame current) frame then (Inr (DUPLICATE, None), s)
                    else store_fresh rd received_at frame nid digest sequence REFRESHED s)
             else fresh)"

definition apply_announce ::
  "canon_hash \<Rightarrow> iso_reader \<Rightarrow> string \<Rightarrow> pyval dict \<Rightarrow> bool \<Rightarrow> datetime \<Rightarrow> profile_state
     \<Rightarrow> admission res \<times> profile_state" where
  "apply_announce H rd profile frame signature_valid received_at s =
     (if \<not> signature_valid then (Inr (rejected ''NDP-ANNOUNCE-SIGNATURE-INVALID''), s)
      else case check_frame rd profile received_at frame of
        Inl code \<Rightarrow> (Inr (rejected code), s)
      | Inr (nid, sequence, ttl) \<Rightarrow>
          (case canonical_announce_json H frame of
             Inl e \<Rightarrow> (Inl e, s)
           | Inr text \<Rightarrow> apply_checked rd received_at frame nid sequence ttl (sha256_hex H text) s))"

definition live :: "datetime \<Rightarrow> entry \<Rightarrow> bool" where
  "live now e = (utc (en_expires e) > utc now)"

definition live_nids :: "datetime \<Rightarrow> profile_state \<Rightarrow> string list" where
  "live_nids now s = sort (map fst (filter (\<lambda>(n, e). live now e) (ps_entries s)))"

definition highest_sequences :: "profile_state \<Rightarrow> int dict" where
  "highest_sequences s = sort_key fst (ps_highest s)"

definition has_stale_entry :: "datetime \<Rightarrow> profile_state \<Rightarrow> bool" where
  "has_stale_entry now s = (\<exists>(n, e) \<in> set (ps_entries s). utc (en_expires e) \<le> utc now)"

record cluster_selection =
  cs_nid :: "string option"
  cs_epoch :: "int option"
  cs_error :: "string option"

definition select_members :: "(string \<times> int) list \<Rightarrow> cluster_selection" where
  "select_members members =
     (if members = [] then \<lparr>cs_nid = None, cs_epoch = None, cs_error = None\<rparr>
      else let top = Max (set (map snd members));
               leads = sort (map fst (filter (\<lambda>m. snd m = top) members))
           in if length leads \<noteq> 1 then \<lparr>cs_nid = None, cs_epoch = None, cs_error = Some ''NDP-CLUSTER-SPLIT''\<rparr>
              else \<lparr>cs_nid = Some (hd leads), cs_epoch = Some top, cs_error = None\<rparr>)"

definition profile_resolve_cluster :: "string \<Rightarrow> datetime \<Rightarrow> profile_state \<Rightarrow> cluster_selection res" where
  "profile_resolve_cluster cluster_anchor now s =
     res_bind (res_map (\<lambda>(nid, e).
         res_bind (py_int (case map_of (en_frame e) ''cluster_epoch'' of None \<Rightarrow> PInt 1 | Some v \<Rightarrow> v)) (\<lambda>ep.
           Inr (nid, ep)))
       (filter (\<lambda>(nid, e). live now e \<and> py_eq (fget (en_frame e) ''cluster_anchor'') (PStr cluster_anchor)
                  \<and> has_role ''anchor'' (en_frame e)) (ps_entries s))) (\<lambda>members.
       Inr (select_members members))"

text \<open>An admitted frame's protocol field is absent or a list.\<close>

definition discover_bridges :: "string \<Rightarrow> string \<Rightarrow> datetime \<Rightarrow> profile_state \<Rightarrow> string list res" where
  "discover_bridges direction protocol now s =
     (if direction \<notin> {''inbound'', ''outbound''} then Inl ValueError
      else let field = (if direction = ''inbound'' then ''bridge_inbound_protocols'' else ''bridge_protocols'')
           in Inr (sort (map fst (filter (\<lambda>(n, e).
                live now e \<and> \<not> py_eq (fget (en_frame e) ''health'') (PStr ''draining'') \<and> is_bridge (en_frame e)
                \<and> (case map_of (en_frame e) field of
                     Some (PList xs) \<Rightarrow> (\<exists>x \<in> set xs. py_eq x (PStr protocol)) | _ \<Rightarrow> False))
                (ps_entries s)))))"

section \<open>The announce validator\<close>

text \<open>
  Ed25519 verification after base64url decoding: of a raw public key, and of the last 32 bytes of a
  DER-encoded one. \<open>dumps_plain\<close> is the canonical JSON text of \<open>nip/identity.py\<close>.
\<close>

record sig_lib =
  ed_raw :: "string \<Rightarrow> string \<Rightarrow> string \<Rightarrow> bool"
  ed_der :: "string \<Rightarrow> string \<Rightarrow> string \<Rightarrow> bool"
  dumps_plain :: "pyval \<Rightarrow> string res"

definition verify_announce_signature :: "canon_hash \<Rightarrow> sig_lib \<Rightarrow> pyval dict \<Rightarrow> string \<Rightarrow> pyval \<Rightarrow> bool res" where
  "verify_announce_signature H L frame encoded_public_key encoded_signature =
     (if \<not> py_startswith encoded_public_key ''ed25519:'' then Inr False
      else res_bind (as_str encoded_signature) (\<lambda>sig.
        if \<not> py_startswith sig ''ed25519:'' then Inr False
        else case canonical_announce_json H frame of
               Inl e \<Rightarrow> if e = TypeError \<or> e = ValueError then Inr False else Inl e
             | Inr text \<Rightarrow> Inr (ed_raw L (drop 8 encoded_public_key) (drop 8 sig) text)))"

text \<open>\<open>NipIdentity.verify_signature\<close>: false on every exception.\<close>

definition verify_signature :: "sig_lib \<Rightarrow> string \<Rightarrow> pyval dict \<Rightarrow> pyval \<Rightarrow> bool" where
  "verify_signature L pub_key_str payload signature =
     (case signature of
        PStr sig \<Rightarrow>
          py_startswith pub_key_str ''ed25519:'' \<and> py_startswith sig ''ed25519:''
          \<and> (case dumps_plain L (PDict payload) of
                Inl e \<Rightarrow> False
              | Inr text \<Rightarrow> ed_der L (drop 8 pub_key_str) (drop 8 sig) text)
      | _ \<Rightarrow> False)"

type_synonym key_table = "string dict"

definition register_public_key :: "string \<Rightarrow> string \<Rightarrow> key_table \<Rightarrow> key_table" where
  "register_public_key nid encoded_pub_key keys = dict_set nid encoded_pub_key keys"

definition remove_public_key :: "string \<Rightarrow> key_table \<Rightarrow> key_table" where
  "remove_public_key nid keys = dict_pop nid keys"

text \<open>The result is \<open>None\<close> when the frame is valid, otherwise the error code.\<close>

definition validate_announce :: "canon_hash \<Rightarrow> sig_lib \<Rightarrow> key_table \<Rightarrow> announce_frame \<Rightarrow> string option res" where
  "validate_announce H L keys f =
     (if \<not> py_hashable (an_nid f) then Inl TypeError
      else case (case an_nid f of PStr n \<Rightarrow> dict_get keys n | _ \<Rightarrow> None) of
        None \<Rightarrow> Inr (Some ''NDP-ANNOUNCE-NID-MISMATCH'')
      | Some pub_key \<Rightarrow>
          res_bind (verify_announce_signature H L (announce_dict f) pub_key (an_signature f)) (\<lambda>ok.
            if ok \<or> verify_signature L pub_key (unsigned_dict f) (an_signature f) then Inr None
            else Inr (Some ''NDP-ANNOUNCE-SIGNATURE-INVALID'')))"

section \<open>Recovery fences\<close>

text \<open>
  Here times may lack an offset; comparing one with and one without raises \<open>TypeError\<close>.
\<close>

definition later :: "int \<times> int option \<Rightarrow> int \<times> int option \<Rightarrow> bool res" where
  "later a b =
     (case (snd a, snd b) of
        (Some x, Some y) \<Rightarrow> Inr (fst a - x > fst b - y)
      | (None, None) \<Rightarrow> Inr (fst a > fst b)
      | _ \<Rightarrow> Inl TypeError)"

definition rec_int :: "pyval \<Rightarrow> string \<Rightarrow> int res" where
  "rec_int d k = res_bind (py_item d k) py_int"

definition recover_owners :: "pyval \<Rightarrow> pyval dict res" where
  "recover_owners owners =
     res_bind (py_iter owners) (\<lambda>os.
     res_bind (res_map (\<lambda>ow. res_bind (py_get ow ''live'') (\<lambda>l. Inr (ow, py_bool l))) os) (\<lambda>tagged.
     res_bind (res_map (\<lambda>ow. res_bind (rec_int ow ''epoch'') (\<lambda>e. Inr (ow, e))) (map fst (filter snd tagged))) (\<lambda>alive.
       if alive = [] then Inl ValueError
       else let top = Max (set (map snd alive)) in
         res_bind (res_map (\<lambda>m. py_item (fst m) ''nid'') (filter (\<lambda>m. snd m = top) alive)) (\<lambda>nids.
         res_bind (py_sort_onto id [] nids) (\<lambda>leads.
           if length leads = 1 then Inr [(''resolved_nid'', hd leads)]
           else Inr [(''resolved_nid'', PNone), (''error'', PStr ''NDP-CLUSTER-SPLIT'')])))))"

definition evaluate_recovery :: "(string \<Rightarrow> (int \<times> int option) res) \<Rightarrow> pyval dict \<Rightarrow> pyval dict res" where
  "evaluate_recovery time_of inp =
     (let has = (\<lambda>k. map_of inp k \<noteq> None); d = PDict inp;
          time = (\<lambda>v. res_bind (as_str v) time_of) in
      if has ''commit'' then
        res_bind (rec_int d ''persisted_seq'') (\<lambda>old.
        res_bind (rec_int d ''incoming_seq'') (\<lambda>incoming.
          if \<not> py_eq (fget inp ''commit'') (PStr ''success'')
          then Inr [(''acknowledged'', PBool False), (''served_seq'', PInt old), (''persisted_seq'', PInt old),
                    (''error'', PStr ''NDP-STATE-UNAVAILABLE'')]
          else Inr [(''acknowledged'', PBool True), (''served_seq'', PInt incoming), (''persisted_seq'', PInt incoming)]))
      else if has ''record'' \<and> has ''now'' then
        res_bind (res_bind (py_item (fget inp ''record'') ''fresh_until'') time) (\<lambda>fresh_until.
        res_bind (time (fget inp ''now'')) (\<lambda>now.
        res_bind (later fresh_until now) (\<lambda>alive.
        res_bind (rec_int (fget inp ''record'') ''highest_seq'') (\<lambda>high.
          Inr [(''live_entry'', PBool alive), (''highest_seq'', PInt high), (''ready'', PBool True)]))))
      else if has ''restored_highest_seq'' then
        res_bind (rec_int d ''restored_highest_seq'') (\<lambda>high.
        res_bind (rec_int d ''incoming_seq'') (\<lambda>incoming.
          if incoming < high
          then Inr [(''accepted'', PBool False), (''highest_seq'', PInt high), (''error'', PStr ''NDP-GRAPH-SEQ-ROLLBACK'')]
          else Inr [(''accepted'', PBool True), (''highest_seq'', PInt incoming)]))
      else if has ''owners'' then recover_owners (fget inp ''owners'')
      else if has ''snapshot_validation'' then
        (if py_eq (fget inp ''snapshot_validation'') (PStr ''valid'')
         then Inr [(''ready'', PBool True), (''started_empty'', PBool False)]
         else Inr [(''ready'', PBool False), (''started_empty'', PBool False), (''error'', PStr ''NDP-STATE-CORRUPT'')])
      else if has ''profiles'' then
        res_bind (py_iter (fget inp ''profiles'')) (\<lambda>ps.
          Inr [(''recovery'', PList (map (\<lambda>p. PStr (if py_eq p (PStr ''local-dev'') then ''volatile'' else ''durable'')) ps))])
      else if has ''revoked_origin'' then
        res_bind (py_item d ''record'') (\<lambda>r.
        res_bind (py_get r ''live'') (\<lambda>l.
        res_bind (if py_bool l then res_bind (py_get r ''origin'') (\<lambda>or. Inr (\<not> py_eq or (fget inp ''revoked_origin'')))
                  else Inr False) (\<lambda>alive.
        res_bind (rec_int r ''highest_seq'') (\<lambda>high.
          Inr [(''live'', PBool alive), (''highest_seq'', PInt high)]))))
      else Inl ValueError)"

section \<open>Lemmas\<close>

subsection \<open>One announcement\<close>

definition frame_seq :: "pyval dict \<Rightarrow> int" where
  "frame_seq frame = (case uint_value (fget frame ''graph_seq'') MAX_U64 of None \<Rightarrow> 0 | Some s \<Rightarrow> s)"

lemma check_frame_seq:
  "check_frame rd profile rcv frame = Inr (nid, sequence, ttl) \<Longrightarrow>
     fget frame ''nid'' = PStr nid \<and> nid \<noteq> [] \<and> sequence = frame_seq frame"
  by (auto simp: check_frame_def frame_seq_def Let_def split: pyval.splits option.splits if_splits)

text \<open>How the state of one id can change: a newer frame is stored, a newer frame withdraws, or the current one is refreshed.\<close>

definition stores :: "pyval dict \<Rightarrow> profile_state \<Rightarrow> profile_state \<Rightarrow> bool" where
  "stores frame s s' \<longleftrightarrow>
     (\<exists>nid e. fget frame ''nid'' = PStr nid \<and> en_frame e = frame
        \<and> s' = s\<lparr>ps_highest := dict_set nid (frame_seq frame) (ps_highest s), ps_entries := dict_set nid e (ps_entries s)\<rparr>
        \<and> (dict_get (ps_highest s) nid = None
           \<or> (\<exists>h. dict_get (ps_highest s) nid = Some h \<and> (h < frame_seq frame \<or> h = frame_seq frame \<and> dict_get (ps_entries s) nid \<noteq> None))))"

definition withdraws :: "pyval dict \<Rightarrow> profile_state \<Rightarrow> profile_state \<Rightarrow> bool" where
  "withdraws frame s s' \<longleftrightarrow>
     (\<exists>nid. fget frame ''nid'' = PStr nid
        \<and> s' = s\<lparr>ps_highest := dict_set nid (frame_seq frame) (ps_highest s), ps_entries := dict_pop nid (ps_entries s)\<rparr>
        \<and> (\<forall>h. dict_get (ps_highest s) nid = Some h \<longrightarrow> h < frame_seq frame))"

lemma store_fresh_cases:
  "store_fresh rd rcv frame nid digest sequence verdict s = (r, s') \<Longrightarrow>
     s' = s \<and> (\<forall>c. r = Inr (verdict, c) \<longrightarrow> verdict = REJECTED) \<or>
     (\<exists>e. r = Inr (verdict, None) \<and> en_frame e = frame
        \<and> s' = s\<lparr>ps_highest := dict_set nid sequence (ps_highest s), ps_entries := dict_set nid e (ps_entries s)\<rparr>)"
  by (auto simp: store_fresh_def rejected_def split: sum.splits option.splits if_splits
      intro!: exI [of _ "\<lparr>en_frame = frame, en_digest = digest, en_expires = _\<rparr>"])

lemma storesI:
  "fget frame ''nid'' = PStr nid \<Longrightarrow> en_frame e = frame \<Longrightarrow>
   s' = s\<lparr>ps_highest := dict_set nid (frame_seq frame) (ps_highest s), ps_entries := dict_set nid e (ps_entries s)\<rparr> \<Longrightarrow>
   dict_get (ps_highest s) nid = None
   \<or> (\<exists>h. dict_get (ps_highest s) nid = Some h \<and> (h < frame_seq frame \<or> h = frame_seq frame \<and> dict_get (ps_entries s) nid \<noteq> None)) \<Longrightarrow>
   stores frame s s'"
  unfolding stores_def by blast

lemma store_fresh_stores:
  assumes "store_fresh rd rcv frame nid digest (frame_seq frame) verdict s = (r, s')" "verdict \<in> {ACCEPTED, REFRESHED}"
    and "fget frame ''nid'' = PStr nid"
    and "dict_get (ps_highest s) nid = None
      \<or> (\<exists>h. dict_get (ps_highest s) nid = Some h \<and> (h < frame_seq frame \<or> h = frame_seq frame \<and> dict_get (ps_entries s) nid \<noteq> None))"
  shows "s' = s \<and> (\<forall>c. r \<noteq> Inr (REMOVED, c))
    \<or> stores frame s s' \<and> (\<forall>c. r \<noteq> Inr (REMOVED, c) \<and> r \<noteq> Inr (REJECTED, c) \<and> r \<noteq> Inr (DUPLICATE, c))"
proof (cases "s' = s \<and> (\<forall>c. r \<noteq> Inr (REMOVED, c))")
  case False
  have "\<forall>c. r \<noteq> Inr (REMOVED, c)"
    using assms(1,2) by (auto simp: store_fresh_def rejected_def split: sum.splits option.splits if_splits)
  with False store_fresh_cases [OF assms(1)] obtain e where e: "r = Inr (verdict, None)" "en_frame e = frame"
      "s' = s\<lparr>ps_highest := dict_set nid (frame_seq frame) (ps_highest s), ps_entries := dict_set nid e (ps_entries s)\<rparr>"
    by blast
  have "stores frame s s'" by (rule storesI [OF assms(3) e(2,3) assms(4)])
  then show ?thesis using e(1) assms(2) by auto
qed simp

lemma apply_checked_cases:
  assumes "apply_checked rd rcv frame nid (frame_seq frame) ttl digest s = (r, s')" "fget frame ''nid'' = PStr nid"
  shows "s' = s \<and> (\<forall>c. r \<noteq> Inr (REMOVED, c)) \<or> stores frame s s' \<and> (\<forall>c. r \<noteq> Inr (REMOVED, c) \<and> r \<noteq> Inr (REJECTED, c) \<and> r \<noteq> Inr (DUPLICATE, c))
    \<or> withdraws frame s s' \<and> r = Inr (REMOVED, None)"
proof -
  let ?q = "frame_seq frame"
  consider (fresh) "\<forall>h. dict_get (ps_highest s) nid = Some h \<longrightarrow> h < ?q"
    | (old) h where "dict_get (ps_highest s) nid = Some h" "?q < h"
    | (same) "dict_get (ps_highest s) nid = Some ?q"
    by (metis linorder_neqE)
  then show ?thesis
  proof cases
    case fresh
    show ?thesis
    proof (cases "ttl = 0")
      case True
      then have "r = Inr (REMOVED, None)" "withdraws frame s s'"
        using assms fresh by (auto simp: apply_checked_def withdraws_def Let_def split: option.splits if_splits)
      then show ?thesis by blast
    next
      case False
      then have "store_fresh rd rcv frame nid digest ?q ACCEPTED s = (r, s')"
        using assms(1) fresh by (auto simp: apply_checked_def Let_def split: option.splits if_splits)
      moreover have "dict_get (ps_highest s) nid = None \<or> (\<exists>h. dict_get (ps_highest s) nid = Some h \<and> (h < ?q \<or> h = ?q \<and> dict_get (ps_entries s) nid \<noteq> None))"
        using fresh by (cases "dict_get (ps_highest s) nid") auto
      ultimately show ?thesis using store_fresh_stores [OF _ _ assms(2)] by blast
    qed
  next
    case old
    then show ?thesis using assms(1) by (auto simp: apply_checked_def Let_def rejected_def)
  next
    case same
    show ?thesis
    proof (cases "dict_get (ps_entries s) nid")
      case None
      then show ?thesis using assms(1) same by (auto simp: apply_checked_def Let_def)
    next
      case (Some cur)
      show ?thesis
      proof (cases "en_digest cur = digest \<and> \<not> same_liveness (en_frame cur) frame")
        case True
        then have "store_fresh rd rcv frame nid digest ?q REFRESHED s = (r, s')"
          using assms(1) same Some by (auto simp: apply_checked_def Let_def)
        moreover have "dict_get (ps_highest s) nid = None \<or> (\<exists>h. dict_get (ps_highest s) nid = Some h \<and> (h < ?q \<or> h = ?q \<and> dict_get (ps_entries s) nid \<noteq> None))"
          using same Some by simp
        ultimately show ?thesis using store_fresh_stores [OF _ _ assms(2)] by blast
      next
        case False
        then show ?thesis using assms(1) same Some by (auto simp: apply_checked_def Let_def rejected_def split: if_splits)
      qed
    qed
  qed
qed

lemma apply_announce_cases:
  assumes "apply_announce H rd profile frame sv rcv s = (r, s')"
  shows "s' = s \<and> (\<forall>c. r \<noteq> Inr (REMOVED, c)) \<or> stores frame s s' \<and> (\<forall>c. r \<noteq> Inr (REMOVED, c) \<and> r \<noteq> Inr (REJECTED, c) \<and> r \<noteq> Inr (DUPLICATE, c))
    \<or> withdraws frame s s' \<and> r = Inr (REMOVED, None)"
proof (cases "sv \<and> (\<exists>x. check_frame rd profile rcv frame = Inr x) \<and> (\<exists>body. canonical_announce_json H frame = Inr body)")
  case True
  then obtain nid sequence ttl body where c: "check_frame rd profile rcv frame = Inr (nid, sequence, ttl)"
      and x: "canonical_announce_json H frame = Inr body" by auto
  have "fget frame ''nid'' = PStr nid" "sequence = frame_seq frame" using check_frame_seq [OF c] by auto
  then show ?thesis
    using apply_checked_cases [of rd rcv frame nid ttl "sha256_hex H body" s r s'] assms True c x
    by (simp add: apply_announce_def)
next
  case False
  then have "s' = s \<and> (\<forall>c. r \<noteq> Inr (REMOVED, c))"
    using assms by (auto simp: apply_announce_def rejected_def split: sum.splits if_splits)
  then show ?thesis by blast
qed

subsection \<open>Runs\<close>

type_synonym received = "pyval dict \<times> bool \<times> datetime"

definition profile_run :: "canon_hash \<Rightarrow> iso_reader \<Rightarrow> string \<Rightarrow> received list \<Rightarrow> profile_state \<Rightarrow> profile_state" where
  "profile_run H rd profile evs s = foldl (\<lambda>s (frame, sv, rcv). snd (apply_announce H rd profile frame sv rcv s)) s evs"

lemma profile_run_induct:
  assumes "P s" "\<And>s frame sv rcv. P s \<Longrightarrow> P (snd (apply_announce H rd profile frame sv rcv s))"
  shows "P (profile_run H rd profile evs s)"
  using assms(1) by (induction evs arbitrary: s) (auto simp: profile_run_def assms(2))

definition profile_inv :: "profile_state \<Rightarrow> bool" where
  "profile_inv s \<longleftrightarrow> (\<forall>nid e. dict_get (ps_entries s) nid = Some e \<longrightarrow>
     fget (en_frame e) ''nid'' = PStr nid \<and> dict_get (ps_highest s) nid = Some (frame_seq (en_frame e)))"

lemma profile_inv_step:
  assumes "profile_inv s"
  shows "profile_inv (snd (apply_announce H rd profile frame sv rcv s))"
proof -
  obtain r s' where a: "apply_announce H rd profile frame sv rcv s = (r, s')" by (metis surj_pair)
  from apply_announce_cases [OF a] consider "s' = s" | "stores frame s s'" | "withdraws frame s s'" by blast
  then have "profile_inv s'"
  proof cases
    case 2
    then show ?thesis using assms by (auto simp: stores_def profile_inv_def split: if_splits)
  next
    case 3
    then show ?thesis using assms by (auto simp: withdraws_def profile_inv_def split: if_splits)
  qed (use assms in simp)
  then show ?thesis by (simp add: a)
qed

text \<open>The sequence number \<open>h\<close> of an id is settled: nothing at or below it can become live again.\<close>

definition fenced :: "string \<Rightarrow> int \<Rightarrow> profile_state \<Rightarrow> bool" where
  "fenced nid h s \<longleftrightarrow> profile_inv s \<and> (\<exists>h'. dict_get (ps_highest s) nid = Some h' \<and> h \<le> h')
     \<and> (\<forall>e. dict_get (ps_entries s) nid = Some e \<longrightarrow> h < frame_seq (en_frame e))"

lemma fenced_step:
  assumes "fenced nid h s"
  shows "fenced nid h (snd (apply_announce H rd profile frame sv rcv s))"
proof -
  obtain r s' where a: "apply_announce H rd profile frame sv rcv s = (r, s')" by (metis surj_pair)
  have inv: "profile_inv s'" using profile_inv_step [of s H rd profile frame sv rcv] assms a by (simp add: fenced_def)
  from apply_announce_cases [OF a] consider "s' = s" | "stores frame s s'" | "withdraws frame s s'" by blast
  then have "fenced nid h s'"
  proof cases
    case 2
    then obtain n e where n: "en_frame e = frame"
        "s' = s\<lparr>ps_highest := dict_set n (frame_seq frame) (ps_highest s), ps_entries := dict_set n e (ps_entries s)\<rparr>"
        "dict_get (ps_highest s) n = None
         \<or> (\<exists>h. dict_get (ps_highest s) n = Some h \<and> (h < frame_seq frame \<or> h = frame_seq frame \<and> dict_get (ps_entries s) n \<noteq> None))"
      unfolding stores_def by blast
    show ?thesis
    proof (cases "n = nid")
      case True
      have "h < frame_seq frame"
        using n(3) assms True by (auto simp: fenced_def profile_inv_def)
      then show ?thesis using inv n(1,2) True by (simp add: fenced_def)
    next
      case False
      then show ?thesis using inv n(2) assms by (simp add: fenced_def)
    qed
  next
    case 3
    then obtain n where n: "s' = s\<lparr>ps_highest := dict_set n (frame_seq frame) (ps_highest s), ps_entries := dict_pop n (ps_entries s)\<rparr>"
        "\<forall>h. dict_get (ps_highest s) n = Some h \<longrightarrow> h < frame_seq frame"
      unfolding withdraws_def by blast
    then show ?thesis using inv assms by (cases "n = nid") (auto simp: fenced_def)
  qed (use assms in simp)
  then show ?thesis by (simp add: a)
qed

subsection \<open>Cluster election\<close>

definition selection_outcome :: "(string \<times> int) list \<Rightarrow> (string \<times> int) outcome" where
  "selection_outcome ms =
     (let c = select_members ms in
      case (cs_nid c, cs_epoch c) of
        (Some n, Some e) \<Rightarrow> Leader (n, e)
      | _ \<Rightarrow> if cs_error c = None then NoLeader else Split)"

lemma selection_outcome_eq:
  "selection_outcome ms = (if ms = [] then NoLeader else case leaders snd ms of [x] \<Rightarrow> Leader x | _ \<Rightarrow> Split)"
proof (cases "ms = []")
  case False
  let ?l = "leaders snd ms"
  have l: "filter (\<lambda>m. snd m = Max (snd ` set ms)) ms = ?l" by (simp add: leaders_def top_epoch_def)
  show ?thesis
  proof (cases "\<exists>x. ?l = [x]")
    case True
    then obtain x where x: "?l = [x]" by blast
    have "x \<in> set ?l" by (simp add: x)
    then have "snd x = Max (snd ` set ms)" by (simp add: leaders_def top_epoch_def)
    then show ?thesis using False x by (simp add: selection_outcome_def select_members_def Let_def l prod_eq_iff)
  next
    case nx: False
    then have "length (sort (map fst ?l)) \<noteq> 1" by (auto simp: length_Suc_conv)
    moreover have "(case ?l of [x] \<Rightarrow> Leader x | _ \<Rightarrow> Split) = Split" using nx by (auto split: list.splits)
    ultimately show ?thesis using False by (simp add: selection_outcome_def select_members_def Let_def l)
  qed
qed (simp add: selection_outcome_def select_members_def)

interpretation profile_cluster: election "snd :: string \<times> int \<Rightarrow> int" selection_outcome
proof
  show "(selection_outcome xs = NoLeader) = (xs = [])" for xs
    by (auto simp: selection_outcome_eq split: list.splits)
  show "(selection_outcome xs = Leader x) = (leaders snd xs = [x])" for xs x
    by (auto simp: selection_outcome_eq leaders_def split: list.splits)
qed

lemma select_members_leader:
  assumes "cs_nid (select_members ms) = Some n" "cs_epoch (select_members ms) = Some e"
  shows "(n, e) \<in> set ms" "m \<in> set ms \<Longrightarrow> m = (n, e) \<or> snd m < e"
proof -
  have l: "selection_outcome ms = Leader (n, e)" using assms by (simp add: selection_outcome_def)
  show "(n, e) \<in> set ms" by (rule profile_cluster.leader_is_highest(1) [OF l])
  show "m \<in> set ms \<Longrightarrow> m = (n, e) \<or> snd m < e" using profile_cluster.leader_is_highest(2) [OF l, of m] by simp
qed

section \<open>Properties\<close>

definition ex_reader :: iso_reader where
  "ex_reader s = Some \<lparr>dt_local = 1000000, dt_offset = 0\<rparr>"

definition ex_now :: datetime where
  "ex_now = \<lparr>dt_local = 2000000, dt_offset = 0\<rparr>"

definition ex_ann :: "int \<Rightarrow> int \<Rightarrow> pyval dict" where
  "ex_ann sequence ttl = [(''nid'', PStr ''n''), (''timestamp'', PStr ''t''), (''graph_seq'', PInt sequence), (''ttl'', PInt ttl)]"

definition ex_live :: profile_state where
  "ex_live = profile_run ex_hash ex_reader ''local-dev'' [(ex_ann 5 60, True, ex_now), (ex_ann 4 60, True, ex_now)] empty_profile"

text \<open>
  The registry profile stays consistent over any run of announcements: an entry is stored under
  the id its frame carries, and the highest sequence on record for that id is the one of the stored
  frame. An announcement that is rejected or a duplicate changes nothing.
\<close>

theorem profile_consistent:
  "(\<forall>nid e. dict_get (ps_entries (profile_run H rd profile evs empty_profile)) nid = Some e \<longrightarrow>
      fget (en_frame e) ''nid'' = PStr nid
      \<and> dict_get (ps_highest (profile_run H rd profile evs empty_profile)) nid = Some (frame_seq (en_frame e)))
   \<and> (\<forall>frame sv rcv s. fst (apply_announce H rd profile frame sv rcv s) \<in> {Inr (REJECTED, c), Inr (DUPLICATE, c)} \<longrightarrow>
        snd (apply_announce H rd profile frame sv rcv s) = s)"
proof (intro conjI)
  have "profile_inv (profile_run H rd profile evs empty_profile)"
    by (rule profile_run_induct) (simp_all add: profile_inv_step, simp add: profile_inv_def empty_profile_def)
  then show "\<forall>nid e. dict_get (ps_entries (profile_run H rd profile evs empty_profile)) nid = Some e \<longrightarrow>
      fget (en_frame e) ''nid'' = PStr nid
      \<and> dict_get (ps_highest (profile_run H rd profile evs empty_profile)) nid = Some (frame_seq (en_frame e))"
    by (simp add: profile_inv_def)
  show "\<forall>frame sv rcv s. fst (apply_announce H rd profile frame sv rcv s) \<in> {Inr (REJECTED, c), Inr (DUPLICATE, c)} \<longrightarrow>
        snd (apply_announce H rd profile frame sv rcv s) = s"
  proof (intro allI impI)
    fix frame sv rcv s
    assume r: "fst (apply_announce H rd profile frame sv rcv s) \<in> {Inr (REJECTED, c), Inr (DUPLICATE, c)}"
    show "snd (apply_announce H rd profile frame sv rcv s) = s"
      using apply_announce_cases [OF prod.collapse [symmetric], of H rd profile frame sv rcv s] r by auto
  qed
qed

theorem profile_consistent_witness:
  "\<exists>e. dict_get (ps_entries ex_live) ''n'' = Some e \<and> frame_seq (en_frame e) = 5 \<and> dict_get (ps_highest ex_live) ''n'' = Some 5"
proof -
  obtain e where e: "dict_get (ps_entries ex_live) ''n'' = Some e" "frame_seq (en_frame e) = 5"
    by (rule that [of "the (dict_get (ps_entries ex_live) ''n'')"]) code_simp+
  then have "dict_get (ps_highest ex_live) ''n'' = Some (frame_seq (en_frame e))"
    using profile_consistent [of ex_hash ex_reader "''local-dev''"] unfolding ex_live_def by blast
  then show ?thesis using e by auto
qed

text \<open>
  C25: A withdrawal is final. Once an announcement has removed an id, no run of announcements whatever
  makes the id live again with a frame whose sequence number is at or below that of the withdrawal, so
  replaying older announcements cannot resurrect the node.
\<close>

theorem withdrawal_is_final:
  assumes "profile_inv s" "apply_announce H rd profile frame sv rcv s = (Inr (REMOVED, c), s')"
    and "fget frame ''nid'' = PStr nid"
    and "dict_get (ps_entries (profile_run H rd profile evs s')) nid = Some e"
  shows "frame_seq frame < frame_seq (en_frame e)"
proof -
  have w: "withdraws frame s s'" using apply_announce_cases [OF assms(2)] by auto
  have "profile_inv s'" using profile_inv_step [OF assms(1), of H rd profile frame sv rcv] assms(2) by simp
  then have "fenced nid (frame_seq frame) s'" using w assms(3) by (auto simp: fenced_def withdraws_def)
  then have "fenced nid (frame_seq frame) (profile_run H rd profile evs s')"
    by (rule profile_run_induct) (rule fenced_step)
  then show ?thesis using assms(4) by (simp add: fenced_def)
qed

theorem withdrawal_is_final_witness:
  "\<exists>s'. apply_announce ex_hash ex_reader ''local-dev'' (ex_ann 6 0) True ex_now ex_live = (Inr (REMOVED, None), s')
     \<and> (\<forall>e. dict_get (ps_entries (profile_run ex_hash ex_reader ''local-dev'' [(ex_ann 5 60, True, ex_now), (ex_ann 7 60, True, ex_now)] s')) ''n'' = Some e
          \<longrightarrow> 6 < frame_seq (en_frame e))"
proof -
  let ?s = "snd (apply_announce ex_hash ex_reader ''local-dev'' (ex_ann 6 0) True ex_now ex_live)"
  have a: "apply_announce ex_hash ex_reader ''local-dev'' (ex_ann 6 0) True ex_now ex_live = (Inr (REMOVED, None), ?s)"
    by code_simp
  have inv: "profile_inv ex_live"
    unfolding ex_live_def by (rule profile_run_induct) (simp_all add: profile_inv_step, simp add: profile_inv_def empty_profile_def)
  have n: "fget (ex_ann 6 0) ''nid'' = PStr ''n''" and q: "frame_seq (ex_ann 6 0) = 6" by code_simp+
  show ?thesis using withdrawal_is_final [OF inv a n] a q by auto
qed

text \<open>
  Without a sequence number (allowed in the \<open>local-dev\<close> profile) every frame counts as sequence zero:
  an id that has announced itself once can neither change its announcement nor withdraw.
\<close>

definition ttl_hash :: canon_hash where
  "ttl_hash = ex_hash\<lparr>dumps_sorted := (\<lambda>v. Inr (case v of PDict d \<Rightarrow> (if dict_item d ''ttl'' = Inr (PInt 0) then ''0'' else ''1'') | _ \<Rightarrow> []))\<rparr>"

lemma unsequenced_cannot_change:
  "fst (apply_announce ttl_hash ex_reader ''local-dev'' (dict_pop ''graph_seq'' (ex_ann 0 0)) True ex_now
     (profile_run ttl_hash ex_reader ''local-dev'' [(dict_pop ''graph_seq'' (ex_ann 0 60), True, ex_now)] empty_profile))
   = Inr (REJECTED, Some ''NDP-ANNOUNCE-CONFLICT'')"
  by code_simp

end
