(* ===== verification/NopFrames.thy ===== *)
theory NopFrames
  imports NcpFrames
begin

text \<open>
  The orchestration frames (\<open>nps_sdk/nop/frames.py\<close>) and the task-graph dataclasses they carry
  (\<open>nps_sdk/nop/models.py\<close>) with \<open>to_dict\<close> and \<open>from_dict\<close>. As in the other frame theories an
  attribute that \<open>from_dict\<close> takes as it comes is a \<^typ>\<open>pyval\<close>.
\<close>

section \<open>Task graphs\<close>

record retry_policy =
  rp_max_retries :: int
  rp_backoff :: pyval
  rp_initial_delay_ms :: int
  rp_max_delay_ms :: int
  rp_retry_on :: "pyval list"

definition retry_policy_to_dict :: "retry_policy \<Rightarrow> pyval" where
  "retry_policy_to_dict f =
     PDict ([(''max_retries'', PInt (rp_max_retries f)), (''backoff'', rp_backoff f),
              (''initial_delay_ms'', PInt (rp_initial_delay_ms f)),
              (''max_delay_ms'', PInt (rp_max_delay_ms f))]
       @ (if rp_retry_on f \<noteq> [] then [(''retry_on'', PList (rp_retry_on f))] else []))"

definition retry_policy_from_dict :: "pyval \<Rightarrow> retry_policy res" where
  "retry_policy_from_dict data =
     res_bind (py_get_or data ''max_retries'' (PInt 2)) (\<lambda>r_max_retries.
     res_bind (py_int r_max_retries) (\<lambda>v_max_retries.
     res_bind (py_get_or data ''backoff'' (PStr ''exponential'')) (\<lambda>v_backoff.
     res_bind (py_get_or data ''initial_delay_ms'' (PInt 1000)) (\<lambda>r_initial_delay_ms.
     res_bind (py_int r_initial_delay_ms) (\<lambda>v_initial_delay_ms.
     res_bind (py_get_or data ''max_delay_ms'' (PInt 30000)) (\<lambda>r_max_delay_ms.
     res_bind (py_int r_max_delay_ms) (\<lambda>v_max_delay_ms.
     res_bind (py_get_or data ''retry_on'' (PList [])) (\<lambda>r_retry_on.
     res_bind (py_iter r_retry_on) (\<lambda>v_retry_on.
       Inr \<lparr>rp_max_retries = v_max_retries, rp_backoff = v_backoff,
            rp_initial_delay_ms = v_initial_delay_ms, rp_max_delay_ms = v_max_delay_ms,
            rp_retry_on = v_retry_on\<rparr>)))))))))"

record task_context =
  tc_session_id :: pyval
  tc_trace_id :: pyval
  tc_span_id :: pyval
  tc_trace_flags :: pyval
  tc_baggage :: pyval
  tc_custom :: pyval

definition task_context_to_dict :: "task_context \<Rightarrow> pyval" where
  "task_context_to_dict f =
     PDict (not_none ''session_id'' (tc_session_id f)
       @ not_none ''trace_id'' (tc_trace_id f)
       @ not_none ''span_id'' (tc_span_id f)
       @ not_none ''trace_flags'' (tc_trace_flags f)
       @ not_none ''baggage'' (tc_baggage f)
       @ not_none ''custom'' (tc_custom f))"

definition task_context_from_dict :: "pyval \<Rightarrow> task_context res" where
  "task_context_from_dict data =
     res_bind (py_get data ''session_id'') (\<lambda>v_session_id.
     res_bind (py_get data ''trace_id'') (\<lambda>v_trace_id.
     res_bind (py_get data ''span_id'') (\<lambda>v_span_id.
     res_bind (py_get data ''trace_flags'') (\<lambda>v_trace_flags.
     res_bind (py_get data ''baggage'') (\<lambda>v_baggage.
     res_bind (py_get data ''custom'') (\<lambda>v_custom.
       Inr \<lparr>tc_session_id = v_session_id, tc_trace_id = v_trace_id,
            tc_span_id = v_span_id, tc_trace_flags = v_trace_flags, tc_baggage = v_baggage,
            tc_custom = v_custom\<rparr>))))))"

record dag_edge =
  de_from :: pyval
  de_to :: pyval

definition dag_edge_to_dict :: "dag_edge \<Rightarrow> pyval" where
  "dag_edge_to_dict f =
     PDict ([(''from'', de_from f), (''to'', de_to f)])"

definition dag_edge_from_dict :: "pyval \<Rightarrow> dag_edge res" where
  "dag_edge_from_dict data =
     res_bind (py_item data ''from'') (\<lambda>v_from.
     res_bind (py_item data ''to'') (\<lambda>v_to.
       Inr \<lparr>de_from = v_from, de_to = v_to\<rparr>))"

record dag_node =
  dn_id :: pyval
  dn_action :: pyval
  dn_agent :: pyval
  dn_input_from :: "pyval list"
  dn_input_mapping :: pyval
  dn_timeout_ms :: pyval
  dn_retry_policy :: "retry_policy option"
  dn_condition :: pyval
  dn_min_required :: int
  dn_compensate_action :: pyval
  dn_compensate_params_mapping :: pyval

definition dag_node_to_dict :: "dag_node \<Rightarrow> pyval" where
  "dag_node_to_dict f =
     PDict ([(''id'', dn_id f), (''action'', dn_action f), (''agent'', dn_agent f)]
       @ (if dn_input_from f \<noteq> [] then [(''input_from'', PList (dn_input_from f))] else [])
       @ not_none ''input_mapping'' (dn_input_mapping f)
       @ not_none ''timeout_ms'' (dn_timeout_ms f)
       @ not_none ''retry_policy'' (opt_val retry_policy_to_dict (dn_retry_policy f))
       @ not_none ''condition'' (dn_condition f)
       @ (if dn_min_required f \<noteq> 0 then [(''min_required'', PInt (dn_min_required f))] else [])
       @ not_none ''compensate_action'' (dn_compensate_action f)
       @ not_none ''compensate_params_mapping'' (dn_compensate_params_mapping f))"

definition dag_node_from_dict :: "pyval \<Rightarrow> dag_node res" where
  "dag_node_from_dict data =
     res_bind (py_get data ''retry_policy'') (\<lambda>rp_raw.
     res_bind (py_item data ''id'') (\<lambda>v_id.
     res_bind (py_item data ''action'') (\<lambda>v_action.
     res_bind (py_item data ''agent'') (\<lambda>v_agent.
     res_bind (py_get_or data ''input_from'' (PList [])) (\<lambda>r_input_from.
     res_bind (py_iter r_input_from) (\<lambda>v_input_from.
     res_bind (py_get data ''input_mapping'') (\<lambda>v_input_mapping.
     res_bind (py_get data ''timeout_ms'') (\<lambda>v_timeout_ms.
     res_bind (opt_sub retry_policy_from_dict rp_raw) (\<lambda>v_retry_policy.
     res_bind (py_get data ''condition'') (\<lambda>v_condition.
     res_bind (py_get_or data ''min_required'' (PInt 0)) (\<lambda>r_min_required.
     res_bind (py_int r_min_required) (\<lambda>v_min_required.
     res_bind (py_get data ''compensate_action'') (\<lambda>v_compensate_action.
     res_bind (py_get data ''compensate_params_mapping'') (\<lambda>v_compensate_params_mapping.
       Inr \<lparr>dn_id = v_id, dn_action = v_action, dn_agent = v_agent,
            dn_input_from = v_input_from, dn_input_mapping = v_input_mapping,
            dn_timeout_ms = v_timeout_ms, dn_retry_policy = v_retry_policy,
            dn_condition = v_condition, dn_min_required = v_min_required,
            dn_compensate_action = v_compensate_action,
            dn_compensate_params_mapping = v_compensate_params_mapping\<rparr>))))))))))))))"

record task_dag =
  td_nodes :: "dag_node list"
  td_edges :: "dag_edge list"

definition task_dag_to_dict :: "task_dag \<Rightarrow> pyval" where
  "task_dag_to_dict f =
     PDict ([(''nodes'', PList (map dag_node_to_dict (td_nodes f))),
              (''edges'', PList (map dag_edge_to_dict (td_edges f)))])"

definition task_dag_from_dict :: "pyval \<Rightarrow> task_dag res" where
  "task_dag_from_dict data =
     res_bind (py_get_or data ''nodes'' (PList [])) (\<lambda>r_nodes.
     res_bind (py_iter r_nodes) (\<lambda>l_nodes.
     res_bind (res_map dag_node_from_dict l_nodes) (\<lambda>v_nodes.
     res_bind (py_get_or data ''edges'' (PList [])) (\<lambda>r_edges.
     res_bind (py_iter r_edges) (\<lambda>l_edges.
     res_bind (res_map dag_edge_from_dict l_edges) (\<lambda>v_edges.
       Inr \<lparr>td_nodes = v_nodes, td_edges = v_edges\<rparr>))))))"

section \<open>Frames\<close>

record task_frame =
  tf_task_id :: pyval
  tf_dag :: task_dag
  tf_timeout_ms :: int
  tf_max_retries :: int
  tf_priority :: pyval
  tf_callback_url :: pyval
  tf_callback_secret :: pyval
  tf_preflight :: bool
  tf_context :: "task_context option"
  tf_request_id :: pyval
  tf_delegate_depth :: int
  tf_compensation_policy :: pyval

definition task_to_dict :: "task_frame \<Rightarrow> pyval" where
  "task_to_dict f =
     PDict ([(''task_id'', tf_task_id f), (''dag'', task_dag_to_dict (tf_dag f)),
              (''timeout_ms'', PInt (tf_timeout_ms f)), (''max_retries'', PInt (tf_max_retries f)),
              (''priority'', tf_priority f), (''preflight'', PBool (tf_preflight f)),
              (''delegate_depth'', PInt (tf_delegate_depth f))]
       @ not_none ''callback_url'' (tf_callback_url f)
       @ not_none ''callback_secret'' (tf_callback_secret f)
       @ not_none ''context'' (opt_val task_context_to_dict (tf_context f))
       @ not_none ''request_id'' (tf_request_id f)
       @ (if tf_compensation_policy f \<noteq> PStr ''none'' then [(''compensation_policy'', tf_compensation_policy f)] else []))"

definition task_from_dict :: "pyval \<Rightarrow> task_frame res" where
  "task_from_dict data =
     res_bind (py_get data ''context'') (\<lambda>ctx_raw.
     res_bind (py_item data ''task_id'') (\<lambda>v_task_id.
     res_bind (py_item data ''dag'') (\<lambda>r_dag.
     res_bind (task_dag_from_dict r_dag) (\<lambda>v_dag.
     res_bind (py_get_or data ''timeout_ms'' (PInt 30000)) (\<lambda>r_timeout_ms.
     res_bind (py_int r_timeout_ms) (\<lambda>v_timeout_ms.
     res_bind (py_get_or data ''max_retries'' (PInt 2)) (\<lambda>r_max_retries.
     res_bind (py_int r_max_retries) (\<lambda>v_max_retries.
     res_bind (py_get_or data ''priority'' (PStr ''normal'')) (\<lambda>v_priority.
     res_bind (py_get data ''callback_url'') (\<lambda>v_callback_url.
     res_bind (py_get data ''callback_secret'') (\<lambda>v_callback_secret.
     res_bind (py_get_or data ''preflight'' (PBool False)) (\<lambda>v_preflight.
     res_bind (opt_sub task_context_from_dict ctx_raw) (\<lambda>v_context.
     res_bind (py_get data ''request_id'') (\<lambda>v_request_id.
     res_bind (py_get_or data ''delegate_depth'' (PInt 0)) (\<lambda>r_delegate_depth.
     res_bind (py_int r_delegate_depth) (\<lambda>v_delegate_depth.
     res_bind (py_get_or data ''compensation_policy'' (PStr ''none'')) (\<lambda>v_compensation_policy.
       Inr \<lparr>tf_task_id = v_task_id, tf_dag = v_dag, tf_timeout_ms = v_timeout_ms,
            tf_max_retries = v_max_retries, tf_priority = v_priority,
            tf_callback_url = v_callback_url, tf_callback_secret = v_callback_secret,
            tf_preflight = py_bool v_preflight, tf_context = v_context,
            tf_request_id = v_request_id, tf_delegate_depth = v_delegate_depth,
            tf_compensation_policy = v_compensation_policy\<rparr>)))))))))))))))))"

record delegate_frame =
  df_parent_task_id :: pyval
  df_subtask_id :: pyval
  df_node_id :: pyval
  df_target_agent_nid :: pyval
  df_action :: pyval
  df_delegated_scope :: pyval
  df_deadline_at :: pyval
  df_params :: pyval
  df_idempotency_key :: pyval
  df_priority :: pyval
  df_context :: "task_context option"
  df_delegate_depth :: int
  df_target_cluster_anchor :: pyval

definition delegate_to_dict :: "delegate_frame \<Rightarrow> pyval" where
  "delegate_to_dict f =
     PDict ([(''parent_task_id'', df_parent_task_id f), (''subtask_id'', df_subtask_id f),
              (''node_id'', df_node_id f), (''target_agent_nid'', df_target_agent_nid f),
              (''action'', df_action f), (''delegated_scope'', df_delegated_scope f),
              (''deadline_at'', df_deadline_at f), (''delegate_depth'', PInt (df_delegate_depth f))]
       @ not_none ''params'' (df_params f)
       @ not_none ''idempotency_key'' (df_idempotency_key f)
       @ not_none ''priority'' (df_priority f)
       @ not_none ''context'' (opt_val task_context_to_dict (df_context f))
       @ not_none ''target_cluster_anchor'' (df_target_cluster_anchor f))"

definition delegate_from_dict :: "pyval \<Rightarrow> delegate_frame res" where
  "delegate_from_dict data =
     res_bind (py_get data ''context'') (\<lambda>ctx_raw.
     res_bind (py_item data ''parent_task_id'') (\<lambda>v_parent_task_id.
     res_bind (py_item data ''subtask_id'') (\<lambda>v_subtask_id.
     res_bind (py_item data ''node_id'') (\<lambda>v_node_id.
     res_bind (py_item data ''target_agent_nid'') (\<lambda>v_target_agent_nid.
     res_bind (py_item data ''action'') (\<lambda>v_action.
     res_bind (py_item data ''delegated_scope'') (\<lambda>v_delegated_scope.
     res_bind (py_item data ''deadline_at'') (\<lambda>v_deadline_at.
     res_bind (py_get data ''params'') (\<lambda>v_params.
     res_bind (py_get data ''idempotency_key'') (\<lambda>v_idempotency_key.
     res_bind (py_get data ''priority'') (\<lambda>v_priority.
     res_bind (opt_sub task_context_from_dict ctx_raw) (\<lambda>v_context.
     res_bind (py_get_or data ''delegate_depth'' (PInt 1)) (\<lambda>r_delegate_depth.
     res_bind (py_int r_delegate_depth) (\<lambda>v_delegate_depth.
     res_bind (py_get data ''target_cluster_anchor'') (\<lambda>v_target_cluster_anchor.
       Inr \<lparr>df_parent_task_id = v_parent_task_id, df_subtask_id = v_subtask_id,
            df_node_id = v_node_id, df_target_agent_nid = v_target_agent_nid,
            df_action = v_action, df_delegated_scope = v_delegated_scope,
            df_deadline_at = v_deadline_at, df_params = v_params,
            df_idempotency_key = v_idempotency_key, df_priority = v_priority,
            df_context = v_context, df_delegate_depth = v_delegate_depth,
            df_target_cluster_anchor = v_target_cluster_anchor\<rparr>)))))))))))))))"

record sync_frame =
  sy_task_id :: pyval
  sy_sync_id :: pyval
  sy_wait_for :: "pyval list"
  sy_min_required :: int
  sy_aggregate :: pyval
  sy_timeout_ms :: pyval

definition sync_to_dict :: "sync_frame \<Rightarrow> pyval" where
  "sync_to_dict f =
     PDict ([(''task_id'', sy_task_id f), (''sync_id'', sy_sync_id f),
              (''wait_for'', PList (sy_wait_for f)), (''min_required'', PInt (sy_min_required f)),
              (''aggregate'', sy_aggregate f)]
       @ not_none ''timeout_ms'' (sy_timeout_ms f))"

definition sync_from_dict :: "pyval \<Rightarrow> sync_frame res" where
  "sync_from_dict data =
     res_bind (py_item data ''task_id'') (\<lambda>v_task_id.
     res_bind (py_item data ''sync_id'') (\<lambda>v_sync_id.
     res_bind (py_get_or data ''wait_for'' (PList [])) (\<lambda>r_wait_for.
     res_bind (py_iter r_wait_for) (\<lambda>v_wait_for.
     res_bind (py_get_or data ''min_required'' (PInt 0)) (\<lambda>r_min_required.
     res_bind (py_int r_min_required) (\<lambda>v_min_required.
     res_bind (py_get_or data ''aggregate'' (PStr ''merge'')) (\<lambda>v_aggregate.
     res_bind (py_get data ''timeout_ms'') (\<lambda>v_timeout_ms.
       Inr \<lparr>sy_task_id = v_task_id, sy_sync_id = v_sync_id, sy_wait_for = v_wait_for,
            sy_min_required = v_min_required, sy_aggregate = v_aggregate,
            sy_timeout_ms = v_timeout_ms\<rparr>))))))))"

record stream_error =
  ser_error_code :: pyval
  ser_message :: pyval

definition stream_error_to_dict :: "stream_error \<Rightarrow> pyval" where
  "stream_error_to_dict f =
     PDict ([(''error_code'', ser_error_code f), (''message'', ser_message f)])"

definition stream_error_from_dict :: "pyval \<Rightarrow> stream_error res" where
  "stream_error_from_dict data =
     res_bind (py_item data ''error_code'') (\<lambda>v_error_code.
     res_bind (py_item data ''message'') (\<lambda>v_message.
       Inr \<lparr>ser_error_code = v_error_code, ser_message = v_message\<rparr>))"

record align_frame =
  al_stream_id :: pyval
  al_task_id :: pyval
  al_subtask_id :: pyval
  al_seq :: int
  al_is_final :: bool
  al_sender_nid :: pyval
  al_data :: pyval
  al_payload_ref :: pyval
  al_window_size :: pyval
  al_error :: "stream_error option"
  al_ack_seq :: pyval
  al_nak_seq :: pyval

definition align_to_dict :: "align_frame \<Rightarrow> pyval" where
  "align_to_dict f =
     PDict ([(''stream_id'', al_stream_id f), (''task_id'', al_task_id f),
              (''subtask_id'', al_subtask_id f), (''seq'', PInt (al_seq f)),
              (''is_final'', PBool (al_is_final f)), (''sender_nid'', al_sender_nid f)]
       @ not_none ''data'' (al_data f)
       @ not_none ''payload_ref'' (al_payload_ref f)
       @ not_none ''window_size'' (al_window_size f)
       @ not_none ''error'' (opt_val stream_error_to_dict (al_error f))
       @ not_none ''ack_seq'' (al_ack_seq f)
       @ not_none ''nak_seq'' (al_nak_seq f))"

definition align_from_dict :: "pyval \<Rightarrow> align_frame res" where
  "align_from_dict data =
     res_bind (py_get data ''error'') (\<lambda>err_raw.
     res_bind (py_item data ''stream_id'') (\<lambda>v_stream_id.
     res_bind (py_item data ''task_id'') (\<lambda>v_task_id.
     res_bind (py_item data ''subtask_id'') (\<lambda>v_subtask_id.
     res_bind (py_item data ''seq'') (\<lambda>r_seq.
     res_bind (py_int r_seq) (\<lambda>v_seq.
     res_bind (py_item data ''is_final'') (\<lambda>v_is_final.
     res_bind (py_item data ''sender_nid'') (\<lambda>v_sender_nid.
     res_bind (py_get data ''data'') (\<lambda>v_data.
     res_bind (py_get data ''payload_ref'') (\<lambda>v_payload_ref.
     res_bind (py_get data ''window_size'') (\<lambda>v_window_size.
     res_bind (opt_sub stream_error_from_dict err_raw) (\<lambda>v_error.
     res_bind (py_get data ''ack_seq'') (\<lambda>v_ack_seq.
     res_bind (py_get data ''nak_seq'') (\<lambda>v_nak_seq.
       Inr \<lparr>al_stream_id = v_stream_id, al_task_id = v_task_id,
            al_subtask_id = v_subtask_id, al_seq = v_seq, al_is_final = py_bool v_is_final,
            al_sender_nid = v_sender_nid, al_data = v_data, al_payload_ref = v_payload_ref,
            al_window_size = v_window_size, al_error = v_error, al_ack_seq = v_ack_seq,
            al_nak_seq = v_nak_seq\<rparr>))))))))))))))"

section \<open>The orchestration frames as the codec sees them\<close>

datatype nop_frame =
    NTask task_frame | NDelegate delegate_frame | NSync sync_frame | NAlign align_frame

fun nop_class :: "nop_frame \<Rightarrow> frame_class" where
  "nop_class (NTask _) = TaskFrame"
| "nop_class (NDelegate _) = DelegateFrame"
| "nop_class (NSync _) = SyncFrame"
| "nop_class (NAlign _) = AlignStreamFrame"

fun nop_type :: "nop_frame \<Rightarrow> frame_type" where
  "nop_type (NTask _) = TASK"
| "nop_type (NDelegate _) = DELEGATE"
| "nop_type (NSync _) = SYNC"
| "nop_type (NAlign _) = ALIGN_STREAM"

fun nop_to_dict :: "nop_frame \<Rightarrow> pyval" where
  "nop_to_dict (NTask f) = task_to_dict f"
| "nop_to_dict (NDelegate f) = delegate_to_dict f"
| "nop_to_dict (NSync f) = sync_to_dict f"
| "nop_to_dict (NAlign f) = align_to_dict f"

definition nop_from_dict :: "frame_class \<Rightarrow> pyval \<Rightarrow> nop_frame res" where
  "nop_from_dict cls data =
     (case cls of
        TaskFrame \<Rightarrow> res_wrap NTask (task_from_dict data)
      | DelegateFrame \<Rightarrow> res_wrap NDelegate (delegate_from_dict data)
      | SyncFrame \<Rightarrow> res_wrap NSync (sync_from_dict data)
      | AlignStreamFrame \<Rightarrow> res_wrap NAlign (align_from_dict data)
      | _ \<Rightarrow> Inl AttributeError)"

definition nop_api :: "nop_frame frame_api" where
  "nop_api = \<lparr>fa_type = nop_type, fa_tier = (\<lambda>_. MSGPACK), fa_to_dict = nop_to_dict,
     fa_stream_last = (\<lambda>_. None), fa_from_dict = nop_from_dict\<rparr>"

text \<open>A context that is present but carries nothing is an empty dictionary, which reads as absent.\<close>

definition context_wf :: "task_context option \<Rightarrow> bool" where
  "context_wf c = (case c of None \<Rightarrow> True | Some x \<Rightarrow> task_context_to_dict x \<noteq> PDict [])"

fun nop_wf :: "nop_frame \<Rightarrow> bool" where
  "nop_wf (NTask f) = context_wf (tf_context f)"
| "nop_wf (NDelegate f) = context_wf (df_context f)"
| "nop_wf _ = True"

section \<open>Lemmas\<close>

lemma opt_val_dict_None [simp]:
  "opt_val retry_policy_to_dict a = PNone \<longleftrightarrow> a = None"
  "opt_val task_context_to_dict b = PNone \<longleftrightarrow> b = None"
  "opt_val stream_error_to_dict c = PNone \<longleftrightarrow> c = None"
  by (cases a; cases b; cases c; simp add: retry_policy_to_dict_def task_context_to_dict_def stream_error_to_dict_def)+

lemma retry_policy_dict [simp]: "retry_policy_from_dict (retry_policy_to_dict f) = Inr f"
  by (simp add: retry_policy_from_dict_def retry_policy_to_dict_def map_add_def)

lemma task_context_dict [simp]: "task_context_from_dict (task_context_to_dict f) = Inr f"
  by (simp add: task_context_from_dict_def task_context_to_dict_def map_add_def)

lemma dag_edge_dict [simp]: "dag_edge_from_dict (dag_edge_to_dict f) = Inr f"
  by (simp add: dag_edge_from_dict_def dag_edge_to_dict_def)

lemma stream_error_dict [simp]: "stream_error_from_dict (stream_error_to_dict f) = Inr f"
  by (simp add: stream_error_from_dict_def stream_error_to_dict_def)

lemma sub_truthy [simp]: "py_bool (retry_policy_to_dict p)" "py_bool (stream_error_to_dict e)"
  by (simp_all add: retry_policy_to_dict_def stream_error_to_dict_def)

lemma opt_sub_simps [simp]:
  "opt_sub retry_policy_from_dict (opt_val retry_policy_to_dict x) = Inr x"
  "opt_sub stream_error_from_dict (opt_val stream_error_to_dict y) = Inr y"
  by (rule opt_sub_opt_val; simp)+

lemma context_truthy: "py_bool (task_context_to_dict x) \<longleftrightarrow> task_context_to_dict x \<noteq> PDict []"
  by (simp add: task_context_to_dict_def)

lemma opt_sub_context:
  "context_wf c \<Longrightarrow> opt_sub task_context_from_dict (opt_val task_context_to_dict c) = Inr c"
  by (rule opt_sub_opt_val) (simp add: context_wf_def context_truthy)

lemma dag_node_dict [simp]: "dag_node_from_dict (dag_node_to_dict f) = Inr f"
  by (simp add: dag_node_from_dict_def dag_node_to_dict_def map_add_def)

lemma task_dag_dict [simp]: "task_dag_from_dict (task_dag_to_dict f) = Inr f"
  by (simp add: task_dag_from_dict_def task_dag_to_dict_def res_map_id)

lemma task_dict: "context_wf (tf_context f) \<Longrightarrow> task_from_dict (task_to_dict f) = Inr f"
  using opt_sub_context by (simp add: task_from_dict_def task_to_dict_def map_add_def)

lemma delegate_dict: "context_wf (df_context f) \<Longrightarrow> delegate_from_dict (delegate_to_dict f) = Inr f"
  using opt_sub_context by (simp add: delegate_from_dict_def delegate_to_dict_def map_add_def)

lemma sync_dict [simp]: "sync_from_dict (sync_to_dict f) = Inr f"
  by (simp add: sync_from_dict_def sync_to_dict_def map_add_def)

lemma align_dict [simp]: "align_from_dict (align_to_dict f) = Inr f"
  by (simp add: align_from_dict_def align_to_dict_def map_add_def)

lemma nop_dict: "nop_wf f \<Longrightarrow> nop_from_dict (nop_class f) (nop_to_dict f) = Inr f"
  by (cases f) (simp_all add: nop_from_dict_def task_dict delegate_dict)

lemma nop_no_vector: "\<exists>d. nop_to_dict f = PDict d \<and> map_of d ''vector_search'' = None"
  by (cases f) (simp_all add: task_to_dict_def delegate_to_dict_def sync_to_dict_def align_to_dict_def map_add_def)

lemma nop_api_simps [simp]:
  "fa_type nop_api = nop_type" "fa_to_dict nop_api = nop_to_dict" "fa_from_dict nop_api = nop_from_dict"
  by (simp_all add: nop_api_def)

interpretation nop: plain_frames nop_api nop_class nop_wf
  by unfold_locales (simp_all add: nop_dict nop_no_vector)

section \<open>Properties\<close>

text \<open>
  Every orchestration frame survives the wire at every tier, given libraries that read back its
  dictionary. The one exception is a tracing context that is present but empty.
\<close>

theorem nop_wire_roundtrip:
  assumes "nop_wf f" "lib_reads_back lib (nop_to_dict f)"
    and "registry_resolve reg (nop_type f) = Inr (nop_class f)"
    and "codec_encode lib nop_api maxp ov f = Inr wire"
  shows "codec_decode lib nop_api reg (wire @ rest) = Inr f"
  using nop.wire_roundtrip [of f lib reg maxp ov wire rest] assms by simp

definition ex_sync :: nop_frame where
  "ex_sync = NSync \<lparr>sy_task_id = PStr ''t'', sy_sync_id = PStr ''s'', sy_wait_for = [PStr ''a'', PStr ''b''],
     sy_min_required = 1, sy_aggregate = PStr ''merge'', sy_timeout_ms = PNone\<rparr>"

theorem nop_wire_roundtrip_witness:
  "\<exists>wire. codec_encode (one_value_lib (nop_to_dict ex_sync)) nop_api 65535 (Some JSON) ex_sync = Inr wire
     \<and> codec_decode (one_value_lib (nop_to_dict ex_sync)) nop_api create_full (wire @ [0]) = Inr ex_sync"
proof -
  let ?lib = "one_value_lib (nop_to_dict ex_sync)"
  have "tier_encode ?lib nop_api JSON ex_sync = Inr [0x7B, 0x7D]"
    by (simp add: tier_encode_def tier1_encode_def one_value_lib_def)
  moreover obtain hb where "header_to_bytes (frame_hdr nop_api ex_sync JSON 2) = Inr hb"
    using header_ok_to_bytes [OF frame_hdr_ok [of 2]] by (fastforce simp: header_consts)
  ultimately have enc: "codec_encode ?lib nop_api 65535 (Some JSON) ex_sync = Inr (hb @ [0x7B, 0x7D])"
    by (simp add: codec_encode_eq numeral_2_eq_2)
  have "codec_decode ?lib nop_api create_full ((hb @ [0x7B, 0x7D]) @ [0]) = Inr ex_sync"
    using one_value_reads_back
    by (intro nop_wire_roundtrip [OF _ _ _ enc])
      (simp_all add: ex_sync_def registry_resolve_def create_full_def registry_register_def)
  with enc show ?thesis by blast
qed

end
