(* ===== verification/NopCondition.thy ===== *)
theory NopCondition
  imports PyValue
begin

text \<open>
  Conditions and input mappings of a task graph: \<open>nps_sdk/nop/condition.py\<close> (tokenizer,
  recursive-descent parser that evaluates while it parses) and \<open>nps_sdk/nop/input_mapper.py\<close>.

  The tokenizer works on the suffix of the expression that starts at the scan position, and the
  parser on the tokens from \<open>_pos\<close> on; reading past the last token is the branch \<open>IndexError\<close>.
  Message texts and the interpreter's recursion limit are not represented.
  The second half gives the language an abstract syntax with a semantics of its own and relates
  the evaluator to it.
\<close>

section \<open>Limits\<close>

definition MAX_DAG_NODES :: nat where "MAX_DAG_NODES = 32"
definition MAX_DELEGATE_CHAIN_DEPTH :: int where "MAX_DELEGATE_CHAIN_DEPTH = 3"
definition MAX_CONDITION_LENGTH :: nat where "MAX_CONDITION_LENGTH = 512"
definition MAX_INPUT_MAPPING_DEPTH :: nat where "MAX_INPUT_MAPPING_DEPTH = 8"
definition DEFAULT_TIMEOUT_MS :: int where "DEFAULT_TIMEOUT_MS = 30000"
definition MAX_TIMEOUT_MS :: int where "MAX_TIMEOUT_MS = 3600000"
definition CALLBACK_MAX_RETRIES :: nat where "CALLBACK_MAX_RETRIES = 3"

section \<open>Input mapping\<close>

fun walk_path :: "string list \<Rightarrow> pyval \<Rightarrow> pyval" where
  "walk_path [] current = current"
| "walk_path (p # ps) current =
     (case current of
        PDict d \<Rightarrow> (case map_of d p of None \<Rightarrow> PNone | Some v \<Rightarrow> walk_path ps v)
      | _ \<Rightarrow> PNone)"

definition resolve :: "string \<Rightarrow> pyval dict \<Rightarrow> pyval res" where
  "resolve path context =
     (if path = [] \<or> py_strip path = [] then Inl NopMappingError
      else if \<not> py_startswith path ''$.'' then Inl NopMappingError
      else let parts = filter (\<lambda>p. p \<noteq> []) (split_on (CHR ''.'') path) in
           if length parts > MAX_INPUT_MAPPING_DEPTH + 1 then Inl NopMappingError
           else case parts of
                  p # node_id # rest \<Rightarrow>
                    (case map_of context node_id of
                       None \<Rightarrow> Inr PNone
                     | Some v \<Rightarrow> Inr (walk_path rest v))
                | _ \<Rightarrow> Inr (PDict context))"

definition resolve_spec :: "pyval \<Rightarrow> pyval dict \<Rightarrow> pyval res" where
  "resolve_spec spec context =
     (case spec of
        PStr p \<Rightarrow> resolve p context
      | PList ps \<Rightarrow>
          res_bind (res_map (\<lambda>p. case p of PStr s \<Rightarrow> resolve s context | _ \<Rightarrow> Inr p) ps) (\<lambda>vs.
            Inr (PList vs))
      | _ \<Rightarrow> Inr spec)"

fun build_loop :: "pyval dict \<Rightarrow> pyval dict \<Rightarrow> pyval dict \<Rightarrow> pyval dict res" where
  "build_loop [] context out = Inr out"
| "build_loop ((param_name, spec) # items) context out =
     res_bind (resolve_spec spec context) (\<lambda>v.
       build_loop items context (dict_set param_name v out))"

definition build_params :: "pyval dict option \<Rightarrow> pyval dict \<Rightarrow> pyval dict res" where
  "build_params input_mapping context =
     (case input_mapping of None \<Rightarrow> Inr [] | Some m \<Rightarrow> build_loop m context [])"

section \<open>Tokens\<close>

datatype tok =
    DOLLAR_PATH | NUMBER | STRING | TRUE | FALSE | NULL | GT | GTE | LT | LTE | EQ | NEQ
  | AND | OR | NOT | LPAREN | RPAREN | EOF

record token =
  kind :: tok
  raw :: string

definition Token :: "tok \<Rightarrow> string \<Rightarrow> token" where
  "Token k r = \<lparr>kind = k, raw = r\<rparr>"

definition comparison_ops :: "tok list" where
  "comparison_ops = [GT, GTE, LT, LTE, EQ, NEQ]"

definition two_map :: "string \<rightharpoonup> tok" where
  "two_map = map_of [(''>='', GTE), (''<='', LTE), (''=='', EQ), (''!='', NEQ), (''&&'', AND), (''||'', OR)]"

definition one_map :: "char \<rightharpoonup> tok" where
  "one_map = map_of [(CHR ''>'', GT), (CHR ''<'', LT), (CHR ''!'', NOT), (CHR ''('', LPAREN), (CHR '')'', RPAREN)]"

definition path_char :: "char \<Rightarrow> bool" where
  "path_char c = (py_isalnum c \<or> c \<in> set ''_.$'')"

definition number_char :: "char \<Rightarrow> bool" where
  "number_char c = (py_isdigit c \<or> c = CHR ''.'')"

text \<open>One pass of the loop body at a character that is not white space: the token and what follows it.\<close>

definition next_token :: "char \<Rightarrow> string \<Rightarrow> (token \<times> string) res" where
  "next_token c s =
     (if c = CHR ''$'' \<and> s \<noteq> [] \<and> hd s = CHR ''.'' then
        Inr (Token DOLLAR_PATH (takeWhile path_char (c # s)), dropWhile path_char (c # s))
      else if c = CHR 34 then
        Inr (Token STRING (takeWhile (\<lambda>x. x \<noteq> CHR 34) s), drop 1 (dropWhile (\<lambda>x. x \<noteq> CHR 34) s))
      else if py_isdigit c \<or> (c = CHR ''-'' \<and> s \<noteq> [] \<and> py_isdigit (hd s)) then
        Inr (Token NUMBER (c # takeWhile number_char s), dropWhile number_char s)
      else case two_map (take 2 (c # s)) of
        Some k \<Rightarrow> Inr (Token k (take 2 (c # s)), drop 1 s)
      | None \<Rightarrow>
          (case one_map c of
             Some k \<Rightarrow> Inr (Token k [c], s)
           | None \<Rightarrow>
               (if py_isalpha c then
                  let kw = takeWhile py_isalnum (c # s); rest = dropWhile py_isalnum (c # s) in
                  if kw = ''true'' then Inr (Token TRUE kw, rest)
                  else if kw = ''false'' then Inr (Token FALSE kw, rest)
                  else if kw = ''null'' then Inr (Token NULL kw, rest)
                  else Inl NopConditionError
                else Inl NopConditionError)))"

lemma path_char_dollar [simp]: "path_char (CHR ''$'')"
  by (simp add: path_char_def)

lemma isalpha_isalnum: "py_isalpha c \<Longrightarrow> py_isalnum c"
  by (simp add: py_isalnum_def)

lemma next_token_shorter: "next_token c s = Inr (t, s') \<Longrightarrow> length s' \<le> length s"
  by (auto simp: next_token_def Let_def length_dropWhile_le isalpha_isalnum
      intro: le_trans [OF diff_le_self] le_trans [OF diff_le_self length_dropWhile_le]
      split: if_splits option.splits)

function tokenize :: "string \<Rightarrow> token list res" where
  "tokenize [] = Inr [Token EOF []]"
| "tokenize (c # s) =
     (if py_isspace c then tokenize s
      else case next_token c s of
        Inl e \<Rightarrow> Inl e
      | Inr r \<Rightarrow> res_bind (tokenize (snd r)) (\<lambda>ts. Inr (fst r # ts)))"
  by pat_completeness auto
termination
  by (relation "measure length") (auto dest: next_token_shorter simp: less_Suc_eq_le)

section \<open>Values\<close>

text \<open>
  \<open>float(s)\<close> on the text of a number token: an optional minus, digits, at most one point.
\<close>

definition float_digits :: "string \<Rightarrow> rat res" where
  "float_digits s =
     (case split_on (CHR ''.'') s of
        [a] \<Rightarrow> if a \<noteq> [] \<and> list_all py_isdecimal a then Inr (of_nat (dec_value a)) else Inl ValueError
      | [a, b] \<Rightarrow>
          if a @ b \<noteq> [] \<and> list_all py_isdecimal (a @ b)
          then Inr (of_nat (dec_value (a @ b)) / of_nat (10 ^ length b)) else Inl ValueError
      | _ \<Rightarrow> Inl ValueError)"

definition float_of_token :: "string \<Rightarrow> pyfloat res" where
  "float_of_token s =
     (case s of
        [] \<Rightarrow> Inl ValueError
      | c # cs \<Rightarrow>
          if c = CHR ''-'' then res_bind (float_digits cs) (\<lambda>q. Inr (double (- q)))
          else res_bind (float_digits s) (\<lambda>q. Inr (double q)))"

definition resolve_path :: "string \<Rightarrow> pyval dict \<Rightarrow> pyval res" where
  "resolve_path path context =
     res_bind (resolve path context) (\<lambda>value.
       case value of
         PInt i \<Rightarrow> res_bind (float_of_int i) (\<lambda>f. Inr (PFloat f))
       | _ \<Rightarrow> Inr value)"

definition as_truthy :: "pyval \<Rightarrow> bool" where
  "as_truthy v =
     (case v of
        PBool b \<Rightarrow> b
      | PInt i \<Rightarrow> i \<noteq> 0
      | PFloat f \<Rightarrow> \<not> flt_eq f (FFin 0)
      | PStr s \<Rightarrow> length s > 0
      | PNone \<Rightarrow> False
      | _ \<Rightarrow> True)"

text \<open>\<open>isinstance(v, (int, float)) and not isinstance(v, bool)\<close>\<close>

definition numeric :: "pyval \<Rightarrow> bool" where
  "numeric v = (case v of PInt _ \<Rightarrow> True | PFloat _ \<Rightarrow> True | _ \<Rightarrow> False)"

definition as_float :: "pyval \<Rightarrow> pyfloat res" where
  "as_float v = (case v of PInt i \<Rightarrow> float_of_int i | PFloat f \<Rightarrow> Inr f | _ \<Rightarrow> Inl TypeError)"

definition cond_eq :: "pyval \<Rightarrow> pyval \<Rightarrow> bool res" where
  "cond_eq a b =
     (if numeric a \<and> numeric b
      then res_bind (as_float a) (\<lambda>x. res_bind (as_float b) (\<lambda>y. Inr (flt_eq x y)))
      else Inr (py_eq a b))"

definition order_floats :: "tok \<Rightarrow> pyfloat \<Rightarrow> pyfloat \<Rightarrow> bool" where
  "order_floats op x y =
     (case op of GT \<Rightarrow> flt_less y x | GTE \<Rightarrow> flt_le y x | LT \<Rightarrow> flt_less x y | LTE \<Rightarrow> flt_le x y | _ \<Rightarrow> False)"

definition order_strings :: "tok \<Rightarrow> string \<Rightarrow> string \<Rightarrow> bool" where
  "order_strings op x y =
     (case op of GT \<Rightarrow> y < x | GTE \<Rightarrow> y \<le> x | LT \<Rightarrow> x < y | LTE \<Rightarrow> x \<le> y | _ \<Rightarrow> False)"

definition compare :: "pyval \<Rightarrow> tok \<Rightarrow> pyval \<Rightarrow> bool res" where
  "compare lhs op rhs =
     (if op = EQ then cond_eq lhs rhs
      else if op = NEQ then res_bind (cond_eq lhs rhs) (\<lambda>b. Inr (\<not> b))
      else if lhs = PNone \<or> rhs = PNone then Inr False
      else if numeric lhs \<and> numeric rhs then
        Inr (case (num_val lhs, num_val rhs) of (Some x, Some y) \<Rightarrow> order_floats op x y | _ \<Rightarrow> False)
      else Inr (case (lhs, rhs) of (PStr x, PStr y) \<Rightarrow> order_strings op x y | _ \<Rightarrow> False))"

section \<open>The parser\<close>

definition parse_value :: "pyval dict \<Rightarrow> token list \<Rightarrow> (pyval \<times> token list) res" where
  "parse_value context ts =
     (case ts of
        [] \<Rightarrow> Inl IndexError
      | t # rest \<Rightarrow>
          (case kind t of
             DOLLAR_PATH \<Rightarrow> res_bind (resolve_path (raw t) context) (\<lambda>v. Inr (v, rest))
           | NUMBER \<Rightarrow> res_bind (float_of_token (raw t)) (\<lambda>f. Inr (PFloat f, rest))
           | STRING \<Rightarrow> Inr (PStr (raw t), rest)
           | TRUE \<Rightarrow> Inr (PBool True, rest)
           | FALSE \<Rightarrow> Inr (PBool False, rest)
           | NULL \<Rightarrow> Inr (PNone, rest)
           | _ \<Rightarrow> Inl NopConditionError))"

text \<open>The tail of \<open>_parse_comparison\<close>: a value, alone or compared with another.\<close>

definition parse_operands :: "pyval dict \<Rightarrow> token list \<Rightarrow> (bool \<times> token list) res" where
  "parse_operands context ts =
     res_bind (parse_value context ts) (\<lambda>(lhs, ts1).
       case ts1 of
         [] \<Rightarrow> Inl IndexError
       | t # ts2 \<Rightarrow>
           if kind t \<notin> set comparison_ops then Inr (as_truthy lhs, ts1)
           else res_bind (parse_value context ts2) (\<lambda>(rhs, ts3).
             res_bind (compare lhs (kind t) rhs) (\<lambda>b. Inr (b, ts3))))"

text \<open>After the inner expression: the closing parenthesis is checked and consumed.\<close>

fun close_paren :: "bool \<Rightarrow> token list \<Rightarrow> (bool \<times> token list) res" where
  "close_paren inner [] = Inl IndexError"
| "close_paren inner (t # ts) = (if kind t \<noteq> RPAREN then Inl NopConditionError else Inr (inner, ts))"

lemma close_paren_shorter: "close_paren b ts = Inr r \<Longrightarrow> length (snd r) < length ts"
  by (cases ts) (auto split: if_splits)

lemma parse_value_shorter: "parse_value ctx ts = Inr (v, ts') \<Longrightarrow> length ts' < length ts"
  by (auto simp: parse_value_def res_simps split: list.splits tok.splits)

lemma parse_operands_shorter: "parse_operands ctx ts = Inr (b, ts') \<Longrightarrow> length ts' < length ts"
proof -
  assume r: "parse_operands ctx ts = Inr (b, ts')"
  then obtain v us where v: "parse_value ctx ts = Inr (v, us)"
    by (auto simp: parse_operands_def res_simps)
  have "length us < length ts" by (rule parse_value_shorter [OF v])
  moreover have "length ts' \<le> length us"
    using r v by (cases us) (auto simp: parse_operands_def res_simps
        dest!: parse_value_shorter split: if_splits)
  ultimately show ?thesis by simp
qed

lemma res_bind_cong [fundef_cong]:
  "r = r' \<Longrightarrow> (\<And>x. r' = Inr x \<Longrightarrow> f x = g x) \<Longrightarrow> res_bind r f = res_bind r' g"
  by (cases r') simp_all

function parse_or_expr :: "pyval dict \<Rightarrow> token list \<Rightarrow> (bool \<times> token list) res"
and or_loop :: "pyval dict \<Rightarrow> bool \<Rightarrow> token list \<Rightarrow> (bool \<times> token list) res"
and parse_and_expr :: "pyval dict \<Rightarrow> token list \<Rightarrow> (bool \<times> token list) res"
and and_loop :: "pyval dict \<Rightarrow> bool \<Rightarrow> token list \<Rightarrow> (bool \<times> token list) res"
and parse_not_expr :: "pyval dict \<Rightarrow> token list \<Rightarrow> (bool \<times> token list) res"
and parse_comparison :: "pyval dict \<Rightarrow> token list \<Rightarrow> (bool \<times> token list) res"
where
  "parse_or_expr ctx ts = res_bind (parse_and_expr ctx ts) (\<lambda>r. or_loop ctx (fst r) (snd r))"
| "or_loop ctx left [] = Inl IndexError"
| "or_loop ctx left (t # ts) =
     (if kind t = OR
      then res_bind (parse_and_expr ctx ts) (\<lambda>r. or_loop ctx (left \<or> fst r) (snd r))
      else Inr (left, t # ts))"
| "parse_and_expr ctx ts = res_bind (parse_not_expr ctx ts) (\<lambda>r. and_loop ctx (fst r) (snd r))"
| "and_loop ctx left [] = Inl IndexError"
| "and_loop ctx left (t # ts) =
     (if kind t = AND
      then res_bind (parse_not_expr ctx ts) (\<lambda>r. and_loop ctx (left \<and> fst r) (snd r))
      else Inr (left, t # ts))"
| "parse_not_expr ctx [] = Inl IndexError"
| "parse_not_expr ctx (t # ts) =
     (if kind t = NOT then res_bind (parse_not_expr ctx ts) (\<lambda>r. Inr (\<not> fst r, snd r))
      else parse_comparison ctx (t # ts))"
| "parse_comparison ctx [] = Inl IndexError"
| "parse_comparison ctx (t # ts) =
     (if kind t = LPAREN then
        res_bind (parse_or_expr ctx ts) (\<lambda>r. close_paren (fst r) (snd r))
      else if kind t = TRUE then Inr (True, ts)
      else if kind t = FALSE then Inr (False, ts)
      else parse_operands ctx (t # ts))"
  by pat_completeness auto

abbreviation parse_dom where
  "parse_dom \<equiv> parse_or_expr_or_loop_parse_and_expr_and_loop_parse_not_expr_parse_comparison_dom"

text \<open>
  Every parsing function consumes at least one token and the two loops never give tokens back; so
  the calls go down in the number of tokens, and at equal numbers in the grammar level.
\<close>

lemma parse_consumes:
  "parse_dom (Inl (Inl (ctx, ts))) \<Longrightarrow> parse_or_expr ctx ts = Inr r \<longrightarrow> length (snd r) < length ts"
  "parse_dom (Inl (Inr (Inl (ctx, left, ts)))) \<Longrightarrow> or_loop ctx left ts = Inr r \<longrightarrow> length (snd r) \<le> length ts"
  "parse_dom (Inl (Inr (Inr (ctx, ts)))) \<Longrightarrow> parse_and_expr ctx ts = Inr r \<longrightarrow> length (snd r) < length ts"
  "parse_dom (Inr (Inl (ctx, left, ts))) \<Longrightarrow> and_loop ctx left ts = Inr r \<longrightarrow> length (snd r) \<le> length ts"
  "parse_dom (Inr (Inr (Inl (ctx, ts)))) \<Longrightarrow> parse_not_expr ctx ts = Inr r \<longrightarrow> length (snd r) < length ts"
  "parse_dom (Inr (Inr (Inr (ctx, ts)))) \<Longrightarrow> parse_comparison ctx ts = Inr r \<longrightarrow> length (snd r) < length ts"
proof (induction ctx ts and ctx left ts and ctx ts and ctx left ts and ctx ts and ctx ts arbitrary: r and r and r and r and r and r
    rule: parse_or_expr_or_loop_parse_and_expr_and_loop_parse_not_expr_parse_comparison.pinduct)
  case (1 ctx ts)
  show ?case
  proof
    assume "parse_or_expr ctx ts = Inr r"
    then obtain x where x: "parse_and_expr ctx ts = Inr x" and r: "or_loop ctx (fst x) (snd x) = Inr r"
      unfolding parse_or_expr.psimps [OF 1(1)] res_bind_eq_Inr by blast
    show "length (snd r) < length ts"
      using mp [OF 1(2) x] mp [OF 1(3) [OF x] r] by simp
  qed
next
  case (2 ctx left)
  then show ?case by (simp add: or_loop.psimps)
next
  case (3 ctx left t ts)
  show ?case
  proof (cases "kind t = OR")
    case True
    show ?thesis
    proof
      assume "or_loop ctx left (t # ts) = Inr r"
      then obtain x where x: "parse_and_expr ctx ts = Inr x" and r: "or_loop ctx (left \<or> fst x) (snd x) = Inr r"
        unfolding or_loop.psimps(2) [OF 3(1)] if_P [OF True] res_bind_eq_Inr by blast
      show "length (snd r) \<le> length (t # ts)"
        using mp [OF 3(2) [OF True] x] mp [OF 3(3) [OF True x] r] by simp
    qed
  qed (auto simp: or_loop.psimps(2) [OF 3(1)])
next
  case (4 ctx ts)
  show ?case
  proof
    assume "parse_and_expr ctx ts = Inr r"
    then obtain x where x: "parse_not_expr ctx ts = Inr x" and r: "and_loop ctx (fst x) (snd x) = Inr r"
      unfolding parse_and_expr.psimps [OF 4(1)] res_bind_eq_Inr by blast
    show "length (snd r) < length ts"
      using mp [OF 4(2) x] mp [OF 4(3) [OF x] r] by simp
  qed
next
  case (5 ctx left)
  then show ?case by (simp add: and_loop.psimps)
next
  case (6 ctx left t ts)
  show ?case
  proof (cases "kind t = AND")
    case True
    show ?thesis
    proof
      assume "and_loop ctx left (t # ts) = Inr r"
      then obtain x where x: "parse_not_expr ctx ts = Inr x" and r: "and_loop ctx (left \<and> fst x) (snd x) = Inr r"
        unfolding and_loop.psimps(2) [OF 6(1)] if_P [OF True] res_bind_eq_Inr by blast
      show "length (snd r) \<le> length (t # ts)"
        using mp [OF 6(2) [OF True] x] mp [OF 6(3) [OF True x] r] by simp
    qed
  qed (auto simp: and_loop.psimps(2) [OF 6(1)])
next
  case (7 ctx)
  then show ?case by (simp add: parse_not_expr.psimps)
next
  case (8 ctx t ts)
  show ?case
  proof (cases "kind t = NOT")
    case True
    show ?thesis
    proof
      assume "parse_not_expr ctx (t # ts) = Inr r"
      then obtain x where x: "parse_not_expr ctx ts = Inr x" and r: "snd r = snd x"
        unfolding parse_not_expr.psimps(2) [OF 8(1)] if_P [OF True] res_bind_eq_Inr by force
      show "length (snd r) < length (t # ts)" using mp [OF 8(2) [OF True] x] r by simp
    qed
  qed (use 8 in \<open>simp add: parse_not_expr.psimps(2) [OF 8(1)]\<close>)
next
  case (9 ctx)
  then show ?case by (simp add: parse_comparison.psimps)
next
  case (10 ctx t ts)
  show ?case
  proof (cases "kind t = LPAREN")
    case True
    show ?thesis
    proof
      assume "parse_comparison ctx (t # ts) = Inr r"
      then obtain x where x: "parse_or_expr ctx ts = Inr x" and r: "close_paren (fst x) (snd x) = Inr r"
        unfolding parse_comparison.psimps(2) [OF 10(1)] if_P [OF True] res_bind_eq_Inr by blast
      show "length (snd r) < length (t # ts)" using mp [OF 10(2) [OF True] x] close_paren_shorter [OF r] by simp
    qed
  next
    case False
    then show ?thesis
      using parse_operands_shorter [of ctx "t # ts" "fst r" "snd r"]
      by (auto simp: parse_comparison.psimps(2) [OF 10(1)] split: if_splits)
  qed
qed

definition parse_rank ::
  "(pyval dict \<times> token list + pyval dict \<times> bool \<times> token list + pyval dict \<times> token list)
   + pyval dict \<times> bool \<times> token list + pyval dict \<times> token list + pyval dict \<times> token list \<Rightarrow> nat" where
  "parse_rank x =
     (case x of
        Inl (Inl (_, ts)) \<Rightarrow> 4 * length ts + 3
      | Inl (Inr (Inl (_, _, ts))) \<Rightarrow> 4 * length ts
      | Inl (Inr (Inr (_, ts))) \<Rightarrow> 4 * length ts + 2
      | Inr (Inl (_, _, ts)) \<Rightarrow> 4 * length ts
      | Inr (Inr (Inl (_, ts))) \<Rightarrow> 4 * length ts + 1
      | Inr (Inr (Inr (_, ts))) \<Rightarrow> 4 * length ts)"

termination parse_or_expr
  by (relation "measure parse_rank")
    (auto simp: parse_rank_def dest!: parse_consumes(3,5) [rule_format])

declare parse_or_expr.simps [simp del] parse_and_expr.simps [simp del]

section \<open>Evaluation\<close>

definition condition_error :: "'a res \<Rightarrow> 'a res" where
  "condition_error r = (case r of Inl e \<Rightarrow> Inl NopConditionError | Inr x \<Rightarrow> Inr x)"

definition evaluate :: "string \<Rightarrow> pyval dict \<Rightarrow> bool res" where
  "evaluate condition context =
     (if condition = [] \<or> py_strip condition = [] then Inr True
      else condition_error
        (res_bind (tokenize (py_strip condition)) (\<lambda>tokens.
           res_bind (parse_or_expr context tokens) (\<lambda>(value, rest). Inr value))))"

section \<open>The language of conditions\<close>

text \<open>
  Abstract syntax, its meaning, and the concrete text. A literal \<open>true\<close> or \<open>false\<close> on the left
  of a comparison is not part of the language the parser reads.

  The meaning is given over a domain of its own, in which a number is not a truth value. A path follows the
  fields it names from the results, and gives nothing where a field is missing. Both operands of a connective
  count, so an operand without meaning leaves the whole without. Arrays and objects are equal as Python
  compares them and have no order.
\<close>

datatype cval = CPath string | CNum string | CStr string | CBool bool | CNull

datatype cexp =
    COr cexp cexp
  | CAnd cexp cexp
  | CNot cexp
  | CLit bool
  | CTruthy cval
  | CCmp cval tok cval

datatype cvalue = VNothing | VTruth bool | VNumber pyfloat | VText string | VStructure pyval

definition cvalue_of :: "pyval \<Rightarrow> cvalue option" where
  "cvalue_of v =
     (case v of
        PNone \<Rightarrow> Some VNothing
      | PBool b \<Rightarrow> Some (VTruth b)
      | PInt i \<Rightarrow> (case float_of_int i of Inl e \<Rightarrow> None | Inr f \<Rightarrow> Some (VNumber f))
      | PFloat f \<Rightarrow> Some (VNumber f)
      | PStr s \<Rightarrow> Some (VText s)
      | _ \<Rightarrow> Some (VStructure v))"

definition field_of :: "pyval \<Rightarrow> string \<Rightarrow> pyval" where
  "field_of v name = (case v of PDict d \<Rightarrow> (case map_of d name of Some w \<Rightarrow> w | None \<Rightarrow> PNone) | _ \<Rightarrow> PNone)"

text \<open>The names of a path \<open>$.n.f.g\<close>, after the dollar sign.\<close>

definition path_names :: "string \<Rightarrow> string list" where
  "path_names p = filter (\<lambda>n. n \<noteq> []) (tl (split_on (CHR ''.'') p))"

fun cval_meaning :: "pyval dict \<Rightarrow> cval \<Rightarrow> cvalue option" where
  "cval_meaning ctx (CPath p) =
     (if length (path_names p) > MAX_INPUT_MAPPING_DEPTH then None
      else cvalue_of (foldl field_of (PDict ctx) (path_names p)))"
| "cval_meaning ctx (CNum n) = (case float_of_token n of Inl e \<Rightarrow> None | Inr f \<Rightarrow> Some (VNumber f))"
| "cval_meaning ctx (CStr s) = Some (VText s)"
| "cval_meaning ctx (CBool b) = Some (VTruth b)"
| "cval_meaning ctx CNull = Some VNothing"

fun cv_holds :: "cvalue \<Rightarrow> bool" where
  "cv_holds VNothing = False"
| "cv_holds (VTruth b) = b"
| "cv_holds (VNumber f) = (\<not> flt_eq f (FFin 0))"
| "cv_holds (VText s) = (s \<noteq> [])"
| "cv_holds (VStructure v) = True"

fun cv_same :: "cvalue \<Rightarrow> cvalue \<Rightarrow> bool" where
  "cv_same VNothing VNothing = True"
| "cv_same (VTruth a) (VTruth b) = (a = b)"
| "cv_same (VNumber f) (VNumber g) = flt_eq f g"
| "cv_same (VText s) (VText t) = (s = t)"
| "cv_same (VStructure v) (VStructure w) = py_eq v w"
| "cv_same _ _ = False"

fun cv_below :: "cvalue \<Rightarrow> cvalue \<Rightarrow> bool" where
  "cv_below (VNumber f) (VNumber g) = flt_less f g"
| "cv_below (VText s) (VText t) = (s < t)"
| "cv_below _ _ = False"

fun cv_at_most :: "cvalue \<Rightarrow> cvalue \<Rightarrow> bool" where
  "cv_at_most (VNumber f) (VNumber g) = flt_le f g"
| "cv_at_most (VText s) (VText t) = (s \<le> t)"
| "cv_at_most _ _ = False"

definition cv_relates :: "tok \<Rightarrow> cvalue \<Rightarrow> cvalue \<Rightarrow> bool" where
  "cv_relates op x y =
     (case op of
        EQ \<Rightarrow> cv_same x y | NEQ \<Rightarrow> \<not> cv_same x y | LT \<Rightarrow> cv_below x y | LTE \<Rightarrow> cv_at_most x y | GT \<Rightarrow> cv_below y x | GTE \<Rightarrow> cv_at_most y x
      | _ \<Rightarrow> False)"

fun meaning :: "pyval dict \<Rightarrow> cexp \<Rightarrow> bool option" where
  "meaning ctx (COr a b) = (case (meaning ctx a, meaning ctx b) of (Some x, Some y) \<Rightarrow> Some (x \<or> y) | _ \<Rightarrow> None)"
| "meaning ctx (CAnd a b) = (case (meaning ctx a, meaning ctx b) of (Some x, Some y) \<Rightarrow> Some (x \<and> y) | _ \<Rightarrow> None)"
| "meaning ctx (CNot a) = map_option Not (meaning ctx a)"
| "meaning ctx (CLit b) = Some b"
| "meaning ctx (CTruthy v) = map_option cv_holds (cval_meaning ctx v)"
| "meaning ctx (CCmp v op w) =
     (case (cval_meaning ctx v, cval_meaning ctx w) of (Some x, Some y) \<Rightarrow> Some (cv_relates op x y) | _ \<Rightarrow> None)"

text \<open>No equality of the expression is between a truth value and a number.\<close>

fun cv_mixed :: "cvalue option \<Rightarrow> cvalue option \<Rightarrow> bool" where
  "cv_mixed (Some (VTruth b)) (Some (VNumber f)) = True"
| "cv_mixed (Some (VNumber f)) (Some (VTruth b)) = True"
| "cv_mixed _ _ = False"

fun kinds_apart :: "pyval dict \<Rightarrow> cexp \<Rightarrow> bool" where
  "kinds_apart ctx (COr a b) = (kinds_apart ctx a \<and> kinds_apart ctx b)"
| "kinds_apart ctx (CAnd a b) = (kinds_apart ctx a \<and> kinds_apart ctx b)"
| "kinds_apart ctx (CNot a) = kinds_apart ctx a"
| "kinds_apart ctx (CCmp v op w) = (op \<in> {EQ, NEQ} \<longrightarrow> \<not> cv_mixed (cval_meaning ctx v) (cval_meaning ctx w))"
| "kinds_apart ctx _ = True"

fun wf_cval :: "cval \<Rightarrow> bool" where
  "wf_cval (CPath p) = (take 2 p = ''$.'' \<and> list_all path_char p)"
| "wf_cval (CNum n) =
     (case n of
        [] \<Rightarrow> False
      | c # cs \<Rightarrow> (py_isdigit c \<or> c = CHR ''-'' \<and> cs \<noteq> [] \<and> py_isdigit (hd cs)) \<and> list_all number_char cs)"
| "wf_cval (CStr s) = (CHR 34 \<notin> set s)"
| "wf_cval (CBool b) = True"
| "wf_cval CNull = True"

fun wf_cexp :: "cexp \<Rightarrow> bool" where
  "wf_cexp (COr a b) = (wf_cexp a \<and> wf_cexp b)"
| "wf_cexp (CAnd a b) = (wf_cexp a \<and> wf_cexp b)"
| "wf_cexp (CNot a) = wf_cexp a"
| "wf_cexp (CLit b) = True"
| "wf_cexp (CTruthy v) = (wf_cval v \<and> \<not> (\<exists>b. v = CBool b))"
| "wf_cexp (CCmp v op w) =
     (wf_cval v \<and> \<not> (\<exists>b. v = CBool b) \<and> wf_cval w \<and> op \<in> set comparison_ops)"

fun tok_text :: "tok \<Rightarrow> string" where
  "tok_text GT = ''>''"
| "tok_text GTE = ''>=''"
| "tok_text LT = ''<''"
| "tok_text LTE = ''<=''"
| "tok_text EQ = ''==''"
| "tok_text NEQ = ''!=''"
| "tok_text AND = ''&&''"
| "tok_text OR = ''||''"
| "tok_text NOT = ''!''"
| "tok_text LPAREN = ''(''"
| "tok_text RPAREN = '')''"
| "tok_text TRUE = ''true''"
| "tok_text FALSE = ''false''"
| "tok_text NULL = ''null''"
| "tok_text _ = []"

definition op_token :: "tok \<Rightarrow> token" where
  "op_token k = Token k (tok_text k)"

fun cval_token :: "cval \<Rightarrow> token" where
  "cval_token (CPath p) = Token DOLLAR_PATH p"
| "cval_token (CNum n) = Token NUMBER n"
| "cval_token (CStr s) = Token STRING s"
| "cval_token (CBool b) = op_token (if b then TRUE else FALSE)"
| "cval_token CNull = op_token NULL"

text \<open>Parentheses only where the level demands them: 0 for \<open>or\<close>, 1 for \<open>and\<close>, 2 below.\<close>

definition paren_if :: "bool \<Rightarrow> token list \<Rightarrow> token list" where
  "paren_if b ts = (if b then op_token LPAREN # ts @ [op_token RPAREN] else ts)"

fun cexp_tokens :: "nat \<Rightarrow> cexp \<Rightarrow> token list" where
  "cexp_tokens l (COr a b) = paren_if (0 < l) (cexp_tokens 0 a @ op_token OR # cexp_tokens 1 b)"
| "cexp_tokens l (CAnd a b) = paren_if (1 < l) (cexp_tokens 1 a @ op_token AND # cexp_tokens 2 b)"
| "cexp_tokens l (CNot a) = op_token NOT # cexp_tokens 2 a"
| "cexp_tokens l (CLit b) = [op_token (if b then TRUE else FALSE)]"
| "cexp_tokens l (CTruthy v) = [cval_token v]"
| "cexp_tokens l (CCmp v op w) = [cval_token v, op_token op, cval_token w]"

fun token_text :: "token \<Rightarrow> string" where
  "token_text t = (if kind t = STRING then CHR 34 # raw t @ [CHR 34] else raw t)"

definition condition_text :: "cexp \<Rightarrow> string" where
  "condition_text e = join_with '' '' (map token_text (cexp_tokens 0 e))"

section \<open>Lemmas\<close>

subsection \<open>Parsing\<close>

text \<open>What the parser computes for an expression, in the code's own operations.\<close>

fun cval_reading :: "pyval dict \<Rightarrow> cval \<Rightarrow> pyval res" where
  "cval_reading ctx (CPath p) = resolve_path p ctx"
| "cval_reading ctx (CNum n) = res_bind (float_of_token n) (\<lambda>f. Inr (PFloat f))"
| "cval_reading ctx (CStr s) = Inr (PStr s)"
| "cval_reading ctx (CBool b) = Inr (PBool b)"
| "cval_reading ctx CNull = Inr PNone"

fun reading :: "pyval dict \<Rightarrow> cexp \<Rightarrow> bool res" where
  "reading ctx (COr a b) = res_bind (reading ctx a) (\<lambda>x. res_bind (reading ctx b) (\<lambda>y. Inr (x \<or> y)))"
| "reading ctx (CAnd a b) = res_bind (reading ctx a) (\<lambda>x. res_bind (reading ctx b) (\<lambda>y. Inr (x \<and> y)))"
| "reading ctx (CNot a) = res_bind (reading ctx a) (\<lambda>x. Inr (\<not> x))"
| "reading ctx (CLit b) = Inr b"
| "reading ctx (CTruthy v) = res_bind (cval_reading ctx v) (\<lambda>x. Inr (as_truthy x))"
| "reading ctx (CCmp v op w) =
     res_bind (cval_reading ctx v) (\<lambda>x. res_bind (cval_reading ctx w) (\<lambda>y. compare x op y))"

lemma kind_op_token [simp]: "kind (op_token k) = k" and kind_Token [simp]: "kind (Token k r) = k"
  and raw_Token [simp]: "raw (Token k r) = r" and raw_op_token [simp]: "raw (op_token k) = tok_text k"
  by (simp_all add: op_token_def Token_def)

lemma comparison_ops_mem [simp]:
  "k \<in> set comparison_ops \<longleftrightarrow> k = GT \<or> k = GTE \<or> k = LT \<or> k = LTE \<or> k = EQ \<or> k = NEQ"
  by (auto simp: comparison_ops_def)

lemma parse_value_token [simp]:
  "parse_value ctx (cval_token v # ts) = res_bind (cval_reading ctx v) (\<lambda>x. Inr (x, ts))"
  by (cases v) (auto simp: parse_value_def res_bind_def split: sum.splits)

text \<open>What may follow an operand: anything but a comparison operator.\<close>

fun ends_operand :: "token list \<Rightarrow> bool" where
  "ends_operand [] = False"
| "ends_operand (t # ts) = (kind t \<notin> set comparison_ops)"

lemma parse_operands_truthy:
  "ends_operand ts \<Longrightarrow>
     parse_operands ctx (cval_token v # ts) = res_bind (reading ctx (CTruthy v)) (\<lambda>b. Inr (b, ts))"
  by (cases ts) (auto simp: parse_operands_def res_bind_def split: sum.splits)

lemma parse_operands_compare:
  "op \<in> set comparison_ops \<Longrightarrow>
     parse_operands ctx (cval_token v # op_token op # cval_token w # ts)
       = res_bind (reading ctx (CCmp v op w)) (\<lambda>b. Inr (b, ts))"
  by (auto simp: parse_operands_def res_bind_def split: sum.splits)

lemma cval_token_kinds:
  "kind (cval_token v) \<noteq> NOT" "kind (cval_token v) \<noteq> LPAREN"
  "\<not> (\<exists>b. v = CBool b) \<Longrightarrow> kind (cval_token v) \<noteq> TRUE"
  "\<not> (\<exists>b. v = CBool b) \<Longrightarrow> kind (cval_token v) \<noteq> FALSE"
  by (cases v; simp)+

lemma res_bind_assoc [simp]: "res_bind (res_bind r f) g = res_bind r (\<lambda>x. res_bind (f x) g)"
  by (cases r) simp_all

lemma res_bind_Inr_right [simp]: "res_bind r Inr = r"
  by (cases r) simp_all

lemma or_loop_step [simp]:
  "or_loop ctx b (op_token OR # ts) = res_bind (parse_and_expr ctx ts) (\<lambda>r. or_loop ctx (b \<or> fst r) (snd r))"
  "or_loop ctx b (op_token RPAREN # ts) = Inr (b, op_token RPAREN # ts)"
  by simp_all

text \<open>
  The three grammar levels. At each level the parser hands the value to the loop of that level,
  which is what makes the left-nested connectives come out right.
\<close>

definition reads_not :: "pyval dict \<Rightarrow> token list \<Rightarrow> bool res \<Rightarrow> bool" where
  "reads_not ctx xs m \<longleftrightarrow>
     (\<forall>ts. ends_operand ts \<longrightarrow> parse_not_expr ctx (xs @ ts) = res_bind m (\<lambda>b. Inr (b, ts)))"

definition reads_and :: "pyval dict \<Rightarrow> token list \<Rightarrow> bool res \<Rightarrow> bool" where
  "reads_and ctx xs m \<longleftrightarrow>
     (\<forall>ts. ends_operand ts \<longrightarrow> parse_and_expr ctx (xs @ ts) = res_bind m (\<lambda>b. and_loop ctx b ts))"

definition reads_or :: "pyval dict \<Rightarrow> token list \<Rightarrow> bool res \<Rightarrow> bool" where
  "reads_or ctx xs m \<longleftrightarrow>
     (\<forall>ts. ends_operand ts \<longrightarrow> kind (hd ts) \<noteq> AND \<longrightarrow>
        parse_or_expr ctx (xs @ ts) = res_bind m (\<lambda>b. or_loop ctx b ts))"

lemma reads_and_not: "reads_not ctx xs m \<Longrightarrow> reads_and ctx xs m"
  by (simp add: reads_not_def reads_and_def parse_and_expr.simps)

lemma and_loop_stop: "ends_operand ts \<Longrightarrow> kind (hd ts) \<noteq> AND \<Longrightarrow> and_loop ctx b ts = Inr (b, ts)"
  by (cases ts) simp_all

lemma reads_or_and: "reads_and ctx xs m \<Longrightarrow> reads_or ctx xs m"
  by (simp add: reads_and_def reads_or_def parse_or_expr.simps and_loop_stop)

lemma reads_paren: "reads_or ctx xs m \<Longrightarrow> reads_not ctx (op_token LPAREN # xs @ [op_token RPAREN]) m"
  by (simp add: reads_or_def reads_not_def)

lemma reads_and_conj:
  assumes "reads_and ctx xs m" "reads_not ctx ys k"
  shows "reads_and ctx (xs @ op_token AND # ys) (res_bind m (\<lambda>x. res_bind k (\<lambda>y. Inr (x \<and> y))))"
  using assms by (simp add: reads_and_def reads_not_def)

lemma reads_or_disj:
  assumes "reads_or ctx xs m" "reads_and ctx ys k"
  shows "reads_or ctx (xs @ op_token OR # ys) (res_bind m (\<lambda>x. res_bind k (\<lambda>y. Inr (x \<or> y))))"
  using assms by (simp add: reads_or_def reads_and_def and_loop_stop)

lemma reads_atom:
  "wf_cexp (CTruthy v) \<Longrightarrow> reads_not ctx [cval_token v] (reading ctx (CTruthy v))"
  "wf_cexp (CCmp v op w) \<Longrightarrow> reads_not ctx [cval_token v, op_token op, cval_token w] (reading ctx (CCmp v op w))"
  "reads_not ctx [op_token (if b then TRUE else FALSE)] (Inr b)"
  by (simp_all add: reads_not_def cval_token_kinds parse_operands_truthy parse_operands_compare
      del: reading.simps cval_token.simps)

lemma reads_cexp:
  assumes "wf_cexp e"
  shows "reads_not ctx (cexp_tokens 2 e) (reading ctx e) \<and> reads_and ctx (cexp_tokens 1 e) (reading ctx e)
    \<and> reads_or ctx (cexp_tokens 0 e) (reading ctx e)"
  using assms
proof (induction e)
  case (COr a b)
  then have "reads_or ctx (cexp_tokens 0 (COr a b)) (reading ctx (COr a b))"
    by (simp add: paren_if_def reads_or_disj)
  from this reads_paren [OF this] show ?case by (simp add: paren_if_def reads_and_not)
next
  case (CAnd a b)
  then have "reads_and ctx (cexp_tokens 1 (CAnd a b)) (reading ctx (CAnd a b))"
    by (simp add: paren_if_def reads_and_conj)
  from this reads_paren [OF reads_or_and [OF this]] show ?case by (simp add: paren_if_def reads_or_and)
next
  case (CNot a)
  then have "reads_not ctx (op_token NOT # cexp_tokens 2 a) (reading ctx (CNot a))"
    by (simp add: reads_not_def)
  then show ?case by (simp add: reads_and_not reads_or_and)
next
  case (CLit b)
  then show ?case using reads_atom(3) [of ctx b] by (simp add: reads_and_not reads_or_and)
next
  case (CTruthy v)
  then show ?case using reads_atom(1) [of v ctx] by (simp add: reads_and_not reads_or_and)
next
  case (CCmp v op w)
  then show ?case using reads_atom(2) [of v op w ctx] by (simp add: reads_and_not reads_or_and)
qed

lemma parse_cexp:
  "wf_cexp e \<Longrightarrow> parse_or_expr ctx (cexp_tokens 0 e @ [Token EOF r]) = res_bind (reading ctx e) (\<lambda>b. Inr (b, [Token EOF r]))"
  using reads_cexp [of e ctx] by (simp add: reads_or_def)

subsection \<open>Tokenizing\<close>

inductive good_token :: "token \<Rightarrow> bool" where
  good_path: "wf_cval (CPath p) \<Longrightarrow> good_token (Token DOLLAR_PATH p)"
| good_number: "wf_cval (CNum n) \<Longrightarrow> good_token (Token NUMBER n)"
| good_string: "wf_cval (CStr q) \<Longrightarrow> good_token (Token STRING q)"
| good_op: "k \<notin> {DOLLAR_PATH, NUMBER, STRING, EOF} \<Longrightarrow> good_token (op_token k)"

lemma takeWhile_all: "list_all P xs \<Longrightarrow> ys = [] \<or> \<not> P (hd ys) \<Longrightarrow> takeWhile P (xs @ ys) = xs \<and> dropWhile P (xs @ ys) = ys"
  by (induction xs) (cases ys; auto)+

text \<open>What follows a token in the text: a space, or nothing.\<close>

definition blank_next :: "string \<Rightarrow> bool" where
  "blank_next s \<longleftrightarrow> s = [] \<or> hd s = CHR '' ''"

lemma blank_not_char:
  "blank_next s \<Longrightarrow> s = [] \<or> \<not> path_char (hd s)"
  "blank_next s \<Longrightarrow> s = [] \<or> \<not> number_char (hd s)"
  "blank_next s \<Longrightarrow> s = [] \<or> \<not> py_isalnum (hd s)"
  by (auto simp: blank_next_def path_char_def number_char_def py_isalnum_def py_isalpha_def py_isdigit_def)

lemmas char_classes = py_isdigit_def py_isalnum_def py_isalpha_def Let_def

lemma next_token_op:
  assumes "blank_next s" "k \<notin> {DOLLAR_PATH, NUMBER, STRING, EOF}"
  shows "next_token (hd (tok_text k)) (tl (tok_text k) @ s) = Inr (op_token k, s)"
proof (cases s)
  case Nil
  then show ?thesis
    using assms(2)
    by (cases k) (simp_all add: next_token_def op_token_def two_map_def one_map_def char_classes)
next
  case (Cons c r)
  then have "s = CHR '' '' # r" using assms(1) by (simp add: blank_next_def)
  then show ?thesis
    using assms(2)
    by (cases k) (simp_all add: next_token_def op_token_def two_map_def one_map_def char_classes)
qed

lemma next_token_path:
  assumes "wf_cval (CPath p)" "blank_next s"
  shows "next_token (hd p) (tl p @ s) = Inr (Token DOLLAR_PATH p, s)"
proof -
  obtain q where p: "p = CHR ''$'' # CHR ''.'' # q"
    using assms(1) by (cases p; cases "tl p") auto
  show ?thesis
    using takeWhile_all [of path_char p s] assms blank_not_char(1) [of s]
    by (simp add: p next_token_def)
qed

lemma next_token_number:
  assumes "wf_cval (CNum n)" "blank_next s"
  shows "next_token (hd n) (tl n @ s) = Inr (Token NUMBER n, s)"
proof -
  obtain c cs where n: "n = c # cs" "list_all number_char cs"
    and c: "py_isdigit c \<or> (c = CHR ''-'' \<and> cs \<noteq> [] \<and> py_isdigit (hd cs))"
    using assms(1) by (cases n) auto
  have "c \<noteq> CHR ''$''" "c \<noteq> CHR 34" using c by (auto simp: py_isdigit_def)
  moreover have "py_isdigit c \<or> (c = CHR ''-'' \<and> cs @ s \<noteq> [] \<and> py_isdigit (hd (cs @ s)))"
    using c by auto
  ultimately show ?thesis
    using takeWhile_all [OF n(2), of s] blank_not_char(2) [OF assms(2)]
    by (simp add: n(1) next_token_def)
qed

lemma next_token_string:
  assumes "wf_cval (CStr q)"
  shows "next_token (CHR 34) (q @ CHR 34 # s) = Inr (Token STRING q, s)"
proof -
  have "list_all (\<lambda>x. x \<noteq> CHR 34) q" using assms by (auto simp: list_all_iff)
  then show ?thesis using takeWhile_all [of "\<lambda>x. x \<noteq> CHR 34" q "CHR 34 # s"] by (simp add: next_token_def)
qed

lemma next_token_good:
  assumes "good_token t" "blank_next s"
  shows "next_token (hd (token_text t)) (tl (token_text t) @ s) = Inr (t, s)"
  using assms
proof (cases rule: good_token.cases)
  case (good_op k)
  then show ?thesis using next_token_op [OF assms(2), of k] by auto
qed (use assms(2) next_token_path next_token_number next_token_string in simp_all)

lemma class_not_space:
  "path_char c \<Longrightarrow> \<not> py_isspace c" "number_char c \<Longrightarrow> \<not> py_isspace c" "py_isdigit c \<Longrightarrow> \<not> py_isspace c"
  by (auto simp: path_char_def number_char_def py_isspace_def char_classes)

lemma good_token_text:
  assumes "good_token t"
  shows "token_text t \<noteq> []" "\<not> py_isspace (hd (token_text t))" "\<not> py_isspace (last (token_text t))"
proof -
  have "token_text t \<noteq> [] \<and> (\<forall>c \<in> {hd (token_text t), last (token_text t)}. \<not> py_isspace c)"
    using assms
  proof cases
    case (good_path p)
    then have "p \<noteq> []" by auto
    then have "hd p \<in> set p" "last p \<in> set p" by simp_all
    then show ?thesis using good_path \<open>p \<noteq> []\<close> by (auto simp: list_all_iff class_not_space)
  next
    case (good_number n)
    then obtain c cs where n: "n = c # cs" "list_all number_char cs" "\<not> py_isspace c"
      by (cases n) (auto simp: class_not_space, simp add: py_isspace_def)
    moreover have "last n \<in> set n" by (simp add: n(1))
    ultimately show ?thesis using good_number by (auto simp: list_all_iff class_not_space)
  next
    case (good_string q)
    then show ?thesis by (simp add: py_isspace_def)
  next
    case (good_op k)
    then show ?thesis by (cases k) (simp_all add: py_isspace_def)
  qed
  then show "token_text t \<noteq> []" "\<not> py_isspace (hd (token_text t))" "\<not> py_isspace (last (token_text t))"
    by blast+
qed

lemma tokenize_good:
  assumes "good_token t" "blank_next s"
  shows "tokenize (token_text t @ s) = res_bind (tokenize s) (\<lambda>ts. Inr (t # ts))"
proof -
  have "token_text t @ s = hd (token_text t) # (tl (token_text t) @ s)"
    using good_token_text(1) [OF assms(1)] by (cases "token_text t") simp_all
  then have "tokenize (token_text t @ s) = tokenize (hd (token_text t) # (tl (token_text t) @ s))"
    by (rule arg_cong)
  then show ?thesis
    unfolding tokenize.simps using next_token_good [OF assms] good_token_text(2) [OF assms(1)]
    by (simp del: token_text.simps)
qed

lemma space_isspace [simp]: "py_isspace (CHR '' '')"
  by (simp add: py_isspace_def)

lemma tokenize_join:
  "(\<And>t. t \<in> set ts \<Longrightarrow> good_token t) \<Longrightarrow> tokenize (join_with '' '' (map token_text ts)) = Inr (ts @ [Token EOF []])"
proof (induction ts rule: induct_list012)
  case (2 t)
  then show ?case
    using tokenize_good [of t "[]"] by (simp add: blank_next_def del: token_text.simps)
next
  case (3 t u ts)
  have "blank_next ('' '' @ s)" for s by (simp add: blank_next_def)
  with 3 show ?case using tokenize_good [of t "'' '' @ s" for s] by (simp del: token_text.simps)
qed simp

lemma good_cval_token: "wf_cval v \<Longrightarrow> good_token (cval_token v)"
  by (cases v) (auto intro: good_token.intros)

lemma good_cexp_tokens: "wf_cexp e \<Longrightarrow> t \<in> set (cexp_tokens l e) \<Longrightarrow> good_token t"
  by (induction e arbitrary: l) (auto simp: paren_if_def good_cval_token intro: good_op split: if_splits)

lemma cexp_tokens_nonempty [simp]: "cexp_tokens l e \<noteq> []"
  by (cases e) (simp_all add: paren_if_def)

lemma join_ends:
  "xs \<noteq> [] \<Longrightarrow> (\<And>x. x \<in> set xs \<Longrightarrow> x \<noteq> []) \<Longrightarrow>
     join_with sep xs \<noteq> [] \<and> hd (join_with sep xs) = hd (hd xs) \<and> last (join_with sep xs) = last (last xs)"
  by (induction xs rule: induct_list012) auto

lemma condition_text_strip:
  assumes "wf_cexp e"
  shows "condition_text e \<noteq> []" "py_strip (condition_text e) = condition_text e"
proof -
  let ?xs = "map token_text (cexp_tokens 0 e)"
  note good = good_cexp_tokens [OF assms, of _ 0]
  have j: "condition_text e \<noteq> [] \<and> hd (condition_text e) = hd (hd ?xs) \<and> last (condition_text e) = last (last ?xs)"
    unfolding condition_text_def
    by (rule join_ends) (use good good_token_text(1) in \<open>auto simp del: token_text.simps\<close>)
  have "hd ?xs = token_text (hd (cexp_tokens 0 e))" "last ?xs = token_text (last (cexp_tokens 0 e))"
    by (simp_all add: hd_map last_map del: token_text.simps)
  moreover have "good_token (hd (cexp_tokens 0 e))" "good_token (last (cexp_tokens 0 e))"
    by (rule good, simp)+
  ultimately have "\<not> py_isspace (hd (condition_text e))" "\<not> py_isspace (last (condition_text e))"
    using j good_token_text(2,3) by simp_all
  then show "py_strip (condition_text e) = condition_text e" by (simp add: py_strip_id)
  show "condition_text e \<noteq> []" using j by blast
qed

subsection \<open>The end of the token list\<close>

definition eof_last :: "token list \<Rightarrow> bool" where
  "eof_last ts \<longleftrightarrow> ts \<noteq> [] \<and> kind (last ts) = EOF"

definition no_overrun :: "('a \<times> token list) res \<Rightarrow> bool" where
  "no_overrun r = (case r of Inl e \<Rightarrow> e \<noteq> IndexError | Inr x \<Rightarrow> eof_last (snd x))"

lemma no_overrun_simps [simp]:
  "no_overrun (Inl e) = (e \<noteq> IndexError)" "no_overrun (Inr x) = eof_last (snd x)"
  by (simp_all add: no_overrun_def)

lemma no_overrun_bind:
  "no_overrun r \<Longrightarrow> (\<And>x. r = Inr x \<Longrightarrow> eof_last (snd x) \<Longrightarrow> no_overrun (f x)) \<Longrightarrow> no_overrun (res_bind r f)"
  by (cases r) simp_all

lemma eof_last_Cons: "eof_last (t # ts) \<Longrightarrow> kind t \<noteq> EOF \<Longrightarrow> eof_last ts"
  by (cases ts) (simp_all add: eof_last_def)

lemma eof_last_not_Nil: "eof_last ts \<Longrightarrow> \<exists>t us. ts = t # us"
  by (cases ts) (simp_all add: eof_last_def)

lemma tokenize_eof: "tokenize s = Inr ts \<Longrightarrow> eof_last ts"
proof (induction s arbitrary: ts rule: tokenize.induct)
  case 1
  then show ?case by (auto simp: eof_last_def)
next
  case (2 c s)
  show ?case
  proof (cases "py_isspace c")
    case False
    then obtain r us where r: "next_token c s = Inr r" "tokenize (snd r) = Inr us" "ts = fst r # us"
      using 2(3) by (auto simp: res_simps split: sum.splits)
    from 2(2) [OF False r(1,2)] show ?thesis by (auto simp: eof_last_def r(3))
  qed (use 2 in simp)
qed

lemma not_index_error:
  "resolve p ctx \<noteq> Inl IndexError" "resolve_path p ctx \<noteq> Inl IndexError"
  "float_of_token s \<noteq> Inl IndexError" "compare v op w \<noteq> Inl IndexError"
proof -
  show r: "resolve p ctx \<noteq> Inl IndexError"
    by (simp add: resolve_def Let_def split: list.splits option.splits)
  have i: "float_of_int i \<noteq> Inl IndexError" for i
    by (simp add: float_of_int_def split: pyfloat.splits)
  show "resolve_path p ctx \<noteq> Inl IndexError"
    using r i by (auto simp: resolve_path_def res_simps split: pyval.splits)
  show "float_of_token s \<noteq> Inl IndexError"
    by (auto simp: float_of_token_def float_digits_def res_simps split: list.splits if_splits)
  have "as_float v \<noteq> Inl IndexError" for v
    using i by (auto simp: as_float_def split: pyval.splits)
  then show "compare v op w \<noteq> Inl IndexError"
    by (auto simp: compare_def cond_eq_def res_simps)
qed

lemma no_overrun_value: "r \<noteq> Inl IndexError \<Longrightarrow> eof_last us \<Longrightarrow> no_overrun (res_bind r (\<lambda>v. Inr (f v, us)))"
  by (cases r) simp_all

lemma parse_value_no_overrun: "eof_last ts \<Longrightarrow> no_overrun (parse_value ctx ts)"
proof -
  assume e: "eof_last ts"
  then obtain t us where ts: "ts = t # us" using eof_last_not_Nil by blast
  have "kind t \<noteq> EOF \<Longrightarrow> eof_last us" using e eof_last_Cons by (simp add: ts)
  then show ?thesis
    using not_index_error(2) [of "raw t" ctx] not_index_error(3) [of "raw t"]
    by (auto simp: parse_value_def ts no_overrun_value split: tok.splits)
qed

lemma parse_operands_no_overrun: "eof_last ts \<Longrightarrow> no_overrun (parse_operands ctx ts)"
  unfolding parse_operands_def
proof (rule no_overrun_bind [OF parse_value_no_overrun], assumption)
  fix x assume "parse_value ctx ts = Inr x" and e: "eof_last (snd x)"
  obtain lhs t us where x: "x = (lhs, t # us)" using eof_last_not_Nil [OF e] by (cases x) auto
  have "no_overrun (res_bind (parse_value ctx us) (\<lambda>(rhs, ts3). res_bind (compare lhs (kind t) rhs) (\<lambda>b. Inr (b, ts3))))"
    if "kind t \<in> set comparison_ops"
  proof (rule no_overrun_bind [OF parse_value_no_overrun])
    show "eof_last us" using e that by (auto simp: x intro: eof_last_Cons)
    show "no_overrun (case y of (rhs, ts3) \<Rightarrow> res_bind (compare lhs (kind t) rhs) (\<lambda>b. Inr (b, ts3)))"
      if "eof_last (snd y)" for y
      using that not_index_error(4) [of lhs "kind t" "fst y"]
      by (cases "compare lhs (kind t) (fst y)") (auto simp: case_prod_beta)
  qed
  then show "no_overrun (case x of (lhs, ts1) \<Rightarrow> case ts1 of [] \<Rightarrow> Inl IndexError
      | t # ts2 \<Rightarrow> if kind t \<notin> set comparison_ops then Inr (as_truthy lhs, ts1)
          else res_bind (parse_value ctx ts2) (\<lambda>(rhs, ts3). res_bind (compare lhs (kind t) rhs) (\<lambda>b. Inr (b, ts3))))"
    using e by (simp add: x del: comparison_ops_mem)
qed

lemma close_paren_no_overrun: "eof_last ts \<Longrightarrow> no_overrun (close_paren b ts)"
  by (cases ts) (auto dest: eof_last_Cons simp: eof_last_def [of "[]"])

lemma parse_no_overrun:
  "eof_last ts \<Longrightarrow> no_overrun (parse_or_expr ctx ts)"
  "eof_last ts \<Longrightarrow> no_overrun (or_loop ctx left ts)"
  "eof_last ts \<Longrightarrow> no_overrun (parse_and_expr ctx ts)"
  "eof_last ts \<Longrightarrow> no_overrun (and_loop ctx left ts)"
  "eof_last ts \<Longrightarrow> no_overrun (parse_not_expr ctx ts)"
  "eof_last ts \<Longrightarrow> no_overrun (parse_comparison ctx ts)"
proof (induction ctx ts and ctx left ts and ctx ts and ctx left ts and ctx ts and ctx ts
    rule: parse_or_expr_or_loop_parse_and_expr_and_loop_parse_not_expr_parse_comparison.induct)
  case (1 ctx ts)
  then show ?case unfolding parse_or_expr.simps by (blast intro: no_overrun_bind)
next
  case (3 ctx left t ts)
  then show ?case by (auto intro!: no_overrun_bind dest: eof_last_Cons)
next
  case (4 ctx ts)
  then show ?case unfolding parse_and_expr.simps by (blast intro: no_overrun_bind)
next
  case (6 ctx left t ts)
  then show ?case by (auto intro!: no_overrun_bind dest: eof_last_Cons)
next
  case (8 ctx t ts)
  then show ?case by (auto intro!: no_overrun_bind dest: eof_last_Cons)
next
  case (10 ctx t ts)
  then show ?case
    by (auto intro!: no_overrun_bind close_paren_no_overrun parse_operands_no_overrun dest: eof_last_Cons)
qed (simp_all add: eof_last_def)

subsection \<open>Paths\<close>

lemma dropWhile_Nil_iff: "dropWhile P xs = [] \<longleftrightarrow> (\<forall>x \<in> set xs. P x)"
  by (induction xs) auto

lemma strip_Nil_iff: "py_strip s = [] \<longleftrightarrow> (\<forall>c \<in> set s. py_isspace c)"
  by (induction s) (auto simp: py_strip_def dropWhile_Nil_iff)

lemma field_of_simps:
  "field_of (PDict d) n = (case map_of d n of Some w \<Rightarrow> w | None \<Rightarrow> PNone)" "field_of PNone n = PNone" "field_of (PBool b) n = PNone"
  "field_of (PInt i) n = PNone" "field_of (PFloat f) n = PNone" "field_of (PStr s) n = PNone" "field_of (PList vs) n = PNone"
  by (simp_all add: field_of_def)

lemma field_of_nothing: "foldl field_of PNone ps = PNone"
  by (induction ps) (simp_all add: field_of_simps)

lemma walk_path_fields: "walk_path ps v = foldl field_of v ps"
proof (induction ps arbitrary: v)
  case (Cons p ps)
  then show ?case by (cases v) (auto simp: field_of_simps field_of_nothing split: option.splits)
qed simp

lemma resolve_names:
  assumes "take 2 p = ''$.''"
  shows "resolve p ctx = (if length (path_names p) > MAX_INPUT_MAPPING_DEPTH then Inl NopMappingError
    else Inr (foldl field_of (PDict ctx) (path_names p)))"
proof -
  obtain q where p: "p = ''$.'' @ q" using assms by (metis append_take_drop_id)
  have split: "split_on (CHR ''.'') p = ''$'' # split_on (CHR ''.'') q"
    using split_on_append [of "CHR ''.''" "''$''" q] by (simp add: p)
  then have parts: "filter (\<lambda>n. n \<noteq> []) (split_on (CHR ''.'') p) = ''$'' # path_names p" by (simp add: path_names_def)
  have "py_strip p \<noteq> []" "p \<noteq> []" "py_startswith p ''$.''"
    using strip_Nil_iff [of p] by (simp_all add: p py_isspace_def py_startswith_def)
  then show ?thesis
    unfolding resolve_def Let_def parts
    by (cases "path_names p") (simp_all add: walk_path_fields field_of_simps field_of_nothing split: option.splits)
qed

subsection \<open>Meaning\<close>

fun is_int :: "pyval \<Rightarrow> bool" where
  "is_int (PInt i) = True"
| "is_int _ = False"

lemma cval_reading_meaning:
  "wf_cval v \<Longrightarrow> cval_meaning ctx v = (case cval_reading ctx v of Inl e \<Rightarrow> None | Inr x \<Rightarrow> cvalue_of x)"
  by (cases v) (auto simp: resolve_path_def resolve_names res_bind_def cvalue_of_def split: sum.splits pyval.splits)

lemma resolve_path_no_int: "resolve_path p ctx = Inr x \<Longrightarrow> \<not> is_int x"
proof (cases "resolve p ctx")
  case (Inr v)
  then show "resolve_path p ctx = Inr x \<Longrightarrow> \<not> is_int x" by (cases v) (auto simp: resolve_path_def res_bind_eq_Inr)
qed (simp add: resolve_path_def)

lemma cval_reading_no_int: "cval_reading ctx v = Inr x \<Longrightarrow> \<not> is_int x"
  by (cases v) (auto simp: resolve_path_no_int res_bind_eq_Inr)

lemma cvalue_of_total: "\<not> is_int x \<Longrightarrow> \<exists>a. cvalue_of x = Some a"
  by (cases x) (simp_all add: cvalue_of_def)

lemma truthy_holds: "cvalue_of x = Some a \<Longrightarrow> \<not> is_int x \<Longrightarrow> as_truthy x = cv_holds a"
  by (cases x) (auto simp: cvalue_of_def as_truthy_def)

lemma cond_eq_same:
  assumes "cvalue_of x = Some a" "cvalue_of y = Some b" "\<not> is_int x" "\<not> is_int y" "\<not> cv_mixed (Some a) (Some b)"
  shows "cond_eq x y = Inr (cv_same a b)"
  using assms by (cases x; cases y) (auto simp: cvalue_of_def cond_eq_def numeric_def as_float_def py_eq.simps num_val_def)

lemma compare_relates:
  assumes "cvalue_of x = Some a" "cvalue_of y = Some b" "\<not> is_int x" "\<not> is_int y" "op \<in> set comparison_ops"
    and "op \<in> {EQ, NEQ} \<longrightarrow> \<not> cv_mixed (Some a) (Some b)"
  shows "compare x op y = Inr (cv_relates op a b)"
proof (cases "op = EQ \<or> op = NEQ")
  case True
  then show ?thesis using cond_eq_same [OF assms(1-4)] assms(6) by (auto simp: compare_def cv_relates_def)
next
  case False
  then have "op \<in> {GT, GTE, LT, LTE}" using assms(5) by auto
  then show ?thesis
    using assms(1-4) by (cases x; cases y)
      (auto simp: cvalue_of_def compare_def cv_relates_def numeric_def num_val_def order_floats_def order_strings_def)
qed

lemma reading_meaning:
  assumes "wf_cexp e" "kinds_apart ctx e"
  shows "meaning ctx e = (case reading ctx e of Inl x \<Rightarrow> None | Inr b \<Rightarrow> Some b)"
  using assms
proof (induction e)
  case (CTruthy v)
  then show ?case
    using cval_reading_meaning [of v ctx] cval_reading_no_int [of ctx v] cvalue_of_total truthy_holds
    by (cases "cval_reading ctx v") fastforce+
next
  case (CCmp v op w)
  show ?case
  proof (cases "cval_reading ctx v")
    case (Inl e)
    then show ?thesis using CCmp cval_reading_meaning [of v ctx] by simp
  next
    case x: (Inr x)
    show ?thesis
    proof (cases "cval_reading ctx w")
      case (Inl e)
      then show ?thesis using CCmp x cval_reading_meaning [of w ctx] by (simp split: option.splits)
    next
      case y: (Inr y)
      obtain a b where ab: "cvalue_of x = Some a" "cvalue_of y = Some b"
        using cvalue_of_total cval_reading_no_int [OF x] cval_reading_no_int [OF y] by metis
      have m: "cval_meaning ctx v = Some a" "cval_meaning ctx w = Some b"
        using CCmp(1) ab x y cval_reading_meaning [of v ctx] cval_reading_meaning [of w ctx] by simp_all
      then show ?thesis
        using compare_relates [OF ab cval_reading_no_int [OF x] cval_reading_no_int [OF y]] CCmp x y by simp
    qed
  qed
qed (auto simp: res_bind_def split: sum.splits)

section \<open>Properties\<close>

text \<open>
  C9: The evaluator gives an expression its meaning. The expressions are those of the grammar that the parser's
  comments state, with \<open>true\<close> and \<open>false\<close> never the left operand of a comparison; the text has single spaces
  and the fewest parentheses. If no equality compares a truth value with a number, the text is tokenized, parsed
  and evaluated to the meaning of the expression: \<open>!\<close> binds tighter than \<open>&&\<close>, \<open>&&\<close> tighter than \<open>||\<close>,
  connectives associate to the left, paths of at most eight names are followed through the results, numbers are
  ordered as numbers and strings as strings, and an expression with an operand that has no value (a longer path,
  a malformed or too large number) is a \<open>NopConditionError\<close>.
\<close>

theorem evaluate_is_meaning:
  assumes "wf_cexp e" "kinds_apart ctx e"
  shows "evaluate (condition_text e) ctx = (case meaning ctx e of Some b \<Rightarrow> Inr b | None \<Rightarrow> Inl NopConditionError)"
proof -
  have "tokenize (condition_text e) = Inr (cexp_tokens 0 e @ [Token EOF []])"
    unfolding condition_text_def by (rule tokenize_join) (rule good_cexp_tokens [OF assms(1)])
  then have "evaluate (condition_text e) ctx = condition_error (reading ctx e)"
    using condition_text_strip [OF assms(1)] parse_cexp [OF assms(1), of ctx "[]"] by (simp add: evaluate_def)
  then show ?thesis
    unfolding reading_meaning [OF assms] by (cases "reading ctx e") (simp_all add: condition_error_def)
qed

definition ex_condition :: cexp where
  "ex_condition =
     COr (CAnd (CNot (CTruthy (CPath ''$.a.ok''))) (CCmp (CPath ''$.a.n'') GTE (CNum ''-1.5''))) (CCmp (CStr ''x y'') EQ CNull)"

definition ex_results :: "pyval dict" where
  "ex_results = [(''a'', PDict [(''ok'', PBool False), (''n'', PInt 3)])]"

theorem evaluate_is_meaning_witness:
  "condition_text ex_condition = ''! $.a.ok && $.a.n >= -1.5 || '' @ [CHR 34] @ ''x y'' @ [CHR 34] @ '' == null''
   \<and> evaluate (condition_text ex_condition) ex_results = Inr True"
proof
  show "condition_text ex_condition = ''! $.a.ok && $.a.n >= -1.5 || '' @ [CHR 34] @ ''x y'' @ [CHR 34] @ '' == null''"
    by code_simp
  have "evaluate (condition_text ex_condition) ex_results
      = (case meaning ex_results ex_condition of Some b \<Rightarrow> Inr b | None \<Rightarrow> Inl NopConditionError)"
    by (rule evaluate_is_meaning; code_simp)
  also have "\<dots> = Inr True" by code_simp
  finally show "evaluate (condition_text ex_condition) ex_results = Inr True" .
qed

text \<open>
  C34: The parser never reads past the end of its tokens: on the tokens of any text it does not raise
  \<open>IndexError\<close>, whatever the upstream results are. Every production stops at the final \<open>EOF\<close> token.
\<close>

theorem parser_stays_in_bounds:
  assumes "tokenize s = Inr tokens"
  shows "parse_or_expr ctx tokens \<noteq> Inl IndexError"
  using parse_no_overrun(1) [OF tokenize_eof [OF assms], of ctx] by auto

theorem parser_stays_in_bounds_witness:
  "parse_or_expr [] [Token LPAREN ''('', Token EOF []] \<noteq> Inl IndexError"
  by (rule parser_stays_in_bounds [of "''(''"]) code_simp

text \<open>
  A path \<open>$.n.f1...fk\<close> of at most eight segments names the value reached by following the fields
  from the result of node \<open>n\<close>, \<open>None\<close> when the node or a field is missing or an inner value is not an
  object; a longer path is rejected before anything is read.
\<close>

theorem resolve_follows_path:
  assumes "ps \<noteq> []" "\<And>p. p \<in> set ps \<Longrightarrow> p \<noteq> [] \<and> CHR ''.'' \<notin> set p"
  shows "resolve (''$.'' @ join_with ''.'' ps) ctx =
    (if length ps > MAX_INPUT_MAPPING_DEPTH then Inl NopMappingError else Inr (foldl field_of (PDict ctx) ps))"
proof -
  have "split_on (CHR ''.'') (''$.'' @ join_with ''.'' ps) = ''$'' # split_on (CHR ''.'') (join_with ''.'' ps)"
    using split_on_append [of "CHR ''.''" "''$''"] by simp
  also have "split_on (CHR ''.'') (join_with ''.'' ps) = ps" by (rule split_on_join) (use assms in auto)
  finally have "path_names (''$.'' @ join_with ''.'' ps) = ps"
    using assms(2) by (simp add: path_names_def filter_id_conv)
  then show ?thesis by (subst resolve_names) simp_all
qed

theorem resolve_follows_path_witness:
  "resolve (''$.'' @ join_with ''.'' [''a'', ''n'']) ex_results = Inr (PInt 3)"
proof -
  have "resolve (''$.'' @ join_with ''.'' [''a'', ''n'']) ex_results =
    (if length [''a'', ''n''] > MAX_INPUT_MAPPING_DEPTH then Inl NopMappingError
     else Inr (foldl field_of (PDict ex_results) [''a'', ''n'']))"
    by (rule resolve_follows_path) auto
  also have "\<dots> = Inr (PInt 3)" by code_simp
  finally show ?thesis .
qed

text \<open>
  Three comparisons that do not do what they say. A comparison whose left side is the literal
  \<open>true\<close> ends at the literal: the parser returns \<open>True\<close> and the rest of the tokens is never read. A
  boolean and a number compare as equal although the code means to keep them apart. A string that
  is never closed is accepted.
\<close>

lemma condition_oddities:
  "evaluate ''true == false'' ex_results = Inr True"
  "evaluate ''true ) )'' ex_results = Inr True"
  "evaluate ''$.a.ok == 0'' ex_results = Inr True"
  "evaluate (CHR 34 # ''open'') ex_results = Inr True"
  by code_simp+

end
