(* ===== verification/NopDag.thy ===== *)
theory NopDag
  imports NopCondition
begin

text \<open>
  Task graphs as the orchestrator works with them (\<open>nps_sdk/nop/models.py\<close>, attributes at the types
  the dataclasses declare), the graph validator with Kahn's topological sort
  (\<open>nps_sdk/nop/validation.py\<close>), retry delays, and the aggregation of results
  (\<open>nps_sdk/nop/aggregator.py\<close>).

  The validator keeps node ids in a Python \<open>set\<close>, whose iteration order is not specified; the order
  is an argument of the model, and every statement holds for each order. Subscripting a dictionary
  with a missing key is the branch \<open>KeyError\<close>.
\<close>

section \<open>Models\<close>

datatype task_state =
    PENDING | PREFLIGHT | RUNNING | WAITING_SYNC | COMPLETED | FAILED | CANCELLED | SKIPPED
  | COMPENSATING | COMPENSATED

fun task_state_value :: "task_state \<Rightarrow> string" where
  "task_state_value PENDING = ''pending''"
| "task_state_value PREFLIGHT = ''preflight''"
| "task_state_value RUNNING = ''running''"
| "task_state_value WAITING_SYNC = ''waiting_sync''"
| "task_state_value COMPLETED = ''completed''"
| "task_state_value FAILED = ''failed''"
| "task_state_value CANCELLED = ''cancelled''"
| "task_state_value SKIPPED = ''skipped''"
| "task_state_value COMPENSATING = ''compensating''"
| "task_state_value COMPENSATED = ''compensated''"

definition runs_on_failure :: "string option \<Rightarrow> bool" where
  "runs_on_failure policy =
     (policy \<in> {Some ''best_effort'', Some ''strict'', Some ''on_failure'', Some ''always''})"

definition runs_on_success :: "string option \<Rightarrow> bool" where
  "runs_on_success policy = (policy = Some ''always'')"

definition is_strict :: "string option \<Rightarrow> bool" where
  "is_strict policy = (policy = Some ''strict'')"

record retry =
  re_max_retries :: int
  re_backoff :: string
  re_initial_delay_ms :: int
  re_max_delay_ms :: int
  re_retry_on :: "string list"

text \<open>
  \<open>attempt\<close> counts from one, so the exponent of two is a natural number.
\<close>

definition compute_delay_ms :: "retry \<Rightarrow> nat \<Rightarrow> int" where
  "compute_delay_ms p attempt =
     (let delay = (if re_backoff p = ''fixed'' then re_initial_delay_ms p
                   else if re_backoff p = ''linear'' then re_initial_delay_ms p * int attempt
                   else re_initial_delay_ms p * 2 ^ (attempt - 1))
      in min delay (re_max_delay_ms p))"

record edge =
  e_from :: string
  e_to :: string

record node =
  n_id :: string
  n_action :: string
  n_agent :: string
  n_input_from :: "string list"
  n_input_mapping :: "pyval dict option"
  n_timeout_ms :: "int option"
  n_retry_policy :: "retry option"
  n_condition :: "string option"
  n_min_required :: int
  n_compensate_action :: "string option"
  n_compensate_params_mapping :: "pyval dict option"

record dag =
  d_nodes :: "node list"
  d_edges :: "edge list"

section \<open>Validation\<close>

datatype dag_validation = DagSuccess "string list" | DagFailure string

definition NOP_TASK_DAG_INVALID :: string where "NOP_TASK_DAG_INVALID = ''NOP-TASK-DAG-INVALID''"
definition NOP_TASK_DAG_TOO_LARGE :: string where "NOP_TASK_DAG_TOO_LARGE = ''NOP-TASK-DAG-TOO-LARGE''"
definition NOP_TASK_DAG_CYCLE :: string where "NOP_TASK_DAG_CYCLE = ''NOP-TASK-DAG-CYCLE''"
definition NOP_CONDITION_EVAL_ERROR :: string where "NOP_CONDITION_EVAL_ERROR = ''NOP-CONDITION-EVAL-ERROR''"

text \<open>
  The loop over the edges: \<open>None\<close> when an edge names an unknown node, otherwise the adjacency lists
  and in-degrees.
\<close>

fun edge_loop ::
  "string list \<Rightarrow> edge list \<Rightarrow> string list dict \<Rightarrow> int dict \<Rightarrow> (string list dict \<times> int dict) option res" where
  "edge_loop ids [] adj deg = Inr (Some (adj, deg))"
| "edge_loop ids (e # es) adj deg =
     (if e_from e \<notin> set ids \<or> e_to e \<notin> set ids then Inr None
      else res_bind (dict_item adj (e_from e)) (\<lambda>ns.
           res_bind (dict_item deg (e_to e)) (\<lambda>d.
             edge_loop ids es (dict_set (e_from e) (ns @ [e_to e]) adj) (dict_set (e_to e) (d + 1) deg))))"

text \<open>The inner loop of Kahn's algorithm over the neighbours of the node taken from the queue.\<close>

fun relax :: "string list \<Rightarrow> int dict \<Rightarrow> string list \<Rightarrow> (int dict \<times> string list) res" where
  "relax [] remaining queue = Inr (remaining, queue)"
| "relax (nb # nbs) remaining queue =
     res_bind (dict_item remaining nb) (\<lambda>d.
       relax nbs (dict_set nb (d - 1) remaining) (if d - 1 = 0 then queue @ [nb] else queue))"

text \<open>
  The work left: the positive in-degrees plus the length of the queue. A neighbour is queued only
  when its in-degree drops from one to zero, so the inner loop never increases it.
\<close>

definition work :: "int dict \<Rightarrow> string list \<Rightarrow> nat" where
  "work remaining queue = sum_list (map (nat \<circ> snd) remaining) + length queue"

lemma sum_dict_set:
  "map_of d k = Some (v :: int) \<Longrightarrow>
     sum_list (map (nat \<circ> snd) (dict_set k w d)) + nat v = sum_list (map (nat \<circ> snd) d) + nat w"
  by (induction d) (auto simp: dict_set_def)

lemma relax_work: "relax nbs remaining queue = Inr (r, q) \<Longrightarrow> work r q \<le> work remaining queue"
proof (induction nbs arbitrary: remaining queue)
  case (Cons nb nbs)
  then obtain d where d: "map_of remaining nb = Some d"
    and r: "relax nbs (dict_set nb (d - 1) remaining) (if d - 1 = 0 then queue @ [nb] else queue) = Inr (r, q)"
    by (auto simp: res_simps dict_item_def)
  have "work (dict_set nb (d - 1) remaining) (if d - 1 = 0 then queue @ [nb] else queue) \<le> work remaining queue"
    using sum_dict_set [OF d, of "d - 1"] by (auto simp: work_def)
  with Cons.IH [OF r] show ?case by simp
qed (simp add: work_def)

function kahn :: "string list dict \<Rightarrow> int dict \<Rightarrow> string list \<Rightarrow> string list \<Rightarrow> string list res" where
  "kahn adj remaining [] sorted_order = Inr sorted_order"
| "kahn adj remaining (cur # queue) sorted_order =
     (case dict_item adj cur of
        Inl e \<Rightarrow> Inl e
      | Inr nbs \<Rightarrow>
          (case relax nbs remaining queue of
             Inl e \<Rightarrow> Inl e
           | Inr (r, q) \<Rightarrow> kahn adj r q (sorted_order @ [cur])))"
  by pat_completeness auto
termination
  by (relation "measure (\<lambda>(adj, remaining, queue, s). work remaining queue)")
    (auto dest!: relax_work simp: work_def)

text \<open>
  \<open>ids\<close> is the iteration order of the set of node ids.
\<close>

definition validate_edges :: "string list \<Rightarrow> dag \<Rightarrow> dag_validation res" where
  "validate_edges ids dag =
     res_bind (edge_loop ids (d_edges dag) (map (\<lambda>i. (i, [])) ids) (map (\<lambda>i. (i, 0)) ids)) (\<lambda>r.
       case r of
         None \<Rightarrow> Inr (DagFailure NOP_TASK_DAG_INVALID)
       | Some (adjacency, in_degree) \<Rightarrow>
           if \<exists>n \<in> set (d_nodes dag). \<exists>u \<in> set (n_input_from n). u \<notin> set ids
           then Inr (DagFailure NOP_TASK_DAG_INVALID)
           else if \<not> (\<exists>(k, d) \<in> set in_degree. d = 0) then Inr (DagFailure NOP_TASK_DAG_INVALID)
           else if \<not> (\<exists>(k, l) \<in> set adjacency. length l = 0) then Inr (DagFailure NOP_TASK_DAG_INVALID)
           else if \<exists>n \<in> set (d_nodes dag).
                     (case n_condition n of None \<Rightarrow> False | Some c \<Rightarrow> length c > MAX_CONDITION_LENGTH)
           then Inr (DagFailure NOP_CONDITION_EVAL_ERROR)
           else res_bind (kahn adjacency in_degree (map fst (filter (\<lambda>(k, d). d = 0) in_degree)) []) (\<lambda>order.
             if length order \<noteq> length ids then Inr (DagFailure NOP_TASK_DAG_CYCLE)
             else Inr (DagSuccess order)))"

definition validate :: "string list \<Rightarrow> dag \<Rightarrow> dag_validation res" where
  "validate ids dag =
     (if length (d_nodes dag) = 0 then Inr (DagFailure NOP_TASK_DAG_INVALID)
      else if length (d_nodes dag) > MAX_DAG_NODES then Inr (DagFailure NOP_TASK_DAG_TOO_LARGE)
      else if \<not> distinct (map n_id (d_nodes dag)) then Inr (DagFailure NOP_TASK_DAG_INVALID)
      else validate_edges ids dag)"

section \<open>Aggregation\<close>

text \<open>Results as a sequence of values; \<open>_result_{i}\<close> carries the position in the sequence.\<close>

fun merge_items :: "pyval dict \<Rightarrow> pyval dict \<Rightarrow> pyval dict" where
  "merge_items [] merged = merged"
| "merge_items ((k, v) # items) merged = merge_items items (dict_set k v merged)"

fun merge_loop :: "nat \<Rightarrow> pyval list \<Rightarrow> pyval dict \<Rightarrow> pyval dict" where
  "merge_loop i [] merged = merged"
| "merge_loop i (r # rs) merged =
     merge_loop (Suc i) rs
       (case r of PDict d \<Rightarrow> merge_items d merged | _ \<Rightarrow> dict_set (''_result_'' @ nat_str i) r merged)"

definition merge :: "pyval list \<Rightarrow> pyval" where
  "merge results = PDict (merge_loop 0 results [])"

text \<open>\<open>xs[:k]\<close> for a positive \<open>k\<close> takes the first \<open>k\<close> results.\<close>

definition aggregate :: "string \<Rightarrow> pyval list \<Rightarrow> int \<Rightarrow> pyval" where
  "aggregate strategy results min_required =
     (if results = [] then PDict []
      else if strategy = ''first'' then hd results
      else if strategy = ''all'' then PList results
      else if strategy = ''fastest_k'' then
        PList (take (if min_required > 0 then nat min_required else length results) results)
      else merge results)"

definition aggregate_end_nodes :: "string list \<Rightarrow> pyval dict \<Rightarrow> string \<Rightarrow> pyval" where
  "aggregate_end_nodes end_node_ids all_results strategy =
     aggregate strategy (List.map_filter (\<lambda>nid. map_of all_results nid) end_node_ids) 0"

section \<open>Lemmas\<close>

subsection \<open>Adjacency lists and in-degrees\<close>

definition out_ids :: "edge list \<Rightarrow> string \<Rightarrow> string list" where
  "out_ids es u = map e_to (filter (\<lambda>e. e_from e = u) es)"

definition in_count :: "edge list \<Rightarrow> string \<Rightarrow> nat" where
  "in_count es v = length (filter (\<lambda>e. e_to e = v) es)"

lemma edge_loop_unknown:
  "\<exists>e \<in> set es. e_from e \<notin> set ids \<or> e_to e \<notin> set ids \<Longrightarrow>
   (\<And>i. i \<in> set ids \<Longrightarrow> map_of adj i \<noteq> None \<and> map_of deg i \<noteq> None) \<Longrightarrow>
     edge_loop ids es adj deg = Inr None"
proof (induction es arbitrary: adj deg)
  case (Cons e es)
  show ?case
  proof (cases "e_from e \<notin> set ids \<or> e_to e \<notin> set ids")
    case False
    then obtain ns d where nd: "map_of adj (e_from e) = Some ns" "map_of deg (e_to e) = Some d"
      using Cons.prems(2) by blast
    have "edge_loop ids es (dict_set (e_from e) (ns @ [e_to e]) adj) (dict_set (e_to e) (d + 1) deg) = Inr None"
      using Cons.prems False by (intro Cons.IH) auto
    with False nd show ?thesis by (simp add: dict_item_def)
  qed simp
qed simp

lemma keys_dict_set_same: "k \<in> fst ` set d \<Longrightarrow> map fst (dict_set k v d) = map fst d"
  by (induction d) (auto simp: dict_set_def)

lemma edge_loop_known:
  assumes "\<forall>e \<in> set es. e_from e \<in> set ids \<and> e_to e \<in> set ids"
    and "map fst adj = ids" "map fst deg = ids"
  shows "\<exists>adj' deg'. edge_loop ids es adj deg = Inr (Some (adj', deg')) \<and> map fst adj' = ids \<and> map fst deg' = ids
    \<and> (\<forall>u. map_of adj' u = map_option (\<lambda>ns. ns @ out_ids es u) (map_of adj u))
    \<and> (\<forall>v. map_of deg' v = map_option (\<lambda>d. d + int (in_count es v)) (map_of deg v))"
  using assms
proof (induction es arbitrary: adj deg)
  case Nil
  then show ?case by (simp add: out_ids_def in_count_def option.map_id0 [unfolded id_def])
next
  case (Cons e es)
  have f: "e_from e \<in> fst ` set adj" "e_to e \<in> fst ` set deg"
    using Cons.prems by (metis list.set_map list.set_intros(1))+
  then obtain ns d where nd: "map_of adj (e_from e) = Some ns" "map_of deg (e_to e) = Some d"
    by (metis map_of_eq_None_iff not_None_eq)
  let ?adj = "dict_set (e_from e) (ns @ [e_to e]) adj" and ?deg = "dict_set (e_to e) (d + 1) deg"
  have "map fst ?adj = ids" "map fst ?deg = ids"
    using f Cons.prems(2,3) by (simp_all add: keys_dict_set_same)
  then obtain adj' deg' where r: "edge_loop ids es ?adj ?deg = Inr (Some (adj', deg'))"
      "map fst adj' = ids" "map fst deg' = ids"
      "\<forall>u. map_of adj' u = map_option (\<lambda>ns. ns @ out_ids es u) (map_of ?adj u)"
      "\<forall>v. map_of deg' v = map_option (\<lambda>d. d + int (in_count es v)) (map_of ?deg v)"
    using Cons.IH [of ?adj ?deg] Cons.prems(1) by (metis list.set_intros(2))
  have "edge_loop ids (e # es) adj deg = Inr (Some (adj', deg'))"
    using Cons.prems(1) r(1) nd by (simp add: dict_item_def)
  moreover have "map_of adj' u = map_option (\<lambda>ns. ns @ out_ids (e # es) u) (map_of adj u)" for u
    using r(4) nd(1) by (auto simp: out_ids_def option.map_comp)
  moreover have "map_of deg' v = map_option (\<lambda>d. d + int (in_count (e # es) v)) (map_of deg v)" for v
    using r(5) nd(2) by (auto simp: in_count_def)
  ultimately show ?case using r(2,3) by blast
qed

subsection \<open>Kahn's algorithm\<close>

lemma relax_counts:
  assumes "\<And>n. n \<in> set nbs \<Longrightarrow> \<exists>d. map_of remaining n = Some d \<and> int (count_list nbs n) \<le> d"
  shows "\<exists>r new. relax nbs remaining queue = Inr (r, queue @ new) \<and> distinct new
    \<and> set new = {n \<in> set nbs. map_of remaining n = Some (int (count_list nbs n))}
    \<and> (\<forall>n. map_of r n = map_option (\<lambda>d. d - int (count_list nbs n)) (map_of remaining n))"
  using assms
proof (induction nbs arbitrary: remaining queue)
  case Nil
  then show ?case by (simp add: option.map_id0 [unfolded id_def])
next
  case (Cons nb nbs)
  obtain d where d: "map_of remaining nb = Some d" "int (count_list (nb # nbs) nb) \<le> d"
    using Cons.prems by force
  let ?rem = "dict_set nb (d - 1) remaining" and ?q = "if d - 1 = 0 then queue @ [nb] else queue"
  have "\<exists>d. map_of ?rem n = Some d \<and> int (count_list nbs n) \<le> d" if "n \<in> set nbs" for n
    using Cons.prems [of n] that d by (auto split: if_splits)
  from Cons.IH [OF this, of ?q] obtain r new where r: "relax nbs ?rem ?q = Inr (r, ?q @ new)" "distinct new"
      "set new = {n \<in> set nbs. map_of ?rem n = Some (int (count_list nbs n))}"
      "\<forall>n. map_of r n = map_option (\<lambda>d. d - int (count_list nbs n)) (map_of ?rem n)"
    by blast
  let ?new = "if d - 1 = 0 then nb # new else new"
  have pos: "0 < count_list nbs nb" if "nb \<in> set nbs"
    using that by (metis count_list_0_iff gr0I)
  have nb: "nb \<notin> set new" if "d = 1"
    using that pos d(2) by (auto simp: r(3))
  have "relax (nb # nbs) remaining queue = Inr (r, queue @ ?new)"
    using r(1) d(1) by (simp add: dict_item_def)
  moreover have "distinct ?new" using r(2) nb by auto
  moreover have "set ?new = {n \<in> set (nb # nbs). map_of remaining n = Some (int (count_list (nb # nbs) n))}"
  proof (intro set_eqI, unfold mem_Collect_eq)
    fix n
    show "n \<in> set ?new \<longleftrightarrow> n \<in> set (nb # nbs) \<and> map_of remaining n = Some (int (count_list (nb # nbs) n))"
    proof (cases "n = nb")
      case True
      show ?thesis
      proof (cases "nb \<in> set nbs")
        case True
        then show ?thesis using \<open>n = nb\<close> pos d r(3) by auto
      next
        case False
        then show ?thesis using \<open>n = nb\<close> d r(3) by (auto simp: count_list_0_iff)
      qed
    next
      case False
      then show ?thesis using r(3) by auto
    qed
  qed
  moreover have "\<forall>n. map_of r n = map_option (\<lambda>d. d - int (count_list (nb # nbs) n)) (map_of remaining n)"
    using r(4) d(1) by auto
  ultimately show ?case by blast
qed

definition open_count :: "edge list \<Rightarrow> string list \<Rightarrow> string \<Rightarrow> nat" where
  "open_count es s n = length (filter (\<lambda>e. e_to e = n \<and> e_from e \<notin> set s) es)"

text \<open>\<open>u\<close> stands before \<open>v\<close> in the list.\<close>

definition precedes :: "'a list \<Rightarrow> 'a \<Rightarrow> 'a \<Rightarrow> bool" where
  "precedes s u v \<longleftrightarrow> (\<exists>as bs cs. s = as @ u # bs @ v # cs)"

text \<open>The loop invariant: \<open>s\<close> has been output, \<open>q\<close> is queued.\<close>

definition kahn_inv :: "edge list \<Rightarrow> string list \<Rightarrow> int dict \<Rightarrow> string list \<Rightarrow> string list \<Rightarrow> bool" where
  "kahn_inv es ids rem q s \<longleftrightarrow>
     distinct (s @ q) \<and> set (s @ q) \<subseteq> set ids
     \<and> (\<forall>n \<in> set ids. map_of rem n = Some (int (open_count es s n)))
     \<and> (\<forall>n \<in> set ids. n \<in> set (s @ q) \<longleftrightarrow> open_count es s n = 0)
     \<and> (\<forall>e \<in> set es. e_to e \<in> set s \<longrightarrow> precedes s (e_from e) (e_to e))"

lemma precedes_snoc: "precedes s u v \<Longrightarrow> precedes (s @ [x]) u v"
proof -
  assume "precedes s u v"
  then obtain as bs cs where "s = as @ u # bs @ v # cs" by (auto simp: precedes_def)
  then have "s @ [x] = as @ u # bs @ v # (cs @ [x])" by simp
  then show ?thesis unfolding precedes_def by blast
qed

lemma precedes_last: "u \<in> set s \<Longrightarrow> precedes (s @ [v]) u v"
  by (fastforce simp: precedes_def dest: split_list)

lemma count_out_ids: "count_list (out_ids es u) v = length (filter (\<lambda>e. e_from e = u \<and> e_to e = v) es)"
  by (induction es) (auto simp: out_ids_def)

lemma open_count_snoc:
  "u \<notin> set s \<Longrightarrow> open_count es s n = open_count es (s @ [u]) n + count_list (out_ids es u) n"
  by (induction es) (auto simp: open_count_def count_out_ids)

lemma open_count_0: "open_count es s n = 0 \<longleftrightarrow> (\<forall>e \<in> set es. e_to e = n \<longrightarrow> e_from e \<in> set s)"
  by (auto simp: open_count_def filter_empty_conv)

lemma kahn_step:
  assumes inv: "kahn_inv es ids rem (cur # q) s"
    and known: "\<forall>e \<in> set es. e_from e \<in> set ids \<and> e_to e \<in> set ids"
  shows "\<exists>r q'. relax (out_ids es cur) rem q = Inr (r, q') \<and> kahn_inv es ids r q' (s @ [cur])"
proof -
  let ?nbs = "out_ids es cur"
  have cur: "cur \<notin> set s" "cur \<in> set ids" using inv by (auto simp: kahn_inv_def)
  have cnt: "open_count es s n = open_count es (s @ [cur]) n + count_list ?nbs n" for n
    by (rule open_count_snoc [OF cur(1)])
  have sub: "set ?nbs \<subseteq> set ids" using known by (auto simp: out_ids_def)
  have rem: "map_of rem n = Some (int (open_count es s n))" if "n \<in> set ids" for n
    using inv that by (simp add: kahn_inv_def)
  have q: "n \<in> set (s @ cur # q) \<longleftrightarrow> open_count es s n = 0" if "n \<in> set ids" for n
    using inv that by (simp add: kahn_inv_def)
  have "\<exists>d. map_of rem n = Some d \<and> int (count_list ?nbs n) \<le> d" if "n \<in> set ?nbs" for n
    using rem [of n] sub that cnt [of n] by auto
  from relax_counts [OF this, of q] obtain r new where
    rx: "relax ?nbs rem q = Inr (r, q @ new)" and dn: "distinct new"
    and new: "set new = {n \<in> set ?nbs. map_of rem n = Some (int (count_list ?nbs n))}"
    and r: "\<forall>n. map_of r n = map_option (\<lambda>d. d - int (count_list ?nbs n)) (map_of rem n)" by blast
  have new_iff: "n \<in> set new \<longleftrightarrow> n \<in> set ?nbs \<and> open_count es (s @ [cur]) n = 0" if "n \<in> set ids" for n
    using rem [OF that] cnt [of n] by (auto simp: new)
  have nb_pos: "0 < open_count es s n" if "n \<in> set ?nbs" for n
  proof -
    have "count_list ?nbs n \<noteq> 0" using that by (simp add: count_list_0_iff)
    then show ?thesis using cnt [of n] by simp
  qed
  have new_sub: "set new \<subseteq> set ids" using sub by (auto simp: new)
  have "distinct ((s @ [cur]) @ q @ new)"
  proof -
    have "set new \<inter> set (s @ cur # q) = {}"
    proof (rule ccontr)
      assume "set new \<inter> set (s @ cur # q) \<noteq> {}"
      then obtain n where n: "n \<in> set new" "n \<in> set (s @ cur # q)" by blast
      then have "n \<in> set ids" "n \<in> set ?nbs" using new_sub by (auto simp: new)
      then show False using q [of n] n(2) nb_pos [of n] by simp
    qed
    moreover have "distinct (s @ cur # q)" using inv by (simp add: kahn_inv_def)
    ultimately show ?thesis using dn by auto
  qed
  moreover have "set ((s @ [cur]) @ q @ new) \<subseteq> set ids"
    using inv new_sub by (auto simp: kahn_inv_def)
  moreover have "map_of r n = Some (int (open_count es (s @ [cur]) n))" if "n \<in> set ids" for n
    using r rem [OF that] cnt [of n] by simp
  moreover have "n \<in> set ((s @ [cur]) @ q @ new) \<longleftrightarrow> open_count es (s @ [cur]) n = 0" if "n \<in> set ids" for n
  proof (cases "n \<in> set ?nbs")
    case True
    then show ?thesis using q [OF that] nb_pos [of n] new_iff [OF that] by auto
  next
    case False
    then have "count_list ?nbs n = 0" by (simp add: count_list_0_iff)
    then show ?thesis using q [OF that] cnt [of n] new_iff [OF that] False by auto
  qed
  moreover have "precedes (s @ [cur]) (e_from e) (e_to e)"
    if e: "e \<in> set es" "e_to e \<in> set (s @ [cur])" for e
  proof (cases "e_to e = cur")
    case True
    have "open_count es s cur = 0" using q [OF cur(2)] by simp
    then have "e_from e \<in> set s" using e(1) True by (auto simp: open_count_0)
    then show ?thesis using precedes_last True by metis
  next
    case False
    then have "precedes s (e_from e) (e_to e)" using inv e by (simp add: kahn_inv_def)
    then show ?thesis by (rule precedes_snoc)
  qed
  ultimately have "kahn_inv es ids r (q @ new) (s @ [cur])" unfolding kahn_inv_def by blast
  with rx show ?thesis by blast
qed

lemma kahn_runs:
  assumes "kahn_inv es ids rem q s" "\<forall>e \<in> set es. e_from e \<in> set ids \<and> e_to e \<in> set ids"
    and "\<And>u. u \<in> set ids \<Longrightarrow> map_of adj u = Some (out_ids es u)"
  shows "\<exists>order r. kahn adj rem q s = Inr order \<and> kahn_inv es ids r [] order"
  using assms
proof (induction adj rem q s rule: kahn.induct)
  case (2 adj rem cur q s)
  obtain r q' where r: "relax (out_ids es cur) rem q = Inr (r, q')" "kahn_inv es ids r q' (s @ [cur])"
    using kahn_step [OF 2(2,3)] by blast
  have adj: "dict_item adj cur = Inr (out_ids es cur)"
    using 2(2,4) by (auto simp: kahn_inv_def dict_item_def)
  have "\<exists>order ra. kahn adj r q' (s @ [cur]) = Inr order \<and> kahn_inv es ids ra [] order"
    by (rule 2(1) [OF adj r(1) refl r(2) 2(3,4)])
  then show ?case using adj r(1) by simp
qed auto

subsection \<open>Acyclic graphs\<close>

definition edge_rel :: "edge list \<Rightarrow> (string \<times> string) set" where
  "edge_rel es = (\<lambda>e. (e_from e, e_to e)) ` set es"

lemma precedes_position:
  assumes "distinct s" "precedes s u v"
  shows "length (takeWhile (\<lambda>x. x \<noteq> u) s) < length (takeWhile (\<lambda>x. x \<noteq> v) s)"
proof -
  obtain as bs cs where s: "s = as @ u # bs @ v # cs" using assms(2) by (auto simp: precedes_def)
  then have "takeWhile (\<lambda>x. x \<noteq> u) s = as" "takeWhile (\<lambda>x. x \<noteq> v) s = as @ u # bs"
    using assms(1) by (auto simp: takeWhile_append2 takeWhile_append)
  then show ?thesis by simp
qed

lemma order_acyclic:
  assumes "distinct s" "\<forall>e \<in> set es. precedes s (e_from e) (e_to e)"
  shows "acyclic (edge_rel es)"
proof (rule wf_acyclic)
  have "edge_rel es \<subseteq> measure (\<lambda>n. length (takeWhile (\<lambda>x. x \<noteq> n) s))"
    using precedes_position [OF assms(1)] assms(2) by (auto simp: edge_rel_def)
  then show "wf (edge_rel es)" by (rule wf_subset [OF wf_measure])
qed

lemma acyclic_wf: "acyclic (edge_rel es) \<Longrightarrow> wf (edge_rel es) \<and> wf ((edge_rel es)\<inverse>)"
  by (simp add: finite_acyclic_wf finite_acyclic_wf_converse edge_rel_def)

lemma kahn_complete:
  assumes "kahn_inv es ids r [] order" "\<forall>e \<in> set es. e_from e \<in> set ids" "acyclic (edge_rel es)"
  shows "set order = set ids"
proof (rule ccontr)
  assume "set order \<noteq> set ids"
  then obtain n where n: "n \<in> set ids - set order" using assms(1) by (auto simp: kahn_inv_def)
  obtain m where m: "m \<in> set ids - set order" "\<And>y. (y, m) \<in> edge_rel es \<Longrightarrow> y \<notin> set ids - set order"
    using wfE_min [OF conjunct1 [OF acyclic_wf [OF assms(3)]] n] by metis
  then have "open_count es order m \<noteq> 0" using assms(1) by (auto simp: kahn_inv_def)
  then obtain e where "e \<in> set es" "e_to e = m" "e_from e \<notin> set order" by (auto simp: open_count_0)
  then show False using m(2) [of "e_from e"] assms(2) by (auto simp: edge_rel_def)
qed

subsection \<open>Validation\<close>

definition dag_known :: "dag \<Rightarrow> bool" where
  "dag_known dag \<longleftrightarrow>
     (\<forall>e \<in> set (d_edges dag). e_from e \<in> n_id ` set (d_nodes dag) \<and> e_to e \<in> n_id ` set (d_nodes dag))"

definition dag_ok :: "dag \<Rightarrow> bool" where
  "dag_ok dag \<longleftrightarrow>
     0 < length (d_nodes dag) \<and> length (d_nodes dag) \<le> MAX_DAG_NODES \<and> distinct (map n_id (d_nodes dag))
     \<and> dag_known dag
     \<and> (\<forall>n \<in> set (d_nodes dag). set (n_input_from n) \<subseteq> n_id ` set (d_nodes dag))
     \<and> (\<forall>n \<in> set (d_nodes dag). \<forall>c. n_condition n = Some c \<longrightarrow> length c \<le> MAX_CONDITION_LENGTH)"

lemma edge_tables:
  assumes "set ids = n_id ` set (d_nodes dag)" "distinct ids"
  shows "\<not> dag_known dag \<Longrightarrow> edge_loop ids (d_edges dag) (map (\<lambda>i. (i, [])) ids) (map (\<lambda>i. (i, 0)) ids) = Inr None"
    and "dag_known dag \<Longrightarrow>
      \<exists>adj deg. edge_loop ids (d_edges dag) (map (\<lambda>i. (i, [])) ids) (map (\<lambda>i. (i, 0)) ids) = Inr (Some (adj, deg))
        \<and> map fst adj = ids \<and> map fst deg = ids
        \<and> (\<forall>u \<in> set ids. map_of adj u = Some (out_ids (d_edges dag) u))
        \<and> (\<forall>v \<in> set ids. map_of deg v = Some (int (in_count (d_edges dag) v)))"
proof -
  have m: "map_of (map (\<lambda>i. (i, x)) ids) i = (if i \<in> set ids then Some x else None)" for x :: 'x and i
    by (induction ids) auto
  show "edge_loop ids (d_edges dag) (map (\<lambda>i. (i, [])) ids) (map (\<lambda>i. (i, 0)) ids) = Inr None" if "\<not> dag_known dag"
    using that assms(1) by (intro edge_loop_unknown) (auto simp: dag_known_def m)
  show "\<exists>adj deg. edge_loop ids (d_edges dag) (map (\<lambda>i. (i, [])) ids) (map (\<lambda>i. (i, 0)) ids) = Inr (Some (adj, deg))
        \<and> map fst adj = ids \<and> map fst deg = ids
        \<and> (\<forall>u \<in> set ids. map_of adj u = Some (out_ids (d_edges dag) u))
        \<and> (\<forall>v \<in> set ids. map_of deg v = Some (int (in_count (d_edges dag) v)))" if "dag_known dag"
    using that assms(1) edge_loop_known [of "d_edges dag" ids "map (\<lambda>i. (i, [])) ids" "map (\<lambda>i. (i, 0)) ids"]
    by (auto simp: dag_known_def m comp_def)
qed

lemma dict_values:
  "distinct (map fst d) \<Longrightarrow> (k, v) \<in> set d \<longleftrightarrow> k \<in> set (map fst d) \<and> map_of d k = Some v"
  by (metis (no_types) image_eqI list.set_map map_of_eq_Some_iff fst_conv)

lemma kahn_start:
  assumes "distinct ids" "map fst deg = ids"
    and "\<forall>v \<in> set ids. map_of deg v = Some (int (in_count es v))"
  shows "kahn_inv es ids deg (map fst (filter (\<lambda>(k, d). d = 0) deg)) []"
proof -
  have oc: "open_count es [] n = in_count es n" for n by (simp add: open_count_def in_count_def)
  have "n \<in> set (map fst (filter (\<lambda>(k, d). d = 0) deg)) \<longleftrightarrow> in_count es n = 0" if "n \<in> set ids" for n
  proof -
    have "n \<in> set (map fst (filter (\<lambda>(k, d). d = 0) deg)) \<longleftrightarrow> (n, 0) \<in> set deg" by force
    also have "\<dots> \<longleftrightarrow> map_of deg n = Some 0" using dict_values [of deg n 0] assms(1,2) that by simp
    also have "\<dots> \<longleftrightarrow> in_count es n = 0" using assms(3) that by simp
    finally show ?thesis .
  qed
  moreover have "distinct (map fst (filter (\<lambda>(k, d). d = 0) deg))"
    using assms by (simp add: distinct_map_filter)
  moreover have "set (map fst (filter (\<lambda>(k, d). d = 0) deg)) \<subseteq> set ids"
    unfolding assms(2) [symmetric] by auto
  ultimately show ?thesis
    using assms(3) unfolding kahn_inv_def oc by simp
qed

lemma acyclic_ends:
  assumes "acyclic (edge_rel es)" "x \<in> set ids" "\<forall>e \<in> set es. e_from e \<in> set ids \<and> e_to e \<in> set ids"
  shows "\<exists>v \<in> set ids. in_count es v = 0" "\<exists>u \<in> set ids. out_ids es u = []"
proof -
  obtain v where "v \<in> set ids" "\<And>y. (y, v) \<in> edge_rel es \<Longrightarrow> y \<notin> set ids"
    using wfE_min [OF conjunct1 [OF acyclic_wf [OF assms(1)]] assms(2)] by metis
  then show "\<exists>v \<in> set ids. in_count es v = 0"
    using assms(3) by (auto simp: in_count_def edge_rel_def filter_empty_conv intro!: bexI [of _ v])
  obtain u where "u \<in> set ids" "\<And>y. (y, u) \<in> (edge_rel es)\<inverse> \<Longrightarrow> y \<notin> set ids"
    using wfE_min [OF conjunct2 [OF acyclic_wf [OF assms(1)]] assms(2)] by metis
  then show "\<exists>u \<in> set ids. out_ids es u = []"
    using assms(3) by (auto simp: out_ids_def edge_rel_def filter_empty_conv intro!: bexI [of _ u])
qed

lemma validate_edges_outcome:
  assumes ids: "set ids = n_id ` set (d_nodes dag)" "distinct ids" "d_nodes dag \<noteq> []"
    and known: "dag_known dag"
    and inputs: "\<forall>n \<in> set (d_nodes dag). set (n_input_from n) \<subseteq> n_id ` set (d_nodes dag)"
    and conds: "\<forall>n \<in> set (d_nodes dag). \<forall>c. n_condition n = Some c \<longrightarrow> length c \<le> MAX_CONDITION_LENGTH"
  shows "acyclic (edge_rel (d_edges dag)) \<Longrightarrow>
      \<exists>order. validate_edges ids dag = Inr (DagSuccess order) \<and> distinct order \<and> set order = set ids
        \<and> (\<forall>e \<in> set (d_edges dag). precedes order (e_from e) (e_to e))"
    and "\<not> acyclic (edge_rel (d_edges dag)) \<Longrightarrow> \<exists>c. validate_edges ids dag = Inr (DagFailure c)"
proof -
  let ?es = "d_edges dag"
  obtain adj deg where t: "edge_loop ids ?es (map (\<lambda>i. (i, [])) ids) (map (\<lambda>i. (i, 0)) ids) = Inr (Some (adj, deg))"
      "map fst adj = ids" "map fst deg = ids"
      "\<forall>u \<in> set ids. map_of adj u = Some (out_ids ?es u)"
      "\<forall>v \<in> set ids. map_of deg v = Some (int (in_count ?es v))"
    using edge_tables(2) [OF ids(1,2) known] by blast
  have es: "\<forall>e \<in> set ?es. e_from e \<in> set ids \<and> e_to e \<in> set ids"
    using known ids(1) by (simp add: dag_known_def)
  obtain order r where k: "kahn adj deg (map fst (filter (\<lambda>(k, d). d = 0) deg)) [] = Inr order"
      and inv: "kahn_inv ?es ids r [] order"
    using kahn_runs [OF kahn_start [OF ids(2) t(3,5)] es] t(4) by blast
  have order: "distinct order" "set order \<subseteq> set ids"
      "\<forall>e \<in> set ?es. e_to e \<in> set order \<longrightarrow> precedes order (e_from e) (e_to e)"
    using inv by (auto simp: kahn_inv_def)
  have len: "length order = length ids \<longleftrightarrow> set order = set ids"
    using order(1,2) ids(2) by (metis card_subset_eq distinct_card finite_set)
  define start where "start \<longleftrightarrow> (\<exists>(k, d) \<in> set deg. d = 0)"
  define stop where "stop \<longleftrightarrow> (\<exists>(k, l) \<in> set adj. length l = 0)"
  have pre: "\<not> (\<exists>n \<in> set (d_nodes dag). \<exists>u \<in> set (n_input_from n). u \<notin> set ids)"
      "\<not> (\<exists>n \<in> set (d_nodes dag). (case n_condition n of None \<Rightarrow> False | Some c \<Rightarrow> length c > MAX_CONDITION_LENGTH))"
    using inputs conds ids(1) by (auto split: option.splits simp: not_less)
  have v: "validate_edges ids dag =
      (if start \<and> stop \<and> length order = length ids then Inr (DagSuccess order)
       else if start \<and> stop then Inr (DagFailure NOP_TASK_DAG_CYCLE) else Inr (DagFailure NOP_TASK_DAG_INVALID))"
    unfolding validate_edges_def t(1) res_bind_Inr using pre k
    by (auto simp: start_def stop_def simp del: Bex_def)
  show "\<exists>order. validate_edges ids dag = Inr (DagSuccess order) \<and> distinct order \<and> set order = set ids
        \<and> (\<forall>e \<in> set ?es. precedes order (e_from e) (e_to e))" if a: "acyclic (edge_rel ?es)"
  proof -
    have so: "set order = set ids" by (rule kahn_complete [OF inv _ a]) (use es in blast)
    obtain x where x: "x \<in> set ids" using ids(1,3) by (cases "d_nodes dag") auto
    obtain a b where ab: "a \<in> set ids" "in_count ?es a = 0" "b \<in> set ids" "out_ids ?es b = []"
      using acyclic_ends [OF a x es] by blast
    have "(a, 0) \<in> set deg" "(b, []) \<in> set adj"
      using ab t(4,5) by (simp_all add: map_of_SomeD)
    then have "start" "stop" unfolding start_def stop_def by force+
    then show ?thesis using v so len order es by auto
  qed
  show "\<exists>c. validate_edges ids dag = Inr (DagFailure c)" if "\<not> acyclic (edge_rel ?es)"
  proof -
    have "set order \<noteq> set ids"
    proof
      assume "set order = set ids"
      then have "\<forall>e \<in> set ?es. precedes order (e_from e) (e_to e)" using order(3) es by blast
      then show False using order_acyclic [OF order(1)] that by blast
    qed
    then show ?thesis using v len by auto
  qed
qed

lemma validate_edges_rejects:
  assumes "set ids = n_id ` set (d_nodes dag)" "distinct ids"
    and "\<not> (dag_known dag \<and> (\<forall>n \<in> set (d_nodes dag). set (n_input_from n) \<subseteq> n_id ` set (d_nodes dag))
      \<and> (\<forall>n \<in> set (d_nodes dag). \<forall>c. n_condition n = Some c \<longrightarrow> length c \<le> MAX_CONDITION_LENGTH))"
  shows "\<exists>c. validate_edges ids dag = Inr (DagFailure c)"
proof (cases "dag_known dag")
  case False
  then show ?thesis using edge_tables(1) [OF assms(1,2)] by (simp add: validate_edges_def)
next
  case True
  obtain adj deg where "edge_loop ids (d_edges dag) (map (\<lambda>i. (i, [])) ids) (map (\<lambda>i. (i, 0)) ids) = Inr (Some (adj, deg))"
    using edge_tables(2) [OF assms(1,2) True] by blast
  moreover have "(\<exists>n \<in> set (d_nodes dag). \<exists>u \<in> set (n_input_from n). u \<notin> set ids) \<or>
      (\<exists>n \<in> set (d_nodes dag). (case n_condition n of None \<Rightarrow> False | Some c \<Rightarrow> length c > MAX_CONDITION_LENGTH))"
    using assms(1,3) True by (force simp: not_le)
  ultimately show ?thesis unfolding validate_edges_def by fastforce
qed

lemma validate_success:
  assumes "set ids = n_id ` set (d_nodes dag)" "distinct ids" "validate ids dag = Inr (DagSuccess order)"
  shows "dag_ok dag \<and> distinct order \<and> set order = set ids \<and> (\<forall>e \<in> set (d_edges dag). precedes order (e_from e) (e_to e))"
proof -
  have basic: "d_nodes dag \<noteq> []" "length (d_nodes dag) \<le> MAX_DAG_NODES" "distinct (map n_id (d_nodes dag))"
      and v: "validate_edges ids dag = Inr (DagSuccess order)"
    using assms(3) by (auto simp: validate_def split: if_splits)
  have ok: "dag_ok dag" using validate_edges_rejects [OF assms(1,2)] basic v by (auto simp: dag_ok_def)
  then have "acyclic (edge_rel (d_edges dag))"
    using validate_edges_outcome(2) [OF assms(1,2) basic(1)] v by (auto simp: dag_ok_def)
  then show ?thesis using validate_edges_outcome(1) [OF assms(1,2) basic(1)] ok v by (auto simp: dag_ok_def)
qed

subsection \<open>Merging\<close>

lemma map_of_merge_items: "map_of (merge_items d m) = map_of m ++ map_of (rev d)"
proof (induction d m rule: merge_items.induct)
  case (2 k v items m)
  then show ?case by (auto simp: map_add_def fun_eq_iff map_of_append split: option.splits)
qed simp

lemma map_of_rev: "distinct (map fst d) \<Longrightarrow> map_of (rev d) = map_of d"
  by (rule map_of_eqI) (auto simp: rev_map [symmetric])

lemma merge_loop_dicts:
  "(\<And>d. d \<in> set ds \<Longrightarrow> distinct (map fst d)) \<Longrightarrow>
     map_of (merge_loop i (map PDict ds) m) = foldl (++) (map_of m) (map map_of ds)"
  by (induction ds arbitrary: i m) (simp_all add: map_of_merge_items map_of_rev)

section \<open>Properties\<close>

text \<open>
  C4: The validator decides. For every iteration order of the id set it returns, without a
  \<open>KeyError\<close>: success exactly when the graph has 1 to 32 nodes with distinct ids, edges and inputs
  name known nodes, no condition is over-long and the edges have no cycle; and the order it then
  returns lists every node once, each edge's source before its target.
\<close>

theorem validate_decides:
  assumes "set ids = n_id ` set (d_nodes dag)" "distinct ids"
  shows "\<exists>v. validate ids dag = Inr v
    \<and> ((\<exists>order. v = DagSuccess order) \<longleftrightarrow> dag_ok dag \<and> acyclic (edge_rel (d_edges dag)))
    \<and> (\<forall>order. v = DagSuccess order \<longrightarrow> distinct order \<and> set order = n_id ` set (d_nodes dag)
         \<and> (\<forall>e \<in> set (d_edges dag). precedes order (e_from e) (e_to e)))"
proof (cases "dag_ok dag \<and> acyclic (edge_rel (d_edges dag))")
  case True
  then obtain order where "validate_edges ids dag = Inr (DagSuccess order)" "distinct order" "set order = set ids"
      "\<forall>e \<in> set (d_edges dag). precedes order (e_from e) (e_to e)"
    using validate_edges_outcome(1) [OF assms] by (auto simp: dag_ok_def)
  then show ?thesis using True assms(1) by (auto simp: validate_def dag_ok_def)
next
  case False
  have "\<exists>c. validate ids dag = Inr (DagFailure c)"
  proof (cases "dag_ok dag")
    case True
    then show ?thesis
      using validate_edges_outcome(2) [OF assms] False by (auto simp: validate_def dag_ok_def)
  next
    case False
    then show ?thesis
      using validate_edges_rejects [OF assms] by (auto simp: validate_def dag_ok_def not_le)
  qed
  then show ?thesis using False by auto
qed

definition ex_node :: "string \<Rightarrow> string list \<Rightarrow> node" where
  "ex_node i inputs = \<lparr>n_id = i, n_action = ''nwp://w/act'', n_agent = ''urn:nps:agent:w'' @ i, n_input_from = inputs,
     n_input_mapping = None, n_timeout_ms = None, n_retry_policy = None, n_condition = None,
     n_min_required = 0, n_compensate_action = None, n_compensate_params_mapping = None\<rparr>"

definition ex_edge :: "string \<Rightarrow> string \<Rightarrow> edge" where
  "ex_edge u v = \<lparr>e_from = u, e_to = v\<rparr>"

definition ex_diamond :: dag where
  "ex_diamond = \<lparr>d_nodes = [ex_node ''a'' [], ex_node ''b'' [''a''], ex_node ''c'' [''a''], ex_node ''d'' [''b'', ''c'']],
     d_edges = [ex_edge ''a'' ''b'', ex_edge ''a'' ''c'', ex_edge ''b'' ''d'', ex_edge ''c'' ''d'']\<rparr>"

theorem validate_decides_witness:
  "validate [''d'', ''a'', ''c'', ''b''] ex_diamond = Inr (DagSuccess [''a'', ''b'', ''c'', ''d''])
   \<and> acyclic (edge_rel (d_edges ex_diamond))"
proof -
  have ids: "set [''d'', ''a'', ''c'', ''b''] = n_id ` set (d_nodes ex_diamond)" "distinct [''d'', ''a'', ''c'', ''b'']"
    by code_simp+
  have "validate [''d'', ''a'', ''c'', ''b''] ex_diamond = Inr (DagSuccess [''a'', ''b'', ''c'', ''d''])"
    by code_simp
  with validate_decides [OF ids] show ?thesis by auto
qed

text \<open>
  Merging object results is map override from left to right: each key of the merged object has
  the value of the last result that carries it.
\<close>

theorem merge_is_override:
  assumes "\<And>d. d \<in> set ds \<Longrightarrow> distinct (map fst d)"
  shows "\<exists>m. merge (map PDict ds) = PDict m \<and> map_of m = foldl (++) Map.empty (map map_of ds)"
  using merge_loop_dicts [OF assms, of ds 0 "[]"] by (auto simp: merge_def)

theorem merge_is_override_witness:
  "\<exists>m. merge (map PDict [[(''x'', PInt 1), (''y'', PInt 2)], [(''x'', PInt 3)]]) = PDict m
     \<and> map_of m ''x'' = Some (PInt 3) \<and> map_of m ''y'' = Some (PInt 2)"
proof -
  obtain m where "merge (map PDict [[(''x'', PInt 1), (''y'', PInt 2)], [(''x'', PInt 3)]]) = PDict m"
      "map_of m = foldl (++) Map.empty (map map_of [[(''x'', PInt 1), (''y'', PInt 2)], [(''x'', PInt 3)]])"
    using merge_is_override [of "[[(''x'', PInt 1), (''y'', PInt 2)], [(''x'', PInt 3)]]"] by force
  then show ?thesis by (intro exI [of _ m]) (simp add: map_add_def)
qed

end
