(* ===== verification/NopNode.thy ===== *)
theory NopNode
  imports NopFrames NopDag
begin

text \<open>
  One node of a task graph: the in-memory task store (\<open>nps_sdk/nop/store.py\<close>), consuming a worker's
  result stream, one delegation and the retry loop (\<open>_consume_stream\<close>, \<open>_execute_node_once\<close> and
  \<open>_execute_node_with_retry\<close> of \<open>nps_sdk/nop/orchestrator.py\<close>).

  The worker is an argument: for the delegate frame it is sent it gives the frames of its stream and
  how the stream ends, by itself, by the node's time limit or with an exception. Ids, deadlines and
  the results the other nodes have delivered by the time of each attempt are arguments as well.
  Message texts, log lines and telemetry are not represented.
\<close>

section \<open>The task store\<close>

record subtask =
  st_node_id :: string
  st_subtask_id :: string
  st_state :: task_state
  st_result :: pyval
  st_error_code :: pyval
  st_attempt_count :: int

record task_record =
  rec_task_id :: string
  rec_state :: task_state
  rec_subtasks :: "subtask dict"

type_synonym task_store = "task_record dict"

definition store_save :: "task_record \<Rightarrow> task_store \<Rightarrow> unit res \<times> task_store" where
  "store_save r s =
     (if dict_get s (rec_task_id r) \<noteq> None then (Inl ValueError, s)
      else (Inr (), dict_set (rec_task_id r) r s))"

definition store_get :: "string \<Rightarrow> task_store \<Rightarrow> task_record option" where
  "store_get task_id s = dict_get s task_id"

definition store_update_state :: "string \<Rightarrow> task_state \<Rightarrow> task_store \<Rightarrow> task_store" where
  "store_update_state task_id state s =
     (case dict_get s task_id of
        None \<Rightarrow> s
      | Some r \<Rightarrow> dict_set task_id (r\<lparr>rec_state := state\<rparr>) s)"

text \<open>The arguments of \<open>update_subtask\<close>; \<open>None\<close> leaves the result or the error code as it is.\<close>

record subtask_write =
  sw_node_id :: string
  sw_subtask_id :: string
  sw_state :: task_state
  sw_result :: pyval
  sw_error_code :: pyval
  sw_attempt :: int

definition new_subtask :: "string \<Rightarrow> string \<Rightarrow> subtask" where
  "new_subtask node_id subtask_id =
     \<lparr>st_node_id = node_id, st_subtask_id = subtask_id, st_state = PENDING, st_result = PNone,
      st_error_code = PNone, st_attempt_count = 0\<rparr>"

definition store_update_subtask :: "string \<Rightarrow> subtask_write \<Rightarrow> task_store \<Rightarrow> task_store" where
  "store_update_subtask task_id w s =
     (case dict_get s task_id of
        None \<Rightarrow> s
      | Some r \<Rightarrow>
          let sub = (case dict_get (rec_subtasks r) (sw_node_id w) of
                       None \<Rightarrow> new_subtask (sw_node_id w) (sw_subtask_id w) | Some x \<Rightarrow> x);
              sub' = sub\<lparr>st_state := sw_state w, st_attempt_count := sw_attempt w,
                         st_result := (if sw_result w \<noteq> PNone then sw_result w else st_result sub),
                         st_error_code := (if sw_error_code w \<noteq> PNone then sw_error_code w
                                           else st_error_code sub)\<rparr>
          in dict_set task_id (r\<lparr>rec_subtasks := dict_set (sw_node_id w) sub' (rec_subtasks r)\<rparr>) s)"

section \<open>Consuming a result stream\<close>

record outcome =
  oc_state :: task_state
  oc_result :: pyval
  oc_error_code :: pyval

definition NOP_STREAM_SEQ_GAP :: string where "NOP_STREAM_SEQ_GAP = ''NOP-STREAM-SEQ-GAP''"
definition NOP_STREAM_NID_MISMATCH :: string where "NOP_STREAM_NID_MISMATCH = ''NOP-STREAM-NID-MISMATCH''"
definition NOP_DELEGATE_TIMEOUT :: string where "NOP_DELEGATE_TIMEOUT = ''NOP-DELEGATE-TIMEOUT''"
definition NOP_INPUT_MAPPING_ERROR :: string where "NOP_INPUT_MAPPING_ERROR = ''NOP-INPUT-MAPPING-ERROR''"

definition failed_with :: "pyval \<Rightarrow> outcome" where
  "failed_with code = \<lparr>oc_state = FAILED, oc_result = PNone, oc_error_code = code\<rparr>"

text \<open>
  The loop body until a frame decides; \<open>None\<close> when the frames run out before one does.
\<close>

fun stream_loop :: "bool \<Rightarrow> string \<Rightarrow> int \<Rightarrow> align_frame list \<Rightarrow> outcome option" where
  "stream_loop validate_sender_nid agent last_seq [] = None"
| "stream_loop validate_sender_nid agent last_seq (f # fs) =
     (if al_seq f \<noteq> last_seq \<and> al_seq f \<noteq> 0 \<and> al_seq f \<noteq> last_seq + 1
      then Some (failed_with (PStr NOP_STREAM_SEQ_GAP))
      else if validate_sender_nid \<and> \<not> py_eq (al_sender_nid f) (PStr agent)
      then Some (failed_with (PStr NOP_STREAM_NID_MISMATCH))
      else if al_is_final f then
        Some (case al_error f of
                Some err \<Rightarrow>
                  (if ser_error_code err \<noteq> PNone then failed_with (ser_error_code err)
                   else \<lparr>oc_state = COMPLETED, oc_result = PNone, oc_error_code = PNone\<rparr>)
              | None \<Rightarrow> \<lparr>oc_state = COMPLETED, oc_result = al_data f, oc_error_code = PNone\<rparr>)
      else stream_loop validate_sender_nid agent (al_seq f) fs)"

datatype stream_end = StreamEnds | StreamTimesOut | StreamRaises py_error

record worker_run =
  wr_frames :: "align_frame list"
  wr_end :: stream_end

text \<open>\<open>_consume_stream\<close> under \<open>wait_for\<close>: a decision among the frames received wins.\<close>

definition consume_stream :: "bool \<Rightarrow> string \<Rightarrow> worker_run \<Rightarrow> outcome res" where
  "consume_stream validate_sender_nid agent run =
     (case stream_loop validate_sender_nid agent 0 (wr_frames run) of
        Some oc \<Rightarrow> Inr oc
      | None \<Rightarrow>
          (case wr_end run of
             StreamEnds \<Rightarrow> Inr (failed_with (PStr NOP_DELEGATE_TIMEOUT))
           | StreamTimesOut \<Rightarrow> Inr (failed_with (PStr NOP_DELEGATE_TIMEOUT))
           | StreamRaises e \<Rightarrow> Inl e))"

section \<open>One delegation\<close>

record task =
  t_id :: string
  t_dag :: dag
  t_timeout_ms :: int
  t_max_retries :: int
  t_priority :: pyval
  t_callback_url :: "string option"
  t_preflight :: bool
  t_context :: "task_context option"
  t_delegate_depth :: int
  t_compensation_policy :: string

record attempt_env =
  ae_cancelled :: bool
  ae_context :: "pyval dict"
  ae_deadline :: "int \<Rightarrow> string"
  ae_worker :: "delegate_frame \<Rightarrow> worker_run"

definition node_timeout :: "task \<Rightarrow> node \<Rightarrow> int" where
  "node_timeout t n =
     min (case n_timeout_ms n of Some ms \<Rightarrow> ms | None \<Rightarrow> t_timeout_ms t) MAX_TIMEOUT_MS"

definition delegate_for ::
  "task \<Rightarrow> node \<Rightarrow> string \<Rightarrow> string \<Rightarrow> pyval dict \<Rightarrow> string \<Rightarrow> delegate_frame" where
  "delegate_for t n subtask_id idempotency_key params deadline =
     \<lparr>df_parent_task_id = PStr (t_id t), df_subtask_id = PStr subtask_id, df_node_id = PStr (n_id n),
      df_target_agent_nid = PStr (n_agent n), df_action = PStr (n_action n), df_delegated_scope = PDict [],
      df_deadline_at = PStr deadline, df_params = PDict params,
      df_idempotency_key = PStr idempotency_key, df_priority = t_priority t,
      df_context = t_context t, df_delegate_depth = t_delegate_depth t + 1,
      df_target_cluster_anchor = PNone\<rparr>"

definition execute_node_once ::
  "bool \<Rightarrow> task \<Rightarrow> node \<Rightarrow> string \<Rightarrow> string \<Rightarrow> attempt_env \<Rightarrow> outcome res" where
  "execute_node_once validate_sender_nid t n subtask_id idempotency_key env =
     (case build_params (n_input_mapping n) (ae_context env) of
        Inl NopMappingError \<Rightarrow> Inr (failed_with (PStr NOP_INPUT_MAPPING_ERROR))
      | Inl e \<Rightarrow> Inl e
      | Inr params \<Rightarrow>
          consume_stream validate_sender_nid (n_agent n)
            (ae_worker env (delegate_for t n subtask_id idempotency_key params
               (ae_deadline env (node_timeout t n)))))"

section \<open>The retry loop\<close>

definition should_retry :: "retry option \<Rightarrow> pyval \<Rightarrow> int \<Rightarrow> int \<Rightarrow> bool" where
  "should_retry policy error_code attempt max_retries =
     (if attempt > max_retries then False
      else case policy of
             None \<Rightarrow> True
           | Some p \<Rightarrow>
               if re_retry_on p \<noteq> [] \<and> error_code \<noteq> PNone
               then \<exists>c \<in> set (re_retry_on p). py_eq (PStr c) error_code
               else True)"

definition node_max_retries :: "task \<Rightarrow> node \<Rightarrow> int" where
  "node_max_retries t n = (case n_retry_policy n of Some p \<Rightarrow> re_max_retries p | None \<Rightarrow> t_max_retries t)"

definition sub_write :: "node \<Rightarrow> string \<Rightarrow> task_state \<Rightarrow> pyval \<Rightarrow> pyval \<Rightarrow> int \<Rightarrow> subtask_write" where
  "sub_write n subtask_id state result error_code attempt =
     \<lparr>sw_node_id = n_id n, sw_subtask_id = subtask_id, sw_state = state, sw_result = result,
      sw_error_code = error_code, sw_attempt = attempt\<rparr>"

text \<open>
  The condition before the first attempt: \<open>None\<close> when the node runs, otherwise the outcome.
\<close>

definition check_condition :: "node \<Rightarrow> string \<Rightarrow> pyval dict \<Rightarrow> (subtask_write \<times> outcome) option" where
  "check_condition n subtask_id ctx =
     (case n_condition n of
        None \<Rightarrow> None
      | Some c \<Rightarrow>
          if c = [] then None
          else (case evaluate c ctx of
                  Inl e \<Rightarrow>
                    Some (sub_write n subtask_id FAILED PNone (PStr NOP_CONDITION_EVAL_ERROR) 1,
                          failed_with (PStr NOP_CONDITION_EVAL_ERROR))
                | Inr True \<Rightarrow> None
                | Inr False \<Rightarrow>
                    Some (sub_write n subtask_id SKIPPED PNone PNone 1,
                          \<lparr>oc_state = SKIPPED, oc_result = PNone, oc_error_code = PNone\<rparr>)))"

text \<open>
  \<open>for attempt in range(1, max_retries + 2)\<close>, from \<open>attempt\<close> with \<open>left\<close> passes to go. The result is the
  sequence of writes to the store and the outcome; \<open>env\<close> gives the surroundings of each attempt.
\<close>

fun retry_loop ::
  "bool \<Rightarrow> task \<Rightarrow> node \<Rightarrow> string \<Rightarrow> string \<Rightarrow> (nat \<Rightarrow> attempt_env) \<Rightarrow> nat \<Rightarrow> nat
     \<Rightarrow> subtask_write list \<times> outcome res" where
  "retry_loop vsn t n sid key env attempt 0 =
     ([sub_write n sid FAILED PNone (PStr NOP_DELEGATE_TIMEOUT) 1], Inr (failed_with (PStr NOP_DELEGATE_TIMEOUT)))"
| "retry_loop vsn t n sid key env attempt (Suc left) =
     (if ae_cancelled (env attempt) then ([], Inl CancelledError)
      else case (if attempt = 1 then check_condition n sid (ae_context (env attempt)) else None) of
        Some (w, oc) \<Rightarrow> ([w], Inr oc)
      | None \<Rightarrow>
          let running = sub_write n sid RUNNING PNone PNone (int attempt) in
          (case execute_node_once vsn t n sid key (env attempt) of
             Inl e \<Rightarrow> ([running], Inl e)
           | Inr oc \<Rightarrow>
               if oc_state oc = COMPLETED
               then ([running, sub_write n sid COMPLETED (oc_result oc) PNone (int attempt)], Inr oc)
               else if \<not> should_retry (n_retry_policy n) (oc_error_code oc) (int attempt) (node_max_retries t n)
               then ([running, sub_write n sid FAILED PNone (oc_error_code oc) (int attempt)], Inr oc)
               else let (ws, r) = retry_loop vsn t n sid key env (Suc attempt) left in (running # ws, r)))"

definition execute_node_with_retry ::
  "bool \<Rightarrow> task \<Rightarrow> node \<Rightarrow> string \<Rightarrow> string \<Rightarrow> (nat \<Rightarrow> attempt_env) \<Rightarrow> subtask_write list \<times> outcome res" where
  "execute_node_with_retry vsn t n sid key env =
     retry_loop vsn t n sid key env 1 (nat (node_max_retries t n + 1))"

text \<open>The writes of a node run, applied to the store in order.\<close>

definition store_apply :: "string \<Rightarrow> subtask_write list \<Rightarrow> task_store \<Rightarrow> task_store" where
  "store_apply task_id ws s = foldl (\<lambda>s w. store_update_subtask task_id w s) s ws"

section \<open>Lemmas\<close>

subsection \<open>Streams\<close>

text \<open>
  The test of the loop on the sequence numbers, starting after \<open>last_seq\<close>: a number may repeat the last one, follow
  it, or be zero.
\<close>

fun seqs_pass :: "int \<Rightarrow> int list \<Rightarrow> bool" where
  "seqs_pass last_seq [] = True"
| "seqs_pass last_seq (x # xs) = ((x = last_seq \<or> x = 0 \<or> x = last_seq + 1) \<and> seqs_pass x xs)"

text \<open>On numbers that increase, as the frame documents them, the test is that none is missing after the first.\<close>

lemma seqs_pass_consecutive:
  "sorted_wrt (<) (k # xs) \<Longrightarrow> 0 \<le> k \<Longrightarrow> seqs_pass k xs \<longleftrightarrow> k # xs = [k .. k + int (length xs)]"
proof (induction xs arbitrary: k)
  case (Cons x xs)
  have x: "k < x" "sorted_wrt (<) (x # xs)" using Cons.prems(1) by auto
  show ?case
  proof (cases "x = k + 1")
    case True
    have "[k .. k + int (length (x # xs))] = k # [x .. x + int (length xs)]"
      using True by (subst upto.simps) (simp add: algebra_simps)
    then show ?thesis using Cons.IH [OF x(2)] Cons.prems(2) x(1) True by simp
  next
    case False
    have "[k .. k + int (length (x # xs))] = k # [k + 1 .. k + int (length (x # xs))]" by (subst upto.simps) simp
    then have "k # x # xs \<noteq> [k .. k + int (length (x # xs))]"
      using False by (subst (asm) (2) upto.simps) auto
    then show ?thesis using False x(1) Cons.prems(2) by auto
  qed
qed simp

lemma seqs_pass_increasing:
  assumes "sorted_wrt (<) xs" "\<forall>x \<in> set xs. 0 \<le> x" "xs \<noteq> []"
  shows "seqs_pass 0 xs \<longleftrightarrow> hd xs \<in> {0, 1} \<and> xs = [hd xs .. hd xs + int (length xs) - 1]"
proof (cases xs)
  case (Cons k ys)
  then show ?thesis using seqs_pass_consecutive [of k ys] assms by auto
qed (use assms in simp)

lemma failed_state [simp]: "oc_state (failed_with c) = FAILED"
  by (simp add: failed_with_def)

lemma stream_loop_states: "stream_loop vsn agent last_seq fs = Some oc \<Longrightarrow> oc_state oc \<in> {COMPLETED, FAILED}"
  by (induction fs arbitrary: last_seq) (auto split: if_splits option.splits)

text \<open>The frames on which the loop completes: up to a first final frame that carries no error code.\<close>

definition completes_with :: "string \<Rightarrow> align_frame list \<Rightarrow> align_frame \<Rightarrow> align_frame list \<Rightarrow> outcome \<Rightarrow> bool" where
  "completes_with agent as f fs oc \<longleftrightarrow>
     take (Suc (length as)) fs = as @ [f] \<and> al_is_final f \<and> (\<forall>g \<in> set as. \<not> al_is_final g)
     \<and> (\<forall>g \<in> set (as @ [f]). al_sender_nid g = PStr agent)
     \<and> oc_state oc = COMPLETED \<and> oc_error_code oc = PNone
     \<and> (case al_error f of None \<Rightarrow> oc_result oc = al_data f
          | Some err \<Rightarrow> ser_error_code err = PNone \<and> oc_result oc = PNone)"

lemma completes_with_Nil: "\<not> completes_with agent as f [] oc"
  by (simp add: completes_with_def)

lemma completes_with_first:
  "completes_with agent [] g (f # fs) oc \<longleftrightarrow>
     g = f \<and> al_is_final f \<and> al_sender_nid f = PStr agent \<and> oc_state oc = COMPLETED \<and> oc_error_code oc = PNone
     \<and> (case al_error f of None \<Rightarrow> oc_result oc = al_data f | Some err \<Rightarrow> ser_error_code err = PNone \<and> oc_result oc = PNone)"
  by (auto simp: completes_with_def)

lemma completes_with_later:
  "completes_with agent (h # as) g (f # fs) oc \<longleftrightarrow>
     h = f \<and> \<not> al_is_final f \<and> al_sender_nid f = PStr agent \<and> completes_with agent as g fs oc"
  by (auto simp: completes_with_def)

lemma stream_loop_completed:
  "stream_loop True agent last_seq fs = Some oc \<and> oc_state oc = COMPLETED \<longleftrightarrow>
     (\<exists>as f. completes_with agent as f fs oc \<and> seqs_pass last_seq (map al_seq (as @ [f])))"
proof (induction fs arbitrary: last_seq)
  case (Cons f fs)
  define Q where "Q as g \<longleftrightarrow> completes_with agent as g (f # fs) oc \<and> seqs_pass last_seq (map al_seq (as @ [g]))" for as g
  have "(\<exists>as g. Q as g) \<longleftrightarrow> (\<exists>g. Q [] g) \<or> (\<exists>h as g. Q (h # as) g)" by (metis list.exhaust)
  also have "\<dots> \<longleftrightarrow> stream_loop True agent last_seq (f # fs) = Some oc \<and> oc_state oc = COMPLETED"
  proof (cases "al_is_final f")
    case True
    then show ?thesis
      by (cases oc) (auto simp: Q_def completes_with_first completes_with_later failed_with_def split: option.splits)
  next
    case False
    then have "(\<exists>g. Q [] g) \<or> (\<exists>h as g. Q (h # as) g) \<longleftrightarrow>
        (al_seq f = last_seq \<or> al_seq f = 0 \<or> al_seq f = last_seq + 1) \<and> al_sender_nid f = PStr agent
        \<and> (\<exists>as g. completes_with agent as g fs oc \<and> seqs_pass (al_seq f) (map al_seq (as @ [g])))"
      by (auto simp: Q_def completes_with_first completes_with_later)
    then show ?thesis using False unfolding Cons.IH [symmetric] by auto
  qed
  finally show ?case unfolding Q_def by blast
qed (simp add: completes_with_Nil)

subsection \<open>Retries\<close>

lemma once_states:
  "execute_node_once vsn t n sid key env = Inr oc \<Longrightarrow> oc_state oc \<in> {COMPLETED, FAILED}"
  using stream_loop_states
  by (auto simp: execute_node_once_def consume_stream_def
      split: sum.splits py_error.splits option.splits stream_end.splits)

lemma check_condition_write:
  "check_condition n sid ctx = Some (w, oc) \<Longrightarrow>
     sw_state w = oc_state oc \<and> oc_state oc \<in> {FAILED, SKIPPED} \<and> sw_node_id w = n_id n"
  by (auto simp: check_condition_def sub_write_def failed_with_def split: option.splits if_splits sum.splits bool.splits)

lemma sub_write_simps [simp]:
  "sw_state (sub_write n sid st r c a) = st" "sw_node_id (sub_write n sid st r c a) = n_id n"
  "sw_attempt (sub_write n sid st r c a) = a"
  by (simp_all add: sub_write_def)

text \<open>One pass of the loop, as the four ways it can go.\<close>

lemma retry_loop_cases:
  assumes "retry_loop vsn t n sid key env a (Suc left) = (ws, r)"
  obtains "ws = []" "r = Inl CancelledError"
  | w oc where "ws = [w]" "r = Inr oc" "sw_state w = oc_state oc" "oc_state oc \<in> {FAILED, SKIPPED}" "sw_node_id w = n_id n"
  | e where "ws = [sub_write n sid RUNNING PNone PNone (int a)]" "r = Inl e"
  | oc x c where "ws = [sub_write n sid RUNNING PNone PNone (int a), sub_write n sid (oc_state oc) x c (int a)]" "r = Inr oc"
      "oc_state oc \<in> {COMPLETED, FAILED}"
  | ws' where "ws = sub_write n sid RUNNING PNone PNone (int a) # ws'"
      "retry_loop vsn t n sid key env (Suc a) left = (ws', r)"
proof (cases "ae_cancelled (env a)")
  case True
  then show ?thesis using assms that(1) by simp
next
  case nc: False
  let ?c = "if a = 1 then check_condition n sid (ae_context (env a)) else None"
  show ?thesis
  proof (cases ?c)
    case (Some x)
    obtain w oc where x: "x = (w, oc)" by (cases x)
    have "check_condition n sid (ae_context (env a)) = Some (w, oc)" using Some x by (simp split: if_splits)
    from check_condition_write [OF this] show ?thesis
      using assms nc Some x by (intro that(2) [of w oc]) auto
  next
    case None
    show ?thesis
    proof (cases "execute_node_once vsn t n sid key (env a)")
      case (Inl e)
      then show ?thesis using assms nc None by (intro that(3) [of e]) (auto simp: Let_def)
    next
      case (Inr oc)
      then have st: "oc_state oc \<in> {COMPLETED, FAILED}" by (rule once_states)
      consider "oc_state oc = COMPLETED"
        | "oc_state oc = FAILED" "\<not> should_retry (n_retry_policy n) (oc_error_code oc) (int a) (node_max_retries t n)"
        | "oc_state oc = FAILED" "should_retry (n_retry_policy n) (oc_error_code oc) (int a) (node_max_retries t n)"
        using st by blast
      then show ?thesis
      proof cases
        case 1
        then show ?thesis using assms nc None Inr st by (intro that(4) [of oc]) (auto simp: Let_def)
      next
        case 2
        then show ?thesis using assms nc None Inr st by (intro that(4) [of oc]) (auto simp: Let_def)
      next
        case 3
        obtain ws' r' where "retry_loop vsn t n sid key env (Suc a) left = (ws', r')" by (metis surj_pair)
        then show ?thesis using 3 assms nc None Inr by (intro that(5) [of ws']) (auto simp: Let_def)
      qed
    qed
  qed
qed

lemma retry_loop_attempts:
  "retry_loop vsn t n sid key env a left = (ws, r) \<Longrightarrow>
     \<exists>k \<le> left. map sw_attempt (filter (\<lambda>w. sw_state w = RUNNING) ws) = map int [a ..< a + k]"
proof (induction left arbitrary: a ws)
  case (Suc left)
  from Suc.prems show ?case
  proof (cases rule: retry_loop_cases)
    case (5 ws')
    obtain k where k: "k \<le> left" "map sw_attempt (filter (\<lambda>w. sw_state w = RUNNING) ws') = map int [Suc a ..< Suc a + k]"
      using Suc.IH [OF 5(2)] by blast
    have "[a ..< a + Suc k] = a # [Suc a ..< Suc a + k]" by (simp add: upt_conv_Cons)
    then have "map sw_attempt (filter (\<lambda>w. sw_state w = RUNNING) ws) = map int [a ..< a + Suc k]"
      using k(2) 5(1) by simp
    then show ?thesis using k(1) by (intro exI [of _ "Suc k"]) simp
  qed (auto intro: exI [of _ 0] exI [of _ "Suc 0"])
qed auto

lemma retry_loop_final:
  "retry_loop vsn t n sid key env a left = (ws, Inr oc) \<Longrightarrow>
     oc_state oc \<in> {COMPLETED, FAILED, SKIPPED}
     \<and> (\<exists>vs w. ws = vs @ [w] \<and> sw_state w = oc_state oc \<and> (\<forall>x \<in> set (vs @ [w]). sw_node_id x = n_id n))"
proof (induction left arbitrary: a ws)
  case 0
  then show ?case by (auto intro: exI [of _ "[]"])
next
  case (Suc left)
  from Suc.prems show ?case
  proof (cases rule: retry_loop_cases)
    case (2 w oc')
    then show ?thesis by (auto intro: exI [of _ "[]"])
  next
    case (4 oc' x c)
    then show ?thesis by (auto intro: exI [of _ "[sub_write n sid RUNNING PNone PNone (int a)]"])
  next
    case (5 ws')
    from Suc.IH [OF 5(2)] obtain vs w where
      "oc_state oc \<in> {COMPLETED, FAILED, SKIPPED}" "ws' = vs @ [w]" "sw_state w = oc_state oc"
      "\<forall>x \<in> set (vs @ [w]). sw_node_id x = n_id n" by blast
    then show ?thesis using 5(1)
      by (intro conjI exI [of _ "sub_write n sid RUNNING PNone PNone (int a) # vs"] exI [of _ w]) auto
  qed simp_all
qed

subsection \<open>The store\<close>

lemma update_subtask_get:
  "dict_get s tid = Some r \<Longrightarrow>
     \<exists>r' x. dict_get (store_update_subtask tid w s) tid = Some r' \<and> rec_state r' = rec_state r
       \<and> dict_get (rec_subtasks r') (sw_node_id w) = Some x \<and> st_state x = sw_state w \<and> st_attempt_count x = sw_attempt w
       \<and> (\<forall>j. j \<noteq> sw_node_id w \<longrightarrow> dict_get (rec_subtasks r') j = dict_get (rec_subtasks r) j)"
  by (simp add: store_update_subtask_def Let_def)

lemma store_apply_get:
  "dict_get s tid = Some r \<Longrightarrow> \<forall>w \<in> set ws. sw_node_id w = i \<Longrightarrow>
     \<exists>r'. dict_get (store_apply tid ws s) tid = Some r' \<and> rec_state r' = rec_state r
       \<and> (\<forall>j. j \<noteq> i \<longrightarrow> dict_get (rec_subtasks r') j = dict_get (rec_subtasks r) j)"
proof (induction ws arbitrary: s r)
  case (Cons w ws)
  obtain r1 where r1: "dict_get (store_update_subtask tid w s) tid = Some r1" "rec_state r1 = rec_state r"
      "\<forall>j. j \<noteq> i \<longrightarrow> dict_get (rec_subtasks r1) j = dict_get (rec_subtasks r) j"
    using update_subtask_get [OF Cons.prems(1), of w] Cons.prems(2) by auto
  have "\<forall>w \<in> set ws. sw_node_id w = i" using Cons.prems(2) by simp
  from Cons.IH [OF r1(1) this] r1 show ?case by (simp add: store_apply_def)
qed (simp add: store_apply_def)

text \<open>After the writes of a run that returns an outcome, the subtask of the node has the state of the outcome.\<close>

lemma node_run_stored:
  assumes "execute_node_with_retry vsn t n sid key env = (ws, Inr oc)" and "dict_get s tid = Some rec"
  shows "oc_state oc \<in> {COMPLETED, FAILED, SKIPPED}
    \<and> (\<exists>rec' x. dict_get (store_apply tid ws s) tid = Some rec' \<and> rec_state rec' = rec_state rec
         \<and> dict_get (rec_subtasks rec') (n_id n) = Some x \<and> st_state x = oc_state oc
         \<and> (\<forall>j. j \<noteq> n_id n \<longrightarrow> dict_get (rec_subtasks rec') j = dict_get (rec_subtasks rec) j))"
proof -
  obtain vs w where f: "oc_state oc \<in> {COMPLETED, FAILED, SKIPPED}" "ws = vs @ [w]" "sw_state w = oc_state oc"
      "\<forall>x \<in> set vs. sw_node_id x = n_id n" "sw_node_id w = n_id n"
    using retry_loop_final [OF assms(1) [unfolded execute_node_with_retry_def]] by auto
  obtain r1 where r1: "dict_get (store_apply tid vs s) tid = Some r1" "rec_state r1 = rec_state rec"
      "\<forall>j. j \<noteq> n_id n \<longrightarrow> dict_get (rec_subtasks r1) j = dict_get (rec_subtasks rec) j"
    using store_apply_get [OF assms(2) f(4)] by blast
  have "store_apply tid ws s = store_update_subtask tid w (store_apply tid vs s)"
    by (simp add: store_apply_def f(2))
  then show ?thesis using update_subtask_get [OF r1(1), of w] r1(2,3) f(1,3,5) by auto
qed

section \<open>Properties\<close>

text \<open>
  C32: On a stream that is numbered as the frame documents it, with numbers that are not negative and increase strictly, and with
  sender validation on, a node completes exactly when there is a final frame and the frames up to the first final one all
  come from the node's own agent, are numbered without a hole from zero or from one, and the final frame carries no error
  code; the result is then the data of the final frame (nothing, when it carries an error without a code). A loss after
  the first frame is therefore always noticed; the loss of the frame numbered zero is not.
\<close>

theorem stream_completes_unbroken:
  assumes "sorted_wrt (<) (map al_seq (wr_frames run))" "\<forall>f \<in> set (wr_frames run). 0 \<le> al_seq f"
  shows "consume_stream True agent run = Inr oc \<and> oc_state oc = COMPLETED \<longleftrightarrow>
    (\<exists>as f bs. wr_frames run = as @ f # bs \<and> al_is_final f \<and> (\<forall>g \<in> set as. \<not> al_is_final g)
      \<and> (\<forall>g \<in> set (as @ [f]). al_sender_nid g = PStr agent)
      \<and> (\<exists>k \<in> {0, 1}. map al_seq (as @ [f]) = [k .. k + int (length as)])
      \<and> oc_state oc = COMPLETED \<and> oc_error_code oc = PNone
      \<and> (case al_error f of None \<Rightarrow> oc_result oc = al_data f
           | Some err \<Rightarrow> ser_error_code err = PNone \<and> oc_result oc = PNone))"
proof -
  let ?fs = "wr_frames run"
  have "consume_stream True agent run = Inr oc \<and> oc_state oc = COMPLETED \<longleftrightarrow>
      stream_loop True agent 0 ?fs = Some oc \<and> oc_state oc = COMPLETED"
    by (auto simp: consume_stream_def split: option.splits stream_end.splits)
  also have "\<dots> \<longleftrightarrow> (\<exists>as f. completes_with agent as f ?fs oc \<and> seqs_pass 0 (map al_seq (as @ [f])))"
    by (rule stream_loop_completed)
  also have "\<dots> \<longleftrightarrow> (\<exists>as f. completes_with agent as f ?fs oc \<and> (\<exists>k \<in> {0, 1}. map al_seq (as @ [f]) = [k .. k + int (length as)]))"
  proof (intro ex_cong1 conj_cong refl)
    fix as f assume "completes_with agent as f ?fs oc"
    then have fs: "?fs = (as @ [f]) @ drop (Suc (length as)) ?fs"
      by (metis append_take_drop_id completes_with_def)
    have "sorted_wrt (<) (map al_seq (as @ [f]))" "\<forall>x \<in> set (map al_seq (as @ [f])). 0 \<le> x"
      using assms arg_cong [OF fs, of "map al_seq"] arg_cong [OF fs, of set] by (auto simp: sorted_wrt_append)
    from seqs_pass_increasing [OF this]
    have "seqs_pass 0 (map al_seq (as @ [f])) \<longleftrightarrow>
        hd (map al_seq (as @ [f])) \<in> {0, 1}
        \<and> map al_seq (as @ [f]) = [hd (map al_seq (as @ [f])) .. hd (map al_seq (as @ [f])) + int (length as)]" by simp
    moreover have "hd [k .. k + int n] = k" for k n by (subst upto.simps) simp
    ultimately show "seqs_pass 0 (map al_seq (as @ [f])) \<longleftrightarrow> (\<exists>k \<in> {0, 1}. map al_seq (as @ [f]) = [k .. k + int (length as)])"
      by metis
  qed
  also have "\<dots> \<longleftrightarrow> (\<exists>as f bs. ?fs = as @ f # bs \<and> al_is_final f \<and> (\<forall>g \<in> set as. \<not> al_is_final g)
      \<and> (\<forall>g \<in> set (as @ [f]). al_sender_nid g = PStr agent)
      \<and> (\<exists>k \<in> {0, 1}. map al_seq (as @ [f]) = [k .. k + int (length as)])
      \<and> oc_state oc = COMPLETED \<and> oc_error_code oc = PNone
      \<and> (case al_error f of None \<Rightarrow> oc_result oc = al_data f
           | Some err \<Rightarrow> ser_error_code err = PNone \<and> oc_result oc = PNone))"
  proof -
    have "take (Suc (length as)) ?fs = as @ [f] \<longleftrightarrow> (\<exists>bs. ?fs = as @ f # bs)" for as f
    proof
      assume "take (Suc (length as)) ?fs = as @ [f]"
      then have "?fs = as @ f # drop (Suc (length as)) ?fs" by (metis append.assoc append_Cons append_Nil append_take_drop_id)
      then show "\<exists>bs. ?fs = as @ f # bs" by blast
    qed auto
    then show ?thesis unfolding completes_with_def by blast
  qed
  finally show ?thesis .
qed

definition ex_align :: "int \<Rightarrow> bool \<Rightarrow> align_frame" where
  "ex_align seq final = \<lparr>al_stream_id = PStr ''s'', al_task_id = PStr ''t'', al_subtask_id = PStr ''u'', al_seq = seq,
     al_is_final = final, al_sender_nid = PStr ''w'', al_data = PInt (10 + seq), al_payload_ref = PNone,
     al_window_size = PNone, al_error = None, al_ack_seq = PNone, al_nak_seq = PNone\<rparr>"

definition ex_run :: "int list \<Rightarrow> worker_run" where
  "ex_run seqs = \<lparr>wr_frames = map (\<lambda>i. ex_align i False) (butlast seqs) @ [ex_align (last seqs) True], wr_end = StreamEnds\<rparr>"

theorem stream_completes_unbroken_witness:
  "consume_stream True ''w'' (ex_run [0, 1, 2]) = Inr \<lparr>oc_state = COMPLETED, oc_result = PInt 12, oc_error_code = PNone\<rparr>
   \<and> \<not> (\<exists>oc. consume_stream True ''w'' (ex_run [0, 1, 3]) = Inr oc \<and> oc_state oc = COMPLETED)"
proof
  let ?oc = "\<lparr>oc_state = COMPLETED, oc_result = PInt 12, oc_error_code = PNone\<rparr>"
  let ?as = "[ex_align 0 False, ex_align 1 False]" and ?f = "ex_align 2 True"
  have "wr_frames (ex_run [0, 1, 2]) = ?as @ ?f # []" "map al_seq (?as @ [?f]) = [0 .. 0 + int (length ?as)]"
    by (simp_all add: ex_run_def ex_align_def upto.simps)
  moreover have "al_is_final ?f" "\<forall>g \<in> set ?as. \<not> al_is_final g" "\<forall>g \<in> set (?as @ [?f]). al_sender_nid g = PStr ''w''"
    "al_error ?f = None" "al_data ?f = PInt 12" by (simp_all add: ex_align_def)
  ultimately have "\<exists>as f bs. wr_frames (ex_run [0, 1, 2]) = as @ f # bs \<and> al_is_final f \<and> (\<forall>g \<in> set as. \<not> al_is_final g)
      \<and> (\<forall>g \<in> set (as @ [f]). al_sender_nid g = PStr ''w'') \<and> (\<exists>k \<in> {0, 1}. map al_seq (as @ [f]) = [k .. k + int (length as)])
      \<and> oc_state ?oc = COMPLETED \<and> oc_error_code ?oc = PNone
      \<and> (case al_error f of None \<Rightarrow> oc_result ?oc = al_data f | Some err \<Rightarrow> ser_error_code err = PNone \<and> oc_result ?oc = PNone)"
    by (intro exI [of _ ?as] exI [of _ ?f] exI [of _ "[]"]) simp
  moreover have "sorted_wrt (<) (map al_seq (wr_frames (ex_run [0, 1, 2])))" "\<forall>f \<in> set (wr_frames (ex_run [0, 1, 2])). 0 \<le> al_seq f"
    by (simp_all add: ex_run_def ex_align_def)
  ultimately have "consume_stream True ''w'' (ex_run [0, 1, 2]) = Inr ?oc \<and> oc_state ?oc = COMPLETED"
    using stream_completes_unbroken by blast
  then show "consume_stream True ''w'' (ex_run [0, 1, 2]) = Inr ?oc" by blast
  have "consume_stream True ''w'' (ex_run [0, 1, 3]) = Inr (failed_with (PStr NOP_STREAM_SEQ_GAP))" by code_simp
  then show "\<not> (\<exists>oc. consume_stream True ''w'' (ex_run [0, 1, 3]) = Inr oc \<and> oc_state oc = COMPLETED)" by simp
qed

text \<open>
  The frame's comment asks for strictly increasing sequence numbers from zero; the consumer also takes a
  repeated number, a restart at zero, and a stream that begins at one.
\<close>

lemma stream_accepts_replays:
  "consume_stream True ''w'' (ex_run [1, 1, 0, 1]) = Inr \<lparr>oc_state = COMPLETED, oc_result = PInt 11, oc_error_code = PNone\<rparr>"
  by code_simp

text \<open>
  C33: A node is attempted at most \<open>max_retries + 1\<close> times and its record tells the truth: the attempts
  recorded as running are numbered consecutively from one; if the run returns an outcome, it is
  completed, failed or skipped, and after the run's writes the node's subtask in the store has that
  state, the task's own state and every other subtask being untouched.
\<close>

theorem node_run_recorded:
  assumes "execute_node_with_retry vsn t n sid key env = (ws, r)" and "dict_get s tid = Some rec"
  shows "(\<exists>k \<le> nat (node_max_retries t n + 1).
           map sw_attempt (filter (\<lambda>w. sw_state w = RUNNING) ws) = map int [1 ..< 1 + k])
    \<and> (\<forall>oc. r = Inr oc \<longrightarrow> oc_state oc \<in> {COMPLETED, FAILED, SKIPPED}
         \<and> (\<exists>rec' x. dict_get (store_apply tid ws s) tid = Some rec' \<and> rec_state rec' = rec_state rec
              \<and> dict_get (rec_subtasks rec') (n_id n) = Some x \<and> st_state x = oc_state oc
              \<and> (\<forall>j. j \<noteq> n_id n \<longrightarrow> dict_get (rec_subtasks rec') j = dict_get (rec_subtasks rec) j)))"
proof (intro conjI allI impI)
  show "\<exists>k \<le> nat (node_max_retries t n + 1).
      map sw_attempt (filter (\<lambda>w. sw_state w = RUNNING) ws) = map int [1 ..< 1 + k]"
    by (rule retry_loop_attempts [OF assms(1) [unfolded execute_node_with_retry_def]])
  fix oc assume "r = Inr oc"
  note st = node_run_stored [OF assms(1) [unfolded this] assms(2)]
  show "oc_state oc \<in> {COMPLETED, FAILED, SKIPPED}" by (rule conjunct1 [OF st])
  show "\<exists>rec' x. dict_get (store_apply tid ws s) tid = Some rec' \<and> rec_state rec' = rec_state rec
      \<and> dict_get (rec_subtasks rec') (n_id n) = Some x \<and> st_state x = oc_state oc
      \<and> (\<forall>j. j \<noteq> n_id n \<longrightarrow> dict_get (rec_subtasks rec') j = dict_get (rec_subtasks rec) j)"
    by (rule conjunct2 [OF st])
qed

definition ex_task :: "dag \<Rightarrow> task" where
  "ex_task d = \<lparr>t_id = ''t1'', t_dag = d, t_timeout_ms = 30000, t_max_retries = 2, t_priority = PStr ''normal'',
     t_callback_url = None, t_preflight = False, t_context = None, t_delegate_depth = 0,
     t_compensation_policy = ''none''\<rparr>"

definition ex_env :: "(nat \<Rightarrow> worker_run) \<Rightarrow> nat \<Rightarrow> attempt_env" where
  "ex_env runs i = \<lparr>ae_cancelled = False, ae_context = [], ae_deadline = (\<lambda>ms. ''soon''), ae_worker = (\<lambda>f. runs i)\<rparr>"

definition ex_store :: task_store where
  "ex_store = [(''t1'', \<lparr>rec_task_id = ''t1'', rec_state = RUNNING, rec_subtasks = []\<rparr>)]"

definition flaky :: "nat \<Rightarrow> worker_run" where
  "flaky i = (if i = 1 then \<lparr>wr_frames = [], wr_end = StreamTimesOut\<rparr> else ex_run [0, 1])"

definition ex_w_node :: node where
  "ex_w_node = (ex_node ''a'' [])\<lparr>n_agent := ''w''\<rparr>"

theorem node_run_recorded_witness:
  "\<exists>ws rec x. execute_node_with_retry True (ex_task ex_diamond) ex_w_node ''sid'' ''key'' (ex_env flaky)
       = (ws, Inr \<lparr>oc_state = COMPLETED, oc_result = PInt 11, oc_error_code = PNone\<rparr>)
     \<and> map sw_state ws = [RUNNING, RUNNING, COMPLETED]
     \<and> dict_get (store_apply ''t1'' ws ex_store) ''t1'' = Some rec
     \<and> dict_get (rec_subtasks rec) ''a'' = Some x \<and> st_state x = COMPLETED"
proof -
  let ?ws = "fst (execute_node_with_retry True (ex_task ex_diamond) ex_w_node ''sid'' ''key'' (ex_env flaky))"
  have run: "execute_node_with_retry True (ex_task ex_diamond) ex_w_node ''sid'' ''key'' (ex_env flaky)
       = (?ws, Inr \<lparr>oc_state = COMPLETED, oc_result = PInt 11, oc_error_code = PNone\<rparr>)"
    by code_simp
  have st: "map sw_state ?ws = [RUNNING, RUNNING, COMPLETED]" by code_simp
  have rec: "dict_get ex_store ''t1'' = Some \<lparr>rec_task_id = ''t1'', rec_state = RUNNING, rec_subtasks = []\<rparr>"
    by code_simp
  have "n_id ex_w_node = ''a''" by code_simp
  with node_run_recorded [OF run rec] run st show ?thesis by fastforce
qed

end
