(* ===== verification/NopOrchestrator.thy ===== *)
theory NopOrchestrator
  imports NopNode
begin

text \<open>
  The scheduling loop and the task life cycle of \<open>nps_sdk/nop/orchestrator.py\<close>: readiness and K-of-N
  synchronisation, launching, completions, the abort test, saga compensation and \<open>execute\<close>.

  Nodes in flight run concurrently; the loop only looks at them when one has finished. An iteration
  is therefore a function of the node that finishes next and of its outcome, and a run is a sequence
  of such completions, in any order the event loop may produce. What a node run itself does is in
  \<open>NopNode\<close>.
\<close>

section \<open>Dependencies\<close>

definition required :: "node \<Rightarrow> int" where
  "required n = (if n_min_required n > 0 then n_min_required n else int (length (n_input_from n)))"

definition succeeded :: "task_state dict \<Rightarrow> node \<Rightarrow> int" where
  "succeeded states n =
     int (length (filter (\<lambda>d. map_of states d = Some COMPLETED \<or> map_of states d = Some SKIPPED) (n_input_from n)))"

definition failed_inputs :: "task_state dict \<Rightarrow> node \<Rightarrow> int" where
  "failed_inputs states n = int (length (filter (\<lambda>d. map_of states d = Some FAILED) (n_input_from n)))"

definition are_deps_done :: "node \<Rightarrow> task_state dict \<Rightarrow> bool" where
  "are_deps_done n states =
     (if n_input_from n = [] then True
      else let total = int (length (n_input_from n)) in
           if succeeded states n \<ge> required n then True
           else if total - failed_inputs states n < required n then True
           else False)"

definition can_end_node_still_succeed :: "string \<Rightarrow> node dict \<Rightarrow> task_state dict \<Rightarrow> bool res" where
  "can_end_node_still_succeed end_node_id all_nodes states =
     res_bind (dict_item all_nodes end_node_id) (\<lambda>n.
       if n_input_from n = [] then Inr False
       else Inr (int (length (n_input_from n)) - failed_inputs states n \<ge> required n))"

section \<open>Reachability\<close>

fun adjacency :: "edge list \<Rightarrow> string list dict \<Rightarrow> string list dict" where
  "adjacency [] adj = adj"
| "adjacency (e # es) adj =
     adjacency es (dict_set (e_from e) ((case map_of adj (e_from e) of None \<Rightarrow> [] | Some ns \<Rightarrow> ns) @ [e_to e]) adj)"

text \<open>
  The neighbours still to be queued, plus the queue: the number that goes down with every node
  taken from the queue.
\<close>

definition pending :: "string list dict \<Rightarrow> string list \<Rightarrow> string list \<Rightarrow> nat" where
  "pending adj visited queue =
     sum_list (map (\<lambda>(k, l). if k \<in> set visited then 0 else length l) adj) + length queue"

lemma pending_visit:
  "cur \<notin> set visited \<Longrightarrow>
     pending adj (cur # visited) (queue @ (case map_of adj cur of None \<Rightarrow> [] | Some ns \<Rightarrow> ns)) < pending adj visited (cur # queue)"
  unfolding pending_def
proof (induction adj)
  case (Cons kl adj)
  have "sum_list (map (\<lambda>(k, l). if k \<in> set (cur # visited) then 0 else length l) adj)
      \<le> sum_list (map (\<lambda>(k, l). if k \<in> set visited then 0 else length l) adj)"
    by (rule sum_list_mono) auto
  with Cons show ?case by (cases kl) (auto split: option.splits)
qed simp

function bfs :: "string list dict \<Rightarrow> string \<Rightarrow> string list \<Rightarrow> string list \<Rightarrow> bool" where
  "bfs adj end_node_id visited [] = False"
| "bfs adj end_node_id visited (cur # queue) =
     (if cur = end_node_id then True
      else if cur \<in> set visited then bfs adj end_node_id visited queue
      else bfs adj end_node_id (cur # visited) (queue @ (case map_of adj cur of None \<Rightarrow> [] | Some ns \<Rightarrow> ns)))"
  by pat_completeness auto
termination
proof (relation "measure (\<lambda>(adj, e, visited, queue). pending adj visited queue)")
qed (use pending_visit in \<open>auto simp: pending_def\<close>)

definition can_reach_end_node :: "string \<Rightarrow> string \<Rightarrow> edge list \<Rightarrow> bool" where
  "can_reach_end_node end_node_id failed_node_id edges =
     bfs (adjacency edges []) end_node_id [] [failed_node_id]"

section \<open>The scheduling loop\<close>

text \<open>
  What a run writes to the task's record: its state, or one of its subtasks. \<open>dr_writes\<close> is the sequence
  of the writes so far.
\<close>

datatype store_write = StateWrite task_state | SubtaskWrite subtask_write

record dag_run =
  dr_states :: "task_state dict"
  dr_results :: "pyval dict"
  dr_flight :: "string list"
  dr_writes :: "store_write list"

definition empty_run :: dag_run where
  "empty_run = \<lparr>dr_states = [], dr_results = [], dr_flight = [], dr_writes = []\<rparr>"

definition all_nodes :: "dag \<Rightarrow> node dict" where
  "all_nodes d = foldl (\<lambda>m n. dict_set (n_id n) n m) [] (d_nodes d)"

definition end_node_ids :: "dag \<Rightarrow> string list" where
  "end_node_ids d = filter (\<lambda>i. i \<notin> e_from ` set (d_edges d)) (map fst (all_nodes d))"

definition ready_nodes :: "dag \<Rightarrow> dag_run \<Rightarrow> node list" where
  "ready_nodes d s =
     filter (\<lambda>n. n_id n \<notin> fst ` set (dr_states s) \<and> n_id n \<notin> set (dr_flight s) \<and> are_deps_done n (dr_states s))
       (map snd (all_nodes d))"

definition NOP_SYNC_DEPENDENCY_FAILED :: string where "NOP_SYNC_DEPENDENCY_FAILED = ''NOP-SYNC-DEPENDENCY-FAILED''"

text \<open>
  K-of-N: the ready nodes whose K can never be met become failed, also in the store; the others stay.
  \<open>nid\<close> stands for \<open>_new_id()\<close>, as a function of the node it is called for.
\<close>

definition short_write :: "(string \<Rightarrow> string) \<Rightarrow> node \<Rightarrow> store_write" where
  "short_write nid n = SubtaskWrite (sub_write n (nid (n_id n)) FAILED PNone (PStr NOP_SYNC_DEPENDENCY_FAILED) 1)"

fun fail_short :: "(string \<Rightarrow> string) \<Rightarrow> node list \<Rightarrow> task_state dict \<Rightarrow> task_state dict \<times> node list \<times> store_write list" where
  "fail_short nid [] states = (states, [], [])"
| "fail_short nid (n # ns) states =
     (if n_input_from n \<noteq> [] \<and> succeeded states n < required n
      then let (st, keep, ws) = fail_short nid ns (dict_set (n_id n) FAILED states) in (st, keep, short_write nid n # ws)
      else let (st, keep, ws) = fail_short nid ns states in (st, n # keep, ws))"

fun launch :: "int \<Rightarrow> node list \<Rightarrow> string list \<Rightarrow> string list" where
  "launch max_concurrent [] flight = flight"
| "launch max_concurrent (n # ns) flight =
     (if int (length flight) \<ge> max_concurrent then flight
      else launch max_concurrent ns (flight @ [n_id n]))"

text \<open>The first half of an iteration, up to the wait.\<close>

definition prepare :: "int \<Rightarrow> (string \<Rightarrow> string) \<Rightarrow> dag \<Rightarrow> dag_run \<Rightarrow> dag_run" where
  "prepare max_concurrent nid d s =
     (let (states, keep, ws) = fail_short nid (ready_nodes d s) (dr_states s)
      in s\<lparr>dr_states := states, dr_flight := launch max_concurrent keep (dr_flight s), dr_writes := dr_writes s @ ws\<rparr>)"

text \<open>While the loop waits, the nodes in flight and \<open>cancel\<close> write to the record.\<close>

definition note_writes :: "store_write list \<Rightarrow> dag_run \<Rightarrow> dag_run" where
  "note_writes ws p = p\<lparr>dr_writes := dr_writes p @ ws\<rparr>"

text \<open>The second half: the finished node leaves \<open>in_flight\<close> and its outcome is recorded.\<close>

definition complete :: "string \<Rightarrow> outcome \<Rightarrow> dag_run \<Rightarrow> dag_run" where
  "complete finished oc s =
     s\<lparr>dr_flight := remove1 finished (dr_flight s),
       dr_states := dict_set finished (oc_state oc) (dr_states s),
       dr_results := (if oc_state oc = COMPLETED \<and> oc_result oc \<noteq> PNone
                      then dict_set finished (oc_result oc) (dr_results s) else dr_results s)\<rparr>"

fun any_res :: "('a \<Rightarrow> bool res) \<Rightarrow> 'a list \<Rightarrow> bool res" where
  "any_res p [] = Inr False"
| "any_res p (x # xs) = res_bind (p x) (\<lambda>b. if b then Inr True else any_res p xs)"

definition must_abort :: "dag \<Rightarrow> string \<Rightarrow> dag_run \<Rightarrow> bool res" where
  "must_abort d finished s =
     any_res (\<lambda>e. if can_reach_end_node e finished (d_edges d)
                  then res_bind (can_end_node_still_succeed e (all_nodes d) (dr_states s)) (\<lambda>b. Inr (\<not> b))
                  else Inr False)
       (end_node_ids d)"

text \<open>
  How the loop goes on after one completion: another iteration, an abort because of the finished
  node, or an exception.
\<close>

datatype next_iter = Again dag_run | Abort string dag_run | Raise py_error

definition after_completion :: "dag \<Rightarrow> string \<Rightarrow> outcome \<Rightarrow> dag_run \<Rightarrow> next_iter" where
  "after_completion d finished oc s =
     (let s' = complete finished oc s in
      if oc_state oc = FAILED
      then (case must_abort d finished s' of
              Inl e \<Rightarrow> Raise e
            | Inr True \<Rightarrow> Abort finished s'
            | Inr False \<Rightarrow> Again s')
      else Again s')"

definition loop_continues :: "dag \<Rightarrow> dag_run \<Rightarrow> bool" where
  "loop_continues d s = (length (dr_states s) < length (all_nodes d))"

text \<open>
  One iteration of the loop that goes on, from head to head, for some node of \<open>in_flight\<close> finishing first, and
  the heads that a run passes. The states in between, while the loop waits, are those of \<open>dag_wait\<close> below.
\<close>

inductive dag_step :: "int \<Rightarrow> (string \<Rightarrow> string) \<Rightarrow> dag \<Rightarrow> dag_run \<Rightarrow> dag_run \<Rightarrow> bool" for mc nid d where
  iteration:
    "loop_continues d s \<Longrightarrow> finished \<in> set (dr_flight (prepare mc nid d s)) \<Longrightarrow>
     oc_state oc \<in> {COMPLETED, FAILED, SKIPPED} \<Longrightarrow>
     after_completion d finished oc (note_writes ws (prepare mc nid d s)) = Again s' \<Longrightarrow> dag_step mc nid d s s'"

inductive reachable :: "int \<Rightarrow> (string \<Rightarrow> string) \<Rightarrow> dag \<Rightarrow> dag_run \<Rightarrow> bool" for mc nid d where
  start: "reachable mc nid d empty_run"
| step: "reachable mc nid d s \<Longrightarrow> dag_step mc nid d s s' \<Longrightarrow> reachable mc nid d s'"

text \<open>The state in which the loop is left without an abort: finished, or nothing in flight.\<close>

definition loop_left :: "int \<Rightarrow> (string \<Rightarrow> string) \<Rightarrow> dag \<Rightarrow> dag_run \<Rightarrow> dag_run option" where
  "loop_left mc nid d s =
     (if \<not> loop_continues d s then Some s
      else if dr_flight (prepare mc nid d s) = [] then Some (prepare mc nid d s)
      else None)"

datatype loop_end = LoopLeft dag_run | Aborted string dag_run | Raised py_error dag_run | Waiting dag_run

datatype dag_event = NodeWrote subtask_write | NodeDone string "outcome res" | CancelSet

fun loop_run :: "loop_end \<Rightarrow> dag_run" where
  "loop_run (LoopLeft s) = s"
| "loop_run (Aborted i s) = s"
| "loop_run (Raised e s) = s"
| "loop_run (Waiting s) = s"

text \<open>The head of the loop: leave it, or prepare and wait.\<close>

definition enter :: "int \<Rightarrow> (string \<Rightarrow> string) \<Rightarrow> dag \<Rightarrow> bool \<Rightarrow> dag_run \<Rightarrow> loop_end + dag_run" where
  "enter mc nid d cancelled s =
     (if \<not> loop_continues d s then Inl (LoopLeft s)
      else if cancelled then Inl (Raised CancelledError s)
      else if dr_flight (prepare mc nid d s) = [] then Inl (LoopLeft (prepare mc nid d s))
      else Inr (prepare mc nid d s))"

text \<open>The writes of the nodes still in flight, for which an abort waits.\<close>

fun node_writes :: "dag_event list \<Rightarrow> store_write list" where
  "node_writes [] = []"
| "node_writes (NodeWrote w # events) = SubtaskWrite w # node_writes events"
| "node_writes (ev # events) = node_writes events"

text \<open>
  The loop driven by what happens while it waits: a node in flight writes its subtask, a node
  finishes, or \<open>cancel\<close> writes the state and sets the event, which is noticed at the next head of the
  loop.
\<close>

fun dag_wait :: "int \<Rightarrow> (string \<Rightarrow> string) \<Rightarrow> dag \<Rightarrow> bool \<Rightarrow> dag_run \<Rightarrow> dag_event list \<Rightarrow> loop_end" where
  "dag_wait mc nid d cancelled p [] = Waiting p"
| "dag_wait mc nid d cancelled p (CancelSet # events) =
     dag_wait mc nid d True (note_writes [StateWrite CANCELLED] p) events"
| "dag_wait mc nid d cancelled p (NodeWrote w # events) =
     (if sw_node_id w \<notin> set (dr_flight p) then Waiting p
      else dag_wait mc nid d cancelled (note_writes [SubtaskWrite w] p) events)"
| "dag_wait mc nid d cancelled p (NodeDone finished r # events) =
     (if finished \<notin> set (dr_flight p) then Waiting p
      else case r of
             Inl e \<Rightarrow> Raised e p
           | Inr oc \<Rightarrow>
               (case after_completion d finished oc p of
                  Again s \<Rightarrow>
                    (case enter mc nid d cancelled s of
                       Inl x \<Rightarrow> x | Inr q \<Rightarrow> dag_wait mc nid d cancelled q events)
                | Abort f s \<Rightarrow> Aborted f (note_writes (node_writes events) s)
                | Raise e \<Rightarrow> Raised e p))"

definition run_loop :: "int \<Rightarrow> (string \<Rightarrow> string) \<Rightarrow> dag \<Rightarrow> dag_event list \<Rightarrow> loop_end" where
  "run_loop mc nid d events =
     (case enter mc nid d False empty_run of Inl x \<Rightarrow> x | Inr p \<Rightarrow> dag_wait mc nid d False p events)"

section \<open>Saga compensation\<close>

record saga =
  sg_attempted :: nat
  sg_succeeded :: nat
  sg_failed :: nat
  sg_failed_node_ids :: "string list"

definition has_compensation :: "node \<Rightarrow> bool" where
  "has_compensation n = (py_strip (case n_compensate_action n of None \<Rightarrow> [] | Some a \<Rightarrow> a) \<noteq> [])"

definition compensation_node :: "node \<Rightarrow> node" where
  "compensation_node n =
     n\<lparr>n_action := (case n_compensate_action n of None \<Rightarrow> [] | Some a \<Rightarrow> a),
       n_input_mapping := n_compensate_params_mapping n\<rparr>"

definition completed_reversed :: "dag \<Rightarrow> string list \<Rightarrow> task_state dict \<Rightarrow> node list" where
  "completed_reversed d topo_order states =
     map (\<lambda>i. the (map_of (all_nodes d) i))
       (filter (\<lambda>i. map_of states i = Some COMPLETED \<and> i \<in> fst ` set (all_nodes d)) (rev topo_order))"

text \<open>
  \<open>env\<close> is the surroundings of the delegation that compensates a node; the results it sees are those
  of the run.
\<close>

fun compensate_loop ::
  "bool \<Rightarrow> task \<Rightarrow> (string \<Rightarrow> string \<times> string \<times> attempt_env) \<Rightarrow> pyval dict \<Rightarrow> node list \<Rightarrow> nat \<Rightarrow> string list
     \<Rightarrow> (nat \<times> string list) res" where
  "compensate_loop vsn t env results [] ok failed_ids = Inr (ok, failed_ids)"
| "compensate_loop vsn t env results (n # ns) ok failed_ids =
     (case env (n_id n) of (sid, key, e) \<Rightarrow>
        res_bind (execute_node_once vsn t (compensation_node n) sid key (e\<lparr>ae_context := results\<rparr>)) (\<lambda>oc.
          if oc_state oc = COMPLETED then compensate_loop vsn t env results ns (Suc ok) failed_ids
          else compensate_loop vsn t env results ns ok (failed_ids @ [n_id n])))"

text \<open>The states written to the store, and the summary.\<close>

definition run_saga_compensation ::
  "bool \<Rightarrow> task \<Rightarrow> string list \<Rightarrow> (string \<Rightarrow> string \<times> string \<times> attempt_env) \<Rightarrow> pyval dict \<Rightarrow> task_state dict
     \<Rightarrow> task_state list \<times> saga res" where
  "run_saga_compensation vsn t topo_order env results states =
     (let done = completed_reversed (t_dag t) topo_order states;
          missing = filter (\<lambda>n. \<not> has_compensation n) done;
          to_compensate = filter has_compensation done
      in if is_strict (Some (t_compensation_policy t)) \<and> missing \<noteq> []
         then ([], Inr \<lparr>sg_attempted = 0, sg_succeeded = 0, sg_failed = length missing,
                       sg_failed_node_ids = map n_id missing\<rparr>)
         else if to_compensate = []
         then ([], Inr \<lparr>sg_attempted = 0, sg_succeeded = 0, sg_failed = 0, sg_failed_node_ids = []\<rparr>)
         else ([COMPENSATING],
               res_bind (compensate_loop vsn t env results to_compensate 0 []) (\<lambda>(ok, ids).
                 Inr \<lparr>sg_attempted = length to_compensate, sg_succeeded = ok, sg_failed = length ids,
                      sg_failed_node_ids = ids\<rparr>)))"

section \<open>The result of a task\<close>

record task_result =
  tr_task_id :: string
  tr_final_state :: task_state
  tr_aggregated :: pyval
  tr_error_code :: pyval
  tr_node_results :: "pyval dict"
  tr_compensation :: "saga option"

definition task_success :: "string \<Rightarrow> pyval \<Rightarrow> pyval dict \<Rightarrow> saga option \<Rightarrow> task_result" where
  "task_success i aggregated results cmp =
     \<lparr>tr_task_id = i, tr_final_state = COMPLETED, tr_aggregated = aggregated, tr_error_code = PNone,
      tr_node_results = results, tr_compensation = cmp\<rparr>"

definition task_failure :: "string \<Rightarrow> string \<Rightarrow> saga option \<Rightarrow> task_result" where
  "task_failure i code cmp =
     \<lparr>tr_task_id = i, tr_final_state = FAILED, tr_aggregated = PNone, tr_error_code = PStr code,
      tr_node_results = [], tr_compensation = cmp\<rparr>"

definition saga_to_dict :: "saga \<Rightarrow> pyval" where
  "saga_to_dict g =
     PDict [(''attempted'', PInt (int (sg_attempted g))), (''succeeded'', PInt (int (sg_succeeded g))),
            (''failed'', PInt (int (sg_failed g))),
            (''failed_node_ids'', PList (map PStr (sg_failed_node_ids g)))]"

definition task_result_to_dict :: "task_result \<Rightarrow> pyval" where
  "task_result_to_dict r =
     PDict ([(''task_id'', PStr (tr_task_id r)), (''final_state'', PStr (task_state_value (tr_final_state r))),
             (''node_results'', PDict (tr_node_results r))]
       @ not_none ''aggregated_result'' (tr_aggregated r) @ not_none ''error_code'' (tr_error_code r)
       @ not_none ''compensation'' (opt_val saga_to_dict (tr_compensation r)))"

definition NOP_COMPENSATION_NOT_SUPPORTED :: string where "NOP_COMPENSATION_NOT_SUPPORTED = ''NOP-COMPENSATION-NOT-SUPPORTED''"
definition NOP_COMPENSATION_FAILED :: string where "NOP_COMPENSATION_FAILED = ''NOP-COMPENSATION-FAILED''"
definition NOP_DELEGATE_CHAIN_TOO_DEEP :: string where "NOP_DELEGATE_CHAIN_TOO_DEEP = ''NOP-DELEGATE-CHAIN-TOO-DEEP''"
definition NOP_TASK_ALREADY_COMPLETED :: string where "NOP_TASK_ALREADY_COMPLETED = ''NOP-TASK-ALREADY-COMPLETED''"
definition NOP_TASK_TIMEOUT :: string where "NOP_TASK_TIMEOUT = ''NOP-TASK-TIMEOUT''"
definition NOP_RESOURCE_INSUFFICIENT :: string where "NOP_RESOURCE_INSUFFICIENT = ''NOP-RESOURCE-INSUFFICIENT''"

definition compensation_failure_error_code :: "task \<Rightarrow> saga option \<Rightarrow> string option" where
  "compensation_failure_error_code t cmp =
     (if \<not> is_strict (Some (t_compensation_policy t)) then None
      else case cmp of
             None \<Rightarrow> None
           | Some g \<Rightarrow>
               if sg_failed g = 0 then None
               else Some (if sg_attempted g = 0 then NOP_COMPENSATION_NOT_SUPPORTED else NOP_COMPENSATION_FAILED))"

definition maybe_compensate ::
  "bool \<Rightarrow> (task_state list \<times> saga res) \<Rightarrow> task_state list \<times> saga option res" where
  "maybe_compensate b r = (if b then (fst r, res_bind (snd r) (\<lambda>g. Inr (Some g))) else ([], Inr None))"

definition failed_result :: "task \<Rightarrow> task_state list \<times> saga res \<Rightarrow> task_state list \<times> task_result res" where
  "failed_result t saga_run =
     (let (ws, c) = maybe_compensate (runs_on_failure (Some (t_compensation_policy t))) saga_run
      in (ws, res_bind c (\<lambda>cmp.
            Inr (task_failure (t_id t)
                   (case compensation_failure_error_code t cmp of
                      Some code \<Rightarrow> code | None \<Rightarrow> NOP_SYNC_DEPENDENCY_FAILED) cmp))))"

text \<open>
  What \<open>_run_dag\<close> returns after the loop: the states it writes and the result; \<open>None\<close> while it waits.
\<close>

definition dag_result ::
  "string \<Rightarrow> bool \<Rightarrow> task \<Rightarrow> string list \<Rightarrow> (string \<Rightarrow> string \<times> string \<times> attempt_env) \<Rightarrow> loop_end
     \<Rightarrow> (task_state list \<times> task_result res) option" where
  "dag_result strategy vsn t topo_order env l =
     (let cmp = (\<lambda>s. run_saga_compensation vsn t topo_order env (dr_results s) (dr_states s)) in
      case l of
        Waiting s \<Rightarrow> None
      | Raised e s \<Rightarrow> Some ([], Inl e)
      | Aborted i s \<Rightarrow> Some (failed_result t (cmp s))
      | LoopLeft s \<Rightarrow>
          Some (if (\<exists>(i, st) \<in> set (dr_states s). st = FAILED)
                   \<and> (\<exists>e \<in> set (end_node_ids (t_dag t)). map_of (dr_states s) e = Some FAILED)
                then failed_result t (cmp s)
                else let (ws, c) = maybe_compensate (runs_on_success (Some (t_compensation_policy t))) (cmp s)
                     in (ws, res_bind c (\<lambda>g.
                           Inr (task_success (t_id t)
                                  (aggregate_end_nodes (end_node_ids (t_dag t)) (dr_results s) strategy)
                                  (dr_results s) g)))))"

section \<open>The life cycle of a task\<close>

record orchestrator_options =
  oo_max_concurrent_nodes :: int
  oo_validate_sender_nid :: bool
  oo_default_aggregate_strategy :: string

text \<open>
  The checks of \<open>_execute_instrumented\<close> before the task is stored: an error code, or the topological
  order. \<open>url_error\<close> is the callback check (true when the URL is refused), \<open>ids\<close> the iteration
  order of the id set.
\<close>

definition admit :: "(string \<Rightarrow> bool) \<Rightarrow> string list \<Rightarrow> task_store \<Rightarrow> task \<Rightarrow> (string + string list) res" where
  "admit url_error ids store t =
     (if t_delegate_depth t \<ge> MAX_DELEGATE_CHAIN_DEPTH then Inr (Inl NOP_DELEGATE_CHAIN_TOO_DEEP)
      else if (case t_callback_url t of None \<Rightarrow> False | Some u \<Rightarrow> u \<noteq> [] \<and> url_error u)
      then Inr (Inl NOP_TASK_DAG_INVALID)
      else res_bind (validate ids (t_dag t)) (\<lambda>v.
        case v of
          DagFailure code \<Rightarrow> Inr (Inl code)
        | DagSuccess order \<Rightarrow>
            if store_get (t_id t) store \<noteq> None then Inr (Inl NOP_TASK_ALREADY_COMPLETED)
            else Inr (Inr order)))"

text \<open>\<open>agent_actions.setdefault(n.agent, n.action)\<close>\<close>

fun agent_actions :: "node list \<Rightarrow> string dict \<Rightarrow> string dict" where
  "agent_actions [] m = m"
| "agent_actions (n # ns) m =
     agent_actions ns (if map_of m (n_agent n) = None then dict_set (n_agent n) (n_action n) m else m)"

text \<open>Whether preflight fails: a probe raised, or some agent is not available.\<close>

definition preflight_fails :: "(string \<Rightarrow> string \<Rightarrow> bool res) \<Rightarrow> task \<Rightarrow> bool" where
  "preflight_fails probe t =
     (case res_map (\<lambda>(agent, action). probe agent action) (agent_actions (d_nodes (t_dag t)) []) of
        Inl e \<Rightarrow> True
      | Inr available \<Rightarrow> \<exists>b \<in> set available. \<not> b)"

definition write_states :: "string \<Rightarrow> task_state list \<Rightarrow> task_store \<Rightarrow> task_store" where
  "write_states i sts store = foldl (\<lambda>s st. store_update_state i st s) store sts"

fun write_one :: "string \<Rightarrow> task_store \<Rightarrow> store_write \<Rightarrow> task_store" where
  "write_one i store (StateWrite st) = store_update_state i st store"
| "write_one i store (SubtaskWrite w) = store_update_subtask i w store"

definition write_all :: "string \<Rightarrow> store_write list \<Rightarrow> task_store \<Rightarrow> task_store" where
  "write_all i ws store = foldl (write_one i) store ws"

text \<open>
  \<open>execute\<close>. \<open>late\<close> says whether the task's time limit fires while the loop waits after \<open>events\<close>. The
  result is \<open>None\<close> while the task is still running.
\<close>

definition execute ::
  "orchestrator_options \<Rightarrow> (string \<Rightarrow> bool) \<Rightarrow> string list \<Rightarrow> (string \<Rightarrow> string \<Rightarrow> bool res) \<Rightarrow> (string \<Rightarrow> string)
     \<Rightarrow> (string \<Rightarrow> string \<times> string \<times> attempt_env) \<Rightarrow> dag_event list \<Rightarrow> bool \<Rightarrow> task \<Rightarrow> task_store
     \<Rightarrow> task_store \<times> task_result res option" where
  "execute opts url_error ids probe nid env events late t store =
     (case admit url_error ids store t of
        Inl e \<Rightarrow> (store, Some (Inl e))
      | Inr (Inl code) \<Rightarrow> (store, Some (Inr (task_failure (t_id t) code None)))
      | Inr (Inr topo_order) \<Rightarrow>
          let s1 = snd (store_save \<lparr>rec_task_id = t_id t, rec_state = PENDING, rec_subtasks = []\<rparr> store);
              s2 = (if t_preflight t then store_update_state (t_id t) PREFLIGHT s1 else s1)
          in if t_preflight t \<and> preflight_fails probe t
             then (write_states (t_id t) [FAILED, FAILED] s2,
                   Some (Inr (task_failure (t_id t) NOP_RESOURCE_INSUFFICIENT None)))
             else
               let l = run_loop (oo_max_concurrent_nodes opts) nid (t_dag t) events;
                   s3 = write_all (t_id t) (dr_writes (loop_run l)) (store_update_state (t_id t) RUNNING s2)
               in (case dag_result (oo_default_aggregate_strategy opts) (oo_validate_sender_nid opts) t topo_order env l of
                     None \<Rightarrow>
                       if late then (store_update_state (t_id t) FAILED s3,
                                     Some (Inr (task_failure (t_id t) NOP_TASK_TIMEOUT None)))
                       else (s3, None)
                   | Some (ws, Inl e) \<Rightarrow> (write_states (t_id t) ws s3, Some (Inl e))
                   | Some (ws, Inr r) \<Rightarrow>
                       (store_update_state (t_id t) (tr_final_state r) (write_states (t_id t) ws s3), Some (Inr r))))"

definition cancel :: "string \<Rightarrow> task_store \<Rightarrow> task_store" where
  "cancel task_id store = store_update_state task_id CANCELLED store"

section \<open>Lemmas\<close>

subsection \<open>Reachability\<close>

lemma adjacency_map_of:
  "map_of (adjacency es adj) u =
     (if out_ids es u = [] then map_of adj u
      else Some ((case map_of adj u of None \<Rightarrow> [] | Some ns \<Rightarrow> ns) @ out_ids es u))"
  by (induction es adj rule: adjacency.induct) (auto simp: out_ids_def split: option.splits)

lemma out_ids_rel: "v \<in> set (out_ids es u) \<longleftrightarrow> (u, v) \<in> edge_rel es"
  by (force simp: out_ids_def edge_rel_def)

lemma bfs_neighbours:
  "(case map_of (adjacency es []) u of None \<Rightarrow> [] | Some ns \<Rightarrow> ns) = out_ids es u"
  by (simp add: adjacency_map_of)

text \<open>
  Invariant of the search: what is reachable from the start is reachable from the queue without
  passing through a visited node, and no visited node is the one searched for.
\<close>

lemma bfs_reaches:
  assumes "end_id \<notin> set visited"
    and "\<And>u v. u \<in> set visited \<Longrightarrow> (u, v) \<in> edge_rel es \<Longrightarrow> v \<in> set visited \<union> set queue"
  shows "bfs (adjacency es []) end_id visited queue \<longleftrightarrow> (\<exists>q \<in> set queue. (q, end_id) \<in> (edge_rel es)\<^sup>*)"
  using assms
proof (induction "adjacency es []" end_id visited queue rule: bfs.induct)
  case (2 end_id visited cur queue)
  let ?ns = "out_ids es cur"
  consider (found) "cur = end_id" | (seen) "cur \<noteq> end_id" "cur \<in> set visited"
    | (fresh) "cur \<noteq> end_id" "cur \<notin> set visited" by blast
  then show ?case
  proof cases
    case found
    then show ?thesis by auto
  next
    case seen
    have closed: "v \<in> set visited \<union> set queue" if "u \<in> set visited" "(u, v) \<in> edge_rel es" for u v
      using 2(4) [OF that] seen(2) by auto
    have path: "\<exists>q \<in> set queue. (q, end_id) \<in> (edge_rel es)\<^sup>*" if "(x, end_id) \<in> (edge_rel es)\<^sup>*" "x \<in> set visited" for x
      using that
    proof (induction rule: converse_rtrancl_induct)
      case base
      then show ?case using 2(3) by blast
    next
      case (step y z)
      then show ?case using closed [of y z] by auto
    qed
    have "bfs (adjacency es []) end_id visited queue \<longleftrightarrow> (\<exists>q \<in> set queue. (q, end_id) \<in> (edge_rel es)\<^sup>*)"
      by (rule 2(1) [OF seen 2(3) closed])
    then show ?thesis using seen path [of cur] by auto
  next
    case fresh
    have "bfs (adjacency es []) end_id (cur # visited) (queue @ ?ns)
        \<longleftrightarrow> (\<exists>q \<in> set (queue @ ?ns). (q, end_id) \<in> (edge_rel es)\<^sup>*)"
      using 2(2) [OF fresh, unfolded bfs_neighbours] 2(3,4) fresh(1) by (auto simp: out_ids_rel)
    moreover have "(\<exists>v \<in> set ?ns. (v, end_id) \<in> (edge_rel es)\<^sup>*) \<longleftrightarrow> (cur, end_id) \<in> (edge_rel es)\<^sup>*"
      using fresh(1) by (metis out_ids_rel converse_rtrancl_into_rtrancl converse_rtranclE)
    ultimately show ?thesis using fresh by (auto simp: bfs_neighbours)
  qed
qed simp

subsection \<open>Dependency counts\<close>

definition dict_extends :: "task_state dict \<Rightarrow> task_state dict \<Rightarrow> bool" where
  "dict_extends s s' \<longleftrightarrow> (\<forall>i st. map_of s i = Some st \<longrightarrow> map_of s' i = Some st)"

lemma succeeded_mono: "dict_extends s s' \<Longrightarrow> succeeded s n \<le> succeeded s' n"
proof -
  assume e: "dict_extends s s'"
  have "filter P (filter Q xs) = filter P xs" if "\<And>x. P x \<Longrightarrow> Q x" for P Q and xs :: "string list"
    using that by (induction xs) auto
  then have "length (filter P xs) \<le> length (filter Q xs)" if "\<And>x. P x \<Longrightarrow> Q x" for P Q and xs :: "string list"
    using that by (metis length_filter_le)
  then show ?thesis using e unfolding succeeded_def dict_extends_def by (metis (mono_tags, lifting) of_nat_mono)
qed

lemma dict_extends_set: "map_of s i = None \<Longrightarrow> dict_extends s (dict_set i st s)"
  by (auto simp: dict_extends_def)

definition short :: "task_state dict \<Rightarrow> node \<Rightarrow> bool" where
  "short states n \<longleftrightarrow> n_input_from n \<noteq> [] \<and> succeeded states n < required n"

lemma succeeded_failed:
  "map_of states i = None \<Longrightarrow> succeeded (dict_set i FAILED states) n = succeeded states n"
  by (auto simp: succeeded_def intro!: arg_cong [where f = length] filter_cong)

definition mark_failed :: "node list \<Rightarrow> task_state dict \<Rightarrow> task_state dict" where
  "mark_failed ns states = foldl (\<lambda>m n. dict_set (n_id n) FAILED m) states ns"

lemma map_of_mark_failed:
  "map_of (mark_failed ns states) i = (if i \<in> n_id ` set ns then Some FAILED else map_of states i)"
  by (induction ns arbitrary: states) (auto simp: mark_failed_def)

lemma length_dict_set_new: "map_of d k = None \<Longrightarrow> length (dict_set k v d) = Suc (length d)"
  by (induction d) (auto simp: dict_set_def split: if_splits)

lemma mark_failed_fresh:
  assumes "distinct (map n_id ns)" "\<forall>n \<in> set ns. map_of states (n_id n) = None"
  shows "length (mark_failed ns states) = length states + length ns
    \<and> (distinct (map fst states) \<longrightarrow> distinct (map fst (mark_failed ns states)))
    \<and> succeeded (mark_failed ns states) m = succeeded states m"
  using assms
proof (induction ns arbitrary: states)
  case (Cons n ns)
  have "\<forall>x \<in> set ns. map_of (dict_set (n_id n) FAILED states) (n_id x) = None"
    using Cons.prems by auto
  from Cons.IH [OF _ this] Cons.prems show ?case
    by (simp add: mark_failed_def length_dict_set_new distinct_dict_set succeeded_failed)
qed (simp add: mark_failed_def)

lemma fail_short_eq:
  "distinct (map n_id ns) \<Longrightarrow> \<forall>n \<in> set ns. map_of states (n_id n) = None \<Longrightarrow>
     fail_short nid ns states =
       (mark_failed (filter (short states) ns) states, filter (\<lambda>n. \<not> short states n) ns,
        map (short_write nid) (filter (short states) ns))"
proof (induction ns arbitrary: states)
  case (Cons n ns)
  show ?case
  proof (cases "short states n")
    case True
    let ?S = "dict_set (n_id n) FAILED states"
    have "short ?S = short states"
      using Cons.prems(2) by (auto simp: short_def succeeded_failed)
    moreover have "fail_short nid ns ?S =
        (mark_failed (filter (short ?S) ns) ?S, filter (\<lambda>m. \<not> short ?S m) ns, map (short_write nid) (filter (short ?S) ns))"
      using Cons.prems by (intro Cons.IH) auto
    moreover have "fail_short nid (n # ns) states =
        (let (st, keep, ws) = fail_short nid ns ?S in (st, keep, short_write nid n # ws))"
      using True by (simp add: short_def)
    ultimately show ?thesis using True by (simp add: mark_failed_def)
  next
    case False
    then show ?thesis using Cons by (auto simp: short_def)
  qed
qed (simp add: mark_failed_def)

lemma launch_eq: "launch mc ns flight = flight @ map n_id (take (nat (mc - int (length flight))) ns)"
proof (induction mc ns flight rule: launch.induct)
  case (2 mc n ns flight)
  show ?case
  proof (cases "int (length flight) \<ge> mc")
    case False
    then have "nat (mc - int (length flight)) = Suc (nat (mc - int (length (flight @ [n_id n]))))" by simp
    then show ?thesis using 2 False by simp
  qed simp
qed simp

subsection \<open>The invariant of the loop\<close>

definition run_inv :: "int \<Rightarrow> dag \<Rightarrow> dag_run \<Rightarrow> bool" where
  "run_inv mc d s \<longleftrightarrow>
     distinct (map fst (dr_states s)) \<and> distinct (dr_flight s)
     \<and> fst ` set (dr_states s) \<union> set (dr_flight s) \<subseteq> n_id ` set (d_nodes d)
     \<and> (\<forall>i \<in> set (dr_flight s). map_of (dr_states s) i = None)
     \<and> int (length (dr_flight s)) \<le> max 0 mc
     \<and> (\<forall>i st. map_of (dr_states s) i = Some st \<longrightarrow> st \<in> {COMPLETED, FAILED, SKIPPED})
     \<and> (\<forall>n \<in> set (d_nodes d).
          n_id n \<in> set (dr_flight s) \<or> map_of (dr_states s) (n_id n) \<in> {Some COMPLETED, Some SKIPPED} \<longrightarrow>
          \<not> short (dr_states s) n)
     \<and> (\<forall>i v. map_of (dr_results s) i = Some v \<longrightarrow> map_of (dr_states s) i = Some COMPLETED)"

lemma all_nodes_eq:
  "distinct (map n_id (d_nodes d)) \<Longrightarrow> all_nodes d = map (\<lambda>n. (n_id n, n)) (d_nodes d)"
proof -
  have "foldl (\<lambda>m n. dict_set (n_id n) n m) m ns = m @ map (\<lambda>n. (n_id n, n)) ns"
    if "distinct (map n_id ns)" "\<forall>n \<in> set ns. map_of m (n_id n) = None" for ns and m :: "node dict"
    using that
  proof (induction ns arbitrary: m)
    case (Cons n ns)
    have "dict_set (n_id n) n m = m @ [(n_id n, n)]"
      using Cons.prems(2) by (induction m) (auto simp: dict_set_def split: if_splits)
    moreover have "\<forall>x \<in> set ns. map_of (m @ [(n_id n, n)]) (n_id x) = None"
      using Cons.prems by (auto simp: map_add_def image_iff)
    ultimately show ?case using Cons.IH [of "m @ [(n_id n, n)]"] Cons.prems(1) by simp
  qed simp
  then show "distinct (map n_id (d_nodes d)) \<Longrightarrow> all_nodes d = map (\<lambda>n. (n_id n, n)) (d_nodes d)"
    by (simp add: all_nodes_def)
qed

lemma ready_props:
  assumes "distinct (map n_id (d_nodes d))"
  shows "distinct (map n_id (ready_nodes d s))"
    and "n \<in> set (ready_nodes d s) \<longleftrightarrow> n \<in> set (d_nodes d) \<and> map_of (dr_states s) (n_id n) = None
      \<and> n_id n \<notin> set (dr_flight s) \<and> are_deps_done n (dr_states s)"
  using assms by (auto simp: ready_nodes_def all_nodes_eq distinct_map_filter comp_def map_of_eq_None_iff)

lemma prepare_eq:
  assumes "distinct (map n_id (d_nodes d))"
  shows "prepare mc nid d s =
    s\<lparr>dr_states := mark_failed (filter (short (dr_states s)) (ready_nodes d s)) (dr_states s),
      dr_flight := dr_flight s @ map n_id (take (nat (mc - int (length (dr_flight s))))
        (filter (\<lambda>n. \<not> short (dr_states s) n) (ready_nodes d s))),
      dr_writes := dr_writes s @ map (short_write nid) (filter (short (dr_states s)) (ready_nodes d s))\<rparr>"
  using fail_short_eq [OF ready_props(1) [OF assms], of s "dr_states s"] ready_props(2) [OF assms]
  by (simp add: prepare_def launch_eq)

lemma mark_failed_extends:
  "\<forall>n \<in> set ns. map_of states (n_id n) = None \<Longrightarrow> dict_extends states (mark_failed ns states)"
  by (auto simp: dict_extends_def map_of_mark_failed)

lemma n_id_inj:
  "distinct (map n_id (d_nodes d)) \<Longrightarrow> n \<in> set (d_nodes d) \<Longrightarrow> m \<in> set (d_nodes d) \<Longrightarrow> n_id n = n_id m \<Longrightarrow> n = m"
  by (auto simp: distinct_map dest: inj_onD)

lemma short_mono: "dict_extends s s' \<Longrightarrow> \<not> short s n \<Longrightarrow> \<not> short s' n"
  using succeeded_mono [of s s' n] by (auto simp: short_def)

lemma run_inv_prepare:
  assumes ids: "distinct (map n_id (d_nodes d))" and inv: "run_inv mc d s"
  shows "run_inv mc d (prepare mc nid d s)" "length (dr_states s) \<le> length (dr_states (prepare mc nid d s))"
proof -
  let ?S = "dr_states s" and ?F = "dr_flight s"
  define fs where "fs = filter (short ?S) (ready_nodes d s)"
  define ls where "ls = take (nat (mc - int (length ?F))) (filter (\<lambda>n. \<not> short ?S n) (ready_nodes d s))"
  define p where "p = prepare mc nid d s"
  have p: "dr_states p = mark_failed fs ?S" "dr_flight p = ?F @ map n_id ls" "dr_results p = dr_results s"
    by (simp_all add: p_def prepare_eq [OF ids] fs_def ls_def)
  have rd: "n \<in> set (d_nodes d) \<and> map_of ?S (n_id n) = None \<and> n_id n \<notin> set ?F" if "n \<in> set (ready_nodes d s)" for n
    using that ready_props(2) [OF ids] by simp
  have fs: "distinct (map n_id fs)" "\<forall>n \<in> set fs. map_of ?S (n_id n) = None" "set fs \<subseteq> set (ready_nodes d s)"
    using ready_props [OF ids] by (auto simp: fs_def distinct_map_filter)
  have ls: "distinct (map n_id ls)" "set ls \<subseteq> set (ready_nodes d s)" "\<forall>n \<in> set ls. \<not> short ?S n"
    using ready_props(1) [OF ids, of s] set_take_subset
    by (auto simp: ls_def take_map [symmetric] distinct_map_filter dest: in_set_takeD)
  have disj: "n_id n \<notin> n_id ` set fs" if "n \<in> set ls" for n
  proof
    assume "n_id n \<in> n_id ` set fs"
    then obtain m where "m \<in> set fs" "n_id n = n_id m" by blast
    then have "n = m" using n_id_inj [OF ids] rd ls(2) fs(3) that by blast
    then show False using \<open>m \<in> set fs\<close> ls(3) that by (auto simp: fs_def)
  qed
  have ext: "dict_extends ?S (dr_states p)" unfolding p by (rule mark_failed_extends [OF fs(2)])
  note mf = mark_failed_fresh [OF fs(1,2)]
  have keys: "fst ` set (dr_states p) = fst ` set ?S \<union> n_id ` set fs"
  proof -
    have "i \<in> fst ` set (mark_failed fs ?S) \<longleftrightarrow> i \<in> fst ` set ?S \<or> i \<in> n_id ` set fs" for i
      using map_of_mark_failed [of fs ?S i] by (metis map_of_eq_None_iff option.distinct(1))
    then show ?thesis unfolding p by blast
  qed
  have "run_inv mc d p"
    unfolding run_inv_def
  proof (intro conjI ballI allI impI)
    show "distinct (map fst (dr_states p))" using mf inv by (simp add: p run_inv_def)
    show "distinct (dr_flight p)" using inv ls rd by (auto simp: p run_inv_def)
    show "fst ` set (dr_states p) \<union> set (dr_flight p) \<subseteq> n_id ` set (d_nodes d)"
      unfolding keys using inv fs(3) ls(2) rd by (auto simp: p run_inv_def)
    show "map_of (dr_states p) i = None" if i: "i \<in> set (dr_flight p)" for i
    proof -
      have "map_of ?S i = None" using i inv rd ls(2) by (auto simp: p run_inv_def)
      moreover have "i \<notin> n_id ` set fs"
      proof
        assume "i \<in> n_id ` set fs"
        then obtain m where m: "i = n_id m" "m \<in> set (ready_nodes d s)" using fs(3) by blast
        then have "i \<notin> set ?F" using rd by simp
        then obtain n where "n \<in> set ls" "i = n_id n" using i by (auto simp: p)
        then show False using disj \<open>i \<in> n_id ` set fs\<close> by simp
      qed
      ultimately show ?thesis by (simp add: p map_of_mark_failed)
    qed
    show "int (length (dr_flight p)) \<le> max 0 mc"
      using inv by (auto simp: p ls_def run_inv_def min_def)
    show "st \<in> {COMPLETED, FAILED, SKIPPED}" if "map_of (dr_states p) i = Some st" for i st
      using that inv by (auto simp: p map_of_mark_failed run_inv_def split: if_splits)
    show "map_of (dr_states p) i = Some COMPLETED" if "map_of (dr_results p) i = Some v" for i v
    proof -
      have "map_of ?S i = Some COMPLETED" using that inv unfolding p(3) run_inv_def by blast
      then show ?thesis using ext unfolding dict_extends_def by blast
    qed
    show "\<not> short (dr_states p) n"
      if n: "n \<in> set (d_nodes d)" "n_id n \<in> set (dr_flight p) \<or> map_of (dr_states p) (n_id n) \<in> {Some COMPLETED, Some SKIPPED}" for n
    proof (rule short_mono [OF ext])
      have "n_id n \<in> set ?F \<or> n \<in> set ls \<or> map_of ?S (n_id n) \<in> {Some COMPLETED, Some SKIPPED}"
        using n n_id_inj [OF ids n(1)] rd ls(2) by (auto simp: p map_of_mark_failed split: if_splits)
      then show "\<not> short ?S n" using inv n(1) ls(3) by (auto simp: run_inv_def)
    qed
  qed
  then show "run_inv mc d (prepare mc nid d s)" by (simp add: p_def)
  show "length (dr_states s) \<le> length (dr_states (prepare mc nid d s))" using mf p(1) by (simp add: p_def)
qed

lemma run_inv_complete:
  assumes inv: "run_inv mc d p" and f: "finished \<in> set (dr_flight p)" and oc: "oc_state oc \<in> {COMPLETED, FAILED, SKIPPED}"
  shows "run_inv mc d (complete finished oc p)" "length (dr_states (complete finished oc p)) = Suc (length (dr_states p))"
proof -
  let ?S = "dr_states p" and ?S' = "dict_set finished (oc_state oc) (dr_states p)"
  have new: "map_of ?S finished = None" using inv f by (simp add: run_inv_def)
  have ext: "dict_extends ?S ?S'" by (rule dict_extends_set [OF new])
  have ns: "\<not> short ?S' n" if "n \<in> set (d_nodes d)"
      "n_id n \<in> set (dr_flight p) \<or> map_of ?S (n_id n) \<in> {Some COMPLETED, Some SKIPPED}" for n
    using inv that by (intro short_mono [OF ext]) (auto simp: run_inv_def)
  have flight: "set (remove1 finished (dr_flight p)) = set (dr_flight p) - {finished}"
    using inv by (simp add: run_inv_def)
  show "run_inv mc d (complete finished oc p)"
    unfolding run_inv_def complete_def
    using inv f oc new ns flight length_remove1 [of finished "dr_flight p"]
    by (auto simp: run_inv_def distinct_dict_set keys_dict_set split: if_splits)
  show "length (dr_states (complete finished oc p)) = Suc (length (dr_states p))"
    using length_dict_set_new [OF new] by (simp add: complete_def)
qed

lemma note_writes_simps [simp]:
  "dr_states (note_writes ws p) = dr_states p" "dr_flight (note_writes ws p) = dr_flight p"
  "dr_results (note_writes ws p) = dr_results p" "run_inv mc d (note_writes ws p) = run_inv mc d p"
  "note_writes us (note_writes ws p) = note_writes (ws @ us) p"
  by (simp_all add: note_writes_def run_inv_def)

inductive_cases dag_step_cases: "dag_step mc nid d s s'"

lemma run_inv_empty: "run_inv mc d empty_run"
  by (simp add: run_inv_def empty_run_def)

lemma after_completion_Again:
  "after_completion d finished oc p = Again s' \<Longrightarrow> s' = complete finished oc p"
  by (auto simp: after_completion_def Let_def split: if_splits sum.splits bool.splits)

lemma dag_step_inv:
  assumes "distinct (map n_id (d_nodes d))" "run_inv mc d s" "dag_step mc nid d s s'"
  shows "run_inv mc d s'" "length (dr_states s) < length (dr_states s')"
proof -
  from assms(3) obtain finished oc ws where f: "finished \<in> set (dr_flight (prepare mc nid d s))"
      and oc: "oc_state oc \<in> {COMPLETED, FAILED, SKIPPED}"
      and a: "after_completion d finished oc (note_writes ws (prepare mc nid d s)) = Again s'"
    by (rule dag_step_cases) blast
  note p = run_inv_prepare [OF assms(1,2), of nid]
  let ?p = "note_writes ws (prepare mc nid d s)"
  have s': "s' = complete finished oc ?p" by (rule after_completion_Again [OF a])
  have q: "run_inv mc d ?p" "finished \<in> set (dr_flight ?p)" using p(1) f by simp_all
  show "run_inv mc d s'" unfolding s' by (rule run_inv_complete(1) [OF q oc])
  show "length (dr_states s) < length (dr_states s')"
    using run_inv_complete(2) [OF q oc] p(2) by (simp add: s')
qed

lemma reachable_inv:
  assumes "distinct (map n_id (d_nodes d))" "reachable mc nid d s"
  shows "run_inv mc d s"
  using assms(2) by induction (simp_all add: run_inv_empty dag_step_inv(1) [OF assms(1)])

lemma run_inv_length:
  assumes "run_inv mc d s"
  shows "length (dr_states s) \<le> length (d_nodes d)"
proof -
  have "length (dr_states s) = card (fst ` set (dr_states s))"
    using assms distinct_card [of "map fst (dr_states s)"] by (simp add: run_inv_def)
  also have "\<dots> \<le> card (n_id ` set (d_nodes d))"
    using assms by (intro card_mono) (auto simp: run_inv_def)
  also have "\<dots> \<le> length (d_nodes d)"
    by (metis card_image_le card_length finite_set le_trans)
  finally show ?thesis .
qed

lemma steps_count:
  assumes "distinct (map n_id (d_nodes d))" "run_inv mc d s" "(dag_step mc nid d ^^ k) s s'"
  shows "run_inv mc d s' \<and> length (dr_states s) + k \<le> length (dr_states s')"
  using assms(3)
proof (induction k arbitrary: s')
  case (Suc k)
  then obtain r where "(dag_step mc nid d ^^ k) s r" and r: "dag_step mc nid d r s'" by auto
  then have "run_inv mc d r" "length (dr_states s) + k \<le> length (dr_states r)" using Suc.IH by auto
  then show ?case using dag_step_inv [OF assms(1) _ r] by auto
qed (simp add: assms(2))

subsection \<open>Progress\<close>

definition input_rel :: "dag \<Rightarrow> (string \<times> string) set" where
  "input_rel d = {(u, n_id n) | u n. n \<in> set (d_nodes d) \<and> u \<in> set (n_input_from n)}"

lemma finite_input_rel: "finite (input_rel d)"
proof -
  have "input_rel d = (\<Union>n \<in> set (d_nodes d). (\<lambda>u. (u, n_id n)) ` set (n_input_from n))"
    by (auto simp: input_rel_def)
  then show ?thesis by simp
qed

lemma loop_left_full:
  "distinct (map n_id (d_nodes d)) \<Longrightarrow> run_inv mc d s \<Longrightarrow> \<not> loop_continues d s \<Longrightarrow> n \<in> set (d_nodes d) \<Longrightarrow>
     map_of (dr_states s) (n_id n) \<noteq> None"
proof -
  assume ids: "distinct (map n_id (d_nodes d))" and inv: "run_inv mc d s" and l: "\<not> loop_continues d s"
    and n: "n \<in> set (d_nodes d)"
  have sub: "fst ` set (dr_states s) \<subseteq> n_id ` set (d_nodes d)" using inv by (simp add: run_inv_def)
  have "card (n_id ` set (d_nodes d)) = length (d_nodes d)"
    using distinct_card [OF ids] by simp
  moreover have "card (fst ` set (dr_states s)) = length (dr_states s)"
    using inv distinct_card [of "map fst (dr_states s)"] by (simp add: run_inv_def)
  moreover have "length (d_nodes d) \<le> length (dr_states s)" using l by (simp add: loop_continues_def all_nodes_eq [OF ids])
  ultimately have "fst ` set (dr_states s) = n_id ` set (d_nodes d)"
    using card_seteq [OF _ sub] by simp
  then show ?thesis using n by (metis imageI map_of_eq_None_iff)
qed

text \<open>
  When the loop has nothing in flight after preparing, a node without a state whose inputs have all
  succeeded would have been launched or failed.
\<close>

lemma stuck_node_blocked:
  assumes ids: "distinct (map n_id (d_nodes d))" and inv: "run_inv mc d s" and mc: "1 \<le> mc"
    and empty: "dr_flight (prepare mc nid d s) = []" and n: "n \<in> set (d_nodes d)"
    and none: "map_of (dr_states (prepare mc nid d s)) (n_id n) = None"
  shows "\<exists>u \<in> set (n_input_from n). map_of (dr_states s) u \<notin> {Some COMPLETED, Some SKIPPED}"
proof (rule ccontr)
  assume "\<not> ?thesis"
  then have all: "\<forall>u \<in> set (n_input_from n). map_of (dr_states s) u = Some COMPLETED \<or> map_of (dr_states s) u = Some SKIPPED"
    by auto
  let ?S = "dr_states s"
  have fl: "dr_flight s = []" and tk: "take (nat mc) (filter (\<lambda>n. \<not> short ?S n) (ready_nodes d s)) = []"
    using empty by (auto simp: prepare_eq [OF ids])
  have sn: "map_of ?S (n_id n) = None"
    using none by (auto simp: prepare_eq [OF ids] map_of_mark_failed split: if_splits)
  have "succeeded ?S n = int (length (n_input_from n))" using all by (simp add: succeeded_def filter_id_conv)
  moreover have "failed_inputs ?S n \<ge> 0" by (simp add: failed_inputs_def)
  ultimately have "are_deps_done n ?S" by (auto simp: are_deps_done_def Let_def)
  then have rd: "n \<in> set (ready_nodes d s)" using ready_props(2) [OF ids] n sn fl by simp
  have "filter (\<lambda>n. \<not> short ?S n) (ready_nodes d s) = []"
    using tk mc by (cases "filter (\<lambda>n. \<not> short ?S n) (ready_nodes d s)") (auto simp: take_Cons')
  then have "short ?S n" using rd by (auto simp: filter_empty_conv)
  then show False
    using none rd by (auto simp: prepare_eq [OF ids] map_of_mark_failed split: if_splits)
qed

lemma progress_lemma:
  assumes ids: "distinct (map n_id (d_nodes d))" and inv: "run_inv mc d s" and mc: "1 \<le> mc"
    and left: "loop_left mc nid d s = Some f"
    and known: "\<forall>n \<in> set (d_nodes d). set (n_input_from n) \<subseteq> n_id ` set (d_nodes d)"
    and ac: "acyclic (input_rel d)" and ok: "\<forall>i. map_of (dr_states f) i \<noteq> Some FAILED"
    and n: "n \<in> set (d_nodes d)"
  shows "map_of (dr_states f) (n_id n) \<in> {Some COMPLETED, Some SKIPPED}"
proof (cases "loop_continues d s")
  case False
  then have "f = s" using left by (simp add: loop_left_def)
  obtain st where "map_of (dr_states s) (n_id n) = Some st" using loop_left_full [OF ids inv False n] by blast
  then show ?thesis using inv ok \<open>f = s\<close> unfolding run_inv_def by blast
next
  case True
  then have f: "f = prepare mc nid d s" and e: "dr_flight (prepare mc nid d s) = []"
    using left by (auto simp: loop_left_def split: if_splits)
  have invf: "run_inv mc d f" unfolding f by (rule run_inv_prepare(1) [OF ids inv])
  have good: "map_of (dr_states f) i \<in> {Some COMPLETED, Some SKIPPED}" if "map_of (dr_states f) i \<noteq> None" for i
    using that invf ok unfolding run_inv_def by blast
  have "wf (input_rel d)" by (rule finite_acyclic_wf [OF finite_input_rel ac])
  then have "n_id m = i \<longrightarrow> m \<in> set (d_nodes d) \<longrightarrow> map_of (dr_states f) i \<noteq> None" for i m
  proof (induction i arbitrary: m rule: wf_induct_rule)
    case (less i)
    show ?case
    proof (intro impI)
      assume m: "n_id m = i" "m \<in> set (d_nodes d)"
      show "map_of (dr_states f) i \<noteq> None"
      proof
        assume "map_of (dr_states f) i = None"
        then obtain u where u: "u \<in> set (n_input_from m)" "map_of (dr_states s) u \<notin> {Some COMPLETED, Some SKIPPED}"
          using stuck_node_blocked [OF ids inv mc e m(2)] m(1) by (auto simp: f)
        obtain k where k: "k \<in> set (d_nodes d)" "n_id k = u" using known m(2) u(1) by blast
        have "(u, i) \<in> input_rel d" using m u(1) by (auto simp: input_rel_def)
        then have "map_of (dr_states f) u \<noteq> None" using less k by blast
        then have "map_of (dr_states f) u \<in> {Some COMPLETED, Some SKIPPED}" by (rule good)
        then show False
          using u(2) by (auto simp: f prepare_eq [OF ids] map_of_mark_failed split: if_splits)
      qed
    qed
  qed
  then show ?thesis using good n by blast
qed

subsection \<open>The executed loop is a run of the step relation\<close>

fun event_ok :: "dag_event \<Rightarrow> bool" where
  "event_ok (NodeDone i (Inr oc)) = (oc_state oc \<in> {COMPLETED, FAILED, SKIPPED})"
| "event_ok _ = True"

lemma enter_cases:
  "enter mc nid d c s = Inl (LoopLeft f) \<Longrightarrow> loop_left mc nid d s = Some f"
  "enter mc nid d c s = Inr q \<Longrightarrow> loop_continues d s \<and> q = prepare mc nid d s"
  "enter mc nid d c s \<noteq> Inl (Aborted i f)"
  by (auto simp: enter_def loop_left_def split: if_splits)

lemma dag_wait_run:
  "reachable mc nid d s \<Longrightarrow> loop_continues d s \<Longrightarrow> \<forall>e \<in> set events. event_ok e \<Longrightarrow>
   dag_wait mc nid d c (note_writes ws (prepare mc nid d s)) events = LoopLeft f \<Longrightarrow>
   \<exists>s'. reachable mc nid d s' \<and> loop_left mc nid d s' = Some f"
proof (induction events arbitrary: s c ws)
  case (Cons ev events)
  let ?p = "note_writes ws (prepare mc nid d s)"
  show ?case
  proof (cases ev)
    case (NodeWrote w)
    then have "dag_wait mc nid d c (note_writes (ws @ [SubtaskWrite w]) (prepare mc nid d s)) events = LoopLeft f"
      using Cons.prems(4) by (simp split: if_splits)
    then show ?thesis using Cons.IH Cons.prems(1-3) by simp
  next
    case CancelSet
    then have "dag_wait mc nid d True (note_writes (ws @ [StateWrite CANCELLED]) (prepare mc nid d s)) events = LoopLeft f"
      using Cons.prems(4) by simp
    then show ?thesis using Cons.IH Cons.prems(1-3) by simp
  next
    case (NodeDone j r)
    then obtain oc s' where j: "j \<in> set (dr_flight (prepare mc nid d s))" and r: "r = Inr oc"
        and a: "after_completion d j oc ?p = Again s'"
      using Cons.prems(4) by (auto split: if_splits sum.splits next_iter.splits)
    have r': "reachable mc nid d s'"
      using Cons.prems(1-3) j a r NodeDone by (intro reachable.step [OF Cons.prems(1)] iteration [OF Cons.prems(2) j _ a]) simp
    have e: "(case enter mc nid d c s' of Inl x \<Rightarrow> x | Inr q \<Rightarrow> dag_wait mc nid d c q events) = LoopLeft f"
      using Cons.prems(4) NodeDone j r a by simp
    show ?thesis
    proof (cases "enter mc nid d c s'")
      case (Inl x)
      then show ?thesis using e enter_cases(1) r' by auto
    next
      case (Inr q)
      have "note_writes [] q = q" by (simp add: note_writes_def)
      then show ?thesis using Cons.IH [OF r', of c "[]"] enter_cases(2) [OF Inr] Cons.prems(3) e Inr by simp
    qed
  qed
qed simp

lemma run_loop_left:
  assumes "\<forall>e \<in> set events. event_ok e" "run_loop mc nid d events = LoopLeft f"
  shows "\<exists>s. reachable mc nid d s \<and> loop_left mc nid d s = Some f"
proof (cases "enter mc nid d False empty_run")
  case (Inl x)
  then show ?thesis
    using assms(2) enter_cases(1) [of mc nid d False empty_run f] reachable.start [of mc nid d] by (auto simp: run_loop_def)
next
  case (Inr p)
  have "note_writes [] p = p" by (simp add: note_writes_def)
  then show ?thesis
    using assms enter_cases(2) [OF Inr] dag_wait_run [OF reachable.start, of d events mc nid False "[]" f] Inr
    by (simp add: run_loop_def)
qed

subsection \<open>While the loop waits\<close>

text \<open>A node that could be launched is left behind only when the limit is reached.\<close>

definition launched_all :: "int \<Rightarrow> dag \<Rightarrow> dag_run \<Rightarrow> bool" where
  "launched_all mc d p \<longleftrightarrow>
     (\<forall>n \<in> set (d_nodes d). map_of (dr_states p) (n_id n) = None \<and> n_id n \<notin> set (dr_flight p) \<and> \<not> short (dr_states p) n \<longrightarrow>
        mc \<le> int (length (dr_flight p)))"

lemma launched_all_note [simp]: "launched_all mc d (note_writes ws p) = launched_all mc d p"
  by (simp add: launched_all_def)

lemma prepare_launches:
  assumes ids: "distinct (map n_id (d_nodes d))"
  shows "launched_all mc d (prepare mc nid d s)"
  unfolding launched_all_def
proof (intro ballI impI, elim conjE)
  let ?S = "dr_states s" and ?F = "dr_flight s" and ?p = "prepare mc nid d s"
  let ?fs = "filter (short ?S) (ready_nodes d s)" and ?ls = "filter (\<lambda>n. \<not> short ?S n) (ready_nodes d s)"
  fix n assume n: "n \<in> set (d_nodes d)" and st: "map_of (dr_states ?p) (n_id n) = None" and fl: "n_id n \<notin> set (dr_flight ?p)"
    and ns: "\<not> short (dr_states ?p) n"
  have p: "dr_states ?p = mark_failed ?fs ?S" "dr_flight ?p = ?F @ map n_id (take (nat (mc - int (length ?F))) ?ls)"
    by (simp_all add: prepare_eq [OF ids])
  have none: "map_of ?S (n_id n) = None" "n_id n \<notin> set ?F"
    using st fl by (auto simp: p map_of_mark_failed split: if_splits)
  have "distinct (map n_id ?fs)" using ready_props(1) [OF ids, of s] by (rule distinct_map_filter)
  moreover have "\<forall>m \<in> set ?fs. map_of ?S (n_id m) = None" using ready_props(2) [OF ids] by simp
  ultimately have "succeeded (dr_states ?p) n = succeeded ?S n" unfolding p(1) using mark_failed_fresh by blast
  then have ok: "\<not> short ?S n" using ns by (simp add: short_def)
  then have "are_deps_done n ?S" by (auto simp: short_def are_deps_done_def Let_def)
  then have "n \<in> set ?ls" using ready_props(2) [OF ids] n none ok by simp
  moreover have "n \<notin> set (take (nat (mc - int (length ?F))) ?ls)" using fl by (auto simp: p(2))
  ultimately have "nat (mc - int (length ?F)) < length ?ls" by (metis leI take_all_iff)
  then show "mc \<le> int (length (dr_flight ?p))" by (simp add: p(2))
qed

lemma enter_inv:
  assumes "distinct (map n_id (d_nodes d))" "run_inv mc d s"
  shows "enter mc nid d c s = Inl x \<Longrightarrow> run_inv mc d (loop_run x)" "enter mc nid d c s = Inl x \<Longrightarrow> x \<noteq> Waiting q"
    "enter mc nid d c s = Inr p \<Longrightarrow> run_inv mc d p \<and> launched_all mc d p"
  using assms run_inv_prepare(1) [OF assms] prepare_launches [OF assms(1)] by (auto simp: enter_def split: if_splits)

lemma after_completion_cases:
  assumes "run_inv mc d p" "finished \<in> set (dr_flight p)" "oc_state oc \<in> {COMPLETED, FAILED, SKIPPED}"
  shows "after_completion d finished oc p = Again s \<Longrightarrow> run_inv mc d s" "after_completion d finished oc p = Abort i s \<Longrightarrow> run_inv mc d s"
  using run_inv_complete(1) [OF assms] by (auto simp: after_completion_def Let_def split: if_splits sum.splits bool.splits)

lemma dag_wait_inv:
  assumes ids: "distinct (map n_id (d_nodes d))"
  shows "run_inv mc d p \<Longrightarrow> launched_all mc d p \<Longrightarrow> \<forall>e \<in> set events. event_ok e \<Longrightarrow>
    run_inv mc d (loop_run (dag_wait mc nid d c p events))
    \<and> (\<forall>q. dag_wait mc nid d c p events = Waiting q \<longrightarrow> launched_all mc d q)"
proof (induction events arbitrary: p c)
  case (Cons ev events)
  show ?case
  proof (cases ev)
    case (NodeDone j r)
    show ?thesis
    proof (cases "j \<in> set (dr_flight p)")
      case True
      show ?thesis
      proof (cases r)
        case (Inr oc)
        then have oc: "oc_state oc \<in> {COMPLETED, FAILED, SKIPPED}" using Cons.prems(3) NodeDone by simp
        note ac = after_completion_cases [OF Cons.prems(1) True oc]
        show ?thesis
        proof (cases "after_completion d j oc p")
          case (Again s)
          note e = enter_inv [OF ids ac(1) [OF Again]]
          show ?thesis
          proof (cases "enter mc nid d c s")
            case (Inl x)
            then show ?thesis using NodeDone True \<open>r = Inr oc\<close> Again e(1,2) by auto
          next
            case q: (Inr q)
            then show ?thesis using Cons.IH [of q c] e(3) [OF q] Cons.prems(3) NodeDone True \<open>r = Inr oc\<close> Again by simp
          qed
        qed (use NodeDone True Inr ac(2) Cons.prems in auto)
      qed (use NodeDone True Cons.prems in simp)
    qed (use NodeDone Cons.prems in simp)
  next
    case (NodeWrote w)
    then show ?thesis using Cons.IH [of "note_writes [SubtaskWrite w] p" c] Cons.prems by simp
  next
    case CancelSet
    then show ?thesis using Cons.IH [of "note_writes [StateWrite CANCELLED] p" True] Cons.prems by simp
  qed
qed simp

lemma run_loop_inv:
  assumes "distinct (map n_id (d_nodes d))" "\<forall>e \<in> set events. event_ok e"
  shows "run_inv mc d (loop_run (run_loop mc nid d events))
    \<and> (\<forall>q. run_loop mc nid d events = Waiting q \<longrightarrow> launched_all mc d q)"
proof (cases "enter mc nid d False empty_run")
  case (Inl x)
  then show ?thesis using enter_inv(1,2) [OF assms(1) run_inv_empty] by (auto simp: run_loop_def)
next
  case (Inr p)
  then show ?thesis
    using dag_wait_inv [OF assms(1) _ _ assms(2), of mc p nid False] enter_inv(3) [OF assms(1) run_inv_empty Inr] by (simp add: run_loop_def)
qed

subsection \<open>Compensation\<close>

lemma precedes_rev: "precedes s u v \<Longrightarrow> precedes (rev s) v u"
proof -
  assume "precedes s u v"
  then obtain as bs cs where "s = as @ u # bs @ v # cs" by (auto simp: precedes_def)
  then have "rev s = rev cs @ v # rev bs @ u # rev as" by simp
  then show ?thesis unfolding precedes_def by blast
qed

lemma precedes_filter: "precedes s u v \<Longrightarrow> P u \<Longrightarrow> P v \<Longrightarrow> precedes (filter P s) u v"
proof -
  assume "precedes s u v" and P: "P u" "P v"
  then obtain as bs cs where "s = as @ u # bs @ v # cs" by (auto simp: precedes_def)
  then have "filter P s = filter P as @ u # filter P bs @ v # filter P cs" using P by simp
  then show ?thesis unfolding precedes_def by blast
qed

lemma completed_reversed_ids:
  assumes "distinct (map n_id (d_nodes d))"
  shows "map n_id (completed_reversed d order states)
    = filter (\<lambda>i. map_of states i = Some COMPLETED \<and> i \<in> n_id ` set (d_nodes d)) (rev order)"
proof -
  have keys: "fst ` set (all_nodes d) = n_id ` set (d_nodes d)" by (simp add: all_nodes_eq [OF assms] image_image)
  have "n_id (the (map_of (all_nodes d) i)) = i" if i: "i \<in> n_id ` set (d_nodes d)" for i
  proof -
    obtain n where "map_of (all_nodes d) i = Some n" using i keys by (metis map_of_eq_None_iff not_None_eq)
    moreover from this have "(i, n) \<in> set (all_nodes d)" by (rule map_of_SomeD)
    ultimately show ?thesis by (auto simp: all_nodes_eq [OF assms])
  qed
  then show ?thesis
    unfolding completed_reversed_def keys by (auto simp: comp_def intro: map_idI)
qed

lemma compensate_loop_counts:
  "compensate_loop vsn t env results ns ok ids = Inr (ok', ids') \<Longrightarrow>
     ok' + length ids' = ok + length ids + length ns \<and> set ids' \<subseteq> set ids \<union> n_id ` set ns"
proof (induction ns arbitrary: ok ids)
  case (Cons n ns)
  obtain sid key e where env: "env (n_id n) = (sid, key, e)" by (metis prod_cases3)
  obtain oc where oc: "execute_node_once vsn t (compensation_node n) sid key (e\<lparr>ae_context := results\<rparr>) = Inr oc"
      and r: "(if oc_state oc = COMPLETED then compensate_loop vsn t env results ns (Suc ok) ids
         else compensate_loop vsn t env results ns ok (ids @ [n_id n])) = Inr (ok', ids')"
    using Cons.prems by (auto simp: env res_simps)
  show ?case
  proof (cases "oc_state oc = COMPLETED")
    case True
    then show ?thesis using r Cons.IH [of "Suc ok" ids] by auto
  next
    case False
    then show ?thesis using r Cons.IH [of ok "ids @ [n_id n]"] by auto
  qed
qed simp

subsection \<open>The store over a task\<close>

lemma update_state_get [simp]:
  "dict_get (store_update_state i st s) j =
     (if j = i then map_option (\<lambda>r. r\<lparr>rec_state := st\<rparr>) (dict_get s i) else dict_get s j)"
  by (cases "dict_get s i") (auto simp: store_update_state_def)

lemma write_states_get:
  "dict_get (write_states i sts s) j =
     (if j = i then map_option (\<lambda>r. foldl (\<lambda>r st. r\<lparr>rec_state := st\<rparr>) r sts) (dict_get s i) else dict_get s j)"
proof (induction sts arbitrary: s)
  case (Cons st sts)
  have "write_states i (st # sts) s = write_states i sts (store_update_state i st s)" by (simp add: write_states_def)
  then show ?case using Cons by (auto simp: option.map_comp comp_def)
qed (simp add: write_states_def option.map_id0 [unfolded id_def])

lemma write_one_get:
  "j \<noteq> i \<Longrightarrow> dict_get (write_one i s w) j = dict_get s j"
  "dict_get s i = Some r \<Longrightarrow> \<exists>r'. dict_get (write_one i s w) i = Some r'"
  by (cases w; auto simp: store_update_subtask_def Let_def split: option.splits)+

lemma write_all_get:
  "j \<noteq> i \<Longrightarrow> dict_get (write_all i ws s) j = dict_get s j"
  "dict_get s i = Some r \<Longrightarrow> \<exists>r'. dict_get (write_all i ws s) i = Some r'"
proof (induction ws arbitrary: s r)
  case (Cons w ws)
  { case 1
    then show ?case using Cons.IH(1) by (simp add: write_all_def write_one_get(1))
  next
    case 2
    then obtain r' where "dict_get (write_one i s w) i = Some r'" using write_one_get(2) by blast
    then show ?case using Cons.IH(2) by (simp add: write_all_def)
  }
qed (simp_all add: write_all_def)

subsection \<open>A failing first node\<close>










section \<open>Properties\<close>

text \<open>
  C1: The scheduler is safe at every moment. Take the loop after any sequence of events, so while it waits, after it was
  left, aborted or interrupted: never more than \<open>max_concurrent_nodes\<close> nodes are in flight, a node is never in flight and
  finished at once nor in flight twice, every finished node is completed, failed or skipped, a node is dispatched (and so
  completes or is skipped) only if it has no inputs or at least K of them completed or were skipped, and only completed
  nodes have results. And it does not idle: while it waits, a node that could run and is not in flight is held back only
  because \<open>max_concurrent_nodes\<close> others are.
\<close>

theorem scheduler_safe:
  assumes "distinct (map n_id (d_nodes d))" "\<forall>e \<in> set events. event_ok e" "s = loop_run (run_loop mc nid d events)"
  shows "int (length (dr_flight s)) \<le> max 0 mc \<and> distinct (dr_flight s)
    \<and> (\<forall>i \<in> set (dr_flight s). map_of (dr_states s) i = None)
    \<and> (\<forall>i st. map_of (dr_states s) i = Some st \<longrightarrow> st \<in> {COMPLETED, FAILED, SKIPPED})
    \<and> (\<forall>n \<in> set (d_nodes d).
         n_id n \<in> set (dr_flight s) \<or> map_of (dr_states s) (n_id n) \<in> {Some COMPLETED, Some SKIPPED} \<longrightarrow>
         n_input_from n = [] \<or> succeeded (dr_states s) n \<ge> required n)
    \<and> (\<forall>i v. map_of (dr_results s) i = Some v \<longrightarrow> map_of (dr_states s) i = Some COMPLETED)
    \<and> (run_loop mc nid d events = Waiting s \<longrightarrow>
         (\<forall>n \<in> set (d_nodes d). map_of (dr_states s) (n_id n) = None \<and> n_id n \<notin> set (dr_flight s)
            \<and> (n_input_from n = [] \<or> succeeded (dr_states s) n \<ge> required n) \<longrightarrow> mc \<le> int (length (dr_flight s))))"
proof -
  note inv = run_loop_inv [OF assms(1,2), of mc nid]
  have "run_inv mc d s" using inv assms(3) by simp
  moreover have "run_loop mc nid d events = Waiting s \<longrightarrow> launched_all mc d s" using inv by blast
  ultimately show ?thesis unfolding run_inv_def launched_all_def short_def by (meson not_le)
qed

definition ok_outcome :: "int \<Rightarrow> outcome" where
  "ok_outcome v = \<lparr>oc_state = COMPLETED, oc_result = PDict [(''v'', PInt v)], oc_error_code = PNone\<rparr>"

definition ex_ids :: "string \<Rightarrow> string" where
  "ex_ids i = i @ ''-1''"

definition ex_after_a :: dag_run where
  "ex_after_a = complete ''a'' (ok_outcome 1) (prepare 2 ex_ids ex_diamond empty_run)"

lemma ex_first_step: "dag_step 2 ex_ids ex_diamond empty_run ex_after_a"
proof (rule iteration)
  show "loop_continues ex_diamond empty_run" by code_simp
  show "''a'' \<in> set (dr_flight (prepare 2 ex_ids ex_diamond empty_run))" by code_simp
  show "oc_state (ok_outcome 1) \<in> {COMPLETED, FAILED, SKIPPED}" by code_simp
  show "after_completion ex_diamond ''a'' (ok_outcome 1) (note_writes [] (prepare 2 ex_ids ex_diamond empty_run)) = Again ex_after_a"
    by code_simp
qed

theorem scheduler_safe_witness:
  "\<exists>p. run_loop 2 ex_ids ex_diamond [NodeDone ''a'' (Inr (ok_outcome 1))] = Waiting p \<and> dr_flight p = [''b'', ''c'']
     \<and> int (length (dr_flight p)) \<le> max 0 2 \<and> dr_states p = [(''a'', COMPLETED)]"
proof -
  let ?p = "prepare 2 ex_ids ex_diamond ex_after_a"
  have run: "run_loop 2 ex_ids ex_diamond [NodeDone ''a'' (Inr (ok_outcome 1))] = Waiting ?p" by code_simp
  have "distinct (map n_id (d_nodes ex_diamond))" "\<forall>e \<in> set [NodeDone ''a'' (Inr (ok_outcome 1))]. event_ok e" by code_simp+
  from scheduler_safe [OF this refl, of 2 ex_ids] have "int (length (dr_flight ?p)) \<le> max 0 2" unfolding run loop_run.simps by blast
  moreover have "dr_flight ?p = [''b'', ''c'']" "dr_states ?p = [(''a'', COMPLETED)]" by code_simp+
  ultimately show ?thesis using run by blast
qed

text \<open>
  C2: The scheduling loop ends: whatever the order and the outcomes of the completions, it runs at
  most one iteration per node of the graph.
\<close>

theorem scheduler_terminates:
  assumes "distinct (map n_id (d_nodes d))" "(dag_step mc nid d ^^ k) empty_run s"
  shows "k \<le> length (d_nodes d)"
proof -
  note c = steps_count [OF assms(1) run_inv_empty assms(2)]
  have "length (dr_states s) \<le> length (d_nodes d)" by (rule run_inv_length [OF conjunct1 [OF c]])
  then show ?thesis using c by simp
qed

theorem scheduler_terminates_witness: "(1 :: nat) \<le> length (d_nodes ex_diamond)"
proof -
  have "(dag_step 2 ex_ids ex_diamond ^^ 1) empty_run ex_after_a" using ex_first_step by (simp add: eq_OO)
  moreover have "distinct (map n_id (d_nodes ex_diamond))" by code_simp
  ultimately show ?thesis using scheduler_terminates by blast
qed

text \<open>
  C3: Without failures nothing is left behind. If the inputs of the nodes are known and have no
  cycle and at least one node may run at a time, then a loop that ends on a run in which no node
  failed has completed or skipped every node of the graph.
\<close>

theorem scheduler_progress:
  assumes "distinct (map n_id (d_nodes d))" "1 \<le> mc"
    and "\<forall>n \<in> set (d_nodes d). set (n_input_from n) \<subseteq> n_id ` set (d_nodes d)" "acyclic (input_rel d)"
    and "\<forall>e \<in> set events. event_ok e" "run_loop mc nid d events = LoopLeft f"
    and "\<forall>i. map_of (dr_states f) i \<noteq> Some FAILED" "n \<in> set (d_nodes d)"
  shows "map_of (dr_states f) (n_id n) \<in> {Some COMPLETED, Some SKIPPED}"
proof -
  obtain s where "reachable mc nid d s" "loop_left mc nid d s = Some f" using run_loop_left [OF assms(5,6)] by blast
  then show ?thesis
    using progress_lemma [OF assms(1) reachable_inv [OF assms(1)] assms(2) _ assms(3,4,7,8)] by blast
qed

definition ex_pair :: dag where
  "ex_pair = \<lparr>d_nodes = [ex_node ''a'' [], ex_node ''b'' [''a'']], d_edges = [ex_edge ''a'' ''b'']\<rparr>"

definition ex_pair_events :: "dag_event list" where
  "ex_pair_events = [NodeDone ''a'' (Inr (ok_outcome 1)), NodeDone ''b'' (Inr (ok_outcome 2))]"

definition ex_pair_end :: dag_run where
  "ex_pair_end = \<lparr>dr_states = [(''a'', COMPLETED), (''b'', COMPLETED)],
     dr_results = [(''a'', PDict [(''v'', PInt 1)]), (''b'', PDict [(''v'', PInt 2)])], dr_flight = [], dr_writes = []\<rparr>"

theorem scheduler_progress_witness:
  "run_loop 4 ex_ids ex_pair ex_pair_events = LoopLeft ex_pair_end
   \<and> map_of (dr_states ex_pair_end) ''b'' \<in> {Some COMPLETED, Some SKIPPED}"
proof -
  have run: "run_loop 4 ex_ids ex_pair ex_pair_events = LoopLeft ex_pair_end" by code_simp
  have "input_rel ex_pair \<subseteq> measure (\<lambda>i. if i = ''a'' then 0 else 1)"
    by (auto simp: input_rel_def ex_pair_def ex_node_def)
  then have ac: "acyclic (input_rel ex_pair)" by (intro wf_acyclic wf_subset [OF wf_measure])
  have nf: "\<forall>i. map_of (dr_states ex_pair_end) i \<noteq> Some FAILED"
    by (simp add: ex_pair_end_def)
  have n: "ex_node ''b'' [''a''] \<in> set (d_nodes ex_pair)" by (simp add: ex_pair_def)
  have "map_of (dr_states ex_pair_end) (n_id (ex_node ''b'' [''a''])) \<in> {Some COMPLETED, Some SKIPPED}"
    by (rule scheduler_progress [OF _ _ _ ac _ run nf n]) code_simp+
  then show ?thesis using run by (simp add: ex_node_def)
qed

text \<open>
  The abort test asks the right question: \<open>_can_reach_end_node\<close> answers yes exactly when the edges
  lead from the failed node to the end node, also in graphs with cycles, and it always returns.
\<close>

theorem can_reach_is_reachability:
  "can_reach_end_node end_id failed_id edges \<longleftrightarrow> (failed_id, end_id) \<in> (edge_rel edges)\<^sup>*"
  unfolding can_reach_end_node_def using bfs_reaches [of end_id "[]" edges "[failed_id]"] by simp


definition ex_opts :: orchestrator_options where
  "ex_opts = \<lparr>oo_max_concurrent_nodes = 16, oo_validate_sender_nid = True, oo_default_aggregate_strategy = ''merge''\<rparr>"

definition no_env :: "string \<Rightarrow> string \<times> string \<times> attempt_env" where
  "no_env i = (i, i, ex_env (\<lambda>k. \<lparr>wr_frames = [], wr_end = StreamEnds\<rparr>) 1)"




text \<open>
  Compensation undoes consumers before producers. With the order the validator returned, the
  completed nodes are compensated so that for every edge between two of them the target comes before
  the source.
\<close>

theorem saga_reverse_order:
  assumes "set ids = n_id ` set (d_nodes d)" "distinct ids" "validate ids d = Inr (DagSuccess order)"
    and "e \<in> set (d_edges d)" "map_of states (e_from e) = Some COMPLETED" "map_of states (e_to e) = Some COMPLETED"
  shows "precedes (map n_id (completed_reversed d order states)) (e_to e) (e_from e)"
proof -
  have ok: "dag_ok d" and p: "precedes order (e_from e) (e_to e)"
    using validate_success [OF assms(1,2,3)] assms(4) by auto
  have "distinct (map n_id (d_nodes d))" using ok by (simp add: dag_ok_def)
  moreover have "e_from e \<in> n_id ` set (d_nodes d)" "e_to e \<in> n_id ` set (d_nodes d)"
    using ok assms(4) by (auto simp: dag_ok_def dag_known_def)
  ultimately show ?thesis
    using assms(5,6) precedes_filter [OF precedes_rev [OF p]] by (simp add: completed_reversed_ids)
qed

theorem saga_reverse_order_witness:
  "precedes (map n_id (completed_reversed ex_diamond [''a'', ''b'', ''c'', ''d'']
     [(''a'', COMPLETED), (''b'', COMPLETED), (''c'', FAILED)])) ''b'' ''a''"
proof -
  have "precedes (map n_id (completed_reversed ex_diamond [''a'', ''b'', ''c'', ''d'']
     [(''a'', COMPLETED), (''b'', COMPLETED), (''c'', FAILED)])) (e_to (ex_edge ''a'' ''b'')) (e_from (ex_edge ''a'' ''b''))"
  proof (rule saga_reverse_order [of "[''a'', ''b'', ''c'', ''d'']"])
    show "set [''a'', ''b'', ''c'', ''d''] = n_id ` set (d_nodes ex_diamond)" by code_simp
    show "validate [''a'', ''b'', ''c'', ''d''] ex_diamond = Inr (DagSuccess [''a'', ''b'', ''c'', ''d''])" by code_simp
  qed (simp_all add: ex_edge_def ex_diamond_def)
  then show ?thesis by (simp add: ex_edge_def)
qed

text \<open>
  The compensation summary adds up: every attempted node either succeeded or is listed as failed,
  exactly the completed nodes with a compensating action are attempted, and under the strict policy
  nothing at all is attempted, and no state written, when some completed node lacks one.
\<close>

theorem saga_accounts:
  assumes "run_saga_compensation vsn t order env results states = (ws, Inr g)"
  shows "sg_failed g = length (sg_failed_node_ids g)
    \<and> (if is_strict (Some (t_compensation_policy t)) \<and> (\<exists>n \<in> set (completed_reversed (t_dag t) order states). \<not> has_compensation n)
       then sg_attempted g = 0 \<and> ws = [] \<and> 0 < sg_failed g
       else sg_attempted g = length (filter has_compensation (completed_reversed (t_dag t) order states))
            \<and> sg_succeeded g + sg_failed g = sg_attempted g)"
proof -
  define dn where "dn = completed_reversed (t_dag t) order states"
  have ex: "(\<exists>n \<in> set dn. \<not> has_compensation n) \<longleftrightarrow> filter (\<lambda>n. \<not> has_compensation n) dn \<noteq> []"
    by (auto simp: filter_empty_conv)
  show ?thesis
    using assms unfolding run_saga_compensation_def Let_def dn_def [symmetric] ex
    by (auto simp: res_simps dest!: compensate_loop_counts split: if_splits)
qed

definition ex_comp_node :: "string \<Rightarrow> string list \<Rightarrow> node" where
  "ex_comp_node i inputs = (ex_node i inputs)\<lparr>n_compensate_action := Some ''nwp://w/undo''\<rparr>"

definition ex_saga_task :: task where
  "ex_saga_task = (ex_task \<lparr>d_nodes = [ex_comp_node ''a'' [], ex_node ''b'' [''a'']], d_edges = [ex_edge ''a'' ''b'']\<rparr>)
     \<lparr>t_compensation_policy := ''best_effort''\<rparr>"

theorem saga_accounts_witness:
  "\<exists>g. run_saga_compensation True ex_saga_task [''a'', ''b''] no_env [] [(''a'', COMPLETED), (''b'', COMPLETED)] = ([COMPENSATING], Inr g)
     \<and> sg_attempted g = 1 \<and> sg_failed_node_ids g = [''a''] \<and> sg_succeeded g + sg_failed g = sg_attempted g"
proof -
  let ?g = "\<lparr>sg_attempted = 1, sg_succeeded = 0, sg_failed = 1, sg_failed_node_ids = [''a'']\<rparr>"
  have run: "run_saga_compensation True ex_saga_task [''a'', ''b''] no_env [] [(''a'', COMPLETED), (''b'', COMPLETED)] = ([COMPENSATING], Inr ?g)"
    by code_simp
  from saga_accounts [OF this] have "sg_failed ?g = length (sg_failed_node_ids ?g)" by blast
  with run show ?thesis by (intro exI [of _ ?g]) simp
qed

text \<open>
  C12: What \<open>execute\<close> returns is what the store says. If it returns a result, then either the task was
  refused and the store is as before, or the id was new and its record now has exactly the final
  state of the result; no other task's record changes in any case.
\<close>

theorem execute_records_result:
  assumes "execute opts url_error ids probe nid env events late t store = (store', Some (Inr r))"
  shows "(store' = store \<and> tr_final_state r = FAILED \<or>
       dict_get store (t_id t) = None
       \<and> (\<exists>rec. dict_get store' (t_id t) = Some rec \<and> rec_state rec = tr_final_state r))
    \<and> (\<forall>j. j \<noteq> t_id t \<longrightarrow> dict_get store' j = dict_get store j)"
proof (cases "admit url_error ids store t")
  case (Inr x)
  show ?thesis
  proof (cases x)
    case (Inl code)
    then show ?thesis using assms Inr by (auto simp: execute_def task_failure_def)
  next
    case topo: (Inr order)
    have new: "dict_get store (t_id t) = None"
      using Inr topo
      by (cases "validate ids (t_dag t)") (auto simp: admit_def store_get_def split: if_splits dag_validation.splits)
    define s2 where "s2 = (let s1 = snd (store_save \<lparr>rec_task_id = t_id t, rec_state = PENDING, rec_subtasks = []\<rparr> store)
      in if t_preflight t then store_update_state (t_id t) PREFLIGHT s1 else s1)"
    define l where "l = run_loop (oo_max_concurrent_nodes opts) nid (t_dag t) events"
    define s3 where "s3 = write_all (t_id t) (dr_writes (loop_run l)) (store_update_state (t_id t) RUNNING s2)"
    have s2: "\<exists>r2. dict_get s2 (t_id t) = Some r2" "\<And>j. j \<noteq> t_id t \<Longrightarrow> dict_get s2 j = dict_get store j"
      using new by (auto simp: s2_def Let_def store_save_def)
    obtain r3 where s3: "dict_get s3 (t_id t) = Some r3"
      using s2(1) write_all_get(2) [of "store_update_state (t_id t) RUNNING s2" "t_id t"] by (auto simp: s3_def)
    have others: "\<And>j. j \<noteq> t_id t \<Longrightarrow> dict_get s3 j = dict_get store j"
      using s2(2) by (simp add: s3_def write_all_get(1))
    have "execute opts url_error ids probe nid env events late t store =
        (if t_preflight t \<and> preflight_fails probe t
         then (write_states (t_id t) [FAILED, FAILED] s2, Some (Inr (task_failure (t_id t) NOP_RESOURCE_INSUFFICIENT None)))
         else case dag_result (oo_default_aggregate_strategy opts) (oo_validate_sender_nid opts) t order env l of
           None \<Rightarrow> if late then (store_update_state (t_id t) FAILED s3, Some (Inr (task_failure (t_id t) NOP_TASK_TIMEOUT None)))
                   else (s3, None)
         | Some (ws, Inl e) \<Rightarrow> (write_states (t_id t) ws s3, Some (Inl e))
         | Some (ws, Inr r) \<Rightarrow> (store_update_state (t_id t) (tr_final_state r) (write_states (t_id t) ws s3), Some (Inr r)))"
      unfolding execute_def Inr topo Let_def s2_def s3_def l_def by simp
    then show ?thesis
      using assms new s2 s3 others
      by (auto simp: write_states_get task_failure_def split: if_splits option.splits sum.splits prod.splits)
  qed
qed (use assms in \<open>simp add: execute_def\<close>)

theorem execute_records_result_witness:
  "\<exists>store' r. execute ex_opts (\<lambda>u. False) [''b'', ''a''] (\<lambda>agent act. Inr True) ex_ids no_env ex_pair_events False (ex_task ex_pair) []
      = (store', Some (Inr r)) \<and> tr_final_state r = COMPLETED \<and> tr_aggregated r = PDict [(''v'', PInt 2)]
     \<and> (\<exists>rec. dict_get store' ''t1'' = Some rec \<and> rec_state rec = COMPLETED)"
proof -
  let ?r = "task_success ''t1'' (PDict [(''v'', PInt 2)]) (dr_results ex_pair_end) None"
  let ?s = "[(''t1'', \<lparr>rec_task_id = ''t1'', rec_state = COMPLETED, rec_subtasks = []\<rparr>)]"
  have run: "execute ex_opts (\<lambda>u. False) [''b'', ''a''] (\<lambda>agent act. Inr True) ex_ids no_env ex_pair_events False (ex_task ex_pair) []
      = (?s, Some (Inr ?r))" by code_simp
  have "t_id (ex_task ex_pair) = ''t1''" by code_simp
  with run execute_records_result [OF run] show ?thesis by (auto simp: task_success_def)
qed

end
