(* ===== verification/NwpTopology.thy ===== *)
theory NwpTopology
  imports PyValue
begin

text \<open>
  The topology of a cluster as an anchor node tells it: the data of \<open>nps_sdk/nwp/anchor_client.py\<close> with its two wire
  conversions, the epoch guard and the in-memory service of \<open>nps_sdk/nwp/anchor_server.py\<close>, the request parsers of the
  server and the client's reading of snapshots and streams.

  A line of a stream is the JSON value it holds; the length of a JSON text, the time and fresh ids are arguments.
  The two callbacks of the guard, which tell the host about an event, are not represented: the guard's own list of
  events is.
\<close>

section \<open>Members and snapshots\<close>

record member_info =
  mi_nid :: pyval
  mi_node_roles :: pyval
  mi_activation_mode :: pyval
  mi_child_anchor :: pyval
  mi_member_count :: pyval
  mi_tags :: pyval
  mi_joined_at :: pyval
  mi_last_seen :: pyval
  mi_capabilities :: pyval
  mi_metrics :: pyval

definition member_from_dict :: "pyval \<Rightarrow> member_info res" where
  "member_from_dict d =
     res_bind (py_item d ''nid'') (\<lambda>nid.
     res_bind (py_get d ''node_roles'') (\<lambda>roles.
     res_bind (py_get_or d ''activation_mode'' (PStr [])) (\<lambda>mode.
     res_bind (py_get d ''child_anchor'') (\<lambda>child.
     res_bind (py_get d ''member_count'') (\<lambda>cnt.
     res_bind (py_get d ''tags'') (\<lambda>tags.
     res_bind (py_get d ''joined_at'') (\<lambda>joined.
     res_bind (py_get d ''last_seen'') (\<lambda>seen.
     res_bind (py_get d ''capabilities'') (\<lambda>caps.
     res_bind (py_get d ''metrics'') (\<lambda>metrics.
       Inr \<lparr>mi_nid = nid, mi_node_roles = (if py_bool roles then roles else PList []), mi_activation_mode = mode, mi_child_anchor = child,
            mi_member_count = cnt, mi_tags = tags, mi_joined_at = joined, mi_last_seen = seen, mi_capabilities = caps,
            mi_metrics = metrics\<rparr>))))))))))"

definition member_to_dict :: "member_info \<Rightarrow> pyval res" where
  "member_to_dict m =
     res_bind (py_iter (mi_node_roles m)) (\<lambda>roles.
       Inr (PDict ([(''nid'', mi_nid m), (''node_roles'', PList roles), (''activation_mode'', mi_activation_mode m)]
         @ not_none ''child_anchor'' (mi_child_anchor m) @ not_none ''member_count'' (mi_member_count m)
         @ not_none ''tags'' (mi_tags m) @ not_none ''joined_at'' (mi_joined_at m) @ not_none ''last_seen'' (mi_last_seen m)
         @ not_none ''capabilities'' (mi_capabilities m) @ not_none ''metrics'' (mi_metrics m))))"

record topology_snapshot =
  tn_version :: int
  tn_anchor_nid :: pyval
  tn_cluster_size :: int
  tn_members :: "member_info list"
  tn_truncated :: pyval
  tn_cluster_epoch :: "int option"

definition snapshot_to_dict :: "topology_snapshot \<Rightarrow> pyval res" where
  "snapshot_to_dict s =
     res_bind (res_map member_to_dict (tn_members s)) (\<lambda>ms.
       Inr (PDict ([(''version'', PInt (tn_version s)), (''anchor_nid'', tn_anchor_nid s), (''cluster_size'', PInt (tn_cluster_size s)),
                    (''members'', PList ms)]
         @ not_none ''truncated'' (tn_truncated s) @ not_none ''cluster_epoch'' (opt_val PInt (tn_cluster_epoch s)))))"

definition snapshot_from_dict :: "pyval \<Rightarrow> topology_snapshot res" where
  "snapshot_from_dict d =
     res_bind (py_get d ''cluster_epoch'') (\<lambda>epoch.
     res_bind (res_bind (py_item d ''version'') py_int) (\<lambda>version.
     res_bind (py_item d ''anchor_nid'') (\<lambda>nid.
     res_bind (res_bind (py_item d ''cluster_size'') py_int) (\<lambda>size.
     res_bind (py_get d ''members'') (\<lambda>members.
     res_bind (if py_bool members then py_iter members else Inr []) (\<lambda>ms.
     res_bind (res_map member_from_dict ms) (\<lambda>infos.
     res_bind (py_get d ''truncated'') (\<lambda>truncated.
     res_bind (if epoch = PNone then Inr None else res_bind (py_int epoch) (\<lambda>e. Inr (Some e))) (\<lambda>ep.
       Inr \<lparr>tn_version = version, tn_anchor_nid = nid, tn_cluster_size = size, tn_members = infos, tn_truncated = truncated,
            tn_cluster_epoch = ep\<rparr>)))))))))"

record topology_filter =
  tf_tags_any :: pyval
  tf_tags_all :: pyval
  tf_node_roles :: pyval

definition filter_to_dict :: "topology_filter \<Rightarrow> pyval dict" where
  "filter_to_dict f =
     not_none ''tags_any'' (tf_tags_any f) @ not_none ''tags_all'' (tf_tags_all f) @ not_none ''node_roles'' (tf_node_roles f)"

text \<open>A change has the fields of a member, each of them optional.\<close>

type_synonym member_changes = member_info

definition changes_from_dict :: "pyval \<Rightarrow> member_changes res" where
  "changes_from_dict d =
     res_bind (py_get d ''nid'') (\<lambda>nid.
     res_bind (py_get d ''node_roles'') (\<lambda>roles.
     res_bind (py_get d ''activation_mode'') (\<lambda>mode.
     res_bind (py_get d ''child_anchor'') (\<lambda>child.
     res_bind (py_get d ''member_count'') (\<lambda>cnt.
     res_bind (py_get d ''tags'') (\<lambda>tags.
     res_bind (py_get d ''joined_at'') (\<lambda>joined.
     res_bind (py_get d ''last_seen'') (\<lambda>seen.
     res_bind (py_get d ''capabilities'') (\<lambda>caps.
     res_bind (py_get d ''metrics'') (\<lambda>metrics.
       Inr \<lparr>mi_nid = nid, mi_node_roles = roles, mi_activation_mode = mode, mi_child_anchor = child,
            mi_member_count = cnt, mi_tags = tags, mi_joined_at = joined, mi_last_seen = seen, mi_capabilities = caps,
            mi_metrics = metrics\<rparr>))))))))))"

definition changes_to_dict :: "member_changes \<Rightarrow> pyval" where
  "changes_to_dict c =
     PDict (not_none ''nid'' (mi_nid c) @ not_none ''node_roles'' (mi_node_roles c) @ not_none ''activation_mode'' (mi_activation_mode c)
       @ not_none ''child_anchor'' (mi_child_anchor c) @ not_none ''member_count'' (mi_member_count c)
       @ not_none ''tags'' (mi_tags c) @ not_none ''joined_at'' (mi_joined_at c) @ not_none ''last_seen'' (mi_last_seen c)
       @ not_none ''capabilities'' (mi_capabilities c) @ not_none ''metrics'' (mi_metrics c))"

section \<open>Events\<close>

datatype anchor_event =
    MemberJoined int member_info
  | MemberLeft int pyval
  | MemberUpdated int pyval member_changes
  | AnchorState int pyval pyval
  | ResyncRequired int pyval

definition failover :: "string \<Rightarrow> int \<Rightarrow> string \<Rightarrow> anchor_event" where
  "failover successor epoch reason =
     AnchorState 0 (PStr ''anchor_failover'')
       (PDict [(''successor_nid'', PStr successor), (''cluster_epoch'', PInt epoch), (''reason'', PStr reason)])"

definition quorum_lost :: "int \<Rightarrow> int \<Rightarrow> anchor_event" where
  "quorum_lost quorum_size available =
     AnchorState 0 (PStr ''anchor_quorum_lost'') (PDict [(''quorum_size'', PInt quorum_size), (''available'', PInt available)])"

fun event_payload :: "anchor_event \<Rightarrow> (string \<times> int option \<times> pyval) res" where
  "event_payload (MemberJoined v m) = res_bind (member_to_dict m) (\<lambda>d. Inr (''member_joined'', Some v, d))"
| "event_payload (MemberLeft v nid) = Inr (''member_left'', Some v, PDict [(''nid'', nid)])"
| "event_payload (MemberUpdated v nid c) = Inr (''member_updated'', Some v, PDict [(''nid'', nid), (''changes'', changes_to_dict c)])"
| "event_payload (AnchorState v fld details) = Inr (''anchor_state'', Some v, PDict [(''field'', fld), (''details'', details)])"
| "event_payload (ResyncRequired v reason) = Inr (''resync_required'', None, PDict [(''reason'', reason)])"

definition event_to_envelope :: "(pyval \<Rightarrow> nat) \<Rightarrow> string \<Rightarrow> string \<Rightarrow> anchor_event \<Rightarrow> pyval res" where
  "event_to_envelope json_len now_text stream_id ev =
     res_bind (event_payload ev) (\<lambda>(event_type, seq, payload).
       Inr (PDict ([(''stream_id'', PStr stream_id), (''event_type'', PStr event_type), (''timestamp'', PStr now_text),
                    (''payload'', payload), (''cgn_est'', PInt (max 1 (int (json_len payload div 4))))]
         @ not_none ''seq'' (opt_val PInt seq))))"

definition parse_event :: "pyval dict \<Rightarrow> anchor_event option res" where
  "parse_event d =
     (case map_of d ''event_type'' of
        Some (PStr event_type) \<Rightarrow>
          res_bind (case map_of d ''seq'' of None \<Rightarrow> Inr 0 | Some v \<Rightarrow> if v = PNone then Inr 0 else py_int v) (\<lambda>seq.
            let raw = (case map_of d ''payload'' of None \<Rightarrow> PNone | Some v \<Rightarrow> v);
                payload = (if py_bool raw then raw else PDict [])
            in if event_type = ''member_joined'' then res_bind (member_from_dict payload) (\<lambda>m. Inr (Some (MemberJoined seq m)))
               else if event_type = ''member_left'' then res_bind (py_get_or payload ''nid'' (PStr [])) (\<lambda>nid. Inr (Some (MemberLeft seq nid)))
               else if event_type = ''member_updated'' then
                 res_bind (py_get_or payload ''nid'' (PStr [])) (\<lambda>nid.
                 res_bind (py_get payload ''changes'') (\<lambda>raw_changes.
                 res_bind (changes_from_dict (if py_bool raw_changes then raw_changes else PDict [])) (\<lambda>c.
                   Inr (Some (MemberUpdated seq nid c)))))
               else if event_type = ''anchor_state'' then
                 res_bind (py_get_or payload ''field'' (PStr [])) (\<lambda>fld.
                 res_bind (py_get payload ''details'') (\<lambda>details. Inr (Some (AnchorState seq fld details))))
               else if event_type = ''resync_required'' then
                 res_bind (py_get_or payload ''reason'' (PStr ''unknown'')) (\<lambda>reason. Inr (Some (ResyncRequired 0 reason)))
               else Inr None)
      | _ \<Rightarrow> Inr None)"

section \<open>The epoch guard\<close>

text \<open>A \<open>TopologyProtocolError\<close> has a code and a status; other exceptions pass through.\<close>

datatype anchor_error = Protocol string string | Python py_error

type_synonym 'a checked = "anchor_error + 'a"

definition ck_bind :: "'a checked \<Rightarrow> ('a \<Rightarrow> 'b checked) \<Rightarrow> 'b checked" where
  "ck_bind r f = (case r of Inl e \<Rightarrow> Inl e | Inr x \<Rightarrow> f x)"

definition of_res :: "'a res \<Rightarrow> 'a checked" where
  "of_res r = (case r of Inl e \<Rightarrow> Inl (Python e) | Inr x \<Rightarrow> Inr x)"

definition ANCHOR_EPOCH_FENCED :: string where "ANCHOR_EPOCH_FENCED = ''NWP-ANCHOR-EPOCH-FENCED''"
definition ANCHOR_NOT_LEADER :: string where "ANCHOR_NOT_LEADER = ''NWP-ANCHOR-NOT-LEADER''"

definition ROLE_ACTIVE :: string where "ROLE_ACTIVE = ''active''"
definition ROLE_STANDBY :: string where "ROLE_STANDBY = ''standby''"

record epoch_guard =
  eg_anchor_nid :: string
  eg_own_epoch :: int
  eg_role :: string
  eg_degraded :: bool
  eg_fenced :: bool
  eg_events :: "anchor_event list"

definition guard_init :: "string \<Rightarrow> int \<Rightarrow> string \<Rightarrow> epoch_guard res" where
  "guard_init nid own_epoch role =
     (if own_epoch < 1 then Inl ValueError
      else Inr \<lparr>eg_anchor_nid = nid, eg_own_epoch = own_epoch, eg_role = role, eg_degraded = False, eg_fenced = False, eg_events = []\<rparr>)"

definition guard_emit :: "anchor_event \<Rightarrow> epoch_guard \<Rightarrow> epoch_guard" where
  "guard_emit ev g = g\<lparr>eg_events := eg_events g @ [ev]\<rparr>"

definition check_inbound :: "int option \<Rightarrow> bool \<Rightarrow> string option \<Rightarrow> epoch_guard \<Rightarrow> unit checked \<times> epoch_guard" where
  "check_inbound cluster_epoch is_write sender g =
     (let inbound = (case cluster_epoch of None \<Rightarrow> 1 | Some e \<Rightarrow> e) in
      if inbound > eg_own_epoch g
      then (Inl (Protocol ANCHOR_EPOCH_FENCED ''NPS-CLIENT-CONFLICT''),
            guard_emit (failover (case sender of None \<Rightarrow> [] | Some s \<Rightarrow> s) inbound ''active_lost'')
              (g\<lparr>eg_role := ROLE_STANDBY, eg_fenced := True\<rparr>))
      else if is_write \<and> (eg_role g \<noteq> ROLE_ACTIVE \<or> eg_degraded g)
      then (Inl (Protocol ANCHOR_NOT_LEADER ''NPS-CLIENT-CONFLICT''), g)
      else (Inr (), g))"

definition stamp :: "epoch_guard \<Rightarrow> topology_snapshot \<Rightarrow> topology_snapshot" where
  "stamp g s = s\<lparr>tn_cluster_epoch := Some (eg_own_epoch g)\<rparr>"

definition on_quorum_lost :: "int \<Rightarrow> int \<Rightarrow> epoch_guard \<Rightarrow> epoch_guard" where
  "on_quorum_lost quorum_size available g = guard_emit (quorum_lost quorum_size available) (g\<lparr>eg_degraded := True\<rparr>)"

definition on_quorum_restored :: "epoch_guard \<Rightarrow> epoch_guard" where
  "on_quorum_restored g = g\<lparr>eg_degraded := False\<rparr>"

definition on_take_ownership :: "int \<Rightarrow> string \<Rightarrow> epoch_guard \<Rightarrow> anchor_event res \<times> epoch_guard" where
  "on_take_ownership new_epoch reason g =
     (if new_epoch \<le> eg_own_epoch g then (Inl ValueError, g)
      else (let ev = failover (eg_anchor_nid g) new_epoch reason
            in (Inr ev, guard_emit ev (g\<lparr>eg_own_epoch := new_epoch, eg_role := ROLE_ACTIVE, eg_degraded := False, eg_fenced := False\<rparr>))))"

section \<open>Requests\<close>

definition TOPOLOGY_UNSUPPORTED_SCOPE :: string where "TOPOLOGY_UNSUPPORTED_SCOPE = ''NWP-TOPOLOGY-UNSUPPORTED-SCOPE''"
definition TOPOLOGY_FILTER_UNSUPPORTED :: string where "TOPOLOGY_FILTER_UNSUPPORTED = ''NWP-TOPOLOGY-FILTER-UNSUPPORTED''"

record anchor_snapshot_request =
  ar_scope :: string
  ar_include :: "string list"
  ar_depth :: int
  ar_target_nid :: "string option"

record anchor_stream_request =
  at_scope :: string
  at_filter :: "topology_filter option"
  at_since_version :: "int option"

definition bad_scope :: anchor_error where
  "bad_scope = Protocol TOPOLOGY_UNSUPPORTED_SCOPE ''NPS-CLIENT-BAD-PARAM''"

definition topo_field :: "pyval dict \<Rightarrow> string \<Rightarrow> pyval" where
  "topo_field d k = (case map_of d k of None \<Rightarrow> PNone | Some v \<Rightarrow> v)"

definition parse_scope :: "pyval dict \<Rightarrow> string checked" where
  "parse_scope topo =
     (case topo_field topo ''scope'' of
        PNone \<Rightarrow> Inr ''cluster''
      | PStr s \<Rightarrow> if s = ''cluster'' \<or> s = ''member'' then Inr s else Inl bad_scope
      | _ \<Rightarrow> Inl bad_scope)"

text \<open>The set of the known flags in the list; a value that cannot be hashed raises.\<close>

definition known_flags :: "pyval list \<Rightarrow> string list checked" where
  "known_flags inc =
     (if list_all py_hashable inc
      then Inr (remdups (concat (map (\<lambda>v. case v of
             PStr s \<Rightarrow> if s \<in> {''members'', ''capabilities'', ''tags'', ''metrics''} then [s] else [] | _ \<Rightarrow> []) inc)))
      else Inl (Python TypeError))"

definition parse_include :: "pyval dict \<Rightarrow> string list checked" where
  "parse_include topo =
     (case topo_field topo ''include'' of
        PList inc \<Rightarrow> ck_bind (known_flags inc) (\<lambda>flags. Inr (if flags = [] then [''members''] else flags))
      | _ \<Rightarrow> Inr [''members''])"

definition int_value :: "pyval \<Rightarrow> int option" where
  "int_value v = (case v of PInt i \<Rightarrow> Some i | PBool b \<Rightarrow> Some (if b then 1 else 0) | _ \<Rightarrow> None)"

definition parse_depth :: "pyval dict \<Rightarrow> int" where
  "parse_depth topo = (case int_value (topo_field topo ''depth'') of Some d \<Rightarrow> if d > 0 then d else 1 | None \<Rightarrow> 1)"

definition parse_snapshot_request :: "pyval dict \<Rightarrow> anchor_snapshot_request checked" where
  "parse_snapshot_request body =
     (case topo_field body ''topology'' of
        PDict topo \<Rightarrow>
          ck_bind (parse_scope topo) (\<lambda>scope.
          ck_bind (parse_include topo) (\<lambda>include.
            let target = (case topo_field topo ''target_nid'' of PStr s \<Rightarrow> Some s | _ \<Rightarrow> None)
            in if scope = ''member'' \<and> (target = None \<or> target = Some []) then Inl bad_scope
               else Inr \<lparr>ar_scope = scope, ar_include = include, ar_depth = parse_depth topo, ar_target_nid = target\<rparr>))
      | _ \<Rightarrow> Inl bad_scope)"

definition validate_filter_keys :: "pyval dict \<Rightarrow> unit checked" where
  "validate_filter_keys f =
     (if list_all (\<lambda>kv. fst kv \<in> {''tags_any'', ''tags_all'', ''node_roles''}) f then Inr ()
      else Inl (Protocol TOPOLOGY_FILTER_UNSUPPORTED ''NPS-CLIENT-BAD-PARAM''))"

definition parse_filter :: "pyval dict \<Rightarrow> topology_filter option checked" where
  "parse_filter topo =
     (case topo_field topo ''filter'' of
        PDict f \<Rightarrow> ck_bind (validate_filter_keys f) (\<lambda>_.
          Inr (Some \<lparr>tf_tags_any = topo_field f ''tags_any'', tf_tags_all = topo_field f ''tags_all'', tf_node_roles = topo_field f ''node_roles''\<rparr>))
      | _ \<Rightarrow> Inr None)"

definition parse_stream_request :: "string \<Rightarrow> pyval dict \<Rightarrow> (anchor_stream_request \<times> string) checked" where
  "parse_stream_request fresh body =
     (case topo_field body ''topology'' of
        PDict topo \<Rightarrow>
          ck_bind (parse_scope topo) (\<lambda>scope.
          ck_bind (parse_filter topo) (\<lambda>filt.
            let since = (if topo_field topo ''since_version'' = PNone then topo_field body ''resume_from_seq'' else topo_field topo ''since_version'');
                stream_id = (case topo_field body ''stream_id'' of PStr s \<Rightarrow> if s = [] then fresh else s | _ \<Rightarrow> fresh)
            in Inr (\<lparr>at_scope = scope, at_filter = filt, at_since_version = int_value since\<rparr>, stream_id)))
      | _ \<Rightarrow> Inl bad_scope)"

section \<open>Services\<close>

text \<open>
  What the server needs of a topology service: an answer to a snapshot request, and the events of a stream with how
  the iteration ends.
\<close>

datatype stream_end = Exhausted | Broken anchor_error

record topology_service =
  tv_get_snapshot :: "anchor_snapshot_request \<Rightarrow> topology_snapshot checked"
  tv_subscribe :: "anchor_stream_request \<Rightarrow> anchor_event list \<times> stream_end"

record memory_service =
  ms_anchor_nid :: pyval
  ms_members :: "member_info list"
  ms_version :: int
  ms_events :: "anchor_event list"

definition memory_snapshot :: "memory_service \<Rightarrow> anchor_snapshot_request \<Rightarrow> topology_snapshot checked" where
  "memory_snapshot m req =
     Inr \<lparr>tn_version = ms_version m, tn_anchor_nid = ms_anchor_nid m, tn_cluster_size = int (length (ms_members m)),
          tn_members = (if ''members'' \<in> set (ar_include req) then ms_members m else []), tn_truncated = PNone, tn_cluster_epoch = None\<rparr>"

definition memory_subscribe :: "memory_service \<Rightarrow> anchor_stream_request \<Rightarrow> anchor_event list \<times> stream_end" where
  "memory_subscribe m req = (ms_events m, Exhausted)"

definition memory_topology :: "memory_service \<Rightarrow> topology_service" where
  "memory_topology m = \<lparr>tv_get_snapshot = memory_snapshot m, tv_subscribe = memory_subscribe m\<rparr>"

section \<open>The client\<close>

text \<open>An \<open>AnchorTopologyException\<close> with its code and status.\<close>

datatype client_error = Topology pyval pyval | Other py_error

definition snapshot_body :: "string \<Rightarrow> string list \<Rightarrow> int \<Rightarrow> string option \<Rightarrow> pyval dict" where
  "snapshot_body scope include depth target =
     [(''type'', PStr ''topology.snapshot''),
      (''topology'', PDict ([(''scope'', PStr scope), (''include'', PList (map PStr include)), (''depth'', PInt depth)]
         @ not_none ''target_nid'' (opt_val PStr target)))]"

definition stream_body :: "string \<Rightarrow> string \<Rightarrow> topology_filter option \<Rightarrow> int option \<Rightarrow> pyval dict" where
  "stream_body stream_id scope filt since =
     [(''type'', PStr ''topology.stream''), (''action'', PStr ''subscribe''), (''stream_id'', PStr stream_id),
      (''topology'', PDict ([(''scope'', PStr scope)]
         @ (case filt of None \<Rightarrow> [] | Some f \<Rightarrow> if filter_to_dict f = [] then [] else [(''filter'', PDict (filter_to_dict f))])
         @ not_none ''since_version'' (opt_val PInt since)))]"

text \<open>The body of a failed response, if it is JSON.\<close>

definition build_error :: "int \<Rightarrow> pyval option \<Rightarrow> client_error" where
  "build_error http_status body =
     (case body of
        Some (PDict d) \<Rightarrow>
          (case (map_of d ''error'', map_of d ''status'') of
             (Some code, Some st) \<Rightarrow> Topology code st
           | _ \<Rightarrow> Topology (PStr ''UNKNOWN'') (PStr (''HTTP-'' @ int_str http_status)))
      | _ \<Rightarrow> Topology (PStr ''UNKNOWN'') (PStr (''HTTP-'' @ int_str http_status)))"

definition client_res :: "'a res \<Rightarrow> client_error + 'a" where
  "client_res r = (case r of Inl e \<Rightarrow> Inl (Other e) | Inr x \<Rightarrow> Inr x)"

definition first_item :: "pyval \<Rightarrow> pyval res" where
  "first_item v =
     (case v of PList (x # _) \<Rightarrow> Inr x | PList [] \<Rightarrow> Inl IndexError | PStr (c # _) \<Rightarrow> Inr (PStr [c]) | PStr [] \<Rightarrow> Inl IndexError
      | PDict _ \<Rightarrow> Inl KeyError | _ \<Rightarrow> Inl TypeError)"

definition client_snapshot :: "int \<Rightarrow> pyval option \<Rightarrow> client_error + topology_snapshot" where
  "client_snapshot http_status body =
     (if \<not> (200 \<le> http_status \<and> http_status < 300) then Inl (build_error http_status body)
      else case body of
             None \<Rightarrow> Inl (Other ValueError)
           | Some caps \<Rightarrow>
               (case py_get caps ''data'' of
                  Inl e \<Rightarrow> Inl (Other e)
                | Inr data \<Rightarrow>
                    if \<not> py_bool data then Inl (Topology (PStr ''UNKNOWN'') (PStr (''HTTP-'' @ int_str http_status)))
                    else client_res (res_bind (first_item data) snapshot_from_dict)))"

text \<open>
  Reading the lines of a stream: what was yielded, and how the iteration ended. A line is \<open>None\<close> when it is blank or
  not a JSON object; the acknowledgement has been taken off before.
\<close>

fun client_lines :: "pyval dict option list \<Rightarrow> anchor_event list \<times> client_error option" where
  "client_lines [] = ([], None)"
| "client_lines (None # ls) = client_lines ls"
| "client_lines (Some d # ls) =
     (if map_of d ''event_type'' = None \<and> map_of d ''error'' \<noteq> None \<and> map_of d ''status'' \<noteq> None
      then ([], Some (Topology (topo_field d ''error'') (topo_field d ''status'')))
      else case parse_event d of
             Inl e \<Rightarrow> ([], Some (Other e))
           | Inr None \<Rightarrow> client_lines ls
           | Inr (Some (ResyncRequired v reason)) \<Rightarrow> ([ResyncRequired v reason], None)
           | Inr (Some ev) \<Rightarrow> (case client_lines ls of (evs, err) \<Rightarrow> (ev # evs, err)))"

definition client_subscribe :: "pyval dict option list \<Rightarrow> anchor_event list \<times> client_error option" where
  "client_subscribe ls = (case ls of [] \<Rightarrow> ([], None) | _ # rest \<Rightarrow> client_lines rest)"

section \<open>The wire keeps members, snapshots and events\<close>

definition member_wf :: "member_info \<Rightarrow> bool" where
  "member_wf m \<longleftrightarrow> (case mi_node_roles m of PList _ \<Rightarrow> True | _ \<Rightarrow> False)"

fun event_wf :: "anchor_event \<Rightarrow> bool" where
  "event_wf (MemberJoined v m) = member_wf m"
| "event_wf (ResyncRequired v reason) = (v = 0)"
| "event_wf _ = True"

lemmas lookups = map_of_append map_of_not_none map_add_Some_iff py_get_def py_get_or_def py_item_def of_option_def res_bind_def map_add_def

lemma member_roundtrip:
  assumes "member_wf m"
  shows "\<exists>d. member_to_dict m = Inr d \<and> member_from_dict d = Inr m"
proof -
  obtain roles where "mi_node_roles m = PList roles" using assms by (auto simp: member_wf_def split: pyval.splits)
  then show ?thesis by (cases m) (simp add: member_to_dict_def member_from_dict_def py_iter_def lookups)
qed

lemma members_roundtrip:
  assumes "list_all member_wf ms"
  shows "\<exists>ds. res_map member_to_dict ms = Inr ds \<and> res_map member_from_dict ds = Inr ms"
  using assms
proof (induction ms)
  case (Cons m ms)
  then obtain d ds where "member_to_dict m = Inr d" "member_from_dict d = Inr m"
    "res_map member_to_dict ms = Inr ds" "res_map member_from_dict ds = Inr ms"
    by (auto dest: member_roundtrip)
  then show ?case by (intro exI [of _ "d # ds"]) (simp add: res_bind_def)
qed simp

lemma res_map_Nil_iff: "res_map f xs = Inr [] \<longleftrightarrow> xs = []"
  by (cases xs) (auto simp: res_bind_def split: sum.splits)

lemma snapshot_roundtrip:
  assumes "list_all member_wf (tn_members s)"
  shows "\<exists>d. snapshot_to_dict s = Inr d \<and> snapshot_from_dict d = Inr s"
proof -
  obtain ds where "res_map member_to_dict (tn_members s) = Inr ds" "res_map member_from_dict ds = Inr (tn_members s)"
    using members_roundtrip [OF assms] by blast
  then show ?thesis
    by (cases s; cases "tn_cluster_epoch s"; cases ds)
       (auto simp: snapshot_to_dict_def snapshot_from_dict_def lookups py_int_def py_iter_def)
qed

lemma changes_roundtrip: "changes_from_dict (changes_to_dict c) = Inr c"
  by (cases c) (simp add: changes_from_dict_def changes_to_dict_def lookups)

lemma changes_empty: "changes_from_dict (if py_bool (changes_to_dict c) then changes_to_dict c else PDict []) = Inr c"
proof (cases "py_bool (changes_to_dict c)")
  case False
  then have "changes_to_dict c = PDict []" by (simp add: changes_to_dict_def)
  then show ?thesis using changes_roundtrip [of c] by simp
qed (simp add: changes_roundtrip)

text \<open>What the client makes of the envelope of an event.\<close>

lemma envelope_parsed:
  assumes "event_wf ev"
  shows "\<exists>d. event_to_envelope json_len now_text sid ev = Inr (PDict d) \<and> parse_event d = Inr (Some ev) \<and> map_of d ''event_type'' \<noteq> None"
proof (cases ev)
  case (MemberJoined v m)
  then obtain d where d: "member_to_dict m = Inr d" "member_from_dict d = Inr m" using assms member_roundtrip by auto
  moreover have "py_bool d" using d(1) by (auto simp: member_to_dict_def res_bind_def split: sum.splits)
  ultimately show ?thesis using MemberJoined by (simp add: event_to_envelope_def parse_event_def lookups py_int_def)
next
  case (MemberUpdated v nid c)
  then show ?thesis using changes_empty [of c] by (simp add: event_to_envelope_def parse_event_def lookups py_int_def)
qed (use assms in \<open>simp_all add: event_to_envelope_def parse_event_def lookups py_int_def\<close>)

text \<open>A stream ends with the first event that asks for a new snapshot.\<close>

fun upto_resync :: "anchor_event list \<Rightarrow> anchor_event list" where
  "upto_resync [] = []"
| "upto_resync (ResyncRequired v r # evs) = [ResyncRequired v r]"
| "upto_resync (ev # evs) = ev # upto_resync evs"

section \<open>Runs of the guard\<close>

datatype guard_op = Inbound "int option" bool "string option" | QuorumLost int int | QuorumRestored | TakeOwnership int string

fun guard_apply :: "guard_op \<Rightarrow> epoch_guard \<Rightarrow> epoch_guard" where
  "guard_apply (Inbound e w sender) g = snd (check_inbound e w sender g)"
| "guard_apply (QuorumLost q a) g = on_quorum_lost q a g"
| "guard_apply QuorumRestored g = on_quorum_restored g"
| "guard_apply (TakeOwnership e r) g = snd (on_take_ownership e r g)"

text \<open>The guard together with the epochs it has seen since it last took ownership.\<close>

fun guard_observe :: "epoch_guard \<times> int list \<Rightarrow> guard_op \<Rightarrow> epoch_guard \<times> int list" where
  "guard_observe (g, seen) (Inbound e w sender) =
     (guard_apply (Inbound e w sender) g, (case e of None \<Rightarrow> 1 | Some x \<Rightarrow> x) # seen)"
| "guard_observe (g, seen) (TakeOwnership e r) = (guard_apply (TakeOwnership e r) g, if e \<le> eg_own_epoch g then seen else [])"
| "guard_observe (g, seen) op = (guard_apply op g, seen)"

lemmas guard_defs = check_inbound_def on_quorum_lost_def on_quorum_restored_def on_take_ownership_def guard_emit_def Let_def

definition leads_highest :: "epoch_guard \<times> int list \<Rightarrow> bool" where
  "leads_highest gs \<longleftrightarrow> (eg_role (fst gs) = ROLE_ACTIVE \<longrightarrow> list_all (\<lambda>e. e \<le> eg_own_epoch (fst gs)) (snd gs))"

lemma roles_differ [simp]: "ROLE_STANDBY \<noteq> ROLE_ACTIVE"
  by (simp add: ROLE_ACTIVE_def ROLE_STANDBY_def)

lemma observe_leads: "leads_highest gs \<Longrightarrow> leads_highest (guard_observe gs op)"
  by (cases "(gs, op)" rule: guard_observe.cases) (auto simp: leads_highest_def guard_defs)

lemma observe_epoch_grows: "eg_own_epoch (fst gs) \<le> eg_own_epoch (fst (guard_observe gs op))"
  by (cases "(gs, op)" rule: guard_observe.cases) (auto simp: guard_defs)

lemma run_leads: "leads_highest gs \<Longrightarrow> leads_highest (foldl guard_observe gs ops)"
  by (induction ops arbitrary: gs) (simp_all add: observe_leads)

lemma run_epoch_grows: "eg_own_epoch (fst gs) \<le> eg_own_epoch (fst (foldl guard_observe gs ops))"
proof (induction ops arbitrary: gs)
  case (Cons op ops)
  show ?case using order.trans [OF observe_epoch_grows Cons.IH [of "guard_observe gs op"]] by simp
qed simp

definition write_safe :: "epoch_guard \<Rightarrow> epoch_guard \<times> int list \<Rightarrow> bool" where
  "write_safe start gs \<longleftrightarrow> eg_role (fst gs) = ROLE_ACTIVE \<and> \<not> eg_degraded (fst gs) \<and>
     list_all (\<lambda>e. e \<le> eg_own_epoch (fst gs)) (snd gs) \<and> eg_own_epoch start \<le> eg_own_epoch (fst gs)"

text \<open>
  C19: whenever an anchor accepts a topology write, it is the active owner with a quorum, and its epoch is at least every epoch it
  has been shown since it took ownership, and at least the epoch it started with, over any run of frames, quorum changes and takeovers.
\<close>

theorem writes_need_highest_epoch:
  assumes "fst (check_inbound e True sender (fst (foldl guard_observe (g, []) ops))) = Inr ()"
  shows "write_safe g (foldl guard_observe (g, []) ops)"
  using assms run_leads [of "(g, [])" ops] run_epoch_grows [of "(g, [])" ops]
  by (auto simp: write_safe_def leads_highest_def check_inbound_def Let_def split: if_splits)

definition sample_guard :: epoch_guard where
  "sample_guard = \<lparr>eg_anchor_nid = ''a'', eg_own_epoch = 2, eg_role = ''active'', eg_degraded = False, eg_fenced = False, eg_events = []\<rparr>"

theorem writes_need_highest_epoch_witness:
  "write_safe sample_guard (foldl guard_observe (sample_guard, []) [Inbound (Some 5) False None, TakeOwnership 6 ''planned'', Inbound (Some 6) True None])"
  by (rule writes_need_highest_epoch [where e = "Some 3" and sender = None]) (simp add: sample_guard_def guard_defs ROLE_ACTIVE_def ROLE_STANDBY_def)

text \<open>
  An anchor that has been fenced by a higher epoch can take ownership again below that epoch, and then accepts writes, although
  an epoch is meant to exceed every one observed.
\<close>

theorem takeover_below_observed:
  assumes "0 \<le> eg_own_epoch g" and "eg_own_epoch g + 1 < e"
  shows "\<exists>g1 ev g2. check_inbound (Some e) w sender g = (Inl (Protocol ANCHOR_EPOCH_FENCED ''NPS-CLIENT-CONFLICT''), g1) \<and>
    on_take_ownership (eg_own_epoch g + 1) reason g1 = (Inr ev, g2) \<and> fst (check_inbound None True None g2) = Inr () \<and> eg_own_epoch g2 < e"
  using assms by (simp add: guard_defs)

theorem takeover_below_observed_witness:
  "\<exists>g1 ev g2. check_inbound (Some 9) False None sample_guard = (Inl (Protocol ANCHOR_EPOCH_FENCED ''NPS-CLIENT-CONFLICT''), g1) \<and>
    on_take_ownership 3 ''planned'' g1 = (Inr ev, g2) \<and> fst (check_inbound None True None g2) = Inr () \<and> eg_own_epoch g2 < 9"
  using takeover_below_observed [of sample_guard 9 False None "''planned''"] by (simp add: sample_guard_def)

end
