(* ===== verification/NwpContext.thy ===== *)
theory NwpContext
  imports AnchorCache
begin

text \<open>
  The store of stateful model contexts, \<open>nps_sdk/nwp/context_store.py\<close>: mutations are reserved against
  a version, committed or aborted, contexts expire into tombstones, and outcomes are kept per
  idempotency key.

  Every call runs under the store's lock, so a call is one step on the state. The readings of the
  clock during a call are arguments (\<open>None\<close> stands for a time without an offset, on which \<open>_now\<close>
  raises), as are the fresh reservation id and the ids the context id factory returns. A context id,
  an idempotency key and a request id are strings. A reservation is identified by its value: an equal
  copy counts as the same object. The ISO text of a time is the argument \<open>co_iso\<close>.
\<close>

section \<open>Data\<close>

datatype context_operation = CREATE | APPEND | FORK | RESET | RELEASE

datatype context_state = BUSY | ACTIVE | RELEASED | EXPIRED | CTX_FAILED

record tool_call =
  tc_call_id :: string
  tc_tool_name :: string
  tc_arguments_json :: string

record tool_parameter =
  tp_name :: string
  tp_type :: string
  tp_description :: "string option"
  tp_required :: bool

record tool_definition =
  td_name :: string
  td_description :: "string option"
  td_parameters :: "tool_parameter list option"

record llm_message =
  lm_role :: string
  lm_content :: "string option"
  lm_tool_call_id :: "string option"
  lm_tool_name :: "string option"
  lm_tool_calls :: "tool_call list option"

record context_owner =
  ow_nid :: string
  ow_security_scope :: string

record context_binding =
  cb_model :: string
  cb_system_messages :: "llm_message list"
  cb_runtime_revision :: string
  cb_tools :: "tool_definition list option"

subsection \<open>The fingerprint of a binding\<close>

text \<open>\<open>wire\<close>: a dataclass becomes the dictionary of its fields that are not \<open>None\<close>, in field order.\<close>

definition opt_wire :: "string \<Rightarrow> ('a \<Rightarrow> pyval) \<Rightarrow> 'a option \<Rightarrow> pyval dict" where
  "opt_wire k f v = (case v of None \<Rightarrow> [] | Some x \<Rightarrow> [(k, f x)])"

definition wire_tool_call :: "tool_call \<Rightarrow> pyval" where
  "wire_tool_call c =
     PDict [(''call_id'', PStr (tc_call_id c)), (''tool_name'', PStr (tc_tool_name c)),
            (''arguments_json'', PStr (tc_arguments_json c))]"

definition wire_tool_parameter :: "tool_parameter \<Rightarrow> pyval" where
  "wire_tool_parameter p =
     PDict ([(''name'', PStr (tp_name p)), (''type'', PStr (tp_type p))]
       @ opt_wire ''description'' PStr (tp_description p) @ [(''required'', PBool (tp_required p))])"

definition wire_tool :: "tool_definition \<Rightarrow> pyval" where
  "wire_tool t =
     PDict ([(''name'', PStr (td_name t))] @ opt_wire ''description'' PStr (td_description t)
       @ opt_wire ''parameters'' (\<lambda>ps. PList (map wire_tool_parameter ps)) (td_parameters t))"

definition wire_message :: "llm_message \<Rightarrow> pyval" where
  "wire_message m =
     PDict ([(''role'', PStr (lm_role m))] @ opt_wire ''content'' PStr (lm_content m)
       @ opt_wire ''tool_call_id'' PStr (lm_tool_call_id m) @ opt_wire ''tool_name'' PStr (lm_tool_name m)
       @ opt_wire ''tool_calls'' (\<lambda>cs. PList (map wire_tool_call cs)) (lm_tool_calls m))"

definition wire_binding :: "context_binding \<Rightarrow> pyval" where
  "wire_binding b =
     PDict ([(''model'', PStr (cb_model b)), (''system_messages'', PList (map wire_message (cb_system_messages b))),
             (''runtime_revision'', PStr (cb_runtime_revision b))]
       @ opt_wire ''tools'' (\<lambda>ts. PList (map wire_tool ts)) (cb_tools b))"

definition fingerprint :: "canon_hash \<Rightarrow> context_binding \<Rightarrow> string res" where
  "fingerprint H b = res_bind (dumps_sorted H (wire_binding b)) (\<lambda>payload. Inr (sha256_hex H payload))"

subsection \<open>Requests, reservations and entries\<close>

record mutation_request =
  mr_operation :: context_operation
  mr_owner :: context_owner
  mr_binding :: context_binding
  mr_messages :: "llm_message list"
  mr_idempotency_key :: string
  mr_request_id :: string
  mr_context_id :: "string option"
  mr_base_version :: "int option"
  mr_ttl_seconds :: "int option"

record reservation =
  rv_reservation_id :: string
  rv_request :: mutation_request
  rv_binding_fingerprint :: string
  rv_base_transcript :: "llm_message list"
  rv_effective_ttl_seconds :: "int option"
  rv_parent_context_id :: "string option"
  rv_parent_version :: "int option"

record context_receipt =
  cr_context_id :: string
  cr_version :: int
  cr_operation :: context_operation
  cr_state :: context_state
  cr_expires_at :: "string option"
  cr_parent_context_id :: "string option"
  cr_parent_version :: "int option"

record context_status =
  cst_state :: context_state
  cst_context_id :: "string option"
  cst_version :: "int option"
  cst_expires_at :: "string option"
  cst_request_id :: "string option"
  cst_error_code :: "string option"

record context_snapshot =
  sn_context_id :: string
  sn_version :: int
  sn_state :: context_state
  sn_transcript :: "llm_message list"
  sn_binding :: context_binding
  sn_expires_at :: "int option"

record context_entry =
  ce_context_id :: string
  ce_owner :: context_owner
  ce_version :: int
  ce_state :: context_state
  ce_binding :: context_binding
  ce_binding_fingerprint :: string
  ce_transcript :: "llm_message list"
  ce_ttl_seconds :: int
  ce_expires_at :: "int option"
  ce_tombstone_until :: "int option"
  ce_reservation_id :: "string option"

datatype outcome_state = Busy | Completed | Failed

record idempotency_entry =
  ie_state :: outcome_state
  ie_retain_until :: int
  ie_request_id :: "string option"
  ie_reservation_id :: "string option"
  ie_error_code :: "string option"
  ie_receipt :: "context_receipt option"
  ie_context_id :: "string option"
  ie_base_version :: "int option"

record context_options =
  co_max_contexts_per_principal :: int
  co_default_ttl_seconds :: int
  co_max_ttl_seconds :: int
  co_tombstone_seconds :: int
  co_idempotency_ttl :: int
  co_supported :: "context_operation list"
  co_iso :: "int \<Rightarrow> string"

type_synonym owner_key = "string \<times> string \<times> string \<times> string"

record context_store =
  cs_contexts :: "context_entry dict"
  cs_idempotency :: "(owner_key \<times> idempotency_entry) list"
  cs_reservations :: "reservation dict"

definition empty_store :: context_store where
  "empty_store = \<lparr>cs_contexts = [], cs_idempotency = [], cs_reservations = []\<rparr>"

section \<open>Errors\<close>

definition ACTION_PARAMS_INVALID :: string where "ACTION_PARAMS_INVALID = ''NWP-ACTION-PARAMS-INVALID''"
definition ACTION_IDEMPOTENCY_CONFLICT :: string where "ACTION_IDEMPOTENCY_CONFLICT = ''NWP-ACTION-IDEMPOTENCY-CONFLICT''"
definition LLM_CONTEXT_NOT_FOUND :: string where "LLM_CONTEXT_NOT_FOUND = ''NWP-LLM-CONTEXT-NOT-FOUND''"
definition LLM_CONTEXT_EXPIRED :: string where "LLM_CONTEXT_EXPIRED = ''NWP-LLM-CONTEXT-EXPIRED''"
definition LLM_CONTEXT_VERSION_CONFLICT :: string where "LLM_CONTEXT_VERSION_CONFLICT = ''NWP-LLM-CONTEXT-VERSION-CONFLICT''"
definition LLM_CONTEXT_BINDING_MISMATCH :: string where "LLM_CONTEXT_BINDING_MISMATCH = ''NWP-LLM-CONTEXT-BINDING-MISMATCH''"
definition LLM_CONTEXT_FORBIDDEN :: string where "LLM_CONTEXT_FORBIDDEN = ''NWP-LLM-CONTEXT-FORBIDDEN''"
definition LLM_CONTEXT_LIMIT_EXCEEDED :: string where "LLM_CONTEXT_LIMIT_EXCEEDED = ''NWP-LLM-CONTEXT-LIMIT-EXCEEDED''"
definition LLM_CONTEXT_OPERATION_UNSUPPORTED :: string where
  "LLM_CONTEXT_OPERATION_UNSUPPORTED = ''NWP-LLM-CONTEXT-OPERATION-UNSUPPORTED''"

definition params_invalid :: py_error where
  "params_invalid = LlmContextStoreError ACTION_PARAMS_INVALID None"

definition not_found :: py_error where
  "not_found = LlmContextStoreError LLM_CONTEXT_NOT_FOUND None"

section \<open>Checks\<close>

definition clock_now :: "int option \<Rightarrow> int res" where
  "clock_now c = of_option ValueError c"

definition owner_key :: "context_owner \<Rightarrow> string \<Rightarrow> string \<Rightarrow> owner_key" where
  "owner_key ow act key = (ow_nid ow, ow_security_scope ow, act, key)"

definition COMPLETE_ACTION :: string where "COMPLETE_ACTION = ''llm.complete''"
definition RELEASE_ACTION :: string where "RELEASE_ACTION = ''llm.context.release''"

definition locator_char :: "char \<Rightarrow> bool" where
  "locator_char c = (let n = of_char c :: nat in
     (65 \<le> n \<and> n \<le> 90) \<or> (97 \<le> n \<and> n \<le> 122) \<or> (48 \<le> n \<and> n \<le> 57) \<or> c = CHR ''_'' \<or> c = CHR ''-'')"

definition validate_context_id :: "string \<Rightarrow> unit res" where
  "validate_context_id v =
     (if 22 \<le> length v \<and> length v \<le> 128 \<and> list_all locator_char v then Inr () else Inl params_invalid)"

definition validate_request :: "mutation_request \<Rightarrow> unit res" where
  "validate_request r =
     (let op = mr_operation r in
      if op = RELEASE then Inl params_invalid
      else if py_strip (mr_idempotency_key r) = [] then Inl params_invalid
      else if (case mr_ttl_seconds r of None \<Rightarrow> False | Some t \<Rightarrow> t \<le> 0) then Inl params_invalid
      else res_bind
        (if op = CREATE
         then if mr_context_id r \<noteq> None \<or> mr_base_version r \<noteq> None then Inl params_invalid else Inr ()
         else case (mr_context_id r, mr_base_version r) of
                (Some c, Some v) \<Rightarrow> validate_context_id c
              | _ \<Rightarrow> Inl params_invalid)
        (\<lambda>u. if op \<noteq> FORK \<and> mr_messages r = [] then Inl params_invalid
             else if op \<in> {APPEND, FORK} \<and> (\<exists>m \<in> set (mr_messages r). py_lower (lm_role m) = ''system'')
             then Inl (LlmContextStoreError LLM_CONTEXT_BINDING_MISMATCH None)
             else Inr ()))"

definition ensure_supported :: "context_options \<Rightarrow> context_operation \<Rightarrow> unit res" where
  "ensure_supported opts op =
     (if op \<notin> set (co_supported opts) then Inl (LlmContextStoreError LLM_CONTEXT_OPERATION_UNSUPPORTED None)
      else Inr ())"

definition live_contexts :: "context_owner \<Rightarrow> context_entry dict \<Rightarrow> nat" where
  "live_contexts ow cs = length (filter (\<lambda>(k, e). ce_owner e = ow \<and> ce_state e = ACTIVE) cs)"

definition pending_allocations :: "context_owner \<Rightarrow> reservation dict \<Rightarrow> nat" where
  "pending_allocations ow rs =
     length (filter (\<lambda>(k, r). mr_owner (rv_request r) = ow \<and> mr_operation (rv_request r) \<in> {CREATE, FORK}) rs)"

definition ensure_allocation_available :: "context_options \<Rightarrow> context_owner \<Rightarrow> context_store \<Rightarrow> unit res" where
  "ensure_allocation_available opts ow s =
     (if int (live_contexts ow (cs_contexts s) + pending_allocations ow (cs_reservations s))
           \<ge> co_max_contexts_per_principal opts
      then Inl (LlmContextStoreError LLM_CONTEXT_LIMIT_EXCEEDED None) else Inr ())"

definition require_entry :: "string \<Rightarrow> context_store \<Rightarrow> context_entry res" where
  "require_entry cid s = of_option not_found (dict_get (cs_contexts s) cid)"

definition ensure_owner :: "context_entry \<Rightarrow> context_owner \<Rightarrow> unit res" where
  "ensure_owner e ow = (if ce_owner e \<noteq> ow then Inl (LlmContextStoreError LLM_CONTEXT_FORBIDDEN None) else Inr ())"

definition require_mutable :: "context_owner \<Rightarrow> string \<Rightarrow> context_store \<Rightarrow> context_entry res" where
  "require_mutable ow cid s =
     res_bind (require_entry cid s) (\<lambda>e.
     res_bind (ensure_owner e ow) (\<lambda>u.
       if ce_state e = EXPIRED then Inl (LlmContextStoreError LLM_CONTEXT_EXPIRED (Some (ce_version e)))
       else if ce_state e = RELEASED then Inl not_found
       else Inr e))"

definition version_conflict :: "context_entry \<Rightarrow> py_error" where
  "version_conflict e = LlmContextStoreError LLM_CONTEXT_VERSION_CONFLICT (Some (ce_version e))"

definition clamp_ttl :: "context_options \<Rightarrow> int \<Rightarrow> int" where
  "clamp_ttl opts seconds = min seconds (co_max_ttl_seconds opts)"

text \<open>\<open>max(1, int((expires_at - now).total_seconds() + 0.999999))\<close>, with the roundings of the floats.\<close>

definition remaining_seconds :: "int \<Rightarrow> int \<Rightarrow> int" where
  "remaining_seconds expires now =
     (case (double (of_int (expires - now) / 1000000), double (999999 / 1000000)) of
        (FFin a, FFin b) \<Rightarrow>
          (case double (a + b) of
             FFin q \<Rightarrow> max 1 (if q < 0 then - \<lfloor>- q\<rfloor> else \<lfloor>q\<rfloor>)
           | _ \<Rightarrow> 1)
      | _ \<Rightarrow> 1)"

text \<open>\<open>v or default\<close> for an optional integer.\<close>

definition int_or :: "int option \<Rightarrow> int \<Rightarrow> int" where
  "int_or v d = (case v of None \<Rightarrow> d | Some i \<Rightarrow> if i = 0 then d else i)"

definition effective_ttl :: "context_options \<Rightarrow> int option \<Rightarrow> mutation_request \<Rightarrow> context_entry \<Rightarrow> int option res" where
  "effective_ttl opts clk r e =
     (case mr_ttl_seconds r of
        Some t \<Rightarrow> Inr (Some (clamp_ttl opts t))
      | None \<Rightarrow>
          if mr_operation r = FORK then
            (case ce_expires_at e of
               None \<Rightarrow> Inr None
             | Some x \<Rightarrow> res_bind (clock_now clk) (\<lambda>now. Inr (Some (remaining_seconds x now))))
          else Inr (if ce_ttl_seconds e = 0 then None else Some (ce_ttl_seconds e)))"

definition new_reservation ::
  "canon_hash \<Rightarrow> string \<Rightarrow> mutation_request \<Rightarrow> llm_message list \<Rightarrow> int option \<Rightarrow> string option \<Rightarrow> int option
     \<Rightarrow> reservation res" where
  "new_reservation H rid r transcript ttl parent_id parent_version =
     res_bind (fingerprint H (mr_binding r)) (\<lambda>fp.
       Inr \<lparr>rv_reservation_id = rid, rv_request = r, rv_binding_fingerprint = fp, rv_base_transcript = transcript,
            rv_effective_ttl_seconds = ttl, rv_parent_context_id = parent_id, rv_parent_version = parent_version\<rparr>)"

section \<open>Sweeping\<close>

definition expires_now :: "int \<Rightarrow> context_entry \<Rightarrow> bool" where
  "expires_now now e =
     (ce_state e = ACTIVE \<and> ce_reservation_id e = None
      \<and> (case ce_expires_at e of None \<Rightarrow> False | Some x \<Rightarrow> x \<le> now))"

text \<open>The first loop of \<open>_sweep\<close>, in the order of the dictionary; the tombstone time may overflow.\<close>

fun expire_loop :: "context_options \<Rightarrow> int \<Rightarrow> context_entry dict \<Rightarrow> nat res \<times> context_entry dict" where
  "expire_loop opts now [] = (Inr 0, [])"
| "expire_loop opts now ((k, e) # cs) =
     (if expires_now now e
      then (let e' = e\<lparr>ce_state := EXPIRED, ce_expires_at := None\<rparr> in
            case time_plus now (co_tombstone_seconds opts * 1000000) of
              Inl err \<Rightarrow> (Inl err, (k, e') # cs)
            | Inr t \<Rightarrow>
                (case expire_loop opts now cs of
                   (r, cs') \<Rightarrow> (res_bind r (\<lambda>n. Inr (Suc n)), (k, e'\<lparr>ce_tombstone_until := Some t\<rparr>) # cs')))
      else (case expire_loop opts now cs of (r, cs') \<Rightarrow> (r, (k, e) # cs')))"

definition buried :: "int \<Rightarrow> context_entry \<Rightarrow> bool" where
  "buried now e =
     (ce_state e \<in> {EXPIRED, RELEASED} \<and> (case ce_tombstone_until e of None \<Rightarrow> False | Some t \<Rightarrow> t \<le> now))"

definition forgotten :: "int \<Rightarrow> idempotency_entry \<Rightarrow> bool" where
  "forgotten now i = (ie_state i \<noteq> Busy \<and> ie_retain_until i \<le> now)"

definition sweep :: "context_options \<Rightarrow> int \<Rightarrow> (context_store, nat) effectful" where
  "sweep opts now s =
     (case expire_loop opts now (cs_contexts s) of
        (Inl err, cs) \<Rightarrow> (Inl err, s\<lparr>cs_contexts := cs\<rparr>)
      | (Inr n, cs) \<Rightarrow>
          let kept = filter (\<lambda>(k, e). \<not> buried now e) cs;
              outcomes = filter (\<lambda>(k, i). \<not> forgotten now i) (cs_idempotency s)
          in (Inr (n + (length cs - length kept) + (length (cs_idempotency s) - length outcomes)),
              s\<lparr>cs_contexts := kept, cs_idempotency := outcomes\<rparr>))"

definition sweep_at :: "context_options \<Rightarrow> int option \<Rightarrow> (context_store, nat) effectful" where
  "sweep_at opts clk = st_bind (st_lift (clock_now clk)) (sweep opts)"

section \<open>Operations\<close>

definition context_id_of :: "mutation_request \<Rightarrow> string" where
  "context_id_of r = (case mr_context_id r of None \<Rightarrow> [] | Some c \<Rightarrow> c)"

definition complete_key :: "mutation_request \<Rightarrow> owner_key" where
  "complete_key r = owner_key (mr_owner r) COMPLETE_ACTION (mr_idempotency_key r)"

definition idempotency_conflict :: py_error where
  "idempotency_conflict = LlmContextStoreError ACTION_IDEMPOTENCY_CONFLICT None"

text \<open>\<open>self._now() + self._options.idempotency_ttl\<close>\<close>

definition retain_time :: "context_options \<Rightarrow> int option \<Rightarrow> int res" where
  "retain_time opts clk = res_bind (clock_now clk) (\<lambda>now. time_plus now (co_idempotency_ttl opts))"

definition set_outcome :: "owner_key \<Rightarrow> idempotency_entry \<Rightarrow> context_store \<Rightarrow> context_store" where
  "set_outcome key i s = s\<lparr>cs_idempotency := dict_set key i (cs_idempotency s)\<rparr>"

definition set_entry :: "string \<Rightarrow> context_entry \<Rightarrow> context_store \<Rightarrow> context_store" where
  "set_entry cid e s = s\<lparr>cs_contexts := dict_set cid e (cs_contexts s)\<rparr>"

subsection \<open>Reserving\<close>

definition reserve_new :: "canon_hash \<Rightarrow> context_options \<Rightarrow> string \<Rightarrow> mutation_request \<Rightarrow> (context_store, reservation) effectful" where
  "reserve_new H opts rid r =
     st_bind (st_read id) (\<lambda>s.
     st_bind (st_lift (ensure_allocation_available opts (mr_owner r) s)) (\<lambda>_.
       st_lift (new_reservation H rid r []
         (Some (clamp_ttl opts (int_or (mr_ttl_seconds r) (co_default_ttl_seconds opts)))) None None)))"

definition reserve_existing ::
  "canon_hash \<Rightarrow> context_options \<Rightarrow> int option \<Rightarrow> string \<Rightarrow> mutation_request \<Rightarrow> (context_store, reservation) effectful" where
  "reserve_existing H opts clk rid r =
     (let op = mr_operation r; cid = context_id_of r in
     st_bind (st_read id) (\<lambda>s.
     st_bind (st_lift (require_mutable (mr_owner r) cid s)) (\<lambda>e.
     st_bind (st_when (ce_reservation_id e \<noteq> None \<or> Some (ce_version e) \<noteq> mr_base_version r) (version_conflict e)) (\<lambda>_.
     st_bind (st_lift (fingerprint H (mr_binding r))) (\<lambda>fp.
     st_bind (st_when (op \<in> {APPEND, FORK} \<and> ce_binding_fingerprint e \<noteq> fp)
                (LlmContextStoreError LLM_CONTEXT_BINDING_MISMATCH None)) (\<lambda>_.
     st_bind (if op = FORK then st_lift (ensure_allocation_available opts (mr_owner r) s) else st_lift (Inr ())) (\<lambda>_.
     st_bind (st_lift (effective_ttl opts clk r e)) (\<lambda>ttl.
     st_bind (st_lift (new_reservation H rid r (ce_transcript e) ttl
                (if op = FORK then Some (ce_context_id e) else None)
                (if op = FORK then Some (ce_version e) else None))) (\<lambda>rv.
     st_bind (if op \<noteq> FORK then st_write (set_entry cid (e\<lparr>ce_reservation_id := Some rid\<rparr>)) else st_lift (Inr ())) (\<lambda>_.
       st_lift (Inr rv)))))))))))"

definition reserve ::
  "canon_hash \<Rightarrow> context_options \<Rightarrow> int option \<Rightarrow> int option \<Rightarrow> int option \<Rightarrow> string \<Rightarrow> mutation_request
     \<Rightarrow> (context_store, reservation) effectful" where
  "reserve H opts c0 c1 c2 rid r =
     st_bind (sweep_at opts c0) (\<lambda>_.
     st_bind (st_lift (validate_request r)) (\<lambda>_.
     st_bind (st_lift (ensure_supported opts (mr_operation r))) (\<lambda>_.
     st_bind (st_read (\<lambda>s. dict_get (cs_idempotency s) (complete_key r))) (\<lambda>prior.
     st_bind (st_when (prior \<noteq> None) idempotency_conflict) (\<lambda>_.
     st_bind (if mr_operation r = CREATE then reserve_new H opts rid r else reserve_existing H opts c1 rid r) (\<lambda>rv.
     st_bind (st_write (\<lambda>s. s\<lparr>cs_reservations := dict_set rid rv (cs_reservations s)\<rparr>)) (\<lambda>_.
     st_bind (st_lift (retain_time opts c2)) (\<lambda>retain.
     st_bind (st_write (set_outcome (complete_key r)
                \<lparr>ie_state = Busy, ie_retain_until = retain, ie_request_id = Some (mr_request_id r),
                 ie_reservation_id = Some rid, ie_error_code = None, ie_receipt = None, ie_context_id = None,
                 ie_base_version = None\<rparr>)) (\<lambda>_.
       st_lift (Inr rv))))))))))"

subsection \<open>Committing and aborting\<close>

definition require_reservation :: "reservation \<Rightarrow> context_store \<Rightarrow> unit res" where
  "require_reservation rv s =
     (if dict_get (cs_reservations s) (rv_reservation_id rv) \<noteq> Some rv then Inl RuntimeError else Inr ())"

text \<open>Eight attempts; \<open>factory i\<close> is what the \<open>i\<close>-th call of the factory returns.\<close>

fun first_free :: "string list \<Rightarrow> context_entry dict \<Rightarrow> string res" where
  "first_free [] cs = Inl RuntimeError"
| "first_free (i # is) cs =
     res_bind (validate_context_id i) (\<lambda>u. if dict_get cs i = None then Inr i else first_free is cs)"

definition next_context_id :: "(nat \<Rightarrow> string) \<Rightarrow> context_store \<Rightarrow> string res" where
  "next_context_id factory s = first_free (map factory [0 ..< 8]) (cs_contexts s)"

definition new_entry :: "int option \<Rightarrow> reservation \<Rightarrow> llm_message \<Rightarrow> string \<Rightarrow> context_entry" where
  "new_entry expiry rv assistant cid =
     (let r = rv_request rv in
      \<lparr>ce_context_id = cid, ce_owner = mr_owner r, ce_version = 1, ce_state = ACTIVE, ce_binding = mr_binding r,
       ce_binding_fingerprint = rv_binding_fingerprint rv,
       ce_transcript = (if mr_operation r = FORK then rv_base_transcript rv else []) @ mr_messages r @ [assistant],
       ce_ttl_seconds = int_or (rv_effective_ttl_seconds rv) 0, ce_expires_at = expiry,
       ce_tombstone_until = None, ce_reservation_id = None\<rparr>)"

definition commit_new ::
  "(nat \<Rightarrow> string) \<Rightarrow> int option \<Rightarrow> reservation \<Rightarrow> llm_message \<Rightarrow> (context_store, string \<times> int) effectful" where
  "commit_new factory expiry rv assistant =
     st_bind (st_read (next_context_id factory)) (\<lambda>fresh.
     st_bind (st_lift fresh) (\<lambda>cid.
     st_bind (st_write (set_entry cid (new_entry expiry rv assistant cid))) (\<lambda>_.
       st_lift (Inr (cid, 1)))))"

definition updated_entry :: "int option \<Rightarrow> reservation \<Rightarrow> llm_message \<Rightarrow> context_entry \<Rightarrow> context_entry" where
  "updated_entry expiry rv assistant e =
     (let r = rv_request rv;
          e1 = e\<lparr>ce_version := ce_version e + 1, ce_state := ACTIVE, ce_reservation_id := None,
                 ce_expires_at := expiry, ce_ttl_seconds := int_or (rv_effective_ttl_seconds rv) 0\<rparr>
      in if mr_operation r = RESET
         then e1\<lparr>ce_binding := mr_binding r, ce_binding_fingerprint := rv_binding_fingerprint rv,
                 ce_transcript := mr_messages r @ [assistant]\<rparr>
         else e1\<lparr>ce_transcript := ce_transcript e @ mr_messages r @ [assistant]\<rparr>)"

definition commit_existing ::
  "int option \<Rightarrow> reservation \<Rightarrow> llm_message \<Rightarrow> (context_store, string \<times> int) effectful" where
  "commit_existing expiry rv assistant =
     (let cid = context_id_of (rv_request rv) in
     st_bind (st_read (require_entry cid)) (\<lambda>found.
     st_bind (st_lift found) (\<lambda>e.
     st_bind (st_write (set_entry cid (updated_entry expiry rv assistant e))) (\<lambda>_.
       st_lift (Inr (ce_context_id e, ce_version e + 1))))))"

definition receipt_for :: "context_options \<Rightarrow> reservation \<Rightarrow> int option \<Rightarrow> string \<Rightarrow> int \<Rightarrow> context_receipt" where
  "receipt_for opts rv expiry cid version =
     \<lparr>cr_context_id = cid, cr_version = version, cr_operation = mr_operation (rv_request rv), cr_state = ACTIVE,
      cr_expires_at = map_option (co_iso opts) expiry, cr_parent_context_id = rv_parent_context_id rv,
      cr_parent_version = rv_parent_version rv\<rparr>"

definition complete_idempotency ::
  "context_options \<Rightarrow> int option \<Rightarrow> reservation \<Rightarrow> context_receipt \<Rightarrow> (context_store, unit) effectful" where
  "complete_idempotency opts clk rv receipt =
     st_bind (st_lift (retain_time opts clk)) (\<lambda>retain.
       st_write (set_outcome (complete_key (rv_request rv))
         \<lparr>ie_state = Completed, ie_retain_until = retain, ie_request_id = Some (mr_request_id (rv_request rv)),
          ie_reservation_id = None, ie_error_code = None, ie_receipt = Some receipt, ie_context_id = None,
          ie_base_version = None\<rparr>))"

definition drop_reservation :: "reservation \<Rightarrow> context_store \<Rightarrow> context_store" where
  "drop_reservation rv s = s\<lparr>cs_reservations := dict_pop (rv_reservation_id rv) (cs_reservations s)\<rparr>"

definition expiry_for :: "int option \<Rightarrow> reservation \<Rightarrow> int option res" where
  "expiry_for clk rv =
     res_bind (clock_now clk) (\<lambda>now.
       case rv_effective_ttl_seconds rv of
         None \<Rightarrow> Inr None
       | Some ttl \<Rightarrow> res_bind (time_plus now (ttl * 1000000)) (\<lambda>t. Inr (Some t)))"

definition commit ::
  "context_options \<Rightarrow> int option \<Rightarrow> int option \<Rightarrow> (nat \<Rightarrow> string) \<Rightarrow> reservation \<Rightarrow> llm_message
     \<Rightarrow> (context_store, context_receipt) effectful" where
  "commit opts c0 c1 factory rv assistant =
     st_bind (st_read (require_reservation rv)) (\<lambda>active.
     st_bind (st_lift active) (\<lambda>_.
     st_bind (st_lift (expiry_for c0 rv)) (\<lambda>expiry.
     st_bind (if mr_operation (rv_request rv) \<in> {CREATE, FORK} then commit_new factory expiry rv assistant
              else commit_existing expiry rv assistant) (\<lambda>(cid, version).
     let receipt = receipt_for opts rv expiry cid version in
     st_bind (complete_idempotency opts c1 rv receipt) (\<lambda>_.
     st_bind (st_write (drop_reservation rv)) (\<lambda>_.
       st_lift (Inr receipt)))))))"

definition clear_reservation :: "reservation \<Rightarrow> context_store \<Rightarrow> context_store" where
  "clear_reservation rv s =
     (let cid = context_id_of (rv_request rv) in
      case dict_get (cs_contexts s) cid of
        None \<Rightarrow> s
      | Some e \<Rightarrow> if ce_reservation_id e = Some (rv_reservation_id rv)
                  then set_entry cid (e\<lparr>ce_reservation_id := None\<rparr>) s else s)"

definition abort ::
  "context_options \<Rightarrow> int option \<Rightarrow> int option \<Rightarrow> reservation \<Rightarrow> string option \<Rightarrow> (context_store, unit) effectful" where
  "abort opts c0 c1 rv error_code =
     st_bind (st_read (require_reservation rv)) (\<lambda>active.
     st_bind (st_lift active) (\<lambda>_.
     st_bind (st_write (\<lambda>s. drop_reservation rv (clear_reservation rv s))) (\<lambda>_.
     st_bind (st_lift (retain_time opts c0)) (\<lambda>retain.
     st_bind (st_write (set_outcome (complete_key (rv_request rv))
       \<lparr>ie_state = Failed, ie_retain_until = retain, ie_request_id = Some (mr_request_id (rv_request rv)),
        ie_reservation_id = None, ie_error_code = error_code, ie_receipt = None, ie_context_id = None,
        ie_base_version = None\<rparr>)) (\<lambda>_.
     st_bind (sweep_at opts c1) (\<lambda>_.
       st_lift (Inr ())))))))"

subsection \<open>Releasing\<close>

definition release_entry ::
  "context_options \<Rightarrow> int option \<Rightarrow> context_owner \<Rightarrow> string \<Rightarrow> int \<Rightarrow> (context_store, context_receipt) effectful" where
  "release_entry opts clk ow cid base_version =
     st_bind (st_read (require_mutable ow cid)) (\<lambda>found.
     st_bind (st_lift found) (\<lambda>e.
     st_bind (st_when (ce_reservation_id e \<noteq> None \<or> ce_version e \<noteq> base_version) (version_conflict e)) (\<lambda>_.
     let e1 = e\<lparr>ce_version := ce_version e + 1, ce_state := RELEASED, ce_expires_at := None\<rparr> in
     st_bind (st_write (set_entry cid e1)) (\<lambda>_.
     st_bind (st_lift (res_bind (clock_now clk) (\<lambda>now. time_plus now (co_tombstone_seconds opts * 1000000)))) (\<lambda>until.
     st_bind (st_write (set_entry cid (e1\<lparr>ce_tombstone_until := Some until\<rparr>))) (\<lambda>_.
       st_lift (Inr \<lparr>cr_context_id = cid, cr_version = ce_version e + 1, cr_operation = RELEASE, cr_state = RELEASED,
         cr_expires_at = None, cr_parent_context_id = None, cr_parent_version = None\<rparr>)))))))"

definition release ::
  "context_options \<Rightarrow> int option \<Rightarrow> int option \<Rightarrow> int option \<Rightarrow> context_owner \<Rightarrow> string \<Rightarrow> int \<Rightarrow> string
     \<Rightarrow> (context_store, context_receipt) effectful" where
  "release opts c0 c1 c2 ow cid base_version key =
     (let k = owner_key ow RELEASE_ACTION key in
     st_bind (sweep_at opts c0) (\<lambda>_.
     st_bind (st_lift (ensure_supported opts RELEASE)) (\<lambda>_.
     st_bind (st_lift (validate_context_id cid)) (\<lambda>_.
     st_bind (st_when (py_strip key = []) params_invalid) (\<lambda>_.
     st_bind (st_read (\<lambda>s. dict_get (cs_idempotency s) k)) (\<lambda>prior.
       case prior of
         Some i \<Rightarrow>
           st_lift (case ie_receipt i of
                      Some receipt \<Rightarrow>
                        if ie_state i = Completed \<and> ie_context_id i = Some cid \<and> ie_base_version i = Some base_version
                        then Inr receipt else Inl idempotency_conflict
                    | None \<Rightarrow> Inl idempotency_conflict)
       | None \<Rightarrow>
           st_bind (release_entry opts c1 ow cid base_version) (\<lambda>receipt.
           st_bind (st_lift (retain_time opts c2)) (\<lambda>retain.
           st_bind (st_write (set_outcome k
             \<lparr>ie_state = Completed, ie_retain_until = retain, ie_request_id = None, ie_reservation_id = None,
              ie_error_code = None, ie_receipt = Some receipt, ie_context_id = Some cid,
              ie_base_version = Some base_version\<rparr>)) (\<lambda>_.
             st_lift (Inr receipt))))))))))"

subsection \<open>Reading\<close>

definition entry_status :: "context_options \<Rightarrow> context_entry \<Rightarrow> context_store \<Rightarrow> context_status" where
  "entry_status opts e s =
     (let held = (case ce_reservation_id e of None \<Rightarrow> None | Some rid \<Rightarrow> if rid = [] then None else Some rid) in
      \<lparr>cst_state = (if held \<noteq> None then BUSY else ce_state e), cst_context_id = Some (ce_context_id e),
       cst_version = Some (ce_version e), cst_expires_at = map_option (co_iso opts) (ce_expires_at e),
       cst_request_id =
         (case held of
            None \<Rightarrow> None
          | Some rid \<Rightarrow> map_option (\<lambda>rv. mr_request_id (rv_request rv)) (dict_get (cs_reservations s) rid)),
       cst_error_code = None\<rparr>)"

definition status_by_context :: "context_options \<Rightarrow> int option \<Rightarrow> context_owner \<Rightarrow> string \<Rightarrow> (context_store, context_status) effectful" where
  "status_by_context opts clk ow cid =
     st_bind (sweep_at opts clk) (\<lambda>_.
     st_bind (st_lift (validate_context_id cid)) (\<lambda>_.
     st_bind (st_read (\<lambda>s. (require_entry cid s, s))) (\<lambda>(found, s).
     st_bind (st_lift found) (\<lambda>e.
     st_bind (st_lift (ensure_owner e ow)) (\<lambda>_.
       st_lift (Inr (entry_status opts e s)))))))"

definition status_from_receipt ::
  "context_options \<Rightarrow> int option \<Rightarrow> context_owner \<Rightarrow> context_receipt option \<Rightarrow> (context_store, context_status) effectful" where
  "status_from_receipt opts clk ow receipt =
     (case receipt of
        None \<Rightarrow> st_lift (Inl not_found)
      | Some rc \<Rightarrow>
          st_bind (st_read (\<lambda>s. dict_get (cs_contexts s) (cr_context_id rc) \<noteq> None)) (\<lambda>known.
            if known then status_by_context opts clk ow (cr_context_id rc)
            else st_lift (Inr \<lparr>cst_state = cr_state rc, cst_context_id = Some (cr_context_id rc),
                   cst_version = Some (cr_version rc), cst_expires_at = cr_expires_at rc,
                   cst_request_id = None, cst_error_code = None\<rparr>)))"

definition status_by_key ::
  "context_options \<Rightarrow> int option \<Rightarrow> int option \<Rightarrow> context_owner \<Rightarrow> string \<Rightarrow> (context_store, context_status) effectful" where
  "status_by_key opts c0 c1 ow key =
     st_bind (sweep_at opts c0) (\<lambda>_.
     st_bind (st_read (\<lambda>s. dict_get (cs_idempotency s) (owner_key ow COMPLETE_ACTION key))) (\<lambda>found.
       case found of
         None \<Rightarrow> st_lift (Inl not_found)
       | Some i \<Rightarrow>
           (case ie_state i of
              Busy \<Rightarrow> st_lift (Inr \<lparr>cst_state = BUSY, cst_context_id = None, cst_version = None, cst_expires_at = None,
                                 cst_request_id = ie_request_id i, cst_error_code = None\<rparr>)
            | Failed \<Rightarrow> st_lift (Inr \<lparr>cst_state = CTX_FAILED, cst_context_id = None, cst_version = None,
                                 cst_expires_at = None, cst_request_id = ie_request_id i,
                                 cst_error_code = ie_error_code i\<rparr>)
            | Completed \<Rightarrow> status_from_receipt opts c1 ow (ie_receipt i))))"

definition status ::
  "context_options \<Rightarrow> int option \<Rightarrow> int option \<Rightarrow> context_owner \<Rightarrow> string option \<Rightarrow> string option
     \<Rightarrow> (context_store, context_status) effectful" where
  "status opts c0 c1 ow cid key =
     (case (cid, key) of
        (None, Some k) \<Rightarrow> status_by_key opts c0 c1 ow k
      | (Some c, None) \<Rightarrow> status_by_context opts c0 ow c
      | _ \<Rightarrow> st_bind (sweep_at opts c0) (\<lambda>_. st_lift (Inl params_invalid)))"

definition snapshot :: "context_options \<Rightarrow> int option \<Rightarrow> context_owner \<Rightarrow> string \<Rightarrow> (context_store, context_snapshot) effectful" where
  "snapshot opts clk ow cid =
     st_bind (sweep_at opts clk) (\<lambda>_.
     st_bind (st_read (require_mutable ow cid)) (\<lambda>found.
     st_bind (st_lift found) (\<lambda>e.
       st_lift (Inr \<lparr>sn_context_id = ce_context_id e, sn_version = ce_version e, sn_state = ce_state e,
         sn_transcript = ce_transcript e, sn_binding = ce_binding e, sn_expires_at = ce_expires_at e\<rparr>))))"

definition sweep_expired :: "context_options \<Rightarrow> int option \<Rightarrow> (context_store, nat) effectful" where
  "sweep_expired opts clk = sweep_at opts clk"

section \<open>Lemmas\<close>

subsection \<open>Sweeping\<close>

text \<open>What a sweep does to an entry: nothing, or it expires; an entry with a mutation running stays.\<close>

definition aged :: "int \<Rightarrow> context_entry \<Rightarrow> context_entry \<Rightarrow> bool" where
  "aged now e e' \<longleftrightarrow>
     e' = e \<or> expires_now now e \<and> (\<exists>t. e' = e\<lparr>ce_state := EXPIRED, ce_expires_at := None, ce_tombstone_until := t\<rparr>)"

lemma aged_expired:
  "expires_now now e \<Longrightarrow> aged now e (e\<lparr>ce_state := EXPIRED, ce_expires_at := None\<rparr>)"
  "expires_now now e \<Longrightarrow> aged now e (e\<lparr>ce_state := EXPIRED, ce_expires_at := None, ce_tombstone_until := t\<rparr>)"
  unfolding aged_def by (cases e; force)+

lemma aged_keeps:
  "aged now e e' \<Longrightarrow> ce_context_id e' = ce_context_id e \<and> ce_owner e' = ce_owner e \<and> ce_version e' = ce_version e
     \<and> ce_transcript e' = ce_transcript e \<and> ce_binding e' = ce_binding e \<and> ce_reservation_id e' = ce_reservation_id e
     \<and> (ce_state e' = ce_state e \<or> ce_state e = ACTIVE \<and> ce_state e' = EXPIRED)
     \<and> (ce_reservation_id e \<noteq> None \<longrightarrow> e' = e)"
  by (auto simp: aged_def expires_now_def)

lemma expire_loop_rel:
  "list_all2 (\<lambda>x y. fst x = fst y \<and> aged now (snd x) (snd y)) cs (snd (expire_loop opts now cs))"
proof (induction opts now cs rule: expire_loop.induct)
  case (2 opts now k e cs)
  have same: "list_all2 (\<lambda>x y. fst x = fst y \<and> aged now (snd x) (snd y)) cs cs"
    by (rule list.rel_refl) (simp add: aged_def)
  show ?case
  proof (cases "expires_now now e")
    case True
    show ?thesis
    proof (cases "time_plus now (co_tombstone_seconds opts * 1000000)")
      case (Inl err)
      then show ?thesis using True same aged_expired(1) by (simp add: Let_def)
    next
      case (Inr t)
      then show ?thesis using True 2(1) [OF True refl Inr] aged_expired(2)
        by (auto simp: Let_def split: prod.splits)
    qed
  next
    case False
    then show ?thesis using 2(2) by (auto simp: aged_def split: prod.splits)
  qed
qed simp

lemma rel_dict_keys:
  "list_all2 (\<lambda>x y. fst x = fst y \<and> R (snd x) (snd y)) xs ys \<Longrightarrow> map fst ys = map fst xs"
  by (induction rule: list_all2_induct) auto

lemma rel_dict_get:
  "list_all2 (\<lambda>x y. fst x = fst y \<and> R (snd x) (snd y)) xs ys \<Longrightarrow> rel_option R (dict_get xs k) (dict_get ys k)"
  by (induction rule: list_all2_induct) (auto simp: dict_get_def)

lemma live_contexts_count: "live_contexts ow cs = dict_count (\<lambda>e. ce_owner e = ow \<and> ce_state e = ACTIVE) cs"
  by (simp add: live_contexts_def dict_count_def)

lemma pending_count:
  "pending_allocations ow rs
     = dict_count (\<lambda>r. mr_owner (rv_request r) = ow \<and> mr_operation (rv_request r) \<in> {CREATE, FORK}) rs"
  by (simp add: pending_allocations_def dict_count_def)

lemma rel_live:
  "list_all2 (\<lambda>x y. fst x = fst y \<and> aged now (snd x) (snd y)) xs ys \<Longrightarrow> live_contexts ow ys \<le> live_contexts ow xs"
proof (induction rule: list_all2_induct)
  case (Cons x xs y ys)
  then show ?case using aged_keeps [of now "snd x" "snd y"]
    by (cases x; cases y) (auto simp: live_contexts_def)
qed simp

text \<open>The effect of a sweep on the store.\<close>

definition swept :: "context_store \<Rightarrow> context_store \<Rightarrow> bool" where
  "swept s s' \<longleftrightarrow>
     cs_reservations s' = cs_reservations s
     \<and> distinct (map fst (cs_contexts s')) \<and> distinct (map fst (cs_idempotency s'))
     \<and> (\<forall>cid e'. dict_get (cs_contexts s') cid = Some e' \<longrightarrow>
          (\<exists>now e. dict_get (cs_contexts s) cid = Some e \<and> aged now e e'))
     \<and> (\<forall>cid e. dict_get (cs_contexts s) cid = Some e \<and> ce_reservation_id e \<noteq> None \<and> ce_state e = ACTIVE \<longrightarrow>
          dict_get (cs_contexts s') cid = Some e)
     \<and> (\<forall>k i. dict_get (cs_idempotency s) k = Some i \<and> ie_state i = Busy \<longrightarrow> dict_get (cs_idempotency s') k = Some i)
     \<and> (\<forall>ow. live_contexts ow (cs_contexts s') \<le> live_contexts ow (cs_contexts s))"

lemma sweep_swept:
  assumes d: "distinct (map fst (cs_contexts s))" "distinct (map fst (cs_idempotency s))"
  shows "swept s (snd (sweep opts now s))"
proof -
  let ?E = "expire_loop opts now (cs_contexts s)"
  obtain r cs where E: "?E = (r, cs)" by (cases ?E)
  note rel = expire_loop_rel [of now "cs_contexts s" opts, unfolded E snd_conv]
  have dc: "distinct (map fst cs)" using rel_dict_keys [OF rel] d(1) by simp
  have old: "\<exists>now e. dict_get (cs_contexts s) cid = Some e \<and> aged now e e'" if "dict_get cs cid = Some e'" for cid e'
    using rel_dict_get [OF rel, of cid] that by (auto simp: option_rel_Some2)
  have held: "dict_get cs cid = Some e"
    if "dict_get (cs_contexts s) cid = Some e" "ce_reservation_id e \<noteq> None" for cid e
    using rel_dict_get [OF rel, of cid] that aged_keeps [of now e] by (auto simp: option_rel_Some1)
  have live: "live_contexts ow cs \<le> live_contexts ow (cs_contexts s)" for ow by (rule rel_live [OF rel])
  show ?thesis
  proof (cases r)
    case (Inl err)
    then show ?thesis using E d dc old held live by (auto simp: sweep_def swept_def)
  next
    case (Inr n)
    have lf: "live_contexts ow (filter (\<lambda>(k, e). \<not> buried now e) cs) \<le> live_contexts ow (cs_contexts s)" for ow
      using live [of ow] dict_count_filter [of _ "\<lambda>e. \<not> buried now e" cs]
      unfolding live_contexts_count by (meson le_trans)
    have h: "\<not> buried now e" if "ce_state e = ACTIVE" for e using that by (simp add: buried_def)
    show ?thesis
      using Inr E d dc old held lf h
      by (auto simp: sweep_def swept_def Let_def dict_get_filter distinct_dict_filter forgotten_def split: option.splits if_splits)
  qed
qed

lemma swept_refl:
  "distinct (map fst (cs_contexts s)) \<Longrightarrow> distinct (map fst (cs_idempotency s)) \<Longrightarrow> swept s s"
  by (auto simp: swept_def aged_def)

lemma sweep_at_swept:
  "distinct (map fst (cs_contexts s)) \<Longrightarrow> distinct (map fst (cs_idempotency s)) \<Longrightarrow> sweep_at opts clk s = (r, s') \<Longrightarrow> swept s s'"
  using sweep_swept [of s opts "the clk"] swept_refl [of s]
  by (cases clk) (auto simp: sweep_at_def clock_now_def st_bind_def)

subsection \<open>The invariant\<close>

definition rv_op :: "reservation \<Rightarrow> context_operation" where
  "rv_op rv = mr_operation (rv_request rv)"

definition rv_cid :: "reservation \<Rightarrow> string" where
  "rv_cid rv = context_id_of (rv_request rv)"

text \<open>A running append or reset holds its context, which is still as it was when the mutation was reserved.\<close>

definition holds_context :: "context_store \<Rightarrow> reservation \<Rightarrow> bool" where
  "holds_context s rv \<longleftrightarrow>
     (\<exists>e. dict_get (cs_contexts s) (rv_cid rv) = Some e \<and> ce_reservation_id e = Some (rv_reservation_id rv)
        \<and> ce_state e = ACTIVE \<and> Some (ce_version e) = mr_base_version (rv_request rv)
        \<and> ce_transcript e = rv_base_transcript rv \<and> ce_owner e = mr_owner (rv_request rv))"

text \<open>The key of a running mutation is busy.\<close>

definition key_busy :: "context_store \<Rightarrow> reservation \<Rightarrow> bool" where
  "key_busy s rv \<longleftrightarrow>
     (\<exists>i. dict_get (cs_idempotency s) (complete_key (rv_request rv)) = Some i \<and> ie_state i = Busy
        \<and> ie_reservation_id i = Some (rv_reservation_id rv))"

definition entry_ok :: "context_store \<Rightarrow> string \<Rightarrow> context_entry \<Rightarrow> bool" where
  "entry_ok s cid e \<longleftrightarrow>
     ce_context_id e = cid \<and> ce_state e \<in> {ACTIVE, RELEASED, EXPIRED}
     \<and> (\<forall>rid. ce_reservation_id e = Some rid \<longrightarrow>
          (\<exists>rv. dict_get (cs_reservations s) rid = Some rv \<and> rv_op rv \<in> {APPEND, RESET} \<and> rv_cid rv = cid))"

definition reservation_ok :: "context_store \<Rightarrow> string \<Rightarrow> reservation \<Rightarrow> bool" where
  "reservation_ok s rid rv \<longleftrightarrow>
     rv_reservation_id rv = rid \<and> rv_op rv \<noteq> RELEASE \<and> key_busy s rv \<and> (rv_op rv \<in> {APPEND, RESET} \<longrightarrow> holds_context s rv)"

definition within_limit :: "context_options \<Rightarrow> context_store \<Rightarrow> bool" where
  "within_limit opts s \<longleftrightarrow>
     (\<forall>ow. int (live_contexts ow (cs_contexts s) + pending_allocations ow (cs_reservations s))
        \<le> max 0 (co_max_contexts_per_principal opts))"

definition keys_distinct :: "context_store \<Rightarrow> bool" where
  "keys_distinct s \<longleftrightarrow>
     distinct (map fst (cs_contexts s)) \<and> distinct (map fst (cs_idempotency s)) \<and> distinct (map fst (cs_reservations s))"

definition context_inv :: "context_options \<Rightarrow> context_store \<Rightarrow> bool" where
  "context_inv opts s \<longleftrightarrow>
     keys_distinct s \<and> within_limit opts s
     \<and> (\<forall>cid e. dict_get (cs_contexts s) cid = Some e \<longrightarrow> entry_ok s cid e)
     \<and> (\<forall>rid rv. dict_get (cs_reservations s) rid = Some rv \<longrightarrow> reservation_ok s rid rv)"

lemma context_invI:
  assumes "keys_distinct s" "within_limit opts s"
    and "\<And>cid e. dict_get (cs_contexts s) cid = Some e \<Longrightarrow> entry_ok s cid e"
    and "\<And>rid rv. dict_get (cs_reservations s) rid = Some rv \<Longrightarrow> reservation_ok s rid rv"
  shows "context_inv opts s"
  using assms by (auto simp: context_inv_def)

lemma context_invD:
  assumes "context_inv opts s"
  shows "keys_distinct s" "within_limit opts s"
    and "dict_get (cs_contexts s) cid = Some e \<Longrightarrow> entry_ok s cid e"
    and "dict_get (cs_reservations s) rid = Some rv \<Longrightarrow> reservation_ok s rid rv"
  using assms by (auto simp: context_inv_def)

lemma swept_inv:
  assumes inv: "context_inv opts s" and sw: "swept s s'"
  shows "context_inv opts s'"
proof (rule context_invI)
  have res: "cs_reservations s' = cs_reservations s" using sw by (simp add: swept_def)
  show "keys_distinct s'" using context_invD(1) [OF inv] sw by (simp add: keys_distinct_def swept_def)
  show "within_limit opts s'"
    using context_invD(2) [OF inv] sw unfolding within_limit_def swept_def
    by (smt (verit, best) add_le_mono1 of_nat_le_iff order_trans)
  show "entry_ok s' cid e'" if g: "dict_get (cs_contexts s') cid = Some e'" for cid e'
  proof -
    obtain now e where "dict_get (cs_contexts s) cid = Some e" "aged now e e'"
      using sw g unfolding swept_def by blast
    then show ?thesis
      using context_invD(3) [OF inv, of cid e] aged_keeps [of now e e'] res by (auto simp: entry_ok_def)
  qed
  show "reservation_ok s' rid rv" if "dict_get (cs_reservations s') rid = Some rv" for rid rv
  proof -
    have ok: "reservation_ok s rid rv" using context_invD(4) [OF inv] that res by simp
    have "key_busy s' rv" using ok sw unfolding reservation_ok_def key_busy_def swept_def by blast
    moreover have "holds_context s' rv" if "rv_op rv \<in> {APPEND, RESET}"
    proof -
      have "holds_context s rv" using ok that by (auto simp: reservation_ok_def)
      then show ?thesis using sw unfolding holds_context_def swept_def by blast
    qed
    ultimately show ?thesis using ok by (simp add: reservation_ok_def)
  qed
qed

lemma sweep_keeps [keeps]: "st_keeps (context_inv opts) (sweep_at opts clk)"
  unfolding st_keeps_def
proof (intro allI impI)
  fix s assume inv: "context_inv opts s"
  show "context_inv opts (snd (sweep_at opts clk s))"
    using context_invD(1) [OF inv] sweep_at_swept [of s opts clk "fst (sweep_at opts clk s)"] swept_inv [OF inv]
    by (simp add: keys_distinct_def)
qed

subsection \<open>Reserving\<close>

definition mark_reserved :: "string \<Rightarrow> reservation \<Rightarrow> context_store \<Rightarrow> context_store" where
  "mark_reserved rid rv s =
     (if rv_op rv \<in> {APPEND, RESET}
      then set_entry (rv_cid rv) ((the (dict_get (cs_contexts s) (rv_cid rv)))\<lparr>ce_reservation_id := Some rid\<rparr>) s
      else s)"

text \<open>What a reservation that is granted has found in the (swept) store.\<close>

definition granted :: "context_options \<Rightarrow> string \<Rightarrow> mutation_request \<Rightarrow> reservation \<Rightarrow> context_store \<Rightarrow> bool" where
  "granted opts rid r rv s \<longleftrightarrow>
     rv_reservation_id rv = rid \<and> rv_request rv = r
     \<and> (mr_operation r \<in> {CREATE, FORK} \<longrightarrow> ensure_allocation_available opts (mr_owner r) s = Inr ())
     \<and> (mr_operation r \<noteq> CREATE \<longrightarrow>
          (\<exists>e. require_mutable (mr_owner r) (context_id_of r) s = Inr e \<and> ce_reservation_id e = None
             \<and> Some (ce_version e) = mr_base_version r \<and> rv_base_transcript rv = ce_transcript e))"

lemma reserve_new_run:
  "reserve_new H opts rid r s = (Inr rv, s') \<Longrightarrow> mr_operation r = CREATE \<Longrightarrow> s' = s \<and> granted opts rid r rv s"
  "reserve_new H opts rid r s = (Inl err, s') \<Longrightarrow> s' = s"
  by (auto simp: reserve_new_def st_bind_def new_reservation_def granted_def res_simps split: sum.splits)

lemma require_mutable_Inr:
  "require_mutable ow cid s = Inr e \<longleftrightarrow>
     dict_get (cs_contexts s) cid = Some e \<and> ce_owner e = ow \<and> ce_state e \<noteq> EXPIRED \<and> ce_state e \<noteq> RELEASED"
  by (auto simp: require_mutable_def require_entry_def ensure_owner_def res_simps split: if_splits)

lemma reserve_existing_run:
  assumes "mr_operation r \<notin> {CREATE, RELEASE}"
  shows "reserve_existing H opts clk rid r s = (Inr rv, s') \<Longrightarrow> s' = mark_reserved rid rv s \<and> granted opts rid r rv s"
    and "reserve_existing H opts clk rid r s = (Inl err, s') \<Longrightarrow> s' = s"
proof -
  show "s' = s" if "reserve_existing H opts clk rid r s = (Inl err, s')"
    using that by (auto simp: reserve_existing_def st_bind_def Let_def split: sum.splits if_splits prod.splits)
  assume a: "reserve_existing H opts clk rid r s = (Inr rv, s')"
  then obtain e where e: "require_mutable (mr_owner r) (context_id_of r) s = Inr e"
    by (cases "require_mutable (mr_owner r) (context_id_of r) s")
       (auto simp: reserve_existing_def Let_def st_bind_def)
  have op: "mr_operation r \<in> {APPEND, RESET} \<longleftrightarrow> mr_operation r \<noteq> FORK"
    using assms by (cases "mr_operation r") auto
  show "s' = mark_reserved rid rv s \<and> granted opts rid r rv s"
    using a e op
    by (auto simp: reserve_existing_def Let_def res_simps granted_def mark_reserved_def new_reservation_def
        rv_op_def rv_cid_def require_mutable_Inr split: if_splits)
qed

text \<open>A reservation that fails leaves the swept store; one that succeeds adds itself and its busy key.\<close>

lemma reserve_run:
  assumes run: "reserve H opts c0 c1 c2 rid r s = (res, s')" and clk: "retain_time opts c2 = Inr retain"
  obtains (refused) e x s1 where "res = Inl e" "sweep_at opts c0 s = (x, s1)" "s' = s1"
  | (reserved) rv n s1 where "res = Inr rv" "sweep_at opts c0 s = (Inr n, s1)" "granted opts rid r rv s1"
      "validate_request r = Inr ()" "mr_operation r \<in> set (co_supported opts)"
      "dict_get (cs_idempotency s1) (complete_key r) = None"
      "s' = set_outcome (complete_key r)
         \<lparr>ie_state = Busy, ie_retain_until = retain, ie_request_id = Some (mr_request_id r), ie_reservation_id = Some rid,
          ie_error_code = None, ie_receipt = None, ie_context_id = None, ie_base_version = None\<rparr>
         ((mark_reserved rid rv s1)\<lparr>cs_reservations := dict_set rid rv (cs_reservations s1)\<rparr>)"
proof -
  obtain x s1 where sw: "sweep_at opts c0 s = (x, s1)" by (cases "sweep_at opts c0 s")
  let ?grant = "if mr_operation r = CREATE then reserve_new H opts rid r else reserve_existing H opts c1 rid r"
  obtain g s2 where g: "?grant s1 = (g, s2)" by (cases "?grant s1")
  show thesis
  proof (cases "\<exists>n. x = Inr n \<and> validate_request r = Inr () \<and> mr_operation r \<in> set (co_supported opts)
        \<and> dict_get (cs_idempotency s1) (complete_key r) = None")
    case False
    then have "s' = s1 \<and> (\<exists>e. res = Inl e)"
      using run sw by (auto simp: reserve_def st_bind_def ensure_supported_def split: sum.splits if_splits)
    then show ?thesis using refused sw by blast
  next
    case True
    then have op: "mr_operation r \<noteq> RELEASE" by (auto simp: validate_request_def Let_def)
    show ?thesis
    proof (cases g)
      case (Inl e)
      have "s2 = s1" using g Inl op reserve_new_run(2) reserve_existing_run(2) [of r] by (auto split: if_splits)
      moreover have "s' = s2" "res = Inl e" using run sw g Inl True by (auto simp: reserve_def st_bind_def ensure_supported_def)
      ultimately show ?thesis using refused sw by blast
    next
      case (Inr rv)
      have gr: "granted opts rid r rv s1 \<and> s2 = mark_reserved rid rv s1"
      proof (cases "mr_operation r = CREATE")
        case True
        then show ?thesis using reserve_new_run(1) g Inr by (auto simp: mark_reserved_def granted_def rv_op_def)
      next
        case False
        then show ?thesis using reserve_existing_run(1) [of r] g Inr op by auto
      qed
      have "cs_reservations s2 = cs_reservations s1"
        using gr by (simp add: mark_reserved_def set_entry_def)
      moreover have "res = Inr rv \<and> s' = set_outcome (complete_key r)
         \<lparr>ie_state = Busy, ie_retain_until = retain, ie_request_id = Some (mr_request_id r), ie_reservation_id = Some rid,
          ie_error_code = None, ie_receipt = None, ie_context_id = None, ie_base_version = None\<rparr>
         (s2\<lparr>cs_reservations := dict_set rid rv (cs_reservations s2)\<rparr>)"
        using run sw g Inr True clk by (auto simp: reserve_def st_bind_def ensure_supported_def)
      ultimately show ?thesis using reserved [of rv _ s1] sw True gr by auto
    qed
  qed
qed

lemma set_entry_simps [simp]:
  "cs_contexts (set_entry cid e s) = dict_set cid e (cs_contexts s)"
  "cs_idempotency (set_entry cid e s) = cs_idempotency s" "cs_reservations (set_entry cid e s) = cs_reservations s"
  "cs_contexts (set_outcome k i s) = cs_contexts s" "cs_reservations (set_outcome k i s) = cs_reservations s"
  "cs_idempotency (set_outcome k i s) = dict_set k i (cs_idempotency s)"
  "cs_contexts (drop_reservation rv s) = cs_contexts s" "cs_idempotency (drop_reservation rv s) = cs_idempotency s"
  "cs_reservations (drop_reservation rv s) = dict_pop (rv_reservation_id rv) (cs_reservations s)"
  by (simp_all add: set_entry_def set_outcome_def drop_reservation_def)

lemma set_entry_twice [simp]: "set_entry cid x (set_entry cid y s) = set_entry cid x s"
  by (simp add: set_entry_def)

lemma mark_reserved_simps [simp]:
  "cs_idempotency (mark_reserved rid rv s) = cs_idempotency s" "cs_reservations (mark_reserved rid rv s) = cs_reservations s"
  by (simp_all add: mark_reserved_def)

lemma live_same_kind:
  assumes "distinct (map fst cs)" "dict_get cs cid = Some e" "ce_owner e' = ce_owner e" "ce_state e' = ce_state e"
  shows "live_contexts ow (dict_set cid e' cs) = live_contexts ow cs"
  using dict_count_set [OF assms(1), of "\<lambda>e. ce_owner e = ow \<and> ce_state e = ACTIVE" cid e'] assms(2-4)
  by (simp add: live_contexts_count split: if_splits)

lemma pending_new:
  assumes "distinct (map fst rs)" "dict_get rs rid = None"
  shows "pending_allocations ow (dict_set rid rv rs) =
    pending_allocations ow rs + (if mr_owner (rv_request rv) = ow \<and> rv_op rv \<in> {CREATE, FORK} then 1 else 0)"
  using dict_count_set [OF assms(1), of _ rid rv] assms(2) by (simp add: pending_count rv_op_def)

lemma reserve_inv:
  assumes inv: "context_inv opts s1" and g: "granted opts rid r rv s1" and op: "mr_operation r \<noteq> RELEASE"
    and fresh: "dict_get (cs_reservations s1) rid = None"
    and key: "dict_get (cs_idempotency s1) (complete_key r) = None"
    and i: "ie_state i = Busy" "ie_reservation_id i = Some rid"
  shows "context_inv opts (set_outcome (complete_key r) i
           ((mark_reserved rid rv s1)\<lparr>cs_reservations := dict_set rid rv (cs_reservations s1)\<rparr>))"
    (is "context_inv opts ?s")
proof (rule context_invI)
  note D = context_invD [OF inv]
  have rq: "rv_request rv = r" "rv_reservation_id rv = rid" using g by (simp_all add: granted_def)
  have other_key: "complete_key (rv_request rv') \<noteq> complete_key r"
    if "dict_get (cs_reservations s1) rid' = Some rv'" for rid' rv'
    using D(4) [OF that] key by (auto simp: reservation_ok_def key_busy_def)
  show "keys_distinct ?s" using D(1) by (simp add: keys_distinct_def distinct_dict_set mark_reserved_def)
  obtain e where e: "mr_operation r \<noteq> CREATE \<longrightarrow> dict_get (cs_contexts s1) (context_id_of r) = Some e \<and> ce_owner e = mr_owner r
      \<and> ce_state e \<notin> {EXPIRED, RELEASED} \<and> ce_reservation_id e = None \<and> Some (ce_version e) = mr_base_version r
      \<and> rv_base_transcript rv = ce_transcript e"
    using g by (auto simp: granted_def require_mutable_Inr)
  have ctx: "cs_contexts ?s = (if rv_op rv \<in> {APPEND, RESET}
      then dict_set (rv_cid rv) (e\<lparr>ce_reservation_id := Some rid\<rparr>) (cs_contexts s1) else cs_contexts s1)"
    using e rq by (auto simp: mark_reserved_def rv_op_def rv_cid_def)
  have live: "live_contexts ow (cs_contexts ?s) = live_contexts ow (cs_contexts s1)" for ow
    unfolding ctx using D(1) e rq by (auto simp: keys_distinct_def rv_op_def rv_cid_def intro!: live_same_kind)
  show "within_limit opts ?s"
    unfolding within_limit_def
  proof
    fix ow
    have "int (live_contexts ow (cs_contexts s1) + pending_allocations ow (cs_reservations s1)) < co_max_contexts_per_principal opts"
      if "mr_owner r = ow" "rv_op rv \<in> {CREATE, FORK}"
      using g that rq by (auto simp: granted_def rv_op_def ensure_allocation_available_def split: if_splits)
    then show "int (live_contexts ow (cs_contexts ?s) + pending_allocations ow (cs_reservations ?s))
        \<le> max 0 (co_max_contexts_per_principal opts)"
      using D(2) D(1) fresh rq unfolding within_limit_def live
      by (auto simp: pending_new keys_distinct_def)
  qed
  show "entry_ok ?s cid x" if "dict_get (cs_contexts ?s) cid = Some x" for cid x
  proof (cases "rv_op rv \<in> {APPEND, RESET} \<and> cid = rv_cid rv")
    case True
    then have x: "x = e\<lparr>ce_reservation_id := Some rid\<rparr>" using that unfolding ctx by simp
    have "dict_get (cs_contexts s1) cid = Some e" using True e rq by (auto simp: rv_op_def rv_cid_def)
    then show ?thesis using D(3) True x by (auto simp: entry_ok_def)
  next
    case False
    then have "dict_get (cs_contexts s1) cid = Some x" using that unfolding ctx by (auto split: if_splits)
    from D(3) [OF this] show ?thesis using fresh by (fastforce simp: entry_ok_def)
  qed
  show "reservation_ok ?s rid' rv'" if m: "dict_get (cs_reservations ?s) rid' = Some rv'" for rid' rv'
  proof (cases "rid' = rid")
    case True
    then have "rv' = rv" using m by simp
    moreover have "holds_context ?s rv" if op: "rv_op rv \<in> {APPEND, RESET}"
    proof -
      have c: "dict_get (cs_contexts ?s) (rv_cid rv) = Some (e\<lparr>ce_reservation_id := Some rid\<rparr>)" unfolding ctx using op by auto
      have "ce_state e = ACTIVE" using D(3) [of "context_id_of r" e] e op rq by (auto simp: entry_ok_def rv_op_def)
      then show ?thesis unfolding holds_context_def c using e op rq by (auto simp: rv_op_def)
    qed
    ultimately show ?thesis using True rq i op by (auto simp: reservation_ok_def key_busy_def rv_op_def)
  next
    case False
    then have old: "dict_get (cs_reservations s1) rid' = Some rv'" using m by simp
    have ok: "reservation_ok s1 rid' rv'" by (rule D(4) [OF old])
    have "holds_context ?s rv'" if op: "rv_op rv' \<in> {APPEND, RESET}"
    proof -
      obtain e' where e': "dict_get (cs_contexts s1) (rv_cid rv') = Some e'" "ce_reservation_id e' = Some rid'"
        using ok op by (auto simp: reservation_ok_def holds_context_def)
      have "rv_op rv \<in> {APPEND, RESET} \<Longrightarrow> rv_cid rv' \<noteq> rv_cid rv"
        using e e' rq by (auto simp: rv_op_def rv_cid_def)
      then have "dict_get (cs_contexts ?s) (rv_cid rv') = dict_get (cs_contexts s1) (rv_cid rv')" unfolding ctx by auto
      then show ?thesis using ok op by (auto simp: reservation_ok_def holds_context_def)
    qed
    then show ?thesis using ok other_key [OF old] by (auto simp: reservation_ok_def key_busy_def)
  qed
qed

subsection \<open>Committing, aborting, releasing\<close>

lemma reservation_unique_holder:
  assumes "context_inv opts s" "dict_get (cs_reservations s) rid = Some rv" "rv_op rv \<in> {APPEND, RESET}"
    and "dict_get (cs_reservations s) rid' = Some rv'" "rv_op rv' \<in> {APPEND, RESET}" "rv_cid rv = rv_cid rv'"
  shows "rid = rid'"
  using context_invD(4) [OF assms(1,2)] context_invD(4) [OF assms(1,4)] assms(3,5,6)
  by (auto simp: reservation_ok_def holds_context_def)

lemma same_key_same_reservation:
  assumes "context_inv opts s" "dict_get (cs_reservations s) rid = Some rv" "dict_get (cs_reservations s) rid' = Some rv'"
    and "complete_key (rv_request rv) = complete_key (rv_request rv')"
  shows "rid = rid'"
  using context_invD(4) [OF assms(1,2)] context_invD(4) [OF assms(1,3)] assms(4)
  by (auto simp: reservation_ok_def key_busy_def)

text \<open>
  How the context table changes when a reservation ends: a running append or reset gives up its hold,
  a pending allocation may turn into a new context.
\<close>

definition gives_up :: "reservation \<Rightarrow> context_store \<Rightarrow> context_entry dict \<Rightarrow> bool" where
  "gives_up rv s cs \<longleftrightarrow>
     cs = cs_contexts s \<and> rv_op rv \<notin> {APPEND, RESET}
     \<or> (\<exists>cid e. cs = dict_set cid e (cs_contexts s) \<and> ce_context_id e = cid \<and> ce_reservation_id e = None
          \<and> ce_state e = ACTIVE \<and> ce_owner e = mr_owner (rv_request rv)
          \<and> (rv_op rv \<in> {APPEND, RESET} \<and> cid = rv_cid rv
             \<or> rv_op rv \<in> {CREATE, FORK} \<and> dict_get (cs_contexts s) cid = None))"

lemma finish_limit:
  assumes inv: "context_inv opts s" and rv: "dict_get (cs_reservations s) (rv_reservation_id rv) = Some rv"
    and s': "cs_reservations s' = dict_pop (rv_reservation_id rv) (cs_reservations s)" "gives_up rv s (cs_contexts s')"
  shows "within_limit opts s'"
  unfolding within_limit_def
proof
  fix ow
  note D = context_invD [OF inv]
  let ?P = "\<lambda>r. mr_owner (rv_request r) = ow \<and> mr_operation (rv_request r) \<in> {CREATE, FORK}"
  let ?L = "\<lambda>e. ce_owner e = ow \<and> ce_state e = ACTIVE"
  have p: "pending_allocations ow (cs_reservations s') + (if ?P rv then 1 else 0) = pending_allocations ow (cs_reservations s)"
    using dict_count_pop [of "cs_reservations s" ?P "rv_reservation_id rv"] D(1) rv
    by (simp add: pending_count s'(1) keys_distinct_def)
  have "live_contexts ow (cs_contexts s') \<le> live_contexts ow (cs_contexts s) + (if ?P rv then 1 else 0)"
  proof (cases "cs_contexts s' = cs_contexts s")
    case False
    then obtain cid e where c: "cs_contexts s' = dict_set cid e (cs_contexts s)" "ce_state e = ACTIVE"
        "ce_owner e = mr_owner (rv_request rv)"
        "rv_op rv \<in> {APPEND, RESET} \<and> cid = rv_cid rv \<or> rv_op rv \<in> {CREATE, FORK} \<and> dict_get (cs_contexts s) cid = None"
      using s'(2) unfolding gives_up_def by blast
    have n: "dict_count ?L (cs_contexts s') + (case dict_get (cs_contexts s) cid of None \<Rightarrow> 0 | Some x \<Rightarrow> if ?L x then 1 else 0)
        = dict_count ?L (cs_contexts s) + (if ?L e then 1 else 0)"
      unfolding c(1) using D(1) by (intro dict_count_set) (simp add: keys_distinct_def)
    from c(4) show ?thesis
    proof
      assume op: "rv_op rv \<in> {APPEND, RESET} \<and> cid = rv_cid rv"
      then obtain x where "dict_get (cs_contexts s) cid = Some x" "ce_state x = ACTIVE" "ce_owner x = mr_owner (rv_request rv)"
        using D(4) [OF rv] by (auto simp: reservation_ok_def holds_context_def)
      then show ?thesis using n c by (simp add: live_contexts_count split: if_splits)
    next
      assume "rv_op rv \<in> {CREATE, FORK} \<and> dict_get (cs_contexts s) cid = None"
      then show ?thesis using n c by (auto simp: live_contexts_count rv_op_def split: if_splits)
    qed
  qed simp
  then show "int (live_contexts ow (cs_contexts s') + pending_allocations ow (cs_reservations s'))
      \<le> max 0 (co_max_contexts_per_principal opts)"
    using p D(2) unfolding within_limit_def by (smt (verit, best) of_nat_le_iff add_le_mono1 group_cancel.add2 add.commute)
qed

lemma finish_entry:
  assumes inv: "context_inv opts s" and rv: "dict_get (cs_reservations s) (rv_reservation_id rv) = Some rv"
    and s': "cs_reservations s' = dict_pop (rv_reservation_id rv) (cs_reservations s)" "gives_up rv s (cs_contexts s')"
    and c: "dict_get (cs_contexts s') c = Some x"
  shows "entry_ok s' c x"
proof -
  have upd: "ce_context_id x = c \<and> ce_reservation_id x = None \<and> ce_state x = ACTIVE
      \<or> dict_get (cs_contexts s) c = Some x \<and> (rv_op rv \<in> {APPEND, RESET} \<longrightarrow> c \<noteq> rv_cid rv)"
    using s'(2) c by (auto simp: gives_up_def split: if_splits)
  then show ?thesis
  proof
    assume old: "dict_get (cs_contexts s) c = Some x \<and> (rv_op rv \<in> {APPEND, RESET} \<longrightarrow> c \<noteq> rv_cid rv)"
    note ok = context_invD(3) [OF inv conjunct1 [OF old]]
    have "x_rid \<noteq> rv_reservation_id rv" if "ce_reservation_id x = Some x_rid" for x_rid
      using ok that rv old by (auto simp: entry_ok_def)
    then show ?thesis using ok s'(1) by (fastforce simp: entry_ok_def)
  qed (simp add: entry_ok_def)
qed

text \<open>
  A reservation that ends: it leaves the table, its key may get an outcome, and it gives up what it held.
\<close>

lemma finish_inv:
  assumes inv: "context_inv opts s" and rv: "dict_get (cs_reservations s) (rv_reservation_id rv) = Some rv"
    and s': "cs_reservations s' = dict_pop (rv_reservation_id rv) (cs_reservations s)" "gives_up rv s (cs_contexts s')"
      "cs_idempotency s' = dict_set (complete_key (rv_request rv)) i (cs_idempotency s) \<or> cs_idempotency s' = cs_idempotency s"
  shows "context_inv opts s'"
proof (rule context_invI)
  note D = context_invD [OF inv]
  show "keys_distinct s'"
    using D(1) s' by (auto simp: keys_distinct_def distinct_dict_set distinct_dict_pop gives_up_def)
  show "within_limit opts s'" by (rule finish_limit [OF inv rv s'(1,2)])
  show "entry_ok s' c x" if "dict_get (cs_contexts s') c = Some x" for c x
    by (rule finish_entry [OF inv rv s'(1,2) that])
  show "reservation_ok s' rid rw" if m: "dict_get (cs_reservations s') rid = Some rw" for rid rw
  proof -
    have ne: "rid \<noteq> rv_reservation_id rv" and old: "dict_get (cs_reservations s) rid = Some rw"
      using m s'(1) by (auto split: if_splits)
    have ok: "reservation_ok s rid rw" by (rule D(4) [OF old])
    have "key_busy s' rw"
      using ok s'(3) same_key_same_reservation [OF inv old rv] ne by (auto simp: reservation_ok_def key_busy_def)
    moreover have "holds_context s' rw" if op: "rv_op rw \<in> {APPEND, RESET}"
    proof -
      obtain x where x: "dict_get (cs_contexts s) (rv_cid rw) = Some x" "ce_reservation_id x = Some rid"
        using ok op by (auto simp: reservation_ok_def holds_context_def)
      have "rv_op rv \<in> {APPEND, RESET} \<Longrightarrow> rv_cid rv \<noteq> rv_cid rw"
        using reservation_unique_holder [OF inv rv _ old op] ne by metis
      then have "dict_get (cs_contexts s') (rv_cid rw) = Some x" using s'(2) x(1) by (auto simp: gives_up_def)
      then show ?thesis using ok op x(1) by (auto simp: reservation_ok_def holds_context_def)
    qed
    ultimately show ?thesis using ok by (simp add: reservation_ok_def)
  qed
qed

lemma first_free_new: "first_free is cs = Inr i \<Longrightarrow> dict_get cs i = None \<and> i \<in> set is"
  by (induction "is" cs rule: first_free.induct) (auto simp: res_simps split: if_splits)

text \<open>The entry a commit writes.\<close>

definition committed :: "int option \<Rightarrow> reservation \<Rightarrow> llm_message \<Rightarrow> context_store \<Rightarrow> string \<Rightarrow> context_entry \<Rightarrow> bool" where
  "committed expiry rv assistant s cid e' \<longleftrightarrow>
     ce_context_id e' = cid \<and> ce_reservation_id e' = None \<and> ce_state e' = ACTIVE \<and> ce_expires_at e' = expiry
     \<and> ce_transcript e' = (if rv_op rv \<in> {APPEND, FORK} then rv_base_transcript rv else [])
         @ mr_messages (rv_request rv) @ [assistant]
     \<and> ce_owner e' = mr_owner (rv_request rv)
     \<and> (if rv_op rv \<in> {APPEND, RESET}
        then cid = rv_cid rv \<and> Some (ce_version e' - 1) = mr_base_version (rv_request rv)
        else dict_get (cs_contexts s) cid = None \<and> ce_version e' = 1)"

lemma commit_body_run:
  assumes inv: "context_inv opts s" and rv: "dict_get (cs_reservations s) (rv_reservation_id rv) = Some rv"
    and run: "(if mr_operation (rv_request rv) \<in> {CREATE, FORK} then commit_new factory expiry rv assistant
               else commit_existing expiry rv assistant) s = (r, s')"
  shows "(\<exists>err. r = Inl err) \<and> s' = s \<and> rv_op rv \<in> {CREATE, FORK}
    \<or> (\<exists>cid e'. r = Inr (cid, ce_version e') \<and> s' = set_entry cid e' s \<and> committed expiry rv assistant s cid e')"
proof (cases "rv_op rv \<in> {CREATE, FORK}")
  case True
  then have new: "commit_new factory expiry rv assistant s = (r, s')" using run by (simp add: rv_op_def)
  show ?thesis
  proof (cases "next_context_id factory s")
    case (Inl err)
    then show ?thesis using new True by (auto simp: commit_new_def st_bind_def Let_def)
  next
    case (Inr cid)
    then have "dict_get (cs_contexts s) cid = None" using first_free_new by (auto simp: next_context_id_def)
    then have "committed expiry rv assistant s cid (new_entry expiry rv assistant cid)"
      using True by (auto simp: committed_def new_entry_def rv_op_def Let_def)
    moreover have "r = Inr (cid, 1)" "s' = set_entry cid (new_entry expiry rv assistant cid) s"
      using new Inr by (auto simp: commit_new_def st_bind_def)
    moreover have "ce_version (new_entry expiry rv assistant cid) = 1" by (simp add: new_entry_def Let_def)
    ultimately show ?thesis by metis
  qed
next
  case False
  then have op': "rv_op rv \<in> {APPEND, RESET}"
    using context_invD(4) [OF inv rv] by (cases "rv_op rv") (auto simp: reservation_ok_def)
  then obtain e where e: "dict_get (cs_contexts s) (rv_cid rv) = Some e" "Some (ce_version e) = mr_base_version (rv_request rv)"
      "ce_transcript e = rv_base_transcript rv" "ce_owner e = mr_owner (rv_request rv)"
    using context_invD(4) [OF inv rv] by (auto simp: reservation_ok_def holds_context_def)
  let ?e' = "updated_entry expiry rv assistant e"
  have id: "ce_context_id e = rv_cid rv" using context_invD(3) [OF inv e(1)] by (simp add: entry_ok_def)
  then have "committed expiry rv assistant s (rv_cid rv) ?e'"
    using e(2-4) op' by (auto simp: committed_def updated_entry_def rv_op_def Let_def)
  moreover have "commit_existing expiry rv assistant s = (r, s')" using run False by (simp add: rv_op_def)
  then have "r = Inr (rv_cid rv, ce_version e + 1)" "s' = set_entry (rv_cid rv) ?e' s"
    using e(1) id by (auto simp: commit_existing_def st_bind_def require_entry_def rv_cid_def Let_def)
  moreover have "ce_version ?e' = ce_version e + 1" by (simp add: updated_entry_def Let_def)
  ultimately show ?thesis by metis
qed

lemma commit_run:
  assumes inv: "context_inv opts s" and rv: "dict_get (cs_reservations s) (rv_reservation_id rv) = Some rv"
    and clk: "retain_time opts c1 = Inr retain"
    and run: "commit opts c0 c1 factory rv assistant s = (res, s')"
  shows "(\<exists>err. res = Inl err) \<and> s' = s \<and> ((\<exists>err. expiry_for c0 rv = Inl err) \<or> rv_op rv \<in> {CREATE, FORK})
    \<or> (\<exists>expiry cid e' i. expiry_for c0 rv = Inr expiry \<and> committed expiry rv assistant s cid e'
         \<and> res = Inr (receipt_for opts rv expiry cid (ce_version e')) \<and> ie_state i = Completed
         \<and> ie_receipt i = Some (receipt_for opts rv expiry cid (ce_version e'))
         \<and> s' = drop_reservation rv (set_outcome (complete_key (rv_request rv)) i (set_entry cid e' s)))"
proof (cases "expiry_for c0 rv")
  case (Inl err)
  then show ?thesis using run rv by (auto simp: commit_def st_bind_def require_reservation_def)
next
  case (Inr expiry)
  let ?body = "if mr_operation (rv_request rv) \<in> {CREATE, FORK} then commit_new factory expiry rv assistant
               else commit_existing expiry rv assistant"
  obtain b s1 where b: "?body s = (b, s1)" by (cases "?body s")
  from commit_body_run [OF inv rv b] show ?thesis
  proof
    assume "(\<exists>err. b = Inl err) \<and> s1 = s \<and> rv_op rv \<in> {CREATE, FORK}"
    then show ?thesis using run rv Inr b by (auto simp: commit_def st_bind_def require_reservation_def)
  next
    assume "\<exists>cid e'. b = Inr (cid, ce_version e') \<and> s1 = set_entry cid e' s \<and> committed expiry rv assistant s cid e'"
    then obtain cid e' where c: "b = Inr (cid, ce_version e')" "s1 = set_entry cid e' s" "committed expiry rv assistant s cid e'"
      by blast
    then show ?thesis using run rv Inr b clk
      by (intro disjI2 exI [of _ expiry] exI [of _ cid] exI [of _ e'] exI [of _ "\<lparr>ie_state = Completed, ie_retain_until = retain,
            ie_request_id = Some (mr_request_id (rv_request rv)), ie_reservation_id = None, ie_error_code = None,
            ie_receipt = Some (receipt_for opts rv expiry cid (ce_version e')), ie_context_id = None, ie_base_version = None\<rparr>"])
         (auto simp: commit_def st_bind_def require_reservation_def complete_idempotency_def Let_def)
  qed
qed

lemma commit_inv:
  assumes inv: "context_inv opts s" and rv: "dict_get (cs_reservations s) (rv_reservation_id rv) = Some rv"
    and clk: "retain_time opts c1 = Inr retain"
  shows "context_inv opts (snd (commit opts c0 c1 factory rv assistant s))"
proof -
  obtain res s' where run: "commit opts c0 c1 factory rv assistant s = (res, s')"
    by (cases "commit opts c0 c1 factory rv assistant s")
  from commit_run [OF inv rv clk run] show ?thesis
  proof
    assume "\<exists>expiry cid e' i. expiry_for c0 rv = Inr expiry \<and> committed expiry rv assistant s cid e'
         \<and> res = Inr (receipt_for opts rv expiry cid (ce_version e')) \<and> ie_state i = Completed
         \<and> ie_receipt i = Some (receipt_for opts rv expiry cid (ce_version e'))
         \<and> s' = drop_reservation rv (set_outcome (complete_key (rv_request rv)) i (set_entry cid e' s))"
    then obtain expiry cid e' i where c: "committed expiry rv assistant s cid e'"
        and s': "s' = drop_reservation rv (set_outcome (complete_key (rv_request rv)) i (set_entry cid e' s))" by blast
    have "context_inv opts s'"
    proof (rule finish_inv [where i = i, OF inv rv])
      show "gives_up rv s (cs_contexts s')"
        using c context_invD(4) [OF inv rv] unfolding gives_up_def
        by (cases "rv_op rv") (auto simp: s' committed_def reservation_ok_def intro!: disjI2 exI [of _ cid] exI [of _ e'])
    qed (simp_all add: s')
    then show ?thesis using run by simp
  qed (use run inv in simp)
qed

lemma clear_reservation_simps [simp]:
  "cs_idempotency (clear_reservation rv s) = cs_idempotency s" "cs_reservations (clear_reservation rv s) = cs_reservations s"
  by (simp_all add: clear_reservation_def Let_def split: option.splits)

lemma abort_run:
  assumes "dict_get (cs_reservations s) (rv_reservation_id rv) = Some rv"
  obtains "snd (abort opts c0 c1 rv err s) = drop_reservation rv (clear_reservation rv s)"
  | i where "snd (abort opts c0 c1 rv err s)
      = snd (sweep_at opts c1 (set_outcome (complete_key (rv_request rv)) i (drop_reservation rv (clear_reservation rv s))))"
proof (cases "retain_time opts c0")
  case (Inl x)
  then show ?thesis using assms by (intro that(1)) (simp add: abort_def st_bind_def require_reservation_def)
next
  case (Inr retain)
  let ?i = "\<lparr>ie_state = Failed, ie_retain_until = retain, ie_request_id = Some (mr_request_id (rv_request rv)),
      ie_reservation_id = None, ie_error_code = err, ie_receipt = None, ie_context_id = None, ie_base_version = None\<rparr>"
  show ?thesis using Inr assms
    by (intro that(2) [of ?i]) (simp add: abort_def st_bind_def require_reservation_def split: prod.splits sum.splits)
qed

lemma abort_inv:
  assumes inv: "context_inv opts s" and rv: "dict_get (cs_reservations s) (rv_reservation_id rv) = Some rv"
  shows "context_inv opts (snd (abort opts c0 c1 rv err s))"
proof -
  let ?s1 = "drop_reservation rv (clear_reservation rv s)"
  note rok = context_invD(4) [OF inv rv]
  have "gives_up rv s (cs_contexts ?s1)"
  proof (cases "rv_op rv \<in> {APPEND, RESET}")
    case True
    then obtain e where e: "dict_get (cs_contexts s) (rv_cid rv) = Some e" "ce_reservation_id e = Some (rv_reservation_id rv)"
        "ce_state e = ACTIVE" "ce_owner e = mr_owner (rv_request rv)"
      using rok by (auto simp: reservation_ok_def holds_context_def)
    then show ?thesis
      using True context_invD(3) [OF inv e(1)] unfolding gives_up_def
      by (intro disjI2 exI [of _ "rv_cid rv"] exI [of _ "e\<lparr>ce_reservation_id := None\<rparr>"])
         (auto simp: clear_reservation_def rv_cid_def entry_ok_def)
  next
    case False
    have "ce_reservation_id e \<noteq> Some (rv_reservation_id rv)" if "dict_get (cs_contexts s) (context_id_of (rv_request rv)) = Some e" for e
      using context_invD(3) [OF inv that] rv False by (auto simp: entry_ok_def)
    then have "clear_reservation rv s = s" by (auto simp: clear_reservation_def Let_def split: option.splits)
    then show ?thesis using False by (simp add: gives_up_def)
  qed
  then have one: "context_inv opts s'"
    if "cs_reservations s' = cs_reservations ?s1" "cs_contexts s' = cs_contexts ?s1"
      "cs_idempotency s' = dict_set (complete_key (rv_request rv)) i (cs_idempotency s) \<or> cs_idempotency s' = cs_idempotency s"
    for s' i
    using that by (intro finish_inv [OF inv rv _ _ that(3)]) simp_all
  from rv show ?thesis
  proof (cases rule: abort_run [where opts = opts and ?c0.0 = c0 and ?c1.0 = c1 and err = err])
    case 1
    then show ?thesis using one [of ?s1] by simp
  next
    case (2 i)
    then show ?thesis
      using one [of "set_outcome (complete_key (rv_request rv)) i ?s1" i] sweep_keeps [of opts c1] by (simp add: st_keeps_def)
  qed
qed

text \<open>A release changes nothing, or marks the context as released at the next version.\<close>

definition released :: "context_entry \<Rightarrow> int option \<Rightarrow> context_entry" where
  "released e u = e\<lparr>ce_version := ce_version e + 1, ce_state := RELEASED, ce_expires_at := None, ce_tombstone_until := u\<rparr>"

lemma release_entry_run:
  obtains "snd (release_entry opts clk ow cid base s) = s"
  | e u where "require_mutable ow cid s = Inr e" "ce_reservation_id e = None" "ce_version e = base"
      "snd (release_entry opts clk ow cid base s) = set_entry cid (released e u) s"
proof (cases "\<exists>e. require_mutable ow cid s = Inr e \<and> ce_reservation_id e = None \<and> ce_version e = base")
  case False
  then have "snd (release_entry opts clk ow cid base s) = s"
    by (cases "require_mutable ow cid s") (auto simp: release_entry_def st_bind_def)
  then show ?thesis by (rule that(1))
next
  case True
  then obtain e where e: "require_mutable ow cid s = Inr e" "ce_reservation_id e = None" "ce_version e = base" by blast
  show ?thesis
  proof (cases "res_bind (clock_now clk) (\<lambda>now. time_plus now (co_tombstone_seconds opts * 1000000))")
    case (Inl err)
    then show ?thesis using e
      by (intro that(2) [OF e, of "ce_tombstone_until e"]) (simp add: release_entry_def st_bind_def Let_def released_def)
  next
    case (Inr u)
    then show ?thesis using e
      by (intro that(2) [OF e, of "Some u"]) (simp add: release_entry_def st_bind_def Let_def released_def)
  qed
qed

lemma release_entry_inv:
  assumes inv: "context_inv opts s"
  shows "context_inv opts (snd (release_entry opts clk ow cid base s))"
proof (cases rule: release_entry_run [of opts clk ow cid base s])
  case (2 e u)
  note D = context_invD [OF inv]
  have e: "dict_get (cs_contexts s) cid = Some e" using 2(1) by (simp add: require_mutable_Inr)
  let ?x = "released e u"
  have x: "ce_reservation_id ?x = None" "ce_state ?x = RELEASED" "ce_context_id ?x = cid"
    using 2(2) D(3) [OF e] by (simp_all add: released_def entry_ok_def)
  have "context_inv opts (set_entry cid ?x s)"
  proof (rule context_invI)
    show "keys_distinct (set_entry cid ?x s)" using D(1) by (simp add: keys_distinct_def distinct_dict_set)
    have "live_contexts o' (dict_set cid ?x (cs_contexts s)) \<le> live_contexts o' (cs_contexts s)" for o'
      using dict_count_set [of "cs_contexts s" "\<lambda>e. ce_owner e = o' \<and> ce_state e = ACTIVE" cid ?x] D(1) x(2)
      by (simp add: live_contexts_count keys_distinct_def)
    then show "within_limit opts (set_entry cid ?x s)"
      using D(2) unfolding within_limit_def by (smt (verit, best) set_entry_simps add_le_mono1 of_nat_le_iff)
    show "entry_ok (set_entry cid ?x s) c y" if "dict_get (cs_contexts (set_entry cid ?x s)) c = Some y" for c y
      using that x D(3) [of c y] by (auto simp: entry_ok_def split: if_splits)
    show "reservation_ok (set_entry cid ?x s) rid rv" if m: "dict_get (cs_reservations (set_entry cid ?x s)) rid = Some rv" for rid rv
    proof -
      have "reservation_ok s rid rv" using D(4) m by simp
      moreover from this have "rv_cid rv \<noteq> cid" if "rv_op rv \<in> {APPEND, RESET}"
        using that e 2(2) by (auto simp: reservation_ok_def holds_context_def)
      ultimately show ?thesis by (auto simp: reservation_ok_def key_busy_def holds_context_def)
    qed
  qed
  then show ?thesis using 2(4) by simp
qed (use inv in simp)

lemma set_outcome_inv:
  assumes "context_inv opts s" "\<And>rid rv. dict_get (cs_reservations s) rid = Some rv \<Longrightarrow> complete_key (rv_request rv) \<noteq> k"
  shows "context_inv opts (set_outcome k i s)"
  using assms by (auto simp: context_inv_def keys_distinct_def distinct_dict_set within_limit_def entry_ok_def
      reservation_ok_def key_busy_def holds_context_def)

lemma release_key_differs: "complete_key r \<noteq> owner_key ow RELEASE_ACTION key"
  by (simp add: complete_key_def owner_key_def COMPLETE_ACTION_def RELEASE_ACTION_def)

lemma set_outcome_release_keeps [keeps]:
  "st_keeps (context_inv opts) (st_write (set_outcome (owner_key ow RELEASE_ACTION key) i))"
  unfolding st_keeps_def using set_outcome_inv release_key_differs by simp

lemma release_keeps [keeps]: "st_keeps (context_inv opts) (release opts c0 c1 c2 ow cid base key)"
proof -
  have "st_keeps (context_inv opts) (release_entry opts clk ow cid base)" for clk
    by (simp add: st_keeps_def release_entry_inv)
  then show ?thesis unfolding release_def Let_def by (intro keeps)
qed

lemma reading_keeps:
  assumes sw: "\<And>clk. st_keeps P (sweep_at opts clk)"
  shows "st_keeps P (status opts c0 c1 ow cid_opt key_opt)" "st_keeps P (snapshot opts c0 ow cid)"
    "st_keeps P (sweep_expired opts c0)"
proof -
  have ctx: "st_keeps P (status_by_context opts c ow i)" for c i
    unfolding status_by_context_def by (intro keeps sw) (auto intro!: keeps split: prod.split)
  have "st_keeps P (status_by_key opts c0 c1 ow k)" for k
    unfolding status_by_key_def status_from_receipt_def
    by (auto intro!: keeps sw ctx split: outcome_state.split option.split)
  then show "st_keeps P (status opts c0 c1 ow cid_opt key_opt)"
    unfolding status_def using ctx by (auto intro!: keeps sw split: option.split)
  show "st_keeps P (snapshot opts c0 ow cid)"
    unfolding snapshot_def by (intro keeps sw)
  show "st_keeps P (sweep_expired opts c0)"
    unfolding sweep_expired_def by (rule sw)
qed

subsection \<open>Runs of the store\<close>

datatype context_call =
    Reserve "int option" "int option" "int option" string mutation_request
  | Commit "int option" "int option" "nat \<Rightarrow> string" reservation llm_message
  | AbortCall "int option" "int option" reservation "string option"
  | Release "int option" "int option" "int option" context_owner string int string
  | Status "int option" "int option" context_owner "string option" "string option"
  | Snapshot "int option" context_owner string
  | SweepExpired "int option"

fun context_do :: "canon_hash \<Rightarrow> context_options \<Rightarrow> context_call \<Rightarrow> context_store \<Rightarrow> context_store" where
  "context_do H opts (Reserve c0 c1 c2 rid r) s = snd (reserve H opts c0 c1 c2 rid r s)"
| "context_do H opts (Commit c0 c1 factory rv msg) s = snd (commit opts c0 c1 factory rv msg s)"
| "context_do H opts (AbortCall c0 c1 rv err) s = snd (abort opts c0 c1 rv err s)"
| "context_do H opts (Release c0 c1 c2 ow cid base key) s = snd (release opts c0 c1 c2 ow cid base key s)"
| "context_do H opts (Status c0 c1 ow cid key) s = snd (status opts c0 c1 ow cid key s)"
| "context_do H opts (Snapshot c0 ow cid) s = snd (snapshot opts c0 ow cid s)"
| "context_do H opts (SweepExpired c0) s = snd (sweep_expired opts c0 s)"

text \<open>
  What the store relies on: a reservation id is fresh (it is a random UUID), and the clock is far
  enough from the end of the calendar for the retention time to be representable.
\<close>

fun context_call_ok :: "context_options \<Rightarrow> context_store \<Rightarrow> context_call \<Rightarrow> bool" where
  "context_call_ok opts s (Reserve c0 c1 c2 rid r) \<longleftrightarrow>
     dict_get (cs_reservations s) rid = None \<and> (\<exists>t. retain_time opts c2 = Inr t)"
| "context_call_ok opts s (Commit c0 c1 factory rv msg) \<longleftrightarrow> (\<exists>t. retain_time opts c1 = Inr t)"
| "context_call_ok opts s c \<longleftrightarrow> True"

inductive context_reachable :: "canon_hash \<Rightarrow> context_options \<Rightarrow> context_store \<Rightarrow> bool" for H opts where
  start: "context_reachable H opts empty_store"
| call: "context_reachable H opts s \<Longrightarrow> context_call_ok opts s c \<Longrightarrow> context_reachable H opts (context_do H opts c s)"

lemma inactive_unchanged:
  "dict_get (cs_reservations s) (rv_reservation_id rv) \<noteq> Some rv \<Longrightarrow> commit opts c0 c1 factory rv msg s = (Inl RuntimeError, s)"
  "dict_get (cs_reservations s) (rv_reservation_id rv) \<noteq> Some rv \<Longrightarrow> abort opts c0 c1 rv err s = (Inl RuntimeError, s)"
  by (simp_all add: commit_def abort_def require_reservation_def)

lemma empty_inv: "context_inv opts empty_store"
  by (simp add: context_inv_def empty_store_def keys_distinct_def within_limit_def live_contexts_def pending_allocations_def)

lemma context_do_inv:
  assumes inv: "context_inv opts s" and ok: "context_call_ok opts s c"
  shows "context_inv opts (context_do H opts c s)"
proof (cases c)
  case (Reserve c0 c1 c2 rid r)
  then obtain t where t: "retain_time opts c2 = Inr t" and fresh: "dict_get (cs_reservations s) rid = None"
    using ok by auto
  obtain res s' where run: "reserve H opts c0 c1 c2 rid r s = (res, s')" by (cases "reserve H opts c0 c1 c2 rid r s")
  have sw: "context_inv opts s1 \<and> cs_reservations s1 = cs_reservations s" if "sweep_at opts c0 s = (x, s1)" for x s1
    using st_keepsD [OF sweep_keeps inv that] sweep_at_swept [OF _ _ that] context_invD(1) [OF inv]
    by (simp add: keys_distinct_def swept_def)
  from run t have "context_inv opts s'"
  proof (cases rule: reserve_run)
    case (refused e x s1)
    then show ?thesis using sw by simp
  next
    case (reserved rv n s1)
    then have "mr_operation r \<noteq> RELEASE" by (auto simp: validate_request_def Let_def)
    then show ?thesis
      unfolding reserved(7) using sw [OF reserved(2)] reserved(3,6) fresh by (intro reserve_inv) simp_all
  qed
  then show ?thesis using Reserve run by simp
next
  case (Commit c0 c1 factory rv msg)
  then show ?thesis
    using ok inv commit_inv [OF inv] inactive_unchanged(1)
    by (cases "dict_get (cs_reservations s) (rv_reservation_id rv) = Some rv") auto
next
  case (AbortCall c0 c1 rv err)
  then show ?thesis
    using inv abort_inv [OF inv] inactive_unchanged(2)
    by (cases "dict_get (cs_reservations s) (rv_reservation_id rv) = Some rv") auto
qed (use inv release_keeps reading_keeps [OF sweep_keeps] in \<open>auto simp: st_keeps_def\<close>)

lemma reachable_context_inv: "context_reachable H opts s \<Longrightarrow> context_inv opts s"
  by (induction rule: context_reachable.induct) (simp_all add: empty_inv context_do_inv)

subsection \<open>The history of one context\<close>

definition same_content :: "context_entry \<Rightarrow> context_entry \<Rightarrow> bool" where
  "same_content e e' \<longleftrightarrow>
     ce_owner e' = ce_owner e \<and> ce_version e' = ce_version e \<and> ce_transcript e' = ce_transcript e \<and> ce_binding e' = ce_binding e"

lemma same_content_refl [simp]: "same_content e e" "same_content e (e\<lparr>ce_reservation_id := x\<rparr>)"
  by (simp_all add: same_content_def)

definition content_kept :: "string \<Rightarrow> context_entry \<Rightarrow> context_store \<Rightarrow> bool" where
  "content_kept cid e s \<longleftrightarrow> keys_distinct s \<and> (\<forall>e'. dict_get (cs_contexts s) cid = Some e' \<longrightarrow> same_content e e')"

lemma sweep_content: "st_keeps (content_kept cid e) (sweep_at opts clk)"
  unfolding st_keeps_def
proof (intro allI impI)
  fix s assume k: "content_kept cid e s"
  obtain r s' where run: "sweep_at opts clk s = (r, s')" by (cases "sweep_at opts clk s")
  have sw: "swept s s'" using sweep_at_swept [OF _ _ run] k by (simp add: content_kept_def keys_distinct_def)
  have "same_content e e'" if e': "dict_get (cs_contexts s') cid = Some e'" for e'
  proof -
    obtain now e0 where "dict_get (cs_contexts s) cid = Some e0" "aged now e0 e'" using sw e' unfolding swept_def by blast
    then show ?thesis using k aged_keeps [of now e0 e'] by (auto simp: content_kept_def same_content_def)
  qed
  then show "content_kept cid e (snd (sweep_at opts clk s))"
    using k sw run by (simp add: content_kept_def keys_distinct_def swept_def)
qed

fun call_owner :: "context_call \<Rightarrow> context_owner option" where
  "call_owner (Reserve c0 c1 c2 rid r) = Some (mr_owner r)"
| "call_owner (Commit c0 c1 factory rv msg) = Some (mr_owner (rv_request rv))"
| "call_owner (AbortCall c0 c1 rv err) = Some (mr_owner (rv_request rv))"
| "call_owner (Release c0 c1 c2 ow cid base key) = Some ow"
| "call_owner (Status c0 c1 ow cid key) = Some ow"
| "call_owner (Snapshot c0 ow cid) = Some ow"
| "call_owner (SweepExpired c0) = None"

text \<open>One call: a context keeps its content, or its owner has moved it to the next version.\<close>

definition evolves :: "context_call \<Rightarrow> context_entry \<Rightarrow> context_entry \<Rightarrow> bool" where
  "evolves c e e' \<longleftrightarrow>
     same_content e e' \<or> call_owner c = Some (ce_owner e) \<and> ce_owner e' = ce_owner e \<and> ce_version e' = ce_version e + 1"

lemma reserve_content:
  assumes inv: "context_inv opts s" and t: "retain_time opts c2 = Inr t" and e: "content_kept cid e s"
    and run: "reserve H opts c0 c1 c2 rid r s = (res, s')" and e': "dict_get (cs_contexts s') cid = Some e'"
  shows "same_content e e'"
  using run t
proof (cases rule: reserve_run)
  case (refused err x s1)
  then show ?thesis using st_keepsD [OF sweep_content e refused(2)] e' by (simp add: content_kept_def)
next
  case (reserved rv n s1)
  then have k: "content_kept cid e s1" using st_keepsD [OF sweep_content e] by blast
  have "\<exists>x. dict_get (cs_contexts s1) cid = Some x \<and> same_content x e'"
    using e' reserved(3) unfolding reserved(7)
    by (cases "mr_operation r")
       (auto simp: mark_reserved_def granted_def require_mutable_Inr rv_op_def rv_cid_def split: if_splits)
  then show ?thesis using k by (auto simp: content_kept_def same_content_def)
qed

lemma commit_content:
  assumes inv: "context_inv opts s" and e: "dict_get (cs_contexts s) cid = Some e"
    and t: "retain_time opts c1 = Inr t" and run: "commit opts c0 c1 factory rv msg s = (res, s')"
    and e': "dict_get (cs_contexts s') cid = Some e'"
  shows "evolves (Commit c0 c1 factory rv msg) e e'"
proof (cases "dict_get (cs_reservations s) (rv_reservation_id rv) = Some rv \<and> s' \<noteq> s")
  case True
  then have rv: "dict_get (cs_reservations s) (rv_reservation_id rv) = Some rv" by simp
  obtain expiry k x i where c: "committed expiry rv msg s k x"
      and s': "s' = drop_reservation rv (set_outcome (complete_key (rv_request rv)) i (set_entry k x s))"
    using commit_run [OF inv rv t run] True by blast
  show ?thesis
  proof (cases "k = cid")
    case k: True
    then have op: "rv_op rv \<in> {APPEND, RESET}" using c e by (auto simp: committed_def split: if_splits)
    then have "Some (ce_version e) = mr_base_version (rv_request rv)" "ce_owner e = mr_owner (rv_request rv)"
      using context_invD(4) [OF inv rv] c e k by (auto simp: reservation_ok_def holds_context_def committed_def)
    moreover have "e' = x" using e' s' k by simp
    moreover have "Some (ce_version x - 1) = mr_base_version (rv_request rv)" "ce_owner x = mr_owner (rv_request rv)"
      using c op by (auto simp: committed_def)
    ultimately have "ce_version e' - 1 = ce_version e" "ce_owner e' = ce_owner e" "ce_owner e = mr_owner (rv_request rv)"
      by (metis option.inject)+
    then show ?thesis by (auto simp: evolves_def)
  next
    case False
    then show ?thesis using e e' s' by (simp add: evolves_def)
  qed
next
  case False
  then have "s' = s" using run inactive_unchanged(1) by auto
  then show ?thesis using e e' by (simp add: evolves_def)
qed

lemma abort_content:
  assumes inv: "context_inv opts s" and e: "dict_get (cs_contexts s) cid = Some e"
    and e': "dict_get (cs_contexts (snd (abort opts c0 c1 rv err s))) cid = Some e'"
  shows "same_content e e'"
proof (cases "dict_get (cs_reservations s) (rv_reservation_id rv) = Some rv")
  case True
  have "keys_distinct s" using context_invD(1) [OF inv] .
  then have one: "content_kept cid e (drop_reservation rv (clear_reservation rv s))"
      and two: "content_kept cid e (set_outcome k i (drop_reservation rv (clear_reservation rv s)))" for k i
    using e by (auto simp: content_kept_def keys_distinct_def clear_reservation_def Let_def distinct_dict_set distinct_dict_pop
        split: option.splits if_splits)
  from True have "content_kept cid e (snd (abort opts c0 c1 rv err s))"
  proof (cases rule: abort_run [where opts = opts and ?c0.0 = c0 and ?c1.0 = c1 and err = err])
    case 1
    then show ?thesis using one by simp
  next
    case (2 i)
    then show ?thesis using two sweep_content [of cid e opts c1] by (simp add: st_keeps_def)
  qed
  then show ?thesis using e' by (simp add: content_kept_def)
next
  case False
  then show ?thesis using e e' inactive_unchanged(2) by auto
qed

lemma release_content:
  assumes inv: "context_inv opts s" and e: "dict_get (cs_contexts s) cid = Some e"
    and e': "dict_get (cs_contexts (snd (release opts c0 c1 c2 ow k base key s))) cid = Some e'"
  shows "evolves (Release c0 c1 c2 ow k base key) e e'"
proof -
  let ?c = "Release c0 c1 c2 ow k base key"
  let ?P = "\<lambda>s. keys_distinct s \<and> (\<forall>e'. dict_get (cs_contexts s) cid = Some e' \<longrightarrow> evolves ?c e e')"
  obtain x s1 where sw: "sweep_at opts c0 s = (x, s1)" by (cases "sweep_at opts c0 s")
  have "content_kept cid e s" using e context_invD(1) [OF inv] by (simp add: content_kept_def)
  then have k1: "content_kept cid e s1" by (rule st_keepsD [OF sweep_content _ sw])
  then have p1: "?P s1" by (auto simp: content_kept_def evolves_def)
  have "?P (snd (release_entry opts c1 ow k base s1))"
  proof (cases rule: release_entry_run [of opts c1 ow k base s1])
    case (2 y u)
    have "evolves ?c e (released y u)" if "k = cid"
      using 2(1) that k1 by (auto simp: require_mutable_Inr content_kept_def same_content_def evolves_def released_def)
    then show ?thesis using p1 2(4) by (auto simp: keys_distinct_def distinct_dict_set)
  qed (use p1 in simp)
  then have "?P (snd (release opts c0 c1 c2 ow k base key s))"
    using p1 sw
    by (auto simp: release_def Let_def st_bind_def keys_distinct_def distinct_dict_set split: sum.splits prod.splits option.splits)
  then show ?thesis using e' by blast
qed

lemma context_do_evolves:
  assumes inv: "context_inv opts s" and ok: "context_call_ok opts s c"
    and e: "dict_get (cs_contexts s) cid = Some e" "dict_get (cs_contexts (context_do H opts c s)) cid = Some e'"
  shows "evolves c e e'"
proof -
  have k: "content_kept cid e s" using e context_invD(1) [OF inv] by (simp add: content_kept_def)
  note reading = reading_keeps [OF sweep_content [of cid e], unfolded st_keeps_def, rule_format, OF k]
  show ?thesis
  proof (cases c)
    case (Reserve c0 c1 c2 rid r)
    then obtain t where "retain_time opts c2 = Inr t" using ok by auto
    from reserve_content [OF inv this k prod.collapse [symmetric]] show ?thesis
      using e(2) Reserve by (auto simp: evolves_def)
  next
    case (Commit c0 c1 factory rv msg)
    then show ?thesis using ok e commit_content [OF inv e(1)] by (metis context_call_ok.simps(2) context_do.simps(2) prod.collapse)
  next
    case (AbortCall c0 c1 rv err)
    then show ?thesis using e abort_content [OF inv e(1)] by (auto simp: evolves_def)
  next
    case (Release c0 c1 c2 ow k base key)
    then show ?thesis using e release_content [OF inv e(1)] by auto
  qed (use e reading in \<open>auto simp: evolves_def content_kept_def\<close>)
qed

section \<open>Properties\<close>

text \<open>
  C6: The store is safe in every state its calls can reach. No principal ever has more live contexts
  plus pending allocations than the limit allows. Every running append or reset holds its context:
  the context is active, at the version and with the transcript the mutation was reserved against,
  and no other mutation of it is running.
\<close>

theorem context_store_safe:
  assumes "context_reachable H opts s"
  shows "(\<forall>ow. int (live_contexts ow (cs_contexts s) + pending_allocations ow (cs_reservations s))
            \<le> max 0 (co_max_contexts_per_principal opts))
    \<and> (\<forall>rid rv. dict_get (cs_reservations s) rid = Some rv \<and> mr_operation (rv_request rv) \<in> {APPEND, RESET} \<longrightarrow>
         (\<exists>e. dict_get (cs_contexts s) (context_id_of (rv_request rv)) = Some e \<and> ce_reservation_id e = Some rid
            \<and> ce_state e = ACTIVE \<and> Some (ce_version e) = mr_base_version (rv_request rv)
            \<and> ce_transcript e = rv_base_transcript rv))"
proof -
  note D = context_invD [OF reachable_context_inv [OF assms]]
  have "\<exists>e. dict_get (cs_contexts s) (context_id_of (rv_request rv)) = Some e \<and> ce_reservation_id e = Some rid
            \<and> ce_state e = ACTIVE \<and> Some (ce_version e) = mr_base_version (rv_request rv)
            \<and> ce_transcript e = rv_base_transcript rv"
    if "dict_get (cs_reservations s) rid = Some rv" "mr_operation (rv_request rv) \<in> {APPEND, RESET}" for rid rv
    using D(4) [OF that(1)] that(2) by (auto simp: reservation_ok_def holds_context_def rv_op_def rv_cid_def)
  then show ?thesis using D(2) unfolding within_limit_def by blast
qed

definition ex_ctx_opts :: context_options where
  "ex_ctx_opts = \<lparr>co_max_contexts_per_principal = 2, co_default_ttl_seconds = 3600, co_max_ttl_seconds = 3600,
     co_tombstone_seconds = 86400, co_idempotency_ttl = 86400000000,
     co_supported = [CREATE, APPEND, FORK, RESET, RELEASE], co_iso = (\<lambda>t. ''iso'')\<rparr>"

definition ex_msg :: "string \<Rightarrow> llm_message" where
  "ex_msg role = \<lparr>lm_role = role, lm_content = Some ''hi'', lm_tool_call_id = None, lm_tool_name = None, lm_tool_calls = None\<rparr>"

definition ex_owner :: context_owner where
  "ex_owner = \<lparr>ow_nid = ''urn:nps:agent:a:1'', ow_security_scope = ''s''\<rparr>"

definition ex_cid :: string where
  "ex_cid = replicate 22 (CHR ''a'')"

definition ex_request :: "context_operation \<Rightarrow> string \<Rightarrow> mutation_request" where
  "ex_request op key = \<lparr>mr_operation = op, mr_owner = ex_owner,
     mr_binding = \<lparr>cb_model = ''m'', cb_system_messages = [], cb_runtime_revision = ''1'', cb_tools = None\<rparr>,
     mr_messages = [ex_msg ''user''], mr_idempotency_key = key, mr_request_id = ''q'',
     mr_context_id = (if op = CREATE then None else Some ex_cid), mr_base_version = (if op = CREATE then None else Some 1),
     mr_ttl_seconds = None\<rparr>"

definition ex_granted :: "string \<Rightarrow> context_operation \<Rightarrow> string \<Rightarrow> llm_message list \<Rightarrow> reservation" where
  "ex_granted rid op key base = \<lparr>rv_reservation_id = rid, rv_request = ex_request op key, rv_binding_fingerprint = [],
     rv_base_transcript = base, rv_effective_ttl_seconds = Some 3600, rv_parent_context_id = None, rv_parent_version = None\<rparr>"

definition ex_calls :: "context_call list" where
  "ex_calls = [Reserve (Some 10) (Some 10) (Some 10) ''r1'' (ex_request CREATE ''k1''),
     Commit (Some 11) (Some 11) (\<lambda>i. ex_cid) (ex_granted ''r1'' CREATE ''k1'' []) (ex_msg ''assistant''),
     Reserve (Some 12) (Some 12) (Some 12) ''r2'' (ex_request APPEND ''k2'')]"

definition ex_ctx_store :: context_store where
  "ex_ctx_store = fold (context_do ex_hash ex_ctx_opts) ex_calls empty_store"

lemma context_reachable_fold:
  "context_reachable H opts s \<Longrightarrow>
   (\<And>i. i < length cs \<Longrightarrow> context_call_ok opts (fold (context_do H opts) (take i cs) s) (cs ! i)) \<Longrightarrow>
   context_reachable H opts (fold (context_do H opts) cs s)"
proof (induction cs arbitrary: s)
  case (Cons c cs)
  have "context_call_ok opts s c" using Cons.prems(2) [of 0] by simp
  then have "context_reachable H opts (context_do H opts c s)" using Cons.prems(1) by (rule call [rotated])
  moreover have "context_call_ok opts (fold (context_do H opts) (take i cs) (context_do H opts c s)) (cs ! i)" if "i < length cs" for i
    using Cons.prems(2) [of "Suc i"] that by simp
  ultimately show ?case using Cons.IH by simp
qed simp

lemma ex_ctx_reachable: "context_reachable ex_hash ex_ctx_opts ex_ctx_store"
  unfolding ex_ctx_store_def
proof (rule context_reachable_fold [OF start])
  fix i assume "i < length ex_calls"
  then consider "i = 0" | "i = 1" | "i = 2" by (auto simp: ex_calls_def less_Suc_eq)
  then show "context_call_ok ex_ctx_opts (fold (context_do ex_hash ex_ctx_opts) (take i ex_calls) empty_store) (ex_calls ! i)"
  proof cases
    case 1
    then show ?thesis by (simp add: ex_calls_def empty_store_def retain_time_def clock_now_def time_plus_def ex_ctx_opts_def MAX_TIME_def)
  next
    case 2
    then show ?thesis by (simp add: ex_calls_def retain_time_def clock_now_def time_plus_def ex_ctx_opts_def MAX_TIME_def)
  next
    case 3
    have "dict_get (cs_reservations (fold (context_do ex_hash ex_ctx_opts) (take 2 ex_calls) empty_store)) ''r2'' = None" by code_simp
    then show ?thesis using 3
      by (simp add: ex_calls_def retain_time_def clock_now_def time_plus_def ex_ctx_opts_def MAX_TIME_def numeral_2_eq_2)
  qed
qed

lemma ex_ctx_running: "dict_get (cs_reservations ex_ctx_store) ''r2'' = Some (ex_granted ''r2'' APPEND ''k2'' [ex_msg ''user'', ex_msg ''assistant''])"
  by code_simp

theorem context_store_safe_witness:
  "\<exists>e. dict_get (cs_contexts ex_ctx_store) ex_cid = Some e \<and> ce_reservation_id e = Some ''r2'' \<and> Some (ce_version e) = Some 1
     \<and> ce_transcript e = [ex_msg ''user'', ex_msg ''assistant'']"
proof -
  have "mr_operation (rv_request (ex_granted ''r2'' APPEND ''k2'' [ex_msg ''user'', ex_msg ''assistant''])) \<in> {APPEND, RESET}"
    by (simp add: ex_granted_def ex_request_def)
  with context_store_safe [OF ex_ctx_reachable] ex_ctx_running show ?thesis
    by (fastforce simp: ex_granted_def ex_request_def context_id_of_def)
qed

text \<open>
  C5: No update is lost. A running append or reset whose expiry and retention times can be computed is committed, whatever
  calls came in between: the context moves to the version after the one the mutation was reserved against; its transcript
  is, for an append, the one that was reserved followed by the new messages and the answer, and for a reset the new messages
  and the answer alone; the mutation is over; and no other context changes.
\<close>

theorem commit_applies:
  assumes "context_reachable H opts s" "dict_get (cs_reservations s) (rv_reservation_id rv) = Some rv"
    and "mr_operation (rv_request rv) \<in> {APPEND, RESET}" "expiry_for c0 rv = Inr expiry" "retain_time opts c1 = Inr retain"
  shows "\<exists>receipt s' e'. commit opts c0 c1 factory rv assistant s = (Inr receipt, s')
    \<and> Some (cr_version receipt - 1) = mr_base_version (rv_request rv)
    \<and> dict_get (cs_contexts s') (context_id_of (rv_request rv)) = Some e' \<and> ce_version e' = cr_version receipt
    \<and> ce_transcript e' = (if mr_operation (rv_request rv) = APPEND then rv_base_transcript rv else [])
        @ mr_messages (rv_request rv) @ [assistant]
    \<and> ce_reservation_id e' = None \<and> dict_get (cs_reservations s') (rv_reservation_id rv) = None
    \<and> (\<forall>j. j \<noteq> context_id_of (rv_request rv) \<longrightarrow> dict_get (cs_contexts s') j = dict_get (cs_contexts s) j)"
proof -
  note inv = reachable_context_inv [OF assms(1)]
  obtain res s' where run: "commit opts c0 c1 factory rv assistant s = (res, s')"
    by (cases "commit opts c0 c1 factory rv assistant s")
  obtain cid e' i where c: "committed expiry rv assistant s cid e'"
      "res = Inr (receipt_for opts rv expiry cid (ce_version e'))"
      "s' = drop_reservation rv (set_outcome (complete_key (rv_request rv)) i (set_entry cid e' s))"
    using commit_run [OF inv assms(2,5) run] assms(3,4) by (auto simp: rv_op_def)
  have cid: "cid = context_id_of (rv_request rv)" "rv_op rv \<in> {APPEND, RESET}"
    using c(1) assms(3) by (auto simp: committed_def rv_op_def rv_cid_def)
  then have "Some (ce_version e' - 1) = mr_base_version (rv_request rv)" "ce_reservation_id e' = None"
      "ce_transcript e' = (if rv_op rv \<in> {APPEND, FORK} then rv_base_transcript rv else []) @ mr_messages (rv_request rv) @ [assistant]"
    using c(1) by (auto simp: committed_def)
  then show ?thesis
    using run c(2,3) cid
    by (intro exI [of _ "receipt_for opts rv expiry cid (ce_version e')"] exI [of _ s'] exI [of _ e'])
       (auto simp: receipt_for_def rv_op_def)
qed

theorem commit_applies_witness:
  "\<exists>receipt s'. commit ex_ctx_opts (Some 20) (Some 20) (\<lambda>i. []) (ex_granted ''r2'' APPEND ''k2'' [ex_msg ''user'', ex_msg ''assistant''])
       (ex_msg ''assistant'') ex_ctx_store = (Inr receipt, s') \<and> cr_version receipt = 2"
proof -
  let ?rv = "ex_granted ''r2'' APPEND ''k2'' [ex_msg ''user'', ex_msg ''assistant'']"
  have 1: "dict_get (cs_reservations ex_ctx_store) (rv_reservation_id ?rv) = Some ?rv"
    using ex_ctx_running by (simp add: ex_granted_def)
  have 2: "mr_operation (rv_request ?rv) \<in> {APPEND, RESET}" by (simp add: ex_granted_def ex_request_def)
  have 3: "expiry_for (Some 20) ?rv = Inr (Some 3600000020)"
    by (simp add: expiry_for_def ex_granted_def clock_now_def time_plus_def MAX_TIME_def)
  have 4: "retain_time ex_ctx_opts (Some 20) = Inr 86400000020"
    by (simp add: retain_time_def clock_now_def time_plus_def MAX_TIME_def ex_ctx_opts_def)
  have "mr_base_version (rv_request ?rv) = Some 1" by (simp add: ex_granted_def ex_request_def)
  then show ?thesis
    using commit_applies [OF ex_ctx_reachable 1 2 3 4, of "\<lambda>i. []" "ex_msg ''assistant''"] by fastforce
qed

text \<open>
  A context belongs to its owner and its version identifies its content. In one call of any kind a
  context that is still there afterwards keeps its owner; its version never goes down and grows by at
  most one; while it stays the same, so do transcript and binding; and a call made by anybody else
  (or the sweep) leaves version, transcript and binding as they were.
\<close>

theorem contexts_isolated:
  assumes "context_reachable H opts s" "context_call_ok opts s c"
    and "dict_get (cs_contexts s) cid = Some e" "dict_get (cs_contexts (context_do H opts c s)) cid = Some e'"
  shows "ce_owner e' = ce_owner e \<and> ce_version e' \<in> {ce_version e, ce_version e + 1}
    \<and> (ce_version e' = ce_version e \<longrightarrow> ce_transcript e' = ce_transcript e \<and> ce_binding e' = ce_binding e)
    \<and> (call_owner c \<noteq> Some (ce_owner e) \<longrightarrow>
         ce_version e' = ce_version e \<and> ce_transcript e' = ce_transcript e \<and> ce_binding e' = ce_binding e)"
  using context_do_evolves [OF reachable_context_inv [OF assms(1)] assms(2-4)]
  by (auto simp: evolves_def same_content_def)

theorem contexts_isolated_witness:
  "\<exists>e e'. dict_get (cs_contexts ex_ctx_store) ex_cid = Some e
     \<and> dict_get (cs_contexts (context_do ex_hash ex_ctx_opts (SweepExpired (Some 30)) ex_ctx_store)) ex_cid = Some e'
     \<and> ce_version e' = ce_version e"
proof -
  let ?s = "context_do ex_hash ex_ctx_opts (SweepExpired (Some 30)) ex_ctx_store"
  have "dict_get (cs_contexts ex_ctx_store) ex_cid \<noteq> None" "dict_get (cs_contexts ?s) ex_cid \<noteq> None" by code_simp+
  then obtain e e' where e: "dict_get (cs_contexts ex_ctx_store) ex_cid = Some e" "dict_get (cs_contexts ?s) ex_cid = Some e'"
    by blast
  from contexts_isolated [OF ex_ctx_reachable _ e] show ?thesis using e by auto
qed

end
