(* ===== verification/NwpFrames.thy ===== *)
theory NwpFrames
  imports NcpFrames
begin

text \<open>
  The frames of \<open>nps_sdk/nwp/frames.py\<close>: queries with ordering and vector search, actions, subscriptions, and the
  topology requests and records that travel inside them.

  The text of a value that is not a string (\<open>render\<close>, for \<open>str\<close>) and the number a text denotes (\<open>rd_float\<close>, for
  \<open>float\<close>) are arguments.
\<close>

section \<open>Data classes\<close>

definition NWP_TOPOLOGY_SNAPSHOT :: string where "NWP_TOPOLOGY_SNAPSHOT = ''topology.snapshot''"
definition NWP_TOPOLOGY_STREAM :: string where "NWP_TOPOLOGY_STREAM = ''topology.stream''"

record query_order =
  qo_field :: pyval
  qo_dir :: pyval

definition query_order_to_dict :: "query_order \<Rightarrow> pyval" where
  "query_order_to_dict f =
     PDict ([(''field'', qo_field f), (''dir'', qo_dir f)])"

definition query_order_from_dict :: "pyval \<Rightarrow> query_order res" where
  "query_order_from_dict data =
     res_bind (py_item data ''field'') (\<lambda>v_field.
     res_bind (py_item data ''dir'') (\<lambda>v_dir.
       Inr \<lparr>qo_field = v_field, qo_dir = v_dir\<rparr>))"

text \<open>\<open>float(v)\<close>\<close>

definition py_float :: "(string \<Rightarrow> pyfloat option) \<Rightarrow> pyval \<Rightarrow> pyfloat res" where
  "py_float rd_float v =
     (case v of
        PBool b \<Rightarrow> Inr (FFin (if b then 1 else 0))
      | PInt i \<Rightarrow> float_of_int i
      | PFloat x \<Rightarrow> Inr x
      | PStr s \<Rightarrow> of_option ValueError (rd_float s)
      | _ \<Rightarrow> Inl TypeError)"

record vector_search =
  vs_field :: pyval
  vs_vector :: "pyval list"
  vs_top_k :: int
  vs_threshold :: pyval
  vs_metric :: pyval

definition vector_search_to_dict :: "vector_search \<Rightarrow> pyval" where
  "vector_search_to_dict f =
     PDict ([(''field'', vs_field f), (''vector'', PList (vs_vector f)), (''top_k'', PInt (vs_top_k f)),
             (''metric'', vs_metric f)]
       @ not_none ''threshold'' (vs_threshold f))"

definition vector_search_from_dict :: "(string \<Rightarrow> pyfloat option) \<Rightarrow> pyval \<Rightarrow> vector_search res" where
  "vector_search_from_dict rd_float data =
     res_bind (py_get_or data ''vectorField'' (PStr [])) (\<lambda>old_field.
     res_bind (py_get_or data ''field'' old_field) (\<lambda>v_field.
     res_bind (py_item data ''vector'') (\<lambda>raw.
     res_bind (py_iter raw) (\<lambda>items.
     res_bind (res_map (py_float rd_float) items) (\<lambda>floats.
     res_bind (py_get_or data ''topK'' (PInt 10)) (\<lambda>old_top_k.
     res_bind (py_get_or data ''top_k'' old_top_k) (\<lambda>r_top_k.
     res_bind (py_int r_top_k) (\<lambda>v_top_k.
     res_bind (py_get data ''minScore'') (\<lambda>old_threshold.
     res_bind (py_get_or data ''threshold'' old_threshold) (\<lambda>v_threshold.
     res_bind (py_get_or data ''metric'' (PStr ''cosine'')) (\<lambda>v_metric.
       Inr \<lparr>vs_field = v_field, vs_vector = map PFloat floats, vs_top_k = v_top_k, vs_threshold = v_threshold,
            vs_metric = v_metric\<rparr>)))))))))))"

record snapshot_request =
  sr_kind :: pyval
  sr_anchor_ref :: pyval
  sr_include_bridges :: bool
  sr_include_capabilities :: bool
  sr_max_depth :: pyval
  sr_since :: pyval

definition snapshot_request_to_dict :: "snapshot_request \<Rightarrow> pyval" where
  "snapshot_request_to_dict f =
     PDict ([(''kind'', sr_kind f), (''include_bridges'', PBool (sr_include_bridges f)),
              (''include_capabilities'', PBool (sr_include_capabilities f))]
       @ not_none ''anchor_ref'' (sr_anchor_ref f)
       @ not_none ''max_depth'' (sr_max_depth f)
       @ not_none ''since'' (sr_since f))"

definition snapshot_request_from_dict :: "pyval \<Rightarrow> snapshot_request res" where
  "snapshot_request_from_dict data =
     res_bind (py_get_or data ''kind'' (PStr NWP_TOPOLOGY_SNAPSHOT)) (\<lambda>v_kind.
     res_bind (py_get data ''anchor_ref'') (\<lambda>v_anchor_ref.
     res_bind (py_get_or data ''include_bridges'' (PBool False)) (\<lambda>v_include_bridges.
     res_bind (py_get_or data ''include_capabilities'' (PBool False)) (\<lambda>v_include_capabilities.
     res_bind (py_get data ''max_depth'') (\<lambda>v_max_depth.
     res_bind (py_get data ''since'') (\<lambda>v_since.
       Inr \<lparr>sr_kind = v_kind, sr_anchor_ref = v_anchor_ref,
            sr_include_bridges = py_bool v_include_bridges,
            sr_include_capabilities = py_bool v_include_capabilities,
            sr_max_depth = v_max_depth, sr_since = v_since\<rparr>))))))"

record stream_request =
  st_kind :: pyval
  st_anchor_ref :: pyval
  st_include_initial_snapshot :: bool
  st_event_types :: "pyval list option"
  st_since :: pyval

definition stream_request_to_dict :: "stream_request \<Rightarrow> pyval" where
  "stream_request_to_dict f =
     PDict ([(''kind'', st_kind f), (''include_initial_snapshot'', PBool (st_include_initial_snapshot f))]
       @ not_none ''anchor_ref'' (st_anchor_ref f)
       @ not_none ''event_types'' (opt_val PList (st_event_types f))
       @ not_none ''since'' (st_since f))"

definition stream_request_from_dict :: "pyval \<Rightarrow> stream_request res" where
  "stream_request_from_dict data =
     res_bind (opt_tuple data ''event_types'') (\<lambda>v_event_types.
     res_bind (py_get_or data ''kind'' (PStr NWP_TOPOLOGY_STREAM)) (\<lambda>v_kind.
     res_bind (py_get data ''anchor_ref'') (\<lambda>v_anchor_ref.
     res_bind (py_get_or data ''include_initial_snapshot'' (PBool True)) (\<lambda>v_initial.
     res_bind (py_get data ''since'') (\<lambda>v_since.
       Inr \<lparr>st_kind = v_kind, st_anchor_ref = v_anchor_ref, st_include_initial_snapshot = py_bool v_initial,
            st_event_types = v_event_types, st_since = v_since\<rparr>)))))"

record topology_member =
  tm_node_id :: pyval
  tm_node_type :: pyval
  tm_anchor_ref :: pyval
  tm_capabilities :: "pyval list option"
  tm_metadata :: pyval

definition topology_member_to_dict :: "topology_member \<Rightarrow> pyval" where
  "topology_member_to_dict f =
     PDict ([(''node_id'', tm_node_id f)]
       @ not_none ''node_type'' (tm_node_type f)
       @ not_none ''anchor_ref'' (tm_anchor_ref f)
       @ not_none ''capabilities'' (opt_val PList (tm_capabilities f))
       @ not_none ''metadata'' (tm_metadata f))"

record topology_event =
  te_event_id :: pyval
  te_event_type :: pyval
  te_node_id :: pyval
  te_anchor_ref :: pyval
  te_timestamp :: pyval
  te_payload :: pyval

definition topology_event_to_dict :: "topology_event \<Rightarrow> pyval" where
  "topology_event_to_dict f =
     PDict ([(''event_id'', te_event_id f), (''event_type'', te_event_type f)]
       @ not_none ''node_id'' (te_node_id f)
       @ not_none ''anchor_ref'' (te_anchor_ref f)
       @ not_none ''timestamp'' (te_timestamp f)
       @ not_none ''payload'' (te_payload f))"

record bridge_node_spec =
  bn_bridge_id :: pyval
  bn_source_protocol :: pyval
  bn_target_protocol :: pyval
  bn_source_ref :: pyval
  bn_target_ref :: pyval
  bn_capabilities :: "pyval list option"
  bn_metadata :: pyval

definition bridge_node_spec_to_dict :: "bridge_node_spec \<Rightarrow> pyval" where
  "bridge_node_spec_to_dict f =
     PDict ([(''bridge_id'', bn_bridge_id f), (''source_protocol'', bn_source_protocol f), (''target_protocol'', bn_target_protocol f)]
       @ not_none ''source_ref'' (bn_source_ref f)
       @ not_none ''target_ref'' (bn_target_ref f)
       @ not_none ''capabilities'' (opt_val PList (bn_capabilities f))
       @ not_none ''metadata'' (bn_metadata f))"

section \<open>QueryFrame\<close>

record query_frame =
  qf_anchor_ref :: pyval
  qf_filter :: pyval
  qf_fields :: "pyval list option"
  qf_limit :: int
  qf_cursor :: pyval
  qf_order :: "query_order list option"
  qf_vector_search :: "vector_search option"
  qf_depth :: pyval
  qf_auto_anchor :: pyval
  qf_stream :: pyval
  qf_aggregate :: pyval
  qf_token_budget :: pyval
  qf_tokenizer :: pyval
  qf_request_id :: pyval

definition query_to_dict :: "query_frame \<Rightarrow> pyval" where
  "query_to_dict f =
     PDict ([(''limit'', PInt (qf_limit f))]
       @ not_none ''anchor_ref'' (qf_anchor_ref f)
       @ not_none ''filter'' (qf_filter f)
       @ not_none ''fields'' (opt_val PList (qf_fields f))
       @ not_none ''cursor'' (qf_cursor f)
       @ not_none ''order'' (opt_val (\<lambda>os. PList (map query_order_to_dict os)) (qf_order f))
       @ not_none ''vector_search'' (opt_val vector_search_to_dict (qf_vector_search f))
       @ not_none ''depth'' (qf_depth f)
       @ not_none ''auto_anchor'' (qf_auto_anchor f)
       @ not_none ''stream'' (qf_stream f)
       @ not_none ''aggregate'' (qf_aggregate f)
       @ not_none ''token_budget'' (qf_token_budget f)
       @ not_none ''tokenizer'' (qf_tokenizer f)
       @ not_none ''request_id'' (qf_request_id f))"

definition order_of :: "pyval \<Rightarrow> query_order list option res" where
  "order_of raw =
     (if py_bool raw
      then res_bind (py_iter raw) (\<lambda>items. res_bind (res_map query_order_from_dict items) (\<lambda>os. Inr (Some os)))
      else Inr None)"

definition query_from_dict :: "(string \<Rightarrow> pyfloat option) \<Rightarrow> pyval \<Rightarrow> query_frame res" where
  "query_from_dict rd_float data =
     res_bind (py_get data ''order_by'') (\<lambda>old_order.
     res_bind (py_get_or data ''order'' old_order) (\<lambda>order_data.
     res_bind (order_of order_data) (\<lambda>v_order.
     res_bind (py_get data ''vector_search'') (\<lambda>vs_raw.
     res_bind (opt_sub (vector_search_from_dict rd_float) vs_raw) (\<lambda>v_vs.
     res_bind (opt_tuple data ''fields'') (\<lambda>v_fields.
     res_bind (py_get data ''anchor_ref'') (\<lambda>v_anchor_ref.
     res_bind (py_get data ''filter'') (\<lambda>v_filter.
     res_bind (py_get_or data ''limit'' (PInt 20)) (\<lambda>r_limit.
     res_bind (py_int r_limit) (\<lambda>v_limit.
     res_bind (py_get data ''cursor'') (\<lambda>v_cursor.
     res_bind (py_get data ''depth'') (\<lambda>v_depth.
     res_bind (py_get data ''auto_anchor'') (\<lambda>v_auto_anchor.
     res_bind (py_get data ''stream'') (\<lambda>v_stream.
     res_bind (py_get data ''aggregate'') (\<lambda>v_aggregate.
     res_bind (py_get data ''token_budget'') (\<lambda>v_token_budget.
     res_bind (py_get data ''tokenizer'') (\<lambda>v_tokenizer.
     res_bind (py_get data ''request_id'') (\<lambda>v_request_id.
       Inr \<lparr>qf_anchor_ref = v_anchor_ref, qf_filter = v_filter, qf_fields = v_fields, qf_limit = v_limit, qf_cursor = v_cursor,
            qf_order = v_order, qf_vector_search = v_vs, qf_depth = v_depth, qf_auto_anchor = v_auto_anchor,
            qf_stream = v_stream, qf_aggregate = v_aggregate, qf_token_budget = v_token_budget, qf_tokenizer = v_tokenizer,
            qf_request_id = v_request_id\<rparr>))))))))))))))))))"

section \<open>ActionFrame\<close>

record action_frame =
  af_action_id :: string
  af_params :: pyval
  af_idempotency_key :: pyval
  af_timeout_ms :: int
  af_async :: bool
  af_request_id :: pyval

definition action_to_dict :: "action_frame \<Rightarrow> pyval" where
  "action_to_dict f =
     PDict ([(''action_id'', PStr (af_action_id f)), (''action'', PStr (af_action_id f)), (''timeout_ms'', PInt (af_timeout_ms f)),
             (''async'', PBool (af_async f))]
       @ not_none ''params'' (af_params f)
       @ not_none ''idempotency_key'' (af_idempotency_key f)
       @ not_none ''request_id'' (af_request_id f))"

definition py_str :: "(pyval \<Rightarrow> string) \<Rightarrow> pyval \<Rightarrow> string" where
  "py_str render v = (case v of PStr s \<Rightarrow> s | _ \<Rightarrow> render v)"

definition action_from_dict :: "(pyval \<Rightarrow> string) \<Rightarrow> pyval \<Rightarrow> action_frame res" where
  "action_from_dict render data =
     res_bind (py_get data ''action_id'') (\<lambda>first.
     res_bind (if py_bool first then Inr first else py_get data ''action'') (\<lambda>action_id.
       if action_id = PNone then Inl KeyError
       else
         res_bind (py_get data ''params'') (\<lambda>v_params.
         res_bind (py_get data ''idempotency_key'') (\<lambda>v_key.
         res_bind (py_get_or data ''timeout_ms'' (PInt 5000)) (\<lambda>r_timeout.
         res_bind (py_int r_timeout) (\<lambda>v_timeout.
         res_bind (py_get_or data ''async'' (PBool False)) (\<lambda>v_async.
         res_bind (py_get data ''request_id'') (\<lambda>v_request_id.
           Inr \<lparr>af_action_id = py_str render action_id, af_params = v_params, af_idempotency_key = v_key,
                af_timeout_ms = v_timeout, af_async = py_bool v_async, af_request_id = v_request_id\<rparr>))))))))"

record async_response =
  ar_task_id :: pyval
  ar_status :: pyval
  ar_poll_url :: pyval

definition async_response_to_dict :: "async_response \<Rightarrow> pyval" where
  "async_response_to_dict f =
     PDict ([(''task_id'', ar_task_id f), (''status'', ar_status f), (''poll_url'', ar_poll_url f)])"

definition async_response_from_dict :: "pyval \<Rightarrow> async_response res" where
  "async_response_from_dict data =
     res_bind (py_item data ''task_id'') (\<lambda>v_task_id.
     res_bind (py_item data ''status'') (\<lambda>v_status.
     res_bind (py_item data ''poll_url'') (\<lambda>v_poll_url.
       Inr \<lparr>ar_task_id = v_task_id, ar_status = v_status,
            ar_poll_url = v_poll_url\<rparr>)))"

section \<open>SubscribeFrame\<close>

record subscribe_frame =
  sb_subscription_id :: pyval
  sb_filter :: pyval
  sb_heartbeat_interval_ms :: pyval
  sb_max_events :: pyval
  sb_cursor :: pyval

definition subscribe_to_dict :: "subscribe_frame \<Rightarrow> pyval" where
  "subscribe_to_dict f =
     PDict ([(''subscription_id'', sb_subscription_id f)]
       @ not_none ''filter'' (sb_filter f)
       @ not_none ''heartbeat_interval_ms'' (sb_heartbeat_interval_ms f)
       @ not_none ''max_events'' (sb_max_events f)
       @ not_none ''cursor'' (sb_cursor f))"

definition subscribe_from_dict :: "pyval \<Rightarrow> subscribe_frame res" where
  "subscribe_from_dict data =
     res_bind (py_item data ''subscription_id'') (\<lambda>v_subscription_id.
     res_bind (py_get data ''filter'') (\<lambda>v_filter.
     res_bind (py_get data ''heartbeat_interval_ms'') (\<lambda>v_heartbeat_interval_ms.
     res_bind (py_get data ''max_events'') (\<lambda>v_max_events.
     res_bind (py_get data ''cursor'') (\<lambda>v_cursor.
       Inr \<lparr>sb_subscription_id = v_subscription_id, sb_filter = v_filter,
            sb_heartbeat_interval_ms = v_heartbeat_interval_ms, sb_max_events = v_max_events,
            sb_cursor = v_cursor\<rparr>)))))"

text \<open>
  \<open>FrameType\<close> has no member \<open>SUBSCRIBE\<close>, so reading the frame's type raises and the codec cannot send it.
\<close>

definition subscribe_frame_type :: "subscribe_frame \<Rightarrow> frame_type res" where
  "subscribe_frame_type f = Inl AttributeError"

section \<open>The frames as the codec sees them\<close>

datatype nwp_frame = NQuery query_frame | NAction action_frame

fun nwp_class :: "nwp_frame \<Rightarrow> frame_class" where
  "nwp_class (NQuery _) = QueryFrame"
| "nwp_class (NAction _) = ActionFrame"

fun nwp_type :: "nwp_frame \<Rightarrow> frame_type" where
  "nwp_type (NQuery _) = QUERY"
| "nwp_type (NAction _) = ACTION"

fun nwp_to_dict :: "nwp_frame \<Rightarrow> pyval" where
  "nwp_to_dict (NQuery f) = query_to_dict f"
| "nwp_to_dict (NAction f) = action_to_dict f"

definition nwp_from_dict :: "(pyval \<Rightarrow> string) \<Rightarrow> (string \<Rightarrow> pyfloat option) \<Rightarrow> frame_class \<Rightarrow> pyval \<Rightarrow> nwp_frame res" where
  "nwp_from_dict render rd_float cls data =
     (case cls of
        QueryFrame \<Rightarrow> res_wrap NQuery (query_from_dict rd_float data)
      | ActionFrame \<Rightarrow> res_wrap NAction (action_from_dict render data)
      | _ \<Rightarrow> Inl AttributeError)"

definition nwp_api :: "(pyval \<Rightarrow> string) \<Rightarrow> (string \<Rightarrow> pyfloat option) \<Rightarrow> nwp_frame frame_api" where
  "nwp_api render rd_float = \<lparr>fa_type = nwp_type, fa_tier = (\<lambda>_. MSGPACK), fa_to_dict = nwp_to_dict,
     fa_stream_last = (\<lambda>_. None), fa_from_dict = nwp_from_dict render rd_float\<rparr>"

section \<open>Round trips\<close>

text \<open>
  An empty ordering becomes \<open>None\<close>, an empty action id is replaced by the alias, and the components of a search vector
  become floats; frames without these are given back as they were.
\<close>

definition is_float :: "pyval \<Rightarrow> bool" where
  "is_float v = (case v of PFloat _ \<Rightarrow> True | _ \<Rightarrow> False)"

fun nwp_wf :: "nwp_frame \<Rightarrow> bool" where
  "nwp_wf (NQuery f) \<longleftrightarrow> qf_order f \<noteq> Some []
     \<and> (case qf_vector_search f of None \<Rightarrow> True | Some v \<Rightarrow> list_all is_float (vs_vector v))"
| "nwp_wf (NAction f) \<longleftrightarrow> True"

lemma floats_kept: "list_all is_float xs \<Longrightarrow> \<exists>fs. res_map (py_float rd) xs = Inr fs \<and> map PFloat fs = xs"
  by (induction xs) (auto simp: is_float_def py_float_def split: pyval.splits)

lemma vector_search_dict:
  assumes "list_all is_float (vs_vector f)"
  shows "vector_search_from_dict rd (vector_search_to_dict f) = Inr f"
proof -
  obtain fs where "res_map (py_float rd) (vs_vector f) = Inr fs" "map PFloat fs = vs_vector f"
    using floats_kept [OF assms] by blast
  then show ?thesis by (simp add: vector_search_from_dict_def vector_search_to_dict_def)
qed

lemma query_order_dict [simp]: "query_order_from_dict (query_order_to_dict f) = Inr f"
  by (simp add: query_order_from_dict_def query_order_to_dict_def)

lemma order_of_dict: "x \<noteq> Some [] \<Longrightarrow> order_of (opt_val (\<lambda>os. PList (map query_order_to_dict os)) x) = Inr x"
  by (cases x) (simp_all add: order_of_def res_map_id)

lemma query_lookup:
  "py_get (query_to_dict f) ''anchor_ref'' = Inr (qf_anchor_ref f)"
  "py_get (query_to_dict f) ''filter'' = Inr (qf_filter f)"
  "py_get (query_to_dict f) ''cursor'' = Inr (qf_cursor f)"
  "py_get (query_to_dict f) ''depth'' = Inr (qf_depth f)"
  "py_get (query_to_dict f) ''auto_anchor'' = Inr (qf_auto_anchor f)"
  "py_get (query_to_dict f) ''stream'' = Inr (qf_stream f)"
  "py_get (query_to_dict f) ''aggregate'' = Inr (qf_aggregate f)"
  "py_get (query_to_dict f) ''token_budget'' = Inr (qf_token_budget f)"
  "py_get (query_to_dict f) ''tokenizer'' = Inr (qf_tokenizer f)"
  "py_get (query_to_dict f) ''request_id'' = Inr (qf_request_id f)"
  "py_get (query_to_dict f) ''order_by'' = Inr PNone"
  "py_get_or (query_to_dict f) ''order'' PNone = Inr (opt_val (\<lambda>os. PList (map query_order_to_dict os)) (qf_order f))"
  "py_get (query_to_dict f) ''vector_search'' = Inr (opt_val vector_search_to_dict (qf_vector_search f))"
  "py_get (query_to_dict f) ''fields'' = Inr (opt_val PList (qf_fields f))"
  "py_get_or (query_to_dict f) ''limit'' (PInt 20) = Inr (PInt (qf_limit f))"
  by (simp_all add: query_to_dict_def map_add_def)

lemma query_dict:
  assumes "nwp_wf (NQuery f)"
  shows "query_from_dict rd (query_to_dict f) = Inr f"
proof -
  have "opt_sub (vector_search_from_dict rd) (opt_val vector_search_to_dict (qf_vector_search f)) = Inr (qf_vector_search f)"
    by (rule opt_sub_opt_val) (use assms vector_search_dict in \<open>auto simp: vector_search_to_dict_def\<close>)
  moreover have "order_of (opt_val (\<lambda>os. PList (map query_order_to_dict os)) (qf_order f)) = Inr (qf_order f)"
    using assms by (intro order_of_dict) simp
  moreover have "opt_tuple (query_to_dict f) ''fields'' = Inr (qf_fields f)"
    by (cases "qf_fields f") (simp_all add: opt_tuple_def query_lookup)
  ultimately show ?thesis by (simp add: query_from_dict_def query_lookup)
qed

lemma action_dict [simp]: "action_from_dict render (action_to_dict f) = Inr f"
  by (cases "af_action_id f = []") (simp_all add: action_from_dict_def action_to_dict_def py_str_def map_add_def)

lemma subscribe_dict [simp]: "subscribe_from_dict (subscribe_to_dict f) = Inr f"
  by (simp add: subscribe_from_dict_def subscribe_to_dict_def map_add_def)

lemma snapshot_request_dict: "snapshot_request_from_dict (snapshot_request_to_dict f) = Inr f"
  by (simp add: snapshot_request_from_dict_def snapshot_request_to_dict_def map_add_def)

lemma stream_request_dict: "stream_request_from_dict (stream_request_to_dict f) = Inr f"
  by (cases "st_event_types f") (simp_all add: stream_request_from_dict_def stream_request_to_dict_def opt_tuple_def map_add_def)

lemma async_response_dict: "async_response_from_dict (async_response_to_dict f) = Inr f"
  by (simp add: async_response_from_dict_def async_response_to_dict_def)

interpretation nwp: dict_frames "nwp_api render rd_float" nwp_class nwp_wf for render rd_float
proof
  fix f
  assume "nwp_wf f"
  then show "fa_from_dict (nwp_api render rd_float) (nwp_class f) (fa_to_dict (nwp_api render rd_float) f) = Inr f"
    by (cases f) (simp_all add: nwp_api_def nwp_from_dict_def query_dict)
qed

text \<open>
  Every query and action survives the wire on the text tiers, whatever follows it in the buffer.
\<close>

theorem nwp_wire_roundtrip:
  assumes "nwp_wf f" "lib_reads_back lib (nwp_to_dict f)" "registry_resolve reg (nwp_type f) = Inr (nwp_class f)"
    and "(case ov of None \<Rightarrow> MSGPACK | Some t \<Rightarrow> t) \<noteq> BINARY_VECTOR"
    and "codec_encode lib (nwp_api render rd_float) maxp ov f = Inr wire"
  shows "codec_decode lib (nwp_api render rd_float) reg (wire @ rest) = Inr f"
proof (rule nwp.text_wire_roundtrip [OF assms(1) _ _ _ assms(5)])
  show "(case ov of None \<Rightarrow> fa_tier (nwp_api render rd_float) f | Some t \<Rightarrow> t) \<noteq> BINARY_VECTOR"
    using assms(4) by (cases ov) (simp_all add: nwp_api_def)
qed (use assms(2,3) in \<open>simp_all add: nwp_api_def\<close>)

end
