(* ===== verification/NwpAction.thy ===== *)
theory NwpAction
  imports NwpContext NwpFrames
begin

text \<open>
  The action node, \<open>nps_sdk/nwp/action_node_server.py\<close>: the request handler behind \<open>/invoke\<close>, its task store and
  idempotency cache, asynchronous execution, streams and the callback guard.

  The provider is an argument where it decides (\<open>authorize\<close>) and an event where it works: a request that starts an
  execution is in flight until its outcome arrives, and any number of other requests may be handled in between.
  Parsing of the body and of URLs, IPv6 literals, the hash of the parameters and the text of values that are not
  strings (\<open>render\<close>) are arguments; so are the readings of the clock (\<open>clk\<close>, numbered within a call) and the fresh
  task and stream ids.
\<close>

section \<open>Error codes and states\<close>

definition AUTH_NID_SCOPE_VIOLATION :: string where "AUTH_NID_SCOPE_VIOLATION = ''NWP-AUTH-NID-SCOPE-VIOLATION''"
definition ACTION_NOT_FOUND :: string where "ACTION_NOT_FOUND = ''NWP-ACTION-NOT-FOUND''"
definition TASK_NOT_FOUND :: string where "TASK_NOT_FOUND = ''NWP-TASK-NOT-FOUND''"
definition TASK_ALREADY_CANCELLED :: string where "TASK_ALREADY_CANCELLED = ''NWP-TASK-ALREADY-CANCELLED''"
definition NODE_UNAVAILABLE :: string where "NODE_UNAVAILABLE = ''NWP-NODE-UNAVAILABLE''"

definition SYSTEM_TASK_STATUS :: string where "SYSTEM_TASK_STATUS = ''system.task.status''"
definition SYSTEM_TASK_CANCEL :: string where "SYSTEM_TASK_CANCEL = ''system.task.cancel''"

datatype task_status = Pending | Running | Completed | Failed | Cancelled

fun status_text :: "task_status \<Rightarrow> string" where
  "status_text Pending = ''pending''"
| "status_text Running = ''running''"
| "status_text Completed = ''completed''"
| "status_text Failed = ''failed''"
| "status_text Cancelled = ''cancelled''"

definition terminal :: "task_status \<Rightarrow> bool" where
  "terminal st \<longleftrightarrow> st \<in> {Completed, Failed, Cancelled}"

section \<open>Options and results\<close>

record action_spec =
  as_async :: bool
  as_description :: "string option"
  as_params_anchor :: "string option"
  as_result_anchor :: "string option"
  as_idempotent :: "bool option"
  as_timeout_ms_default :: "int option"
  as_timeout_ms_max :: "int option"
  as_required_capability :: "string option"

definition spec_to_dict :: "action_spec \<Rightarrow> pyval" where
  "spec_to_dict s =
     PDict ([(''async'', PBool (as_async s))]
       @ not_none ''description'' (opt_val PStr (as_description s))
       @ not_none ''params_anchor'' (opt_val PStr (as_params_anchor s))
       @ not_none ''result_anchor'' (opt_val PStr (as_result_anchor s))
       @ not_none ''idempotent'' (opt_val PBool (as_idempotent s))
       @ not_none ''timeout_ms_default'' (opt_val PInt (as_timeout_ms_default s))
       @ not_none ''timeout_ms_max'' (opt_val PInt (as_timeout_ms_max s))
       @ not_none ''required_capability'' (opt_val PStr (as_required_capability s)))"

text \<open>Durations are in microseconds.\<close>

record node_options =
  no_node_id :: string
  no_path_prefix :: string
  no_actions :: "action_spec dict"
  no_display_name :: "string option"
  no_require_auth :: bool
  no_default_timeout_ms :: int
  no_max_timeout_ms :: int
  no_idempotency_ttl :: int
  no_reject_private_callback_urls :: bool
  no_profiles :: "pyval dict option"

record action_context =
  ac_agent_nid :: "string option"
  ac_request_id :: pyval
  ac_spec :: action_spec
  ac_timeout_ms :: int
  ac_priority :: pyval
  ac_task_id :: "string option"
  ac_wire_input_bytes :: nat

text \<open>What a provider raises: an \<open>ActionExecutionError\<close> or anything else (with its text).\<close>

datatype raised =
    ExecutionError int string string string "pyval option"
  | OtherError string

text \<open>An asynchronous iterator of frames: the frames it gives, and how it ends.\<close>

datatype source_end = Ends | Raises raised | IsCancelled

record stream_source =
  so_frames :: "stream_frame list"
  so_end :: source_end

record execution_result =
  er_result :: pyval
  er_stream :: "stream_source option"
  er_anchor_ref :: "string option"
  er_token_est :: int

datatype exec_outcome = Returned execution_result | TimedOut | TaskCancelled | ProviderRaised raised

section \<open>The task store\<close>

record action_task =
  tk_task_id :: string
  tk_action_id :: string
  tk_status :: task_status
  tk_created_at :: int
  tk_updated_at :: int
  tk_request_id :: pyval
  tk_agent_nid :: "string option"
  tk_progress :: "rat option"
  tk_result :: pyval
  tk_error :: pyval

type_synonym action_tasks = "action_task dict"

definition task_create :: "int \<Rightarrow> string \<Rightarrow> string \<Rightarrow> pyval \<Rightarrow> string option \<Rightarrow> (action_tasks, unit) effectful" where
  "task_create now task_id action_id request_id agent_nid =
     st_bind (st_read (\<lambda>ts. dict_get ts task_id \<noteq> None)) (\<lambda>exists.
     st_bind (st_when exists ValueError) (\<lambda>_.
       st_write (dict_set task_id
         \<lparr>tk_task_id = task_id, tk_action_id = action_id, tk_status = Pending, tk_created_at = now, tk_updated_at = now,
          tk_request_id = request_id, tk_agent_nid = agent_nid, tk_progress = None, tk_result = PNone, tk_error = PNone\<rparr>)))"

definition task_get :: "action_tasks \<Rightarrow> string \<Rightarrow> action_task option" where
  "task_get ts task_id = dict_get ts task_id"

definition task_change :: "(action_task \<Rightarrow> bool) \<Rightarrow> (action_task \<Rightarrow> action_task) \<Rightarrow> string \<Rightarrow> action_tasks \<Rightarrow> bool \<times> action_tasks" where
  "task_change allowed f task_id ts =
     (case dict_get ts task_id of
        None \<Rightarrow> (False, ts)
      | Some r \<Rightarrow> if allowed r then (True, dict_set task_id (f r) ts) else (False, ts))"

definition try_transition :: "int \<Rightarrow> string \<Rightarrow> task_status \<Rightarrow> task_status \<Rightarrow> action_tasks \<Rightarrow> bool \<times> action_tasks" where
  "try_transition now task_id expected new =
     task_change (\<lambda>r. tk_status r = expected) (\<lambda>r. r\<lparr>tk_status := new, tk_updated_at := now\<rparr>) task_id"

definition task_complete :: "int \<Rightarrow> string \<Rightarrow> pyval \<Rightarrow> action_tasks \<Rightarrow> bool \<times> action_tasks" where
  "task_complete now task_id result =
     task_change (\<lambda>r. \<not> terminal (tk_status r))
       (\<lambda>r. r\<lparr>tk_status := Completed, tk_result := result, tk_progress := Some 1, tk_updated_at := now\<rparr>) task_id"

definition task_fail :: "int \<Rightarrow> string \<Rightarrow> pyval \<Rightarrow> action_tasks \<Rightarrow> bool \<times> action_tasks" where
  "task_fail now task_id err =
     task_change (\<lambda>r. \<not> terminal (tk_status r)) (\<lambda>r. r\<lparr>tk_status := Failed, tk_error := err, tk_updated_at := now\<rparr>) task_id"

definition task_cancel :: "int \<Rightarrow> string \<Rightarrow> action_tasks \<Rightarrow> bool \<times> action_tasks" where
  "task_cancel now task_id =
     task_change (\<lambda>r. \<not> terminal (tk_status r)) (\<lambda>r. r\<lparr>tk_status := Cancelled, tk_updated_at := now\<rparr>) task_id"

text \<open>For a progress that is a number.\<close>

definition update_progress :: "int \<Rightarrow> string \<Rightarrow> rat \<Rightarrow> action_tasks \<Rightarrow> bool \<times> action_tasks" where
  "update_progress now task_id p =
     task_change (\<lambda>r. True) (\<lambda>r. r\<lparr>tk_progress := Some (max 0 (min 1 p)), tk_updated_at := now\<rparr>) task_id"

definition task_purge :: "int \<Rightarrow> int \<Rightarrow> action_tasks \<Rightarrow> (nat \<times> action_tasks) res" where
  "task_purge retention now ts =
     res_bind (time_plus now (- retention)) (\<lambda>cutoff.
       let expired = map fst (filter (\<lambda>kv. terminal (tk_status (snd kv)) \<and> tk_updated_at (snd kv) < cutoff) ts)
       in Inr (length expired, foldl (\<lambda>d k. dict_pop k d) ts expired))"

section \<open>The idempotency cache\<close>

record idem_entry =
  ie_action_id :: string
  ie_params_hash :: string
  ie_expires_at :: int
  ie_result :: pyval
  ie_stream_frames :: "stream_frame list option"
  ie_anchor_ref :: "string option"
  ie_task_id :: "string option"

type_synonym idem_cache = "idem_entry dict"

definition UNIT_SEP :: char where "UNIT_SEP = CHR 0x1F"

definition idem_key :: "string \<Rightarrow> string \<Rightarrow> string" where
  "idem_key action_id key = action_id @ [UNIT_SEP] @ key"

definition idem_get :: "int \<Rightarrow> string \<Rightarrow> string \<Rightarrow> idem_cache \<Rightarrow> idem_entry option \<times> idem_cache" where
  "idem_get now action_id key es =
     (case dict_get es (idem_key action_id key) of
        None \<Rightarrow> (None, es)
      | Some e \<Rightarrow> if ie_expires_at e \<le> now then (None, dict_pop (idem_key action_id key) es) else (Some e, es))"

definition try_store :: "int \<Rightarrow> string \<Rightarrow> string \<Rightarrow> idem_entry \<Rightarrow> idem_cache \<Rightarrow> bool \<times> idem_cache" where
  "try_store now action_id key e es =
     (case dict_get es (idem_key action_id key) of
        Some old \<Rightarrow>
          if ie_expires_at old \<le> now then (True, dict_set (idem_key action_id key) e es)
          else (ie_params_hash old = ie_params_hash e, es)
      | None \<Rightarrow> (True, dict_set (idem_key action_id key) e es))"

definition idem_purge :: "int \<Rightarrow> idem_cache \<Rightarrow> nat \<times> idem_cache" where
  "idem_purge now es =
     (let expired = map fst (filter (\<lambda>kv. ie_expires_at (snd kv) \<le> now) es)
      in (length expired, foldl (\<lambda>d k. dict_pop k d) es expired))"

section \<open>The callback guard\<close>

text \<open>
  \<open>up_split\<close> gives the scheme and the host name of a URL (or raises), \<open>up_ipv6\<close> reads an IPv6 literal: the bytes of the
  mapped IPv4 address, if there is one, and whether the address is loopback, link-local, site-local or private.
\<close>

record url_lib =
  up_split :: "string \<Rightarrow> (string \<times> string option) res"
  up_ipv6 :: "string \<Rightarrow> (nat list option \<times> bool) option"

text \<open>\<open>IPv4Address\<close>: four decimal octets of at most three digits without leading zeros.\<close>

definition octet :: "string \<Rightarrow> nat option" where
  "octet s =
     (if s = [] \<or> \<not> list_all py_isdecimal s \<or> length s > 3 \<or> (s \<noteq> ''0'' \<and> hd s = CHR ''0'') \<or> dec_value s > 255 then None
      else Some (dec_value s))"

definition ipv4 :: "string \<Rightarrow> nat list option" where
  "ipv4 s =
     (let parts = split_on (CHR ''.'') s in
      if length parts \<noteq> 4 \<or> list_ex (\<lambda>p. octet p = None) parts then None else Some (map (\<lambda>p. the (octet p)) parts))"

definition private_bytes :: "nat list \<Rightarrow> bool" where
  "private_bytes b \<longleftrightarrow>
     b ! 0 = 127 \<or> b ! 0 = 10 \<or> b ! 0 = 0 \<or> (b ! 0 = 172 \<and> 16 \<le> b ! 1 \<and> b ! 1 \<le> 31) \<or> (b ! 0 = 192 \<and> b ! 1 = 168)
     \<or> (b ! 0 = 169 \<and> b ! 1 = 254)"

definition strip_brackets :: "string \<Rightarrow> string" where
  "strip_brackets s =
     (let in_set = (\<lambda>c. c = CHR ''['' \<or> c = CHR '']'') in rev (dropWhile in_set (rev (dropWhile in_set s))))"

definition is_private_host :: "url_lib \<Rightarrow> string \<Rightarrow> bool" where
  "is_private_host U host =
     (if host = [] then True
      else if py_lower host = ''localhost'' then True
      else case ipv4 (strip_brackets host) of
             Some b \<Rightarrow> private_bytes b
           | None \<Rightarrow>
               (case up_ipv6 U (strip_brackets host) of
                  None \<Rightarrow> False
                | Some (Some b, _) \<Rightarrow> private_bytes b
                | Some (None, local) \<Rightarrow> local))"

text \<open>Whether the guard objects to a callback.\<close>

definition callback_refused :: "url_lib \<Rightarrow> string \<Rightarrow> bool \<Rightarrow> bool res" where
  "callback_refused U url reject_private =
     (if url = [] \<or> py_strip url = [] then Inr True
      else res_bind (up_split U url) (\<lambda>(scheme, host).
        Inr (case host of
               None \<Rightarrow> True
             | Some h \<Rightarrow> scheme = [] \<or> h = [] \<or> py_lower scheme \<noteq> ''https'' \<or> (reject_private \<and> is_private_host U h))))"

definition check_callback :: "url_lib \<Rightarrow> pyval \<Rightarrow> bool \<Rightarrow> bool res" where
  "check_callback U v reject_private =
     (case v of
        PStr url \<Rightarrow> callback_refused U url reject_private
      | _ \<Rightarrow> if py_bool v then Inl AttributeError else Inr True)"

section \<open>Responses\<close>

text \<open>The texts of error messages are not kept. A JSON response has its status, body and extra headers.\<close>

datatype response =
    ErrorResponse int string string "pyval option"
  | EmptyResponse int
  | JsonResponse int pyval "(string \<times> pyval) list"
  | StreamResponse "stream_frame list" pyval

definition send_caps :: "pyval \<Rightarrow> string option \<Rightarrow> pyval \<Rightarrow> int \<Rightarrow> response" where
  "send_caps payload anchor_ref request_id token_est =
     (let data = (if payload = PNone then [] else [payload]) in
      JsonResponse 200
        (PDict ([(''anchor_ref'', PStr (case anchor_ref of None \<Rightarrow> [] | Some a \<Rightarrow> a)), (''count'', PInt (int (length data))),
                 (''data'', PList data)]
           @ (if token_est > 0 then [(''token_est'', PInt token_est)] else [])))
        ([(''X-NWP-Node-Type'', PStr ''action'')] @ not_none ''X-NWP-Schema'' (opt_val PStr anchor_ref)
           @ (if token_est > 0 then [(''X-NWP-Tokens'', PInt token_est)] else []) @ not_none ''X-NWP-Request-Id'' request_id))"

definition rstrip_slashes :: "string \<Rightarrow> string" where
  "rstrip_slashes s = rev (dropWhile (\<lambda>c. c = CHR ''/'') (rev s))"

definition node_prefix :: "node_options \<Rightarrow> string" where
  "node_prefix opts = rstrip_slashes (no_path_prefix opts)"

definition send_async :: "node_options \<Rightarrow> string \<Rightarrow> task_status \<Rightarrow> pyval \<Rightarrow> int option \<Rightarrow> response" where
  "send_async opts task_id st request_id estimated_ms =
     JsonResponse 202
       (PDict ([(''task_id'', PStr task_id), (''status'', PStr (status_text st)),
                (''poll_url'', PStr (node_prefix opts @ ''/invoke''))]
          @ not_none ''estimated_ms'' (opt_val PInt estimated_ms) @ not_none ''request_id'' request_id))
       [(''X-NWP-Node-Type'', PStr ''action'')]"

text \<open>
  \<open>_send_stream\<close>: the frames of the source are sent under a fresh stream id until one of them breaks the rules. The
  loop returns what was sent, the next sequence number, whether a terminal frame was sent, and whether all
  frames were in order.
\<close>

fun emit_loop :: "pyval \<Rightarrow> stream_frame list \<Rightarrow> int \<Rightarrow> bool \<Rightarrow> stream_frame list \<Rightarrow> stream_frame list \<times> int \<times> bool \<times> bool" where
  "emit_loop sid [] next_seq fin emitted = (emitted, next_seq, fin, True)"
| "emit_loop sid (f # fs) next_seq fin emitted =
     (if fin then (emitted, next_seq, fin, False)
      else if str_seq f \<noteq> next_seq then (emitted, next_seq, fin, False)
      else if str_error_code f \<noteq> PNone \<and> \<not> str_is_last f then (emitted, next_seq, fin, False)
      else emit_loop sid fs (next_seq + 1) (str_is_last f) (emitted @ [f\<lparr>str_stream_id := sid\<rparr>]))"

definition failure_frame :: "pyval \<Rightarrow> int \<Rightarrow> string \<Rightarrow> stream_frame" where
  "failure_frame sid seq code =
     \<lparr>str_stream_id = sid, str_seq = seq, str_is_last = True, str_data = [], str_anchor_ref = PNone, str_window_size = PNone,
      str_error_code = PStr code\<rparr>"

definition raised_code :: "raised \<Rightarrow> string" where
  "raised_code r = (case r of ExecutionError _ _ code _ _ \<Rightarrow> code | OtherError _ \<Rightarrow> NODE_UNAVAILABLE)"

text \<open>The frames that were sent, and the frames to remember.\<close>

definition send_stream :: "pyval \<Rightarrow> stream_source \<Rightarrow> (stream_frame list \<times> stream_frame list option) res" where
  "send_stream sid src =
     (let (emitted, next_seq, fin, in_order) = emit_loop sid (so_frames src) 0 False [];
          failed = (\<lambda>code. Inr (emitted @ (if fin then [] else [failure_frame sid next_seq code]), None))
      in if \<not> in_order then failed NODE_UNAVAILABLE
         else case so_end src of
                IsCancelled \<Rightarrow> Inl CancelledError
              | Raises r \<Rightarrow> failed (raised_code r)
              | Ends \<Rightarrow>
                  if \<not> fin then failed NODE_UNAVAILABLE
                  else Inr (emitted, if str_error_code (last emitted) = PNone then Some emitted else None))"

text \<open>The request id goes into a header, which needs a string.\<close>

definition stream_response :: "stream_frame list \<Rightarrow> pyval \<Rightarrow> response res" where
  "stream_response frames request_id =
     (case request_id of
        PNone \<Rightarrow> Inr (StreamResponse frames PNone)
      | PStr r \<Rightarrow> Inr (StreamResponse frames (PStr r))
      | _ \<Rightarrow> Inl AttributeError)"

section \<open>The node\<close>

record request =
  rq_body :: "pyval res"
  rq_body_len :: nat
  rq_headers :: "string dict"

record node_env =
  en_render :: "pyval \<Rightarrow> string"
  en_hash :: "pyval \<Rightarrow> string"
  en_iso :: "int \<Rightarrow> string"
  en_url :: url_lib
  en_authorize :: "action_frame \<Rightarrow> action_context \<Rightarrow> raised option"

text \<open>A synchronous call that is being executed.\<close>

record pending_call =
  pc_frame :: action_frame
  pc_context :: action_context
  pc_cache_id :: string
  pc_hash :: string

record node_state =
  ns_tasks :: action_tasks
  ns_idem :: idem_cache
  ns_background :: "string list"
  ns_inflight :: "pending_call list"

datatype begun = Respond response | Execute pending_call

definition bad_request :: response where
  "bad_request = ErrorResponse 400 ''NPS-CLIENT-BAD-REQUEST'' ACTION_PARAMS_INVALID None"

definition agent_of :: "string dict \<Rightarrow> string option" where
  "agent_of headers = dict_get headers ''x-nwp-agent''"

definition owns_task :: "string dict \<Rightarrow> action_task \<Rightarrow> bool" where
  "owns_task headers r \<longleftrightarrow> tk_agent_nid r = agent_of headers"

definition read_string_param :: "pyval \<Rightarrow> string \<Rightarrow> string option" where
  "read_string_param params name =
     (case params of PDict d \<Rightarrow> (case map_of d name of Some (PStr v) \<Rightarrow> Some v | _ \<Rightarrow> None) | _ \<Rightarrow> None)"

text \<open>The checks that the two system actions share: the task exists and the caller owns it.\<close>

definition owned_task :: "action_frame \<Rightarrow> string dict \<Rightarrow> action_tasks \<Rightarrow> response + string \<times> action_task" where
  "owned_task frame headers ts =
     (case read_string_param (af_params frame) ''task_id'' of
        None \<Rightarrow> Inl bad_request
      | Some task_id \<Rightarrow>
          if task_id = [] then Inl bad_request
          else (case task_get ts task_id of
                  None \<Rightarrow> Inl (ErrorResponse 404 ''NPS-CLIENT-NOT-FOUND'' TASK_NOT_FOUND None)
                | Some r \<Rightarrow>
                    if owns_task headers r then Inr (task_id, r)
                    else Inl (ErrorResponse 403 ''NPS-AUTH-FORBIDDEN'' AUTH_NID_SCOPE_VIOLATION None)))"

definition task_status_dict :: "(int \<Rightarrow> string) \<Rightarrow> action_task \<Rightarrow> pyval" where
  "task_status_dict isof r =
     PDict ([(''task_id'', PStr (tk_task_id r)), (''status'', PStr (status_text (tk_status r))),
             (''created_at'', PStr (isof (tk_created_at r))), (''updated_at'', PStr (isof (tk_updated_at r)))]
       @ not_none ''progress'' (opt_val (\<lambda>p. PFloat (FFin p)) (tk_progress r)) @ not_none ''request_id'' (tk_request_id r)
       @ not_none ''result'' (tk_result r) @ not_none ''error'' (tk_error r))"

definition handle_task_status :: "node_env \<Rightarrow> action_frame \<Rightarrow> pyval \<Rightarrow> string dict \<Rightarrow> action_tasks \<Rightarrow> response" where
  "handle_task_status env frame request_id headers ts =
     (case owned_task frame headers ts of
        Inl r \<Rightarrow> r
      | Inr (_, r) \<Rightarrow> send_caps (task_status_dict (en_iso env) r) None request_id 0)"

definition handle_task_cancel :: "int \<Rightarrow> action_frame \<Rightarrow> pyval \<Rightarrow> string dict \<Rightarrow> action_tasks \<Rightarrow> response \<times> action_tasks" where
  "handle_task_cancel now frame request_id headers ts =
     (case owned_task frame headers ts of
        Inl r \<Rightarrow> (r, ts)
      | Inr (task_id, r) \<Rightarrow>
          if terminal (tk_status r) then (ErrorResponse 409 ''NPS-CLIENT-CONFLICT'' TASK_ALREADY_CANCELLED None, ts)
          else (send_caps (PDict [(''task_id'', PStr task_id), (''status'', PStr ''cancelled'')]) None request_id 0,
                snd (task_cancel now task_id ts)))"

definition clamp_timeout :: "node_options \<Rightarrow> int \<Rightarrow> action_spec \<Rightarrow> int" where
  "clamp_timeout opts requested spec =
     (let or_else = (\<lambda>v d. case v of None \<Rightarrow> d | Some x \<Rightarrow> if x = 0 then d else x);
          hard_max = min (or_else (as_timeout_ms_max spec) (no_max_timeout_ms opts)) (no_max_timeout_ms opts)
      in if requested \<le> 0 then or_else (as_timeout_ms_default spec) (no_default_timeout_ms opts) else min requested hard_max)"

definition scoped_cache_action_id :: "node_options \<Rightarrow> string \<Rightarrow> string option \<Rightarrow> string" where
  "scoped_cache_action_id opts action_id agent =
     no_node_id opts @ [UNIT_SEP] @ action_id @ [UNIT_SEP] @ (case agent of None \<Rightarrow> [] | Some a \<Rightarrow> a)"

definition key_text :: "node_env \<Rightarrow> action_frame \<Rightarrow> string" where
  "key_text env frame = py_str (en_render env) (af_idempotency_key frame)"

text \<open>The response to a repeated request, from the cache.\<close>

definition replay :: "node_options \<Rightarrow> pyval \<Rightarrow> string \<Rightarrow> pyval \<Rightarrow> action_tasks \<Rightarrow> idem_entry \<Rightarrow> response res" where
  "replay opts sid hash request_id ts e =
     (if ie_params_hash e \<noteq> hash then Inr (ErrorResponse 409 ''NPS-CLIENT-CONFLICT'' ACTION_IDEMPOTENCY_CONFLICT None)
      else case ie_task_id e of
             Some t \<Rightarrow> Inr (send_async opts t (case task_get ts t of None \<Rightarrow> Pending | Some r \<Rightarrow> tk_status r) request_id None)
           | None \<Rightarrow>
               (case ie_stream_frames e of
                  Some fs \<Rightarrow>
                    res_bind (send_stream sid \<lparr>so_frames = fs, so_end = Ends\<rparr>) (\<lambda>(sent, _). stream_response sent request_id)
                | None \<Rightarrow> Inr (send_caps (ie_result e) (ie_anchor_ref e) request_id 0)))"

definition store_entry ::
  "node_env \<Rightarrow> node_options \<Rightarrow> (nat \<Rightarrow> int) \<Rightarrow> pending_call \<Rightarrow> pyval \<Rightarrow> stream_frame list option \<Rightarrow> string option \<Rightarrow> string option
     \<Rightarrow> (node_state, unit) effectful" where
  "store_entry env opts clk pc result frames anchor_ref task_id s =
     (if af_idempotency_key (pc_frame pc) = PNone then (Inr (), s)
      else case time_plus (clk 2) (no_idempotency_ttl opts) of
             Inl e \<Rightarrow> (Inl e, s)
           | Inr expires \<Rightarrow>
               (Inr (), s\<lparr>ns_idem := snd (try_store (clk 3) (pc_cache_id pc) (key_text env (pc_frame pc))
                  \<lparr>ie_action_id = af_action_id (pc_frame pc), ie_params_hash = pc_hash pc, ie_expires_at = expires, ie_result = result,
                   ie_stream_frames = frames, ie_anchor_ref = anchor_ref, ie_task_id = task_id\<rparr> (ns_idem s))\<rparr>))"

text \<open>Looking the key up; an expired entry is dropped.\<close>

definition lookup_entry :: "node_env \<Rightarrow> int \<Rightarrow> pending_call \<Rightarrow> node_state \<Rightarrow> idem_entry option \<times> node_state" where
  "lookup_entry env now pc s =
     (if af_idempotency_key (pc_frame pc) = PNone then (None, s)
      else (let (found, es) = idem_get now (pc_cache_id pc) (key_text env (pc_frame pc)) (ns_idem s)
            in (found, s\<lparr>ns_idem := es\<rparr>)))"

definition start_task ::
  "node_env \<Rightarrow> node_options \<Rightarrow> (nat \<Rightarrow> int) \<Rightarrow> string \<Rightarrow> pyval \<Rightarrow> pending_call \<Rightarrow> (node_state, begun) effectful" where
  "start_task env opts clk task_id request_id pc s =
     (case task_create (clk 1) task_id (af_action_id (pc_frame pc)) request_id (ac_agent_nid (pc_context pc)) (ns_tasks s) of
        (Inl e, _) \<Rightarrow> (Inl e, s)
      | (Inr _, ts) \<Rightarrow>
          st_bind (store_entry env opts clk pc PNone None None (Some task_id)) (\<lambda>_ s'.
            (Inr (Respond (send_async opts task_id Pending request_id (as_timeout_ms_default (ac_spec (pc_context pc))))),
             s'\<lparr>ns_background := task_id # ns_background s'\<rparr>)) (s\<lparr>ns_tasks := ts\<rparr>))"

text \<open>After authorization: the cache, then a task or an execution.\<close>

definition admit_call ::
  "node_env \<Rightarrow> node_options \<Rightarrow> (nat \<Rightarrow> int) \<Rightarrow> string \<Rightarrow> pyval \<Rightarrow> pending_call \<Rightarrow> (node_state, begun) effectful" where
  "admit_call env opts clk fresh request_id pc s =
     (let (found, s1) = lookup_entry env (clk 0) pc s in
      case found of
        Some e \<Rightarrow> (res_bind (replay opts (PStr fresh) (pc_hash pc) request_id (ns_tasks s1) e) (\<lambda>r. Inr (Respond r)), s1)
      | None \<Rightarrow>
          if af_async (pc_frame pc) then start_task env opts clk fresh request_id pc s1
          else (Inr (Execute pc), s1\<lparr>ns_inflight := pc # ns_inflight s1\<rparr>))"

definition authorization_error :: "raised \<Rightarrow> response" where
  "authorization_error r =
     (case r of
        ExecutionError http nps code _ details \<Rightarrow> ErrorResponse http nps code details
      | OtherError _ \<Rightarrow> ErrorResponse 500 ''NPS-SERVER-INTERNAL'' NODE_UNAVAILABLE None)"

text \<open>The gates of a declared action, up to authorization.\<close>

definition gate_call ::
  "node_env \<Rightarrow> node_options \<Rightarrow> request \<Rightarrow> pyval dict \<Rightarrow> action_frame \<Rightarrow> action_spec \<Rightarrow> (response + pending_call) res" where
  "gate_call env opts rq raw frame spec =
     (let opt = (\<lambda>k. case map_of raw k of None \<Rightarrow> PNone | Some v \<Rightarrow> v);
          priority = opt ''priority''; callback = opt ''callback_url'';
          agent = agent_of (rq_headers rq);
          ctx = \<lparr>ac_agent_nid = agent, ac_request_id = opt ''request_id'', ac_spec = spec,
                 ac_timeout_ms = clamp_timeout opts (af_timeout_ms frame) spec,
                 ac_priority = (if priority = PNone then PStr ''normal'' else priority), ac_task_id = None,
                 ac_wire_input_bytes = rq_body_len rq\<rparr>
      in if priority \<noteq> PNone \<and> priority \<notin> {PStr ''low'', PStr ''normal'', PStr ''high''} then Inr (Inl bad_request)
         else if af_async frame \<and> \<not> as_async spec then Inr (Inl bad_request)
         else res_bind (if callback = PNone then Inr False
                        else check_callback (en_url env) callback (no_reject_private_callback_urls opts)) (\<lambda>refused.
           if refused then Inr (Inl bad_request)
           else case en_authorize env frame ctx of
                  Some r \<Rightarrow> Inr (Inl (authorization_error r))
                | None \<Rightarrow> Inr (Inr \<lparr>pc_frame = frame, pc_context = ctx,
                    pc_cache_id = scoped_cache_action_id opts (af_action_id frame) agent, pc_hash = en_hash env (af_params frame)\<rparr>)))"

definition handle_invoke ::
  "node_env \<Rightarrow> node_options \<Rightarrow> (nat \<Rightarrow> int) \<Rightarrow> string \<Rightarrow> request \<Rightarrow> (node_state, begun) effectful" where
  "handle_invoke env opts clk fresh rq s =
     (case res_bind (rq_body rq) (\<lambda>raw. res_bind (action_from_dict (en_render env) raw) (\<lambda>f. Inr (raw, f))) of
        Inl e \<Rightarrow> if e \<in> {ValueError, UnicodeDecodeError, KeyError} then (Inr (Respond bad_request), s) else (Inl e, s)
      | Inr (raw, frame) \<Rightarrow>
          (let d = (case raw of PDict d \<Rightarrow> d | _ \<Rightarrow> []);
               request_id = (case map_of d ''request_id'' of None \<Rightarrow> PNone | Some v \<Rightarrow> v)
           in if af_action_id frame = SYSTEM_TASK_STATUS
              then (Inr (Respond (handle_task_status env frame request_id (rq_headers rq) (ns_tasks s))), s)
              else if af_action_id frame = SYSTEM_TASK_CANCEL
              then (let (r, ts) = handle_task_cancel (clk 0) frame request_id (rq_headers rq) (ns_tasks s)
                    in (Inr (Respond r), s\<lparr>ns_tasks := ts\<rparr>))
              else (case dict_get (no_actions opts) (af_action_id frame) of
                      None \<Rightarrow> (Inr (Respond (ErrorResponse 404 ''NPS-CLIENT-NOT-FOUND'' ACTION_NOT_FOUND None)), s)
                    | Some spec \<Rightarrow>
                        (case gate_call env opts rq d frame spec of
                           Inl e \<Rightarrow> (Inl e, s)
                         | Inr (Inl r) \<Rightarrow> (Inr (Respond r), s)
                         | Inr (Inr pc) \<Rightarrow> admit_call env opts clk fresh request_id pc s))))"

definition result_anchor :: "pending_call \<Rightarrow> execution_result \<Rightarrow> string option" where
  "result_anchor pc res = (case er_anchor_ref res of Some a \<Rightarrow> if a = [] then as_result_anchor (ac_spec (pc_context pc)) else Some a
     | None \<Rightarrow> as_result_anchor (ac_spec (pc_context pc)))"

text \<open>The rest of a synchronous call, when its outcome is there.\<close>

definition finish_call ::
  "node_env \<Rightarrow> node_options \<Rightarrow> (nat \<Rightarrow> int) \<Rightarrow> string \<Rightarrow> pending_call \<Rightarrow> exec_outcome \<Rightarrow> (node_state, response) effectful" where
  "finish_call env opts clk sid pc oc s =
     (let request_id = ac_request_id (pc_context pc) in
      case oc of
        TimedOut \<Rightarrow> (Inr (ErrorResponse 504 ''NPS-SERVER-TIMEOUT'' NODE_UNAVAILABLE None), s)
      | TaskCancelled \<Rightarrow> (Inl CancelledError, s)
      | ProviderRaised r \<Rightarrow> (Inr (authorization_error r), s)
      | Returned r \<Rightarrow>
          (let anchor_ref = result_anchor pc r
           in case er_stream r of
                Some src \<Rightarrow>
                  st_bind (st_lift (res_bind (stream_response [] request_id) (\<lambda>_. send_stream (PStr sid) src))) (\<lambda>(sent, completed).
                  st_bind (case completed of
                             None \<Rightarrow> st_lift (Inr ())
                           | Some fs \<Rightarrow> store_entry env opts clk pc PNone (Some fs) anchor_ref None) (\<lambda>_.
                    st_lift (stream_response sent request_id))) s
              | None \<Rightarrow>
                  st_bind (store_entry env opts clk pc (er_result r) None anchor_ref None) (\<lambda>_.
                    st_lift (Inr (send_caps (er_result r) anchor_ref request_id (er_token_est r)))) s))"

section \<open>Asynchronous tasks\<close>

definition task_error :: "string \<Rightarrow> string \<Rightarrow> pyval" where
  "task_error code message = PDict [(''code'', PStr code), (''message'', PStr message)]"

definition task_outcome :: "int \<Rightarrow> string \<Rightarrow> exec_outcome \<Rightarrow> action_tasks \<Rightarrow> unit res \<times> action_tasks" where
  "task_outcome now task_id oc ts =
     (case oc of
        Returned r \<Rightarrow> (Inr (), snd (task_complete now task_id (er_result r) ts))
      | TimedOut \<Rightarrow> (Inr (), snd (task_fail now task_id (task_error NODE_UNAVAILABLE ''task timed out'') ts))
      | TaskCancelled \<Rightarrow>
          (case task_get ts task_id of
             None \<Rightarrow> (Inl AttributeError, ts)
           | Some r \<Rightarrow>
               if tk_status r \<noteq> Cancelled then (Inr (), snd (task_fail now task_id (task_error NODE_UNAVAILABLE ''task cancelled'') ts))
               else (Inr (), ts))
      | ProviderRaised (ExecutionError _ _ code message _) \<Rightarrow> (Inr (), snd (task_fail now task_id (task_error code message) ts))
      | ProviderRaised (OtherError message) \<Rightarrow> (Inr (), snd (task_fail now task_id (task_error NODE_UNAVAILABLE message) ts)))"

text \<open>
  \<open>_run_async_task\<close> in the two steps that its single \<open>await\<close> separates: it marks the task as running, and later
  records the outcome and leaves the table of background tasks.
\<close>

definition task_started :: "int \<Rightarrow> string \<Rightarrow> node_state \<Rightarrow> node_state" where
  "task_started now task_id s = s\<lparr>ns_tasks := snd (try_transition now task_id Pending Running (ns_tasks s))\<rparr>"

definition task_finished :: "int \<Rightarrow> string \<Rightarrow> exec_outcome \<Rightarrow> node_state \<Rightarrow> node_state" where
  "task_finished now task_id oc s =
     s\<lparr>ns_tasks := snd (task_outcome now task_id oc (ns_tasks s)), ns_background := removeAll task_id (ns_background s)\<rparr>"

section \<open>The routes\<close>

definition build_manifest :: "node_options \<Rightarrow> pyval res" where
  "build_manifest opts =
     (let profiles = (case no_profiles opts of None \<Rightarrow> [] | Some d \<Rightarrow> d) in
      res_bind (py_get_or (case map_of profiles ''llm'' of None \<Rightarrow> PDict [] | Some v \<Rightarrow> v) ''supports_stream'' (PBool False)) (\<lambda>streams.
        Inr (PDict ([(''nwp'', PStr ''0.4''), (''node_id'', PStr (no_node_id opts)), (''node_type'', PStr ''action'')]
          @ not_none ''display_name'' (opt_val PStr (no_display_name opts))
          @ [(''wire_formats'', PList [PStr ''ncp-capsule'', PStr ''json'']), (''preferred_format'', PStr ''json''),
             (''capabilities'', PDict [(''query'', PBool False), (''stream'', PBool (py_bool streams)), (''token_budget_hint'', PBool True)]),
             (''auth'', PDict [(''required'', PBool (no_require_auth opts)),
                             (''identity_type'', PStr (if no_require_auth opts then ''nip-cert'' else ''none''))]),
             (''endpoints'', PDict [(''invoke'', PStr (node_prefix opts @ ''/invoke'')), (''schema'', PStr (node_prefix opts @ ''/.schema''))])]
          @ not_none ''profiles'' (opt_val PDict (no_profiles opts))))))"

definition actions_dict :: "node_options \<Rightarrow> pyval" where
  "actions_dict opts = PDict [(''actions'', PDict (map (\<lambda>(aid, spec). (aid, spec_to_dict spec)) (no_actions opts)))]"

text \<open>The constructor: the state of a new node and its manifest.\<close>

definition node_init :: "node_options \<Rightarrow> (node_state \<times> pyval) res" where
  "node_init opts =
     (if dict_get (no_actions opts) SYSTEM_TASK_STATUS \<noteq> None \<or> dict_get (no_actions opts) SYSTEM_TASK_CANCEL \<noteq> None then Inl ValueError
      else res_bind (build_manifest opts) (\<lambda>m. Inr (\<lparr>ns_tasks = [], ns_idem = [], ns_background = [], ns_inflight = []\<rparr>, m)))"

record http_scope =
  sc_type :: string
  sc_path :: string
  sc_headers :: "(string \<times> string) list"
  sc_verb :: string

definition header_dict :: "(string \<times> string) list \<Rightarrow> string dict" where
  "header_dict hs = foldl (\<lambda>d (k, v). dict_set (py_lower k) v d) [] hs"

datatype routed = Ignored | Answered response | Invoke "string dict"

definition KNOWN_ROUTES :: "string list" where
  "KNOWN_ROUTES = [''/.nwm'', ''/.nwm/'', ''/.schema'', ''/.schema/'', ''/actions'', ''/actions/'', ''/invoke'', ''/invoke/'']"

definition route :: "node_options \<Rightarrow> pyval \<Rightarrow> http_scope \<Rightarrow> routed" where
  "route opts manifest sc =
     (let sub = drop (length (node_prefix opts)) (sc_path sc); headers = header_dict (sc_headers sc) in
      if sc_type sc \<noteq> ''http'' then Ignored
      else if \<not> py_startswith (sc_path sc) (node_prefix opts) then Answered (ErrorResponse 404 ''NPS-CLIENT-NOT-FOUND'' ACTION_NOT_FOUND None)
      else if sub \<notin> set KNOWN_ROUTES then Answered (ErrorResponse 404 ''NPS-CLIENT-NOT-FOUND'' ACTION_NOT_FOUND None)
      else if no_require_auth opts \<and> agent_of headers = None
      then Answered (ErrorResponse 401 ''NPS-CLIENT-UNAUTHORIZED'' AUTH_NID_SCOPE_VIOLATION None)
      else if sub \<in> {''/.nwm'', ''/.nwm/''} then Answered (JsonResponse 200 manifest [(''X-NWP-Node-Type'', PStr ''action'')])
      else if sub \<in> {''/.schema'', ''/.schema/'', ''/actions'', ''/actions/''} then Answered (JsonResponse 200 (actions_dict opts) [])
      else if sc_verb sc \<noteq> ''POST'' then Answered (EmptyResponse 405)
      else Invoke headers)"

section \<open>Runs of the node\<close>

text \<open>
  A request runs without interruption up to the execution of its action. Executions end in any order, and
  providers report progress at any time. Every reading of the clock is below \<open>limit\<close>.
\<close>

definition call_finished :: "pending_call \<Rightarrow> node_state \<Rightarrow> node_state" where
  "call_finished pc s = s\<lparr>ns_inflight := remove1 pc (ns_inflight s)\<rparr>"

inductive node_step :: "node_env \<Rightarrow> node_options \<Rightarrow> int \<Rightarrow> node_state \<Rightarrow> node_state \<Rightarrow> bool"
  for env :: node_env and opts :: node_options and limit :: int where
  requested: "\<forall>i. clk i < limit \<Longrightarrow> handle_invoke env opts clk fresh rq s = (r, s') \<Longrightarrow> node_step env opts limit s s'"
| executed: "\<forall>i. clk i < limit \<Longrightarrow> pc \<in> set (ns_inflight s) \<Longrightarrow> finish_call env opts clk sid pc oc s = (r, s')
     \<Longrightarrow> node_step env opts limit s (call_finished pc s')"
| started: "now < limit \<Longrightarrow> tid \<in> set (ns_background s) \<Longrightarrow> node_step env opts limit s (task_started now tid s)"
| finished: "now < limit \<Longrightarrow> tid \<in> set (ns_background s) \<Longrightarrow> node_step env opts limit s (task_finished now tid oc s)"
| progressed: "now < limit \<Longrightarrow> node_step env opts limit s (s\<lparr>ns_tasks := snd (update_progress now tid p (ns_tasks s))\<rparr>)"

inductive node_run :: "node_env \<Rightarrow> node_options \<Rightarrow> int \<Rightarrow> node_state \<Rightarrow> node_state \<Rightarrow> bool"
  for env :: node_env and opts :: node_options and limit :: int where
  here: "node_run env opts limit s s"
| step: "node_run env opts limit s s' \<Longrightarrow> node_step env opts limit s' s'' \<Longrightarrow> node_run env opts limit s s''"

inductive_cases node_stepE: "node_step env opts limit s s'"

section \<open>What a request changes\<close>

lemma owned_task_owner:
  assumes "owned_task frame headers ts = Inr (tid, r)"
  shows "dict_get ts tid = Some r" and "tk_agent_nid r = agent_of headers"
  using assms by (auto simp: owned_task_def task_get_def owns_task_def split: option.splits if_splits)

lemma gate_call_pending:
  assumes "gate_call env opts rq raw frame spec = Inr (Inr pc)"
  shows "pc_frame pc = frame" and "ac_agent_nid (pc_context pc) = agent_of (rq_headers rq)"
    and "ac_request_id (pc_context pc) = (case map_of raw ''request_id'' of None \<Rightarrow> PNone | Some v \<Rightarrow> v)"
    and "pc_cache_id pc = scoped_cache_action_id opts (af_action_id frame) (agent_of (rq_headers rq))"
    and "pc_hash pc = en_hash env (af_params frame)"
  using assms by (auto simp: gate_call_def Let_def res_bind_def split: if_splits sum.splits option.splits)

text \<open>A request leaves the node as it is, cancels a live task of the caller, or is admitted.\<close>

lemma handle_invoke_cases:
  assumes "handle_invoke env opts clk fresh rq s = (out, s')"
  obtains (same) resp where "s' = s" and "out = Inr (Respond resp) \<or> (\<exists>e. out = Inl e)"
  | (cancel) tid r resp where "dict_get (ns_tasks s) tid = Some r" and "tk_agent_nid r = agent_of (rq_headers rq)"
      and "s' = s\<lparr>ns_tasks := snd (task_cancel (clk 0) tid (ns_tasks s))\<rparr>" and "out = Inr (Respond resp)"
  | (admitted) raw frame rid spec pc where "rq_body rq = Inr raw" and "action_from_dict (en_render env) raw = Inr frame"
      and "gate_call env opts rq (case raw of PDict d \<Rightarrow> d | _ \<Rightarrow> []) frame spec = Inr (Inr pc)"
      and "dict_get (no_actions opts) (af_action_id frame) = Some spec"
      and "ac_request_id (pc_context pc) = rid" and "admit_call env opts clk fresh rid pc s = (out, s')"
      and "\<And>clk' fresh' s''. handle_invoke env opts clk' fresh' rq s'' = admit_call env opts clk' fresh' rid pc s''"
proof (cases "res_bind (rq_body rq) (\<lambda>raw. res_bind (action_from_dict (en_render env) raw) (\<lambda>f. Inr (raw, f)))")
  case (Inl e)
  then show ?thesis using assms by (auto simp: handle_invoke_def split: if_splits intro: same)
next
  case (Inr rf)
  obtain raw frame where rf: "rf = (raw, frame)" by (cases rf)
  note parsed = Inr [unfolded rf]
  have body: "rq_body rq = Inr raw" "action_from_dict (en_render env) raw = Inr frame"
    using parsed by (auto simp: res_bind_def split: sum.splits)
  show ?thesis
  proof (cases "af_action_id frame = SYSTEM_TASK_STATUS")
    case True
    then show ?thesis using assms by (auto simp: handle_invoke_def parsed Let_def intro: same)
  next
    case no_status: False
    show ?thesis
    proof (cases "af_action_id frame = SYSTEM_TASK_CANCEL")
      case True
      show ?thesis
        using assms no_status True
        by (auto simp: handle_invoke_def parsed Let_def handle_task_cancel_def split: sum.splits prod.splits if_splits
              intro: same cancel dest: owned_task_owner)
    next
      case no_cancel: False
      let ?d = "case raw of PDict d \<Rightarrow> d | _ \<Rightarrow> []"
      show ?thesis
      proof (cases "\<exists>spec pc. dict_get (no_actions opts) (af_action_id frame) = Some spec \<and> gate_call env opts rq ?d frame spec = Inr (Inr pc)")
        case True
        then obtain spec pc where adm: "dict_get (no_actions opts) (af_action_id frame) = Some spec" "gate_call env opts rq ?d frame spec = Inr (Inr pc)"
          by blast
        have unfolded: "handle_invoke env opts clk' fresh' rq s'' =
            admit_call env opts clk' fresh' (case map_of ?d ''request_id'' of None \<Rightarrow> PNone | Some v \<Rightarrow> v) pc s''" for clk' fresh' s''
          using no_status no_cancel adm by (simp add: handle_invoke_def parsed Let_def)
        then show ?thesis using assms body adm gate_call_pending(3) [OF adm(2)] by (auto intro: admitted)
      next
        case False
        then show ?thesis
          using assms no_status no_cancel
          by (auto simp: handle_invoke_def parsed Let_def split: option.splits sum.splits intro: same)
      qed
    qed
  qed
qed

section \<open>What a step keeps\<close>

lemma task_change_get:
  "dict_get (snd (task_change allowed f tid ts)) t =
     (case dict_get ts t of None \<Rightarrow> None | Some r \<Rightarrow> if t = tid \<and> allowed r then Some (f r) else Some r)"
  by (auto simp: task_change_def split: option.splits)

lemmas task_ops = try_transition_def task_complete_def task_fail_def task_cancel_def update_progress_def

lemma task_create_keeps: "dict_get ts t = Some r \<Longrightarrow> dict_get (snd (task_create now tid a rid ag ts)) t = Some r"
  by (auto simp: task_create_def st_bind_def st_read_def st_when_def st_lift_def st_write_def)

lemma store_entry_tasks [simp]: "ns_tasks (snd (store_entry env opts clk pc v fs anchor tid s)) = ns_tasks s"
  by (simp add: store_entry_def split: sum.splits)

lemma lookup_entry_tasks [simp]: "ns_tasks (snd (lookup_entry env now pc s)) = ns_tasks s"
  by (simp add: lookup_entry_def split_def Let_def)

lemma finish_call_tasks [simp]: "ns_tasks (snd (finish_call env opts clk sid pc oc s)) = ns_tasks s"
proof -
  have "ns_tasks s1 = ns_tasks s" if "store_entry env opts clk pc v fs anchor tid s = (x, s1)" for v fs anchor tid x s1
    using store_entry_tasks [of env opts clk pc v fs anchor tid s] that by simp
  then show ?thesis
    by (auto simp: finish_call_def Let_def st_bind_def st_lift_def split: exec_outcome.splits option.splits prod.splits sum.splits)
qed

lemma start_task_keeps:
  assumes "dict_get (ns_tasks s) t = Some r"
  shows "dict_get (ns_tasks (snd (start_task env opts clk tid rid pc s))) t = Some r"
proof -
  obtain x ts where create: "task_create (clk 1) tid (af_action_id (pc_frame pc)) rid (ac_agent_nid (pc_context pc)) (ns_tasks s) = (x, ts)"
    by fastforce
  moreover have "dict_get ts t = Some r" using task_create_keeps [OF assms] create by (metis snd_conv)
  moreover have "ns_tasks s1 = ts" if "store_entry env opts clk pc v fs anchor u (s\<lparr>ns_tasks := ts\<rparr>) = (y, s1)" for v fs anchor u y s1
    using store_entry_tasks [of env opts clk pc v fs anchor u "s\<lparr>ns_tasks := ts\<rparr>"] that by simp
  ultimately show ?thesis using assms by (auto simp: start_task_def st_bind_def split: sum.splits prod.splits)
qed

lemma admit_keeps:
  assumes "dict_get (ns_tasks s) t = Some r"
  shows "dict_get (ns_tasks (snd (admit_call env opts clk fresh rid pc s))) t = Some r"
proof -
  obtain found s1 where look: "lookup_entry env (clk 0) pc s = (found, s1)" by fastforce
  have "ns_tasks s1 = ns_tasks s" using lookup_entry_tasks [of env "clk 0" pc s] look by simp
  then show ?thesis using assms by (auto simp: admit_call_def look start_task_keeps split: option.splits)
qed

lemma handle_invoke_keeps:
  assumes "handle_invoke env opts clk fresh rq s = (out, s')" and "dict_get (ns_tasks s) t = Some r"
  shows "dict_get (ns_tasks s') t = Some r \<or>
    (tk_agent_nid r = agent_of (rq_headers rq) \<and> \<not> terminal (tk_status r) \<and>
     dict_get (ns_tasks s') t = Some (r\<lparr>tk_status := Cancelled, tk_updated_at := clk 0\<rparr>))"
  using assms(1)
proof (cases rule: handle_invoke_cases)
  case (admitted raw frame rid spec pc)
  then show ?thesis using admit_keeps [OF assms(2), of env opts clk fresh rid pc] by simp
qed (use assms(2) in \<open>auto simp: task_ops task_change_get\<close>)

text \<open>The outcome of a task: everything but its progress and the time of the last change.\<close>

definition same_outcome :: "action_task \<Rightarrow> action_task \<Rightarrow> bool" where
  "same_outcome r r' \<longleftrightarrow> r' = r\<lparr>tk_progress := tk_progress r', tk_updated_at := tk_updated_at r'\<rparr>"

lemma same_outcome_refl [simp]: "same_outcome r r"
  by (simp add: same_outcome_def)

lemma same_outcome_status: "same_outcome r r' \<Longrightarrow> tk_status r' = tk_status r"
  by (metis same_outcome_def action_task.select_convs(3) action_task.surjective action_task.update_convs(5,8))

lemma same_outcome_trans: "same_outcome r r' \<Longrightarrow> same_outcome r' r'' \<Longrightarrow> same_outcome r r''"
  by (cases r; cases r'; cases r'') (simp add: same_outcome_def)

lemma task_outcome_keeps:
  "dict_get ts t = Some r \<Longrightarrow> terminal (tk_status r) \<Longrightarrow> dict_get (snd (task_outcome now tid oc ts)) t = Some r"
  by (auto simp: task_outcome_def task_ops task_change_get task_get_def split: exec_outcome.splits raised.splits option.splits)

lemma node_step_settled:
  assumes "node_step env opts limit s s'" and "dict_get (ns_tasks s) t = Some r" and "terminal (tk_status r)"
  shows "\<exists>r'. dict_get (ns_tasks s') t = Some r' \<and> same_outcome r r'"
  using assms(1)
proof (cases rule: node_step.cases)
  case (requested clk fresh rq out)
  then show ?thesis using handle_invoke_keeps [OF _ assms(2)] assms(3) by (metis same_outcome_refl)
next
  case (executed clk pc sid oc out s1)
  then have "ns_tasks s1 = ns_tasks s" using finish_call_tasks [of env opts clk sid pc oc s] by simp
  then show ?thesis using executed assms(2) by (simp add: call_finished_def)
next
  case (started now tid)
  then show ?thesis using assms(2,3) by (auto simp: task_started_def task_ops task_change_get terminal_def)
next
  case (finished now tid oc)
  then show ?thesis using task_outcome_keeps [OF assms(2,3)] by (simp add: task_finished_def)
next
  case (progressed now tid p)
  then show ?thesis using assms(2) by (cases r) (auto simp: task_ops task_change_get same_outcome_def)
qed

lemma node_run_settled:
  assumes "node_run env opts limit s s'" and "dict_get (ns_tasks s) t = Some r" and "terminal (tk_status r)"
  shows "\<exists>r'. dict_get (ns_tasks s') t = Some r' \<and> same_outcome r r'"
  using assms
proof (induction rule: node_run.induct)
  case (step s s' s'')
  then obtain r' where r': "dict_get (ns_tasks s') t = Some r'" "same_outcome r r'" by blast
  then show ?case using node_step_settled [OF step.hyps(2) r'(1)] step.prems same_outcome_status same_outcome_trans by metis
qed auto

text \<open>An entry of the idempotency cache stays until it expires.\<close>

definition holds_entry :: "string \<Rightarrow> idem_entry \<Rightarrow> node_state \<Rightarrow> bool" where
  "holds_entry k e s \<longleftrightarrow> dict_get (ns_idem s) k = Some e"

lemma holds_entry_update [simp]:
  "holds_entry k e (s\<lparr>ns_tasks := ts\<rparr>) = holds_entry k e s" "holds_entry k e (s\<lparr>ns_background := bs\<rparr>) = holds_entry k e s"
  "holds_entry k e (s\<lparr>ns_inflight := pcs\<rparr>) = holds_entry k e s"
  by (simp_all add: holds_entry_def)

lemma store_entry_holds:
  assumes "holds_entry k e s" and "\<And>i. clk i < ie_expires_at e"
  shows "holds_entry k e (snd (store_entry env opts clk pc v fs anchor tid s))"
  using assms by (auto simp: store_entry_def holds_entry_def try_store_def not_le [symmetric] split: sum.splits option.splits)

lemma lookup_entry_holds:
  assumes "holds_entry k e s" and "now < ie_expires_at e"
  shows "holds_entry k e (snd (lookup_entry env now pc s))"
  using assms by (auto simp: lookup_entry_def holds_entry_def idem_get_def split: prod.splits option.splits)

lemma finish_call_holds:
  assumes "holds_entry k e s" and "\<And>i. clk i < ie_expires_at e"
  shows "holds_entry k e (snd (finish_call env opts clk sid pc oc s))"
proof -
  have "holds_entry k e s1" if "store_entry env opts clk pc v fs anchor tid s = (x, s1)" for v fs anchor tid x s1
    using store_entry_holds [where clk = clk, OF assms] that by (metis snd_conv)
  then show ?thesis using assms(1)
    by (auto simp: finish_call_def Let_def st_bind_def st_lift_def split: exec_outcome.splits option.splits prod.splits sum.splits)
qed

lemma start_task_holds:
  assumes "holds_entry k e s" and "\<And>i. clk i < ie_expires_at e"
  shows "holds_entry k e (snd (start_task env opts clk tid rid pc s))"
proof -
  have "holds_entry k e s1" if "store_entry env opts clk pc v fs anchor u (s\<lparr>ns_tasks := ts\<rparr>) = (x, s1)" for v fs anchor u ts x s1
    using store_entry_holds [of k e "s\<lparr>ns_tasks := ts\<rparr>" clk env opts pc v fs anchor u] assms that by simp
  then show ?thesis using assms(1) by (auto simp: start_task_def st_bind_def split: sum.splits prod.splits)
qed

lemma admit_holds:
  assumes "holds_entry k e s" and "\<And>i. clk i < ie_expires_at e"
  shows "holds_entry k e (snd (admit_call env opts clk fresh rid pc s))"
proof -
  obtain found s1 where look: "lookup_entry env (clk 0) pc s = (found, s1)" by fastforce
  then have "holds_entry k e s1" using lookup_entry_holds [OF assms(1), of "clk 0" env pc] assms(2) by simp
  then show ?thesis using assms(2) by (auto simp: admit_call_def look start_task_holds split: option.splits)
qed

lemma node_step_holds:
  assumes "node_step env opts limit s s'" and "holds_entry k e s" and "limit \<le> ie_expires_at e"
  shows "holds_entry k e s'"
  using assms(1)
proof (cases rule: node_step.cases)
  case (requested clk fresh rq out)
  have clk: "clk i < ie_expires_at e" for i using requested(1) assms(3) by (meson less_le_trans)
  from requested(2) show ?thesis
  proof (cases rule: handle_invoke_cases)
    case (admitted raw frame rid spec pc)
    then show ?thesis using admit_holds [where clk = clk, OF assms(2) clk] by (metis snd_conv)
  qed (use assms(2) in simp_all)
next
  case (executed clk pc sid oc out s1)
  have clk: "clk i < ie_expires_at e" for i using executed(2) assms(3) by (meson less_le_trans)
  show ?thesis using executed finish_call_holds [where clk = clk, OF assms(2) clk] by (metis call_finished_def holds_entry_update(3) snd_conv)
qed (use assms(2) in \<open>simp_all add: task_started_def task_finished_def\<close>)

lemma node_run_holds:
  assumes "node_run env opts limit s s'" and "holds_entry k e s" and "limit \<le> ie_expires_at e"
  shows "holds_entry k e s'"
  using assms by (induction rule: node_run.induct) (auto intro: node_step_holds)

lemma admit_replays:
  assumes "holds_entry (idem_key (pc_cache_id pc) (key_text env (pc_frame pc))) e s" and "clk 0 < ie_expires_at e"
    and "af_idempotency_key (pc_frame pc) \<noteq> PNone"
  shows "admit_call env opts clk fresh rid pc s =
    (res_bind (replay opts (PStr fresh) (pc_hash pc) rid (ns_tasks s) e) (\<lambda>r. Inr (Respond r)), s)"
  using assms by (simp add: admit_call_def lookup_entry_def idem_get_def holds_entry_def)

text \<open>A call that was admitted for execution found no entry, and there is still none.\<close>

lemma lookup_None_again:
  assumes "lookup_entry env now pc s = (None, s1)"
  shows "lookup_entry env now' pc (s1\<lparr>ns_inflight := pcs\<rparr>) = (None, s1\<lparr>ns_inflight := pcs\<rparr>)"
  using assms
  by (cases "af_idempotency_key (pc_frame pc) = PNone")
     (auto simp: lookup_entry_def idem_get_def split: prod.splits option.splits if_splits)

section \<open>Streams\<close>

text \<open>A well-formed answer: numbered from zero, under one id, and only the last frame marked as the last.\<close>

definition stream_ok :: "pyval \<Rightarrow> stream_frame list \<Rightarrow> bool" where
  "stream_ok sid fs \<longleftrightarrow> fs \<noteq> [] \<and> map str_seq fs = map int [0..<length fs] \<and> list_all (\<lambda>f. str_stream_id f = sid) fs
     \<and> map str_is_last fs = replicate (length fs - 1) False @ [True]"

text \<open>What the loop has sent so far.\<close>

definition sent_ok :: "pyval \<Rightarrow> stream_frame list \<Rightarrow> int \<Rightarrow> bool \<Rightarrow> bool" where
  "sent_ok sid fs n fin \<longleftrightarrow> n = int (length fs) \<and> map str_seq fs = map int [0..<length fs]
     \<and> list_all (\<lambda>f. str_stream_id f = sid) fs
     \<and> map str_is_last fs = (if fin then replicate (length fs - 1) False @ [True] else replicate (length fs) False)
     \<and> (fin \<longrightarrow> fs \<noteq> [])"

lemma emit_loop_ok:
  assumes "emit_loop sid fs n fin sent = (sent', n', fin', ordered)" and "sent_ok sid sent n fin"
  shows "sent_ok sid sent' n' fin'"
  using assms
proof (induction sid fs n fin sent rule: emit_loop.induct)
  case (2 sid f fs n fin sent)
  show ?case
  proof (cases "fin \<or> str_seq f \<noteq> n \<or> str_error_code f \<noteq> PNone \<and> \<not> str_is_last f")
    case True
    then show ?thesis using 2(2,3) by (auto split: if_splits)
  next
    case False
    have "sent_ok sid (sent @ [f\<lparr>str_stream_id := sid\<rparr>]) (n + 1) (str_is_last f)"
      using 2(3) False by (auto simp: sent_ok_def replicate_append_same)
    then show ?thesis using 2(1,2) False by (auto split: if_splits)
  qed
qed simp

lemma sent_ok_term: "sent_ok sid fs n True \<Longrightarrow> stream_ok sid fs"
  by (simp add: sent_ok_def stream_ok_def)

lemma sent_ok_failure: "sent_ok sid fs n False \<Longrightarrow> stream_ok sid (fs @ [failure_frame sid n code])"
  by (simp add: sent_ok_def stream_ok_def failure_frame_def)

lemma emit_loop_start: "sent_ok sid [] 0 False"
  by (simp add: sent_ok_def)

lemma send_stream_ok:
  assumes "send_stream sid src = Inr (sent, kept)"
  shows "stream_ok sid sent"
proof -
  obtain fs n fin ordered where loop: "emit_loop sid (so_frames src) 0 False [] = (fs, n, fin, ordered)" by (metis prod_cases4)
  then have "sent_ok sid fs n fin" using emit_loop_ok emit_loop_start by blast
  then show ?thesis using assms
    by (auto simp: send_stream_def loop Let_def sent_ok_term sent_ok_failure split: if_splits source_end.splits)
qed

section \<open>Retries\<close>

lemma admit_executes:
  assumes "admit_call env opts clk fresh rid pc s = (Inr (Execute pc'), s')"
  shows "pc' = pc" and "\<exists>s1. lookup_entry env (clk 0) pc s = (None, s1) \<and> s' = s1\<lparr>ns_inflight := pc # ns_inflight s1\<rparr>"
    and "\<not> af_async (pc_frame pc)"
  using assms
  by (auto simp: admit_call_def res_bind_def start_task_def st_bind_def split: prod.splits option.splits if_splits sum.splits)

lemma execute_admitted:
  assumes "handle_invoke env opts clk fresh rq s = (Inr (Execute pc), s')"
  obtains rid where "ac_request_id (pc_context pc) = rid" and "admit_call env opts clk fresh rid pc s = (Inr (Execute pc), s')"
    and "\<And>clk' fresh' s''. handle_invoke env opts clk' fresh' rq s'' = admit_call env opts clk' fresh' rid pc s''"
  using assms
proof (cases rule: handle_invoke_cases)
  case (admitted raw frame rid spec pc')
  then show ?thesis using that admit_executes(1) [OF admitted(6)] by simp
qed simp_all

lemma execute_again:
  assumes "handle_invoke env opts clk fresh rq s = (Inr (Execute pc), s')"
  shows "fst (handle_invoke env opts clk' fresh' rq s') = Inr (Execute pc)"
  using assms
proof (cases rule: execute_admitted)
  case (1 rid)
  obtain s1 where "lookup_entry env (clk 0) pc s = (None, s1)" "s' = s1\<lparr>ns_inflight := pc # ns_inflight s1\<rparr>"
    using admit_executes(2) [OF 1(2)] by blast
  then show ?thesis using lookup_None_again admit_executes(3) [OF 1(2)] by (simp add: 1(3) admit_call_def)
qed

lemma finish_call_stores:
  assumes "finish_call env opts clk sid pc (Returned res) s = (Inr resp, s1)" and "er_stream res = None"
    and "af_idempotency_key (pc_frame pc) \<noteq> PNone"
    and "dict_get (ns_idem s) (idem_key (pc_cache_id pc) (key_text env (pc_frame pc))) = None"
  obtains e where "holds_entry (idem_key (pc_cache_id pc) (key_text env (pc_frame pc))) e s1"
    and "ie_expires_at e = clk 2 + no_idempotency_ttl opts" and "ie_params_hash e = pc_hash pc" and "ie_task_id e = None"
    and "ie_stream_frames e = None" and "ie_result e = er_result res" and "ie_anchor_ref e = result_anchor pc res"
    and "resp = send_caps (er_result res) (result_anchor pc res) (ac_request_id (pc_context pc)) (er_token_est res)"
  using assms
  by (auto simp: finish_call_def st_bind_def st_lift_def store_entry_def try_store_def holds_entry_def time_plus_def Let_def
        result_anchor_def split: sum.splits prod.splits if_splits)

lemma finished_call_replayed:
  assumes admitted: "handle_invoke env opts clk fresh rq s = (Inr (Execute pc), s')"
    and key: "af_idempotency_key (pc_frame pc) \<noteq> PNone"
    and first: "dict_get (ns_idem s0) (idem_key (pc_cache_id pc) (key_text env (pc_frame pc))) = None"
    and completed: "finish_call env opts clk0 sid pc (Returned res) s0 = (Inr resp, s1)" and plain: "er_stream res = None"
    and run: "node_run env opts limit s1 s2" and "limit \<le> clk0 2 + no_idempotency_ttl opts" and "clk' 0 < limit"
  shows "handle_invoke env opts clk' fresh' rq s2 =
    (Inr (Respond (send_caps (er_result res) (result_anchor pc res) (ac_request_id (pc_context pc)) 0)), s2)"
  using completed plain key first
proof (cases rule: finish_call_stores)
  case (1 e)
  then have "holds_entry (idem_key (pc_cache_id pc) (key_text env (pc_frame pc))) e s2"
    using node_run_holds [OF run] assms(7) by simp
  note again = admit_replays [OF this, of clk' opts fresh']
  from admitted show ?thesis
  proof (cases rule: execute_admitted)
    case adm: (1 rid)
    then show ?thesis using again 1 assms(7,8) key by (simp add: replay_def res_bind_def)
  qed
qed

section \<open>Timeouts, cache keys and expiry\<close>

lemma clamp_timeout_bound: "0 < requested \<Longrightarrow> clamp_timeout opts requested spec \<le> min requested (no_max_timeout_ms opts)"
  by (auto simp: clamp_timeout_def Let_def)

text \<open>Without a requested timeout the default of the action applies, also above the maximum.\<close>

lemma clamp_timeout_default: "requested \<le> 0 \<Longrightarrow> as_timeout_ms_default spec = Some d \<Longrightarrow> d \<noteq> 0 \<Longrightarrow> clamp_timeout opts requested spec = d"
  by (simp add: clamp_timeout_def Let_def)

lemma append_sep_cancel: "x \<notin> set a \<Longrightarrow> x \<notin> set b \<Longrightarrow> a @ x # r = b @ x # r' \<longleftrightarrow> a = b \<and> r = r'"
proof (induction a arbitrary: b)
  case (Cons c a)
  then show ?case by (cases b) auto
qed (auto simp: Cons_eq_append_conv)

text \<open>Entries of different agents, actions or keys never meet, unless a name contains the separator.\<close>

lemma cache_key_injective:
  assumes "UNIT_SEP \<notin> set a" and "UNIT_SEP \<notin> set b" and "UNIT_SEP \<notin> set u" and "UNIT_SEP \<notin> set v"
  shows "idem_key (scoped_cache_action_id opts a (Some u)) k = idem_key (scoped_cache_action_id opts b (Some v)) l \<longleftrightarrow>
    a = b \<and> u = v \<and> k = l"
  using assms by (auto simp: idem_key_def scoped_cache_action_id_def append_sep_cancel)

lemma pop_all_get: "dict_get (foldl (\<lambda>d k. dict_pop k d) d ks) k = (if k \<in> set ks then None else dict_get d k)"
  by (induction ks arbitrary: d) auto

text \<open>A purge removes exactly the settled tasks that were last changed before the cutoff.\<close>

lemma task_purge_removes:
  assumes "task_purge retention now ts = Inr (n, ts')" and "distinct (map fst ts)" and "dict_get ts t = Some r"
  shows "dict_get ts' t = (if terminal (tk_status r) \<and> tk_updated_at r < now - retention then None else Some r)"
proof -
  let ?old = "\<lambda>r. terminal (tk_status r) \<and> tk_updated_at r < now - retention"
  have same: "v = r" if "(t, v) \<in> set ts" for v by (rule eq_key_imp_eq_value [OF assms(2) that dict_get_mem [OF assms(3)]])
  have "t \<in> set (map fst (filter (\<lambda>kv. ?old (snd kv)) ts)) \<longleftrightarrow> (\<exists>v. (t, v) \<in> set ts \<and> ?old v)"
    by (simp add: image_iff Bex_def)
  then have "t \<in> set (map fst (filter (\<lambda>kv. ?old (snd kv)) ts)) \<longleftrightarrow> ?old r"
    using dict_get_mem [OF assms(3)] same by blast
  moreover have "ts' = foldl (\<lambda>d k. dict_pop k d) ts (map fst (filter (\<lambda>kv. ?old (snd kv)) ts))"
    using assms(1) by (simp add: task_purge_def time_plus_def res_bind_def Let_def split: if_splits)
  ultimately show ?thesis using assms(3) by (simp only: pop_all_get)
qed

section \<open>Properties\<close>

text \<open>A small node for the examples: one action that may run asynchronously.\<close>

definition sample_env :: node_env where
  "sample_env =
     \<lparr>en_render = (\<lambda>_. ''?''), en_hash = (\<lambda>v. case v of PStr p \<Rightarrow> p | _ \<Rightarrow> ''null''), en_iso = (\<lambda>_. ''t''),
      en_url = \<lparr>up_split = (\<lambda>_. Inl ValueError), up_ipv6 = (\<lambda>_. None)\<rparr>, en_authorize = (\<lambda>_ _. None)\<rparr>"

definition sample_spec :: action_spec where
  "sample_spec =
     \<lparr>as_async = True, as_description = None, as_params_anchor = None, as_result_anchor = None, as_idempotent = None,
      as_timeout_ms_default = None, as_timeout_ms_max = None, as_required_capability = None\<rparr>"

definition sample_opts :: node_options where
  "sample_opts =
     \<lparr>no_node_id = ''n'', no_path_prefix = ''/a'', no_actions = [(''x'', sample_spec)], no_display_name = None, no_require_auth = False,
      no_default_timeout_ms = 5000, no_max_timeout_ms = 300000, no_idempotency_ttl = 50, no_reject_private_callback_urls = True,
      no_profiles = None\<rparr>"

definition sample_request :: "string \<Rightarrow> pyval dict \<Rightarrow> request" where
  "sample_request agent body = \<lparr>rq_body = Inr (PDict body), rq_body_len = 9, rq_headers = [(''x-nwp-agent'', agent)]\<rparr>"

definition sample_keyed :: request where
  "sample_keyed = sample_request ''me'' [(''action_id'', PStr ''x''), (''idempotency_key'', PStr ''k''), (''params'', PStr ''p'')]"

definition sample_call :: pending_call where
  "sample_call =
     \<lparr>pc_frame = \<lparr>af_action_id = ''x'', af_params = PStr ''p'', af_idempotency_key = PStr ''k'', af_timeout_ms = 5000, af_async = False,
        af_request_id = PNone\<rparr>,
      pc_context = \<lparr>ac_agent_nid = Some ''me'', ac_request_id = PNone, ac_spec = sample_spec, ac_timeout_ms = 5000,
        ac_priority = PStr ''normal'', ac_task_id = None, ac_wire_input_bytes = 9\<rparr>,
      pc_cache_id = scoped_cache_action_id sample_opts ''x'' (Some ''me''), pc_hash = ''p''\<rparr>"

definition sample_result :: execution_result where
  "sample_result = \<lparr>er_result = PInt 7, er_stream = None, er_anchor_ref = None, er_token_est = 3\<rparr>"

definition sample_task :: action_task where
  "sample_task =
     \<lparr>tk_task_id = ''t'', tk_action_id = ''x'', tk_status = Completed, tk_created_at = 1, tk_updated_at = 2, tk_request_id = PNone,
      tk_agent_nid = Some ''me'', tk_progress = Some 1, tk_result = PInt 7, tk_error = PNone\<rparr>"

definition fresh_node :: node_state where
  "fresh_node = \<lparr>ns_tasks = [], ns_idem = [], ns_background = [], ns_inflight = []\<rparr>"

lemmas sample_defs = sample_env_def sample_spec_def sample_opts_def sample_request_def sample_keyed_def sample_call_def sample_result_def
  sample_task_def fresh_node_def

lemma sample_admitted:
  "handle_invoke sample_env sample_opts (\<lambda>i. 5) ''f'' sample_keyed fresh_node = (Inr (Execute sample_call), fresh_node\<lparr>ns_inflight := [sample_call]\<rparr>)"
  by code_simp

text \<open>
  C17: In every run, a task that has completed, failed or been cancelled stays in the task store with the same status, result and
  error, whatever requests, executions and progress reports follow.
\<close>

theorem settled_tasks_final:
  assumes "node_run env opts limit s s'" and "task_get (ns_tasks s) t = Some r" and "terminal (tk_status r)"
  shows "\<exists>r'. task_get (ns_tasks s') t = Some r' \<and> same_outcome r r'"
  using node_run_settled [OF assms(1)] assms(2,3) by (simp add: task_get_def)

theorem settled_tasks_final_witness:
  "\<exists>r'. task_get (ns_tasks (task_started 5 ''t'' (fresh_node\<lparr>ns_tasks := [(''t'', sample_task)], ns_background := [''t'']\<rparr>))) ''t'' = Some r'
     \<and> same_outcome sample_task r'"
proof (rule settled_tasks_final [where env = sample_env and opts = sample_opts and limit = 9])
  show "node_run sample_env sample_opts 9 (fresh_node\<lparr>ns_tasks := [(''t'', sample_task)], ns_background := [''t'']\<rparr>)
     (task_started 5 ''t'' (fresh_node\<lparr>ns_tasks := [(''t'', sample_task)], ns_background := [''t'']\<rparr>))"
    by (rule node_run.step [OF node_run.here]) (simp add: node_step.started)
qed (simp_all add: task_get_def dict_get_def sample_task_def terminal_def)

text \<open>
  C16: After a synchronous call with an idempotency key has returned a plain result, the same request is answered with that
  result, without a second execution and without a change of the node, whatever happens in between, until the entry expires.
  The estimate of tokens is not repeated.
\<close>

theorem retry_replays_result:
  assumes "handle_invoke env opts clk fresh rq s = (Inr (Execute pc), s')"
    and "af_idempotency_key (pc_frame pc) \<noteq> PNone"
    and "dict_get (ns_idem s0) (idem_key (pc_cache_id pc) (key_text env (pc_frame pc))) = None"
    and "finish_call env opts clk0 sid pc (Returned res) s0 = (Inr resp, s1)" and "er_stream res = None"
    and "node_run env opts limit s1 s2" and "limit \<le> clk0 2 + no_idempotency_ttl opts" and "clk' 0 < limit"
  shows "handle_invoke env opts clk' fresh' rq s2 =
    (Inr (Respond (send_caps (er_result res) (result_anchor pc res) (ac_request_id (pc_context pc)) 0)), s2)"
  using assms by (rule finished_call_replayed)

theorem retry_replays_result_witness:
  "\<exists>s1. finish_call sample_env sample_opts (\<lambda>i. 6) ''sid'' sample_call (Returned sample_result) fresh_node =
      (Inr (send_caps (PInt 7) None PNone 3), s1) \<and>
    handle_invoke sample_env sample_opts (\<lambda>i. 20) ''g'' sample_keyed s1 = (Inr (Respond (send_caps (PInt 7) None PNone 0)), s1)"
proof -
  obtain s1 where fin: "finish_call sample_env sample_opts (\<lambda>i. 6) ''sid'' sample_call (Returned sample_result) fresh_node =
      (Inr (send_caps (PInt 7) None PNone 3), s1)"
    by (simp add: finish_call_def st_bind_def st_lift_def store_entry_def time_plus_def MAX_TIME_def sample_defs result_anchor_def)
  have "handle_invoke sample_env sample_opts (\<lambda>i. 20) ''g'' sample_keyed s1 =
      (Inr (Respond (send_caps (er_result sample_result) (result_anchor sample_call sample_result) (ac_request_id (pc_context sample_call)) 0)), s1)"
    by (rule retry_replays_result [OF sample_admitted _ _ fin _ node_run.here [of _ _ 56]])
       (simp_all add: sample_defs)
  then show ?thesis using fin by (auto simp: sample_defs result_anchor_def)
qed

text \<open>
  C36: The cache does not cover a call that is still being executed: the same request, with the same idempotency key, is admitted
  a second time.
\<close>

theorem overlapping_retry_executes:
  assumes "handle_invoke env opts clk fresh rq s = (Inr (Execute pc), s')"
  shows "fst (handle_invoke env opts clk' fresh' rq s') = Inr (Execute pc)"
  using assms by (rule execute_again)

theorem overlapping_retry_executes_witness:
  "af_idempotency_key (pc_frame sample_call) = PStr ''k'' \<and>
   fst (handle_invoke sample_env sample_opts (\<lambda>i. 6) ''g'' sample_keyed (fresh_node\<lparr>ns_inflight := [sample_call]\<rparr>)) = Inr (Execute sample_call)"
  using overlapping_retry_executes [OF sample_admitted, of "\<lambda>i. 6" "''g''"] by (simp add: sample_call_def)

text \<open>
  C18: No request changes a task of another agent.
\<close>

theorem requests_respect_owners:
  assumes "handle_invoke env opts clk fresh rq s = (out, s')" and "task_get (ns_tasks s) t = Some r"
    and "tk_agent_nid r \<noteq> agent_of (rq_headers rq)"
  shows "task_get (ns_tasks s') t = Some r"
  using handle_invoke_keeps [OF assms(1)] assms(2,3) by (auto simp: task_get_def)

theorem requests_respect_owners_witness:
  "task_get (ns_tasks (snd (handle_invoke sample_env sample_opts (\<lambda>i. 5) ''f''
     (sample_request ''you'' [(''action_id'', PStr SYSTEM_TASK_CANCEL), (''params'', PDict [(''task_id'', PStr ''t'')])])
     (fresh_node\<lparr>ns_tasks := [(''t'', sample_task\<lparr>tk_status := Running\<rparr>)]\<rparr>)))) ''t'' = Some (sample_task\<lparr>tk_status := Running\<rparr>)"
  by (rule requests_respect_owners [OF surjective_pairing]) (simp_all add: task_get_def dict_get_def agent_of_def sample_defs)

text \<open>
  Every stream that is answered is numbered from zero under one id and ends in its only terminal frame, whatever the
  provider yields and however it ends.
\<close>

theorem streams_well_formed:
  assumes "send_stream sid src = Inr (sent, kept)"
  shows "stream_ok sid sent"
  using assms by (rule send_stream_ok)

theorem streams_well_formed_witness:
  "send_stream (PStr ''s'') \<lparr>so_frames = [(failure_frame (PStr ''q'') 0 [])\<lparr>str_is_last := False, str_error_code := PNone\<rparr>],
       so_end = Raises (OtherError ''boom'')\<rparr>
     = Inr ([(failure_frame (PStr ''s'') 0 [])\<lparr>str_is_last := False, str_error_code := PNone\<rparr>, failure_frame (PStr ''s'') 1 NODE_UNAVAILABLE], None) \<and>
   stream_ok (PStr ''s'') [(failure_frame (PStr ''s'') 0 [])\<lparr>str_is_last := False, str_error_code := PNone\<rparr>, failure_frame (PStr ''s'') 1 NODE_UNAVAILABLE]"
proof -
  have "send_stream (PStr ''s'') \<lparr>so_frames = [(failure_frame (PStr ''q'') 0 [])\<lparr>str_is_last := False, str_error_code := PNone\<rparr>],
       so_end = Raises (OtherError ''boom'')\<rparr>
     = Inr ([(failure_frame (PStr ''s'') 0 [])\<lparr>str_is_last := False, str_error_code := PNone\<rparr>, failure_frame (PStr ''s'') 1 NODE_UNAVAILABLE], None)"
    by (simp add: send_stream_def failure_frame_def raised_code_def)
  then show ?thesis using streams_well_formed by blast
qed

end
