(* ===== verification/NwpReputation.thy ===== *)
theory NwpReputation
  imports PyValue
begin

text \<open>
  The reputation gate of a node, \<open>nps_sdk/nwp/reputation.py\<close>: rules over the entries of a reputation log, and the
  evaluator with its ban table and its cache of log entries.

  The answer of a log source, the text of the present time and the reading of a time stamp are arguments (a time
  stamp is read as its wall-clock value and the offset it was written with); \<open>evaluate\<close> never suspends between
  its steps, so a call is one step. Monotonic times and time stamps are microseconds.
\<close>

section \<open>Rules and policies\<close>

record reputation_rule =
  rr_incident :: string
  rr_severity :: string
  rr_within_days :: "int option"
  rr_count :: int

record reputation_policy =
  rp_enabled :: bool
  rp_log_sources :: "string list"
  rp_min_assurance_level :: string
  rp_cache_ttl_seconds :: int
  rp_ban_ttl_seconds :: int
  rp_on_log_unavailable :: string
  rp_throttle_on :: "reputation_rule list"
  rp_reject_on :: "reputation_rule list"
  rp_ban_on :: "reputation_rule list"

datatype rep_outcome = ACCEPT | THROTTLE | REJECT | BAN

record reputation_decision =
  rd_outcome :: rep_outcome
  rd_matched_rule :: "reputation_rule option"
  rd_error_code :: "string option"

definition SEVERITIES :: "string list" where
  "SEVERITIES = [''info'', ''minor'', ''moderate'', ''major'', ''critical'']"

definition ASSURANCES :: "string list" where
  "ASSURANCES = [''anonymous'', ''attested'', ''verified'']"

text \<open>\<open>list.index\<close>, and minus one when there is none.\<close>

fun index_in :: "string list \<Rightarrow> string \<Rightarrow> int" where
  "index_in [] s = -1"
| "index_in (x # xs) s = (if x = s then 0 else let i = index_in xs s in if i < 0 then -1 else i + 1)"

definition sev_idx :: "string \<Rightarrow> int" where
  "sev_idx s = index_in SEVERITIES (py_lower s)"

definition ass_idx :: "string \<Rightarrow> int" where
  "ass_idx s = index_in ASSURANCES (py_lower s)"

section \<open>Matching a rule\<close>

definition parse_sev :: "string \<Rightarrow> bool \<times> int" where
  "parse_sev s = (if py_startswith s ''>='' then (True, sev_idx (drop 2 s)) else (False, sev_idx s))"

definition sev_match :: "bool \<Rightarrow> int \<Rightarrow> string \<Rightarrow> bool" where
  "sev_match at_least threshold actual =
     (let idx = sev_idx actual in if idx < 0 then False else if at_least then threshold \<le> idx else idx = threshold)"

definition incident_match :: "string \<Rightarrow> pyval \<Rightarrow> bool res" where
  "incident_match pattern incident =
     (if pattern = ''*'' then Inr True else res_bind (as_str incident) (\<lambda>s. Inr (py_lower pattern = py_lower s)))"

text \<open>Whether an entry is older than the cutoff; a time stamp that cannot be read does not count as old.\<close>

definition too_old :: "(string \<Rightarrow> (int \<times> int) option) \<Rightarrow> int option \<Rightarrow> pyval \<Rightarrow> bool res" where
  "too_old iso_read cutoff ts_raw =
     (case cutoff of
        None \<Rightarrow> Inr False
      | Some c \<Rightarrow>
          if \<not> py_bool ts_raw then Inr False
          else res_bind (as_str ts_raw) (\<lambda>s.
            Inr (case iso_read (py_replace_char (CHR ''Z'') ''+00:00'' s) of None \<Rightarrow> False | Some (wall, _) \<Rightarrow> wall < c)))"

definition entry_matches :: "(string \<Rightarrow> (int \<times> int) option) \<Rightarrow> int option \<Rightarrow> reputation_rule \<Rightarrow> pyval \<Rightarrow> bool res" where
  "entry_matches iso_read cutoff rule e =
     res_bind (py_get_or e ''timestamp'' (PStr [])) (\<lambda>ts_raw.
     res_bind (too_old iso_read cutoff ts_raw) (\<lambda>old.
       if old then Inr False
       else
         res_bind (py_get_or e ''incident'' (PStr [])) (\<lambda>incident.
         res_bind (incident_match (rr_incident rule) incident) (\<lambda>same.
           if \<not> same then Inr False
           else
             res_bind (py_get_or e ''severity'' (PStr [])) (\<lambda>severity.
             res_bind (as_str severity) (\<lambda>actual.
               Inr (sev_match (fst (parse_sev (rr_severity rule))) (snd (parse_sev (rr_severity rule))) actual)))))))"

fun count_loop :: "(pyval \<Rightarrow> bool res) \<Rightarrow> int \<Rightarrow> int \<Rightarrow> pyval list \<Rightarrow> bool res" where
  "count_loop m needed matched [] = Inr False"
| "count_loop m needed matched (e # es) =
     res_bind (m e) (\<lambda>hit.
       if \<not> hit then count_loop m needed matched es
       else if matched + 1 \<ge> needed then Inr True else count_loop m needed (matched + 1) es)"

definition DAY :: int where "DAY = 86400000000"

definition rule_cutoff :: "int \<Rightarrow> reputation_rule \<Rightarrow> int option res" where
  "rule_cutoff now rule =
     (case rr_within_days rule of
        None \<Rightarrow> Inr None
      | Some days \<Rightarrow> res_bind (time_plus now (- days * DAY)) (\<lambda>c. Inr (Some c)))"

definition rule_matches :: "(string \<Rightarrow> (int \<times> int) option) \<Rightarrow> int \<Rightarrow> reputation_rule \<Rightarrow> pyval \<Rightarrow> bool res" where
  "rule_matches iso_read now rule entries =
     res_bind (rule_cutoff now rule) (\<lambda>cutoff.
     res_bind (py_iter entries) (\<lambda>es.
       count_loop (entry_matches iso_read cutoff rule) (max (rr_count rule) 1) 0 es))"

section \<open>The evaluator\<close>

text \<open>
  The log sources: \<open>rl_fetch\<close> is the decoded answer of a URL, or nothing when the request or the decoding fails;
  \<open>rl_wall\<close> is the time of day at which a rule is tried.
\<close>

record rep_lib =
  rl_fetch :: "string \<Rightarrow> pyval option"
  rl_urlencode :: "string \<Rightarrow> string"
  rl_iso_read :: "string \<Rightarrow> (int \<times> int) option"
  rl_now_text :: string
  rl_wall :: "reputation_rule \<Rightarrow> int"

record rep_state =
  rs_bans :: "int dict"
  rs_cache :: "(int \<times> pyval) dict"

definition strip_source :: "string \<Rightarrow> string" where
  "strip_source s = rev (dropWhile (\<lambda>c. c = CHR ''/'') (rev s))"

text \<open>The first source that answers with a dictionary; its entries may still be \<open>None\<close>.\<close>

fun query_sources :: "rep_lib \<Rightarrow> string \<Rightarrow> string list \<Rightarrow> pyval" where
  "query_sources L nid [] = PNone"
| "query_sources L nid (source # sources) =
     (case rl_fetch L (strip_source source @ ''/entries?'' @ rl_urlencode L nid) of
        Some (PDict d) \<Rightarrow> (case map_of d ''entries'' of None \<Rightarrow> PList [] | Some v \<Rightarrow> v)
      | _ \<Rightarrow> query_sources L nid sources)"

definition unavailable_entries :: "rep_lib \<Rightarrow> reputation_policy \<Rightarrow> pyval" where
  "unavailable_entries L policy =
     (if py_lower (rp_on_log_unavailable policy) = ''deny''
      then PList [PDict [(''incident'', PStr ''*''), (''severity'', PStr ''critical''), (''timestamp'', PStr (rl_now_text L))]]
      else PList [])"

definition log_entries :: "rep_lib \<Rightarrow> string \<Rightarrow> reputation_policy \<Rightarrow> pyval" where
  "log_entries L nid policy =
     (let entries = query_sources L nid (rp_log_sources policy)
      in if entries = PNone then unavailable_entries L policy else entries)"

definition fetch_entries :: "rep_lib \<Rightarrow> int \<Rightarrow> string \<Rightarrow> reputation_policy \<Rightarrow> rep_state \<Rightarrow> pyval \<times> rep_state" where
  "fetch_entries L now nid policy s =
     (let cached = (if rp_cache_ttl_seconds policy > 0 then dict_get (rs_cache s) nid else None);
          fresh = log_entries L nid policy
      in case cached of
           Some (until, es) \<Rightarrow>
             if until > now then (es, s)
             else (fresh, s\<lparr>rs_cache := dict_set nid (now + rp_cache_ttl_seconds policy * 1000000, fresh) (rs_cache s)\<rparr>)
         | None \<Rightarrow>
             (fresh, if rp_cache_ttl_seconds policy > 0
                     then s\<lparr>rs_cache := dict_set nid (now + rp_cache_ttl_seconds policy * 1000000, fresh) (rs_cache s)\<rparr> else s))"

fun first_match :: "rep_lib \<Rightarrow> pyval \<Rightarrow> reputation_rule list \<Rightarrow> reputation_rule option res" where
  "first_match L entries [] = Inr None"
| "first_match L entries (rule # rules) =
     res_bind (rule_matches (rl_iso_read L) (rl_wall L rule) rule entries) (\<lambda>hit.
       if hit then Inr (Some rule) else first_match L entries rules)"

definition rep_decision :: "rep_outcome \<Rightarrow> reputation_rule option \<Rightarrow> string option \<Rightarrow> reputation_decision" where
  "rep_decision oc rule code = \<lparr>rd_outcome = oc, rd_matched_rule = rule, rd_error_code = code\<rparr>"

definition BLOCKED :: string where "BLOCKED = ''NWP-AUTH-REPUTATION-BLOCKED''"
definition TOO_LOW :: string where "TOO_LOW = ''NWP-AUTH-ASSURANCE-TOO-LOW''"

text \<open>The rules in the order of their consequences.\<close>

definition judge :: "rep_lib \<Rightarrow> int \<Rightarrow> string \<Rightarrow> reputation_policy \<Rightarrow> pyval \<Rightarrow> (rep_state, reputation_decision) effectful" where
  "judge L now nid policy entries =
     st_bind (st_lift (first_match L entries (rp_ban_on policy))) (\<lambda>banned.
       case banned of
         Some r \<Rightarrow>
           st_bind (st_write (\<lambda>s. s\<lparr>rs_bans := dict_set nid (now + rp_ban_ttl_seconds policy * 1000000) (rs_bans s)\<rparr>)) (\<lambda>_.
             st_lift (Inr (rep_decision BAN (Some r) (Some BLOCKED))))
       | None \<Rightarrow>
           st_bind (st_lift (first_match L entries (rp_reject_on policy))) (\<lambda>rejected.
             case rejected of
               Some r \<Rightarrow> st_lift (Inr (rep_decision REJECT (Some r) (Some BLOCKED)))
             | None \<Rightarrow>
                 st_bind (st_lift (first_match L entries (rp_throttle_on policy))) (\<lambda>throttled.
                   st_lift (Inr (case throttled of
                     Some r \<Rightarrow> rep_decision THROTTLE (Some r) None
                   | None \<Rightarrow> rep_decision ACCEPT None None)))))"

text \<open>\<open>clk\<close> are the readings of the monotonic clock within the call.\<close>

definition rep_evaluate ::
  "rep_lib \<Rightarrow> (nat \<Rightarrow> int) \<Rightarrow> string \<Rightarrow> string \<Rightarrow> reputation_policy \<Rightarrow> (rep_state, reputation_decision) effectful" where
  "rep_evaluate L clk nid assurance policy s =
     (if \<not> rp_enabled policy then (Inr (rep_decision ACCEPT None None), s)
      else if ass_idx (rp_min_assurance_level policy) > ass_idx assurance then (Inr (rep_decision REJECT None (Some TOO_LOW)), s)
      else case dict_get (rs_bans s) nid of
             Some until \<Rightarrow>
               if until > clk 0 then (Inr (rep_decision BAN None (Some BLOCKED)), s)
               else (let (entries, s1) = fetch_entries L (clk 1) nid policy s in judge L (clk 2) nid policy entries s1)
           | None \<Rightarrow> (let (entries, s1) = fetch_entries L (clk 1) nid policy s in judge L (clk 2) nid policy entries s1))"

definition clear_ban :: "string \<Rightarrow> rep_state \<Rightarrow> rep_state" where
  "clear_ban nid s = s\<lparr>rs_bans := dict_pop nid (rs_bans s)\<rparr>"

section \<open>What the rules mean\<close>

text \<open>An entry as the log promises it: the three fields are strings or absent.\<close>

definition entry_ok :: "pyval \<Rightarrow> bool" where
  "entry_ok e =
     (case e of
        PDict d \<Rightarrow> list_all (\<lambda>k. case map_of d k of None \<Rightarrow> True | Some v \<Rightarrow> as_str v \<noteq> Inl AttributeError)
          [''timestamp'', ''incident'', ''severity'']
      | _ \<Rightarrow> False)"

definition field_text :: "pyval \<Rightarrow> string \<Rightarrow> string" where
  "field_text e k = (case e of PDict d \<Rightarrow> (case map_of d k of Some (PStr s) \<Rightarrow> s | _ \<Rightarrow> []) | _ \<Rightarrow> [])"

definition expired_entry :: "(string \<Rightarrow> (int \<times> int) option) \<Rightarrow> int option \<Rightarrow> pyval \<Rightarrow> bool" where
  "expired_entry iso_read cutoff e =
     (case cutoff of
        None \<Rightarrow> False
      | Some c \<Rightarrow> field_text e ''timestamp'' \<noteq> [] \<and>
          (case iso_read (py_replace_char (CHR ''Z'') ''+00:00'' (field_text e ''timestamp'')) of None \<Rightarrow> False | Some (wall, _) \<Rightarrow> wall < c))"

definition hits :: "(string \<Rightarrow> (int \<times> int) option) \<Rightarrow> int option \<Rightarrow> reputation_rule \<Rightarrow> pyval \<Rightarrow> bool" where
  "hits iso_read cutoff rule e \<longleftrightarrow>
     \<not> expired_entry iso_read cutoff e \<and>
     (rr_incident rule = ''*'' \<or> py_lower (rr_incident rule) = py_lower (field_text e ''incident'')) \<and>
     sev_match (fst (parse_sev (rr_severity rule))) (snd (parse_sev (rr_severity rule))) (field_text e ''severity'')"

definition rule_applies :: "rep_lib \<Rightarrow> pyval list \<Rightarrow> reputation_rule \<Rightarrow> bool" where
  "rule_applies L es rule \<longleftrightarrow>
     (case rule_cutoff (rl_wall L rule) rule of
        Inl _ \<Rightarrow> False
      | Inr c \<Rightarrow> max (rr_count rule) 1 \<le> int (length (filter (hits (rl_iso_read L) c rule) es)))"

text \<open>The strongest consequence of the rules that apply.\<close>

definition verdict :: "rep_lib \<Rightarrow> reputation_policy \<Rightarrow> pyval list \<Rightarrow> rep_outcome" where
  "verdict L policy es =
     (if list_ex (rule_applies L es) (rp_ban_on policy) then BAN
      else if list_ex (rule_applies L es) (rp_reject_on policy) then REJECT
      else if list_ex (rule_applies L es) (rp_throttle_on policy) then THROTTLE
      else ACCEPT)"

lemma as_str_ok: "as_str v \<noteq> Inl AttributeError \<Longrightarrow> \<exists>s. v = PStr s"
  by (cases v) (auto simp: as_str_def)

lemma entry_field:
  assumes "entry_ok e" and "k \<in> {''timestamp'', ''incident'', ''severity''}"
  shows "py_get_or e k (PStr []) = Inr (PStr (field_text e k))"
  using assms by (cases e) (auto simp: entry_ok_def py_get_or_def field_text_def split: option.splits dest: as_str_ok)

lemma entry_matches_hits: "entry_ok e \<Longrightarrow> entry_matches iso_read cutoff rule e = Inr (hits iso_read cutoff rule e)"
  by (auto simp: entry_matches_def entry_field too_old_def incident_match_def as_str_def res_bind_def hits_def expired_entry_def
        split: option.splits if_splits)

lemma count_loop_counts:
  assumes "\<forall>e\<in>set es. m e = Inr (P e)" and "matched < needed"
  shows "count_loop m needed matched es = Inr (needed \<le> matched + int (length (filter P es)))"
  using assms by (induction es arbitrary: matched) (auto simp: res_bind_def)

lemma rule_matches_counts:
  assumes "list_all entry_ok es" and "rule_cutoff (rl_wall L rule) rule = Inr c"
  shows "rule_matches (rl_iso_read L) (rl_wall L rule) rule (PList es) = Inr (rule_applies L es rule)"
proof -
  have "count_loop (entry_matches (rl_iso_read L) c rule) (max (rr_count rule) 1) 0 es =
      Inr (max (rr_count rule) 1 \<le> 0 + int (length (filter (hits (rl_iso_read L) c rule) es)))"
    by (rule count_loop_counts) (use assms(1) in \<open>auto simp: list_all_iff entry_matches_hits\<close>)
  then show ?thesis using assms(2) by (simp add: rule_matches_def res_bind_def py_iter_def rule_applies_def)
qed

definition cutoffs_ok :: "rep_lib \<Rightarrow> reputation_policy \<Rightarrow> bool" where
  "cutoffs_ok L policy \<longleftrightarrow>
     list_all (\<lambda>r. \<exists>c. rule_cutoff (rl_wall L r) r = Inr c) (rp_ban_on policy @ rp_reject_on policy @ rp_throttle_on policy)"

lemma first_match_applies:
  assumes "list_all entry_ok es" and "list_all (\<lambda>r. \<exists>c. rule_cutoff (rl_wall L r) r = Inr c) rules"
  shows "first_match L (PList es) rules = Inr (find (rule_applies L es) rules)"
  using assms(2)
proof (induction rules)
  case (Cons rule rules)
  then obtain c where "rule_cutoff (rl_wall L rule) rule = Inr c" by auto
  then show ?case using Cons rule_matches_counts [OF assms(1)] by (simp add: res_bind_def)
qed simp

lemma find_None_list_ex: "find P xs = None \<longleftrightarrow> \<not> list_ex P xs"
  by (induction xs) auto

lemma judge_verdict:
  assumes "list_all entry_ok es" and "cutoffs_ok L policy"
  shows "\<exists>d s'. judge L now nid policy (PList es) s = (Inr d, s') \<and> rd_outcome d = verdict L policy es"
proof -
  have "first_match L (PList es) rules = Inr (find (rule_applies L es) rules)"
    if "rules \<in> {rp_ban_on policy, rp_reject_on policy, rp_throttle_on policy}" for rules
    using first_match_applies [OF assms(1)] assms(2) that by (auto simp: cutoffs_ok_def)
  then show ?thesis
    by (simp add: judge_def st_bind_def st_lift_def st_write_def verdict_def rep_decision_def find_None_list_ex [symmetric] split: option.splits)
qed

section \<open>Bans\<close>

definition banned_until :: "string \<Rightarrow> int \<Rightarrow> rep_state \<Rightarrow> bool" where
  "banned_until nid t s \<longleftrightarrow> dict_get (rs_bans s) nid = Some t"

lemma fetch_entries_bans: "fetch_entries L now nid policy s = (es, s1) \<Longrightarrow> rs_bans s1 = rs_bans s"
  by (auto simp: fetch_entries_def Let_def split: option.splits if_splits)

lemma judge_bans: "rs_bans (snd (judge L now nid policy es s)) = rs_bans s \<or>
    rs_bans (snd (judge L now nid policy es s)) = dict_set nid (now + rp_ban_ttl_seconds policy * 1000000) (rs_bans s)"
  by (auto simp: judge_def st_bind_def st_lift_def st_write_def split: sum.splits option.splits)

lemma evaluate_keeps_ban:
  assumes "banned_until nid t s" and "clk 0 < t"
  shows "banned_until nid t (snd (rep_evaluate L clk who assurance policy s))"
proof (cases "who = nid")
  case True
  then show ?thesis using assms by (simp add: rep_evaluate_def banned_until_def)
next
  case False
  obtain es s1 where fetched: "fetch_entries L (clk 1) who policy s = (es, s1)" by fastforce
  have "banned_until nid t (snd (judge L (clk 2) who policy es s1))"
    using judge_bans [of L "clk 2" who policy es s1] fetch_entries_bans [OF fetched] assms(1) False by (auto simp: banned_until_def)
  then show ?thesis using assms(1) by (simp add: rep_evaluate_def fetched del: One_nat_def split: option.splits)
qed

text \<open>Calls of the evaluator while every clock reading is below \<open>limit\<close>, and bans of other identities being lifted.\<close>

inductive rep_run :: "int \<Rightarrow> string \<Rightarrow> rep_state \<Rightarrow> rep_state \<Rightarrow> bool" for limit :: int and nid :: string where
  here: "rep_run limit nid s s"
| evaluated: "rep_run limit nid s s' \<Longrightarrow> \<forall>i. clk i < limit \<Longrightarrow> rep_run limit nid s (snd (rep_evaluate L clk who assurance policy s'))"
| cleared: "rep_run limit nid s s' \<Longrightarrow> other \<noteq> nid \<Longrightarrow> rep_run limit nid s (clear_ban other s')"

lemma run_keeps_ban:
  assumes "rep_run limit nid s s'" and "banned_until nid t s" and "limit \<le> t"
  shows "banned_until nid t s'"
  using assms
proof (induction rule: rep_run.induct)
  case (evaluated s s' clk L who assurance policy)
  then have "banned_until nid t s'" by simp
  moreover have "clk 0 < t" using evaluated.hyps(2) evaluated.prems(2) by (meson less_le_trans)
  ultimately show ?case by (rule evaluate_keeps_ban)
qed (auto simp: banned_until_def clear_ban_def)

section \<open>Properties\<close>

definition sample_rule :: "string \<Rightarrow> reputation_rule" where
  "sample_rule incident = \<lparr>rr_incident = incident, rr_severity = ''>=major'', rr_within_days = None, rr_count = 1\<rparr>"

definition sample_policy :: "reputation_rule list \<Rightarrow> reputation_policy" where
  "sample_policy rules =
     \<lparr>rp_enabled = True, rp_log_sources = [''http://log/''], rp_min_assurance_level = ''anonymous'', rp_cache_ttl_seconds = 300,
      rp_ban_ttl_seconds = 3600, rp_on_log_unavailable = ''deny'', rp_throttle_on = [], rp_reject_on = [], rp_ban_on = rules\<rparr>"

definition sample_log :: "pyval option \<Rightarrow> rep_lib" where
  "sample_log answer =
     \<lparr>rl_fetch = (\<lambda>_. answer), rl_urlencode = (\<lambda>s. s), rl_iso_read = (\<lambda>_. None), rl_now_text = ''now'', rl_wall = (\<lambda>_. 0)\<rparr>"

definition sample_entry :: pyval where
  "sample_entry = PDict [(''incident'', PStr ''fraud''), (''severity'', PStr ''critical'')]"

definition no_bans :: rep_state where
  "no_bans = \<lparr>rs_bans = [], rs_cache = []\<rparr>"

text \<open>
  C23: for a caller with the required assurance and without a running ban, the evaluator returns the strongest consequence among
  the rules that enough log entries meet; a rule counts every entry, it does not stop early with a different answer.
\<close>

theorem reputation_decides:
  assumes "rp_enabled policy" and "ass_idx (rp_min_assurance_level policy) \<le> ass_idx assurance"
    and "\<forall>t. banned_until nid t s \<longrightarrow> t \<le> clk 0"
    and "fetch_entries L (clk 1) nid policy s = (PList es, s1)" and "list_all entry_ok es" and "cutoffs_ok L policy"
  shows "\<exists>d s'. rep_evaluate L clk nid assurance policy s = (Inr d, s') \<and> rd_outcome d = verdict L policy es"
  using judge_verdict [OF assms(5,6), of "clk 2" nid s1] assms(1-4)
  by (auto simp: rep_evaluate_def banned_until_def split: option.splits)

theorem reputation_decides_witness:
  "\<exists>d s'. rep_evaluate (sample_log (Some (PDict [(''entries'', PList [sample_entry])]))) (\<lambda>i. 5) ''me'' ''attested''
      (sample_policy [sample_rule ''fraud'']) no_bans = (Inr d, s') \<and> rd_outcome d = BAN"
proof -
  let ?L = "sample_log (Some (PDict [(''entries'', PList [sample_entry])]))" and ?p = "sample_policy [sample_rule ''fraud'']"
  have "\<exists>d s'. rep_evaluate ?L (\<lambda>i. 5) ''me'' ''attested'' ?p no_bans = (Inr d, s') \<and> rd_outcome d = verdict ?L ?p [sample_entry]"
  proof (rule reputation_decides)
    show "ass_idx (rp_min_assurance_level ?p) \<le> ass_idx ''attested''" by code_simp
    show "fetch_entries ?L 5 ''me'' ?p no_bans = (PList [sample_entry], no_bans\<lparr>rs_cache := [(''me'', (300000005, PList [sample_entry]))]\<rparr>)"
      by (simp add: fetch_entries_def log_entries_def sample_log_def sample_policy_def no_bans_def dict_set_def Let_def)
  qed (simp_all add: sample_policy_def banned_until_def no_bans_def sample_entry_def entry_ok_def as_str_def cutoffs_ok_def rule_cutoff_def
        sample_rule_def)
  moreover have "verdict ?L ?p [sample_entry] = BAN" by code_simp
  ultimately show ?thesis by simp
qed

text \<open>
  A ban holds until it runs out: whatever the evaluator is asked meanwhile, about anyone and under any policy, the banned
  identity is refused, unless its own ban is lifted.
\<close>

theorem bans_hold:
  assumes "rep_run limit nid s s'" and "banned_until nid t s" and "limit \<le> t" and "clk 0 < t"
    and "rp_enabled policy" and "ass_idx (rp_min_assurance_level policy) \<le> ass_idx assurance"
  shows "rep_evaluate L clk nid assurance policy s' = (Inr (rep_decision BAN None (Some BLOCKED)), s')"
  using run_keeps_ban [OF assms(1-3)] assms(4-6) by (simp add: rep_evaluate_def banned_until_def)

theorem bans_hold_witness:
  "rep_evaluate (sample_log None) (\<lambda>i. 8) ''me'' ''attested'' (sample_policy []) (clear_ban ''you'' (no_bans\<lparr>rs_bans := [(''me'', 9)]\<rparr>)) =
     (Inr (rep_decision BAN None (Some BLOCKED)), clear_ban ''you'' (no_bans\<lparr>rs_bans := [(''me'', 9)]\<rparr>))"
proof (rule bans_hold [where t = 9])
  show "rep_run 9 ''me'' (no_bans\<lparr>rs_bans := [(''me'', 9)]\<rparr>) (clear_ban ''you'' (no_bans\<lparr>rs_bans := [(''me'', 9)]\<rparr>))"
    by (rule rep_run.cleared [OF rep_run.here]) simp
  show "ass_idx (rp_min_assurance_level (sample_policy [])) \<le> ass_idx ''attested''" by code_simp
qed (simp_all add: sample_policy_def banned_until_def dict_get_def)

definition names_incident :: "reputation_rule \<Rightarrow> bool" where
  "names_incident r \<longleftrightarrow> py_lower (rr_incident r) \<noteq> ''*''"

lemma outage_missed:
  assumes "names_incident r"
  shows "\<not> rule_applies L [PDict [(''incident'', PStr ''*''), (''severity'', PStr ''critical''), (''timestamp'', PStr (rl_now_text L))]] r"
proof -
  have "py_lower ''*'' = ''*''" by code_simp
  then show ?thesis using assms by (auto simp: rule_applies_def hits_def field_text_def names_incident_def split: sum.splits)
qed

text \<open>
  \<open>on_log_unavailable = deny\<close> does not deny: when no log source answers and every rule names its incident, everyone is
  accepted, because the entry that stands for the outage has the incident \<open>*\<close>, which only the pattern \<open>*\<close> matches.
\<close>

theorem deny_accepts_on_outage:
  assumes "rp_enabled policy" and "ass_idx (rp_min_assurance_level policy) \<le> ass_idx assurance" and "dict_get (rs_bans s) nid = None"
    and "dict_get (rs_cache s) nid = None" and "query_sources L nid (rp_log_sources policy) = PNone"
    and "rp_on_log_unavailable policy = ''deny''" and "cutoffs_ok L policy"
    and "list_all names_incident (rp_ban_on policy @ rp_reject_on policy @ rp_throttle_on policy)"
  shows "\<exists>d s'. rep_evaluate L clk nid assurance policy s = (Inr d, s') \<and> rd_outcome d = ACCEPT"
proof -
  let ?e = "PDict [(''incident'', PStr ''*''), (''severity'', PStr ''critical''), (''timestamp'', PStr (rl_now_text L))]"
  have "py_lower ''deny'' = ''deny''" by code_simp
  then have "fst (fetch_entries L (clk 1) nid policy s) = PList [?e]"
    using assms(4-6) by (simp add: fetch_entries_def log_entries_def unavailable_entries_def Let_def)
  then obtain s1 where fetched: "fetch_entries L (clk 1) nid policy s = (PList [?e], s1)" by (metis prod.collapse)
  have "verdict L policy [?e] = ACCEPT"
    using assms(8) by (auto simp: verdict_def list_ex_iff list_all_iff dest: outage_missed [of _ L])
  moreover have "entry_ok ?e" by (simp add: entry_ok_def as_str_def)
  ultimately show ?thesis
    using judge_verdict [of "[?e]" L policy "clk 2" nid s1] assms(1-3,7) fetched by (simp add: rep_evaluate_def del: One_nat_def)
qed

theorem deny_accepts_on_outage_witness:
  "\<exists>d s'. rep_evaluate (sample_log None) (\<lambda>i. 5) ''me'' ''attested'' (sample_policy [sample_rule ''fraud'']) no_bans = (Inr d, s')
     \<and> rd_outcome d = ACCEPT"
proof (rule deny_accepts_on_outage)
  show "ass_idx (rp_min_assurance_level (sample_policy [sample_rule ''fraud''])) \<le> ass_idx ''attested''" by code_simp
  show "list_all names_incident (rp_ban_on (sample_policy [sample_rule ''fraud'']) @ rp_reject_on (sample_policy [sample_rule ''fraud''])
      @ rp_throttle_on (sample_policy [sample_rule ''fraud'']))" by code_simp
qed (simp_all add: sample_policy_def sample_rule_def sample_log_def no_bans_def cutoffs_ok_def rule_cutoff_def)

end
