(* ===== verification/NipFrames.thy ===== *)
theory NipFrames
  imports NcpFrames
begin

text \<open>
  The identity frames (\<open>nps_sdk/nip/frames.py\<close>): \<open>IdentFrame\<close>, \<open>TrustFrame\<close> and \<open>RevokeFrame\<close> with \<open>to_dict\<close>,
  \<open>from_dict\<close> and the dictionaries that are signed, and the assurance levels (\<open>nip/assurance_level.py\<close>).
  An attribute that \<open>from_dict\<close> takes as it comes is a \<^typ>\<open>pyval\<close>.
\<close>

section \<open>Assurance levels\<close>

datatype assurance_level = ANONYMOUS | ATTESTED | VERIFIED

fun assurance_wire :: "assurance_level \<Rightarrow> string" where
  "assurance_wire ANONYMOUS = ''anonymous''"
| "assurance_wire ATTESTED = ''attested''"
| "assurance_wire VERIFIED = ''verified''"

fun assurance_rank :: "assurance_level \<Rightarrow> int" where
  "assurance_rank ANONYMOUS = 0"
| "assurance_rank ATTESTED = 1"
| "assurance_rank VERIFIED = 2"

definition meets_or_exceeds :: "assurance_level \<Rightarrow> assurance_level \<Rightarrow> bool" where
  "meets_or_exceeds l needed = (assurance_rank l \<ge> assurance_rank needed)"

definition assurance_levels :: "assurance_level list" where
  "assurance_levels = [ANONYMOUS, ATTESTED, VERIFIED]"

definition assurance_from_wire :: "string option \<Rightarrow> assurance_level res" where
  "assurance_from_wire wire =
     (case wire of
        None \<Rightarrow> Inr ANONYMOUS
      | Some w \<Rightarrow> if w = [] then Inr ANONYMOUS
                  else of_option ValueError (find (\<lambda>l. assurance_wire l = w) assurance_levels))"

definition assurance_from_rank :: "int \<Rightarrow> assurance_level res" where
  "assurance_from_rank rank = of_option ValueError (find (\<lambda>l. assurance_rank l = rank) assurance_levels)"

section \<open>Metadata and lineage\<close>

record reputation_hint =
  rh_log_sources :: "pyval list"
  rh_consent :: bool

definition reputation_hint_to_dict :: "reputation_hint \<Rightarrow> pyval" where
  "reputation_hint_to_dict f =
     PDict ([(''log_sources'', PList (rh_log_sources f)), (''consent'', PBool (rh_consent f))])"

definition reputation_hint_from_dict :: "pyval \<Rightarrow> reputation_hint res" where
  "reputation_hint_from_dict data =
     res_bind (py_get_or data ''log_sources'' (PList [])) (\<lambda>r_log_sources.
     res_bind (py_iter r_log_sources) (\<lambda>v_log_sources.
     res_bind (py_get_or data ''consent'' (PBool False)) (\<lambda>v_consent.
       Inr \<lparr>rh_log_sources = v_log_sources, rh_consent = py_bool v_consent\<rparr>)))"

record ident_metadata =
  im_model_family :: pyval
  im_tokenizer :: pyval
  im_runtime :: pyval
  im_reputation_policy :: "reputation_hint option"

definition ident_metadata_to_dict :: "ident_metadata \<Rightarrow> pyval" where
  "ident_metadata_to_dict f =
     PDict (not_none ''model_family'' (im_model_family f)
       @ not_none ''tokenizer'' (im_tokenizer f)
       @ not_none ''runtime'' (im_runtime f)
       @ not_none ''reputation_policy'' (opt_val reputation_hint_to_dict (im_reputation_policy f)))"

definition ident_metadata_from_dict :: "pyval \<Rightarrow> ident_metadata res" where
  "ident_metadata_from_dict data =
     res_bind (py_get data ''reputation_policy'') (\<lambda>rp_raw.
     res_bind (py_get data ''model_family'') (\<lambda>v_model_family.
     res_bind (py_get data ''tokenizer'') (\<lambda>v_tokenizer.
     res_bind (py_get data ''runtime'') (\<lambda>v_runtime.
     res_bind (opt_sub reputation_hint_from_dict rp_raw) (\<lambda>v_reputation_policy.
       Inr \<lparr>im_model_family = v_model_family, im_tokenizer = v_tokenizer,
            im_runtime = v_runtime, im_reputation_policy = v_reputation_policy\<rparr>)))))"

record ident_lineage =
  li_role :: pyval
  li_parent_nid :: pyval
  li_group_nid :: pyval
  li_session_id :: pyval
  li_purpose :: pyval
  li_owner_user_id :: pyval
  li_owner_key_id :: pyval

definition ident_lineage_to_dict :: "ident_lineage \<Rightarrow> pyval" where
  "ident_lineage_to_dict f =
     PDict ([(''role'', li_role f)]
       @ not_none ''parent_nid'' (li_parent_nid f)
       @ not_none ''group_nid'' (li_group_nid f)
       @ not_none ''session_id'' (li_session_id f)
       @ not_none ''purpose'' (li_purpose f)
       @ not_none ''owner_user_id'' (li_owner_user_id f)
       @ not_none ''owner_key_id'' (li_owner_key_id f))"

definition ident_lineage_from_dict :: "pyval \<Rightarrow> ident_lineage res" where
  "ident_lineage_from_dict data =
     res_bind (py_item data ''role'') (\<lambda>v_role.
     res_bind (py_get data ''parent_nid'') (\<lambda>v_parent_nid.
     res_bind (py_get data ''group_nid'') (\<lambda>v_group_nid.
     res_bind (py_get data ''session_id'') (\<lambda>v_session_id.
     res_bind (py_get data ''purpose'') (\<lambda>v_purpose.
     res_bind (py_get data ''owner_user_id'') (\<lambda>v_owner_user_id.
     res_bind (py_get data ''owner_key_id'') (\<lambda>v_owner_key_id.
       Inr \<lparr>li_role = v_role, li_parent_nid = v_parent_nid, li_group_nid = v_group_nid,
            li_session_id = v_session_id, li_purpose = v_purpose,
            li_owner_user_id = v_owner_user_id, li_owner_key_id = v_owner_key_id\<rparr>)))))))"

section \<open>IdentFrame\<close>

record ident_frame =
  id_nid :: pyval
  id_pub_key :: pyval
  id_capabilities :: "pyval list"
  id_scope :: pyval
  id_issued_by :: pyval
  id_issued_at :: pyval
  id_expires_at :: pyval
  id_serial :: pyval
  id_signature :: pyval
  id_metadata :: "ident_metadata option"
  id_assurance_level :: "assurance_level option"
  id_cert_format :: pyval
  id_cert_chain :: "pyval list option"
  id_ocsp_staple :: pyval
  id_node_roles :: "pyval list option"
  id_lineage :: "ident_lineage option"

definition ident_to_dict :: "ident_frame \<Rightarrow> pyval" where
  "ident_to_dict f =
     PDict ([(''frame'', PStr ''0x20''), (''nid'', id_nid f), (''pub_key'', id_pub_key f),
             (''capabilities'', PList (id_capabilities f)), (''scope'', id_scope f), (''issued_by'', id_issued_by f),
             (''issued_at'', id_issued_at f), (''expires_at'', id_expires_at f), (''serial'', id_serial f),
             (''signature'', id_signature f)]
       @ not_none ''metadata'' (opt_val ident_metadata_to_dict (id_metadata f))
       @ not_none ''assurance_level'' (opt_val (\<lambda>l. PStr (assurance_wire l)) (id_assurance_level f))
       @ not_none ''cert_format'' (id_cert_format f)
       @ not_none ''cert_chain'' (opt_val PList (id_cert_chain f))
       @ not_none ''ocsp_staple'' (id_ocsp_staple f)
       @ not_none ''node_roles'' (opt_val PList (id_node_roles f))
       @ not_none ''lineage'' (opt_val ident_lineage_to_dict (id_lineage f)))"

text \<open>Values that count only when they have the expected type.\<close>

definition level_of :: "pyval \<Rightarrow> assurance_level option res" where
  "level_of raw =
     (case raw of PStr w \<Rightarrow> res_bind (assurance_from_wire (Some w)) (\<lambda>l. Inr (Some l)) | _ \<Rightarrow> Inr None)"

definition list_of :: "pyval \<Rightarrow> pyval list option" where
  "list_of raw = (case raw of PList xs \<Rightarrow> Some xs | _ \<Rightarrow> None)"

definition lineage_of :: "pyval \<Rightarrow> ident_lineage option res" where
  "lineage_of raw =
     (case raw of PDict d \<Rightarrow> res_bind (ident_lineage_from_dict raw) (\<lambda>l. Inr (Some l)) | _ \<Rightarrow> Inr None)"

definition ident_from_dict :: "pyval \<Rightarrow> ident_frame res" where
  "ident_from_dict data =
     res_bind (py_get data ''metadata'') (\<lambda>meta_raw.
     res_bind (opt_sub ident_metadata_from_dict meta_raw) (\<lambda>meta.
     res_bind (py_get data ''assurance_level'') (\<lambda>lvl_raw.
     res_bind (level_of lvl_raw) (\<lambda>level.
     res_bind (py_get data ''cert_chain'') (\<lambda>chain_raw.
     res_bind (py_get data ''node_roles'') (\<lambda>roles_raw.
     res_bind (py_get data ''lineage'') (\<lambda>lineage_raw.
     res_bind (py_item data ''nid'') (\<lambda>v_nid.
     res_bind (py_item data ''pub_key'') (\<lambda>v_pub_key.
     res_bind (py_get_or data ''capabilities'' (PList [])) (\<lambda>r_capabilities.
     res_bind (py_iter r_capabilities) (\<lambda>v_capabilities.
     res_bind (py_item data ''scope'') (\<lambda>v_scope.
     res_bind (py_item data ''issued_by'') (\<lambda>v_issued_by.
     res_bind (py_item data ''issued_at'') (\<lambda>v_issued_at.
     res_bind (py_item data ''expires_at'') (\<lambda>v_expires_at.
     res_bind (py_item data ''serial'') (\<lambda>v_serial.
     res_bind (py_item data ''signature'') (\<lambda>v_signature.
     res_bind (py_get data ''cert_format'') (\<lambda>v_cert_format.
     res_bind (py_get data ''ocsp_staple'') (\<lambda>v_ocsp_staple.
     res_bind (lineage_of lineage_raw) (\<lambda>v_lineage.
       Inr \<lparr>id_nid = v_nid, id_pub_key = v_pub_key, id_capabilities = v_capabilities, id_scope = v_scope,
            id_issued_by = v_issued_by, id_issued_at = v_issued_at, id_expires_at = v_expires_at,
            id_serial = v_serial, id_signature = v_signature, id_metadata = meta, id_assurance_level = level,
            id_cert_format = v_cert_format, id_cert_chain = list_of chain_raw, id_ocsp_staple = v_ocsp_staple,
            id_node_roles = list_of roles_raw, id_lineage = v_lineage\<rparr>))))))))))))))))))))"

definition dict_without :: "string list \<Rightarrow> pyval \<Rightarrow> pyval" where
  "dict_without ks v = (case v of PDict d \<Rightarrow> PDict (foldl (\<lambda>d k. dict_pop k d) d ks) | _ \<Rightarrow> v)"

definition ident_unsigned_dict :: "ident_frame \<Rightarrow> pyval" where
  "ident_unsigned_dict f = dict_without [''signature'', ''cert_format'', ''cert_chain'', ''node_roles''] (ident_to_dict f)"

section \<open>TrustFrame\<close>

record trust_frame =
  tr_grantor_nid :: pyval
  tr_grantee_ca :: pyval
  tr_trust_scope :: "pyval list"
  tr_nodes :: "pyval list"
  tr_issued_at :: pyval
  tr_expires_at :: pyval
  tr_serial :: pyval
  tr_signer_nid :: pyval
  tr_signature :: pyval

definition trust_to_dict :: "trust_frame \<Rightarrow> pyval" where
  "trust_to_dict f =
     PDict [(''frame'', PStr ''0x21''), (''grantor_nid'', tr_grantor_nid f), (''grantee_ca'', tr_grantee_ca f),
            (''trust_scope'', PList (tr_trust_scope f)), (''nodes'', PList (tr_nodes f)),
            (''issued_at'', tr_issued_at f), (''expires_at'', tr_expires_at f), (''serial'', tr_serial f),
            (''signer_nid'', tr_signer_nid f), (''signature'', tr_signature f)]"

definition trust_from_dict :: "pyval \<Rightarrow> trust_frame res" where
  "trust_from_dict data =
     res_bind (py_get_or data ''issuer_nid'' (PStr [])) (\<lambda>d_grantor.
     res_bind (py_get_or data ''grantor_nid'' d_grantor) (\<lambda>v_grantor_nid.
     res_bind (py_get data ''subject_nid'') (\<lambda>d_grantee.
     res_bind (py_get_or data ''grantee_ca'' d_grantee) (\<lambda>v_grantee_ca.
     res_bind (py_get_or data ''scopes'' (PList [])) (\<lambda>d_scope.
     res_bind (py_get_or data ''trust_scope'' d_scope) (\<lambda>r_scope.
     res_bind (py_iter r_scope) (\<lambda>v_trust_scope.
     res_bind (py_get_or data ''nodes'' (PList [])) (\<lambda>r_nodes.
     res_bind (py_iter r_nodes) (\<lambda>v_nodes.
     res_bind (py_get_or data ''issued_at'' (PStr [])) (\<lambda>v_issued_at.
     res_bind (py_item data ''expires_at'') (\<lambda>v_expires_at.
     res_bind (py_get_or data ''serial'' (PStr [])) (\<lambda>v_serial.
     res_bind (py_get_or data ''signer_nid'' (if py_bool v_grantor_nid then v_grantor_nid else PStr [])) (\<lambda>v_signer_nid.
     res_bind (py_item data ''signature'') (\<lambda>v_signature.
       Inr \<lparr>tr_grantor_nid = v_grantor_nid, tr_grantee_ca = v_grantee_ca, tr_trust_scope = v_trust_scope,
            tr_nodes = v_nodes, tr_issued_at = v_issued_at, tr_expires_at = v_expires_at, tr_serial = v_serial,
            tr_signer_nid = v_signer_nid, tr_signature = v_signature\<rparr>))))))))))))))"

definition trust_unsigned_dict :: "trust_frame \<Rightarrow> pyval" where
  "trust_unsigned_dict f = dict_without [''signature''] (trust_to_dict f)"

section \<open>RevokeFrame\<close>

record revoke_frame =
  rk_target_nid :: pyval
  rk_reason :: pyval
  rk_revoked_at :: pyval
  rk_signer_nid :: pyval
  rk_signature :: pyval
  rk_serial :: pyval
  rk_parent_nid :: pyval

text \<open>\<open>parent_nid\<close> is there exactly when the reason is \<open>parent_revoked\<close>.\<close>

definition revoke_parent_rule :: "pyval \<Rightarrow> pyval \<Rightarrow> bool" where
  "revoke_parent_rule reason parent_nid =
     (if py_eq reason (PStr ''parent_revoked'') then py_bool parent_nid else parent_nid = PNone)"

definition revoke_init :: "revoke_frame \<Rightarrow> revoke_frame res" where
  "revoke_init f = (if revoke_parent_rule (rk_reason f) (rk_parent_nid f) then Inr f else Inl ValueError)"

definition revoke_to_dict :: "revoke_frame \<Rightarrow> pyval" where
  "revoke_to_dict f =
     PDict ([(''frame'', PStr ''0x22''), (''target_nid'', rk_target_nid f), (''reason'', rk_reason f),
             (''revoked_at'', rk_revoked_at f), (''signer_nid'', rk_signer_nid f), (''signature'', rk_signature f)]
       @ not_none ''serial'' (rk_serial f) @ not_none ''parent_nid'' (rk_parent_nid f))"

definition revoke_from_dict :: "pyval \<Rightarrow> revoke_frame res" where
  "revoke_from_dict data =
     res_bind (py_get data ''nid'') (\<lambda>d_target.
     res_bind (py_get_or data ''target_nid'' d_target) (\<lambda>v_target_nid.
     res_bind (py_item data ''reason'') (\<lambda>v_reason.
     res_bind (py_item data ''revoked_at'') (\<lambda>v_revoked_at.
     res_bind (py_item data ''signer_nid'') (\<lambda>v_signer_nid.
     res_bind (py_item data ''signature'') (\<lambda>v_signature.
     res_bind (py_get data ''serial'') (\<lambda>v_serial.
     res_bind (py_get data ''parent_nid'') (\<lambda>v_parent_nid.
       revoke_init \<lparr>rk_target_nid = v_target_nid, rk_reason = v_reason, rk_revoked_at = v_revoked_at,
         rk_signer_nid = v_signer_nid, rk_signature = v_signature, rk_serial = v_serial,
         rk_parent_nid = v_parent_nid\<rparr>))))))))"

definition revoke_unsigned_dict :: "revoke_frame \<Rightarrow> pyval" where
  "revoke_unsigned_dict f = dict_without [''signature''] (revoke_to_dict f)"

section \<open>The identity frames as the codec sees them\<close>

datatype nip_frame = NIdent ident_frame | NTrust trust_frame | NRevoke revoke_frame

fun nip_class :: "nip_frame \<Rightarrow> frame_class" where
  "nip_class (NIdent _) = IdentFrame"
| "nip_class (NTrust _) = TrustFrame"
| "nip_class (NRevoke _) = RevokeFrame"

fun nip_type :: "nip_frame \<Rightarrow> frame_type" where
  "nip_type (NIdent _) = IDENT"
| "nip_type (NTrust _) = TRUST"
| "nip_type (NRevoke _) = REVOKE"

fun nip_to_dict :: "nip_frame \<Rightarrow> pyval" where
  "nip_to_dict (NIdent f) = ident_to_dict f"
| "nip_to_dict (NTrust f) = trust_to_dict f"
| "nip_to_dict (NRevoke f) = revoke_to_dict f"

definition nip_from_dict :: "frame_class \<Rightarrow> pyval \<Rightarrow> nip_frame res" where
  "nip_from_dict cls data =
     (case cls of
        IdentFrame \<Rightarrow> res_wrap NIdent (ident_from_dict data)
      | TrustFrame \<Rightarrow> res_wrap NTrust (trust_from_dict data)
      | RevokeFrame \<Rightarrow> res_wrap NRevoke (revoke_from_dict data)
      | _ \<Rightarrow> Inl AttributeError)"

definition nip_api :: "nip_frame frame_api" where
  "nip_api = \<lparr>fa_type = nip_type, fa_tier = (\<lambda>_. MSGPACK), fa_to_dict = nip_to_dict,
     fa_stream_last = (\<lambda>_. None), fa_from_dict = nip_from_dict\<rparr>"

text \<open>Metadata that is present but empty reads as absent; a revocation obeys the parent rule.\<close>

fun nip_wf :: "nip_frame \<Rightarrow> bool" where
  "nip_wf (NIdent f) = (case id_metadata f of None \<Rightarrow> True | Some m \<Rightarrow> ident_metadata_to_dict m \<noteq> PDict [])"
| "nip_wf (NTrust f) = True"
| "nip_wf (NRevoke f) = revoke_parent_rule (rk_reason f) (rk_parent_nid f)"

section \<open>Lemmas\<close>

lemma assurance_roundtrip [simp]: "assurance_from_wire (Some (assurance_wire l)) = Inr l"
  by (cases l) (simp_all add: assurance_from_wire_def assurance_levels_def)

lemma assurance_rank_roundtrip [simp]: "assurance_from_rank (assurance_rank l) = Inr l"
  by (cases l) (simp_all add: assurance_from_rank_def assurance_levels_def)

lemma nip_opt_val_None [simp]:
  "opt_val reputation_hint_to_dict a = PNone \<longleftrightarrow> a = None" "opt_val ident_metadata_to_dict b = PNone \<longleftrightarrow> b = None"
  "opt_val ident_lineage_to_dict c = PNone \<longleftrightarrow> c = None" "opt_val PList x = PNone \<longleftrightarrow> x = None"
  "opt_val (\<lambda>l. PStr (assurance_wire l)) y = PNone \<longleftrightarrow> y = None"
  by (cases a; cases b; cases c; cases x; cases y;
      simp add: reputation_hint_to_dict_def ident_metadata_to_dict_def ident_lineage_to_dict_def)+

lemma reputation_hint_dict [simp]: "reputation_hint_from_dict (reputation_hint_to_dict f) = Inr f"
  by (simp add: reputation_hint_from_dict_def reputation_hint_to_dict_def)

lemma hint_truthy [simp]: "py_bool (reputation_hint_to_dict f)"
  by (simp add: reputation_hint_to_dict_def)

lemma opt_sub_hint [simp]: "opt_sub reputation_hint_from_dict (opt_val reputation_hint_to_dict x) = Inr x"
  by (rule opt_sub_opt_val) simp

lemma ident_metadata_dict [simp]: "ident_metadata_from_dict (ident_metadata_to_dict f) = Inr f"
  by (simp add: ident_metadata_from_dict_def ident_metadata_to_dict_def map_add_def)

lemma metadata_truthy: "py_bool (ident_metadata_to_dict x) \<longleftrightarrow> ident_metadata_to_dict x \<noteq> PDict []"
  by (simp add: ident_metadata_to_dict_def)

lemma opt_sub_metadata:
  "nip_wf (NIdent f) \<Longrightarrow> opt_sub ident_metadata_from_dict (opt_val ident_metadata_to_dict (id_metadata f)) = Inr (id_metadata f)"
  by (rule opt_sub_opt_val) (simp add: metadata_truthy)

lemma ident_lineage_dict [simp]: "ident_lineage_from_dict (ident_lineage_to_dict f) = Inr f"
  by (simp add: ident_lineage_from_dict_def ident_lineage_to_dict_def map_add_def)

lemma level_of_opt [simp]: "level_of PNone = Inr None" "level_of (opt_val (\<lambda>l. PStr (assurance_wire l)) a) = Inr a"
  by (simp add: level_of_def, cases a, simp_all add: level_of_def)

lemma list_of_opt [simp]: "list_of PNone = None" "list_of (opt_val PList b) = b"
  by (simp add: list_of_def, cases b, simp_all add: list_of_def)

lemma lineage_of_opt [simp]: "lineage_of PNone = Inr None" "lineage_of (opt_val ident_lineage_to_dict c) = Inr c"
proof -
  have "lineage_of (ident_lineage_to_dict x) = Inr (Some x)" for x
    using ident_lineage_dict [of x] by (simp add: lineage_of_def ident_lineage_to_dict_def del: ident_lineage_dict)
  then show "lineage_of (opt_val ident_lineage_to_dict c) = Inr c" by (cases c) (simp_all add: lineage_of_def)
qed (simp add: lineage_of_def)

lemma ident_dict: "nip_wf (NIdent f) \<Longrightarrow> ident_from_dict (ident_to_dict f) = Inr f"
  using opt_sub_metadata [of f] by (simp add: ident_from_dict_def ident_to_dict_def map_add_def)

lemma trust_dict [simp]: "trust_from_dict (trust_to_dict f) = Inr f"
  by (simp add: trust_from_dict_def trust_to_dict_def)

lemma revoke_dict: "nip_wf (NRevoke f) \<Longrightarrow> revoke_from_dict (revoke_to_dict f) = Inr f"
  by (cases "rk_parent_nid f = PNone") (simp_all add: revoke_from_dict_def revoke_to_dict_def map_add_def revoke_init_def)

lemma nip_dict: "nip_wf f \<Longrightarrow> nip_from_dict (nip_class f) (nip_to_dict f) = Inr f"
  by (cases f) (simp_all add: nip_from_dict_def ident_dict revoke_dict del: nip_wf.simps)

lemma nip_no_vector: "\<exists>d. nip_to_dict f = PDict d \<and> map_of d ''vector_search'' = None"
  by (cases f) (simp_all add: ident_to_dict_def trust_to_dict_def revoke_to_dict_def map_add_def)

lemma nip_api_simps [simp]:
  "fa_type nip_api = nip_type" "fa_to_dict nip_api = nip_to_dict" "fa_from_dict nip_api = nip_from_dict"
  by (simp_all add: nip_api_def)

interpretation nip: plain_frames nip_api nip_class nip_wf
  by unfold_locales (simp_all add: nip_dict nip_no_vector)

section \<open>Properties\<close>

text \<open>
  Every identity frame survives the wire at every tier, given libraries that read back its
  dictionary: identities (unless they carry metadata that is present but empty), trust grants, and
  revocations that obey the parent rule.
\<close>

theorem nip_wire_roundtrip:
  assumes "nip_wf f" "lib_reads_back lib (nip_to_dict f)"
    and "registry_resolve reg (nip_type f) = Inr (nip_class f)"
    and "codec_encode lib nip_api maxp ov f = Inr wire"
  shows "codec_decode lib nip_api reg (wire @ rest) = Inr f"
  using nip.wire_roundtrip [of f lib reg maxp ov wire rest] assms by simp

definition ex_revoke :: nip_frame where
  "ex_revoke = NRevoke \<lparr>rk_target_nid = PStr ''n'', rk_reason = PStr ''parent_revoked'', rk_revoked_at = PStr ''t'',
     rk_signer_nid = PStr ''ca'', rk_signature = PStr ''s'', rk_serial = PStr ''0x1'', rk_parent_nid = PStr ''g''\<rparr>"

theorem nip_wire_roundtrip_witness:
  "\<exists>wire. codec_encode (one_value_lib (nip_to_dict ex_revoke)) nip_api 65535 (Some JSON) ex_revoke = Inr wire
     \<and> codec_decode (one_value_lib (nip_to_dict ex_revoke)) nip_api create_full (wire @ [0]) = Inr ex_revoke"
proof -
  let ?lib = "one_value_lib (nip_to_dict ex_revoke)"
  have "tier_encode ?lib nip_api JSON ex_revoke = Inr [0x7B, 0x7D]"
    by (simp add: tier_encode_def tier1_encode_def one_value_lib_def)
  moreover obtain hb where "header_to_bytes (frame_hdr nip_api ex_revoke JSON 2) = Inr hb"
    using header_ok_to_bytes [OF frame_hdr_ok [of 2]] by (fastforce simp: header_consts)
  ultimately have enc: "codec_encode ?lib nip_api 65535 (Some JSON) ex_revoke = Inr (hb @ [0x7B, 0x7D])"
    by (simp add: codec_encode_eq numeral_2_eq_2)
  have "codec_decode ?lib nip_api create_full ((hb @ [0x7B, 0x7D]) @ [0]) = Inr ex_revoke"
    using one_value_reads_back
    by (intro nip_wire_roundtrip [OF _ _ _ enc])
      (simp_all add: ex_revoke_def revoke_parent_rule_def registry_resolve_def create_full_def registry_register_def)
  with enc show ?thesis by blast
qed

end
