(* ===== verification/NwpAnchor.thy ===== *)
theory NwpAnchor
  imports NwpTopology NwpAction NwpReputation NipFrames
begin

text \<open>
  The anchor node, \<open>nps_sdk/nwp/anchor_server.py\<close>: routes, the topology endpoints and the gates in front of the invoke
  handler, with the epoch guard as its state.

  The topology service, the rate limiter, the reputation evaluator and the invoke handler are arguments: what they
  answer in this request. The invoke endpoint is a program over the calls of the rate limiter, in the order the code
  makes them; sending a response may raise there (\<open>av_send\<close>, with the serialization of the body), and the calls of
  the limiter do not. The texts of error messages and content types are not kept. While a request waits for the topology service, others may move the guard: \<open>later\<close> is what it has
  become when the answer is stamped.
\<close>

section \<open>Options\<close>

record anchor_spec =
  an_description :: "string option"
  an_params_anchor :: "string option"
  an_result_anchor :: "string option"
  an_estimated_cgn :: "int option"
  an_timeout_ms_default :: "int option"
  an_timeout_ms_max :: "int option"
  an_required_capability :: "string option"
  an_async :: bool
  an_topology_write :: bool

record anchor_options =
  ao_node_id :: string
  ao_path_prefix :: string
  ao_actions :: "anchor_spec dict"
  ao_display_name :: "string option"
  ao_require_auth :: bool
  ao_required_capabilities :: "string list option"
  ao_require_topology_capability :: bool
  ao_default_timeout_ms :: int
  ao_max_timeout_ms :: int
  ao_default_token_budget :: int
  ao_cgn_limit :: int
  ao_assurance_hint_url :: "string option"
  ao_reputation_policy :: "reputation_policy option"
  ao_trust_anchors :: "string list option"
  ao_rate_limits :: "pyval dict option"
  ao_auto_inject_trace_context :: bool

record invoke_context =
  ic_agent_nid :: "string option"
  ic_effective_timeout_ms :: int
  ic_budget_cgn :: int
  ic_trace_id :: "string option"
  ic_span_id :: "string option"

record rate_decision =
  rt_allowed :: bool
  rt_retry_after_seconds :: "int option"

datatype eval_outcome = Decided reputation_decision | EvaluationFailed | EvaluationCancelled

datatype handler_outcome = HandlerReturned pyval | HandlerTimedOut | HandlerError int string string "pyval option" | HandlerRaised py_error

datatype limiter_op = Acquire string int | Release string

datatype anchor_response =
    AError int string string "pyval option" "(string \<times> pyval) list"
  | AJson int pyval "(string \<times> pyval) list"
  | AEmpty int
  | AStream "pyval list" "py_error option"

record anchor_env =
  av_render :: "pyval \<Rightarrow> string"
  av_json_len :: "pyval \<Rightarrow> nat"
  av_json_read :: "string \<Rightarrow> pyval option"
  av_now_text :: "anchor_event \<Rightarrow> string"
  av_topology :: "topology_service option"
  av_acquire :: "string \<Rightarrow> int \<Rightarrow> rate_decision"
  av_evaluate :: "(string \<Rightarrow> string \<Rightarrow> reputation_policy \<Rightarrow> eval_outcome) option"
  av_handler :: "(string \<Rightarrow> action_frame \<Rightarrow> invoke_context \<Rightarrow> handler_outcome) option"
  av_send :: "anchor_response \<Rightarrow> py_error option"

section \<open>Gates\<close>

definition RESERVED_TYPE_UNSUPPORTED :: string where "RESERVED_TYPE_UNSUPPORTED = ''NWP-RESERVED-TYPE-UNSUPPORTED''"
definition TOPOLOGY_UNAUTHORIZED :: string where "TOPOLOGY_UNAUTHORIZED = ''NWP-TOPOLOGY-UNAUTHORIZED''"
definition QUERY_FILTER_INVALID :: string where "QUERY_FILTER_INVALID = ''NWP-QUERY-FILTER-INVALID''"
definition BUDGET_EXCEEDED :: string where "BUDGET_EXCEEDED = ''NWP-BUDGET-EXCEEDED''"
definition CGN_LIMIT_EXCEEDED :: string where "CGN_LIMIT_EXCEEDED = ''NWP-CGN-LIMIT-EXCEEDED''"
definition AUTH_ASSURANCE_TOO_LOW :: string where "AUTH_ASSURANCE_TOO_LOW = ''NWP-AUTH-ASSURANCE-TOO-LOW''"
definition REPUTATION_THROTTLED :: string where "REPUTATION_THROTTLED = ''NWP-REPUTATION-THROTTLED''"
definition REPUTATION_REJECTED :: string where "REPUTATION_REJECTED = ''NWP-REPUTATION-REJECTED''"
definition REPUTATION_BANNED :: string where "REPUTATION_BANNED = ''NWP-REPUTATION-BANNED''"

definition topology_http_status :: "string \<Rightarrow> int" where
  "topology_http_status st = (if st = ''NPS-AUTH-FORBIDDEN'' then 403 else if st = ''NPS-CLIENT-CONFLICT'' then 409 else 400)"

definition topology_failure :: "anchor_error \<Rightarrow> anchor_response res" where
  "topology_failure e = (case e of Protocol code st \<Rightarrow> Inr (AError (topology_http_status st) st code None []) | Python err \<Rightarrow> Inl err)"

definition fence :: "pyval dict \<Rightarrow> bool \<Rightarrow> epoch_guard option \<Rightarrow> unit checked \<times> epoch_guard option" where
  "fence body is_write guard =
     (case guard of
        None \<Rightarrow> (Inr (), None)
      | Some g \<Rightarrow>
          (let (r, g') = check_inbound (int_value (topo_field body ''cluster_epoch'')) is_write
                 (case topo_field body ''sender_anchor_nid'' of PStr s \<Rightarrow> Some s | _ \<Rightarrow> None) g
           in (r, Some g')))"

definition check_topology_capability :: "anchor_options \<Rightarrow> string dict \<Rightarrow> bool" where
  "check_topology_capability opts headers =
     (if \<not> ao_require_topology_capability opts then True
      else list_ex (\<lambda>c. py_strip c \<noteq> [] \<and> py_lower (py_strip c) = ''topology:read'')
        (split_on (CHR '','') (case dict_get headers ''x-nwp-capabilities'' of None \<Rightarrow> [] | Some s \<Rightarrow> s)))"

definition anchor_clamp_timeout :: "anchor_options \<Rightarrow> int \<Rightarrow> anchor_spec \<Rightarrow> int" where
  "anchor_clamp_timeout opts requested spec =
     (let or_else = (\<lambda>v d. case v of None \<Rightarrow> d | Some x \<Rightarrow> if x = 0 then d else x);
          hard_max = min (or_else (an_timeout_ms_max spec) (ao_max_timeout_ms opts)) (ao_max_timeout_ms opts)
      in if requested \<le> 0 then or_else (an_timeout_ms_default spec) (ao_default_timeout_ms opts) else min requested hard_max)"

definition read_effective_budget :: "anchor_options \<Rightarrow> string dict \<Rightarrow> int" where
  "read_effective_budget opts headers =
     (let agent_budget = (case dict_get headers ''x-nwp-budget'' of
            None \<Rightarrow> ao_default_token_budget opts
          | Some raw \<Rightarrow> (case py_int_of_str raw of Inl _ \<Rightarrow> ao_default_token_budget opts | Inr b \<Rightarrow> b));
          cgn_limit = ao_cgn_limit opts
      in if cgn_limit = 0 then agent_budget else if agent_budget = 0 then cgn_limit else min cgn_limit agent_budget)"

definition extract_ident_assurance :: "(string \<Rightarrow> pyval option) \<Rightarrow> string dict \<Rightarrow> assurance_level" where
  "extract_ident_assurance json_read headers =
     (case dict_get headers ''x-nwp-ident'' of
        None \<Rightarrow> ANONYMOUS
      | Some raw \<Rightarrow>
          if raw = [] then ANONYMOUS
          else (case json_read raw of
                  Some (PDict doc) \<Rightarrow>
                    (case topo_field doc ''assurance_level'' of
                       PStr lvl \<Rightarrow> (case assurance_from_wire (Some lvl) of Inl _ \<Rightarrow> ANONYMOUS | Inr l \<Rightarrow> l)
                     | _ \<Rightarrow> ANONYMOUS)
                | _ \<Rightarrow> ANONYMOUS))"

definition matched_details :: "reputation_rule option \<Rightarrow> pyval option" where
  "matched_details rule =
     (case rule of
        None \<Rightarrow> None
      | Some r \<Rightarrow> Some (PDict [(''matched_incident'', PStr (rr_incident r)), (''matched_severity'', PStr (rr_severity r))]))"

text \<open>The response to a decision that stops the request.\<close>

definition apply_reputation :: "anchor_options \<Rightarrow> reputation_decision \<Rightarrow> anchor_response option" where
  "apply_reputation opts d =
     (case rd_outcome d of
        ACCEPT \<Rightarrow> None
      | BAN \<Rightarrow> Some (AError 403 ''NPS-AUTH-FORBIDDEN'' REPUTATION_BANNED (matched_details (rd_matched_rule d)) [])
      | REJECT \<Rightarrow>
          if rd_error_code d = Some AUTH_ASSURANCE_TOO_LOW
          then Some (AError 403 ''NPS-AUTH-FORBIDDEN'' AUTH_ASSURANCE_TOO_LOW
                 (Some (PDict [(''matched_incident'', PNone), (''hint'', opt_val PStr (ao_assurance_hint_url opts))])) [])
          else Some (AError 403 ''NPS-AUTH-FORBIDDEN'' REPUTATION_REJECTED (matched_details (rd_matched_rule d)) [])
      | THROTTLE \<Rightarrow>
          Some (AError 429 ''NPS-CLIENT-RATE-LIMITED'' REPUTATION_THROTTLED (matched_details (rd_matched_rule d)) [(''Retry-After'', PInt 60)]))"

section \<open>The topology endpoints\<close>

definition bad_query :: anchor_response where
  "bad_query = AError 400 ''NPS-CLIENT-BAD-REQUEST'' QUERY_FILTER_INVALID None []"

definition unsupported :: "string \<Rightarrow> anchor_response" where
  "unsupported code = AError 501 ''NPS-SERVER-UNSUPPORTED'' code None []"

text \<open>What both endpoints do before they differ: the capability, the body, its type, and the service.\<close>

definition topology_entry ::
  "anchor_env \<Rightarrow> anchor_options \<Rightarrow> string \<Rightarrow> request \<Rightarrow> (anchor_response + pyval dict \<times> topology_service) res" where
  "topology_entry E opts wanted rq =
     (if \<not> check_topology_capability opts (rq_headers rq) then Inr (Inl (AError 403 ''NPS-AUTH-FORBIDDEN'' TOPOLOGY_UNAUTHORIZED None []))
      else case rq_body rq of
             Inl e \<Rightarrow> if e \<in> {ValueError, UnicodeDecodeError} then Inr (Inl bad_query) else Inl e
           | Inr (PDict body) \<Rightarrow>
               if topo_field body ''type'' \<noteq> PStr wanted then Inr (Inl (unsupported RESERVED_TYPE_UNSUPPORTED))
               else (case av_topology E of None \<Rightarrow> Inr (Inl (unsupported NODE_UNAVAILABLE)) | Some tv \<Rightarrow> Inr (Inr (body, tv)))
           | Inr _ \<Rightarrow> Inl AttributeError)"

definition SNAPSHOT_ANCHOR_REF :: string where "SNAPSHOT_ANCHOR_REF = ''nps:system:topology:snapshot''"

definition snapshot_answer :: "epoch_guard option \<Rightarrow> topology_snapshot \<Rightarrow> anchor_response res" where
  "snapshot_answer guard sn =
     res_bind (snapshot_to_dict (case guard of None \<Rightarrow> sn | Some g \<Rightarrow> stamp g sn)) (\<lambda>d.
       Inr (AJson 200 (PDict [(''anchor_ref'', PStr SNAPSHOT_ANCHOR_REF), (''count'', PInt 1), (''data'', PList [d])])
         [(''X-NWP-Node-Type'', PStr ''anchor''), (''X-NWP-Schema'', PStr SNAPSHOT_ANCHOR_REF)]))"

definition handle_query ::
  "anchor_env \<Rightarrow> anchor_options \<Rightarrow> (epoch_guard \<Rightarrow> epoch_guard) \<Rightarrow> request \<Rightarrow> epoch_guard option
     \<Rightarrow> anchor_response res \<times> epoch_guard option" where
  "handle_query E opts later rq guard =
     (case topology_entry E opts ''topology.snapshot'' rq of
        Inl e \<Rightarrow> (Inl e, guard)
      | Inr (Inl r) \<Rightarrow> (Inr r, guard)
      | Inr (Inr (body, tv)) \<Rightarrow>
          (case fence body False guard of
             (Inl e, guard') \<Rightarrow> (topology_failure e, guard')
           | (Inr _, guard') \<Rightarrow>
               (case parse_snapshot_request body of
                  Inl e \<Rightarrow> (topology_failure e, guard')
                | Inr req \<Rightarrow>
                    (case tv_get_snapshot tv req of
                       Inl e \<Rightarrow> (topology_failure e, map_option later guard')
                     | Inr sn \<Rightarrow> (snapshot_answer (map_option later guard') sn, map_option later guard')))))"

text \<open>The lines after the acknowledgement, and the exception that ends the response early, if one does.\<close>

fun event_lines :: "anchor_env \<Rightarrow> string \<Rightarrow> anchor_event list \<Rightarrow> stream_end \<Rightarrow> pyval list \<times> py_error option" where
  "event_lines E sid [] Exhausted = ([], None)"
| "event_lines E sid [] (Broken (Protocol code st)) = ([PDict [(''status'', PStr st), (''error'', PStr code)]], None)"
| "event_lines E sid [] (Broken (Python e)) = ([], Some e)"
| "event_lines E sid (ev # evs) fin =
     (case event_to_envelope (av_json_len E) (av_now_text E ev) sid ev of
        Inl e \<Rightarrow> ([], Some e)
      | Inr line \<Rightarrow>
          (case ev of
             ResyncRequired v reason \<Rightarrow> ([line], None)
           | _ \<Rightarrow> (case event_lines E sid evs fin of (ls, err) \<Rightarrow> (line # ls, err))))"

definition stream_ack :: "epoch_guard option \<Rightarrow> string \<Rightarrow> anchor_stream_request \<Rightarrow> pyval" where
  "stream_ack guard sid req =
     PDict ([(''kind'', PStr ''ack''), (''stream_id'', PStr sid), (''status'', PStr ''subscribed''), (''last_seq'', PInt 0),
             (''resumed'', PBool (at_since_version req \<noteq> None))]
       @ (case guard of None \<Rightarrow> [] | Some g \<Rightarrow> [(''cluster_epoch'', PInt (eg_own_epoch g))]))"

definition handle_subscribe ::
  "anchor_env \<Rightarrow> anchor_options \<Rightarrow> string \<Rightarrow> request \<Rightarrow> epoch_guard option \<Rightarrow> anchor_response res \<times> epoch_guard option" where
  "handle_subscribe E opts fresh rq guard =
     (case topology_entry E opts ''topology.stream'' rq of
        Inl e \<Rightarrow> (Inl e, guard)
      | Inr (Inl r) \<Rightarrow> (Inr r, guard)
      | Inr (Inr (body, tv)) \<Rightarrow>
          (case fence body False guard of
             (Inl e, guard') \<Rightarrow> (topology_failure e, guard')
           | (Inr _, guard') \<Rightarrow>
               (case parse_stream_request fresh body of
                  Inl e \<Rightarrow> (topology_failure e, guard')
                | Inr (req, sid) \<Rightarrow>
                    (case tv_subscribe tv req of
                       (evs, fin) \<Rightarrow>
                         (case event_lines E sid evs fin of (ls, err) \<Rightarrow> (Inr (AStream (stream_ack guard' sid req # ls) err), guard'))))))"

section \<open>The invoke endpoint\<close>

definition bad_params :: anchor_response where
  "bad_params = AError 400 ''NPS-CLIENT-BAD-REQUEST'' ACTION_PARAMS_INVALID None []"

text \<open>A call of the rate limiter, \<open>await self._send(...)\<close>, and \<open>try: ... finally: ...\<close>.\<close>

type_synonym 'a limited = "(limiter_op list, 'a) effectful"

definition limiter_call :: "limiter_op \<Rightarrow> unit limited" where
  "limiter_call op = st_write (\<lambda>ops. ops @ [op])"

definition respond :: "anchor_env \<Rightarrow> anchor_response \<Rightarrow> anchor_response limited" where
  "respond E r = st_lift (case av_send E r of None \<Rightarrow> Inr r | Some e \<Rightarrow> Inl e)"

definition try_finally :: "'a limited \<Rightarrow> unit limited \<Rightarrow> 'a limited" where
  "try_finally body cleanup s =
     (case body s of (r, s1) \<Rightarrow> (case cleanup s1 of (Inl e, s2) \<Rightarrow> (Inl e, s2) | (Inr _, s2) \<Rightarrow> (r, s2)))"

text \<open>The reputation gate; it gives the response when it has handled the request.\<close>

definition reputation_gate :: "anchor_env \<Rightarrow> anchor_options \<Rightarrow> string \<Rightarrow> assurance_level \<Rightarrow> anchor_response option limited" where
  "reputation_gate E opts key assurance =
     (case (ao_reputation_policy opts, av_evaluate E) of
        (Some policy, Some evaluate) \<Rightarrow>
          if \<not> rp_enabled policy then st_lift (Inr None)
          else (case evaluate key (assurance_wire assurance) policy of
                  EvaluationFailed \<Rightarrow>
                    st_bind (limiter_call (Release key)) (\<lambda>_.
                    st_bind (respond E (AError 500 ''NPS-SERVER-INTERNAL'' NODE_UNAVAILABLE None [])) (\<lambda>r. st_lift (Inr (Some r))))
                | EvaluationCancelled \<Rightarrow> st_lift (Inl CancelledError)
                | Decided d \<Rightarrow>
                    (case apply_reputation opts d of
                       None \<Rightarrow> st_lift (Inr None)
                     | Some refusal \<Rightarrow>
                         st_bind (respond E refusal) (\<lambda>r.
                         st_bind (limiter_call (Release key)) (\<lambda>_. st_lift (Inr (Some r))))))
      | _ \<Rightarrow> st_lift (Inr None))"

definition caps_answer :: "anchor_spec \<Rightarrow> pyval \<Rightarrow> anchor_response" where
  "caps_answer spec v =
     (let data = (if v = PNone then [] else [v]); schema = (case an_result_anchor spec of None \<Rightarrow> [] | Some a \<Rightarrow> a);
          est = (case an_estimated_cgn spec of None \<Rightarrow> 0 | Some c \<Rightarrow> c)
      in AJson 200 (PDict [(''anchor_ref'', PStr schema), (''count'', PInt (int (length data))), (''data'', PList data)])
           ([(''X-NWP-Node-Type'', PStr ''anchor'')] @ (if schema = [] then [] else [(''X-NWP-Schema'', PStr schema)])
             @ (if est = 0 then [] else [(''X-NWP-Tokens'', PInt est)])))"

text \<open>The handler, or the answer for a task that is started. \<open>ids\<close> are the fresh task, trace and span ids.\<close>

definition handler_answer ::
  "anchor_env \<Rightarrow> anchor_options \<Rightarrow> string \<times> string \<times> string \<Rightarrow> string option \<Rightarrow> int \<Rightarrow> action_frame \<Rightarrow> anchor_spec
     \<Rightarrow> (string \<Rightarrow> action_frame \<Rightarrow> invoke_context \<Rightarrow> handler_outcome) \<Rightarrow> anchor_response limited" where
  "handler_answer E opts ids agent budget frame spec handler =
     (let (task_id, trace_id, span_id) = ids;
          ctx = \<lparr>ic_agent_nid = agent, ic_effective_timeout_ms = anchor_clamp_timeout opts (af_timeout_ms frame) spec, ic_budget_cgn = budget,
                 ic_trace_id = (if ao_auto_inject_trace_context opts then Some trace_id else None),
                 ic_span_id = (if ao_auto_inject_trace_context opts then Some span_id else None)\<rparr>
      in if af_async frame
         then respond E (AJson 202 (PDict [(''task_id'', PStr task_id), (''status'', PStr ''pending''),
                (''poll_url'', PStr (rstrip_slashes (ao_path_prefix opts) @ ''/invoke''))]) [(''X-NWP-Node-Type'', PStr ''anchor'')])
         else (case handler (af_action_id frame) frame ctx of
                 HandlerReturned v \<Rightarrow> respond E (caps_answer spec v)
               | HandlerTimedOut \<Rightarrow> respond E (AError 504 ''NPS-SERVER-TIMEOUT'' NODE_UNAVAILABLE None [])
               | HandlerError http nps code details \<Rightarrow> respond E (AError http nps code details [])
               | HandlerRaised e \<Rightarrow> st_lift (Inl e)))"

text \<open>Behind the gates: the budget, and the handler.\<close>

definition run_invoke ::
  "anchor_env \<Rightarrow> anchor_options \<Rightarrow> string \<times> string \<times> string \<Rightarrow> string option \<Rightarrow> string \<Rightarrow> int \<Rightarrow> int \<Rightarrow> action_frame \<Rightarrow> anchor_spec
     \<Rightarrow> anchor_response limited" where
  "run_invoke E opts ids agent key budget hint frame spec =
     (if budget > 0 \<and> hint > 0 \<and> hint > budget then
        st_bind (limiter_call (Release key)) (\<lambda>_.
          respond E (AError 400 ''NPS-CLIENT-REQUEST-TOO-LARGE'' CGN_LIMIT_EXCEEDED
            (Some (PDict [(''effective_budget'', PInt budget), (''estimated_cgn'', PInt hint)])) []))
      else case av_handler E of
             None \<Rightarrow> st_bind (limiter_call (Release key)) (\<lambda>_. respond E (unsupported NODE_UNAVAILABLE))
           | Some handler \<Rightarrow> try_finally (handler_answer E opts ids agent budget frame spec handler) (limiter_call (Release key)))"

definition consumer_key :: "string option \<Rightarrow> string" where
  "consumer_key agent = (case agent of None \<Rightarrow> ''anonymous'' | Some a \<Rightarrow> if a = [] then ''anonymous'' else a)"

definition cost_hint :: "anchor_spec \<Rightarrow> int" where
  "cost_hint spec = (case an_estimated_cgn spec of None \<Rightarrow> 0 | Some c \<Rightarrow> c)"

definition gated_invoke ::
  "anchor_env \<Rightarrow> anchor_options \<Rightarrow> string \<times> string \<times> string \<Rightarrow> string dict \<Rightarrow> action_frame \<Rightarrow> anchor_spec
     \<Rightarrow> anchor_response limited" where
  "gated_invoke E opts ids headers frame spec =
     (let agent = agent_of headers; key = consumer_key agent; hint = cost_hint spec; rate = av_acquire E key hint in
      if af_async frame \<and> \<not> an_async spec then respond E bad_params
      else st_bind (limiter_call (Acquire key hint)) (\<lambda>_.
        if \<not> rt_allowed rate
        then respond E (AError 429 ''NPS-LIMIT-RATE'' BUDGET_EXCEEDED None
               (case rt_retry_after_seconds rate of None \<Rightarrow> [] | Some n \<Rightarrow> if n = 0 then [] else [(''Retry-After'', PInt n)]))
        else st_bind (reputation_gate E opts key (extract_ident_assurance (av_json_read E) headers)) (\<lambda>handled.
          case handled of
            Some r \<Rightarrow> st_lift (Inr r)
          | None \<Rightarrow> run_invoke E opts ids agent key (read_effective_budget opts headers) hint frame spec)))"

definition anchor_invoke ::
  "anchor_env \<Rightarrow> anchor_options \<Rightarrow> string \<times> string \<times> string \<Rightarrow> request \<Rightarrow> epoch_guard option
     \<Rightarrow> (anchor_response res \<times> limiter_op list) \<times> epoch_guard option" where
  "anchor_invoke E opts ids rq guard =
     (case res_bind (rq_body rq) (\<lambda>raw. res_bind (action_from_dict (av_render E) raw) (\<lambda>f. Inr (raw, f))) of
        Inl e \<Rightarrow> (if e \<in> {ValueError, UnicodeDecodeError, KeyError} then respond E bad_params [] else (Inl e, []), guard)
      | Inr (raw, frame) \<Rightarrow>
          (case dict_get (ao_actions opts) (af_action_id frame) of
             None \<Rightarrow> (respond E (AError 404 ''NPS-CLIENT-NOT-FOUND'' ACTION_NOT_FOUND None []) [], guard)
           | Some spec \<Rightarrow>
               (case fence (case raw of PDict d \<Rightarrow> d | _ \<Rightarrow> []) (an_topology_write spec) guard of
                  (Inl e, guard') \<Rightarrow> (st_bind (st_lift (topology_failure e)) (respond E) [], guard')
                | (Inr _, guard') \<Rightarrow> (gated_invoke E opts ids (rq_headers rq) frame spec [], guard'))))"

section \<open>Routes and manifest\<close>

definition anchor_actions_dict :: "anchor_options \<Rightarrow> (string \<times> pyval) list" where
  "anchor_actions_dict opts =
     map (\<lambda>(action_id, spec).
       (action_id, PDict ([(''action_id'', PStr action_id), (''async'', PBool (an_async spec))]
          @ not_none ''description'' (opt_val PStr (an_description spec))
          @ not_none ''params_anchor'' (opt_val PStr (an_params_anchor spec))
          @ not_none ''result_anchor'' (opt_val PStr (an_result_anchor spec))
          @ not_none ''cgn_est'' (opt_val PInt (an_estimated_cgn spec))
          @ not_none ''timeout_ms_default'' (opt_val PInt (an_timeout_ms_default spec))
          @ not_none ''timeout_ms_max'' (opt_val PInt (an_timeout_ms_max spec))
          @ not_none ''required_capability'' (opt_val PStr (an_required_capability spec))))) (ao_actions opts)"

text \<open>\<open>dataclasses.asdict\<close> of the policy.\<close>

definition rule_asdict :: "reputation_rule \<Rightarrow> pyval" where
  "rule_asdict r =
     PDict [(''incident'', PStr (rr_incident r)), (''severity'', PStr (rr_severity r)), (''within_days'', opt_val PInt (rr_within_days r)),
            (''count'', PInt (rr_count r))]"

definition policy_asdict :: "reputation_policy \<Rightarrow> pyval" where
  "policy_asdict p =
     PDict [(''enabled'', PBool (rp_enabled p)), (''log_sources'', PList (map PStr (rp_log_sources p))),
            (''min_assurance_level'', PStr (rp_min_assurance_level p)), (''cache_ttl_seconds'', PInt (rp_cache_ttl_seconds p)),
            (''ban_ttl_seconds'', PInt (rp_ban_ttl_seconds p)), (''on_log_unavailable'', PStr (rp_on_log_unavailable p)),
            (''throttle_on'', PList (map rule_asdict (rp_throttle_on p))), (''reject_on'', PList (map rule_asdict (rp_reject_on p))),
            (''ban_on'', PList (map rule_asdict (rp_ban_on p)))]"

definition anchor_manifest :: "anchor_options \<Rightarrow> pyval" where
  "anchor_manifest opts =
     (let base = rstrip_slashes (ao_path_prefix opts) in
      PDict ([(''nwp'', PStr ''0.4''), (''node_id'', PStr (ao_node_id opts)), (''node_type'', PStr ''anchor'')]
        @ not_none ''display_name'' (opt_val PStr (ao_display_name opts))
        @ [(''wire_formats'', PList [PStr ''ncp-capsule'', PStr ''json'']), (''preferred_format'', PStr ''json''),
           (''capabilities'', PDict [(''query'', PBool False), (''stream'', PBool False), (''subscribe'', PBool False),
              (''vector_search'', PBool False), (''token_budget_hint'', PBool True), (''ext_frame'', PBool False)]),
           (''auth'', PDict ([(''required'', PBool (ao_require_auth opts)),
              (''identity_type'', PStr (if ao_require_auth opts then ''nip-cert'' else ''none''))]
              @ not_none ''required_capabilities'' (opt_val (\<lambda>cs. PList (map PStr cs)) (ao_required_capabilities opts)))),
           (''endpoints'', PDict [(''invoke'', PStr (base @ ''/invoke'')), (''schema'', PStr (base @ ''/.schema''))])]
        @ (if ao_cgn_limit opts > 0 then [(''token_budget'', PDict [(''cgn_limit'', PInt (ao_cgn_limit opts)), (''profile'', PStr ''cgn.v1'')])] else [])
        @ not_none ''rate_limits'' (opt_val PDict (ao_rate_limits opts))
        @ (case ao_reputation_policy opts of None \<Rightarrow> []
             | Some p \<Rightarrow> if rp_enabled p then [(''reputation_policy'', policy_asdict p)] else [])
        @ (case ao_trust_anchors opts of None \<Rightarrow> [] | Some ts \<Rightarrow> if ts = [] then [] else [(''trust_anchors'', PList (map PStr ts))])
        @ [(''actions'', PList (map snd (anchor_actions_dict opts)))]))"

datatype anchor_routed = AIgnored | AAnswered anchor_response | ToInvoke "string dict" | ToQuery "string dict" | ToSubscribe "string dict"

definition ANCHOR_ROUTES :: "string list" where
  "ANCHOR_ROUTES = [''/.nwm'', ''/.nwm/'', ''/.schema'', ''/.schema/'', ''/actions'', ''/actions/'', ''/invoke'', ''/invoke/'',
     ''/query'', ''/query/'', ''/subscribe'', ''/subscribe/'']"

definition anchor_route :: "anchor_options \<Rightarrow> http_scope \<Rightarrow> anchor_routed" where
  "anchor_route opts sc =
     (let base = rstrip_slashes (ao_path_prefix opts); sub = drop (length base) (sc_path sc); headers = header_dict (sc_headers sc);
          not_found = AAnswered (AError 404 ''NPS-CLIENT-NOT-FOUND'' ACTION_NOT_FOUND None []);
          posted = (\<lambda>r. if sc_verb sc \<noteq> ''POST'' then AAnswered (AEmpty 405) else r)
      in if sc_type sc \<noteq> ''http'' then AIgnored
         else if \<not> py_startswith (sc_path sc) base then not_found
         else if sub \<notin> set ANCHOR_ROUTES then not_found
         else if ao_require_auth opts \<and> agent_of headers = None
         then AAnswered (AError 401 ''NPS-AUTH-UNAUTHENTICATED'' AUTH_NID_SCOPE_VIOLATION None [])
         else if sub \<in> {''/.nwm'', ''/.nwm/''} then AAnswered (AJson 200 (anchor_manifest opts) [(''X-NWP-Node-Type'', PStr ''anchor'')])
         else if sub \<in> {''/.schema'', ''/.schema/'', ''/actions'', ''/actions/''}
         then AAnswered (AJson 200 (PDict [(''actions'', PDict (anchor_actions_dict opts))]) [])
         else if sub \<in> {''/invoke'', ''/invoke/''} then posted (ToInvoke headers)
         else if sub \<in> {''/query'', ''/query/''} then posted (ToQuery headers)
         else posted (ToSubscribe headers))"

section \<open>Server and client together\<close>

text \<open>How a response reaches the client: its status and its JSON body, or the lines of a stream.\<close>

fun response_status :: "anchor_response \<Rightarrow> int" where
  "response_status (AError st _ _ _ _) = st"
| "response_status (AJson st _ _) = st"
| "response_status (AEmpty st) = st"
| "response_status (AStream _ _) = 200"

fun response_body :: "anchor_response \<Rightarrow> pyval option" where
  "response_body (AError st nps code details _) =
     Some (PDict ([(''status'', PStr nps), (''error'', PStr code)] @ (case details of None \<Rightarrow> [] | Some d \<Rightarrow> not_none ''details'' d)))"
| "response_body (AJson _ v _) = Some v"
| "response_body _ = None"

fun response_lines :: "anchor_response \<Rightarrow> pyval dict option list" where
  "response_lines (AStream ls _) = map (\<lambda>v. case v of PDict d \<Rightarrow> Some d | _ \<Rightarrow> None) ls"
| "response_lines _ = []"

lemma client_reads_snapshot:
  assumes "snapshot_answer guard sn = Inr r" and "list_all member_wf (tn_members sn)"
  shows "client_snapshot (response_status r) (response_body r) = Inr (case guard of None \<Rightarrow> sn | Some g \<Rightarrow> stamp g sn)"
proof -
  let ?sn = "case guard of None \<Rightarrow> sn | Some g \<Rightarrow> stamp g sn"
  have "tn_members ?sn = tn_members sn" by (simp add: stamp_def split: option.splits)
  then obtain d where "snapshot_to_dict ?sn = Inr d" "snapshot_from_dict d = Inr ?sn" using snapshot_roundtrip [of ?sn] assms(2) by auto
  then show ?thesis using assms(1)
    by (auto simp: snapshot_answer_def client_snapshot_def lookups first_item_def client_res_def)
qed

lemma client_lines_event:
  assumes "event_wf ev" and "event_to_envelope jl now sid ev = Inr line"
  shows "client_lines ((case line of PDict d \<Rightarrow> Some d | _ \<Rightarrow> None) # ls) =
    (case ev of ResyncRequired v r \<Rightarrow> ([ev], None) | _ \<Rightarrow> (case client_lines ls of (evs, err) \<Rightarrow> (ev # evs, err)))"
proof -
  obtain d where "line = PDict d" "parse_event d = Inr (Some ev)" "map_of d ''event_type'' \<noteq> None"
    using envelope_parsed [OF assms(1), of jl now sid] assms(2) by auto
  then show ?thesis by (cases ev) auto
qed

lemma event_lines_read:
  assumes "list_all event_wf evs" and "event_lines E sid evs Exhausted = (ls, err)"
  shows "err = None \<and> client_lines (map (\<lambda>v. case v of PDict d \<Rightarrow> Some d | _ \<Rightarrow> None) ls) = (upto_resync evs, None)"
  using assms
proof (induction evs arbitrary: ls err)
  case (Cons ev evs)
  obtain d where env: "event_to_envelope (av_json_len E) (av_now_text E ev) sid ev = Inr (PDict d)"
    using envelope_parsed [of ev] Cons.prems(1) by fastforce
  obtain ls' err' where rest: "event_lines E sid evs Exhausted = (ls', err')" by fastforce
  have ih: "err' = None" "client_lines (map (\<lambda>v. case v of PDict d \<Rightarrow> Some d | _ \<Rightarrow> None) ls') = (upto_resync evs, None)"
    using Cons.IH [OF _ rest] Cons.prems(1) by simp_all
  have wf: "event_wf ev" using Cons.prems(1) by simp
  show ?case
    using Cons.prems(2) env rest ih client_lines_event [OF wf env] by (cases ev) auto
qed simp

lemma fence_without_epoch:
  assumes "map_of body ''cluster_epoch'' = None" and "1 \<le> eg_own_epoch g"
  shows "fence body False (Some g) = (Inr (), Some g)"
  using assms by (simp add: fence_def check_inbound_def topo_field_def int_value_def)

lemma known_flags_members:
  assumes "''members'' \<in> set include"
  shows "\<exists>flags. known_flags (map PStr include) = Inr flags \<and> ''members'' \<in> set flags"
  using assms by (fastforce simp: known_flags_def list_all_iff py_hashable_def)

lemma snapshot_body_parsed:
  assumes "scope = ''cluster'' \<or> scope = ''member'' \<and> target \<noteq> None \<and> target \<noteq> Some []" and "''members'' \<in> set include"
  shows "\<exists>req. parse_snapshot_request (snapshot_body scope include depth target) = Inr req \<and> ''members'' \<in> set (ar_include req)"
proof -
  obtain flags where "known_flags (map PStr include) = Inr flags" "''members'' \<in> set flags"
    using known_flags_members [OF assms(2)] by blast
  moreover have "flags \<noteq> []" using calculation(2) by auto
  ultimately show ?thesis using assms(1)
    by (cases target) (auto simp: parse_snapshot_request_def snapshot_body_def topo_field_def parse_scope_def parse_include_def ck_bind_def
          lookups Let_def)
qed

lemma filter_keys_ok: "validate_filter_keys (filter_to_dict f) = Inr ()"
  by (simp add: validate_filter_keys_def filter_to_dict_def not_none_def)

lemma stream_body_parsed:
  assumes "scope = ''cluster'' \<or> scope = ''member''" and "sid \<noteq> []"
  shows "\<exists>req. parse_stream_request fresh (stream_body sid scope filt since) = Inr (req, sid)"
  using assms
  by (cases filt)
     (auto simp: parse_stream_request_def stream_body_def topo_field_def parse_scope_def parse_filter_def ck_bind_def filter_keys_ok lookups
        Let_def split: pyval.splits option.splits)

section \<open>Properties\<close>

text \<open>The request of a client, and the answer it expects of the in-memory service.\<close>

definition client_request :: "pyval dict \<Rightarrow> string dict \<Rightarrow> request" where
  "client_request body headers = \<lparr>rq_body = Inr (PDict body), rq_body_len = 0, rq_headers = headers\<rparr>"

definition served_snapshot :: "memory_service \<Rightarrow> epoch_guard \<Rightarrow> topology_snapshot" where
  "served_snapshot m g =
     \<lparr>tn_version = ms_version m, tn_anchor_nid = ms_anchor_nid m, tn_cluster_size = int (length (ms_members m)), tn_members = ms_members m,
      tn_truncated = PNone, tn_cluster_epoch = Some (eg_own_epoch g)\<rparr>"

text \<open>A small cluster for the examples.\<close>

definition sample_member :: member_info where
  "sample_member =
     \<lparr>mi_nid = PStr ''m'', mi_node_roles = PList [PStr ''memory''], mi_activation_mode = PStr ''auto'', mi_child_anchor = PNone,
      mi_member_count = PNone, mi_tags = PNone, mi_joined_at = PNone, mi_last_seen = PNone, mi_capabilities = PNone, mi_metrics = PNone\<rparr>"

definition sample_service :: memory_service where
  "sample_service =
     \<lparr>ms_anchor_nid = PStr ''a'', ms_members = [sample_member], ms_version = 4,
      ms_events = [MemberJoined 5 sample_member, ResyncRequired 0 (PStr ''gap''), MemberLeft 6 (PStr ''m'')]\<rparr>"

definition anchor_sample :: "eval_outcome \<Rightarrow> anchor_env" where
  "anchor_sample ev =
     \<lparr>av_render = (\<lambda>_. ''?''), av_json_len = (\<lambda>_. 9), av_json_read = (\<lambda>_. None), av_now_text = (\<lambda>_. ''now''),
      av_topology = Some (memory_topology sample_service), av_acquire = (\<lambda>_ _. \<lparr>rt_allowed = True, rt_retry_after_seconds = None\<rparr>),
      av_evaluate = Some (\<lambda>_ _ _. ev), av_handler = Some (\<lambda>_ _ _. HandlerReturned (PInt 7)),
      av_send = (\<lambda>_. None)\<rparr>"

definition anchor_sample_spec :: anchor_spec where
  "anchor_sample_spec =
     \<lparr>an_description = None, an_params_anchor = None, an_result_anchor = None, an_estimated_cgn = None, an_timeout_ms_default = None,
      an_timeout_ms_max = None, an_required_capability = None, an_async = False, an_topology_write = True\<rparr>"

definition anchor_sample_opts :: anchor_options where
  "anchor_sample_opts =
     \<lparr>ao_node_id = ''n'', ao_path_prefix = ''/a'', ao_actions = [(''x'', anchor_sample_spec)], ao_display_name = None, ao_require_auth = True,
      ao_required_capabilities = None, ao_require_topology_capability = False, ao_default_timeout_ms = 30000, ao_max_timeout_ms = 300000,
      ao_default_token_budget = 0, ao_cgn_limit = 0, ao_assurance_hint_url = None, ao_reputation_policy = Some (sample_policy []),
      ao_trust_anchors = None, ao_rate_limits = None, ao_auto_inject_trace_context = True\<rparr>"

lemmas anchor_samples = anchor_sample_def anchor_sample_spec_def anchor_sample_opts_def sample_service_def sample_member_def sample_guard_def

lemma anchor_sample_invoke:
  "anchor_invoke (anchor_sample (Decided (rep_decision ACCEPT None None))) anchor_sample_opts (''t'', ''u'', ''v'')
     (client_request [(''action_id'', PStr ''x'')] []) (Some sample_guard) =
   ((Inr (AJson 200 (PDict [(''anchor_ref'', PStr []), (''count'', PInt 1), (''data'', PList [PInt 7])]) [(''X-NWP-Node-Type'', PStr ''anchor'')]),
     [Acquire ''anonymous'' 0, Release ''anonymous'']), Some sample_guard)"
  by code_simp

text \<open>
  A client that asks an anchor for a snapshot gets exactly the members of the service, stamped with the epoch the anchor has
  when it answers: the server's request parser, fence and serialization and the client's reader fit together.
\<close>

theorem snapshot_served:
  assumes "check_topology_capability opts headers" and "av_topology E = Some (memory_topology m)" and "1 \<le> eg_own_epoch g"
    and "scope = ''cluster'' \<or> scope = ''member'' \<and> target \<noteq> None \<and> target \<noteq> Some []" and "''members'' \<in> set include"
    and "list_all member_wf (ms_members m)"
  shows "\<exists>r. handle_query E opts later (client_request (snapshot_body scope include depth target) headers) (Some g) = (Inr r, Some (later g))
    \<and> client_snapshot (response_status r) (response_body r) = Inr (served_snapshot m (later g))"
proof -
  let ?body = "snapshot_body scope include depth target"
  obtain req where req: "parse_snapshot_request ?body = Inr req" "''members'' \<in> set (ar_include req)"
    using snapshot_body_parsed [OF assms(4,5)] by blast
  obtain sn where sn: "memory_snapshot m req = Inr sn" "stamp (later g) sn = served_snapshot m (later g)" "tn_members sn = ms_members m"
    using req(2) by (simp add: memory_snapshot_def stamp_def served_snapshot_def)
  obtain r where r: "snapshot_answer (Some (later g)) sn = Inr r"
    using snapshot_roundtrip [of "stamp (later g) sn"] assms(6) sn(3) by (auto simp: snapshot_answer_def res_bind_def stamp_def)
  have "topology_entry E opts ''topology.snapshot'' (client_request ?body headers) = Inr (Inr (?body, memory_topology m))"
    using assms(1,2) by (simp add: topology_entry_def client_request_def topo_field_def snapshot_body_def)
  moreover have "fence ?body False (Some g) = (Inr (), Some g)"
    using assms(3) by (intro fence_without_epoch) (simp_all add: snapshot_body_def)
  ultimately have "handle_query E opts later (client_request ?body headers) (Some g) = (Inr r, Some (later g))"
    using req sn r by (simp add: handle_query_def memory_topology_def)
  then show ?thesis using client_reads_snapshot [OF r] assms(6) sn by simp
qed

theorem snapshot_served_witness:
  "\<exists>r. handle_query (anchor_sample EvaluationFailed) anchor_sample_opts (\<lambda>g. g) (client_request (snapshot_body ''cluster'' [''members''] 1 None) [])
      (Some sample_guard) = (Inr r, Some sample_guard)
    \<and> client_snapshot (response_status r) (response_body r) = Inr (served_snapshot sample_service sample_guard)"
  by (rule snapshot_served) (simp_all add: anchor_samples check_topology_capability_def member_wf_def)

text \<open>
  C20: a client that subscribes to an anchor receives the events of the service in order, up to and including the first one that
  asks for a new snapshot, and no error.
\<close>

theorem stream_served:
  assumes "check_topology_capability opts headers" and "av_topology E = Some (memory_topology m)" and "1 \<le> eg_own_epoch g"
    and "scope = ''cluster'' \<or> scope = ''member''" and "sid \<noteq> []" and "list_all event_wf (ms_events m)"
  shows "\<exists>r. handle_subscribe E opts fresh (client_request (stream_body sid scope filt since) headers) (Some g) = (Inr r, Some g)
    \<and> client_subscribe (response_lines r) = (upto_resync (ms_events m), None)"
proof -
  let ?body = "stream_body sid scope filt since"
  obtain req where req: "parse_stream_request fresh ?body = Inr (req, sid)" using stream_body_parsed [OF assms(4,5)] by blast
  obtain ls err where ls: "event_lines E sid (ms_events m) Exhausted = (ls, err)" by fastforce
  have "topology_entry E opts ''topology.stream'' (client_request ?body headers) = Inr (Inr (?body, memory_topology m))"
    using assms(1,2) by (simp add: topology_entry_def client_request_def topo_field_def stream_body_def)
  moreover have "fence ?body False (Some g) = (Inr (), Some g)"
    using assms(3) by (intro fence_without_epoch) (simp_all add: stream_body_def)
  ultimately have "handle_subscribe E opts fresh (client_request ?body headers) (Some g) =
      (Inr (AStream (stream_ack (Some g) sid req # ls) err), Some g)"
    using req ls by (simp add: handle_subscribe_def memory_topology_def memory_subscribe_def)
  then show ?thesis using event_lines_read [OF assms(6) ls] by (simp add: client_subscribe_def)
qed

theorem stream_served_witness:
  "\<exists>r. handle_subscribe (anchor_sample EvaluationFailed) anchor_sample_opts ''f'' (client_request (stream_body ''s'' ''cluster'' None None) [])
      (Some sample_guard) = (Inr r, Some sample_guard)
    \<and> client_subscribe (response_lines r) = ([MemberJoined 5 sample_member, ResyncRequired 0 (PStr ''gap'')], None)"
  using stream_served [of anchor_sample_opts "[]" "anchor_sample EvaluationFailed" sample_service sample_guard "''cluster''" "''s''" "''f''" None None]
  by (simp add: anchor_samples check_topology_capability_def member_wf_def)

text \<open>Everything that has to hold before the handler of an action is reached.\<close>

definition gates_open :: "anchor_env \<Rightarrow> anchor_options \<Rightarrow> string dict \<Rightarrow> anchor_spec \<Rightarrow> bool" where
  "gates_open E opts headers spec \<longleftrightarrow>
     rt_allowed (av_acquire E (consumer_key (agent_of headers)) (cost_hint spec)) \<and>
     (case (ao_reputation_policy opts, av_evaluate E) of
        (Some p, Some evaluate) \<Rightarrow> rp_enabled p \<longrightarrow>
          (case evaluate (consumer_key (agent_of headers)) (assurance_wire (extract_ident_assurance (av_json_read E) headers)) p of
             Decided d \<Rightarrow> rd_outcome d = ACCEPT | _ \<Rightarrow> False)
      | _ \<Rightarrow> True) \<and>
     (0 < read_effective_budget opts headers \<longrightarrow> cost_hint spec \<le> read_effective_budget opts headers)"

definition may_write :: "epoch_guard option \<Rightarrow> bool" where
  "may_write guard \<longleftrightarrow> (case guard of None \<Rightarrow> True | Some g \<Rightarrow> eg_role g = ROLE_ACTIVE \<and> \<not> eg_degraded g)"

lemma limited_simps [simp]:
  "limiter_call op ops = (Inr (), ops @ [op])"
  "respond E r ops = (case av_send E r of None \<Rightarrow> (Inr r, ops) | Some e \<Rightarrow> (Inl e, ops))"
  "try_finally body (limiter_call op) ops = (fst (body ops), snd (body ops) @ [op])"
  by (simp_all add: limiter_call_def st_write_def respond_def st_lift_def try_finally_def split: option.splits prod.splits)

text \<open>The gate lets a request pass with its slot, or it has answered it with an error and returned the slot, or it raised.\<close>

definition accepted :: "anchor_env \<Rightarrow> anchor_options \<Rightarrow> string \<Rightarrow> assurance_level \<Rightarrow> bool" where
  "accepted E opts key a \<longleftrightarrow>
     (case (ao_reputation_policy opts, av_evaluate E) of
        (Some p, Some evaluate) \<Rightarrow> rp_enabled p \<longrightarrow> (case evaluate key (assurance_wire a) p of Decided d \<Rightarrow> rd_outcome d = ACCEPT | _ \<Rightarrow> False)
      | _ \<Rightarrow> True)"

text \<open>The gate is interrupted: the evaluation is cancelled, or the refusal cannot be sent.\<close>

definition gate_interrupted :: "anchor_env \<Rightarrow> anchor_options \<Rightarrow> string \<Rightarrow> assurance_level \<Rightarrow> py_error \<Rightarrow> bool" where
  "gate_interrupted E opts key a e \<longleftrightarrow>
     (\<exists>policy evaluate. ao_reputation_policy opts = Some policy \<and> av_evaluate E = Some evaluate \<and> rp_enabled policy
        \<and> (evaluate key (assurance_wire a) policy = EvaluationCancelled \<and> e = CancelledError
           \<or> (\<exists>d refusal. evaluate key (assurance_wire a) policy = Decided d \<and> apply_reputation opts d = Some refusal
                \<and> av_send E refusal = Some e)))"

lemma apply_reputation_cases:
  "apply_reputation opts d = None \<longleftrightarrow> rd_outcome d = ACCEPT"
  "apply_reputation opts d = Some r \<Longrightarrow> \<exists>st nps code ds hs. r = AError st nps code ds hs"
  by (auto simp: apply_reputation_def split: rep_outcome.splits if_splits)

lemma reputation_gate_cases:
  assumes "reputation_gate E opts key a ops = (r, ops')"
  shows "accepted E opts key a \<and> r = Inr None \<and> ops' = ops
    \<or> \<not> accepted E opts key a \<and> ops' = ops @ [Release key] \<and> (\<forall>x. r = Inr x \<longrightarrow> (\<exists>st nps code ds hs. x = Some (AError st nps code ds hs)))
    \<or> \<not> accepted E opts key a \<and> ops' = ops \<and> (\<exists>e. r = Inl e \<and> gate_interrupted E opts key a e)"
proof (cases "ao_reputation_policy opts"; cases "av_evaluate E")
  fix p evaluate assume pe: "ao_reputation_policy opts = Some p" "av_evaluate E = Some evaluate"
  show ?thesis
  proof (cases "rp_enabled p")
    case True
    show ?thesis
    proof (cases "evaluate key (assurance_wire a) p")
      case (Decided d)
      then show ?thesis
        using assms pe True apply_reputation_cases(1) [of opts d] apply_reputation_cases(2) [of opts d]
        by (cases "apply_reputation opts d")
           (auto simp: reputation_gate_def accepted_def gate_interrupted_def st_bind_def st_lift_def split: option.splits)
    qed (use assms pe True in \<open>auto simp: reputation_gate_def accepted_def gate_interrupted_def st_bind_def st_lift_def split: option.splits\<close>)
  qed (use assms pe in \<open>auto simp: reputation_gate_def accepted_def st_lift_def\<close>)
qed (use assms in \<open>auto simp: reputation_gate_def accepted_def st_lift_def\<close>)

lemma run_invoke_releases: "snd (run_invoke E opts ids agent key budget hint frame spec ops) = ops @ [Release key]"
proof -
  have "snd (handler_answer E opts ids agent budget frame spec handler ops) = ops" for handler
    by (auto simp: handler_answer_def Let_def st_lift_def split: prod.splits handler_outcome.splits option.splits)
  then show ?thesis by (auto simp: run_invoke_def st_bind_def split: option.splits)
qed

lemma run_invoke_answers:
  "run_invoke E opts ids agent key budget hint frame spec ops = (Inr (AJson st v hs), ops') \<Longrightarrow> 0 < budget \<Longrightarrow> hint \<le> budget"
  by (auto simp: run_invoke_def st_bind_def split: if_splits option.splits)

lemma gated_invoke_answers:
  assumes "gated_invoke E opts ids headers frame spec ops = (Inr (AJson st v hs), ops')"
  shows "gates_open E opts headers spec"
proof -
  let ?key = "consumer_key (agent_of headers)" and ?a = "extract_ident_assurance (av_json_read E) headers" and ?ops = "ops @ [Acquire (consumer_key (agent_of headers)) (cost_hint spec)]"
  have slot: "rt_allowed (av_acquire E ?key (cost_hint spec))"
    using assms by (auto simp: gated_invoke_def Let_def bad_params_def st_bind_def split: if_splits option.splits)
  obtain r ops1 where gate: "reputation_gate E opts ?key ?a ?ops = (r, ops1)" by (cases "reputation_gate E opts ?key ?a ?ops")
  have rest: "(case r of Inl e \<Rightarrow> (Inl e, ops1) | Inr (Some x) \<Rightarrow> (Inr x, ops1)
      | Inr None \<Rightarrow> run_invoke E opts ids (agent_of headers) ?key (read_effective_budget opts headers) (cost_hint spec) frame spec ops1)
      = (Inr (AJson st v hs), ops')"
    using assms slot gate by (auto simp: gated_invoke_def Let_def bad_params_def st_bind_def st_lift_def split: if_splits option.splits sum.splits)
  then have r: "r = Inr None" and acc: "accepted E opts ?key ?a"
    using reputation_gate_cases [OF gate] by (auto split: sum.splits option.splits)
  then show ?thesis
    using slot rest run_invoke_answers [of E opts ids "agent_of headers" ?key "read_effective_budget opts headers" "cost_hint spec" frame spec ops1]
    by (auto simp: gates_open_def accepted_def)
qed

lemma fence_write: "fence body True guard = (Inr (), guard') \<Longrightarrow> may_write guard"
  by (auto simp: fence_def check_inbound_def may_write_def Let_def split: option.splits if_splits)

text \<open>
  C21: an anchor answers an invocation with a result or a task only for a declared action, with a slot of the rate limiter, a
  reputation that is accepted and a cost within the budget, and an action that writes the topology only as the active owner with
  a quorum.
\<close>

theorem invoke_passes_gates:
  assumes "anchor_invoke E opts ids rq guard = ((Inr (AJson st v hs), ops), guard')"
  shows "\<exists>raw frame spec. rq_body rq = Inr raw \<and> action_from_dict (av_render E) raw = Inr frame
    \<and> dict_get (ao_actions opts) (af_action_id frame) = Some spec \<and> gates_open E opts (rq_headers rq) spec
    \<and> (an_topology_write spec \<longrightarrow> may_write guard)"
proof (cases "res_bind (rq_body rq) (\<lambda>raw. res_bind (action_from_dict (av_render E) raw) (\<lambda>f. Inr (raw, f)))")
  case (Inl e)
  then show ?thesis using assms by (auto simp: anchor_invoke_def bad_params_def split: if_splits option.splits)
next
  case (Inr rf)
  obtain raw frame where rf: "rf = (raw, frame)" by (cases rf)
  note parsed = Inr [unfolded rf]
  obtain spec where spec: "dict_get (ao_actions opts) (af_action_id frame) = Some spec"
    and through: "fence (case raw of PDict d \<Rightarrow> d | _ \<Rightarrow> []) (an_topology_write spec) guard = (Inr (), guard')"
    and answer: "gated_invoke E opts ids (rq_headers rq) frame spec [] = (Inr (AJson st v hs), ops)"
    using assms parsed
    by (auto simp: anchor_invoke_def topology_failure_def st_bind_def st_lift_def split: option.splits prod.splits sum.splits anchor_error.splits)
  have "rq_body rq = Inr raw" "action_from_dict (av_render E) raw = Inr frame"
    using parsed by (auto simp: res_bind_def split: sum.splits)
  moreover have "an_topology_write spec \<longrightarrow> may_write guard" using through fence_write by (cases "an_topology_write spec") auto
  ultimately show ?thesis using spec gated_invoke_answers [OF answer] by blast
qed

theorem invoke_passes_gates_witness:
  "\<exists>raw frame spec. Inr raw = rq_body (client_request [(''action_id'', PStr ''x'')] []) \<and> action_from_dict (\<lambda>_. ''?'') raw = Inr frame
    \<and> dict_get (ao_actions anchor_sample_opts) (af_action_id frame) = Some spec
    \<and> gates_open (anchor_sample (Decided (rep_decision ACCEPT None None))) anchor_sample_opts [] spec
    \<and> (an_topology_write spec \<longrightarrow> may_write (Some sample_guard))"
  using invoke_passes_gates [OF anchor_sample_invoke] by (simp add: client_request_def anchor_sample_def)

text \<open>The slots of the rate limiter after a request: none asked for, one refused, or one given and returned.\<close>

definition slots_balanced :: "anchor_env \<Rightarrow> limiter_op list \<Rightarrow> bool" where
  "slots_balanced E ops =
     (case ops of
        [] \<Rightarrow> True
      | [Acquire k c] \<Rightarrow> \<not> rt_allowed (av_acquire E k c)
      | [Acquire k c, Release k'] \<Rightarrow> rt_allowed (av_acquire E k c) \<and> k' = k
      | _ \<Rightarrow> False)"

lemma gated_invoke_balanced:
  assumes "gated_invoke E opts ids headers frame spec [] = (r, ops)"
  defines "key \<equiv> consumer_key (agent_of headers)"
  shows "slots_balanced E ops
    \<or> (\<exists>e. r = Inl e \<and> gate_interrupted E opts key (extract_ident_assurance (av_json_read E) headers) e
         \<and> ops = [Acquire key (cost_hint spec)])"
proof -
  let ?a = "extract_ident_assurance (av_json_read E) headers" and ?hint = "cost_hint spec"
  obtain r1 ops1 where entry: "reputation_gate E opts key ?a [Acquire key ?hint] = (r1, ops1)" by (cases "reputation_gate E opts key ?a [Acquire key ?hint]")
  consider (unasked) "ops = []" | (refused) "\<not> rt_allowed (av_acquire E key ?hint)" "ops = [Acquire key ?hint]"
    | (gate) "rt_allowed (av_acquire E key ?hint)" "r1 \<noteq> Inr None" "ops = ops1" "\<And>e. r1 = Inl e \<Longrightarrow> r = Inl e"
    | (run) "rt_allowed (av_acquire E key ?hint)" "r1 = Inr None"
        "run_invoke E opts ids (agent_of headers) key (read_effective_budget opts headers) ?hint frame spec ops1 = (r, ops)"
    using assms(1) unfolding gated_invoke_def Let_def key_def [symmetric] st_bind_def
    by (auto simp: entry st_lift_def split: if_splits option.splits sum.splits)
  then show ?thesis
  proof cases
    case gate
    then show ?thesis using reputation_gate_cases [OF entry] by (auto simp: slots_balanced_def)
  next
    case run
    then have "ops = ops1 @ [Release key]" using run_invoke_releases by (metis snd_conv)
    then show ?thesis using run reputation_gate_cases [OF entry] by (auto simp: slots_balanced_def)
  qed (simp_all add: slots_balanced_def)
qed

text \<open>
  C22: A slot of the rate limiter that a request gets is returned exactly once, for the same consumer, whether the
  request is refused, rejected, failed, timed out, raised or answered, and also when the response cannot be sent.
  There is one exception: the reputation gate is interrupted, because the evaluation is cancelled or because sending
  the refusal raises; then the slot is kept and the exception leaves the endpoint.
\<close>

theorem rate_slots_returned:
  assumes "anchor_invoke E opts ids rq guard = ((r, ops), guard')"
  defines "key \<equiv> consumer_key (agent_of (rq_headers rq))"
  shows "slots_balanced E ops
    \<or> (\<exists>e cost. r = Inl e \<and> gate_interrupted E opts key (extract_ident_assurance (av_json_read E) (rq_headers rq)) e
         \<and> ops = [Acquire key cost])"
proof -
  have none: "slots_balanced E []" by (simp add: slots_balanced_def)
  consider "ops = []" | frame spec where "gated_invoke E opts ids (rq_headers rq) frame spec [] = (r, ops)"
    using assms(1) by (auto simp: anchor_invoke_def st_bind_def st_lift_def split: sum.splits option.splits prod.splits if_splits)
  then show ?thesis using none gated_invoke_balanced unfolding key_def by cases blast+
qed

theorem rate_slots_returned_witness:
  "slots_balanced (anchor_sample (Decided (rep_decision ACCEPT None None))) [Acquire ''anonymous'' 0, Release ''anonymous'']"
  using rate_slots_returned [OF anchor_sample_invoke] by simp

text \<open>
  The exception happens: whenever a request with a slot finds the reputation gate interrupted, it keeps its slot of the
  rate limiter for good.
\<close>

theorem interrupted_gate_keeps_slot:
  assumes "gate_interrupted E opts (consumer_key (agent_of headers)) (extract_ident_assurance (av_json_read E) headers) e"
    and "rt_allowed (av_acquire E (consumer_key (agent_of headers)) (cost_hint spec))" and "\<not> af_async frame"
  shows "gated_invoke E opts ids headers frame spec [] = (Inl e, [Acquire (consumer_key (agent_of headers)) (cost_hint spec)])"
  using assms by (auto simp: gate_interrupted_def gated_invoke_def Let_def reputation_gate_def st_bind_def st_lift_def)

theorem interrupted_gate_keeps_slot_witness:
  "gated_invoke (anchor_sample EvaluationCancelled) anchor_sample_opts (''t'', ''u'', ''v'') [] (pc_frame sample_call) anchor_sample_spec [] =
     (Inl CancelledError, [Acquire ''anonymous'' 0])
   \<and> gated_invoke ((anchor_sample (Decided (rep_decision BAN None None)))\<lparr>av_send := \<lambda>_. Some HttpError\<rparr>) anchor_sample_opts (''t'', ''u'', ''v'') []
       (pc_frame sample_call) anchor_sample_spec [] = (Inl HttpError, [Acquire ''anonymous'' 0])"
  using interrupted_gate_keeps_slot [of "anchor_sample EvaluationCancelled" anchor_sample_opts "[]" CancelledError anchor_sample_spec
      "pc_frame sample_call" "(''t'', ''u'', ''v'')"]
    interrupted_gate_keeps_slot [of "(anchor_sample (Decided (rep_decision BAN None None)))\<lparr>av_send := \<lambda>_. Some HttpError\<rparr>" anchor_sample_opts "[]"
      HttpError anchor_sample_spec "pc_frame sample_call" "(''t'', ''u'', ''v'')"]
  by (simp add: gate_interrupted_def apply_reputation_def rep_decision_def anchor_samples sample_policy_def sample_call_def agent_of_def
      consumer_key_def cost_hint_def)

end
