(* ===== verification/NipCa.thy ===== *)
theory NipCa
  imports NipFrames
begin

text \<open>
  The certificate authority: the in-memory certificate store (\<open>nps_sdk/nip/ca/store.py\<close>) and the
  service that registers, renews, revokes and verifies identities (\<open>nps_sdk/nip/ca/service.py\<close>).

  The clock readings of a call and random identifiers are arguments. Signing with the CA key, JSON,
  the text of a time and X.509 certificates are the functions of a \<open>ca_lib\<close>. A call runs without
  interruption: the in-memory store never suspends.
\<close>

section \<open>The certificate store\<close>

record cert_record =
  cr_nid :: string
  cr_entity_type :: string
  cr_serial :: string
  cr_pub_key :: string
  cr_capabilities :: "string list"
  cr_scope_json :: string
  cr_issued_by :: string
  cr_issued_at :: int
  cr_expires_at :: int
  cr_revoked_at :: "int option"
  cr_revoke_reason :: "string option"
  cr_metadata_json :: "string option"
  cr_nid_role :: "string option"
  cr_parent_nid :: "string option"
  cr_lineage_json :: "string option"

definition with_revocation :: "int \<Rightarrow> string \<Rightarrow> cert_record \<Rightarrow> cert_record" where
  "with_revocation revoked_at reason r = r\<lparr>cr_revoked_at := Some revoked_at, cr_revoke_reason := Some reason\<rparr>"

record ca_store =
  ca_records :: "cert_record list"
  ca_serial :: nat

definition empty_ca :: ca_store where
  "empty_ca = \<lparr>ca_records = [], ca_serial = 0\<rparr>"

definition ca_save :: "cert_record \<Rightarrow> (ca_store, unit) effectful" where
  "ca_save r =
     st_bind (st_read (\<lambda>s. \<exists>x \<in> set (ca_records s). cr_serial x = cr_serial r)) (\<lambda>dup.
     st_bind (st_when dup ValueError) (\<lambda>_.
       st_write (\<lambda>s. s\<lparr>ca_records := ca_records s @ [r]\<rparr>)))"

definition get_by_nid :: "string \<Rightarrow> ca_store \<Rightarrow> cert_record option" where
  "get_by_nid nid s = find (\<lambda>r. cr_nid r = nid) (rev (ca_records s))"

definition get_by_serial :: "string \<Rightarrow> ca_store \<Rightarrow> cert_record option" where
  "get_by_serial serial s = find (\<lambda>r. cr_serial r = serial) (ca_records s)"

text \<open>The last record of the id that is not revoked, found from the end of the list.\<close>

fun revoke_first :: "string \<Rightarrow> string \<Rightarrow> int \<Rightarrow> cert_record list \<Rightarrow> (cert_record list) option" where
  "revoke_first nid reason t [] = None"
| "revoke_first nid reason t (r # rs) =
     (if cr_nid r = nid \<and> cr_revoked_at r = None then Some (with_revocation t reason r # rs)
      else map_option (\<lambda>xs. r # xs) (revoke_first nid reason t rs))"

definition store_revoke :: "string \<Rightarrow> string \<Rightarrow> int \<Rightarrow> ca_store \<Rightarrow> bool \<times> ca_store" where
  "store_revoke nid reason t s =
     (case revoke_first nid reason t (rev (ca_records s)) of
        None \<Rightarrow> (False, s)
      | Some rs \<Rightarrow> (True, s\<lparr>ca_records := rev rs\<rparr>))"

definition hex_digit :: "nat \<Rightarrow> char" where
  "hex_digit n = (if n < 10 then char_of (48 + n) else char_of (55 + n))"

fun hex_str :: "nat \<Rightarrow> string" where
  "hex_str n = (if n < 16 then [hex_digit n] else hex_str (n div 16) @ [hex_digit (n mod 16)])"

declare hex_str.simps [simp del]

definition serial_text :: "nat \<Rightarrow> string" where
  "serial_text n = ''0x'' @ hex_str n"

definition next_serial :: "(ca_store, string) effectful" where
  "next_serial =
     st_bind (st_write (\<lambda>s. s\<lparr>ca_serial := ca_serial s + 1\<rparr>)) (\<lambda>_.
       st_read (\<lambda>s. serial_text (ca_serial s)))"

definition list_records :: "ca_store \<Rightarrow> cert_record list" where
  "list_records s = ca_records s"

definition get_revoked :: "ca_store \<Rightarrow> cert_record list" where
  "get_revoked s = filter (\<lambda>r. cr_revoked_at r \<noteq> None) (ca_records s)"

definition get_by_parent_nid :: "string \<Rightarrow> ca_store \<Rightarrow> cert_record list" where
  "get_by_parent_nid parent s = filter (\<lambda>r. cr_parent_nid r = Some parent) (ca_records s)"

section \<open>Options and libraries\<close>

record ca_options =
  ca_nid :: string
  ca_agent_days :: int
  ca_node_days :: int
  ca_renewal_window_days :: int
  ca_group_days :: int
  ca_session_default :: int
  ca_session_max :: int
  ca_session_min :: int
  ca_allowed_capabilities :: "string list option"

text \<open>
  \<open>lib_sign\<close> is \<open>NipIdentity.sign\<close>, \<open>lib_loads\<close> and \<open>lib_dumps\<close> are the JSON functions, \<open>lib_iso\<close> the text of
  a time. \<open>lib_parse_key\<close> reads a public key, \<open>lib_leaf\<close> builds a leaf certificate (subject, key, whether
  it is a node, level, validity, serial number) and \<open>lib_root\<close> is the encoded root certificate.
\<close>

record ca_lib =
  lib_sign :: "pyval \<Rightarrow> string res"
  lib_loads :: "string \<Rightarrow> pyval res"
  lib_dumps :: "pyval \<Rightarrow> string"
  lib_iso :: "int \<Rightarrow> string"
  lib_parse_key :: "string \<Rightarrow> unit res"
  lib_leaf :: "string \<Rightarrow> string \<Rightarrow> bool \<Rightarrow> assurance_level \<Rightarrow> int \<Rightarrow> int \<Rightarrow> nat \<Rightarrow> string res"
  lib_root :: string

definition days :: "int \<Rightarrow> int" where
  "days d = d * 86400000000"

section \<open>Errors\<close>

definition CERT_EXPIRED :: string where "CERT_EXPIRED = ''NIP-CERT-EXPIRED''"
definition CERT_REVOKED :: string where "CERT_REVOKED = ''NIP-CERT-REVOKED''"
definition CERT_CAPABILITY_MISSING :: string where "CERT_CAPABILITY_MISSING = ''NIP-CERT-CAPABILITY-MISSING''"
definition CERT_FORMAT_INVALID :: string where "CERT_FORMAT_INVALID = ''NIP-CERT-FORMAT-INVALID''"
definition CERT_PARENT_REVOKED :: string where "CERT_PARENT_REVOKED = ''NIP-CERT-PARENT-REVOKED''"
definition CA_NID_NOT_FOUND :: string where "CA_NID_NOT_FOUND = ''NIP-CA-NID-NOT-FOUND''"
definition CA_NID_ALREADY_EXISTS :: string where "CA_NID_ALREADY_EXISTS = ''NIP-CA-NID-ALREADY-EXISTS''"
definition CA_RENEWAL_TOO_EARLY :: string where "CA_RENEWAL_TOO_EARLY = ''NIP-CA-RENEWAL-TOO-EARLY''"
definition CA_SCOPE_EXPANSION_DENIED :: string where "CA_SCOPE_EXPANSION_DENIED = ''NIP-CA-SCOPE-EXPANSION-DENIED''"
definition CA_GROUP_REVOKED :: string where "CA_GROUP_REVOKED = ''NIP-CA-GROUP-REVOKED''"
definition CA_PARENT_NOT_FOUND :: string where "CA_PARENT_NOT_FOUND = ''NIP-CA-PARENT-NOT-FOUND''"
definition CA_PARENT_NOT_GROUP :: string where "CA_PARENT_NOT_GROUP = ''NIP-CA-PARENT-NOT-GROUP''"
definition CA_SESSION_VALIDITY_INVALID :: string where "CA_SESSION_VALIDITY_INVALID = ''NIP-CA-SESSION-VALIDITY-INVALID''"

section \<open>The service\<close>

definition build_nid :: "ca_options \<Rightarrow> string \<Rightarrow> string \<Rightarrow> string" where
  "build_nid opts entity_type identifier =
     (let parts = split_on (CHR '':'') (ca_nid opts);
          domain = (if length parts \<ge> 4 then parts ! 3 else ca_nid opts)
      in ''urn:nps:'' @ entity_type @ '':'' @ domain @ '':'' @ identifier)"

definition check_capabilities :: "ca_options \<Rightarrow> string list \<Rightarrow> unit res" where
  "check_capabilities opts caps =
     (case ca_allowed_capabilities opts of
        None \<Rightarrow> Inr ()
      | Some allowed \<Rightarrow> if filter (\<lambda>c. c \<notin> set allowed) caps \<noteq> [] then Inl (NipCaException CERT_CAPABILITY_MISSING) else Inr ())"

definition valid_days :: "ca_options \<Rightarrow> string \<Rightarrow> int" where
  "valid_days opts entity_type = (if entity_type = ''node'' then ca_node_days opts else ca_agent_days opts)"

text \<open>\<open>_issue_frame\<close>: the payload that is signed, and the frame.\<close>

definition ident_payload ::
  "ca_lib \<Rightarrow> ca_options \<Rightarrow> string \<Rightarrow> string \<Rightarrow> string list \<Rightarrow> pyval \<Rightarrow> int \<Rightarrow> int \<Rightarrow> string
     \<Rightarrow> assurance_level option \<Rightarrow> ident_lineage option \<Rightarrow> pyval" where
  "ident_payload L opts nid pub_key caps scope issued expires serial level lineage =
     PDict ([(''capabilities'', PList (map PStr caps)), (''expires_at'', PStr (lib_iso L expires)), (''frame'', PStr ''0x20''),
             (''issued_at'', PStr (lib_iso L issued)), (''issued_by'', PStr (ca_nid opts)), (''nid'', PStr nid),
             (''pub_key'', PStr pub_key), (''scope'', scope), (''serial'', PStr serial)]
       @ not_none ''assurance_level'' (opt_val (\<lambda>l. PStr (assurance_wire l)) level)
       @ not_none ''lineage'' (opt_val ident_lineage_to_dict lineage))"

definition issue_frame ::
  "ca_lib \<Rightarrow> ca_options \<Rightarrow> string \<Rightarrow> string \<Rightarrow> string list \<Rightarrow> string \<Rightarrow> int \<Rightarrow> int \<Rightarrow> string \<Rightarrow> string option
     \<Rightarrow> assurance_level option \<Rightarrow> ident_lineage option \<Rightarrow> ident_frame res" where
  "issue_frame L opts nid pub_key caps scope_json issued expires serial metadata_json level lineage =
     res_bind (lib_loads L scope_json) (\<lambda>scope.
     res_bind (lib_sign L (ident_payload L opts nid pub_key caps scope issued expires serial level lineage)) (\<lambda>signature.
     res_bind (case metadata_json of
                 None \<Rightarrow> Inr None
               | Some j \<Rightarrow> res_bind (lib_loads L j) (\<lambda>v. res_bind (ident_metadata_from_dict v) (\<lambda>m. Inr (Some m)))) (\<lambda>metadata.
       Inr \<lparr>id_nid = PStr nid, id_pub_key = PStr pub_key, id_capabilities = map PStr caps, id_scope = scope,
            id_issued_by = PStr (ca_nid opts), id_issued_at = PStr (lib_iso L issued), id_expires_at = PStr (lib_iso L expires),
            id_serial = PStr serial, id_signature = PStr signature, id_metadata = metadata, id_assurance_level = level,
            id_cert_format = PNone, id_cert_chain = None, id_ocsp_staple = PNone, id_node_roles = None,
            id_lineage = lineage\<rparr>)))"

text \<open>
  What all issuing calls end with: take a serial, issue the frame for the record, compute what else
  is needed from it, and save the record.
\<close>

definition certify ::
  "ca_lib \<Rightarrow> ca_options \<Rightarrow> cert_record \<Rightarrow> assurance_level option \<Rightarrow> ident_lineage option
     \<Rightarrow> (string \<Rightarrow> ident_frame \<Rightarrow> ident_frame res) \<Rightarrow> (ca_store, ident_frame) effectful" where
  "certify L opts r level lineage finish =
     st_bind next_serial (\<lambda>serial.
     st_bind (st_lift (issue_frame L opts (cr_nid r) (cr_pub_key r) (cr_capabilities r) (cr_scope_json r)
                (cr_issued_at r) (cr_expires_at r) serial (cr_metadata_json r) level lineage)) (\<lambda>frame.
     st_bind (st_lift (finish serial frame)) (\<lambda>result.
     st_bind (ca_save (r\<lparr>cr_serial := serial\<rparr>)) (\<lambda>_.
       st_lift (Inr result)))))"

definition plain_frame :: "string \<Rightarrow> ident_frame \<Rightarrow> ident_frame res" where
  "plain_frame serial frame = Inr frame"

definition fresh_record ::
  "ca_options \<Rightarrow> string \<Rightarrow> string \<Rightarrow> string \<Rightarrow> string list \<Rightarrow> string \<Rightarrow> int \<Rightarrow> int \<Rightarrow> string option
     \<Rightarrow> string option \<Rightarrow> string option \<Rightarrow> string option \<Rightarrow> cert_record" where
  "fresh_record opts nid entity_type pub_key caps scope_json issued expires metadata_json role parent lineage_json =
     \<lparr>cr_nid = nid, cr_entity_type = entity_type, cr_serial = [], cr_pub_key = pub_key, cr_capabilities = caps,
      cr_scope_json = scope_json, cr_issued_by = ca_nid opts, cr_issued_at = issued, cr_expires_at = expires,
      cr_revoked_at = None, cr_revoke_reason = None, cr_metadata_json = metadata_json, cr_nid_role = role,
      cr_parent_nid = parent, cr_lineage_json = lineage_json\<rparr>"

definition require_unused :: "string \<Rightarrow> (ca_store, unit) effectful" where
  "require_unused nid =
     st_bind (st_read (get_by_nid nid)) (\<lambda>found. st_when (found \<noteq> None) (NipCaException CA_NID_ALREADY_EXISTS))"

subsection \<open>Registration\<close>

definition register ::
  "ca_lib \<Rightarrow> ca_options \<Rightarrow> int \<Rightarrow> string \<Rightarrow> string \<Rightarrow> string \<Rightarrow> string list \<Rightarrow> string \<Rightarrow> string option
     \<Rightarrow> (ca_store, ident_frame) effectful" where
  "register L opts now entity_type identifier pub_key caps scope_json metadata_json =
     (let nid = build_nid opts entity_type identifier in
     st_bind (require_unused nid) (\<lambda>_.
     st_bind (st_lift (check_capabilities opts caps)) (\<lambda>_.
     st_bind (st_lift (time_plus now (days (valid_days opts entity_type)))) (\<lambda>expires.
       certify L opts (fresh_record opts nid entity_type pub_key caps scope_json now expires metadata_json None None None)
         None None plain_frame))))"

text \<open>\<open>check\<close> is the outcome of the enrollment policy, \<open>None\<close> when there is no policy.\<close>

definition register_with_ra ::
  "ca_lib \<Rightarrow> ca_options \<Rightarrow> unit res option \<Rightarrow> int \<Rightarrow> string \<Rightarrow> string \<Rightarrow> string \<Rightarrow> string list \<Rightarrow> string \<Rightarrow> string option
     \<Rightarrow> (ca_store, ident_frame) effectful" where
  "register_with_ra L opts check now entity_type identifier pub_key caps scope_json metadata_json =
     st_bind (st_lift (case check of None \<Rightarrow> Inr () | Some r \<Rightarrow> r)) (\<lambda>_.
       register L opts now entity_type identifier pub_key caps scope_json metadata_json)"

definition extract_ed25519_pubkey :: "ca_lib \<Rightarrow> string \<Rightarrow> unit res" where
  "extract_ed25519_pubkey L encoded =
     (if \<not> py_startswith encoded ''ed25519:'' then Inl (NipCaException CERT_FORMAT_INVALID) else lib_parse_key L encoded)"

fun hex_value :: "nat \<Rightarrow> string \<Rightarrow> nat res" where
  "hex_value acc [] = Inr acc"
| "hex_value acc (c # cs) =
     (let n = of_char c :: nat in
      if 48 \<le> n \<and> n \<le> 57 then hex_value (16 * acc + (n - 48)) cs
      else if 65 \<le> n \<and> n \<le> 70 then hex_value (16 * acc + (n - 55)) cs
      else if 97 \<le> n \<and> n \<le> 102 then hex_value (16 * acc + (n - 87)) cs
      else Inl ValueError)"

text \<open>\<open>_parse_serial_int\<close>, for serials that are hexadecimal digits after an optional \<open>0x\<close>.\<close>

definition parse_serial_int :: "string \<Rightarrow> nat res" where
  "parse_serial_int serial =
     (let hex = (if py_startswith (py_lower serial) ''0x'' then drop 2 serial else serial) in
      if hex = [] then Inr 1 else res_bind (hex_value 0 hex) (\<lambda>v. Inr (if v > 0 then v else 1)))"

definition x509_finish ::
  "ca_lib \<Rightarrow> string \<Rightarrow> string \<Rightarrow> string \<Rightarrow> assurance_level \<Rightarrow> int \<Rightarrow> int \<Rightarrow> string \<Rightarrow> ident_frame \<Rightarrow> ident_frame res" where
  "x509_finish L nid entity_type pub_key level now expires serial frame =
     res_bind (extract_ed25519_pubkey L pub_key) (\<lambda>_.
     res_bind (parse_serial_int serial) (\<lambda>leaf_serial.
     res_bind (lib_leaf L nid pub_key (entity_type = ''node'') level now expires leaf_serial) (\<lambda>leaf.
       Inr (frame\<lparr>id_cert_format := PStr ''v2-x509'', id_cert_chain := Some [PStr leaf, PStr (lib_root L)]\<rparr>))))"

definition register_x509 ::
  "ca_lib \<Rightarrow> ca_options \<Rightarrow> int \<Rightarrow> string \<Rightarrow> string \<Rightarrow> string \<Rightarrow> string list \<Rightarrow> string \<Rightarrow> assurance_level \<Rightarrow> string option
     \<Rightarrow> (ca_store, ident_frame) effectful" where
  "register_x509 L opts now entity_type identifier pub_key caps scope_json level metadata_json =
     (let nid = build_nid opts entity_type identifier in
     st_bind (require_unused nid) (\<lambda>_.
     st_bind (st_lift (check_capabilities opts caps)) (\<lambda>_.
     st_bind (st_lift (time_plus now (days (valid_days opts entity_type)))) (\<lambda>expires.
       certify L opts (fresh_record opts nid entity_type pub_key caps scope_json now expires metadata_json None None None)
         (Some level) None (x509_finish L nid entity_type pub_key level now expires)))))"

subsection \<open>Groups and sessions\<close>

definition opt_str :: "string option \<Rightarrow> pyval" where
  "opt_str v = opt_val PStr v"

definition register_group ::
  "ca_lib \<Rightarrow> ca_options \<Rightarrow> int \<Rightarrow> string \<Rightarrow> string option \<Rightarrow> string \<Rightarrow> string list \<Rightarrow> string \<Rightarrow> string option \<Rightarrow> string option
     \<Rightarrow> string option \<Rightarrow> (ca_store, ident_frame) effectful" where
  "register_group L opts now token identifier pub_key caps scope_json owner_user_id owner_key_id metadata_json =
     (let given = (case identifier of None \<Rightarrow> [] | Some i \<Rightarrow> i);
          ident = (if given = [] then ''group-'' @ token else given);
          nid = build_nid opts ''agent'' ident;
          lineage = \<lparr>li_role = PStr ''group'', li_parent_nid = PNone, li_group_nid = PNone, li_session_id = PNone,
                     li_purpose = PNone, li_owner_user_id = opt_str owner_user_id, li_owner_key_id = opt_str owner_key_id\<rparr>
      in
     st_bind (st_when (given \<noteq> [] \<and> \<not> py_startswith given ''group-'') (NipCaException CA_NID_ALREADY_EXISTS)) (\<lambda>_.
     st_bind (require_unused nid) (\<lambda>_.
     st_bind (st_lift (check_capabilities opts caps)) (\<lambda>_.
     st_bind (st_lift (time_plus now (days (ca_group_days opts)))) (\<lambda>expires.
       certify L opts (fresh_record opts nid ''agent'' pub_key caps scope_json now expires metadata_json
           (Some ''group'') None (Some (lib_dumps L (ident_lineage_to_dict lineage)))) None (Some lineage) plain_frame)))))"

definition extract_lineage_field :: "ca_lib \<Rightarrow> string option \<Rightarrow> string \<Rightarrow> string option" where
  "extract_lineage_field L lineage_json field =
     (case lineage_json of
        None \<Rightarrow> None
      | Some j \<Rightarrow>
          if j = [] then None
          else (case res_bind (lib_loads L j) (\<lambda>doc. py_get doc field) of
                  Inr (PStr v) \<Rightarrow> Some v
                | _ \<Rightarrow> None))"

definition session_capabilities :: "cert_record \<Rightarrow> string list option \<Rightarrow> string list res" where
  "session_capabilities grp caps =
     (case caps of
        None \<Rightarrow> Inr (cr_capabilities grp)
      | Some cs \<Rightarrow>
          if filter (\<lambda>c. c \<notin> set (cr_capabilities grp)) cs \<noteq> []
          then Inl (NipCaException CA_SCOPE_EXPANSION_DENIED) else Inr cs)"

definition require_group :: "int \<Rightarrow> string \<Rightarrow> ca_store \<Rightarrow> cert_record res" where
  "require_group now group_nid s =
     (case get_by_nid group_nid s of
        None \<Rightarrow> Inl (NipCaException CA_PARENT_NOT_FOUND)
      | Some grp \<Rightarrow>
          if cr_nid_role grp \<noteq> Some ''group'' then Inl (NipCaException CA_PARENT_NOT_GROUP)
          else if cr_revoked_at grp \<noteq> None then Inl (NipCaException CA_GROUP_REVOKED)
          else if now > cr_expires_at grp then Inl (NipCaException CERT_EXPIRED)
          else Inr grp)"

definition session_lineage ::
  "ca_lib \<Rightarrow> cert_record \<Rightarrow> string \<Rightarrow> string \<Rightarrow> string option \<Rightarrow> ident_lineage" where
  "session_lineage L grp group_nid session_id purpose =
     \<lparr>li_role = PStr ''session'', li_parent_nid = PStr group_nid, li_group_nid = PStr group_nid,
      li_session_id = PStr session_id, li_purpose = opt_str purpose,
      li_owner_user_id = opt_str (extract_lineage_field L (cr_lineage_json grp) ''owner_user_id''),
      li_owner_key_id = opt_str (extract_lineage_field L (cr_lineage_json grp) ''owner_key_id'')\<rparr>"

text \<open>\<open>unix\<close> is the clock's whole Unix seconds and \<open>rand\<close> the random hexadecimal digits of the session id.\<close>

definition issue_session ::
  "ca_lib \<Rightarrow> ca_options \<Rightarrow> int \<Rightarrow> int \<Rightarrow> string \<Rightarrow> int \<Rightarrow> string \<Rightarrow> string \<Rightarrow> int option \<Rightarrow> string option
     \<Rightarrow> string list option \<Rightarrow> string option \<Rightarrow> string option \<Rightarrow> (ca_store, ident_frame) effectful" where
  "issue_session L opts t0 unix rand now group_nid pub_key validity purpose caps scope_json metadata_json =
     (let v = (case validity of Some x \<Rightarrow> x | None \<Rightarrow> ca_session_default opts);
          session_id = ''session-'' @ int_str unix @ ''-'' @ rand;
          nid = build_nid opts ''agent'' session_id
      in
     st_bind (st_read (require_group t0 group_nid)) (\<lambda>found.
     st_bind (st_lift found) (\<lambda>grp.
     st_bind (st_when (v < ca_session_min opts \<or> v > ca_session_max opts) (NipCaException CA_SESSION_VALIDITY_INVALID)) (\<lambda>_.
     st_bind (st_lift (session_capabilities grp caps)) (\<lambda>session_caps.
     let scope = (case scope_json of Some j \<Rightarrow> j | None \<Rightarrow> cr_scope_json grp);
         lineage = session_lineage L grp group_nid session_id purpose
     in
     st_bind (st_lift (time_plus now (v * 1000000))) (\<lambda>expires.
       certify L opts (fresh_record opts nid ''agent'' pub_key session_caps scope now expires metadata_json
           (Some ''session'') (Some group_nid) (Some (lib_dumps L (ident_lineage_to_dict lineage))))
         None (Some lineage) plain_frame))))))"

definition list_sessions :: "string \<Rightarrow> ca_store \<Rightarrow> cert_record list" where
  "list_sessions group_nid s = get_by_parent_nid group_nid s"

subsection \<open>Renewal\<close>

definition renew :: "ca_lib \<Rightarrow> ca_options \<Rightarrow> int \<Rightarrow> string \<Rightarrow> (ca_store, ident_frame) effectful" where
  "renew L opts now nid =
     st_bind (st_read (get_by_nid nid)) (\<lambda>found.
     st_bind (st_lift (of_option (NipCaException CA_NID_NOT_FOUND) found)) (\<lambda>r.
     st_bind (st_when (cr_revoked_at r \<noteq> None) (NipCaException CERT_REVOKED)) (\<lambda>_.
     st_bind (st_lift (time_plus (cr_expires_at r) (- days (ca_renewal_window_days opts)))) (\<lambda>window_start.
     st_bind (st_when (now < window_start) (NipCaException CA_RENEWAL_TOO_EARLY)) (\<lambda>_.
     st_bind (st_lift (time_plus now (days (valid_days opts (cr_entity_type r))))) (\<lambda>expires.
       certify L opts (fresh_record opts nid (cr_entity_type r) (cr_pub_key r) (cr_capabilities r) (cr_scope_json r)
           now expires (cr_metadata_json r) None None None) None None plain_frame))))))"

subsection \<open>Revocation\<close>

fun cascade :: "int \<Rightarrow> cert_record list \<Rightarrow> ca_store \<Rightarrow> ca_store" where
  "cascade t [] s = s"
| "cascade t (child # children) s =
     cascade t children (if cr_revoked_at child \<noteq> None then s else snd (store_revoke (cr_nid child) ''parent_revoked'' t s))"

definition revoke_payload :: "ca_lib \<Rightarrow> ca_options \<Rightarrow> string \<Rightarrow> string \<Rightarrow> string \<Rightarrow> int \<Rightarrow> pyval" where
  "revoke_payload L opts nid serial reason now =
     PDict [(''frame'', PStr ''0x22''), (''target_nid'', PStr nid), (''serial'', PStr serial), (''reason'', PStr reason),
            (''revoked_at'', PStr (lib_iso L now)), (''signer_nid'', PStr (ca_nid opts))]"

definition revoke :: "ca_lib \<Rightarrow> ca_options \<Rightarrow> int \<Rightarrow> string \<Rightarrow> string \<Rightarrow> (ca_store, revoke_frame) effectful" where
  "revoke L opts now nid reason =
     st_bind (st_read (get_by_nid nid)) (\<lambda>found.
     st_bind (st_lift (of_option (NipCaException CA_NID_NOT_FOUND) found)) (\<lambda>r.
     st_bind (\<lambda>s. case store_revoke nid reason now s of (b, s') \<Rightarrow> (Inr b, s')) (\<lambda>revoked.
     st_bind (st_when (\<not> revoked) (NipCaException CA_NID_NOT_FOUND)) (\<lambda>_.
     st_bind (st_write (\<lambda>s. if cr_nid_role r = Some ''group'' then cascade now (get_by_parent_nid nid s) s else s)) (\<lambda>_.
     st_bind (st_lift (lib_sign L (revoke_payload L opts nid (cr_serial r) reason now))) (\<lambda>signature.
       st_lift (revoke_init
         \<lparr>rk_target_nid = PStr nid, rk_reason = PStr reason, rk_revoked_at = PStr (lib_iso L now),
          rk_signer_nid = PStr (ca_nid opts), rk_signature = PStr signature, rk_serial = PStr (cr_serial r),
          rk_parent_nid = (if reason = ''parent_revoked'' then opt_str (cr_parent_nid r) else PNone)\<rparr>)))))))"

subsection \<open>Verification\<close>

datatype verify_result = Valid cert_record | Invalid string

definition verify :: "int \<Rightarrow> int \<Rightarrow> string \<Rightarrow> ca_store \<Rightarrow> verify_result" where
  "verify t0 t1 nid s =
     (case get_by_nid nid s of
        None \<Rightarrow> Invalid CA_NID_NOT_FOUND
      | Some r \<Rightarrow>
          if cr_revoked_at r \<noteq> None then Invalid CERT_REVOKED
          else if t0 > cr_expires_at r then Invalid CERT_EXPIRED
          else (case cr_parent_nid r of
                  None \<Rightarrow> Valid r
                | Some p \<Rightarrow>
                    if p = [] then Valid r
                    else (case get_by_nid p s of
                            None \<Rightarrow> Invalid CERT_PARENT_REVOKED
                          | Some parent \<Rightarrow>
                              if cr_revoked_at parent \<noteq> None then Invalid CERT_PARENT_REVOKED
                              else if t1 > cr_expires_at parent then Invalid CERT_PARENT_REVOKED
                              else Valid r)))"

definition get_crl :: "ca_store \<Rightarrow> cert_record list" where
  "get_crl s = get_revoked s"

section \<open>Lemmas\<close>

subsection \<open>Serial numbers\<close>

lemma hex_value_append: "hex_value acc (xs @ ys) = res_bind (hex_value acc xs) (\<lambda>a. hex_value a ys)"
  by (induction xs arbitrary: acc) (auto simp: Let_def)

lemma hex_digit_value: "d < 16 \<Longrightarrow> hex_value acc [hex_digit d] = Inr (16 * acc + d)"
  by (auto simp: hex_digit_def Let_def)

lemma hex_value_str: "hex_value 0 (hex_str n) = Inr n"
proof (induction n rule: hex_str.induct)
  case (1 n)
  show ?case
  proof (cases "n < 16")
    case True
    then show ?thesis by (subst hex_str.simps) (simp add: hex_digit_value del: hex_value.simps)
  next
    case False
    have "n mod 16 < 16" by simp
    then show ?thesis
      using 1 False by (subst hex_str.simps) (simp add: hex_value_append hex_digit_value del: hex_value.simps)
  qed
qed

lemma serial_text_inj: "serial_text m = serial_text n \<longleftrightarrow> m = n"
  unfolding serial_text_def using hex_value_str by (metis append_same_eq same_append_eq sum.inject(2))

text \<open>The serial number of an X.509 leaf is the number the store counted.\<close>

lemma parse_serial_text: "0 < n \<Longrightarrow> parse_serial_int (serial_text n) = Inr n"
proof -
  have "hex_str n \<noteq> []" by (subst hex_str.simps) simp
  moreover have "py_startswith (py_lower (serial_text n)) ''0x''"
    by (simp add: serial_text_def py_lower_def py_startswith_def Let_def)
  ultimately show "0 < n \<Longrightarrow> ?thesis"
    by (simp add: parse_serial_int_def hex_value_str Let_def) (simp add: serial_text_def hex_value_str)
qed

definition serials_ok :: "ca_store \<Rightarrow> bool" where
  "serials_ok s \<longleftrightarrow> distinct (map cr_serial (ca_records s))
     \<and> (\<forall>r \<in> set (ca_records s). \<exists>n. 0 < n \<and> n \<le> ca_serial s \<and> cr_serial r = serial_text n)"

lemma next_serial_run [simp]:
  "next_serial s = (Inr (serial_text (Suc (ca_serial s))), s\<lparr>ca_serial := Suc (ca_serial s)\<rparr>)"
  by (simp add: next_serial_def st_bind_def)

lemma serial_unused: "serials_ok s \<Longrightarrow> r \<in> set (ca_records s) \<Longrightarrow> cr_serial r \<noteq> serial_text (Suc (ca_serial s))"
  by (fastforce simp: serials_ok_def serial_text_inj)

text \<open>What issuing does to the store: the counter moves, and at most one record is added.\<close>

definition adds :: "cert_record \<Rightarrow> ca_store \<Rightarrow> ca_store \<Rightarrow> bool" where
  "adds r s s' \<longleftrightarrow>
     s' = s\<lparr>ca_serial := Suc (ca_serial s), ca_records := ca_records s @ [r\<lparr>cr_serial := serial_text (Suc (ca_serial s))\<rparr>]\<rparr>"

definition unchanged :: "ca_store \<Rightarrow> ca_store \<Rightarrow> bool" where
  "unchanged s s' \<longleftrightarrow> ca_records s' = ca_records s \<and> ca_serial s \<le> ca_serial s'"

lemma certify_run:
  assumes "serials_ok s" "certify L opts r level lineage finish s = (res, s')"
  shows "unchanged s s' \<or> adds r s s'"
proof -
  have "\<not> (\<exists>x \<in> set (ca_records s). cr_serial x = serial_text (Suc (ca_serial s)))"
    using serial_unused [OF assms(1)] by blast
  then show ?thesis
    using assms(2) by (auto simp: certify_def st_bind_def ca_save_def unchanged_def adds_def split: sum.splits)
qed

lemma serials_keep:
  assumes "serials_ok s"
  shows "unchanged s s' \<Longrightarrow> serials_ok s'" "adds r s s' \<Longrightarrow> serials_ok s'"
proof -
  show "serials_ok s'" if "unchanged s s'"
    using assms that by (fastforce simp: serials_ok_def unchanged_def)
  show "serials_ok s'" if a: "adds r s s'"
    unfolding serials_ok_def
  proof
    show "distinct (map cr_serial (ca_records s'))"
      using a assms serial_unused [OF assms] by (auto simp: adds_def serials_ok_def)
    show "\<forall>x \<in> set (ca_records s'). \<exists>n. 0 < n \<and> n \<le> ca_serial s' \<and> cr_serial x = serial_text n"
      using a assms by (fastforce simp: adds_def serials_ok_def)
  qed
qed

subsection \<open>The effect of each call\<close>

definition session_ok :: "ca_options \<Rightarrow> cert_record list \<Rightarrow> cert_record \<Rightarrow> bool" where
  "session_ok opts rs r \<longleftrightarrow>
     (cr_nid_role r = Some ''session'' \<longrightarrow>
       (\<exists>g \<in> set rs. Some (cr_nid g) = cr_parent_nid r \<and> cr_nid_role g = Some ''group''
          \<and> set (cr_capabilities r) \<subseteq> set (cr_capabilities g))
       \<and> ca_session_min opts * 1000000 \<le> cr_expires_at r - cr_issued_at r
       \<and> cr_expires_at r - cr_issued_at r \<le> ca_session_max opts * 1000000)"

definition issuable :: "ca_options \<Rightarrow> ca_store \<Rightarrow> cert_record \<Rightarrow> bool" where
  "issuable opts s r \<longleftrightarrow>
     cr_revoked_at r = None \<and> session_ok opts (ca_records s) r
     \<and> (\<forall>p. get_by_nid (cr_nid r) s = Some p \<longrightarrow> cr_revoked_at p = None)"

definition issues :: "ca_options \<Rightarrow> ca_store \<Rightarrow> ca_store \<Rightarrow> bool" where
  "issues opts s s' \<longleftrightarrow> unchanged s s' \<or> (\<exists>r. adds r s s' \<and> issuable opts s r)"

lemma unchanged_refl [simp]: "unchanged s s"
  by (simp add: unchanged_def)

lemma certify_issues:
  assumes "serials_ok s" "issuable opts s r"
  shows "issues opts s (snd (certify L opts r level lineage finish s))"
  using certify_run [OF assms(1) prod.collapse [symmetric], of L opts r level lineage finish] assms(2)
  by (auto simp: issues_def)

lemma fresh_record_simps [simp]:
  "cr_nid (fresh_record opts nid et pk cs sj i x m role par lj) = nid"
  "cr_revoked_at (fresh_record opts nid et pk cs sj i x m role par lj) = None"
  "cr_nid_role (fresh_record opts nid et pk cs sj i x m role par lj) = role"
  "cr_parent_nid (fresh_record opts nid et pk cs sj i x m role par lj) = par"
  "cr_capabilities (fresh_record opts nid et pk cs sj i x m role par lj) = cs"
  "cr_issued_at (fresh_record opts nid et pk cs sj i x m role par lj) = i"
  "cr_expires_at (fresh_record opts nid et pk cs sj i x m role par lj) = x"
  by (simp_all add: fresh_record_def)

lemma issues_refl [simp]: "issues opts s s"
  by (simp add: issues_def)

lemma require_unused_run:
  "require_unused nid s = (if get_by_nid nid s = None then Inr () else Inl (NipCaException CA_NID_ALREADY_EXISTS), s)"
  by (simp add: require_unused_def st_bind_def)

lemma issuable_unused:
  "get_by_nid (cr_nid r) s = None \<Longrightarrow> cr_revoked_at r = None \<Longrightarrow> cr_nid_role r \<noteq> Some ''session'' \<Longrightarrow> issuable opts s r"
  by (simp add: issuable_def session_ok_def)

lemma register_issues:
  assumes "serials_ok s"
  shows "issues opts s (snd (register L opts now et i pk cs sj m s))"
    "issues opts s (snd (register_x509 L opts now et i pk cs sj lvl m s))"
    "issues opts s (snd (register_group L opts now tok gi pk cs sj ou ok m s))"
    "issues opts s (snd (register_with_ra L opts check now et i pk cs sj m s))"
proof -
  show reg: "issues opts s (snd (register L opts now et i pk cs sj m s))"
    using assms by (auto simp: register_def st_bind_def require_unused_run Let_def split: sum.splits intro!: certify_issues issuable_unused)
  show "issues opts s (snd (register_x509 L opts now et i pk cs sj lvl m s))"
    using assms by (auto simp: register_x509_def st_bind_def require_unused_run Let_def split: sum.splits intro!: certify_issues issuable_unused)
  show "issues opts s (snd (register_group L opts now tok gi pk cs sj ou ok m s))"
    using assms by (auto simp: register_group_def st_bind_def require_unused_run Let_def split: sum.splits intro!: certify_issues issuable_unused)
  show "issues opts s (snd (register_with_ra L opts check now et i pk cs sj m s))"
    using reg by (auto simp: register_with_ra_def st_bind_def split: sum.splits option.splits)
qed

lemma find_mem: "find P xs = Some x \<Longrightarrow> x \<in> set xs \<and> P x"
  by (induction xs) (auto split: if_splits)

lemma get_by_nid_mem: "get_by_nid nid s = Some r \<Longrightarrow> r \<in> set (ca_records s) \<and> cr_nid r = nid"
  unfolding get_by_nid_def using find_mem by fastforce

lemma time_plus_Inr: "time_plus t d = Inr x \<Longrightarrow> x = t + d"
  by (simp add: time_plus_def split: if_splits)

lemma issue_session_issues:
  assumes "serials_ok s" and fresh: "get_by_nid (build_nid opts ''agent'' (''session-'' @ int_str unix @ ''-'' @ rand)) s = None"
  shows "issues opts s (snd (issue_session L opts t0 unix rand now gn pk validity purpose caps sj m s))"
proof (cases "require_group t0 gn s")
  case (Inl e)
  then show ?thesis by (simp add: issue_session_def st_bind_def Let_def)
next
  case (Inr g)
  then have g: "g \<in> set (ca_records s)" "cr_nid g = gn" "cr_nid_role g = Some ''group''"
    using get_by_nid_mem [of gn s g] by (auto simp: require_group_def split: option.splits if_splits)
  have caps: "set cs \<subseteq> set (cr_capabilities g)" if "session_capabilities g caps = Inr cs" for cs
    using that by (auto simp: session_capabilities_def filter_empty_conv split: option.splits if_splits)
  show ?thesis
    using assms Inr caps g
    by (auto simp: issue_session_def st_bind_def Let_def issuable_def session_ok_def split: sum.splits
        intro!: certify_issues dest!: time_plus_Inr)
qed

lemma renew_issues:
  assumes "serials_ok s"
  shows "issues opts s (snd (renew L opts now nid s))"
proof (cases "get_by_nid nid s")
  case (Some r)
  then show ?thesis
    using assms
    by (auto simp: renew_def st_bind_def issuable_def session_ok_def split: sum.splits intro!: certify_issues)
qed (simp add: renew_def st_bind_def)

subsection \<open>Revocation\<close>

definition revoked :: "cert_record \<Rightarrow> bool" where
  "revoked r \<longleftrightarrow> cr_revoked_at r \<noteq> None"

text \<open>Every record is kept, or is revoked now.\<close>

definition marks :: "cert_record \<Rightarrow> cert_record \<Rightarrow> bool" where
  "marks x y \<longleftrightarrow> y = x \<or> \<not> revoked x \<and> (\<exists>t reason. y = with_revocation t reason x)"

definition marked :: "cert_record list \<Rightarrow> cert_record list \<Rightarrow> bool" where
  "marked xs ys \<longleftrightarrow> list_all2 marks xs ys"

text \<open>Of the records of one id, most recent first, the revoked ones come first.\<close>

fun revoked_first :: "cert_record list \<Rightarrow> bool" where
  "revoked_first [] = True"
| "revoked_first (r # rs) \<longleftrightarrow> (revoked r \<or> (\<forall>x \<in> set rs. cr_nid x = cr_nid r \<longrightarrow> \<not> revoked x)) \<and> revoked_first rs"

definition dead :: "string \<Rightarrow> ca_store \<Rightarrow> bool" where
  "dead nid s \<longleftrightarrow> (\<exists>r. get_by_nid nid s = Some r \<and> revoked r)"

lemma with_revocation_simps [simp]:
  "cr_nid (with_revocation t reason r) = cr_nid r" "cr_serial (with_revocation t reason r) = cr_serial r"
  "cr_nid_role (with_revocation t reason r) = cr_nid_role r" "cr_parent_nid (with_revocation t reason r) = cr_parent_nid r"
  "cr_capabilities (with_revocation t reason r) = cr_capabilities r" "cr_issued_at (with_revocation t reason r) = cr_issued_at r"
  "cr_expires_at (with_revocation t reason r) = cr_expires_at r" "revoked (with_revocation t reason r)"
  by (simp_all add: with_revocation_def revoked_def)

lemma marks_simps:
  "marks x y \<Longrightarrow> cr_nid y = cr_nid x" "marks x y \<Longrightarrow> cr_serial y = cr_serial x" "marks x y \<Longrightarrow> cr_nid_role y = cr_nid_role x"
  "marks x y \<Longrightarrow> cr_parent_nid y = cr_parent_nid x" "marks x y \<Longrightarrow> cr_capabilities y = cr_capabilities x"
  "marks x y \<Longrightarrow> cr_issued_at y = cr_issued_at x" "marks x y \<Longrightarrow> cr_expires_at y = cr_expires_at x"
  "marks x y \<Longrightarrow> revoked x \<Longrightarrow> revoked y"
  by (auto simp: marks_def)

lemma marks_refl [simp]: "marks x x"
  by (simp add: marks_def)

lemma marks_trans: "marks x y \<Longrightarrow> marks y z \<Longrightarrow> marks x z"
  by (auto simp: marks_def)

lemma marked_refl [simp]: "marked xs xs"
  unfolding marked_def by (rule list_all2_refl) simp

lemma marked_trans: "marked xs ys \<Longrightarrow> marked ys zs \<Longrightarrow> marked xs zs"
  unfolding marked_def by (rule list_all2_trans [of marks marks marks]) (auto intro: marks_trans)

lemma marked_map: "marked xs ys \<Longrightarrow> (\<And>x y. marks x y \<Longrightarrow> f y = f x) \<Longrightarrow> map f ys = map f xs"
  unfolding marked_def by (induction rule: list_all2_induct) auto

lemma list_all2_mem:
  assumes "list_all2 R xs ys"
  shows "\<forall>y \<in> set ys. \<exists>x \<in> set xs. R x y" "\<forall>x \<in> set xs. \<exists>y \<in> set ys. R x y"
  using assms by (induction rule: list_all2_induct) auto

lemma marked_mem:
  assumes "marked xs ys" "y \<in> set ys"
  obtains x where "x \<in> set xs" "marks x y"
  using list_all2_mem(1) [OF assms(1) [unfolded marked_def]] assms(2) by blast

lemma marked_mem':
  assumes "marked xs ys" "x \<in> set xs"
  obtains y where "y \<in> set ys" "marks x y"
  using list_all2_mem(2) [OF assms(1) [unfolded marked_def]] assms(2) by blast

lemma marked_find:
  "marked xs ys \<Longrightarrow>
     (case find (\<lambda>r. cr_nid r = nid) xs of
        None \<Rightarrow> find (\<lambda>r. cr_nid r = nid) ys = None
      | Some x \<Rightarrow> \<exists>y. find (\<lambda>r. cr_nid r = nid) ys = Some y \<and> marks x y)"
  unfolding marked_def by (induction rule: list_all2_induct) (auto dest: marks_simps(1) split: option.splits)

lemma marked_rev: "marked (rev xs) (rev ys) \<longleftrightarrow> marked xs ys"
  by (simp add: marked_def)

lemma dead_marked:
  assumes "dead nid s" "marked (ca_records s) (ca_records s')"
  shows "dead nid s'"
  using marked_find [of "rev (ca_records s)" "rev (ca_records s')" nid] assms marks_simps(8)
  by (fastforce simp: dead_def get_by_nid_def marked_rev)

lemma revoke_first_marked:
  "revoke_first nid reason t rs = Some ys \<Longrightarrow> marked rs ys"
proof (induction rs arbitrary: ys)
  case (Cons r rs)
  have "marks r (with_revocation t reason r)" if "cr_revoked_at r = None"
    using that unfolding marks_def revoked_def by blast
  then show ?case using Cons by (auto simp: marked_def list_all2_refl split: if_splits)
qed simp

lemma revoke_first_find:
  "find (\<lambda>r. cr_nid r = nid) rs = Some x \<Longrightarrow>
     (case revoke_first nid reason t rs of
        None \<Rightarrow> revoked x
      | Some ys \<Rightarrow> \<exists>y. find (\<lambda>r. cr_nid r = nid) ys = Some y \<and> revoked y)"
  by (induction rs) (auto simp: revoked_def with_revocation_def split: if_splits option.splits)

lemma revoke_first_order:
  "revoke_first nid reason t rs = Some ys \<Longrightarrow> revoked_first rs \<Longrightarrow> revoked_first ys"
proof (induction rs arbitrary: ys)
  case (Cons r rs)
  show ?case
  proof (cases "cr_nid r = nid \<and> cr_revoked_at r = None")
    case True
    then show ?thesis using Cons.prems by auto
  next
    case False
    then obtain zs where z: "revoke_first nid reason t rs = Some zs" "ys = r # zs"
      using Cons.prems(1) by (auto split: if_splits)
    have "\<not> revoked y" if "\<not> revoked r" "y \<in> set zs" "cr_nid y = cr_nid r" for y
    proof -
      obtain x where "x \<in> set rs" "marks x y"
        using marked_mem [OF revoke_first_marked [OF z(1)] \<open>y \<in> set zs\<close>] .
      have "cr_nid y \<noteq> nid" using False that by (auto simp: revoked_def)
      then have "y \<in> set rs"
        using z(1) that(2) by (induction rs arbitrary: zs) (auto split: if_splits)
      then show ?thesis using Cons.prems(2) that by auto
    qed
    then show ?thesis using Cons z by auto
  qed
qed simp

text \<open>The order of the records, and what a revocation does to the store.\<close>

definition ordered_store :: "ca_store \<Rightarrow> bool" where
  "ordered_store s \<longleftrightarrow> revoked_first (rev (ca_records s))"

definition marks_store :: "ca_store \<Rightarrow> ca_store \<Rightarrow> bool" where
  "marks_store s s' \<longleftrightarrow> marked (ca_records s) (ca_records s') \<and> ca_serial s' = ca_serial s \<and> (ordered_store s \<longrightarrow> ordered_store s')"

lemma marks_store_refl [simp]: "marks_store s s"
  by (simp add: marks_store_def)

lemma marks_store_trans: "marks_store s s' \<Longrightarrow> marks_store s' s'' \<Longrightarrow> marks_store s s''"
  unfolding marks_store_def by (blast intro: marked_trans ord_eq_le_trans HOL.trans)

lemma store_revoke_marks: "marks_store s (snd (store_revoke nid reason t s))"
  using revoke_first_marked [of nid reason t "rev (ca_records s)"] revoke_first_order [of nid reason t "rev (ca_records s)"]
  by (auto simp: store_revoke_def marks_store_def ordered_store_def marked_rev [of "ca_records s" "rev _", symmetric] split: option.splits)

lemma store_revoke_dead:
  assumes "get_by_nid nid s = Some r"
  shows "dead nid (snd (store_revoke nid reason t s))"
  using revoke_first_find [of nid "rev (ca_records s)" r reason t] assms
  by (auto simp: store_revoke_def dead_def get_by_nid_def split: option.splits)

lemma get_by_nid_some: "r \<in> set (ca_records s) \<Longrightarrow> \<exists>x. get_by_nid (cr_nid r) s = Some x"
  unfolding get_by_nid_def by (cases "find (\<lambda>x. cr_nid x = cr_nid r) (rev (ca_records s))") (auto simp: find_None_iff)

lemma revoked_dead:
  assumes "ordered_store s" "r \<in> set (ca_records s)" "revoked r"
  shows "dead (cr_nid r) s"
proof -
  have "\<exists>x. find (\<lambda>x. cr_nid x = cr_nid r) rs = Some x \<and> revoked x" if "revoked_first rs" "r \<in> set rs" for rs
    using that assms(3) by (induction rs) auto
  then show ?thesis using assms by (auto simp: dead_def get_by_nid_def ordered_store_def)
qed

lemma cascade_marks: "marks_store s (cascade t children s)"
  by (induction children arbitrary: s) (auto intro: marks_store_trans [OF store_revoke_marks])

lemma cascade_dead:
  assumes "ordered_store s" "set children \<subseteq> set (ca_records s0)" "marks_store s0 s" "c \<in> set children" "ordered_store s0"
  shows "dead (cr_nid c) (cascade t children s)"
  using assms
proof (induction children arbitrary: s)
  case (Cons d ds)
  let ?s = "if cr_revoked_at d \<noteq> None then s else snd (store_revoke (cr_nid d) ''parent_revoked'' t s)"
  have m: "marks_store s ?s" using store_revoke_marks by simp
  have o: "ordered_store ?s" using m Cons.prems(1) unfolding marks_store_def by blast
  show ?case
  proof (cases "c \<in> set ds")
    case True
    have "dead (cr_nid c) (cascade t ds ?s)"
      using Cons.IH [OF o _ marks_store_trans [OF Cons.prems(3) m] True Cons.prems(5)] Cons.prems(2) by simp
    then show ?thesis by simp
  next
    case False
    then have c: "c = d" "d \<in> set (ca_records s0)" using Cons.prems by auto
    have "dead (cr_nid d) ?s"
    proof (cases "cr_revoked_at d = None")
      case True
      obtain y where y: "y \<in> set (ca_records s)" "marks d y"
        using marked_mem' c(2) Cons.prems(3) unfolding marks_store_def by blast
      obtain x where "get_by_nid (cr_nid d) s = Some x"
        using get_by_nid_some [OF y(1)] marks_simps(1) [OF y(2)] by auto
      then show ?thesis using True store_revoke_dead by simp
    next
      case False
      then show ?thesis
        using revoked_dead [OF Cons.prems(5) c(2)] dead_marked Cons.prems(3) by (auto simp: revoked_def marks_store_def)
    qed
    then have "dead (cr_nid d) (cascade t ds ?s)"
      using dead_marked cascade_marks unfolding marks_store_def by blast
    then show ?thesis using c by simp
  qed
qed simp

subsection \<open>Runs of the service\<close>

text \<open>The calls that change the store. The clock readings and random digits of a call are its arguments.\<close>

datatype ca_call =
    Register int string string string "string list" string "string option"
  | RegisterRa "unit res option" int string string string "string list" string "string option"
  | RegisterX509 int string string string "string list" string assurance_level "string option"
  | RegisterGroup int string "string option" string "string list" string "string option" "string option" "string option"
  | IssueSession int int string int string string "int option" "string option" "string list option" "string option" "string option"
  | Renew int string
  | Revoke int string string

fun ca_do :: "ca_lib \<Rightarrow> ca_options \<Rightarrow> ca_call \<Rightarrow> ca_store \<Rightarrow> ca_store" where
  "ca_do L opts (Register now et i pk cs sj m) s = snd (register L opts now et i pk cs sj m s)"
| "ca_do L opts (RegisterRa check now et i pk cs sj m) s = snd (register_with_ra L opts check now et i pk cs sj m s)"
| "ca_do L opts (RegisterX509 now et i pk cs sj lvl m) s = snd (register_x509 L opts now et i pk cs sj lvl m s)"
| "ca_do L opts (RegisterGroup now tok i pk cs sj ou ok m) s = snd (register_group L opts now tok i pk cs sj ou ok m s)"
| "ca_do L opts (IssueSession t0 unix rand now gn pk v p cs sj m) s = snd (issue_session L opts t0 unix rand now gn pk v p cs sj m s)"
| "ca_do L opts (Renew now nid) s = snd (renew L opts now nid s)"
| "ca_do L opts (Revoke now nid reason) s = snd (revoke L opts now nid reason s)"

text \<open>\<open>issue_session\<close> does not look its id up: the random digits have to make it new.\<close>

fun call_ok :: "ca_options \<Rightarrow> ca_call \<Rightarrow> ca_store \<Rightarrow> bool" where
  "call_ok opts (IssueSession t0 unix rand now gn pk v p cs sj m) s \<longleftrightarrow>
     get_by_nid (build_nid opts ''agent'' (''session-'' @ int_str unix @ ''-'' @ rand)) s = None"
| "call_ok opts call s \<longleftrightarrow> True"

inductive ca_run :: "ca_lib \<Rightarrow> ca_options \<Rightarrow> ca_store \<Rightarrow> ca_store \<Rightarrow> bool" for L opts where
  ca_stay: "ca_run L opts s s"
| ca_step: "ca_run L opts s s' \<Longrightarrow> call_ok opts call s' \<Longrightarrow> ca_run L opts s (ca_do L opts call s')"

lemma revoke_marks: "marks_store s (snd (revoke L opts now nid reason s))"
proof (cases "get_by_nid nid s")
  case None
  then show ?thesis by (simp add: revoke_def st_bind_def)
next
  case (Some r)
  obtain b s1 where s1: "store_revoke nid reason now s = (b, s1)" by fastforce
  then have "marks_store s s1" using store_revoke_marks [of s nid reason now] by simp
  then show ?thesis
    using Some s1 cascade_marks marks_store_trans
    by (auto simp: revoke_def st_bind_def split: sum.splits)
qed

lemma revoke_success:
  assumes "revoke L opts now nid reason s = (Inr frame, s')"
  obtains r where "get_by_nid nid s = Some r"
    and "s' = (let s1 = snd (store_revoke nid reason now s)
               in if cr_nid_role r = Some ''group'' then cascade now (get_by_parent_nid nid s1) s1 else s1)"
  using assms
  by (cases "get_by_nid nid s"; cases "store_revoke nid reason now s")
    (auto simp: revoke_def st_bind_def Let_def split: sum.splits if_splits)

text \<open>Every call issues at most one record, or marks records as revoked.\<close>

lemma ca_do_cases:
  assumes "serials_ok s" "call_ok opts call s"
  shows "issues opts s (ca_do L opts call s) \<or> marks_store s (ca_do L opts call s)"
  using assms by (cases call) (simp_all add: register_issues issue_session_issues renew_issues revoke_marks)

lemma serials_marked:
  assumes "serials_ok s" "marks_store s s'"
  shows "serials_ok s'"
proof -
  have m: "map cr_serial (ca_records s') = map cr_serial (ca_records s)" "ca_serial s' = ca_serial s"
    using assms(2) marked_map [of _ _ cr_serial] marks_simps(2) by (auto simp: marks_store_def)
  then have "\<exists>n. 0 < n \<and> n \<le> ca_serial s \<and> cr_serial r = serial_text n" if "r \<in> set (ca_records s')" for r
    using assms(1) that unfolding serials_ok_def by (metis (no_types, lifting) image_iff image_eqI list.set_map)
  then show ?thesis using assms(1) m by (simp add: serials_ok_def)
qed

definition sessions_ok :: "ca_options \<Rightarrow> ca_store \<Rightarrow> bool" where
  "sessions_ok opts s \<longleftrightarrow> (\<forall>r \<in> set (ca_records s). session_ok opts (ca_records s) r)"

lemma session_ok_mono: "session_ok opts xs r \<Longrightarrow> set xs \<subseteq> set ys \<Longrightarrow> session_ok opts ys r"
  by (fastforce simp: session_ok_def)

lemma session_ok_serial: "session_ok opts xs (r\<lparr>cr_serial := n\<rparr>) = session_ok opts xs r"
  by (simp add: session_ok_def)

lemma session_ok_marked:
  assumes m: "marked xs ys" and y: "marks x y" and x: "session_ok opts xs x"
  shows "session_ok opts ys y"
  unfolding session_ok_def
proof (intro impI conjI)
  assume "cr_nid_role y = Some ''session''"
  then have s: "cr_nid_role x = Some ''session''" using marks_simps(3) [OF y] by simp
  then obtain g where g: "g \<in> set xs" "Some (cr_nid g) = cr_parent_nid x" "cr_nid_role g = Some ''group''"
    "set (cr_capabilities x) \<subseteq> set (cr_capabilities g)"
    using x by (auto simp: session_ok_def)
  obtain g' where "g' \<in> set ys" "marks g g'" using marked_mem' [OF m g(1)] .
  then show "\<exists>g \<in> set ys. Some (cr_nid g) = cr_parent_nid y \<and> cr_nid_role g = Some ''group'' \<and> set (cr_capabilities y) \<subseteq> set (cr_capabilities g)"
    using g marks_simps [OF y] marks_simps [of g g'] by (metis (no_types, lifting))
  show "ca_session_min opts * 1000000 \<le> cr_expires_at y - cr_issued_at y" "cr_expires_at y - cr_issued_at y \<le> ca_session_max opts * 1000000"
    using x s marks_simps [OF y] by (simp_all add: session_ok_def)
qed

definition ca_inv :: "ca_options \<Rightarrow> ca_store \<Rightarrow> bool" where
  "ca_inv opts s \<longleftrightarrow> serials_ok s \<and> ordered_store s \<and> sessions_ok opts s"

lemma adds_ordered:
  assumes "ordered_store s" "adds r s s'" "issuable opts s r"
  shows "ordered_store s'"
proof -
  have "\<not> revoked x" if x: "x \<in> set (ca_records s)" "cr_nid x = cr_nid r" for x
  proof
    assume "revoked x"
    then have "dead (cr_nid r) s" using revoked_dead [OF assms(1) x(1)] x(2) by simp
    then show False using assms(3) by (auto simp: issuable_def dead_def revoked_def)
  qed
  then show ?thesis using assms by (auto simp: ordered_store_def adds_def)
qed

lemma ca_inv_issues:
  assumes "ca_inv opts s" "issues opts s s'"
  shows "ca_inv opts s'"
  using assms(2) unfolding issues_def
proof
  assume u: "unchanged s s'"
  then show ?thesis
    using assms(1) serials_keep(1) by (auto simp: ca_inv_def ordered_store_def sessions_ok_def unchanged_def)
next
  assume "\<exists>r. adds r s s' \<and> issuable opts s r"
  then obtain r where r: "adds r s s'" "issuable opts s r" by blast
  have "sessions_ok opts s'"
    using assms(1) r
    by (auto simp: ca_inv_def sessions_ok_def issuable_def adds_def session_ok_serial intro: session_ok_mono)
  then show ?thesis
    using assms(1) r serials_keep(2) [OF _ r(1)] adds_ordered [OF _ r] by (simp add: ca_inv_def)
qed

lemma ca_inv_marks:
  assumes "ca_inv opts s" "marks_store s s'"
  shows "ca_inv opts s'"
proof -
  have m: "marked (ca_records s) (ca_records s')" using assms(2) by (simp add: marks_store_def)
  have "session_ok opts (ca_records s') y" if y: "y \<in> set (ca_records s')" for y
  proof -
    obtain x where "x \<in> set (ca_records s)" "marks x y" using marked_mem [OF m y] .
    then show ?thesis using session_ok_marked [OF m] assms(1) by (auto simp: ca_inv_def sessions_ok_def)
  qed
  then show ?thesis
    using assms serials_marked by (auto simp: ca_inv_def sessions_ok_def marks_store_def)
qed

lemma ca_do_inv: "ca_inv opts s \<Longrightarrow> call_ok opts call s \<Longrightarrow> ca_inv opts (ca_do L opts call s)"
  using ca_do_cases [of s opts call L] ca_inv_issues [of opts s] ca_inv_marks [of opts s] unfolding ca_inv_def by blast

lemma ca_run_inv: "ca_run L opts s s' \<Longrightarrow> ca_inv opts s \<Longrightarrow> ca_inv opts s'"
  by (induction rule: ca_run.induct) (auto intro: ca_do_inv)

lemma empty_ca_inv [simp]: "ca_inv opts empty_ca"
  by (simp add: ca_inv_def empty_ca_def serials_ok_def ordered_store_def sessions_ok_def)

lemma reachable_inv_ca: "ca_run L opts empty_ca s \<Longrightarrow> ca_inv opts s"
  using ca_run_inv empty_ca_inv by blast

lemma dead_adds:
  assumes "dead nid s" "adds r s s'" "issuable opts s r"
  shows "dead nid s'"
  using assms by (auto simp: dead_def adds_def issuable_def get_by_nid_def revoked_def)

lemma dead_issues: "dead nid s \<Longrightarrow> issues opts s s' \<Longrightarrow> dead nid s'"
  unfolding issues_def by (elim disjE exE conjE) (simp add: unchanged_def dead_def get_by_nid_def, rule dead_adds)

lemma dead_run: "ca_run L opts s s' \<Longrightarrow> ca_inv opts s \<Longrightarrow> dead nid s \<Longrightarrow> dead nid s'"
proof (induction rule: ca_run.induct)
  case (ca_step s s' call)
  then have "serials_ok s'" using ca_run_inv by (auto simp: ca_inv_def)
  then show ?case
    using ca_do_cases [OF _ ca_step(2), of L] dead_issues [OF ca_step.IH] dead_marked [OF ca_step.IH] ca_step.prems
    unfolding marks_store_def by blast
qed

lemma dead_verify: "dead nid s \<Longrightarrow> verify t0 t1 nid s = Invalid CERT_REVOKED"
  by (auto simp: dead_def verify_def revoked_def)

section \<open>Properties\<close>

text \<open>A concrete authority: signatures and documents are constants.\<close>

definition ex_lib :: ca_lib where
  "ex_lib = \<lparr>lib_sign = (\<lambda>_. Inr ''sig''), lib_loads = (\<lambda>_. Inr (PDict [])), lib_dumps = (\<lambda>_. ''{}''), lib_iso = (\<lambda>_. ''t''),
             lib_parse_key = (\<lambda>_. Inr ()), lib_leaf = (\<lambda>_ _ _ _ _ _ _. Inr ''leaf''), lib_root = ''root''\<rparr>"

definition ex_ca :: ca_options where
  "ex_ca = \<lparr>ca_nid = ''urn:nps:ca:d:root'', ca_agent_days = 30, ca_node_days = 90, ca_renewal_window_days = 7, ca_group_days = 30,
            ca_session_default = 3600, ca_session_max = 86400, ca_session_min = 60, ca_allowed_capabilities = None\<rparr>"

definition ex_group :: string where "ex_group = ''urn:nps:agent:d:group-a''"
definition ex_session :: string where "ex_session = ''urn:nps:agent:d:session-5-ab''"

definition ex_calls :: "ca_call list" where
  "ex_calls = [RegisterGroup (days 100) ''00'' (Some ''group-a'') ''k'' [''read'', ''write''] ''{}'' None None None,
               IssueSession (days 100) 5 ''ab'' (days 100) ex_group ''k2'' None None (Some [''read'']) None None]"

fun run_calls :: "ca_lib \<Rightarrow> ca_options \<Rightarrow> ca_call list \<Rightarrow> ca_store \<Rightarrow> ca_store option" where
  "run_calls L opts [] s = Some s"
| "run_calls L opts (c # cs) s = (if call_ok opts c s then run_calls L opts cs (ca_do L opts c s) else None)"

lemma ca_run_first: "ca_run L opts (ca_do L opts c s) s' \<Longrightarrow> call_ok opts c s \<Longrightarrow> ca_run L opts s s'"
proof (induction "ca_do L opts c s" s' rule: ca_run.induct)
  case ca_stay
  then show ?case using ca_run.ca_step [OF ca_run.ca_stay] by blast
next
  case (ca_step s' call)
  then show ?case by (blast intro: ca_run.ca_step)
qed

lemma run_calls_run: "run_calls L opts cs s = Some s' \<Longrightarrow> ca_run L opts s s'"
  by (induction cs arbitrary: s) (auto intro: ca_run.ca_stay ca_run_first split: if_splits)

definition ex_store :: ca_store where
  "ex_store = the (run_calls ex_lib ex_ca ex_calls empty_ca)"

definition ex_revoked :: ca_store where
  "ex_revoked = ca_do ex_lib ex_ca (Revoke (days 101) ex_group ''key_compromise'') ex_store"

lemma ex_store_run: "ca_run ex_lib ex_ca empty_ca ex_store"
proof (rule run_calls_run)
  show "run_calls ex_lib ex_ca ex_calls empty_ca = Some ex_store"
    unfolding ex_store_def by code_simp
qed

lemma ex_revoke: "\<exists>frame. revoke ex_lib ex_ca (days 101) ex_group ''key_compromise'' ex_store = (Inr frame, ex_revoked)"
proof -
  have "\<not> isl (fst (revoke ex_lib ex_ca (days 101) ex_group ''key_compromise'' ex_store))" by code_simp
  then show ?thesis
    unfolding ex_revoked_def by (cases "revoke ex_lib ex_ca (days 101) ex_group ''key_compromise'' ex_store"; cases "fst (revoke ex_lib ex_ca (days 101) ex_group ''key_compromise'' ex_store)") auto
qed

text \<open>
  In every run of the authority from the empty store the serial numbers of the records are
  pairwise different and were all counted, and the next record can always be saved under the next
  serial.
\<close>
theorem serials_unique:
  assumes "ca_run L opts empty_ca s"
  shows "distinct (map cr_serial (ca_records s))
    \<and> (\<forall>r \<in> set (ca_records s). \<exists>n. 0 < n \<and> n \<le> ca_serial s \<and> cr_serial r = serial_text n)
    \<and> (\<forall>r. fst (st_bind next_serial (\<lambda>n. ca_save (r\<lparr>cr_serial := n\<rparr>)) s) = Inr ())"
proof -
  have s: "serials_ok s" using reachable_inv_ca [OF assms] by (simp add: ca_inv_def)
  have "\<forall>r. fst (st_bind next_serial (\<lambda>n. ca_save (r\<lparr>cr_serial := n\<rparr>)) s) = Inr ()"
    using serial_unused [OF s] by (auto simp: st_bind_def ca_save_def)
  then show ?thesis using s unfolding serials_ok_def by blast
qed

theorem serials_unique_witness:
  "distinct (map cr_serial (ca_records ex_store)) \<and> length (ca_records ex_store) = 2"
proof
  show "distinct (map cr_serial (ca_records ex_store))" using serials_unique [OF ex_store_run] by blast
  show "length (ca_records ex_store) = 2" by code_simp
qed

text \<open>
  C26: Whatever the authority has done, a record with the role of a session (which only \<open>issue_session\<close> writes) belongs to a group
  the authority registered, has no capability that the group's record lacks, and is valid for a time between the configured
  bounds. Renewing a session writes a new record without role and parent and with the days of an agent; that record is not a
  session any more and not within these bounds.
\<close>
theorem sessions_contained:
  assumes "ca_run L opts empty_ca s" "r \<in> set (ca_records s)" "cr_nid_role r = Some ''session''"
  shows "(\<exists>g \<in> set (ca_records s). Some (cr_nid g) = cr_parent_nid r \<and> cr_nid_role g = Some ''group''
            \<and> set (cr_capabilities r) \<subseteq> set (cr_capabilities g))
     \<and> ca_session_min opts * 1000000 \<le> cr_expires_at r - cr_issued_at r
     \<and> cr_expires_at r - cr_issued_at r \<le> ca_session_max opts * 1000000"
proof -
  have "sessions_ok opts s" using reachable_inv_ca [OF assms(1)] by (simp add: ca_inv_def)
  then show ?thesis using assms(2,3) by (simp add: sessions_ok_def session_ok_def)
qed

theorem sessions_contained_witness:
  "ca_session_min ex_ca * 1000000 \<le> cr_expires_at (ca_records ex_store ! 1) - cr_issued_at (ca_records ex_store ! 1)"
proof -
  have "ca_records ex_store ! 1 \<in> set (ca_records ex_store)" by (rule nth_mem) code_simp
  moreover have "cr_nid_role (ca_records ex_store ! 1) = Some ''session''" by code_simp
  ultimately show ?thesis using sessions_contained [OF ex_store_run] by blast
qed

text \<open>
  C7: Revocation is final: after a successful revocation every later verification of the id answers
  CERT_REVOKED and every renewal is refused, whatever calls come in between.
\<close>
theorem revocation_is_final:
  assumes "ca_run L opts empty_ca s" "revoke L opts now nid reason s = (Inr frame, s1)" "ca_run L opts s1 s'"
  shows "verify t0 t1 nid s' = Invalid CERT_REVOKED
    \<and> renew L opts t nid s' = (Inl (NipCaException CERT_REVOKED), s')"
proof -
  obtain r where r: "get_by_nid nid s = Some r"
    and s1: "s1 = (let s1 = snd (store_revoke nid reason now s)
               in if cr_nid_role r = Some ''group'' then cascade now (get_by_parent_nid nid s1) s1 else s1)"
    using revoke_success [OF assms(2)] .
  have "ca_inv opts s" using reachable_inv_ca [OF assms(1)] .
  then have inv: "ca_inv opts s1"
    using ca_inv_marks [OF _ revoke_marks, of opts s L opts now nid reason] assms(2) by simp
  have "dead nid s1"
    using dead_marked [OF store_revoke_dead [OF r]] cascade_marks s1 store_revoke_dead [OF r] unfolding Let_def marks_store_def
    by metis
  then have d: "dead nid s'" using dead_run [OF assms(3) inv] by blast
  then have "renew L opts t nid s' = (Inl (NipCaException CERT_REVOKED), s')"
    by (auto simp: dead_def renew_def st_bind_def revoked_def)
  then show ?thesis using dead_verify [OF d] by blast
qed

theorem revocation_is_final_witness: "verify (days 101) (days 101) ex_group ex_revoked = Invalid CERT_REVOKED"
proof -
  show ?thesis using ex_revoke revocation_is_final [OF ex_store_run _ ca_run.ca_stay] by blast
qed

text \<open>
  C8: Revoking a group that has not been renewed revokes its sessions for good: when the newest record of an id has the role of a
  group, as registration writes it, and the id is revoked, then every id for which some record names the group as its parent
  verifies as CERT_REVOKED from then on. A renewal replaces the group's newest record by one without the role, and then the
  revocation stops at the group, see below.
\<close>
theorem group_revocation_cascades:
  assumes "ca_run L opts empty_ca s" "get_by_nid nid s = Some g" "cr_nid_role g = Some ''group''"
    and "revoke L opts now nid reason s = (Inr frame, s1)" "ca_run L opts s1 s'"
    and "r \<in> set (ca_records s)" "cr_parent_nid r = Some nid"
  shows "verify t0 t1 (cr_nid r) s' = Invalid CERT_REVOKED"
proof -
  let ?s0 = "snd (store_revoke nid reason now s)"
  have s1: "s1 = cascade now (get_by_parent_nid nid ?s0) ?s0"
    using revoke_success [OF assms(4)] assms(2,3) by (auto simp: Let_def)
  have inv: "ca_inv opts s" using reachable_inv_ca [OF assms(1)] .
  then have inv1: "ca_inv opts s1"
    using ca_inv_marks [OF _ revoke_marks, of opts s L opts now nid reason] assms(4) by simp
  have m: "marks_store s ?s0" by (rule store_revoke_marks)
  then have o: "ordered_store ?s0" using inv by (auto simp: marks_store_def ca_inv_def)
  obtain c where c: "c \<in> set (ca_records ?s0)" "marks r c"
    using marked_mem' [OF _ assms(6)] m unfolding marks_store_def by blast
  then have "c \<in> set (get_by_parent_nid nid ?s0)"
    using marks_simps(4) assms(7) by (simp add: get_by_parent_nid_def)
  then have "dead (cr_nid c) s1"
    unfolding s1 by (intro cascade_dead [where s0 = ?s0]) (auto simp: o get_by_parent_nid_def)
  then show ?thesis
    using dead_run [OF assms(5) inv1] dead_verify marks_simps(1) [OF c(2)] by simp
qed

theorem group_revocation_cascades_witness: "verify (days 101) (days 101) ex_session ex_revoked = Invalid CERT_REVOKED"
proof -
  have g: "get_by_nid ex_group ex_store = Some (ca_records ex_store ! 0)" "cr_nid_role (ca_records ex_store ! 0) = Some ''group''"
    "cr_parent_nid (ca_records ex_store ! 1) = Some ex_group" "cr_nid (ca_records ex_store ! 1) = ex_session"
    by code_simp+
  have "ca_records ex_store ! 1 \<in> set (ca_records ex_store)" by (rule nth_mem) code_simp
  then show ?thesis
    using group_revocation_cascades [OF ex_store_run g(1,2) _ ca_run.ca_stay _ g(3)] ex_revoke g(4) by metis
qed

text \<open>
  Renewal drops the role and the parent: when a group and its session are renewed before the group
  is revoked, the group cannot issue sessions any more and the session stays valid after the
  revocation.
\<close>
theorem renewed_session_survives:
  "let s = the (run_calls ex_lib ex_ca [Renew (days 125) ex_group, Renew (days 125) ex_session] ex_store);
       s' = ca_do ex_lib ex_ca (Revoke (days 126) ex_group ''key_compromise'') s
   in fst (issue_session ex_lib ex_ca (days 126) 9 ''cd'' (days 126) ex_group ''k3'' None None None None None s)
        = Inl (NipCaException CA_PARENT_NOT_GROUP)
      \<and> \<not> isl (fst (revoke ex_lib ex_ca (days 126) ex_group ''key_compromise'' s))
      \<and> verify (days 127) (days 127) ex_group s' = Invalid CERT_REVOKED
      \<and> (case verify (days 127) (days 127) ex_session s' of Valid r \<Rightarrow> cr_nid r = ex_session | Invalid _ \<Rightarrow> False)"
  by code_simp

end
