(* ===== verification/Base64.thy ===== *)
theory Base64
  imports Prelude
begin

text \<open>
  Base64 as the SDK uses it: \<open>binascii.a2b_base64\<close> in its lenient mode, \<open>base64.b64decode\<close> with
  \<open>validate=True\<close>, the URL-safe alphabet, and the unpadded forms of \<open>nps_sdk/nip/reputation.py\<close>
  (\<open>_b64u_encode\<close>, \<open>_b64u_decode\<close>), \<open>nip/x509/verifier.py\<close> and \<open>nip/phase3.py\<close> (\<open>_from_base64url\<close>).
\<close>

section \<open>The alphabet\<close>

definition b64_char :: "nat \<Rightarrow> char" where
  "b64_char v =
     char_of (if v < 26 then 65 + v else if v < 52 then 71 + v else if v < 62 then v - 4 else if v = 62 then 43 else 47)"

definition b64_value :: "char \<Rightarrow> nat option" where
  "b64_value c =
     (let n = of_char c :: nat in
      if 65 \<le> n \<and> n \<le> 90 then Some (n - 65)
      else if 97 \<le> n \<and> n \<le> 122 then Some (n - 71)
      else if 48 \<le> n \<and> n \<le> 57 then Some (n + 4)
      else if n = 43 then Some 62 else if n = 47 then Some 63 else None)"

definition PAD :: char where "PAD = CHR ''=''"

section \<open>Decoding\<close>

text \<open>
  The loop of \<open>a2b_base64\<close>: the position in the quartet, the bits left over, the pads seen.
  Characters outside the alphabet are skipped, and enough padding ends the input.
\<close>

fun a2b_loop :: "nat \<Rightarrow> nat \<Rightarrow> nat \<Rightarrow> string \<Rightarrow> bytes res" where
  "a2b_loop quad left pads [] = (if quad = 0 then Inr [] else Inl ValueError)"
| "a2b_loop quad left pads (c # cs) =
     (if c = PAD then
        (if quad \<ge> 2 \<and> quad + (pads + 1) \<ge> 4 then Inr []
         else a2b_loop quad left (if quad \<ge> 2 then pads + 1 else pads) cs)
      else case b64_value c of
             None \<Rightarrow> a2b_loop quad left pads cs
           | Some v \<Rightarrow>
               if quad = 0 then a2b_loop 1 v 0 cs
               else if quad = 1 then res_bind (a2b_loop 2 (v mod 16) 0 cs) (\<lambda>bs. Inr (of_nat (left * 4 + v div 16) # bs))
               else if quad = 2 then res_bind (a2b_loop 3 (v mod 4) 0 cs) (\<lambda>bs. Inr (of_nat (left * 16 + v div 4) # bs))
               else res_bind (a2b_loop 0 0 0 cs) (\<lambda>bs. Inr (of_nat (left * 64 + v) # bs)))"

text \<open>A \<open>str\<close> argument must be ASCII.\<close>

definition a2b_base64 :: "string \<Rightarrow> bytes res" where
  "a2b_base64 s = (if \<forall>c \<in> set s. (of_char c :: nat) < 128 then a2b_loop 0 0 0 s else Inl ValueError)"

definition from_urlsafe :: "char \<Rightarrow> char" where
  "from_urlsafe c = (if c = CHR ''-'' then CHR ''+'' else if c = CHR ''_'' then CHR ''/'' else c)"

definition urlsafe_b64decode :: "string \<Rightarrow> bytes res" where
  "urlsafe_b64decode s = a2b_base64 (map from_urlsafe s)"

text \<open>\<open>"=" * (-len(s) % 4)\<close>\<close>

definition padding_for :: "string \<Rightarrow> string" where
  "padding_for s = replicate ((4 - length s mod 4) mod 4) PAD"

definition b64u_decode :: "string \<Rightarrow> bytes res" where
  "b64u_decode s = urlsafe_b64decode (s @ padding_for s)"

text \<open>\<open>b64decode(s, validate=True)\<close>: only characters of the alphabet, then at most two pads.\<close>

definition b64_valid :: "string \<Rightarrow> bool" where
  "b64_valid s = (let rest = dropWhile (\<lambda>c. b64_value c \<noteq> None) s in length rest \<le> 2 \<and> (\<forall>c \<in> set rest. c = PAD))"

definition b64decode_strict :: "string \<Rightarrow> bytes res" where
  "b64decode_strict s =
     (if \<not> (\<forall>c \<in> set s. (of_char c :: nat) < 128) \<or> \<not> b64_valid s then Inl ValueError else a2b_base64 s)"

definition from_base64url :: "string \<Rightarrow> bytes res" where
  "from_base64url value = (let padded = map from_urlsafe value in b64decode_strict (padded @ padding_for padded))"

section \<open>Encoding\<close>

fun b64encode :: "bytes \<Rightarrow> string" where
  "b64encode [] = []"
| "b64encode [a] = [b64_char (unat a div 4), b64_char (unat a mod 4 * 16), PAD, PAD]"
| "b64encode [a, b] =
     [b64_char (unat a div 4), b64_char (unat a mod 4 * 16 + unat b div 16), b64_char (unat b mod 16 * 4), PAD]"
| "b64encode (a # b # c # bs) =
     b64_char (unat a div 4) # b64_char (unat a mod 4 * 16 + unat b div 16)
     # b64_char (unat b mod 16 * 4 + unat c div 64) # b64_char (unat c mod 64) # b64encode bs"

definition to_urlsafe :: "char \<Rightarrow> char" where
  "to_urlsafe c = (if c = CHR ''+'' then CHR ''-'' else if c = CHR ''/'' then CHR ''_'' else c)"

definition b64u_encode :: "bytes \<Rightarrow> string" where
  "b64u_encode bs = rev (dropWhile (\<lambda>c. c = PAD) (rev (map to_urlsafe (b64encode bs))))"

section \<open>Lemmas\<close>

lemma char_code: "c = d \<longleftrightarrow> (of_char c :: nat) = of_char d"
  by (simp add: of_char_eq_iff)

lemma of_b64_char:
  "(of_char (b64_char v) :: nat) =
     (if v < 26 then 65 + v else if v < 52 then 71 + v else if v < 62 then v - 4 else if v = 62 then 43 else 47)"
  by (simp add: b64_char_def)

lemma b64_char_simps [simp]:
  assumes "v < 64"
  shows "b64_value (b64_char v) = Some v" "b64_char v \<noteq> PAD" "from_urlsafe (to_urlsafe (b64_char v)) = b64_char v"
    "to_urlsafe (b64_char v) \<noteq> PAD" "(of_char (b64_char v) :: nat) < 128"
proof -
  have "v = 63" if "\<not> v < 26" "\<not> v < 52" "\<not> v < 62" "v \<noteq> 62" using assms that by simp
  then show "b64_value (b64_char v) = Some v"
    unfolding b64_value_def of_b64_char Let_def using assms by (cases "v < 26"; cases "v < 52"; cases "v < 62"; cases "v = 62") auto
  show "b64_char v \<noteq> PAD" "(of_char (b64_char v) :: nat) < 128"
    unfolding char_code of_b64_char PAD_def using assms by auto
  show "from_urlsafe (to_urlsafe (b64_char v)) = b64_char v" "to_urlsafe (b64_char v) \<noteq> PAD"
    unfolding to_urlsafe_def from_urlsafe_def PAD_def char_code of_b64_char using assms by (auto simp: char_code of_b64_char)
qed

lemma urlsafe_PAD [simp]: "to_urlsafe PAD = PAD" "from_urlsafe PAD = PAD" "(of_char PAD :: nat) < 128"
  by (simp_all add: to_urlsafe_def from_urlsafe_def PAD_def)

lemma byte_parts [simp]:
  fixes a b :: "8 word"
  shows "unat a div 4 < 64" "unat a mod 4 * 16 + unat b div 16 < 64" "unat a mod 4 * 16 < 64" "unat a mod 16 * 4 < 64"
    "unat a mod 16 * 4 + unat b div 64 < 64" "unat a mod 64 < 64"
  using byte_bound [of a] byte_bound [of b] by (auto simp: less_mult_imp_div_less)

text \<open>What a quartet decodes to.\<close>

lemma a2b_chars:
  "v < 64 \<Longrightarrow> a2b_loop 0 l p (b64_char v # cs) = a2b_loop 1 v 0 cs"
  "v < 64 \<Longrightarrow> a2b_loop (Suc 0) l p (b64_char v # cs) = res_bind (a2b_loop 2 (v mod 16) 0 cs) (\<lambda>bs. Inr (of_nat (l * 4 + v div 16) # bs))"
  "v < 64 \<Longrightarrow> a2b_loop 2 l p (b64_char v # cs) = res_bind (a2b_loop 3 (v mod 4) 0 cs) (\<lambda>bs. Inr (of_nat (l * 16 + v div 4) # bs))"
  "v < 64 \<Longrightarrow> a2b_loop 3 l p (b64_char v # cs) = res_bind (a2b_loop 0 0 0 cs) (\<lambda>bs. Inr (of_nat (l * 64 + v) # bs))"
  by simp_all

lemma a2b_pads: "a2b_loop 2 l 0 [PAD, PAD] = Inr []" "a2b_loop 3 l p (PAD # cs) = Inr []"
  by simp_all

lemma byte_joins:
  fixes a b c :: "8 word"
  shows "unat a div 4 * 4 + (unat a mod 4 * 16 + unat b div 16) div 16 = unat a"
    "(unat a mod 4 * 16 + unat b div 16) mod 16 * 16 + (unat b mod 16 * 4 + unat c div 64) div 4 = unat b"
    "(unat b mod 16 * 4 + unat c div 64) mod 4 * 64 + unat c mod 64 = unat c"
    "unat a div 4 * 4 + unat a mod 4 * 16 div 16 = unat a"
    "(unat a mod 4 * 16 + unat b div 16) mod 16 * 16 + unat b mod 16 * 4 div 4 = unat b"
  using byte_bound [of a] byte_bound [of b] byte_bound [of c] by auto

lemma byte_divs [simp]:
  fixes b :: "8 word"
  shows "unat b div 16 div 16 = 0" "unat b div 16 mod 16 * 16 + unat b mod 16 = unat b"
    "unat b div 64 div 4 = 0" "unat b div 64 mod 4 * 64 + unat b mod 64 = unat b"
  using byte_bound [of b] by auto

lemma a2b_encode: "a2b_loop 0 l p (b64encode bs) = Inr bs"
proof (induction bs arbitrary: l p rule: b64encode.induct)
  case (2 a)
  then show ?case by (simp add: a2b_chars a2b_pads byte_joins del: a2b_loop.simps of_nat_add of_nat_mult)
next
  case (3 a b)
  then show ?case by (simp add: a2b_chars a2b_pads byte_joins del: a2b_loop.simps of_nat_add of_nat_mult)
next
  case (4 a b c bs)
  then show ?case by (simp add: a2b_chars byte_joins del: a2b_loop.simps of_nat_add of_nat_mult)
qed simp

lemma b64encode_shape:
  "\<exists>body k. b64encode bs = body @ replicate k PAD \<and> k \<le> 2 \<and> (length body + k) mod 4 = 0 \<and> (\<forall>c \<in> set body. \<exists>v < 64. c = b64_char v)"
proof (induction bs rule: b64encode.induct)
  case 1
  show ?case by (intro exI [of _ "[]"] exI [of _ 0]) simp
next
  case (2 a)
  have "b64encode [a] = [b64_char (unat a div 4), b64_char (unat a mod 4 * 16)] @ replicate 2 PAD" by (simp add: numeral_2_eq_2)
  moreover have "\<forall>c \<in> set [b64_char (unat a div 4), b64_char (unat a mod 4 * 16)]. \<exists>v < 64. c = b64_char v"
    by (auto intro: byte_parts)
  moreover have "(length [b64_char (unat a div 4), b64_char (unat a mod 4 * 16)] + 2) mod 4 = 0" by simp
  ultimately show ?case by (metis order_refl)
next
  case (3 a b)
  show ?case
    by (intro exI [of _ "[b64_char (unat a div 4), b64_char (unat a mod 4 * 16 + unat b div 16), b64_char (unat b mod 16 * 4)]"] exI [of _ 1])
      (auto intro!: byte_parts)
next
  case (4 a b c bs)
  then obtain body k where bk: "b64encode bs = body @ replicate k PAD" "k \<le> 2" "(length body + k) mod 4 = 0"
    "\<forall>c \<in> set body. \<exists>v < 64. c = b64_char v" by metis
  let ?h = "[b64_char (unat a div 4), b64_char (unat a mod 4 * 16 + unat b div 16), b64_char (unat b mod 16 * 4 + unat c div 64), b64_char (unat c mod 64)]"
  have "\<forall>c \<in> set ?h. \<exists>v < 64. c = b64_char v" by (auto intro: byte_parts)
  moreover have "(length (?h @ body) + k) mod 4 = 0" using bk(3) by simp
  ultimately show ?case
    using bk by (intro exI [of _ "?h @ body"] exI [of _ k]) auto
qed

lemma pad_arith:
  fixes n k :: nat
  assumes "k \<le> 2" "(n + k) mod 4 = 0"
  shows "(4 - n mod 4) mod 4 = k"
proof -
  have "k = 0 \<and> n mod 4 = 0 \<or> k = 1 \<and> n mod 4 = 3 \<or> k = 2 \<and> n mod 4 = 2"
    using assms by presburger
  then show ?thesis by auto
qed

lemma b64u_padded: "b64u_encode bs @ padding_for (b64u_encode bs) = map to_urlsafe (b64encode bs)"
proof -
  obtain body k where bk: "b64encode bs = body @ replicate k PAD" "k \<le> 2" "(length body + k) mod 4 = 0"
    "\<forall>c \<in> set body. \<exists>v < 64. c = b64_char v"
    using b64encode_shape [of bs] by metis
  have nopad: "\<forall>c \<in> set (map to_urlsafe body). c \<noteq> PAD" using bk(4) by auto
  have "dropWhile (\<lambda>c. c = PAD) (replicate k PAD @ ys) = ys" if "\<forall>c \<in> set ys. c \<noteq> PAD" for ys
    using that by (cases ys) (auto simp: dropWhile_append)
  then have "dropWhile (\<lambda>c. c = PAD) (replicate k PAD @ rev (map to_urlsafe body)) = rev (map to_urlsafe body)"
    using nopad by simp
  then have e: "b64u_encode bs = map to_urlsafe body"
    using bk(1) by (simp add: b64u_encode_def map_replicate_const rev_map)
  have "(4 - length body mod 4) mod 4 = k" using bk(2,3) by (rule pad_arith)
  then show ?thesis using e bk(1) by (simp add: padding_for_def map_replicate_const)
qed

lemma b64u_roundtrip: "b64u_decode (b64u_encode bs) = Inr bs"
proof -
  obtain body k where bk: "b64encode bs = body @ replicate k PAD" "\<forall>c \<in> set body. \<exists>v < 64. c = b64_char v"
    using b64encode_shape by blast
  have "map from_urlsafe (map to_urlsafe (b64encode bs)) = b64encode bs"
    using bk by (auto simp: map_replicate_const intro!: map_idI)
  moreover have "\<forall>c \<in> set (b64encode bs). (of_char c :: nat) < 128" using bk by auto
  ultimately show ?thesis
    unfolding b64u_decode_def b64u_padded urlsafe_b64decode_def a2b_base64_def by (simp add: a2b_encode)
qed

lemma b64encode_valid: "b64_valid (b64encode bs)"
proof -
  obtain body k where bk: "b64encode bs = body @ replicate k PAD" "k \<le> 2" "\<forall>c \<in> set body. \<exists>v < 64. c = b64_char v"
    using b64encode_shape by metis
  have "b64_value PAD = None" by (simp add: b64_value_def PAD_def)
  then have "dropWhile (\<lambda>c. b64_value c \<noteq> None) (replicate k PAD) = replicate k PAD" by (cases k) simp_all
  moreover have "\<forall>c \<in> set body. b64_value c \<noteq> None" using bk(3) by fastforce
  ultimately have "dropWhile (\<lambda>c. b64_value c \<noteq> None) (b64encode bs) = replicate k PAD"
    using bk(1) by (simp add: dropWhile_append)
  then show ?thesis using bk(2) by (simp add: b64_valid_def)
qed

lemma from_base64url_roundtrip: "from_base64url (b64u_encode bs) = Inr bs"
proof -
  obtain body k where bk: "b64encode bs = body @ replicate k PAD" "\<forall>c \<in> set body. \<exists>v < 64. c = b64_char v"
    using b64encode_shape by blast
  have "map from_urlsafe (b64u_encode bs) @ padding_for (map from_urlsafe (b64u_encode bs))
      = map from_urlsafe (b64u_encode bs @ padding_for (b64u_encode bs))"
    by (simp add: padding_for_def map_replicate_const)
  also have "\<dots> = b64encode bs"
    unfolding b64u_padded using bk by (auto simp: map_replicate_const intro!: map_idI)
  finally have "map from_urlsafe (b64u_encode bs) @ padding_for (map from_urlsafe (b64u_encode bs)) = b64encode bs" .
  moreover have "\<forall>c \<in> set (b64encode bs). (of_char c :: nat) < 128" using bk by auto
  ultimately show ?thesis
    unfolding from_base64url_def Let_def by (simp add: b64decode_strict_def b64encode_valid a2b_base64_def a2b_encode)
qed

end
