(* ===== verification/NipX509.thy ===== *)
theory NipX509
  imports NipCa Base64
begin

text \<open>
  X.509 evidence of an identity: the chain verifier \<open>nps_sdk/nip/x509/verifier.py\<close>, and the Phase-3
  checks with their DER reader, \<open>nps_sdk/nip/phase3.py\<close>.

  A certificate is what the code reads of a \<open>cryptography\<close> certificate object. Loading a certificate from
  DER, Ed25519 verification and \<open>strptime\<close> are functions of an \<open>x509_lib\<close>. A reader of DER is the list of
  bytes that are still to be read. Code points of a decoded UTF-8 text are natural numbers.
\<close>

section \<open>The DER reader\<close>

definition TAG_SEQUENCE :: byte where "TAG_SEQUENCE = 0x30"
definition TAG_OCTET_STRING :: byte where "TAG_OCTET_STRING = 0x04"
definition TAG_OID :: byte where "TAG_OID = 0x06"
definition TAG_ENUMERATED :: byte where "TAG_ENUMERATED = 0x0A"
definition TAG_UTF8_STRING :: byte where "TAG_UTF8_STRING = 0x0C"
definition TAG_GENERALIZED_TIME :: byte where "TAG_GENERALIZED_TIME = 0x18"

text \<open>\<open>_CLASS_CONTEXT | 0x20 | 0\<close>\<close>

definition CONTEXT_0 :: byte where "CONTEXT_0 = 0xA0"

definition has_data :: "bytes \<Rightarrow> bool" where
  "has_data r = (r \<noteq> [])"

definition peek_tag :: "bytes \<Rightarrow> byte res" where
  "peek_tag r = (case r of [] \<Rightarrow> Inl DerParseError | b # _ \<Rightarrow> Inr b)"

definition from_bytes_big :: "bytes \<Rightarrow> nat" where
  "from_bytes_big bs = foldl (\<lambda>acc b. acc * 256 + unat b) 0 bs"

definition read_length :: "bytes \<Rightarrow> (nat \<times> bytes) res" where
  "read_length r =
     (case r of
        [] \<Rightarrow> Inl IndexError
      | b # rest \<Rightarrow>
          let n = unat b in
          if n < 128 then Inr (n, rest)
          else let count = n mod 128 in
               if count = 0 \<or> count > 4 then Inl DerParseError
               else if length rest < count then Inl DerParseError
               else Inr (from_bytes_big (take count rest), drop count rest))"

text \<open>The tag, the content, and what is left.\<close>

definition read_tlv :: "byte option \<Rightarrow> bytes \<Rightarrow> (byte \<times> bytes \<times> bytes) res" where
  "read_tlv expected r =
     (if length r < 2 then Inl DerParseError
      else if expected \<noteq> None \<and> expected \<noteq> Some (hd r) then Inl DerParseError
      else res_bind (read_length (tl r)) (\<lambda>(len, rest).
        if len > length rest then Inl DerParseError
        else Inr (hd r, take len rest, drop len rest)))"

definition read_content :: "byte \<Rightarrow> bytes \<Rightarrow> (bytes \<times> bytes) res" where
  "read_content tag r = res_bind (read_tlv (Some tag) r) (\<lambda>(_, content, rest). Inr (content, rest))"

definition read_sequence :: "byte \<Rightarrow> bytes \<Rightarrow> (bytes \<times> bytes) res" where
  "read_sequence tag r = read_content tag r"

definition read_encoded_value :: "bytes \<Rightarrow> (bytes \<times> bytes) res" where
  "read_encoded_value r = res_bind (read_tlv None r) (\<lambda>(_, content, rest). Inr (content, rest))"

text \<open>\<open>bytes.decode("utf-8")\<close>, strict: no overlong forms, surrogates or values above \<open>0x10FFFF\<close>.\<close>

definition continuation :: "byte \<Rightarrow> bool" where
  "continuation b = (unat b div 64 = 2)"

fun utf8_decode :: "bytes \<Rightarrow> nat list res" where
  "utf8_decode [] = Inr []"
| "utf8_decode (b # bs) =
     (let n = unat b; more = (\<lambda>cp rest. res_bind rest (\<lambda>cps. Inr (cp # cps))) in
      if n < 128 then more n (utf8_decode bs)
      else if 194 \<le> n \<and> n \<le> 223 then
        (case bs of
           c # _ \<Rightarrow> if continuation c then more ((n - 192) * 64 + unat c mod 64) (utf8_decode (drop 1 bs)) else Inl UnicodeDecodeError
         | _ \<Rightarrow> Inl UnicodeDecodeError)
      else if 224 \<le> n \<and> n \<le> 239 then
        (case bs of
           c # d # _ \<Rightarrow>
             let cp = (n - 224) * 4096 + unat c mod 64 * 64 + unat d mod 64 in
             if continuation c \<and> continuation d \<and> cp \<ge> 2048 \<and> \<not> (55296 \<le> cp \<and> cp \<le> 57343)
             then more cp (utf8_decode (drop 2 bs)) else Inl UnicodeDecodeError
         | _ \<Rightarrow> Inl UnicodeDecodeError)
      else if 240 \<le> n \<and> n \<le> 244 then
        (case bs of
           c # d # e # _ \<Rightarrow>
             let cp = (n - 240) * 262144 + unat c mod 64 * 4096 + unat d mod 64 * 64 + unat e mod 64 in
             if continuation c \<and> continuation d \<and> continuation e \<and> 65536 \<le> cp \<and> cp \<le> 1114111
             then more cp (utf8_decode (drop 3 bs)) else Inl UnicodeDecodeError
         | _ \<Rightarrow> Inl UnicodeDecodeError)
      else Inl UnicodeDecodeError)"

definition read_utf8_string :: "bytes \<Rightarrow> (nat list \<times> bytes) res" where
  "read_utf8_string r = res_bind (read_content TAG_UTF8_STRING r) (\<lambda>(content, rest). res_bind (utf8_decode content) (\<lambda>t. Inr (t, rest)))"

text \<open>Reading consumes: what is left is a proper suffix.\<close>

lemma read_length_exact:
  assumes "read_length r = Inr (n, rest)"
  shows "\<exists>hdr. r = hdr @ rest \<and> 1 \<le> length hdr \<and> length hdr \<le> 5"
proof (cases r)
  case (Cons b bs)
  show ?thesis
  proof (cases "unat b < 128")
    case True
    then show ?thesis using assms Cons by (intro exI [of _ "[b]"]) (auto simp: read_length_def Let_def)
  next
    case False
    then have "rest = drop (unat b mod 128) bs" "unat b mod 128 \<le> 4" "unat b mod 128 \<le> length bs"
      using assms Cons by (auto simp: read_length_def Let_def split: if_splits)
    then show ?thesis using Cons by (intro exI [of _ "b # take (unat b mod 128) bs"]) auto
  qed
qed (use assms in \<open>simp add: read_length_def\<close>)

lemma read_tlv_exact:
  assumes "read_tlv expected r = Inr (tag, content, rest)"
  shows "\<exists>hdr. r = hdr @ content @ rest \<and> 2 \<le> length hdr \<and> length hdr \<le> 6 \<and> hd hdr = tag"
proof -
  obtain len rest' where l: "read_length (tl r) = Inr (len, rest')" and c: "content = take len rest'" "rest = drop len rest'"
    and r: "\<not> length r < 2" "tag = hd r"
    using assms by (auto simp: read_tlv_def res_bind_eq_Inr split: if_splits)
  obtain hdr where "tl r = hdr @ rest'" "1 \<le> length hdr" "length hdr \<le> 5" using read_length_exact [OF l] by blast
  then show ?thesis using c r by (intro exI [of _ "hd r # hdr"]) (cases r; simp)
qed

lemma read_content_shorter: "read_content tag r = Inr (content, rest) \<Longrightarrow> length rest < length r"
  using read_tlv_exact [of "Some tag" r tag content rest] read_tlv_exact [of "Some tag" r _ content rest]
  by (force simp: read_content_def res_bind_eq_Inr)

section \<open>Libraries and certificates\<close>

datatype ext_kind = EkuExt "string list" | SanExt "string list" | Unrecognized | OtherExt

record x509_ext =
  xe_oid :: string
  xe_critical :: bool
  xe_bytes :: bytes
  xe_kind :: ext_kind

text \<open>
  \<open>xc_public_key\<close> is the raw key when it is an Ed25519 key. \<open>xc_extensions\<close> is an error when the
  library cannot parse the extensions.
\<close>

record x509_cert =
  xc_der :: bytes
  xc_common_names :: "string list"
  xc_extensions :: "x509_ext list res"
  xc_public_key :: "bytes option"
  xc_signature :: bytes
  xc_tbs :: bytes

text \<open>
  \<open>x5_load\<close> is \<open>load_der_x509_certificate\<close>, \<open>x5_verify\<close> Ed25519 verification (key, signature, message),
  \<open>x5_strptime\<close> reads \<open>%Y%m%d%H%M%S\<close>, with a fraction when the flag is set, as microseconds of UTC.
\<close>

record x509_lib =
  x5_load :: "bytes \<Rightarrow> x509_cert option"
  x5_verify :: "bytes \<Rightarrow> bytes \<Rightarrow> bytes \<Rightarrow> bool"
  x5_strptime :: "bool \<Rightarrow> string \<Rightarrow> int option"

definition EKU_AGENT_IDENTITY :: string where "EKU_AGENT_IDENTITY = ''1.3.6.1.4.1.65715.1.1''"
definition EKU_NODE_IDENTITY :: string where "EKU_NODE_IDENTITY = ''1.3.6.1.4.1.65715.1.2''"
definition NID_ASSURANCE_LEVEL :: string where "NID_ASSURANCE_LEVEL = ''1.3.6.1.4.1.65715.2.1''"
definition ID_NPS_NODE_ROLES :: string where "ID_NPS_NODE_ROLES = ''1.3.6.1.4.1.65715.2.2''"
definition ID_NPS_CAPABILITIES :: string where "ID_NPS_CAPABILITIES = ''1.3.6.1.4.1.65715.2.3''"

definition CERT_EKU_MISSING :: string where "CERT_EKU_MISSING = ''NIP-CERT-EKU-MISSING''"
definition CERT_SUBJECT_NID_MISMATCH :: string where "CERT_SUBJECT_NID_MISMATCH = ''NIP-CERT-SUBJECT-NID-MISMATCH''"
definition ASSURANCE_MISMATCH :: string where "ASSURANCE_MISMATCH = ''NIP-ASSURANCE-MISMATCH''"
definition ASSURANCE_UNKNOWN :: string where "ASSURANCE_UNKNOWN = ''NIP-ASSURANCE-UNKNOWN''"
definition CERT_NODE_ROLES_MISMATCH :: string where "CERT_NODE_ROLES_MISMATCH = ''NIP-CERT-NODE-ROLES-MISMATCH''"
definition CERT_CAPABILITIES_EXCEEDED :: string where "CERT_CAPABILITIES_EXCEEDED = ''NIP-CERT-CAPABILITIES-EXCEEDED''"
definition OCSP_STAPLE_EXPIRED :: string where "OCSP_STAPLE_EXPIRED = ''NIP-OCSP-STAPLE-EXPIRED''"

section \<open>The chain verifier\<close>

datatype x509_result = X509Ok x509_cert | X509Fail string

definition eku_of :: "x509_ext \<Rightarrow> string list option" where
  "eku_of e = (case xe_kind e of EkuExt oids \<Rightarrow> Some oids | _ \<Rightarrow> None)"

definition san_of :: "x509_ext \<Rightarrow> string list option" where
  "san_of e = (case xe_kind e of SanExt uris \<Rightarrow> Some uris | _ \<Rightarrow> None)"

definition check_leaf_eku :: "x509_cert \<Rightarrow> x509_result res" where
  "check_leaf_eku leaf =
     res_bind (xc_extensions leaf) (\<lambda>exts.
       case find (\<lambda>e. eku_of e \<noteq> None) exts of
         None \<Rightarrow> Inr (X509Fail CERT_EKU_MISSING)
       | Some e \<Rightarrow>
           if \<not> xe_critical e then Inr (X509Fail CERT_EKU_MISSING)
           else if EKU_AGENT_IDENTITY \<notin> set (the (eku_of e)) \<and> EKU_NODE_IDENTITY \<notin> set (the (eku_of e))
           then Inr (X509Fail CERT_EKU_MISSING) else Inr (X509Ok leaf))"

definition check_subject_nid :: "x509_cert \<Rightarrow> pyval \<Rightarrow> x509_result res" where
  "check_subject_nid leaf asserted =
     (let cn = (case xc_common_names leaf of [] \<Rightarrow> PNone | n # _ \<Rightarrow> PStr n) in
      if \<not> py_eq cn asserted then Inr (X509Fail CERT_SUBJECT_NID_MISMATCH)
      else res_bind (xc_extensions leaf) (\<lambda>exts.
        case find (\<lambda>e. san_of e \<noteq> None) exts of
          None \<Rightarrow> Inr (X509Fail CERT_SUBJECT_NID_MISMATCH)
        | Some e \<Rightarrow>
            if asserted \<notin> PStr ` set (the (san_of e)) then Inr (X509Fail CERT_SUBJECT_NID_MISMATCH)
            else Inr (X509Ok leaf)))"

definition check_assurance_level :: "x509_cert \<Rightarrow> assurance_level option \<Rightarrow> x509_result res" where
  "check_assurance_level leaf asserted =
     (case asserted of
        None \<Rightarrow> Inr (X509Ok leaf)
      | Some level \<Rightarrow>
          res_bind (xc_extensions leaf) (\<lambda>exts.
            case find (\<lambda>e. xe_oid e = NID_ASSURANCE_LEVEL) exts of
              None \<Rightarrow> Inr (X509Ok leaf)
            | Some e \<Rightarrow>
                if xe_kind e \<noteq> Unrecognized then Inr (X509Fail CERT_FORMAT_INVALID)
                else if length (xe_bytes e) \<noteq> 3 \<or> xe_bytes e ! 0 \<noteq> 0x0A \<or> xe_bytes e ! 1 \<noteq> 0x01
                then Inr (X509Fail CERT_FORMAT_INVALID)
                else (case assurance_from_rank (int (unat (xe_bytes e ! 2))) of
                        Inl _ \<Rightarrow> Inr (X509Fail ASSURANCE_UNKNOWN)
                      | Inr found \<Rightarrow> Inr (if found \<noteq> level then X509Fail ASSURANCE_MISMATCH else X509Ok leaf))))"

definition verify_signed_by :: "x509_lib \<Rightarrow> x509_cert \<Rightarrow> bytes option \<Rightarrow> bool" where
  "verify_signed_by L child parent_pub =
     (case parent_pub of None \<Rightarrow> False | Some k \<Rightarrow> x5_verify L k (xc_signature child) (xc_tbs child))"

fun links_signed :: "x509_lib \<Rightarrow> x509_cert list \<Rightarrow> bool" where
  "links_signed L (a # b # cs) = (verify_signed_by L a (xc_public_key b) \<and> links_signed L (b # cs))"
| "links_signed L cs = True"

definition anchored :: "x509_lib \<Rightarrow> x509_cert \<Rightarrow> x509_cert \<Rightarrow> bool" where
  "anchored L c anchor = (xc_der c = xc_der anchor \<or> verify_signed_by L c (xc_public_key anchor))"

definition check_chain_signature :: "x509_lib \<Rightarrow> x509_cert list \<Rightarrow> x509_cert list \<Rightarrow> x509_result" where
  "check_chain_signature L chain roots =
     (if roots = [] then X509Fail CERT_FORMAT_INVALID
      else if \<not> links_signed L chain then X509Fail CERT_FORMAT_INVALID
      else if \<exists>a \<in> set roots. anchored L (last chain) a then X509Ok (hd chain)
      else X509Fail CERT_FORMAT_INVALID)"

definition load_entry :: "x509_lib \<Rightarrow> pyval \<Rightarrow> x509_cert option" where
  "load_entry L entry =
     (case entry of
        PStr s \<Rightarrow> (case b64u_decode s of Inl _ \<Rightarrow> None | Inr der \<Rightarrow> x5_load L der)
      | _ \<Rightarrow> None)"

definition stage :: "x509_result res \<Rightarrow> x509_result res \<Rightarrow> x509_result res" where
  "stage first next = res_bind first (\<lambda>r. case r of X509Ok _ \<Rightarrow> next | X509Fail code \<Rightarrow> Inr (X509Fail code))"

definition x509_verify ::
  "x509_lib \<Rightarrow> pyval list \<Rightarrow> pyval \<Rightarrow> assurance_level option \<Rightarrow> x509_cert list \<Rightarrow> x509_result res" where
  "x509_verify L entries asserted_nid asserted_level roots =
     (if entries = [] then Inr (X509Fail CERT_FORMAT_INVALID)
      else let loaded = map (load_entry L) entries in
        if None \<in> set loaded then Inr (X509Fail CERT_FORMAT_INVALID)
        else let chain = map the loaded; leaf = hd chain in
          stage (check_leaf_eku leaf)
          (stage (check_subject_nid leaf asserted_nid)
          (stage (check_assurance_level leaf asserted_level)
          (stage (Inr (check_chain_signature L chain roots)) (Inr (X509Ok leaf))))))"

section \<open>Phase 3\<close>

text \<open>A verification result: valid, or the failing step with its error code.\<close>

datatype verdict = Accept | Reject nat string

definition parse_generalized_time :: "x509_lib \<Rightarrow> string \<Rightarrow> int res" where
  "parse_generalized_time L raw =
     (let t = py_strip raw in
      if t = [] \<or> last t \<noteq> CHR ''Z'' then Inl DerParseError
      else of_option DerParseError (x5_strptime L (CHR ''.'' \<in> set (butlast t)) (butlast t)))"

definition read_generalized_time :: "x509_lib \<Rightarrow> bytes \<Rightarrow> (int \<times> bytes) res" where
  "read_generalized_time L r =
     res_bind (read_content TAG_GENERALIZED_TIME r) (\<lambda>(content, rest).
       if \<exists>b \<in> set content. unat b \<ge> 128 then Inl UnicodeDecodeError
       else res_bind (parse_generalized_time L (map (\<lambda>b. char_of (unat b)) content)) (\<lambda>t. Inr (t, rest)))"

lemma read_utf8_string_shorter: "read_utf8_string r = Inr (v, rest) \<Longrightarrow> length rest < length r"
  using read_content_shorter by (auto simp: read_utf8_string_def res_bind_eq_Inr)

function read_utf8_strings :: "bytes \<Rightarrow> nat list list res" where
  "read_utf8_strings r =
     (if \<not> has_data r then Inr []
      else case read_utf8_string r of
             Inl e \<Rightarrow> Inl e
           | Inr (v, rest) \<Rightarrow> res_bind (read_utf8_strings rest) (\<lambda>vs. Inr (v # vs)))"
  by pat_completeness auto
termination
  by (relation "measure length") (auto dest: read_utf8_string_shorter)

declare read_utf8_strings.simps [simp del]

text \<open>Absent is \<open>None\<close>; malformed is the empty list.\<close>

definition read_utf8_sequence_extension :: "x509_cert \<Rightarrow> string \<Rightarrow> nat list list option res" where
  "read_utf8_sequence_extension cert oid =
     res_bind (xc_extensions cert) (\<lambda>exts.
       case find (\<lambda>e. xe_oid e = oid) exts of
         None \<Rightarrow> Inr None
       | Some e \<Rightarrow>
           Inr (Some (case res_bind (read_sequence TAG_SEQUENCE (xe_bytes e)) (\<lambda>(content, _). read_utf8_strings content) of
                        Inl _ \<Rightarrow> [] | Inr values \<Rightarrow> values)))"

text \<open>The walk to the first \<open>SingleResponse.nextUpdate\<close>; every malformation is \<open>None\<close>.\<close>

definition read_single :: "x509_lib \<Rightarrow> bytes \<Rightarrow> int option res" where
  "read_single L single =
     res_bind (read_sequence TAG_SEQUENCE single) (\<lambda>(_, single).
     res_bind (read_encoded_value single) (\<lambda>(_, single).
     res_bind (read_generalized_time L single) (\<lambda>(_, single).
       if \<not> has_data single then Inr None
       else res_bind (peek_tag single) (\<lambda>tag.
         if tag \<noteq> CONTEXT_0 then Inr None
         else res_bind (read_sequence CONTEXT_0 single) (\<lambda>(content, _).
              res_bind (read_generalized_time L content) (\<lambda>(t, _). Inr (Some t)))))))"

definition skip_version :: "bytes \<Rightarrow> bytes res" where
  "skip_version tbs =
     res_bind (peek_tag tbs) (\<lambda>tag.
       if tag = CONTEXT_0 then res_bind (read_tlv None tbs) (\<lambda>(_, _, rest). Inr rest) else Inr tbs)"

definition skip_responder :: "bytes \<Rightarrow> bytes res" where
  "skip_responder tbs =
     res_bind (peek_tag tbs) (\<lambda>tag.
       if unat tag div 64 = 2 then res_bind (read_encoded_value tbs) (\<lambda>(_, rest). Inr rest) else Inr tbs)"

definition read_response_data :: "x509_lib \<Rightarrow> bytes \<Rightarrow> int option res" where
  "read_response_data L tbs =
     res_bind (skip_version tbs) (\<lambda>tbs.
     res_bind (skip_responder tbs) (\<lambda>tbs.
     res_bind (read_generalized_time L tbs) (\<lambda>(_, tbs).
     res_bind (read_sequence TAG_SEQUENCE tbs) (\<lambda>(responses, _).
       if \<not> has_data responses then Inr None
       else res_bind (read_sequence TAG_SEQUENCE responses) (\<lambda>(single, _). read_single L single)))))"

definition ocsp_walk :: "x509_lib \<Rightarrow> bytes \<Rightarrow> int option res" where
  "ocsp_walk L der =
     res_bind (read_sequence TAG_SEQUENCE der) (\<lambda>(resp, _).
     res_bind (read_tlv (Some TAG_ENUMERATED) resp) (\<lambda>(_, _, resp).
       if \<not> has_data resp then Inr None
       else res_bind (read_sequence CONTEXT_0 resp) (\<lambda>(wrap, _).
            res_bind (read_sequence TAG_SEQUENCE wrap) (\<lambda>(resp_bytes, _).
            res_bind (read_tlv (Some TAG_OID) resp_bytes) (\<lambda>(_, _, resp_bytes).
            res_bind (read_content TAG_OCTET_STRING resp_bytes) (\<lambda>(basic_der, _).
            res_bind (read_sequence TAG_SEQUENCE basic_der) (\<lambda>(basic, _).
            res_bind (read_sequence TAG_SEQUENCE basic) (\<lambda>(tbs, _). read_response_data L tbs))))))))"

definition try_get_ocsp_next_update :: "x509_lib \<Rightarrow> bytes \<Rightarrow> int option" where
  "try_get_ocsp_next_update L der = (case ocsp_walk L der of Inl _ \<Rightarrow> None | Inr t \<Rightarrow> t)"

text \<open>\<open>_excess\<close>: the claims that are not attested, each once, in order.\<close>

definition attested :: "nat list list \<Rightarrow> pyval \<Rightarrow> bool" where
  "attested texts v = (case v of PStr s \<Rightarrow> map of_char s \<in> set texts | _ \<Rightarrow> False)"

fun excess_loop :: "nat list list \<Rightarrow> pyval list \<Rightarrow> pyval list \<Rightarrow> pyval list res" where
  "excess_loop texts seen [] = Inr []"
| "excess_loop texts seen (v # vs) =
     (if \<not> py_hashable v then Inl TypeError
      else if \<not> attested texts v \<and> \<not> list_ex (py_eq v) seen
      then res_bind (excess_loop texts (v # seen) vs) (\<lambda>out. Inr (v # out))
      else excess_loop texts seen vs)"

definition excess :: "pyval list \<Rightarrow> nat list list \<Rightarrow> pyval list res" where
  "excess claimed texts = excess_loop texts [] claimed"

definition is_str :: "pyval \<Rightarrow> bool" where
  "is_str v = (case v of PStr _ \<Rightarrow> True | _ \<Rightarrow> False)"

text \<open>The error message joins the excess claims, which raises when one is not a string.\<close>

definition subset_check :: "x509_cert \<Rightarrow> string \<Rightarrow> pyval list \<Rightarrow> string \<Rightarrow> verdict res" where
  "subset_check leaf oid claimed code =
     res_bind (read_utf8_sequence_extension leaf oid) (\<lambda>ext.
       case ext of
         None \<Rightarrow> Inr Accept
       | Some texts \<Rightarrow>
           res_bind (excess claimed texts) (\<lambda>out.
             if out = [] then Inr Accept
             else if list_all is_str out then Inr (Reject 3 code) else Inl TypeError))"

definition staple_check :: "x509_lib \<Rightarrow> pyval \<Rightarrow> int \<Rightarrow> verdict" where
  "staple_check L staple now =
     (case staple of
        PStr s \<Rightarrow>
          (case from_base64url s of
             Inl _ \<Rightarrow> Reject 3 OCSP_STAPLE_EXPIRED
           | Inr der \<Rightarrow>
               if s = [] then Reject 3 OCSP_STAPLE_EXPIRED
               else (case try_get_ocsp_next_update L der of
                  None \<Rightarrow> Reject 3 OCSP_STAPLE_EXPIRED
                | Some next \<Rightarrow> if next \<le> now then Reject 3 OCSP_STAPLE_EXPIRED else Accept))
      | _ \<Rightarrow> Reject 3 OCSP_STAPLE_EXPIRED)"

definition and_then :: "verdict res \<Rightarrow> verdict res \<Rightarrow> verdict res" where
  "and_then first next = res_bind first (\<lambda>v. case v of Accept \<Rightarrow> next | Reject k code \<Rightarrow> Inr (Reject k code))"

definition phase3_enforce :: "x509_lib \<Rightarrow> ident_frame \<Rightarrow> x509_cert \<Rightarrow> int \<Rightarrow> verdict res" where
  "phase3_enforce L frame leaf now =
     and_then (subset_check leaf ID_NPS_NODE_ROLES (case id_node_roles frame of None \<Rightarrow> [] | Some rs \<Rightarrow> rs) CERT_NODE_ROLES_MISMATCH)
     (and_then (subset_check leaf ID_NPS_CAPABILITIES (id_capabilities frame) CERT_CAPABILITIES_EXCEEDED)
       (Inr (staple_check L (id_ocsp_staple frame) now)))"

section \<open>Lemmas\<close>

subsection \<open>Encoding\<close>

text \<open>The DER encoder the reader is measured against: definite lengths in the short or the four-byte form.\<close>

definition der_length :: "nat \<Rightarrow> bytes" where
  "der_length n = (if n < 128 then [of_nat n] else 0x84 # be32 n)"

definition der :: "byte \<Rightarrow> bytes \<Rightarrow> bytes" where
  "der tag content = tag # der_length (length content) @ content"

lemma from_bytes_be32: "n \<le> 4294967295 \<Longrightarrow> from_bytes_big (be32 n) = n"
  using rd32_be32 [of n "[]" "[]"] by (simp add: from_bytes_big_def be32_def rd32_def)

lemma read_length_der: "n \<le> 4294967295 \<Longrightarrow> read_length (der_length n @ rest) = Inr (n, rest)"
  by (auto simp: der_length_def read_length_def Let_def from_bytes_be32 unat_of_nat_byte)

lemma read_tlv_der [simp]:
  assumes "length content \<le> 4294967295" "expected = None \<or> expected = Some tag"
  shows "read_tlv expected (der tag content @ rest) = Inr (tag, content, rest)"
proof -
  have "\<not> length (der tag content @ rest) < 2" by (simp add: der_def der_length_def)
  then show ?thesis using assms read_length_der [of "length content" "content @ rest"]
    unfolding read_tlv_def by (auto simp: der_def)
qed

lemma read_der [simp]:
  assumes "length content \<le> 4294967295"
  shows "read_content tag (der tag content @ rest) = Inr (content, rest)"
    "read_sequence tag (der tag content @ rest) = Inr (content, rest)"
    "read_encoded_value (der tag content @ rest) = Inr (content, rest)"
  using assms by (simp_all add: read_content_def read_sequence_def read_encoded_value_def)

lemma read_der_Nil [simp]:
  assumes "length content \<le> 4294967295"
  shows "read_content tag (der tag content) = Inr (content, [])"
    "read_sequence tag (der tag content) = Inr (content, [])"
    "read_encoded_value (der tag content) = Inr (content, [])"
  using read_der [OF assms, of tag "[]"] by simp_all

lemma der_has_data [simp]: "has_data (der tag content @ rest)" "peek_tag (der tag content @ rest) = Inr tag"
    "has_data (der tag content)" "peek_tag (der tag content) = Inr tag"
  by (simp_all add: has_data_def peek_tag_def der_def)

definition utf8_char :: "char \<Rightarrow> bytes" where
  "utf8_char c = (let n = of_char c in if n < 128 then [of_nat n] else [of_nat (192 + n div 64), of_nat (128 + n mod 64)])"

definition utf8_encode :: "string \<Rightarrow> bytes" where
  "utf8_encode s = concat (map utf8_char s)"

lemma utf8_char_decode:
  "utf8_decode (utf8_char c @ bs) = res_bind (utf8_decode bs) (\<lambda>cps. Inr (of_char c # cps))"
proof -
  have n: "(of_char c :: nat) < 256" by simp
  show ?thesis
  proof (cases "(of_char c :: nat) < 128")
    case True
    then show ?thesis by (simp add: utf8_char_def Let_def unat_of_nat_byte)
  next
    case False
    define n where "n = (of_char c :: nat)"
    have r: "128 \<le> n" "n < 256" using False n by (auto simp: n_def)
    then have d: "2 \<le> n div 64" "n div 64 \<le> 3" by auto
    have u: "unat (of_nat (192 + n div 64) :: byte) = 192 + n div 64" "unat (of_nat (128 + n mod 64) :: byte) = 128 + n mod 64"
      using d by (simp_all del: of_nat_add)
    have "(128 + n mod 64) div 64 = 2" "n div 64 * 64 + (128 + n mod 64) mod 64 = n"
      using mod_add_left_eq [of 128 64 "n mod 64"] by simp_all
    then show ?thesis
      using r d u False by (simp add: utf8_char_def Let_def n_def [symmetric] continuation_def)
  qed
qed

lemma utf8_roundtrip: "utf8_decode (utf8_encode s) = Inr (map of_char s)"
  by (induction s) (simp_all add: utf8_encode_def utf8_char_decode)

definition text_sequence :: "string list \<Rightarrow> bytes" where
  "text_sequence ss = concat (map (\<lambda>s. der TAG_UTF8_STRING (utf8_encode s)) ss)"

lemma read_texts:
  assumes "\<forall>s \<in> set ss. length (utf8_encode s) \<le> 4294967295"
  shows "read_utf8_strings (text_sequence ss) = Inr (map (map of_char) ss)"
  using assms
proof (induction ss)
  case Nil
  then show ?case by (simp add: text_sequence_def has_data_def read_utf8_strings.simps)
next
  case (Cons s ss)
  have "read_utf8_string (text_sequence (s # ss)) = Inr (map of_char s, text_sequence ss)"
    using Cons.prems by (simp add: text_sequence_def read_utf8_string_def utf8_roundtrip)
  then show ?case using Cons by (subst read_utf8_strings.simps) (simp add: text_sequence_def)
qed

subsection \<open>The chain\<close>

lemma stage_ok [res_simps]: "stage a b = Inr (X509Ok c) \<longleftrightarrow> (\<exists>d. a = Inr (X509Ok d)) \<and> b = Inr (X509Ok c)"
  by (cases a) (auto simp: stage_def split: x509_result.splits)

lemma find_holds: "find P xs = Some x \<Longrightarrow> P x \<and> x \<in> set xs"
  by (auto simp: find_Some_iff)

lemma check_leaf_eku_ok:
  assumes "check_leaf_eku leaf = Inr (X509Ok d)"
  shows "\<exists>exts e. xc_extensions leaf = Inr exts \<and> e \<in> set exts \<and> xe_critical e
    \<and> (\<exists>oids. xe_kind e = EkuExt oids \<and> (EKU_AGENT_IDENTITY \<in> set oids \<or> EKU_NODE_IDENTITY \<in> set oids))"
proof -
  obtain exts where x: "xc_extensions leaf = Inr exts" using assms by (auto simp: check_leaf_eku_def res_bind_eq_Inr)
  obtain e where f: "find (\<lambda>e. eku_of e \<noteq> None) exts = Some e"
    using assms x by (cases "find (\<lambda>e. eku_of e \<noteq> None) exts") (auto simp: check_leaf_eku_def)
  then obtain oids where "xe_kind e = EkuExt oids" "e \<in> set exts"
    using find_holds [OF f] by (auto simp: eku_of_def split: ext_kind.splits)
  then show ?thesis using assms x f by (auto simp: check_leaf_eku_def eku_of_def split: if_splits)
qed

lemma check_subject_nid_ok:
  assumes "check_subject_nid leaf (PStr nid) = Inr (X509Ok d)"
  shows "hd (xc_common_names leaf) = nid
    \<and> (\<exists>exts e uris. xc_extensions leaf = Inr exts \<and> e \<in> set exts \<and> xe_kind e = SanExt uris \<and> nid \<in> set uris)"
proof -
  obtain names where n: "xc_common_names leaf = nid # names"
    using assms by (cases "xc_common_names leaf") (auto simp: check_subject_nid_def Let_def split: if_splits)
  obtain exts where x: "xc_extensions leaf = Inr exts" using assms n by (auto simp: check_subject_nid_def res_bind_eq_Inr)
  obtain e where f: "find (\<lambda>e. san_of e \<noteq> None) exts = Some e"
    using assms n x by (cases "find (\<lambda>e. san_of e \<noteq> None) exts") (auto simp: check_subject_nid_def)
  then obtain uris where "xe_kind e = SanExt uris" "e \<in> set exts"
    using find_holds [OF f] by (auto simp: san_of_def split: ext_kind.splits)
  then show ?thesis using assms n x f by (auto simp: check_subject_nid_def san_of_def split: if_splits)
qed

lemma check_chain_ok:
  "check_chain_signature L chain roots = X509Ok d \<longleftrightarrow>
     d = hd chain \<and> links_signed L chain \<and> (\<exists>a \<in> set roots. anchored L (last chain) a)"
  by (auto simp: check_chain_signature_def)

lemma links_signed_nth:
  "links_signed L chain \<Longrightarrow> Suc i < length chain \<Longrightarrow> verify_signed_by L (chain ! i) (xc_public_key (chain ! Suc i))"
proof (induction L chain arbitrary: i rule: links_signed.induct)
  case (1 L a b cs)
  then show ?case by (cases i) auto
qed auto

subsection \<open>Claims and attestations\<close>

lemma excess_loop_strings:
  assumes "list_all is_str vs"
  shows "\<exists>out. excess_loop texts seen vs = Inr out \<and> list_all is_str out
    \<and> (out = [] \<longleftrightarrow> (\<forall>v \<in> set vs. attested texts v \<or> list_ex (py_eq v) seen))"
  using assms
proof (induction vs arbitrary: seen)
  case (Cons v vs)
  then obtain s where v: "v = PStr s" by (cases v) (auto simp: is_str_def)
  show ?case
  proof (cases "attested texts v \<or> list_ex (py_eq v) seen")
    case True
    then show ?thesis using Cons v by (auto simp: py_hashable_def)
  next
    case False
    obtain out where "excess_loop texts (v # seen) vs = Inr out" "list_all is_str out"
      using Cons.IH [of "v # seen"] Cons.prems by auto
    moreover have "is_str v" using v by (simp add: is_str_def)
    ultimately show ?thesis using False v by (auto simp: py_hashable_def)
  qed
qed simp

lemma excess_strings:
  assumes "list_all is_str claimed"
  shows "\<exists>out. excess claimed texts = Inr out \<and> list_all is_str out \<and> (out = [] \<longleftrightarrow> (\<forall>v \<in> set claimed. attested texts v))"
  using excess_loop_strings [OF assms, of texts "[]"] by (simp add: excess_def)

lemma subset_check_decides:
  assumes "list_all is_str claimed" "read_utf8_sequence_extension leaf oid = Inr ext"
  shows "subset_check leaf oid claimed code =
    Inr (if (case ext of None \<Rightarrow> True | Some texts \<Rightarrow> \<forall>v \<in> set claimed. attested texts v) then Accept else Reject 3 code)"
proof (cases ext)
  case (Some texts)
  obtain out where "excess claimed texts = Inr out" "list_all is_str out" "out = [] \<longleftrightarrow> (\<forall>v \<in> set claimed. attested texts v)"
    using excess_strings [OF assms(1)] by blast
  then show ?thesis using assms(2) Some by (simp add: subset_check_def)
qed (use assms in \<open>simp add: subset_check_def\<close>)

subsection \<open>OCSP responses\<close>

definition ascii :: "string \<Rightarrow> bytes" where
  "ascii s = map (\<lambda>c. of_nat (of_char c)) s"

definition gtime :: "string \<Rightarrow> bytes" where
  "gtime s = der TAG_GENERALIZED_TIME (ascii s)"

definition single_response :: "bytes \<Rightarrow> byte \<Rightarrow> bytes \<Rightarrow> string \<Rightarrow> string \<Rightarrow> bytes" where
  "single_response cert_id status_tag status this_update next_update =
     der TAG_SEQUENCE (der TAG_SEQUENCE cert_id @ der status_tag status @ gtime this_update @ der CONTEXT_0 (gtime next_update))"

definition response_data :: "bytes option \<Rightarrow> byte \<Rightarrow> bytes \<Rightarrow> string \<Rightarrow> bytes \<Rightarrow> bytes" where
  "response_data version responder_tag responder produced_at responses =
     der TAG_SEQUENCE ((case version of None \<Rightarrow> [] | Some v \<Rightarrow> der CONTEXT_0 v)
       @ der responder_tag responder @ gtime produced_at @ der TAG_SEQUENCE responses)"

definition ocsp_response :: "bytes \<Rightarrow> bytes \<Rightarrow> bytes \<Rightarrow> bytes \<Rightarrow> bytes" where
  "ocsp_response status response_type tbs signature =
     der TAG_SEQUENCE (der TAG_ENUMERATED status
       @ der CONTEXT_0 (der TAG_SEQUENCE (der TAG_OID response_type @ der TAG_OCTET_STRING (der TAG_SEQUENCE (tbs @ signature)))))"

lemma length_der: "length content < length (der tag content)"
  by (simp add: der_def der_length_def)

lemma ascii_text: "\<forall>c \<in> set s. (of_char c :: nat) < 128 \<Longrightarrow> map (\<lambda>b. char_of (unat b)) (ascii s) = s \<and> (\<forall>b \<in> set (ascii s). unat b < 128)"
  by (induction s) (auto simp: ascii_def)

lemma read_gtime:
  assumes "\<forall>c \<in> set s. (of_char c :: nat) < 128" "parse_generalized_time L s = Inr t" "length s \<le> 4294967295"
  shows "read_generalized_time L (gtime s @ rest) = Inr (t, rest)"
proof -
  have "length (ascii s) \<le> 4294967295" using assms(3) by (simp add: ascii_def)
  then show ?thesis
    using assms(2) ascii_text [OF assms(1)] by (auto simp: read_generalized_time_def gtime_def not_le)
qed

lemma read_gtime_Nil:
  assumes "\<forall>c \<in> set s. (of_char c :: nat) < 128" "parse_generalized_time L s = Inr t" "length s \<le> 4294967295"
  shows "read_generalized_time L (gtime s) = Inr (t, [])"
  using read_gtime [OF assms, of "[]"] by simp

lemma length_gtime: "length s < length (gtime s)"
  using length_der [of "ascii s"] by (simp add: gtime_def ascii_def)

definition time_text :: "x509_lib \<Rightarrow> string \<Rightarrow> int \<Rightarrow> bool" where
  "time_text L s t \<longleftrightarrow> (\<forall>c \<in> set s. (of_char c :: nat) < 128) \<and> parse_generalized_time L s = Inr t"

lemma read_single_response:
  assumes "length (single_response cid st stat this next) \<le> 4294967295" "time_text L this t" "time_text L next n"
  shows "read_sequence TAG_SEQUENCE (single_response cid st stat this next @ rest)
      = Inr (der TAG_SEQUENCE cid @ der st stat @ gtime this @ der CONTEXT_0 (gtime next), rest)"
    and "read_single L (der TAG_SEQUENCE cid @ der st stat @ gtime this @ der CONTEXT_0 (gtime next)) = Inr (Some n)"
proof -
  let ?c = "der TAG_SEQUENCE cid @ der st stat @ gtime this @ der CONTEXT_0 (gtime next)"
  have l: "length ?c \<le> 4294967295" using assms(1) length_der [of ?c TAG_SEQUENCE] by (simp add: single_response_def)
  have ls: "length cid \<le> 4294967295" "length stat \<le> 4294967295" "length this \<le> 4294967295" "length next \<le> 4294967295"
    "length (gtime next) \<le> 4294967295"
    using l length_der [of cid TAG_SEQUENCE] length_der [of stat st] length_gtime [of this] length_gtime [of "next"]
      length_der [of "gtime next" CONTEXT_0] by simp_all
  show "read_sequence TAG_SEQUENCE (single_response cid st stat this next @ rest) = Inr (?c, rest)"
    unfolding single_response_def by (rule read_der(2) [OF l])
  show "read_single L ?c = Inr (Some n)"
    using ls assms(2,3) by (simp add: read_single_def time_text_def read_gtime read_gtime_Nil)
qed

lemma read_response:
  assumes "length (response_data version rt r produced (single_response cid st stat this next @ others)) \<le> 4294967295"
    and "unat rt div 64 = 2" "rt \<noteq> CONTEXT_0" "time_text L produced p" "time_text L this t" "time_text L next n"
  shows "res_bind (read_sequence TAG_SEQUENCE (response_data version rt r produced (single_response cid st stat this next @ others) @ rest))
           (\<lambda>(tbs, _). read_response_data L tbs) = Inr (Some n)"
proof -
  let ?s = "single_response cid st stat this next"
  let ?v = "case version of None \<Rightarrow> [] | Some v \<Rightarrow> der CONTEXT_0 v"
  let ?b = "der rt r @ gtime produced @ der TAG_SEQUENCE (?s @ others)"
  have l: "length (?v @ ?b) \<le> 4294967295"
    using assms(1) length_der [of "?v @ ?b" TAG_SEQUENCE] by (simp add: response_data_def)
  have ls: "length r \<le> 4294967295" "length produced \<le> 4294967295" "length (?s @ others) \<le> 4294967295" "length ?s \<le> 4294967295"
    using l length_der [of r rt] length_gtime [of produced] length_der [of "?s @ others" TAG_SEQUENCE] by simp_all
  have v: "skip_version (?v @ ?b) = Inr ?b"
  proof (cases version)
    case (Some x)
    then have "length x \<le> 4294967295" using l length_der [of x CONTEXT_0] by simp
    then show ?thesis using Some by (simp add: skip_version_def)
  qed (use assms(3) in \<open>simp add: skip_version_def\<close>)
  have "skip_responder ?b = Inr (gtime produced @ der TAG_SEQUENCE (?s @ others))"
    using assms(2) ls(1) by (simp add: skip_responder_def)
  then have "read_response_data L (?v @ ?b) = Inr (Some n)"
    using v ls assms(4) read_single_response [OF ls(4) assms(5,6)] length_der [of _ TAG_SEQUENCE]
    by (simp add: read_response_data_def time_text_def read_gtime has_data_def) (simp add: single_response_def der_def)
  then show ?thesis using read_der(2) [OF l] by (simp add: response_data_def)
qed

section \<open>Properties\<close>

text \<open>
  C28: A chain that the verifier accepts proves the identity: the leaf carries the asserted id as its
  common name and in its alternative names and a critical key usage for agents or nodes, every
  certificate is signed by the next one's key, and the last one is a trusted root or signed by one.
\<close>
theorem x509_verify_sound:
  assumes "x509_verify L entries (PStr nid) level roots = Inr (X509Ok leaf)"
  shows "\<exists>chain. map (load_entry L) entries = map Some chain \<and> chain \<noteq> [] \<and> leaf = hd chain
    \<and> hd (xc_common_names leaf) = nid
    \<and> (\<exists>exts e uris. xc_extensions leaf = Inr exts \<and> e \<in> set exts \<and> xe_kind e = SanExt uris \<and> nid \<in> set uris)
    \<and> (\<exists>exts e oids. xc_extensions leaf = Inr exts \<and> e \<in> set exts \<and> xe_critical e \<and> xe_kind e = EkuExt oids
         \<and> (EKU_AGENT_IDENTITY \<in> set oids \<or> EKU_NODE_IDENTITY \<in> set oids))
    \<and> (\<forall>i. Suc i < length chain \<longrightarrow> verify_signed_by L (chain ! i) (xc_public_key (chain ! Suc i)))
    \<and> (\<exists>a \<in> set roots. anchored L (last chain) a)"
proof -
  define chain where "chain = map the (map (load_entry L) entries)"
  have ne: "entries \<noteq> []" and all: "None \<notin> set (map (load_entry L) entries)"
    and st: "stage (check_leaf_eku (hd chain)) (stage (check_subject_nid (hd chain) (PStr nid))
      (stage (check_assurance_level (hd chain) level) (stage (Inr (check_chain_signature L chain roots)) (Inr (X509Ok (hd chain))))))
      = Inr (X509Ok leaf)"
    using assms by (auto simp: x509_verify_def Let_def chain_def split: if_splits)
  have loaded: "map (load_entry L) entries = map Some chain"
  proof -
    have "load_entry L x = Some (the (load_entry L x))" if "x \<in> set entries" for x
      using all that by (cases "load_entry L x") force+
    then show ?thesis by (simp add: chain_def)
  qed
  have leaf: "leaf = hd chain" using st by (simp add: res_simps)
  have "links_signed L chain" "\<exists>a \<in> set roots. anchored L (last chain) a"
    using st by (auto simp: res_simps check_chain_ok)
  moreover have "chain \<noteq> []" using ne by (simp add: chain_def)
  moreover obtain d1 d2 where "check_leaf_eku leaf = Inr (X509Ok d1)" "check_subject_nid leaf (PStr nid) = Inr (X509Ok d2)"
    using st leaf by (auto simp: res_simps)
  ultimately show ?thesis
    using loaded leaf check_leaf_eku_ok [of leaf d1] check_subject_nid_ok [of leaf nid d2] links_signed_nth [of L chain] by blast
qed

text \<open>
  C29: Phase 3 decides by subset and freshness, in this order. Of a frame whose claims are textual and a certificate whose two
  extensions can be read: where the certificate has the roles extension, every claimed role (none, when the frame has no roles)
  must be attested by it; where it has the capabilities extension, every claimed capability must be; and the staple must decode
  to a response with a next update later than now. The frame is accepted exactly when all three hold, and otherwise the first
  that fails names the error, at step three. An extension that is absent attests nothing and restricts nothing.
\<close>
theorem phase3_decides:
  assumes "list_all is_str (id_capabilities f)" "list_all is_str roles"
    and "roles = (case id_node_roles f of None \<Rightarrow> [] | Some rs \<Rightarrow> rs)"
    and "read_utf8_sequence_extension leaf ID_NPS_NODE_ROLES = Inr attested_roles"
    and "read_utf8_sequence_extension leaf ID_NPS_CAPABILITIES = Inr attested_caps"
  shows "phase3_enforce L f leaf now =
    Inr (if \<not> (case attested_roles of None \<Rightarrow> True | Some texts \<Rightarrow> \<forall>v \<in> set roles. attested texts v)
         then Reject 3 CERT_NODE_ROLES_MISMATCH
         else if \<not> (case attested_caps of None \<Rightarrow> True | Some texts \<Rightarrow> \<forall>v \<in> set (id_capabilities f). attested texts v)
         then Reject 3 CERT_CAPABILITIES_EXCEEDED
         else if \<exists>s staple next. id_ocsp_staple f = PStr s \<and> s \<noteq> [] \<and> from_base64url s = Inr staple
                \<and> try_get_ocsp_next_update L staple = Some next \<and> now < next
         then Accept else Reject 3 OCSP_STAPLE_EXPIRED)"
proof -
  have "staple_check L (id_ocsp_staple f) now =
    (if \<exists>s staple next. id_ocsp_staple f = PStr s \<and> s \<noteq> [] \<and> from_base64url s = Inr staple
          \<and> try_get_ocsp_next_update L staple = Some next \<and> now < next
     then Accept else Reject 3 OCSP_STAPLE_EXPIRED)"
    by (auto simp: staple_check_def split: pyval.splits sum.splits option.splits)
  then show ?thesis
    using subset_check_decides [OF assms(2,4)] subset_check_decides [OF assms(1,5)] assms(3)
    by (simp add: phase3_enforce_def and_then_def)
qed

lemma ocsp_walk_found:
  assumes "length (ocsp_response status rtype (response_data version rt r produced (single_response cid st stat this next @ others)) sig)
      \<le> 4294967295"
    and "unat rt div 64 = 2" "rt \<noteq> CONTEXT_0" "time_text L produced p" "time_text L this t" "time_text L next n"
  shows "try_get_ocsp_next_update L
    (ocsp_response status rtype (response_data version rt r produced (single_response cid st stat this next @ others)) sig) = Some n"
proof -
  define tbs where "tbs = response_data version rt r produced (single_response cid st stat this next @ others)"
  define basic where "basic = der TAG_SEQUENCE (tbs @ sig)"
  define rb where "rb = der TAG_OID rtype @ der TAG_OCTET_STRING basic"
  define body where "body = der TAG_ENUMERATED status @ der CONTEXT_0 (der TAG_SEQUENCE rb)"
  have w: "ocsp_response status rtype tbs sig = der TAG_SEQUENCE body"
    by (simp add: ocsp_response_def body_def rb_def basic_def)
  have l: "length body \<le> 4294967295"
    using assms(1) w length_der [of body TAG_SEQUENCE] by (simp add: tbs_def)
  have ls: "length status \<le> 4294967295" "length (der TAG_SEQUENCE rb) \<le> 4294967295" "length rb \<le> 4294967295"
    "length rtype \<le> 4294967295" "length basic \<le> 4294967295" "length (tbs @ sig) \<le> 4294967295" "length tbs \<le> 4294967295"
    using l length_der [of status TAG_ENUMERATED] length_der [of "der TAG_SEQUENCE rb" CONTEXT_0] length_der [of rb TAG_SEQUENCE]
      length_der [of rtype TAG_OID] length_der [of basic TAG_OCTET_STRING] length_der [of "tbs @ sig" TAG_SEQUENCE]
    by (auto simp: body_def rb_def basic_def)
  have "res_bind (read_sequence TAG_SEQUENCE (tbs @ sig)) (\<lambda>(tbs, _). read_response_data L tbs) = Inr (Some n)"
    using read_response [OF _ assms(2-6)] ls(7) unfolding tbs_def by blast
  then have "ocsp_walk L (der TAG_SEQUENCE body) = Inr (Some n)"
    using l ls by (simp add: ocsp_walk_def body_def rb_def basic_def)
  then show ?thesis unfolding tbs_def [symmetric] w by (simp add: try_get_ocsp_next_update_def)
qed

text \<open>
  The DER walk finds the next update: in every OCSP response in which the responder id is
  context-tagged and the times are readable, with or without a version and whatever the
  certificate id, status, further responses and signature are, it returns the first response's
  next update.
\<close>
theorem ocsp_next_update_found:
  assumes "length (ocsp_response status rtype (response_data version rt r produced (single_response cid st stat this next @ others)) sig)
      \<le> 4294967295"
    and "unat rt div 64 = 2" "rt \<noteq> CONTEXT_0" "time_text L produced p" "time_text L this t" "time_text L next n"
  shows "try_get_ocsp_next_update L
    (ocsp_response status rtype (response_data version rt r produced (single_response cid st stat this next @ others)) sig) = Some n"
  using assms by (rule ocsp_walk_found)

definition ex_x5 :: x509_lib where
  "ex_x5 = \<lparr>x5_load = (\<lambda>der. if der = [] then None else
      Some \<lparr>xc_der = der, xc_common_names = [''urn:a''],
            xc_extensions = Inr [\<lparr>xe_oid = ''2.5.29.37'', xe_critical = True, xe_bytes = [], xe_kind = EkuExt [EKU_AGENT_IDENTITY]\<rparr>,
                                 \<lparr>xe_oid = ''2.5.29.17'', xe_critical = False, xe_bytes = [], xe_kind = SanExt [''urn:a'']\<rparr>,
                                 \<lparr>xe_oid = ID_NPS_NODE_ROLES, xe_critical = False, xe_bytes = der, xe_kind = Unrecognized\<rparr>],
            xc_public_key = Some [1], xc_signature = [2], xc_tbs = [3]\<rparr>),
     x5_verify = (\<lambda>k s m. k = [1] \<and> s = [2]), x5_strptime = (\<lambda>fraction s. Some (int (length s)))\<rparr>"

definition ex_staple :: bytes where
  "ex_staple = ocsp_response [0] [1] (response_data None 0xA1 [] ''20260101000000Z''
     (single_response [] 0x80 [] ''20260101000000Z'' ''20260102000000.5Z'' @ [])) []"

lemma ex_times: "time_text ex_x5 ''20260101000000Z'' 14" "time_text ex_x5 ''20260102000000.5Z'' 16"
  unfolding time_text_def by code_simp+

lemma ex_staple_length: "length ex_staple \<le> 4294967295"
  by (simp add: ex_staple_def ocsp_response_def response_data_def single_response_def gtime_def ascii_def der_def der_length_def)

lemma ex_staple_next: "try_get_ocsp_next_update ex_x5 ex_staple = Some 16"
  using ocsp_walk_found [OF ex_staple_length [unfolded ex_staple_def] _ _ ex_times(1) ex_times(1) ex_times(2)]
  unfolding ex_staple_def by (simp add: CONTEXT_0_def)

theorem ocsp_next_update_found_witness: "try_get_ocsp_next_update ex_x5 ex_staple = Some 16"
  using ocsp_next_update_found [OF ex_staple_length [unfolded ex_staple_def] _ _ ex_times(1) ex_times(1) ex_times(2)]
  unfolding ex_staple_def by (simp add: CONTEXT_0_def)

definition ex_entry :: string where "ex_entry = b64u_encode (der TAG_SEQUENCE (text_sequence [''anchor'']))"

definition ex_leaf :: x509_cert where "ex_leaf = the (x5_load ex_x5 (der TAG_SEQUENCE (text_sequence [''anchor''])))"

lemma ex_entry_load: "load_entry ex_x5 (PStr ex_entry) = Some ex_leaf"
  by (simp add: load_entry_def ex_entry_def b64u_roundtrip ex_leaf_def ex_x5_def der_def)

theorem x509_verify_sound_witness: "hd (xc_common_names ex_leaf) = ''urn:a''"
proof -
  have "x509_verify ex_x5 [PStr ex_entry] (PStr ''urn:a'') None [ex_leaf] = Inr (X509Ok ex_leaf)"
    by (simp add: x509_verify_def ex_entry_load stage_def check_leaf_eku_def check_subject_nid_def check_assurance_level_def
        check_chain_signature_def anchored_def eku_of_def san_of_def) (simp add: ex_leaf_def ex_x5_def der_def eku_of_def san_of_def)
  from x509_verify_sound [OF this] show ?thesis by blast
qed

definition ex_ident :: ident_frame where
  "ex_ident = \<lparr>id_nid = PStr ''urn:a'', id_pub_key = PStr ''k'', id_capabilities = [PStr ''read''], id_scope = PDict [],
     id_issued_by = PStr ''ca'', id_issued_at = PStr ''t'', id_expires_at = PStr ''t'', id_serial = PStr ''1'', id_signature = PStr ''s'',
     id_metadata = None, id_assurance_level = None, id_cert_format = PStr ''v2-x509'', id_cert_chain = None,
     id_ocsp_staple = PStr (b64u_encode ex_staple), id_node_roles = Some [PStr ''anchor''], id_lineage = None\<rparr>"

theorem phase3_decides_witness:
  "phase3_enforce ex_x5 ex_ident ex_leaf 15 = Inr Accept \<and> phase3_enforce ex_x5 ex_ident ex_leaf 16 = Inr (Reject 3 OCSP_STAPLE_EXPIRED)"
proof -
  have r: "read_utf8_sequence_extension ex_leaf ID_NPS_NODE_ROLES = Inr (Some [map of_char ''anchor''])" by code_simp
  have c: "read_utf8_sequence_extension ex_leaf ID_NPS_CAPABILITIES = Inr None" by code_simp
  have s: "id_ocsp_staple ex_ident = PStr (b64u_encode ex_staple)" by (simp add: ex_ident_def)
  have ne: "b64u_encode ex_staple \<noteq> []" by code_simp
  have k: "list_all is_str (id_capabilities ex_ident)" "list_all is_str [PStr ''anchor'']"
    "[PStr ''anchor''] = (case id_node_roles ex_ident of None \<Rightarrow> [] | Some rs \<Rightarrow> rs)"
    by (simp_all add: ex_ident_def is_str_def)
  have p: "phase3_enforce ex_x5 ex_ident ex_leaf now = Inr (if now < 16 then Accept else Reject 3 OCSP_STAPLE_EXPIRED)" for now
    using phase3_decides [OF k r c, of ex_x5 now] ne by (simp add: s from_base64url_roundtrip ex_staple_next attested_def)
  show ?thesis unfolding p by simp
qed

end
