(* ===== verification/NipVerifier.thy ===== *)
theory NipVerifier
  imports NipX509 NdpProfile
begin

text \<open>
  The node-side verification of identities: the live-revocation policy \<open>nps_sdk/nip/revocation_policy.py\<close>,
  the six-step verifier \<open>nps_sdk/nip/verifier.py\<close> and the trust-frame validator
  \<open>nps_sdk/nip/trust_validator.py\<close>.

  Reading an ISO timestamp (\<open>rd_iso\<close>: the local time in microseconds and the offset, if there is one), the
  text of a value that is not a string (\<open>render\<close>), the revocation callback, the revocation store and the
  HTTP client are arguments, the last three as fields of the options.
\<close>

section \<open>The revocation policy\<close>

datatype revocation_mode = IF_CONFIGURED | REQUIRED

datatype revocation_source = LOCAL_CRL | CALLBACK | CA_STORE | OCSP

datatype revocation_outcome = GOOD | REVOKED | UNAVAILABLE

record revocation_decision =
  rd_valid :: bool
  rd_error_code :: "string option"
  rd_failed_step :: nat

record evaluation =
  ev_mode :: revocation_mode
  ev_ocsp_fail_open :: bool
  ev_consulted :: "revocation_source list"

definition OCSP_UNAVAILABLE :: string where "OCSP_UNAVAILABLE = ''NIP-OCSP-UNAVAILABLE''"
definition CERT_SIGNATURE_INVALID :: string where "CERT_SIGNATURE_INVALID = ''NIP-CERT-SIGNATURE-INVALID''"
definition CERT_UNTRUSTED_ISSUER :: string where "CERT_UNTRUSTED_ISSUER = ''NIP-CERT-UNTRUSTED-ISSUER''"
definition CERT_SCOPE_VIOLATION :: string where "CERT_SCOPE_VIOLATION = ''NIP-CERT-SCOPE-VIOLATION''"
definition TRUST_FRAME_INVALID :: string where "TRUST_FRAME_INVALID = ''NIP-TRUST-FRAME-INVALID''"
definition TRUST_FRAME_EXPIRED :: string where "TRUST_FRAME_EXPIRED = ''NIP-TRUST-FRAME-EXPIRED''"
definition TRUST_FRAME_SCOPE_EXCEEDS_GRANTOR :: string where
  "TRUST_FRAME_SCOPE_EXCEEDS_GRANTOR = ''NIP-TRUST-FRAME-SCOPE-EXCEEDS-GRANTOR''"

definition deny :: "string \<Rightarrow> revocation_decision" where
  "deny code = \<lparr>rd_valid = False, rd_error_code = Some code, rd_failed_step = 4\<rparr>"

definition observe ::
  "revocation_source \<Rightarrow> revocation_outcome \<Rightarrow> evaluation \<Rightarrow> revocation_decision option \<times> evaluation" where
  "observe source outcome ev =
     ((case outcome of
         GOOD \<Rightarrow> None
       | REVOKED \<Rightarrow> Some (deny CERT_REVOKED)
       | UNAVAILABLE \<Rightarrow> if source = OCSP \<and> ev_ocsp_fail_open ev then None else Some (deny OCSP_UNAVAILABLE)),
      ev\<lparr>ev_consulted := ev_consulted ev @ [source]\<rparr>)"

definition complete_evaluation :: "evaluation \<Rightarrow> revocation_decision" where
  "complete_evaluation ev =
     (if ev_mode ev = REQUIRED \<and> ev_consulted ev = [] then deny OCSP_UNAVAILABLE
      else \<lparr>rd_valid = True, rd_error_code = None, rd_failed_step = 0\<rparr>)"

definition revocation_result :: "revocation_decision \<Rightarrow> verdict" where
  "revocation_result d =
     (if rd_valid d then Accept
      else Reject (rd_failed_step d) (case rd_error_code d of Some c \<Rightarrow> if c = [] then OCSP_UNAVAILABLE else c | None \<Rightarrow> OCSP_UNAVAILABLE))"

section \<open>Options\<close>

record nip_cert_record =
  nc_serial :: string
  nc_revoked_at :: "string option"
  nc_revoke_reason :: "string option"

text \<open>
  \<open>vo_http_get\<close> is the client's GET: it raises, or gives the status and what \<open>resp.json()\<close> does.
\<close>

record verifier_options =
  vo_trusted_issuers :: "string dict"
  vo_trusted_x509_roots :: "x509_cert list"
  vo_local_revoked_serials :: "string list option"
  vo_revocation_check :: "(ident_frame \<Rightarrow> verdict option res) option"
  vo_revocation_store :: "(pyval \<Rightarrow> nip_cert_record option res) option"
  vo_ocsp_url :: "string option"
  vo_ocsp_fail_open :: bool
  vo_revocation_mode :: revocation_mode
  vo_phase3_enforcement :: bool
  vo_http_get :: "string \<Rightarrow> (int \<times> pyval res) res"

text \<open>\<open>__post_init__\<close>: the alias map is merged below the trusted issuers.\<close>

definition merge_alias :: "string dict option \<Rightarrow> verifier_options \<Rightarrow> verifier_options" where
  "merge_alias aliases opts =
     (case aliases of
        None \<Rightarrow> opts
      | Some a \<Rightarrow>
          if a = [] then opts
          else opts\<lparr>vo_trusted_issuers := foldl (\<lambda>d kv. dict_set (fst kv) (snd kv) d) a (vo_trusted_issuers opts)\<rparr>)"

record verify_context =
  vc_required_capabilities :: "string list option"
  vc_target_node_path :: "string option"
  vc_as_of :: "int option"

section \<open>Path matching\<close>

definition nwp_path_matches :: "string \<Rightarrow> string \<Rightarrow> bool" where
  "nwp_path_matches pattern path =
     (if pattern = ''*'' then True
      else if length pattern \<ge> 2 \<and> drop (length pattern - 2) pattern = ''/*'' then
        (let prefix = take (length pattern - 2) pattern in
         py_startswith (py_lower path) (py_lower prefix) \<and> (length path = length prefix \<or> path ! length prefix = CHR ''/''))
      else py_lower pattern = py_lower path)"

definition scope_nodes :: "pyval \<Rightarrow> pyval list option" where
  "scope_nodes scope =
     (case scope of
        PDict d \<Rightarrow> (case map_of d ''nodes'' of Some (PList xs) \<Rightarrow> Some xs | _ \<Rightarrow> None)
      | _ \<Rightarrow> None)"

definition pattern_matches :: "string \<Rightarrow> pyval \<Rightarrow> bool" where
  "pattern_matches target p = (case p of PStr s \<Rightarrow> nwp_path_matches s target | _ \<Rightarrow> False)"

definition check_scope :: "ident_frame \<Rightarrow> string \<Rightarrow> verdict" where
  "check_scope frame target =
     (case scope_nodes (id_scope frame) of
        None \<Rightarrow> Reject 6 CERT_SCOPE_VIOLATION
      | Some nodes \<Rightarrow> if list_ex (pattern_matches target) nodes then Accept else Reject 6 CERT_SCOPE_VIOLATION)"

section \<open>Revocation\<close>

text \<open>A verdict ends the consultation, an evaluation continues it.\<close>

type_synonym consultation = "(verdict + evaluation) res"

definition observed :: "revocation_source \<Rightarrow> revocation_outcome \<Rightarrow> evaluation \<Rightarrow> consultation" where
  "observed source outcome ev =
     (case observe source outcome ev of
        (Some d, _) \<Rightarrow> Inr (Inl (revocation_result d))
      | (None, ev') \<Rightarrow> Inr (Inr ev'))"

definition consult :: "consultation \<Rightarrow> (evaluation \<Rightarrow> consultation) \<Rightarrow> consultation" where
  "consult c next = res_bind c (\<lambda>r. case r of Inl v \<Rightarrow> Inr (Inl v) | Inr ev \<Rightarrow> next ev)"

definition local_crl :: "verifier_options \<Rightarrow> ident_frame \<Rightarrow> evaluation \<Rightarrow> consultation" where
  "local_crl opts frame ev =
     (case vo_local_revoked_serials opts of
        None \<Rightarrow> Inr (Inr ev)
      | Some serials \<Rightarrow>
          if \<not> py_hashable (id_serial frame) then Inl TypeError
          else observed LOCAL_CRL (if id_serial frame \<in> PStr ` set serials then REVOKED else GOOD) ev)"

text \<open>\<open>except Exception\<close> catches every error but a cancellation.\<close>

definition callback :: "verifier_options \<Rightarrow> ident_frame \<Rightarrow> evaluation \<Rightarrow> consultation" where
  "callback opts frame ev =
     (case vo_revocation_check opts of
        None \<Rightarrow> Inr (Inr ev)
      | Some check \<Rightarrow>
          (case check frame of
             Inl e \<Rightarrow> if e = CancelledError then Inl e else observed CALLBACK UNAVAILABLE ev
           | Inr (Some (Reject k code)) \<Rightarrow> Inr (Inl (Reject k code))
           | Inr _ \<Rightarrow> observed CALLBACK GOOD ev))"

definition consult_store :: "verifier_options \<Rightarrow> ident_frame \<Rightarrow> evaluation \<Rightarrow> consultation" where
  "consult_store opts frame ev =
     (case vo_revocation_store opts of
        None \<Rightarrow> Inr (Inr ev)
      | Some lookup \<Rightarrow>
          (case lookup (id_serial frame) of
             Inl e \<Rightarrow> if e = CancelledError then Inl e else observed CA_STORE UNAVAILABLE ev
           | Inr None \<Rightarrow> observed CA_STORE GOOD ev
           | Inr (Some r) \<Rightarrow> observed CA_STORE (if nc_revoked_at r \<noteq> None then REVOKED else GOOD) ev))"

text \<open>\<open>urllib.parse.quote(value, safe="")\<close>\<close>

definition unreserved :: "char \<Rightarrow> bool" where
  "unreserved c =
     (let n = of_char c :: nat in
      (48 \<le> n \<and> n \<le> 57) \<or> (65 \<le> n \<and> n \<le> 90) \<or> (97 \<le> n \<and> n \<le> 122) \<or> c \<in> set ''_.-~'')"

definition quote :: "string \<Rightarrow> string" where
  "quote s = concat (map (\<lambda>c. if unreserved c then [c]
     else concat (map (\<lambda>b. [CHR ''%'', hex_digit (unat b div 16), hex_digit (unat b mod 16)]) (utf8_char c))) s)"

definition rstrip_slash :: "string \<Rightarrow> string" where
  "rstrip_slash s = rev (dropWhile (\<lambda>c. c = CHR ''/'') (rev s))"

definition ocsp_answer :: "(pyval \<Rightarrow> string) \<Rightarrow> pyval \<Rightarrow> verdict" where
  "ocsp_answer render body =
     (case body of
        PDict d \<Rightarrow>
          if py_bool (case map_of d ''valid'' of None \<Rightarrow> PBool False | Some v \<Rightarrow> v) then Accept
          else (case map_of d ''error_code'' of
                  Some v \<Rightarrow> if py_bool v then Reject 4 (case v of PStr s \<Rightarrow> s | _ \<Rightarrow> render v) else Reject 4 CERT_REVOKED
                | None \<Rightarrow> Reject 4 CERT_REVOKED)
      | _ \<Rightarrow> Reject 4 CERT_REVOKED)"

definition ocsp_check :: "(pyval \<Rightarrow> string) \<Rightarrow> verifier_options \<Rightarrow> string \<Rightarrow> pyval \<Rightarrow> verdict res" where
  "ocsp_check render opts url nid =
     (case nid of
        PStr n \<Rightarrow>
          (let failed = (\<lambda>e. if e \<in> {HttpError, ValueError, UnicodeDecodeError}
                             then Inr (if vo_ocsp_fail_open opts then Accept else Reject 4 OCSP_UNAVAILABLE) else Inl e)
           in case vo_http_get opts (rstrip_slash url @ ''/'' @ quote n) of
                Inl e \<Rightarrow> failed e
              | Inr (status, json) \<Rightarrow>
                  if status < 200 \<or> status \<ge> 300 then Inr (Reject 4 OCSP_UNAVAILABLE)
                  else (case json of Inl e \<Rightarrow> failed e | Inr body \<Rightarrow> Inr (ocsp_answer render body)))
      | _ \<Rightarrow> Inl TypeError)"

definition consult_ocsp :: "(pyval \<Rightarrow> string) \<Rightarrow> verifier_options \<Rightarrow> ident_frame \<Rightarrow> evaluation \<Rightarrow> consultation" where
  "consult_ocsp render opts frame ev =
     (case vo_ocsp_url opts of
        None \<Rightarrow> Inr (Inr ev)
      | Some url \<Rightarrow>
          res_bind (ocsp_check render opts url (id_nid frame)) (\<lambda>v.
            case v of Reject k code \<Rightarrow> Inr (Inl (Reject k code)) | Accept \<Rightarrow> observed OCSP GOOD ev))"

definition check_revocation :: "(pyval \<Rightarrow> string) \<Rightarrow> verifier_options \<Rightarrow> ident_frame \<Rightarrow> verdict res" where
  "check_revocation render opts frame =
     res_bind
       (consult (consult (consult (local_crl opts frame
           \<lparr>ev_mode = vo_revocation_mode opts, ev_ocsp_fail_open = vo_ocsp_fail_open opts, ev_consulted = []\<rparr>)
         (callback opts frame)) (consult_store opts frame)) (consult_ocsp render opts frame))
       (\<lambda>r. Inr (case r of Inl v \<Rightarrow> v | Inr ev \<Rightarrow> revocation_result (complete_evaluation ev)))"

section \<open>The verifier\<close>

type_synonym iso_parser = "string \<Rightarrow> (int \<times> int option) option"

definition parse_timestamp :: "iso_parser \<Rightarrow> pyval \<Rightarrow> int option res" where
  "parse_timestamp rd_iso v =
     (if \<not> py_bool v then Inr None
      else res_bind (as_str v) (\<lambda>s.
        let t = py_strip s; u = (if t \<noteq> [] \<and> last t = CHR ''Z'' then butlast t @ ''+00:00'' else t) in
        Inr (case rd_iso u of
               None \<Rightarrow> None
             | Some (l, off) \<Rightarrow> Some (l - (case off of None \<Rightarrow> 0 | Some x \<Rightarrow> x)))))"

definition check_capabilities_claimed :: "ident_frame \<Rightarrow> string list option \<Rightarrow> verdict res" where
  "check_capabilities_claimed frame required =
     (case required of
        None \<Rightarrow> Inr Accept
      | Some req \<Rightarrow>
          if req = [] then Inr Accept
          else if list_ex (\<lambda>c. \<not> py_hashable c) (id_capabilities frame) then Inl TypeError
          else if filter (\<lambda>c. PStr c \<notin> set (id_capabilities frame)) req \<noteq> [] then Inr (Reject 5 CERT_CAPABILITY_MISSING)
          else Inr Accept)"

definition signed_part :: "ident_frame \<Rightarrow> pyval dict" where
  "signed_part frame = (case ident_unsigned_dict frame of PDict d \<Rightarrow> d | _ \<Rightarrow> [])"

definition check_x509 :: "x509_lib \<Rightarrow> verifier_options \<Rightarrow> ident_frame \<Rightarrow> int \<Rightarrow> verdict res" where
  "check_x509 X opts frame now =
     (if vo_trusted_x509_roots opts \<noteq> [] \<and> py_eq (id_cert_format frame) (PStr ''v2-x509'') then
        res_bind (x509_verify X (case id_cert_chain frame of None \<Rightarrow> [] | Some c \<Rightarrow> c) (id_nid frame)
                    (id_assurance_level frame) (vo_trusted_x509_roots opts)) (\<lambda>r.
          case r of
            X509Fail code \<Rightarrow> Inr (Reject 3 code)
          | X509Ok leaf \<Rightarrow> if vo_phase3_enforcement opts then phase3_enforce X frame leaf now else Inr Accept)
      else Inr Accept)"

definition ident_verify ::
  "sig_lib \<Rightarrow> x509_lib \<Rightarrow> iso_parser \<Rightarrow> (pyval \<Rightarrow> string) \<Rightarrow> verifier_options \<Rightarrow> int \<Rightarrow> ident_frame \<Rightarrow> verify_context \<Rightarrow> verdict res" where
  "ident_verify S X rd_iso render opts clock frame ctx =
     (let now = (case vc_as_of ctx of Some t \<Rightarrow> t | None \<Rightarrow> clock) in
      res_bind (parse_timestamp rd_iso (id_expires_at frame)) (\<lambda>expires.
        case expires of
          None \<Rightarrow> Inr (Reject 1 CERT_EXPIRED)
        | Some t \<Rightarrow>
            if t \<le> now then Inr (Reject 1 CERT_EXPIRED)
            else if \<not> py_hashable (id_issued_by frame) then Inl TypeError
            else (case (case id_issued_by frame of PStr i \<Rightarrow> dict_get (vo_trusted_issuers opts) i | _ \<Rightarrow> None) of
                    None \<Rightarrow> Inr (Reject 2 CERT_UNTRUSTED_ISSUER)
                  | Some key \<Rightarrow>
                      if \<not> verify_signature S key (signed_part frame) (id_signature frame) then Inr (Reject 3 CERT_SIGNATURE_INVALID)
                      else and_then (check_x509 X opts frame now)
                          (and_then (check_revocation render opts frame)
                          (and_then (check_capabilities_claimed frame (vc_required_capabilities ctx))
                            (Inr (case vc_target_node_path ctx of None \<Rightarrow> Accept | Some p \<Rightarrow> check_scope frame p)))))))"

section \<open>Trust frames\<close>

record trust_context =
  tc_trusted_grantors :: "string list"
  tc_expected_grantee_ca :: string
  tc_required_capabilities :: "string list option"
  tc_target_node_path :: "string option"
  tc_as_of :: "int option"

definition nonblank :: "pyval \<Rightarrow> bool res" where
  "nonblank v = (if \<not> py_bool v then Inr False else res_bind (as_str v) (\<lambda>s. Inr (py_strip s \<noteq> [])))"

fun all_nonblank :: "pyval list \<Rightarrow> bool res" where
  "all_nonblank [] = Inr True"
| "all_nonblank (v # vs) = res_bind (nonblank v) (\<lambda>b. if b then all_nonblank vs else Inr False)"

text \<open>\<open>any(nwp_path_matches(pattern, target) for pattern in frame.nodes)\<close>\<close>

fun any_covers :: "string \<Rightarrow> pyval list \<Rightarrow> bool res" where
  "any_covers target [] = Inr False"
| "any_covers target (p # ps) =
     res_bind (as_str p) (\<lambda>s. if nwp_path_matches s target then Inr True else any_covers target ps)"

definition trust_scope_check :: "trust_frame \<Rightarrow> string list option \<Rightarrow> verdict res" where
  "trust_scope_check f required =
     (case required of
        None \<Rightarrow> Inr Accept
      | Some req \<Rightarrow>
          if req = [] then Inr Accept
          else if list_ex (\<lambda>c. \<not> py_hashable c) (tr_trust_scope f) then Inl TypeError
          else if filter (\<lambda>c. PStr c \<notin> set (tr_trust_scope f)) req \<noteq> [] then Inr (Reject 5 TRUST_FRAME_SCOPE_EXCEEDS_GRANTOR)
          else Inr Accept)"

definition trust_node_check :: "trust_frame \<Rightarrow> string option \<Rightarrow> verdict res" where
  "trust_node_check f target =
     (case target of
        None \<Rightarrow> Inr Accept
      | Some p \<Rightarrow> res_bind (any_covers p (tr_nodes f)) (\<lambda>covered. Inr (if covered then Accept else Reject 6 CERT_SCOPE_VIOLATION)))"

definition trust_validate :: "iso_parser \<Rightarrow> int \<Rightarrow> trust_frame \<Rightarrow> trust_context \<Rightarrow> verdict res" where
  "trust_validate rd_iso clock f ctx =
     res_bind (all_nonblank [tr_grantor_nid f, tr_grantee_ca f, tr_issued_at f, tr_expires_at f, tr_serial f, tr_signer_nid f,
                             tr_signature f]) (\<lambda>shape.
       if \<not> shape \<or> tr_trust_scope f = [] \<or> tr_nodes f = [] then Inr (Reject 3 TRUST_FRAME_INVALID)
       else res_bind (parse_timestamp rd_iso (tr_issued_at f)) (\<lambda>issued.
         if issued = None then Inr (Reject 3 TRUST_FRAME_INVALID)
         else res_bind (parse_timestamp rd_iso (tr_expires_at f)) (\<lambda>expires.
           case expires of
             None \<Rightarrow> Inr (Reject 3 TRUST_FRAME_INVALID)
           | Some t \<Rightarrow>
               if t \<le> (case tc_as_of ctx of Some n \<Rightarrow> n | None \<Rightarrow> clock) then Inr (Reject 3 TRUST_FRAME_EXPIRED)
               else if tr_grantor_nid f \<notin> PStr ` set (tc_trusted_grantors ctx) then Inr (Reject 3 CERT_UNTRUSTED_ISSUER)
               else if \<not> py_eq (tr_grantee_ca f) (PStr (tc_expected_grantee_ca ctx)) then Inr (Reject 3 TRUST_FRAME_INVALID)
               else and_then (trust_scope_check f (tc_required_capabilities ctx)) (trust_node_check f (tc_target_node_path ctx)))))"

section \<open>Lemmas\<close>

lemma and_then_Accept [res_simps]: "and_then a b = Inr Accept \<longleftrightarrow> a = Inr Accept \<and> b = Inr Accept"
  by (cases a) (auto simp: and_then_def split: verdict.splits)

lemma observed_continues [res_simps]:
  "observed source outcome ev = Inr (Inr ev') \<longleftrightarrow>
     (outcome = GOOD \<or> outcome = UNAVAILABLE \<and> source = OCSP \<and> ev_ocsp_fail_open ev)
     \<and> ev' = ev\<lparr>ev_consulted := ev_consulted ev @ [source]\<rparr>"
  by (cases outcome) (auto simp: observed_def observe_def)

lemma observed_not_Accept: "observed source outcome ev \<noteq> Inr (Inl Accept)"
  by (cases outcome) (auto simp: observed_def observe_def revocation_result_def deny_def)

lemma consult_continues [res_simps]:
  "consult c next = Inr (Inr ev) \<longleftrightarrow> (\<exists>ev'. c = Inr (Inr ev') \<and> next ev' = Inr (Inr ev))"
  by (cases c) (auto simp: consult_def split: sum.splits)

lemma consult_not_Accept:
  "c \<noteq> Inr (Inl Accept) \<Longrightarrow> (\<And>ev. next ev \<noteq> Inr (Inl Accept)) \<Longrightarrow> consult c next \<noteq> Inr (Inl Accept)"
  by (cases c) (auto simp: consult_def split: sum.splits)

lemma sources_not_Accept:
  "local_crl opts frame ev \<noteq> Inr (Inl Accept)" "callback opts frame ev \<noteq> Inr (Inl Accept)"
  "consult_store opts frame ev \<noteq> Inr (Inl Accept)" "consult_ocsp render opts frame ev \<noteq> Inr (Inl Accept)"
  using observed_not_Accept
  by (auto simp: local_crl_def callback_def consult_store_def consult_ocsp_def res_bind_eq_Inr
      split: option.splits sum.splits verdict.splits if_splits)

text \<open>What each source must say for the verification to go on.\<close>

lemma local_crl_continues:
  "local_crl opts f ev = Inr (Inr ev') \<longleftrightarrow>
     (case vo_local_revoked_serials opts of
        None \<Rightarrow> ev' = ev
      | Some serials \<Rightarrow> py_hashable (id_serial f) \<and> id_serial f \<notin> PStr ` set serials
          \<and> ev' = ev\<lparr>ev_consulted := ev_consulted ev @ [LOCAL_CRL]\<rparr>)"
  by (auto simp: local_crl_def res_simps split: option.splits)

lemma callback_continues:
  "callback opts f ev = Inr (Inr ev') \<longleftrightarrow>
     (case vo_revocation_check opts of
        None \<Rightarrow> ev' = ev
      | Some check \<Rightarrow> (check f = Inr None \<or> check f = Inr (Some Accept)) \<and> ev' = ev\<lparr>ev_consulted := ev_consulted ev @ [CALLBACK]\<rparr>)"
  by (auto simp: callback_def res_simps split: option.splits sum.splits verdict.splits)

lemma consult_store_continues:
  "consult_store opts f ev = Inr (Inr ev') \<longleftrightarrow>
     (case vo_revocation_store opts of
        None \<Rightarrow> ev' = ev
      | Some look \<Rightarrow> (\<exists>r. look (id_serial f) = Inr r \<and> (\<forall>x. r = Some x \<longrightarrow> nc_revoked_at x = None))
          \<and> ev' = ev\<lparr>ev_consulted := ev_consulted ev @ [CA_STORE]\<rparr>)"
  by (auto simp: consult_store_def res_simps split: option.splits sum.splits)

lemma consult_ocsp_continues:
  "consult_ocsp render opts f ev = Inr (Inr ev') \<longleftrightarrow>
     (case vo_ocsp_url opts of
        None \<Rightarrow> ev' = ev
      | Some url \<Rightarrow> ocsp_check render opts url (id_nid f) = Inr Accept \<and> ev' = ev\<lparr>ev_consulted := ev_consulted ev @ [OCSP]\<rparr>)"
proof (cases "vo_ocsp_url opts")
  case (Some url)
  then show ?thesis
    by (cases "ocsp_check render opts url (id_nid f)") (auto simp: consult_ocsp_def res_simps split: verdict.splits)
qed (auto simp: consult_ocsp_def)

lemmas sources_continue = local_crl_continues callback_continues consult_store_continues consult_ocsp_continues

definition sources_clear :: "(pyval \<Rightarrow> string) \<Rightarrow> verifier_options \<Rightarrow> ident_frame \<Rightarrow> bool" where
  "sources_clear render opts f \<longleftrightarrow>
     (\<forall>serials. vo_local_revoked_serials opts = Some serials \<longrightarrow> py_hashable (id_serial f) \<and> id_serial f \<notin> PStr ` set serials)
   \<and> (\<forall>check. vo_revocation_check opts = Some check \<longrightarrow> check f = Inr None \<or> check f = Inr (Some Accept))
   \<and> (\<forall>look. vo_revocation_store opts = Some look \<longrightarrow>
        (\<exists>r. look (id_serial f) = Inr r \<and> (\<forall>x. r = Some x \<longrightarrow> nc_revoked_at x = None)))
   \<and> (\<forall>url. vo_ocsp_url opts = Some url \<longrightarrow> ocsp_check render opts url (id_nid f) = Inr Accept)
   \<and> (vo_revocation_mode opts = REQUIRED \<longrightarrow>
        vo_local_revoked_serials opts \<noteq> None \<or> vo_revocation_check opts \<noteq> None \<or> vo_revocation_store opts \<noteq> None
        \<or> vo_ocsp_url opts \<noteq> None)"

lemma complete_evaluation_valid:
  "revocation_result (complete_evaluation ev) = Accept \<longleftrightarrow> \<not> (ev_mode ev = REQUIRED \<and> ev_consulted ev = [])"
  by (simp add: revocation_result_def complete_evaluation_def deny_def)

lemma check_revocation_Accept: "check_revocation render opts f = Inr Accept \<longleftrightarrow> sources_clear render opts f"
proof -
  define c where "c = consult (consult (consult (local_crl opts f
           \<lparr>ev_mode = vo_revocation_mode opts, ev_ocsp_fail_open = vo_ocsp_fail_open opts, ev_consulted = []\<rparr>)
         (callback opts f)) (consult_store opts f)) (consult_ocsp render opts f)"
  have "c \<noteq> Inr (Inl Accept)" unfolding c_def by (intro consult_not_Accept sources_not_Accept)
  then have "check_revocation render opts f = Inr Accept \<longleftrightarrow>
      (\<exists>ev. c = Inr (Inr ev) \<and> \<not> (ev_mode ev = REQUIRED \<and> ev_consulted ev = []))"
    unfolding check_revocation_def c_def [symmetric]
    by (cases c) (auto simp: complete_evaluation_valid split: sum.splits)
  also have "\<dots> \<longleftrightarrow> sources_clear render opts f"
    unfolding c_def consult_continues sources_continue sources_clear_def
    by (cases "vo_local_revoked_serials opts"; cases "vo_revocation_check opts"; cases "vo_revocation_store opts"; cases "vo_ocsp_url opts") auto
  finally show ?thesis .
qed

lemma capabilities_Accept:
  "check_capabilities_claimed f required = Inr Accept \<longleftrightarrow>
     (\<forall>req. required = Some req \<and> req \<noteq> [] \<longrightarrow>
        (\<forall>c \<in> set (id_capabilities f). py_hashable c) \<and> PStr ` set req \<subseteq> set (id_capabilities f))"
  by (auto simp: check_capabilities_claimed_def list_ex_iff filter_empty_conv split: option.splits)

lemma pattern_matches_iff: "pattern_matches p v \<longleftrightarrow> (\<exists>s. v = PStr s \<and> nwp_path_matches s p)"
  by (cases v) (auto simp: pattern_matches_def)

lemma scope_Accept:
  "check_scope f p = Accept \<longleftrightarrow>
     (\<exists>nodes s. scope_nodes (id_scope f) = Some nodes \<and> PStr s \<in> set nodes \<and> nwp_path_matches s p)"
proof (cases "scope_nodes (id_scope f)")
  case (Some nodes)
  have "list_ex (pattern_matches p) nodes \<longleftrightarrow> (\<exists>s. PStr s \<in> set nodes \<and> nwp_path_matches s p)"
    by (auto simp: list_ex_iff pattern_matches_iff)
  then show ?thesis using Some by (simp add: check_scope_def)
qed (simp add: check_scope_def)

lemma x509_Accept:
  "check_x509 X opts f now = Inr Accept \<longleftrightarrow>
     (vo_trusted_x509_roots opts \<noteq> [] \<and> id_cert_format f = PStr ''v2-x509'' \<longrightarrow>
        (\<exists>leaf. x509_verify X (case id_cert_chain f of None \<Rightarrow> [] | Some c \<Rightarrow> c) (id_nid f) (id_assurance_level f)
                  (vo_trusted_x509_roots opts) = Inr (X509Ok leaf)
           \<and> (vo_phase3_enforcement opts \<longrightarrow> phase3_enforce X f leaf now = Inr Accept)))"
  by (cases "x509_verify X (case id_cert_chain f of None \<Rightarrow> [] | Some c \<Rightarrow> c) (id_nid f) (id_assurance_level f) (vo_trusted_x509_roots opts)")
    (auto simp: check_x509_def split: x509_result.splits if_splits)

text \<open>A prefix pattern stops at a path segment.\<close>

lemma prefix_boundary:
  assumes "nwp_path_matches (base @ ''/*'') path"
  shows "length path = length base \<or> path ! length base = CHR ''/''"
proof -
  have "base @ ''/*'' \<noteq> ''*''" by (cases base) auto
  then show ?thesis using assms by (simp add: nwp_path_matches_def Let_def)
qed

lemma nonblank_True: "nonblank v = Inr True \<longleftrightarrow> (\<exists>s. v = PStr s \<and> py_strip s \<noteq> [])"
proof (cases v)
  case (PStr s)
  have "py_strip [] = []" by (simp add: py_strip_def)
  then show ?thesis using PStr by (auto simp: nonblank_def)
qed (auto simp: nonblank_def as_str_def)

lemma all_nonblank_True: "all_nonblank vs = Inr True \<longleftrightarrow> (\<forall>v \<in> set vs. \<exists>s. v = PStr s \<and> py_strip s \<noteq> [])"
proof (induction vs)
  case (Cons v vs)
  show ?case
  proof (cases "nonblank v")
    case (Inr b)
    then show ?thesis using Cons nonblank_True [of v] by (cases b) auto
  qed (use nonblank_True [of v] in auto)
qed simp

lemma any_covers_True:
  "any_covers target ps = Inr True \<Longrightarrow> \<exists>s. PStr s \<in> set ps \<and> nwp_path_matches s target"
  by (induction ps) (auto simp: res_bind_eq_Inr res_simps split: if_splits)

lemma ident_verify_steps:
  "ident_verify S X rd_iso render opts clock f ctx = Inr Accept \<longleftrightarrow>
     (\<exists>t. parse_timestamp rd_iso (id_expires_at f) = Inr (Some t) \<and> (case vc_as_of ctx of Some n \<Rightarrow> n | None \<Rightarrow> clock) < t)
   \<and> (\<exists>i key. id_issued_by f = PStr i \<and> dict_get (vo_trusted_issuers opts) i = Some key
        \<and> verify_signature S key (signed_part f) (id_signature f))
   \<and> check_x509 X opts f (case vc_as_of ctx of Some n \<Rightarrow> n | None \<Rightarrow> clock) = Inr Accept
   \<and> check_revocation render opts f = Inr Accept
   \<and> check_capabilities_claimed f (vc_required_capabilities ctx) = Inr Accept
   \<and> (case vc_target_node_path ctx of None \<Rightarrow> Accept | Some p \<Rightarrow> check_scope f p) = Accept"
  (is "?accept \<longleftrightarrow> ?time \<and> ?key \<and> ?rest")
proof -
  let ?lookup = "case id_issued_by f of PStr i \<Rightarrow> dict_get (vo_trusted_issuers opts) i | _ \<Rightarrow> None"
  have key: "?key \<longleftrightarrow> (\<exists>key. ?lookup = Some key \<and> verify_signature S key (signed_part f) (id_signature f) \<and> py_hashable (id_issued_by f))"
    by (auto simp: py_hashable_def split: pyval.splits)
  show ?thesis
  proof (cases "parse_timestamp rd_iso (id_expires_at f)")
    case (Inr expires)
    then show ?thesis unfolding key
      by (cases expires; cases ?lookup; cases "py_hashable (id_issued_by f)") (simp_all add: ident_verify_def Let_def res_simps not_le)
  qed (simp add: ident_verify_def Let_def)
qed

subsection \<open>Rejections\<close>

lemma and_then_Reject:
  "and_then a b = Inr (Reject k code) \<longleftrightarrow> a = Inr (Reject k code) \<or> a = Inr Accept \<and> b = Inr (Reject k code)"
  by (cases a) (auto simp: and_then_def split: verdict.splits)

lemma phase3_rejects: "phase3_enforce X f leaf now = Inr (Reject k code) \<Longrightarrow> k = 3"
  by (auto simp: phase3_enforce_def and_then_Reject subset_check_def staple_check_def res_bind_eq_Inr
      split: option.splits if_splits pyval.splits sum.splits)


text \<open>
  Why a revocation check rejects, with the step and the code: a list or the store knows the serial as revoked, the
  status service says so, the callback gave a verdict of its own, or a source raised or is missing where one is
  required.
\<close>

definition revocation_reason :: "(pyval \<Rightarrow> string) \<Rightarrow> verifier_options \<Rightarrow> ident_frame \<Rightarrow> nat \<Rightarrow> string \<Rightarrow> bool" where
  "revocation_reason render opts f k code \<longleftrightarrow>
     k = 4 \<and> code = CERT_REVOKED \<and>
       ((\<exists>serials. vo_local_revoked_serials opts = Some serials \<and> id_serial f \<in> PStr ` set serials)
        \<or> (\<exists>look r. vo_revocation_store opts = Some look \<and> look (id_serial f) = Inr (Some r) \<and> nc_revoked_at r \<noteq> None))
   \<or> k = 4 \<and> code = OCSP_UNAVAILABLE \<and>
       ((\<exists>check e. vo_revocation_check opts = Some check \<and> check f = Inl e)
        \<or> (\<exists>look e. vo_revocation_store opts = Some look \<and> look (id_serial f) = Inl e)
        \<or> vo_revocation_mode opts = REQUIRED \<and> vo_local_revoked_serials opts = None \<and> vo_revocation_check opts = None
          \<and> vo_revocation_store opts = None \<and> vo_ocsp_url opts = None)
   \<or> k = 4 \<and> (\<exists>url. vo_ocsp_url opts = Some url \<and> ocsp_check render opts url (id_nid f) = Inr (Reject k code))
   \<or> (\<exists>check. vo_revocation_check opts = Some check \<and> check f = Inr (Some (Reject k code)))"

definition stops_for_reason :: "(pyval \<Rightarrow> string) \<Rightarrow> verifier_options \<Rightarrow> ident_frame \<Rightarrow> consultation \<Rightarrow> bool" where
  "stops_for_reason render opts f c \<longleftrightarrow> (\<forall>k code. c = Inr (Inl (Reject k code)) \<longrightarrow> revocation_reason render opts f k code)"

lemma observed_Reject:
  "observed source outcome ev = Inr (Inl (Reject k code)) \<Longrightarrow>
     k = 4 \<and> (outcome = REVOKED \<and> code = CERT_REVOKED \<or> outcome = UNAVAILABLE \<and> code = OCSP_UNAVAILABLE)"
  by (auto simp: observed_def observe_def deny_def revocation_result_def CERT_REVOKED_def split: revocation_outcome.splits if_splits)

lemma sources_stop:
  "stops_for_reason render opts f (local_crl opts f ev)" "stops_for_reason render opts f (callback opts f ev)"
  "stops_for_reason render opts f (consult_store opts f ev)" "stops_for_reason render opts f (consult_ocsp render opts f ev)"
proof -
  show "stops_for_reason render opts f (local_crl opts f ev)"
    by (auto simp: stops_for_reason_def local_crl_def revocation_reason_def dest!: observed_Reject split: option.splits if_splits)
  show "stops_for_reason render opts f (callback opts f ev)"
    by (auto simp: stops_for_reason_def callback_def revocation_reason_def dest!: observed_Reject
        split: option.splits sum.splits verdict.splits if_splits)
  show "stops_for_reason render opts f (consult_store opts f ev)"
    by (auto simp: stops_for_reason_def consult_store_def revocation_reason_def dest!: observed_Reject
        split: option.splits sum.splits if_splits)
  have "k = 4" if "ocsp_check render opts url nid = Inr (Reject k code)" for url nid k code
    using that by (auto simp: ocsp_check_def ocsp_answer_def Let_def split: pyval.splits sum.splits if_splits option.splits)
  then show "stops_for_reason render opts f (consult_ocsp render opts f ev)"
    by (cases "vo_ocsp_url opts"; cases "ocsp_check render opts (the (vo_ocsp_url opts)) (id_nid f)")
      (auto simp: stops_for_reason_def consult_ocsp_def revocation_reason_def dest!: observed_Reject split: verdict.splits)
qed

lemma reason_at_four:
  "revocation_reason render opts f k code \<Longrightarrow>
     k = 4 \<or> (\<exists>check. vo_revocation_check opts = Some check \<and> check f = Inr (Some (Reject k code)))"
  by (auto simp: revocation_reason_def)

lemma consult_stops:
  "stops_for_reason render opts f c \<Longrightarrow> (\<And>ev. stops_for_reason render opts f (next ev)) \<Longrightarrow>
     stops_for_reason render opts f (consult c next)"
  by (auto simp: stops_for_reason_def consult_def res_bind_def split: sum.splits)

lemma revocation_rejects:
  assumes "check_revocation render opts f = Inr (Reject k code)"
  shows "revocation_reason render opts f k code"
proof -
  define c where "c = consult (consult (consult (local_crl opts f
           \<lparr>ev_mode = vo_revocation_mode opts, ev_ocsp_fail_open = vo_ocsp_fail_open opts, ev_consulted = []\<rparr>)
         (callback opts f)) (consult_store opts f)) (consult_ocsp render opts f)"
  have stop: "stops_for_reason render opts f c" unfolding c_def by (intro consult_stops sources_stop)
  consider "c = Inr (Inl (Reject k code))" | ev where "c = Inr (Inr ev)" "revocation_result (complete_evaluation ev) = Reject k code"
    using assms unfolding check_revocation_def c_def [symmetric] res_bind_eq_Inr by (force split: sum.splits)
  then show ?thesis
  proof cases
    case 2
    then have none: "k = 4" "code = OCSP_UNAVAILABLE" "ev_mode ev = REQUIRED" "ev_consulted ev = []"
      by (auto simp: complete_evaluation_def revocation_result_def deny_def split: if_splits)
    have "vo_revocation_mode opts = REQUIRED \<and> vo_local_revoked_serials opts = None \<and> vo_revocation_check opts = None
          \<and> vo_revocation_store opts = None \<and> vo_ocsp_url opts = None"
      using 2(1) none(3,4) unfolding c_def consult_continues sources_continue
      by (cases "vo_local_revoked_serials opts"; cases "vo_revocation_check opts"; cases "vo_revocation_store opts"; cases "vo_ocsp_url opts") auto
    then show ?thesis using none by (simp add: revocation_reason_def)
  qed (use stop in \<open>simp add: stops_for_reason_def\<close>)
qed

lemma capabilities_rejects:
  "check_capabilities_claimed f req = Inr (Reject k code) \<Longrightarrow> k = 5 \<and> code = CERT_CAPABILITY_MISSING"
  by (auto simp: check_capabilities_claimed_def split: option.splits if_splits)

lemma scope_rejects: "check_scope f p = Reject k code \<Longrightarrow> k = 6 \<and> code = CERT_SCOPE_VIOLATION"
  by (auto simp: check_scope_def split: option.splits if_splits)

section \<open>Properties\<close>

text \<open>The six steps of the specification, each as the condition under which it passes.\<close>

definition signed_by_trusted :: "sig_lib \<Rightarrow> verifier_options \<Rightarrow> ident_frame \<Rightarrow> bool" where
  "signed_by_trusted S opts f \<longleftrightarrow>
     (\<exists>i key. id_issued_by f = PStr i \<and> dict_get (vo_trusted_issuers opts) i = Some key
        \<and> verify_signature S key (signed_part f) (id_signature f))"

definition ident_step ::
  "sig_lib \<Rightarrow> x509_lib \<Rightarrow> iso_parser \<Rightarrow> (pyval \<Rightarrow> string) \<Rightarrow> verifier_options \<Rightarrow> int \<Rightarrow> ident_frame \<Rightarrow> verify_context \<Rightarrow> nat \<Rightarrow> bool" where
  "ident_step S X rd_iso render opts now f ctx k \<longleftrightarrow>
     (k = 1 \<longrightarrow> (\<exists>t. parse_timestamp rd_iso (id_expires_at f) = Inr (Some t) \<and> now < t))
   \<and> (k = 2 \<longrightarrow> (\<exists>i key. id_issued_by f = PStr i \<and> dict_get (vo_trusted_issuers opts) i = Some key))
   \<and> (k = 3 \<longrightarrow> signed_by_trusted S opts f
        \<and> (vo_trusted_x509_roots opts \<noteq> [] \<and> id_cert_format f = PStr ''v2-x509'' \<longrightarrow>
             (\<exists>leaf. x509_verify X (case id_cert_chain f of None \<Rightarrow> [] | Some c \<Rightarrow> c) (id_nid f) (id_assurance_level f)
                       (vo_trusted_x509_roots opts) = Inr (X509Ok leaf)
                \<and> (vo_phase3_enforcement opts \<longrightarrow> phase3_enforce X f leaf now = Inr Accept))))
   \<and> (k = 4 \<longrightarrow> sources_clear render opts f)
   \<and> (k = 5 \<longrightarrow> (\<forall>req. vc_required_capabilities ctx = Some req \<and> req \<noteq> [] \<longrightarrow>
        (\<forall>c \<in> set (id_capabilities f). py_hashable c) \<and> PStr ` set req \<subseteq> set (id_capabilities f)))
   \<and> (k = 6 \<longrightarrow> (\<forall>p. vc_target_node_path ctx = Some p \<longrightarrow>
        (\<exists>nodes s. scope_nodes (id_scope f) = Some nodes \<and> PStr s \<in> set nodes \<and> nwp_path_matches s p)))"

text \<open>
  The error code that a rejection at a step carries; the certificate chain and the Phase-3 checks have codes of their own.
\<close>

definition certificate_reason :: "x509_lib \<Rightarrow> verifier_options \<Rightarrow> ident_frame \<Rightarrow> int \<Rightarrow> string \<Rightarrow> bool" where
  "certificate_reason X opts f now code \<longleftrightarrow>
     vo_trusted_x509_roots opts \<noteq> [] \<and> id_cert_format f = PStr ''v2-x509''
   \<and> (let verified = x509_verify X (case id_cert_chain f of None \<Rightarrow> [] | Some c \<Rightarrow> c) (id_nid f) (id_assurance_level f)
                       (vo_trusted_x509_roots opts)
      in verified = Inr (X509Fail code)
         \<or> (\<exists>leaf. verified = Inr (X509Ok leaf) \<and> vo_phase3_enforcement opts \<and> phase3_enforce X f leaf now = Inr (Reject 3 code)))"

definition ident_code ::
  "sig_lib \<Rightarrow> x509_lib \<Rightarrow> (pyval \<Rightarrow> string) \<Rightarrow> verifier_options \<Rightarrow> int \<Rightarrow> ident_frame \<Rightarrow> nat \<Rightarrow> nat \<Rightarrow> string \<Rightarrow> bool" where
  "ident_code S X render opts now f step k code \<longleftrightarrow>
     (step = 1 \<longrightarrow> code = CERT_EXPIRED) \<and> (step = 2 \<longrightarrow> code = CERT_UNTRUSTED_ISSUER)
   \<and> (step = 3 \<longrightarrow> (if signed_by_trusted S opts f then certificate_reason X opts f now code else code = CERT_SIGNATURE_INVALID))
   \<and> (step = 4 \<longrightarrow> revocation_reason render opts f k code)
   \<and> (step = 5 \<longrightarrow> code = CERT_CAPABILITY_MISSING) \<and> (step = 6 \<longrightarrow> code = CERT_SCOPE_VIOLATION)"

lemma x509_rejects: "check_x509 X opts f now = Inr (Reject k code) \<Longrightarrow> k = 3 \<and> certificate_reason X opts f now code"
  by (cases "x509_verify X (case id_cert_chain f of None \<Rightarrow> [] | Some c \<Rightarrow> c) (id_nid f) (id_assurance_level f) (vo_trusted_x509_roots opts)")
    (auto simp: check_x509_def certificate_reason_def split: if_splits x509_result.splits dest: phase3_rejects)

lemma ident_step_Accept:
  "ident_step S X rd_iso render opts now f ctx 3 \<longleftrightarrow> signed_by_trusted S opts f \<and> check_x509 X opts f now = Inr Accept"
  "ident_step S X rd_iso render opts now f ctx 4 \<longleftrightarrow> check_revocation render opts f = Inr Accept"
  "ident_step S X rd_iso render opts now f ctx 5 \<longleftrightarrow> check_capabilities_claimed f (vc_required_capabilities ctx) = Inr Accept"
  "ident_step S X rd_iso render opts now f ctx 6 \<longleftrightarrow> (case vc_target_node_path ctx of None \<Rightarrow> Accept | Some p \<Rightarrow> check_scope f p) = Accept"
  by (auto simp: ident_step_def x509_Accept check_revocation_Accept capabilities_Accept scope_Accept split: option.splits)

lemma six_steps: "(\<forall>k \<in> {1..6}. P k) \<longleftrightarrow> P 1 \<and> P 2 \<and> P 3 \<and> P 4 \<and> P 5 \<and> P (6 :: nat)"
proof -
  have "{1..6 :: nat} = {1, 2, 3, 4, 5, 6}" by auto
  then show ?thesis by simp
qed

lemma ident_verify_prefix:
  assumes "ident_verify S X rd_iso render opts clock f ctx = Inr (Reject k code)"
    and "now = (case vc_as_of ctx of Some n \<Rightarrow> n | None \<Rightarrow> clock)"
  obtains (expired) "\<not> ident_step S X rd_iso render opts now f ctx 1" "k = 1" "code = CERT_EXPIRED"
    | (untrusted) "ident_step S X rd_iso render opts now f ctx 1" "\<not> ident_step S X rd_iso render opts now f ctx 2" "k = 2" "code = CERT_UNTRUSTED_ISSUER"
    | (unsigned) "ident_step S X rd_iso render opts now f ctx 1" "ident_step S X rd_iso render opts now f ctx 2" "\<not> signed_by_trusted S opts f" "k = 3" "code = CERT_SIGNATURE_INVALID"
    | (rest) "ident_step S X rd_iso render opts now f ctx 1" "ident_step S X rd_iso render opts now f ctx 2" "signed_by_trusted S opts f"
        "and_then (check_x509 X opts f now) (and_then (check_revocation render opts f)
           (and_then (check_capabilities_claimed f (vc_required_capabilities ctx)) (Inr (case vc_target_node_path ctx of None \<Rightarrow> Accept | Some p \<Rightarrow> check_scope f p)))) = Inr (Reject k code)"
proof -
  let ?step = "ident_step S X rd_iso render opts now f ctx" and ?issuer = "case id_issued_by f of PStr i \<Rightarrow> dict_get (vo_trusted_issuers opts) i | _ \<Rightarrow> None"
  have key: "(\<exists>i key. id_issued_by f = PStr i \<and> dict_get (vo_trusted_issuers opts) i = Some key) \<longleftrightarrow> ?issuer \<noteq> None"
    by (auto split: pyval.splits)
  have sig: "signed_by_trusted S opts f \<longleftrightarrow> (\<exists>key. ?issuer = Some key \<and> verify_signature S key (signed_part f) (id_signature f))"
    by (auto simp: signed_by_trusted_def split: pyval.splits)
  have one: "?step 1 \<longleftrightarrow> (\<exists>t. parse_timestamp rd_iso (id_expires_at f) = Inr (Some t) \<and> now < t)"
    by (simp add: ident_step_def)
  have two: "?step 2 \<longleftrightarrow> ?issuer \<noteq> None" unfolding key [symmetric] by (simp add: ident_step_def)
  obtain expires where e: "parse_timestamp rd_iso (id_expires_at f) = Inr expires"
    using assms(1) by (cases "parse_timestamp rd_iso (id_expires_at f)") (simp_all add: ident_verify_def)
  note verify = assms(1) [unfolded ident_verify_def assms(2) [symmetric] Let_def e]
  have h: "?issuer \<noteq> None \<Longrightarrow> py_hashable (id_issued_by f)" by (simp add: py_hashable_def split: pyval.splits)
  show ?thesis
  proof (cases expires)
    case None
    then have "\<not> ?step 1" "Reject 1 CERT_EXPIRED = Reject k code" using verify e one by simp_all
    then show ?thesis using that(1) by blast
  next
    case (Some t)
    show ?thesis
    proof (cases "now < t")
      case False
      then have "\<not> ?step 1" "Reject 1 CERT_EXPIRED = Reject k code" using verify e one Some by simp_all
      then show ?thesis using that(1) by blast
    next
      case before: True
      then have s1: "?step 1" using e Some one by simp
      show ?thesis
      proof (cases ?issuer)
        case None
        then have "Reject 2 CERT_UNTRUSTED_ISSUER = Reject k code" using verify Some before by (simp split: if_splits)
        moreover have "\<not> ?step 2" using two None by simp
        ultimately show ?thesis using s1 that(2) by blast
      next
        case issuer: (Some key)
        then have s2: "?step 2" and hash: "py_hashable (id_issued_by f)" using two h by simp_all
        show ?thesis
        proof (cases "verify_signature S key (signed_part f) (id_signature f)")
          case False
          then have "Reject 3 CERT_SIGNATURE_INVALID = Reject k code" using verify Some before issuer hash by simp
          moreover have "\<not> signed_by_trusted S opts f" using sig issuer False by simp
          ultimately show ?thesis using s1 s2 that(3) by blast
        next
          case True
          have "signed_by_trusted S opts f" using sig issuer True by simp
          then show ?thesis by (rule that(4) [OF s1 s2]) (use verify Some before issuer hash True in simp)
        qed
      qed
    qed
  qed
qed

lemma ident_verify_rejects:
  assumes "ident_verify S X rd_iso render opts clock f ctx = Inr (Reject k code)"
    and "now = (case vc_as_of ctx of Some n \<Rightarrow> n | None \<Rightarrow> clock)"
  shows "\<exists>step \<in> {1..6}. \<not> ident_step S X rd_iso render opts now f ctx step
      \<and> (\<forall>j \<in> {1..<step}. ident_step S X rd_iso render opts now f ctx j)
      \<and> ident_code S X render opts now f step k code
      \<and> (k = step \<or> step = 4 \<and> (\<exists>check. vo_revocation_check opts = Some check \<and> check f = Inr (Some (Reject k code))))"
proof -
  let ?step = "ident_step S X rd_iso render opts now f ctx"
  have below: "{Suc 0..<2} = {1 :: nat}" "{Suc 0..<3} = {1, 2 :: nat}" "{Suc 0..<4} = {1, 2, 3 :: nat}" "{Suc 0..<5} = {1, 2, 3, 4 :: nat}"
      "{Suc 0..<6} = {1, 2, 3, 4, 5 :: nat}" by auto
  show ?thesis using assms
  proof (cases rule: ident_verify_prefix)
    case expired
    then show ?thesis by (intro bexI [of _ 1]) (simp_all add: ident_code_def)
  next
    case untrusted
    then show ?thesis by (intro bexI [of _ 2]) (simp_all add: ident_code_def below)
  next
    case unsigned
    then show ?thesis by (intro bexI [of _ 3]) (simp_all add: ident_code_def below ident_step_Accept)
  next
    case rest
    then consider (x509) "check_x509 X opts f now = Inr (Reject k code)"
      | (live) "check_x509 X opts f now = Inr Accept" "check_revocation render opts f = Inr (Reject k code)"
      | (caps) "check_x509 X opts f now = Inr Accept" "check_revocation render opts f = Inr Accept"
          "check_capabilities_claimed f (vc_required_capabilities ctx) = Inr (Reject k code)"
      | (scope) "check_x509 X opts f now = Inr Accept" "check_revocation render opts f = Inr Accept"
          "check_capabilities_claimed f (vc_required_capabilities ctx) = Inr Accept" "(case vc_target_node_path ctx of None \<Rightarrow> Accept | Some p \<Rightarrow> check_scope f p) = Reject k code"
      by (auto simp: and_then_Reject)
    then show ?thesis
    proof cases
      case x509
      then show ?thesis using rest x509_rejects [OF x509]
        by (intro bexI [of _ 3]) (simp_all add: ident_code_def below ident_step_Accept)
    next
      case live
      then show ?thesis using rest revocation_rejects [OF live(2)] reason_at_four [OF revocation_rejects [OF live(2)]]
        by (intro bexI [of _ 4]) (simp_all add: ident_code_def below ident_step_Accept)
    next
      case caps
      then show ?thesis using rest capabilities_rejects [OF caps(3)]
        by (intro bexI [of _ 5]) (simp_all add: ident_code_def below ident_step_Accept)
    next
      case scope
      then have "k = 6 \<and> code = CERT_SCOPE_VIOLATION" using scope_rejects by (auto split: option.splits)
      then show ?thesis using rest scope
        by (intro bexI [of _ 6]) (simp_all add: ident_code_def below ident_step_Accept)
    qed
  qed
qed

text \<open>
  C10: The verifier accepts an identity exactly when all six steps of the specification hold: it is not
  expired, its issuer is trusted, the issuer's key verifies the signed part (and a version-two frame has
  a verified certificate chain, with the Phase-3 checks when they are enforced), no configured
  revocation source objects, is unavailable or is missing where one is required, the required
  capabilities are present, and a scope pattern covers the target. And a rejection tells why: it names the first
  step that does not hold, with the error code of that step; only a revocation callback that rejects may name a
  step and a code of its own.
\<close>
theorem ident_verify_decides:
  assumes "now = (case vc_as_of ctx of Some n \<Rightarrow> n | None \<Rightarrow> clock)"
  shows "(ident_verify S X rd_iso render opts clock f ctx = Inr Accept \<longleftrightarrow> (\<forall>k \<in> {1..6}. ident_step S X rd_iso render opts now f ctx k))
    \<and> (\<forall>k code. ident_verify S X rd_iso render opts clock f ctx = Inr (Reject k code) \<longrightarrow>
         (\<exists>step \<in> {1..6}. \<not> ident_step S X rd_iso render opts now f ctx step
            \<and> (\<forall>j \<in> {1..<step}. ident_step S X rd_iso render opts now f ctx j)
            \<and> ident_code S X render opts now f step k code
            \<and> (k = step \<or> step = 4 \<and> (\<exists>check. vo_revocation_check opts = Some check \<and> check f = Inr (Some (Reject k code))))))"
proof (intro conjI allI impI)
  show "ident_verify S X rd_iso render opts clock f ctx = Inr Accept \<longleftrightarrow> (\<forall>k \<in> {1..6}. ident_step S X rd_iso render opts now f ctx k)"
    unfolding ident_verify_steps six_steps ident_step_Accept assms
    by (auto simp: ident_step_def signed_by_trusted_def)
qed (rule ident_verify_rejects [OF _ assms])

definition ex_sig :: sig_lib where
  "ex_sig = \<lparr>ed_raw = (\<lambda>k s m. True), ed_der = (\<lambda>k s m. k = ''key'' \<and> s = ''good''), dumps_plain = (\<lambda>v. Inr ''json'')\<rparr>"

definition ex_verifier :: verifier_options where
  "ex_verifier = \<lparr>vo_trusted_issuers = [(''ca'', ''ed25519:key'')], vo_trusted_x509_roots = [], vo_local_revoked_serials = Some [''0x9''],
     vo_revocation_check = None, vo_revocation_store = Some (\<lambda>serial. Inr None), vo_ocsp_url = Some ''http://ca/ocsp/'',
     vo_ocsp_fail_open = False, vo_revocation_mode = REQUIRED, vo_phase3_enforcement = False,
     vo_http_get = (\<lambda>url. if url = ''http://ca/ocsp/urn%3Aa'' then Inr (200, Inr (PDict [(''valid'', PBool True)])) else Inl HttpError)\<rparr>"

definition ex_subject :: ident_frame where
  "ex_subject = \<lparr>id_nid = PStr ''urn:a'', id_pub_key = PStr ''k'', id_capabilities = [PStr ''read''],
     id_scope = PDict [(''nodes'', PList [PStr ''nwp://h/a/*''])], id_issued_by = PStr ''ca'', id_issued_at = PStr ''t'',
     id_expires_at = PStr '' 2026Z'', id_serial = PStr ''0x1'', id_signature = PStr ''ed25519:good'', id_metadata = None,
     id_assurance_level = None, id_cert_format = PNone, id_cert_chain = None, id_ocsp_staple = PNone, id_node_roles = None,
     id_lineage = None\<rparr>"

definition ex_context :: verify_context where
  "ex_context = \<lparr>vc_required_capabilities = Some [''read''], vc_target_node_path = Some ''NWP://h/a/b'', vc_as_of = Some 100\<rparr>"

definition ex_iso :: iso_parser where
  "ex_iso s = (if s = ''2026+00:00'' then Some (200, Some 0) else None)"

theorem ident_verify_decides_witness:
  "ident_verify ex_sig ex_x5 ex_iso (\<lambda>v. []) ex_verifier 0 ex_subject ex_context = Inr Accept
   \<and> sources_clear (\<lambda>v. []) ex_verifier ex_subject
   \<and> ident_verify ex_sig ex_x5 ex_iso (\<lambda>v. []) ex_verifier 0 (ex_subject\<lparr>id_capabilities := []\<rparr>) ex_context
       = Inr (Reject 5 CERT_CAPABILITY_MISSING)
   \<and> (\<exists>step \<in> {1..6}. \<not> ident_step ex_sig ex_x5 ex_iso (\<lambda>v. []) ex_verifier 100 (ex_subject\<lparr>id_capabilities := []\<rparr>) ex_context step)"
proof -
  have now: "(100 :: int) = (case vc_as_of ex_context of Some n \<Rightarrow> n | None \<Rightarrow> 0)" by (simp add: ex_context_def)
  note decides = ident_verify_decides [OF now, of ex_sig ex_x5 ex_iso "\<lambda>v. []" ex_verifier]
  have a: "ident_verify ex_sig ex_x5 ex_iso (\<lambda>v. []) ex_verifier 0 ex_subject ex_context = Inr Accept" by code_simp
  have r: "ident_verify ex_sig ex_x5 ex_iso (\<lambda>v. []) ex_verifier 0 (ex_subject\<lparr>id_capabilities := []\<rparr>) ex_context
      = Inr (Reject 5 CERT_CAPABILITY_MISSING)" by code_simp
  have "ident_step ex_sig ex_x5 ex_iso (\<lambda>v. []) ex_verifier 100 ex_subject ex_context 4"
    using a decides [of ex_subject] by simp
  then have "sources_clear (\<lambda>v. []) ex_verifier ex_subject" by (simp add: ident_step_def)
  moreover have "\<exists>step \<in> {1..6}. \<not> ident_step ex_sig ex_x5 ex_iso (\<lambda>v. []) ex_verifier 100 (ex_subject\<lparr>id_capabilities := []\<rparr>) ex_context step"
    using r decides [of "ex_subject\<lparr>id_capabilities := []\<rparr>"] by blast
  ultimately show ?thesis using a r by blast
qed

text \<open>
  An accepted trust frame is complete and in force: every required field is a text that is not
  blank, it has not expired, a trusted grantor gave it to the expected authority, it grants the
  required capabilities, and one of its node patterns covers the target.
\<close>
theorem trust_validate_sound:
  assumes "trust_validate rd_iso clock f ctx = Inr Accept"
  shows "(\<forall>v \<in> {tr_grantor_nid f, tr_grantee_ca f, tr_issued_at f, tr_expires_at f, tr_serial f, tr_signer_nid f, tr_signature f}.
            \<exists>s. v = PStr s \<and> py_strip s \<noteq> [])
    \<and> (\<exists>t. parse_timestamp rd_iso (tr_expires_at f) = Inr (Some t) \<and> (case tc_as_of ctx of Some n \<Rightarrow> n | None \<Rightarrow> clock) < t)
    \<and> tr_grantor_nid f \<in> PStr ` set (tc_trusted_grantors ctx) \<and> tr_grantee_ca f = PStr (tc_expected_grantee_ca ctx)
    \<and> (\<forall>req. tc_required_capabilities ctx = Some req \<longrightarrow> PStr ` set req \<subseteq> set (tr_trust_scope f))
    \<and> (\<forall>p. tc_target_node_path ctx = Some p \<longrightarrow> (\<exists>s. PStr s \<in> set (tr_nodes f) \<and> nwp_path_matches s p))"
proof -
  let ?now = "case tc_as_of ctx of Some n \<Rightarrow> n | None \<Rightarrow> clock"
  have shape: "all_nonblank [tr_grantor_nid f, tr_grantee_ca f, tr_issued_at f, tr_expires_at f, tr_serial f, tr_signer_nid f,
                             tr_signature f] = Inr True"
    using assms by (auto simp: trust_validate_def res_bind_eq_Inr split: if_splits)
  obtain t where t: "parse_timestamp rd_iso (tr_expires_at f) = Inr (Some t)" "\<not> t \<le> ?now"
    and g: "tr_grantor_nid f \<in> PStr ` set (tc_trusted_grantors ctx)" "tr_grantee_ca f = PStr (tc_expected_grantee_ca ctx)"
    and s: "trust_scope_check f (tc_required_capabilities ctx) = Inr Accept" "trust_node_check f (tc_target_node_path ctx) = Inr Accept"
    using assms unfolding trust_validate_def res_bind_eq_Inr
    by (auto simp: res_bind_eq_Inr and_then_Accept split: if_splits option.splits)
  have "\<forall>req. tc_required_capabilities ctx = Some req \<longrightarrow> PStr ` set req \<subseteq> set (tr_trust_scope f)"
    using s(1) by (auto simp: trust_scope_check_def filter_empty_conv split: option.splits if_splits)
  moreover have "\<forall>p. tc_target_node_path ctx = Some p \<longrightarrow> (\<exists>s. PStr s \<in> set (tr_nodes f) \<and> nwp_path_matches s p)"
    using s(2) any_covers_True by (auto simp: trust_node_check_def res_bind_eq_Inr split: if_splits)
  moreover have "\<exists>t. parse_timestamp rd_iso (tr_expires_at f) = Inr (Some t) \<and> ?now < t" using t by auto
  ultimately show ?thesis using shape [unfolded all_nonblank_True] g by simp
qed

theorem trust_validate_sound_witness:
  "trust_validate ex_iso 0 \<lparr>tr_grantor_nid = PStr ''g'', tr_grantee_ca = PStr ''ca'', tr_trust_scope = [PStr ''read''],
      tr_nodes = [PStr ''*''], tr_issued_at = PStr ''2026Z'', tr_expires_at = PStr ''2026Z'', tr_serial = PStr ''1'',
      tr_signer_nid = PStr ''g'', tr_signature = PStr ''s''\<rparr>
    \<lparr>tc_trusted_grantors = [''g''], tc_expected_grantee_ca = ''ca'', tc_required_capabilities = Some [''read''],
     tc_target_node_path = Some ''/x'', tc_as_of = Some 100\<rparr> = Inr Accept \<and> PStr ` set [''read''] \<subseteq> set [PStr ''read'']"
  (is "?v = Inr Accept \<and> ?s")
proof
  show v: "?v = Inr Accept" by code_simp
  from trust_validate_sound [OF v] show ?s by simp
qed

end
