(* ===== verification/NipRa.thy ===== *)
theory NipRa
  imports NipCa
begin

text \<open>
  The registration authority, \<open>nps_sdk/nip/ca/ra.py\<close>: the enrollment policies that gate registration (an
  allowlist of patterns, single-use bootstrap tokens, an approval queue) and their in-memory stores.

  The clock, random identifiers and SHA-256 (\<open>sha\<close>) are arguments.
\<close>

section \<open>Errors\<close>

definition RA_TOKEN_INVALID :: string where "RA_TOKEN_INVALID = ''NIP-RA-TOKEN-INVALID''"
definition RA_TOKEN_EXPIRED :: string where "RA_TOKEN_EXPIRED = ''NIP-RA-TOKEN-EXPIRED''"
definition RA_NID_NOT_ALLOWED :: string where "RA_NID_NOT_ALLOWED = ''NIP-RA-NID-NOT-ALLOWED''"

section \<open>The allowlist\<close>

definition newline :: char where "newline = CHR 0x0A"

text \<open>
  \<open>_glob_to_regex\<close> with \<open>match\<close>: a star stands for any text without a newline, a question mark for one
  character other than a newline, and the final \<open>$\<close> also matches before a trailing newline.
\<close>

fun glob_match :: "string \<Rightarrow> string \<Rightarrow> bool" where
  "glob_match [] s = (s = [] \<or> s = [newline])"
| "glob_match (p # ps) s =
     (if p = CHR ''*'' then glob_match ps s \<or> (case s of [] \<Rightarrow> False | c # cs \<Rightarrow> c \<noteq> newline \<and> glob_match (p # ps) cs)
      else if p = CHR ''?'' then (case s of [] \<Rightarrow> False | c # cs \<Rightarrow> c \<noteq> newline \<and> glob_match ps cs)
      else (case s of [] \<Rightarrow> False | c # cs \<Rightarrow> c = p \<and> glob_match ps cs))"

definition pattern_admits :: "string \<Rightarrow> string \<Rightarrow> bool" where
  "pattern_admits pattern identifier = (pattern = ''*'' \<or> glob_match pattern identifier)"

definition allowlist_check :: "string list \<Rightarrow> string \<Rightarrow> unit res" where
  "allowlist_check patterns identifier =
     (if \<exists>p \<in> set patterns. pattern_admits p identifier then Inr () else Inl (NipCaException RA_NID_NOT_ALLOWED))"

section \<open>Bootstrap tokens\<close>

record token_entry =
  te_id :: string
  te_hash :: bytes
  te_label :: "string option"
  te_created_at :: int
  te_expires_at :: int
  te_consumed :: bool
  te_revoked :: bool

record token_info =
  ti_id :: string
  ti_label :: "string option"
  ti_created_at :: int
  ti_expires_at :: int
  ti_consumed :: bool
  ti_revoked :: bool

type_synonym token_store = "token_entry list"

text \<open>\<open>rand\<close> is the hexadecimal text of the random bytes.\<close>

definition create_token ::
  "(string \<Rightarrow> bytes) \<Rightarrow> string \<Rightarrow> string \<Rightarrow> int \<Rightarrow> string option \<Rightarrow> int \<Rightarrow> token_store \<Rightarrow> string \<times> token_store" where
  "create_token sha rand token_id now label expires_at tokens =
     (let raw = ''nps-bootstrap-'' @ rand in
      (raw, tokens @ [\<lparr>te_id = token_id, te_hash = sha raw, te_label = label, te_created_at = now, te_expires_at = expires_at,
                       te_consumed = False, te_revoked = False\<rparr>]))"

definition token_usable :: "bytes \<Rightarrow> int \<Rightarrow> token_entry \<Rightarrow> bool" where
  "token_usable h now e \<longleftrightarrow> \<not> te_consumed e \<and> \<not> te_revoked e \<and> \<not> now > te_expires_at e \<and> te_hash e = h"

text \<open>The loop of \<open>validate_and_consume\<close>; \<open>clk\<close> gives the clock reading for each entry visited.\<close>

fun consume_loop :: "bytes \<Rightarrow> (nat \<Rightarrow> int) \<Rightarrow> nat \<Rightarrow> token_store \<Rightarrow> bool \<times> token_store" where
  "consume_loop h clk i [] = (False, [])"
| "consume_loop h clk i (e # es) =
     (if token_usable h (clk i) e then (True, e\<lparr>te_consumed := True\<rparr> # es)
      else (let (ok, rest) = consume_loop h clk (i + 1) es in (ok, e # rest)))"

definition validate_and_consume :: "(string \<Rightarrow> bytes) \<Rightarrow> (nat \<Rightarrow> int) \<Rightarrow> string \<Rightarrow> token_store \<Rightarrow> bool \<times> token_store" where
  "validate_and_consume sha clk token tokens = consume_loop (sha token) clk 0 tokens"

definition list_tokens :: "token_store \<Rightarrow> token_info list" where
  "list_tokens tokens =
     map (\<lambda>e. \<lparr>ti_id = te_id e, ti_label = te_label e, ti_created_at = te_created_at e, ti_expires_at = te_expires_at e,
               ti_consumed = te_consumed e, ti_revoked = te_revoked e\<rparr>) tokens"

fun revoke_token :: "string \<Rightarrow> token_store \<Rightarrow> bool \<times> token_store" where
  "revoke_token token_id [] = (False, [])"
| "revoke_token token_id (e # es) =
     (if te_id e \<noteq> token_id then (let (ok, rest) = revoke_token token_id es in (ok, e # rest))
      else if te_consumed e \<or> te_revoked e then (False, e # es)
      else (True, e\<lparr>te_revoked := True\<rparr> # es))"

definition bootstrap_check ::
  "(string \<Rightarrow> bytes) \<Rightarrow> (nat \<Rightarrow> int) \<Rightarrow> string option \<Rightarrow> token_store \<Rightarrow> unit res \<times> token_store" where
  "bootstrap_check sha clk token tokens =
     (case token of
        None \<Rightarrow> (Inl (NipCaException RA_TOKEN_INVALID), tokens)
      | Some t \<Rightarrow>
          if t = [] \<or> \<not> py_startswith t ''nps-bootstrap-'' then (Inl (NipCaException RA_TOKEN_INVALID), tokens)
          else (let (ok, tokens') = validate_and_consume sha clk t tokens in
                (if ok then Inr () else Inl (NipCaException RA_TOKEN_EXPIRED), tokens')))"

section \<open>The approval queue\<close>

datatype pending_status = PENDING_REVIEW | APPROVED | REJECTED_REVIEW

record pending_registration =
  pr_id :: string
  pr_entity_type :: string
  pr_identifier :: string
  pr_pub_key :: string
  pr_capabilities :: "string list"
  pr_scope_json :: string
  pr_metadata_json :: "string option"
  pr_requested_at :: int
  pr_status :: pending_status
  pr_reject_reason :: "string option"

type_synonym pending_store = "pending_registration dict"

definition pending_count :: "pending_store \<Rightarrow> nat" where
  "pending_count recs = length (filter (\<lambda>kv. pr_status (snd kv) = PENDING_REVIEW) recs)"

definition stale :: "int \<Rightarrow> pending_registration \<Rightarrow> bool" where
  "stale cutoff r \<longleftrightarrow> pr_status r \<noteq> PENDING_REVIEW \<and> pr_requested_at r < cutoff"

definition sweep_pending :: "int \<Rightarrow> int \<Rightarrow> pending_store \<Rightarrow> pending_store res" where
  "sweep_pending max_age now recs =
     res_bind (time_plus now (- max_age)) (\<lambda>cutoff.
       Inr (foldl (\<lambda>d rid. dict_pop rid d) recs (map (\<lambda>kv. pr_id (snd kv)) (filter (\<lambda>kv. stale cutoff (snd kv)) recs))))"

definition enqueue :: "int \<Rightarrow> int \<Rightarrow> pending_registration \<Rightarrow> (pending_store, string) effectful" where
  "enqueue max_age now request =
     st_bind (st_read (sweep_pending max_age now)) (\<lambda>swept.
     st_bind (st_lift swept) (\<lambda>recs.
     st_bind (st_write (\<lambda>_. dict_set (pr_id request) request recs)) (\<lambda>_.
       st_lift (Inr (pr_id request)))))"

definition get_pending :: "string \<Rightarrow> pending_store \<Rightarrow> pending_registration option" where
  "get_pending i recs = dict_get recs i"

definition decide :: "string \<Rightarrow> (pending_registration \<Rightarrow> pending_registration) \<Rightarrow> pending_store \<Rightarrow> bool \<times> pending_store" where
  "decide i f recs =
     (case dict_get recs i of
        None \<Rightarrow> (False, recs)
      | Some r \<Rightarrow> if pr_status r \<noteq> PENDING_REVIEW then (False, recs) else (True, dict_set i (f r) recs))"

definition approve :: "string \<Rightarrow> pending_store \<Rightarrow> bool \<times> pending_store" where
  "approve i recs = decide i (\<lambda>r. r\<lparr>pr_status := APPROVED\<rparr>) recs"

definition reject_pending :: "string \<Rightarrow> string \<Rightarrow> pending_store \<Rightarrow> bool \<times> pending_store" where
  "reject_pending i reason recs = decide i (\<lambda>r. r\<lparr>pr_status := REJECTED_REVIEW, pr_reject_reason := Some reason\<rparr>) recs"

definition queue_check ::
  "int \<Rightarrow> int \<Rightarrow> string \<Rightarrow> int \<Rightarrow> int \<Rightarrow> string \<Rightarrow> string \<Rightarrow> string \<Rightarrow> string list \<Rightarrow> string \<Rightarrow> string option \<Rightarrow> (pending_store, unit) effectful" where
  "queue_check max_size max_age pid requested_at now entity_type identifier pub_key caps scope_json metadata_json =
     st_bind (st_read pending_count) (\<lambda>n.
     st_bind (st_when (int n \<ge> max_size) (NipCaException RA_TOKEN_INVALID)) (\<lambda>_.
     st_bind (enqueue max_age now
       \<lparr>pr_id = pid, pr_entity_type = entity_type, pr_identifier = identifier, pr_pub_key = pub_key, pr_capabilities = caps,
        pr_scope_json = scope_json, pr_metadata_json = metadata_json, pr_requested_at = requested_at, pr_status = PENDING_REVIEW,
        pr_reject_reason = None\<rparr>) (\<lambda>_.
       st_lift (Inl (NipRaPendingException pid)))))"

section \<open>Choosing a policy\<close>

datatype enrollment_tier = ALLOWLIST | BOOTSTRAP_TOKEN | PENDING_QUEUE

record ra_options =
  ra_tier :: enrollment_tier
  ra_patterns :: "string list"
  ra_max_size :: int
  ra_max_age :: int

datatype policy = AllowlistPolicy "string list" | BootstrapTokenPolicy | PendingQueuePolicy int

definition create_enrollment_policy :: "ra_options \<Rightarrow> bool \<Rightarrow> bool \<Rightarrow> policy res" where
  "create_enrollment_policy opts has_tokens has_pending =
     (case ra_tier opts of
        ALLOWLIST \<Rightarrow> Inr (AllowlistPolicy (ra_patterns opts))
      | BOOTSTRAP_TOKEN \<Rightarrow> if has_tokens then Inr BootstrapTokenPolicy else Inl ValueError
      | PENDING_QUEUE \<Rightarrow> if has_pending then Inr (PendingQueuePolicy (ra_max_size opts)) else Inl ValueError)"

text \<open>The state behind the policies, and one registration request with the readings it takes.\<close>

record ra_state =
  ra_tokens :: token_store
  ra_pending :: pending_store

record enrollment =
  eq_entity_type :: string
  eq_identifier :: string
  eq_pub_key :: string
  eq_capabilities :: "string list"
  eq_scope_json :: string
  eq_metadata_json :: "string option"
  eq_token :: "string option"
  eq_clock :: "nat \<Rightarrow> int"
  eq_pending_id :: string

fun policy_check :: "(string \<Rightarrow> bytes) \<Rightarrow> int \<Rightarrow> policy \<Rightarrow> enrollment \<Rightarrow> ra_state \<Rightarrow> unit res \<times> ra_state" where
  "policy_check sha max_age (AllowlistPolicy patterns) q s = (allowlist_check patterns (eq_identifier q), s)"
| "policy_check sha max_age BootstrapTokenPolicy q s =
     (let (r, tokens) = bootstrap_check sha (eq_clock q) (eq_token q) (ra_tokens s) in (r, s\<lparr>ra_tokens := tokens\<rparr>))"
| "policy_check sha max_age (PendingQueuePolicy max_size) q s =
     (let (r, recs) = queue_check max_size max_age (eq_pending_id q) (eq_clock q 0) (eq_clock q 1) (eq_entity_type q) (eq_identifier q)
                        (eq_pub_key q) (eq_capabilities q) (eq_scope_json q) (eq_metadata_json q) (ra_pending s)
      in (r, s\<lparr>ra_pending := recs\<rparr>))"

text \<open>\<open>register_with_ra\<close>: the check of the policy runs first, the authority registers only when it passes.\<close>

definition enroll_with ::
  "ca_lib \<Rightarrow> ca_options \<Rightarrow> (enrollment \<Rightarrow> ra_state \<Rightarrow> unit res \<times> ra_state) \<Rightarrow> int \<Rightarrow> enrollment \<Rightarrow> ra_state \<times> ca_store
     \<Rightarrow> ident_frame res \<times> ra_state \<times> ca_store" where
  "enroll_with L opts check now q s =
     (let (outcome, ra) = check q (fst s);
          (r, ca) = register_with_ra L opts (Some outcome) now (eq_entity_type q) (eq_identifier q) (eq_pub_key q)
                      (eq_capabilities q) (eq_scope_json q) (eq_metadata_json q) (snd s)
      in (r, ra, ca))"

definition enroll ::
  "ca_lib \<Rightarrow> ca_options \<Rightarrow> (string \<Rightarrow> bytes) \<Rightarrow> int \<Rightarrow> policy \<Rightarrow> int \<Rightarrow> enrollment \<Rightarrow> ra_state \<times> ca_store
     \<Rightarrow> ident_frame res \<times> ra_state \<times> ca_store" where
  "enroll L opts sha max_age p = enroll_with L opts (policy_check sha max_age p)"

section \<open>Runs\<close>

text \<open>Requests of agents interleaved with the operator's actions on the stores.\<close>

datatype ra_event =
    Enroll int enrollment
  | CreateToken string string int "string option" int
  | RevokeToken string
  | Approve string
  | RejectRequest string string

fun operate :: "(string \<Rightarrow> bytes) \<Rightarrow> ra_event \<Rightarrow> ra_state \<Rightarrow> ra_state" where
  "operate sha (CreateToken rand token_id now label expires_at) s =
     s\<lparr>ra_tokens := snd (create_token sha rand token_id now label expires_at (ra_tokens s))\<rparr>"
| "operate sha (RevokeToken token_id) s = s\<lparr>ra_tokens := snd (revoke_token token_id (ra_tokens s))\<rparr>"
| "operate sha (Approve i) s = s\<lparr>ra_pending := snd (approve i (ra_pending s))\<rparr>"
| "operate sha (RejectRequest i reason) s = s\<lparr>ra_pending := snd (reject_pending i reason (ra_pending s))\<rparr>"
| "operate sha (Enroll now q) s = s"

definition ra_do ::
  "ca_lib \<Rightarrow> ca_options \<Rightarrow> (string \<Rightarrow> bytes) \<Rightarrow> (enrollment \<Rightarrow> ra_state \<Rightarrow> unit res \<times> ra_state) \<Rightarrow> ra_event
     \<Rightarrow> ra_state \<times> ca_store \<Rightarrow> ra_state \<times> ca_store" where
  "ra_do L opts sha check ev s =
     (case ev of Enroll now q \<Rightarrow> snd (enroll_with L opts check now q s) | _ \<Rightarrow> (operate sha ev (fst s), snd s))"

definition empty_ra :: ra_state where
  "empty_ra = \<lparr>ra_tokens = [], ra_pending = []\<rparr>"

definition consumed :: "token_store \<Rightarrow> nat" where
  "consumed tokens = length (filter te_consumed tokens)"

definition revoked_tokens :: "token_store \<Rightarrow> nat" where
  "revoked_tokens tokens = length (filter te_revoked tokens)"

definition created :: "ra_event list \<Rightarrow> nat" where
  "created evs = length (filter (\<lambda>e. case e of CreateToken _ _ _ _ _ \<Rightarrow> True | _ \<Rightarrow> False) evs)"

section \<open>What a registration adds\<close>

lemma register_adds:
  "ca_records (snd (register L opts now et i pk cs sj m s)) = ca_records s
   \<or> (\<exists>r. cr_nid r = build_nid opts et i \<and> ca_records (snd (register L opts now et i pk cs sj m s)) = ca_records s @ [r])"
  by (auto simp: register_def certify_def ca_save_def st_bind_def require_unused_run Let_def split: sum.splits)

lemma enroll_with_cases:
  assumes "snd (enroll_with L opts check now q (ra, ca)) = (ra', ca')"
  obtains (refused) e where "check q ra = (Inl e, ra')" "ca_records ca' = ca_records ca"
    | (admitted) "check q ra = (Inr (), ra')"
        "ca_records ca' = ca_records ca
         \<or> (\<exists>r. cr_nid r = build_nid opts (eq_entity_type q) (eq_identifier q) \<and> ca_records ca' = ca_records ca @ [r])"
proof (cases "check q ra")
  case (Pair outcome ra1)
  show thesis
  proof (cases outcome)
    case (Inl e)
    then show thesis using assms Pair by (auto simp: enroll_with_def register_with_ra_def st_bind_def st_lift_def intro: refused)
  next
    case (Inr u)
    then have "ra1 = ra'" "ca' = snd (register L opts now (eq_entity_type q) (eq_identifier q) (eq_pub_key q) (eq_capabilities q)
        (eq_scope_json q) (eq_metadata_json q) ca)"
      using assms Pair by (auto simp: enroll_with_def register_with_ra_def st_bind_def st_lift_def split: prod.splits)
    with Inr Pair register_adds show thesis by (intro admitted) auto
  qed
qed

text \<open>
  The contract of \<open>IEnrollmentPolicy\<close>: a check that passes vouches for the request. A metered policy also
  spends one unit for every request it lets through, and the operator cannot give units back.
\<close>

locale gate =
  fixes check :: "enrollment \<Rightarrow> ra_state \<Rightarrow> unit res \<times> ra_state"
    and vouched :: "enrollment \<Rightarrow> bool"
  assumes passes: "check q s = (Inr (), s') \<Longrightarrow> vouched q"
begin

lemma records_vouched:
  assumes "r \<in> set (ca_records (snd (fold (ra_do L opts sha check) evs s)))" "r \<notin> set (ca_records (snd s))"
  shows "\<exists>now q. Enroll now q \<in> set evs \<and> vouched q \<and> cr_nid r = build_nid opts (eq_entity_type q) (eq_identifier q)"
  using assms
proof (induction evs arbitrary: s)
  case (Cons ev evs)
  let ?s = "ra_do L opts sha check ev s"
  show ?case
  proof (cases "r \<in> set (ca_records (snd ?s))")
    case False
    with Cons.IH [of ?s] Cons.prems(1) show ?thesis by auto
  next
    case True
    then obtain now q where ev: "ev = Enroll now q"
      using Cons.prems(2) by (auto simp: ra_do_def split: ra_event.splits)
    then have "snd (enroll_with L opts check now q (fst s, snd s)) = (fst ?s, snd ?s)"
      by (simp add: ra_do_def)
    then have "vouched q \<and> cr_nid r = build_nid opts (eq_entity_type q) (eq_identifier q)"
      by (cases rule: enroll_with_cases) (use True Cons.prems(2) in \<open>auto dest: passes\<close>)
    with ev show ?thesis by auto
  qed
qed simp

end

locale metered_gate = gate +
  fixes spent :: "ra_state \<Rightarrow> nat"
  assumes spends: "check q s = (Inr (), s') \<Longrightarrow> spent s' = Suc (spent s)"
    and refuses: "check q s = (Inl e, s') \<Longrightarrow> spent s' = spent s"
    and operator: "spent (operate sha ev s) = spent s"
begin

lemma records_paid:
  "length (ca_records (snd (fold (ra_do L opts sha check) evs s))) + spent (fst s)
   \<le> length (ca_records (snd s)) + spent (fst (fold (ra_do L opts sha check) evs s))"
proof (induction evs arbitrary: s)
  case (Cons ev evs)
  let ?s = "ra_do L opts sha check ev s"
  have "length (ca_records (snd ?s)) + spent (fst s) \<le> length (ca_records (snd s)) + spent (fst ?s)"
  proof (cases "\<exists>now q. ev = Enroll now q")
    case True
    then obtain now q where "snd (enroll_with L opts check now q (fst s, snd s)) = (fst ?s, snd ?s)"
      by (auto simp: ra_do_def)
    then show ?thesis
      by (cases rule: enroll_with_cases) (auto dest: spends refuses)
  next
    case False
    then show ?thesis using operator [of sha ev "fst s"] by (auto simp: ra_do_def split: ra_event.splits)
  qed
  with Cons.IH [of ?s] show ?case by simp
qed simp

end

section \<open>The tokens\<close>

lemma consume_loop_cases:
  "consume_loop h clk i es = (False, es) \<and> (\<forall>j < length es. \<not> token_usable h (clk (i + j)) (es ! j))
   \<or> (\<exists>xs e ys. es = xs @ e # ys \<and> token_usable h (clk (i + length xs)) e
        \<and> consume_loop h clk i es = (True, xs @ e\<lparr>te_consumed := True\<rparr> # ys))"
proof (induction es arbitrary: i)
  case (Cons e es)
  show ?case
  proof (cases "token_usable h (clk i) e")
    case True
    then show ?thesis by (intro disjI2 exI [of _ "[]"]) simp
  next
    case False
    from Cons.IH [of "i + 1"] show ?thesis
    proof (elim disjE conjE exE)
      assume "consume_loop h clk (i + 1) es = (False, es)" "\<forall>j < length es. \<not> token_usable h (clk (i + 1 + j)) (es ! j)"
      then show ?thesis using False by (auto simp: less_Suc_eq_0_disj nth_Cons')
    next
      fix xs e' ys
      assume "es = xs @ e' # ys" "token_usable h (clk (i + 1 + length xs)) e'"
        "consume_loop h clk (i + 1) es = (True, xs @ e'\<lparr>te_consumed := True\<rparr> # ys)"
      then show ?thesis using False by (intro disjI2 exI [of _ "e # xs"]) simp
    qed
  qed
qed simp

lemma revoke_token_cases:
  "revoke_token i es = (False, es)
   \<or> (\<exists>xs e ys. es = xs @ e # ys \<and> \<not> te_consumed e \<and> \<not> te_revoked e
        \<and> revoke_token i es = (True, xs @ e\<lparr>te_revoked := True\<rparr> # ys))"
proof (induction es)
  case (Cons e es)
  show ?case
  proof (cases "te_id e = i")
    case True
    then show ?thesis by (cases "te_consumed e \<or> te_revoked e") (auto intro!: exI [of _ "[]"])
  next
    case False
    from Cons.IH show ?thesis
    proof (elim disjE conjE exE)
      fix xs e' ys
      assume "es = xs @ e' # ys" "\<not> te_consumed e'" "\<not> te_revoked e'"
        "revoke_token i es = (True, xs @ e'\<lparr>te_revoked := True\<rparr> # ys)"
      then show ?thesis using False by (intro disjI2 exI [of _ "e # xs"]) simp
    qed (use False in simp)
  qed
qed simp

lemma bootstrap_check_cases:
  assumes "bootstrap_check sha clk token es = (r, es')"
  obtains (refused) e where "r = Inl (NipCaException e)" "es' = es"
    | (taken) t xs e ys where "r = Inr ()" "token = Some t" "py_startswith t ''nps-bootstrap-''" "es = xs @ e # ys"
        "token_usable (sha t) (clk (length xs)) e" "es' = xs @ e\<lparr>te_consumed := True\<rparr> # ys"
proof (cases "\<exists>t. token = Some t \<and> t \<noteq> [] \<and> py_startswith t ''nps-bootstrap-''")
  case False
  then show thesis using assms by (intro refused) (auto simp: bootstrap_check_def split: option.splits if_splits)
next
  case True
  then obtain t where t: "token = Some t" "t \<noteq> []" "py_startswith t ''nps-bootstrap-''" by blast
  show thesis
    using consume_loop_cases [of "sha t" clk 0 es]
  proof (elim disjE conjE exE)
    assume "consume_loop (sha t) clk 0 es = (False, es)"
    then show thesis using assms t by (intro refused) (auto simp: bootstrap_check_def validate_and_consume_def)
  next
    fix xs e ys
    assume "es = xs @ e # ys" "token_usable (sha t) (clk (0 + length xs)) e"
      "consume_loop (sha t) clk 0 es = (True, xs @ e\<lparr>te_consumed := True\<rparr> # ys)"
    then show thesis using assms t by (intro taken [of t xs e ys]) (auto simp: bootstrap_check_def validate_and_consume_def)
  qed
qed

definition tokens_ok :: "token_store \<Rightarrow> bool" where
  "tokens_ok tokens \<longleftrightarrow> list_all (\<lambda>e. \<not> (te_consumed e \<and> te_revoked e)) tokens"

lemma tokens_ok_count: "tokens_ok tokens \<Longrightarrow> consumed tokens + revoked_tokens tokens \<le> length tokens"
  by (induction tokens) (auto simp: tokens_ok_def consumed_def revoked_tokens_def)

lemma revoke_token_counts:
  "consumed (snd (revoke_token i es)) = consumed es"
  "length (snd (revoke_token i es)) = length es"
  "tokens_ok es \<Longrightarrow> tokens_ok (snd (revoke_token i es))"
  using revoke_token_cases [of i es] by (auto simp: consumed_def tokens_ok_def)

lemma consumed_appended: "consumed (es @ [e]) = consumed es + (if te_consumed e then 1 else 0)"
  by (simp add: consumed_def)

lemma tokens_ok_appended: "tokens_ok (es @ [e]) \<longleftrightarrow> tokens_ok es \<and> \<not> (te_consumed e \<and> te_revoked e)"
  by (simp add: tokens_ok_def)

lemma operate_tokens:
  "consumed (ra_tokens (operate sha ev s)) = consumed (ra_tokens s)"
  "length (ra_tokens (operate sha ev s)) = length (ra_tokens s) + created [ev]"
  "tokens_ok (ra_tokens s) \<Longrightarrow> tokens_ok (ra_tokens (operate sha ev s))"
  by (cases ev; simp add: create_token_def revoke_token_counts created_def Let_def consumed_appended tokens_ok_appended)+

lemma policy_check_tokens:
  assumes "policy_check sha max_age p q s = (r, s')"
  shows "length (ra_tokens s') = length (ra_tokens s)" "tokens_ok (ra_tokens s) \<Longrightarrow> tokens_ok (ra_tokens s')"
proof -
  have "length (ra_tokens s') = length (ra_tokens s) \<and> (tokens_ok (ra_tokens s) \<longrightarrow> tokens_ok (ra_tokens s'))"
  proof (cases p)
    case BootstrapTokenPolicy
    obtain r1 es where b: "bootstrap_check sha (eq_clock q) (eq_token q) (ra_tokens s) = (r1, es)"
      by (cases "bootstrap_check sha (eq_clock q) (eq_token q) (ra_tokens s)")
    then have s': "s' = s\<lparr>ra_tokens := es\<rparr>" using assms BootstrapTokenPolicy by simp
    from b show ?thesis
      by (cases rule: bootstrap_check_cases) (auto simp: s' tokens_ok_def token_usable_def)
  qed (use assms in \<open>auto split: prod.splits\<close>)
  then show "length (ra_tokens s') = length (ra_tokens s)" "tokens_ok (ra_tokens s) \<Longrightarrow> tokens_ok (ra_tokens s')" by auto
qed

lemma run_tokens:
  assumes "tokens_ok (ra_tokens (fst s))"
  shows "tokens_ok (ra_tokens (fst (fold (ra_do L opts sha (policy_check sha max_age p)) evs s)))
    \<and> length (ra_tokens (fst (fold (ra_do L opts sha (policy_check sha max_age p)) evs s))) = length (ra_tokens (fst s)) + created evs"
  using assms
proof (induction evs arbitrary: s)
  case (Cons ev evs)
  let ?s = "ra_do L opts sha (policy_check sha max_age p) ev s"
  have "tokens_ok (ra_tokens (fst ?s)) \<and> length (ra_tokens (fst ?s)) = length (ra_tokens (fst s)) + created [ev]"
  proof (cases "\<exists>now q. ev = Enroll now q")
    case True
    then obtain now q where ev: "ev = Enroll now q"
      and "snd (enroll_with L opts (policy_check sha max_age p) now q (fst s, snd s)) = (fst ?s, snd ?s)"
      by (auto simp: ra_do_def)
    from this(2) show ?thesis
      by (cases rule: enroll_with_cases) (use ev Cons.prems policy_check_tokens in \<open>auto simp: created_def\<close>)
  next
    case False
    then show ?thesis using operate_tokens(2,3) [where sha = sha and ev = ev and s = "fst s"] Cons.prems
      by (auto simp: ra_do_def split: ra_event.splits)
  qed
  with Cons.IH [of ?s] show ?case by (simp add: created_def)
qed (simp add: created_def)

section \<open>The queue\<close>

definition queue_ok :: "int \<Rightarrow> pending_store \<Rightarrow> bool" where
  "queue_ok max_size recs \<longleftrightarrow> distinct (map fst recs) \<and> int (pending_count recs) \<le> max 0 max_size"

lemma pending_count_dict: "pending_count recs = dict_count (\<lambda>r. pr_status r = PENDING_REVIEW) recs"
  by (simp add: pending_count_def dict_count_def case_prod_unfold)

lemma pending_count_pop: "distinct (map fst recs) \<Longrightarrow> pending_count (dict_pop k recs) \<le> pending_count recs"
  unfolding pending_count_dict
  using dict_count_pop [of recs "\<lambda>r. pr_status r = PENDING_REVIEW" k] by linarith

lemma pending_pops:
  "distinct (map fst recs) \<Longrightarrow>
     distinct (map fst (foldl (\<lambda>d k. dict_pop k d) recs ks))
     \<and> pending_count (foldl (\<lambda>d k. dict_pop k d) recs ks) \<le> pending_count recs"
proof (induction ks arbitrary: recs)
  case (Cons k ks)
  then show ?case
    using pending_count_pop [of recs k] Cons.IH [of "dict_pop k recs"] distinct_dict_pop [of recs k] by force
qed simp

lemma pending_count_set:
  "distinct (map fst recs) \<Longrightarrow> pending_count (dict_set k r recs) \<le> pending_count recs + (if pr_status r = PENDING_REVIEW then 1 else 0)"
  unfolding pending_count_dict
  using dict_count_set [of recs "\<lambda>r. pr_status r = PENDING_REVIEW" k r] by linarith

lemma queue_check_cases:
  assumes "queue_check max_size max_age pid at0 now et i pk cs sj m recs = (r, recs')"
  shows "\<exists>e. r = Inl e"
    and "recs' = recs \<or> int (pending_count recs) < max_size \<and> (\<exists>q ks. recs' = dict_set pid q (foldl (\<lambda>d k. dict_pop k d) recs ks))"
proof -
  have "queue_check max_size max_age pid at0 now et i pk cs sj m recs =
    (if int (pending_count recs) \<ge> max_size then (Inl (NipCaException RA_TOKEN_INVALID), recs)
     else case sweep_pending max_age now recs of
            Inl e \<Rightarrow> (Inl e, recs)
          | Inr swept \<Rightarrow>
              (Inl (NipRaPendingException pid),
               dict_set pid \<lparr>pr_id = pid, pr_entity_type = et, pr_identifier = i, pr_pub_key = pk, pr_capabilities = cs,
                 pr_scope_json = sj, pr_metadata_json = m, pr_requested_at = at0, pr_status = PENDING_REVIEW,
                 pr_reject_reason = None\<rparr> swept))"
    by (simp add: queue_check_def enqueue_def st_bind_def st_read_def st_when_def st_lift_def st_write_def split: sum.split)
  with assms show "\<exists>e. r = Inl e"
    "recs' = recs \<or> int (pending_count recs) < max_size \<and> (\<exists>q ks. recs' = dict_set pid q (foldl (\<lambda>d k. dict_pop k d) recs ks))"
    by (auto simp: sweep_pending_def res_bind_eq_Inr split: if_splits sum.splits)
qed

lemma queue_check_ok:
  assumes "queue_check max_size max_age pid at0 now et i pk cs sj m recs = (r, recs')" "queue_ok max_size recs"
  shows "queue_ok max_size recs'"
  using queue_check_cases(2) [OF assms(1)]
proof (elim disjE conjE exE)
  fix q ks
  assume room: "int (pending_count recs) < max_size" and recs': "recs' = dict_set pid q (foldl (\<lambda>d k. dict_pop k d) recs ks)"
  have "distinct (map fst (foldl (\<lambda>d k. dict_pop k d) recs ks))"
    "pending_count (foldl (\<lambda>d k. dict_pop k d) recs ks) \<le> pending_count recs"
    using pending_pops assms(2) by (auto simp: queue_ok_def)
  then show ?thesis
    using room pending_count_set [of "foldl (\<lambda>d k. dict_pop k d) recs ks" pid q]
    by (auto simp: queue_ok_def recs' distinct_dict_set split: if_splits)
qed (use assms(2) in simp)

lemma decide_queue:
  assumes "queue_ok n recs" "\<And>r. pr_status (f r) \<noteq> PENDING_REVIEW"
  shows "queue_ok n (snd (decide i f recs))"
proof -
  have "int (pending_count (dict_set i (f r) recs)) \<le> max 0 n" for r
    using pending_count_set [of recs i "f r"] assms by (auto simp: queue_ok_def)
  then show ?thesis
    using assms(1) by (auto simp: decide_def queue_ok_def distinct_dict_set split: option.splits)
qed

lemma operate_queue: "queue_ok n (ra_pending s) \<Longrightarrow> queue_ok n (ra_pending (operate sha ev s))"
  by (cases ev) (auto simp: approve_def reject_pending_def intro: decide_queue)

section \<open>The policies as gates\<close>

definition allowlisted :: "string list \<Rightarrow> enrollment \<Rightarrow> bool" where
  "allowlisted patterns q \<longleftrightarrow> (\<exists>p \<in> set patterns. pattern_admits p (eq_identifier q))"

definition presents_token :: "enrollment \<Rightarrow> bool" where
  "presents_token q \<longleftrightarrow> (\<exists>t. eq_token q = Some t \<and> py_startswith t ''nps-bootstrap-'')"

declare policy_check.simps [simp del]

interpretation allowlist: gate "policy_check sha max_age (AllowlistPolicy patterns)" "allowlisted patterns" for sha max_age patterns
  by unfold_locales (auto simp: policy_check.simps allowlist_check_def allowlisted_def split: if_splits)

interpretation approval: gate "policy_check sha max_age (PendingQueuePolicy max_size)" "\<lambda>_. False" for sha max_age max_size
  by unfold_locales (auto simp: policy_check.simps dest!: queue_check_cases(1) split: prod.splits)

lemma bootstrap_policy_cases:
  assumes "policy_check sha max_age BootstrapTokenPolicy q s = (r, s')"
  shows "r = Inr () \<and> presents_token q \<and> consumed (ra_tokens s') = Suc (consumed (ra_tokens s))
    \<or> (\<exists>e. r = Inl e) \<and> s' = s"
proof -
  obtain r1 es where b: "bootstrap_check sha (eq_clock q) (eq_token q) (ra_tokens s) = (r1, es)"
    by (cases "bootstrap_check sha (eq_clock q) (eq_token q) (ra_tokens s)")
  then have s': "r = r1" "s' = s\<lparr>ra_tokens := es\<rparr>" using assms by (simp_all add: policy_check.simps)
  from b show ?thesis
    by (cases rule: bootstrap_check_cases) (auto simp: s' presents_token_def token_usable_def consumed_def)
qed

interpretation bootstrap: metered_gate "policy_check sha max_age BootstrapTokenPolicy" presents_token "\<lambda>s. consumed (ra_tokens s)"
  for sha max_age
  by unfold_locales (auto dest: bootstrap_policy_cases simp: operate_tokens)

lemma queue_policy_ok:
  "policy_check sha max_age (PendingQueuePolicy max_size) q s = (r, s') \<Longrightarrow> queue_ok max_size (ra_pending s) \<Longrightarrow> queue_ok max_size (ra_pending s')"
  by (auto simp: policy_check.simps split: prod.splits intro: queue_check_ok)

lemma run_queue:
  assumes "queue_ok max_size (ra_pending (fst s))"
  shows "queue_ok max_size (ra_pending (fst (fold (ra_do L opts sha (policy_check sha max_age (PendingQueuePolicy max_size))) evs s)))"
  using assms
proof (induction evs arbitrary: s)
  case (Cons ev evs)
  let ?c = "policy_check sha max_age (PendingQueuePolicy max_size)"
  let ?s = "ra_do L opts sha ?c ev s"
  have "queue_ok max_size (ra_pending (fst ?s))"
  proof (cases "\<exists>now q. ev = Enroll now q")
    case True
    then obtain now q where "snd (enroll_with L opts ?c now q (fst s, snd s)) = (fst ?s, snd ?s)"
      by (auto simp: ra_do_def)
    then obtain r where "?c q (fst s) = (r, fst ?s)"
      by (cases rule: enroll_with_cases) auto
    then show ?thesis
      using Cons.prems by (rule queue_policy_ok)
  next
    case False
    then show ?thesis
      using operate_queue [OF Cons.prems, of sha ev] by (auto simp: ra_do_def split: ra_event.splits)
  qed
  then show ?case using Cons.IH by simp
qed simp

section \<open>One token, one use\<close>

text \<open>How often a token is accepted in a run, and how often it was created.\<close>

fun redeemed :: "(string \<Rightarrow> bytes) \<Rightarrow> int \<Rightarrow> string \<Rightarrow> ra_event list \<Rightarrow> ra_state \<Rightarrow> nat" where
  "redeemed sha max_age t [] s = 0"
| "redeemed sha max_age t (Enroll now q # evs) s =
     (let (r, s') = policy_check sha max_age BootstrapTokenPolicy q s in
      (if r = Inr () \<and> eq_token q = Some t then 1 else 0) + redeemed sha max_age t evs s')"
| "redeemed sha max_age t (ev # evs) s = redeemed sha max_age t evs (operate sha ev s)"

fun minted :: "(string \<Rightarrow> bytes) \<Rightarrow> string \<Rightarrow> ra_event list \<Rightarrow> nat" where
  "minted sha t [] = 0"
| "minted sha t (CreateToken rand i now label expires_at # evs) =
     (if sha (''nps-bootstrap-'' @ rand) = sha t then 1 else 0) + minted sha t evs"
| "minted sha t (ev # evs) = minted sha t evs"

definition unspent :: "bytes \<Rightarrow> token_store \<Rightarrow> nat" where
  "unspent h tokens = length (filter (\<lambda>e. te_hash e = h \<and> \<not> te_consumed e \<and> \<not> te_revoked e) tokens)"

lemma unspent_operate:
  "unspent (sha t) (ra_tokens (operate sha ev s)) \<le> unspent (sha t) (ra_tokens s) + minted sha t [ev]"
  using revoke_token_cases [of "case ev of RevokeToken i \<Rightarrow> i | _ \<Rightarrow> []" "ra_tokens s"]
  by (cases ev) (auto simp: create_token_def Let_def unspent_def)

lemma unspent_check:
  assumes "policy_check sha max_age BootstrapTokenPolicy q s = (r, s')"
  shows "(if r = Inr () \<and> eq_token q = Some t then 1 else 0) + unspent (sha t) (ra_tokens s') \<le> unspent (sha t) (ra_tokens s)"
proof -
  obtain r1 es where b: "bootstrap_check sha (eq_clock q) (eq_token q) (ra_tokens s) = (r1, es)"
    by (cases "bootstrap_check sha (eq_clock q) (eq_token q) (ra_tokens s)")
  then have s': "r = r1" "s' = s\<lparr>ra_tokens := es\<rparr>" using assms by (simp_all add: policy_check.simps)
  from b show ?thesis
    by (cases rule: bootstrap_check_cases) (auto simp: s' token_usable_def unspent_def)
qed

lemma redeemed_operate:
  "\<nexists>now q. ev = Enroll now q \<Longrightarrow> redeemed sha max_age t (ev # evs) s = redeemed sha max_age t evs (operate sha ev s)"
  by (cases ev) auto

lemma minted_Cons: "minted sha t (ev # evs) = minted sha t [ev] + minted sha t evs"
  by (cases ev) auto

lemma redeemed_bound: "redeemed sha max_age t evs s \<le> unspent (sha t) (ra_tokens s) + minted sha t evs"
proof (induction evs arbitrary: s)
  case (Cons ev evs)
  show ?case
  proof (cases "\<exists>now q. ev = Enroll now q")
    case True
    then obtain now q where ev: "ev = Enroll now q" by blast
    obtain r s' where c: "policy_check sha max_age BootstrapTokenPolicy q s = (r, s')"
      by (cases "policy_check sha max_age BootstrapTokenPolicy q s")
    show ?thesis using Cons.IH [of s'] unspent_check [OF c, of t] by (simp add: ev c)
  next
    case False
    then show ?thesis
      using Cons.IH [of "operate sha ev s"] unspent_operate [of sha t ev s] minted_Cons [of sha t ev evs]
      by (simp add: redeemed_operate del: minted.simps)
  qed
qed simp

lemma fresh_token_accepted:
  assumes "eq_token q = Some (''nps-bootstrap-'' @ rand)" "\<And>j. eq_clock q j \<le> expires_at"
  shows "fst (policy_check sha max_age BootstrapTokenPolicy q (operate sha (CreateToken rand i now label expires_at) s)) = Inr ()"
proof -
  let ?t = "''nps-bootstrap-'' @ rand"
  let ?es = "snd (create_token sha rand i now label expires_at (ra_tokens s))"
  have "token_usable (sha ?t) (eq_clock q (0 + length (ra_tokens s))) (?es ! length (ra_tokens s))" "length (ra_tokens s) < length ?es"
    using assms(2) by (simp_all add: create_token_def Let_def token_usable_def not_less)
  then have "fst (consume_loop (sha ?t) (eq_clock q) 0 ?es)"
    using consume_loop_cases [of "sha ?t" "eq_clock q" 0 ?es] by force
  then show ?thesis
    by (simp add: policy_check.simps bootstrap_check_def assms(1) py_startswith_def validate_and_consume_def case_prod_beta)
qed

section \<open>Properties\<close>

definition gated :: "ca_options \<Rightarrow> policy \<Rightarrow> ra_event list \<Rightarrow> ra_state \<times> ca_store \<Rightarrow> bool" where
  "gated opts p evs s =
     (case p of
        AllowlistPolicy patterns \<Rightarrow>
          \<forall>r \<in> set (ca_records (snd s)). \<exists>now q. Enroll now q \<in> set evs \<and> allowlisted patterns q
            \<and> cr_nid r = build_nid opts (eq_entity_type q) (eq_identifier q)
      | BootstrapTokenPolicy \<Rightarrow>
          length (ca_records (snd s)) + revoked_tokens (ra_tokens (fst s)) \<le> created evs
          \<and> (\<forall>r \<in> set (ca_records (snd s)). \<exists>now q. Enroll now q \<in> set evs \<and> presents_token q
               \<and> cr_nid r = build_nid opts (eq_entity_type q) (eq_identifier q))
      | PendingQueuePolicy max_size \<Rightarrow>
          ca_records (snd s) = [] \<and> int (pending_count (ra_pending (fst s))) \<le> max 0 max_size)"

text \<open>
  No identity is issued past the enrollment policy. Over any interleaving of registration requests with
  the operator's actions, starting from empty stores: under an allowlist every certificate belongs to a
  request whose identifier a pattern admits; under bootstrap tokens there are at most as many certificates as
  tokens were created and not revoked, each for a request that presented a token; under the approval queue the
  authority issues nothing on request and the queue never grows past its bound.
\<close>

theorem enrollment_gated:
  "gated opts p evs (fold (ra_do L opts sha (policy_check sha max_age p)) evs (empty_ra, empty_ca))"
proof (cases p)
  case (AllowlistPolicy patterns)
  then show ?thesis
    using allowlist.records_vouched [where s = "(empty_ra, empty_ca)"] by (simp add: gated_def empty_ca_def)
next
  case BootstrapTokenPolicy
  let ?s = "fold (ra_do L opts sha (policy_check sha max_age p)) evs (empty_ra, empty_ca)"
  have start: "tokens_ok (ra_tokens empty_ra)" "ra_tokens empty_ra = []" "consumed [] = 0"
    by (simp_all add: empty_ra_def tokens_ok_def consumed_def)
  have "length (ca_records (snd ?s)) \<le> consumed (ra_tokens (fst ?s))"
    using bootstrap.records_paid [where s = "(empty_ra, empty_ca)"] BootstrapTokenPolicy by (simp add: start empty_ca_def)
  then have "length (ca_records (snd ?s)) + revoked_tokens (ra_tokens (fst ?s)) \<le> created evs"
    using run_tokens [of "(empty_ra, empty_ca)" L opts sha max_age p evs] tokens_ok_count [of "ra_tokens (fst ?s)"] start by force
  then show ?thesis
    using bootstrap.records_vouched [where s = "(empty_ra, empty_ca)"] BootstrapTokenPolicy by (simp add: gated_def empty_ca_def)
next
  case (PendingQueuePolicy max_size)
  let ?s = "fold (ra_do L opts sha (policy_check sha max_age p)) evs (empty_ra, empty_ca)"
  have "r \<notin> set (ca_records (snd ?s))" for r
  proof
    assume "r \<in> set (ca_records (snd ?s))"
    then show False
      using approval.records_vouched [where s = "(empty_ra, empty_ca)" and r = r and L = L and opts = opts and evs = evs]
      unfolding PendingQueuePolicy by (metis empty_ca_def empty_iff list.set(1) ca_store.select_convs(1) snd_conv)
  qed
  then have "ca_records (snd ?s) = []" by (cases "ca_records (snd ?s)") auto
  then show ?thesis
    using run_queue [of max_size "(empty_ra, empty_ca)"] PendingQueuePolicy
    by (simp add: gated_def queue_ok_def empty_ra_def pending_count_def)
qed

text \<open>
  C27: A bootstrap token buys one enrollment: in any run of requests and operator actions on an empty store, a
  token is accepted at most as often as the operator created it (up to collisions of the hash), so a token
  that was created once is never accepted twice; and a token that was just created is accepted when presented
  before it expires.
\<close>

theorem token_single_use:
  assumes "eq_token q = Some (''nps-bootstrap-'' @ rand)" "\<And>j. eq_clock q j \<le> expires_at"
  shows "redeemed sha max_age t evs empty_ra \<le> minted sha t evs
    \<and> fst (policy_check sha max_age BootstrapTokenPolicy q (operate sha (CreateToken rand i now label expires_at) s)) = Inr ()"
  using fresh_token_accepted [OF assms] redeemed_bound [of sha max_age t evs empty_ra]
  by (simp add: unspent_def empty_ra_def)

definition ex_request :: enrollment where
  "ex_request = \<lparr>eq_entity_type = ''agent'', eq_identifier = ''a1'', eq_pub_key = ''ed25519:k'', eq_capabilities = [],
     eq_scope_json = ''{}'', eq_metadata_json = None, eq_token = Some ''nps-bootstrap-7f'', eq_clock = (\<lambda>_. 10), eq_pending_id = ''p1''\<rparr>"

definition ex_sha :: "string \<Rightarrow> bytes" where
  "ex_sha s = map (\<lambda>c. of_nat (of_char c)) s"

theorem token_single_use_witness:
  "redeemed ex_sha 0 ''nps-bootstrap-7f'' [CreateToken ''7f'' ''t1'' 0 None 20, Enroll 10 ex_request, Enroll 10 ex_request] empty_ra \<le> 1
   \<and> fst (policy_check ex_sha 0 BootstrapTokenPolicy ex_request (operate ex_sha (CreateToken ''7f'' ''t1'' 0 None 20) empty_ra)) = Inr ()"
  using token_single_use [where q = ex_request and rand = "''7f''" and expires_at = 20 and sha = ex_sha and max_age = 0 and
      t = "''nps-bootstrap-7f''" and evs = "[CreateToken ''7f'' ''t1'' 0 None 20, Enroll 10 ex_request, Enroll 10 ex_request]" and
      i = "''t1''" and now = 0 and label = None and s = empty_ra]
  by (simp add: ex_request_def)

end
