(* ===== verification/NipTrust.thy ===== *)
theory NipTrust
  imports NipVerifier NipRa
begin

text \<open>
  Identities end to end: what the certificate authority issues, as the verifier on a node sees it when the
  authority's store is its revocation source.
\<close>

section \<open>The libraries on both sides\<close>

text \<open>
  \<open>json.dumps\<close> with sorted keys gives dictionaries with the same items the same text.
\<close>

definition sorted_dumps :: "sig_lib \<Rightarrow> bool" where
  "sorted_dumps S \<longleftrightarrow>
     (\<forall>d e. distinct (map fst d) \<and> distinct (map fst e) \<and> set d = set e \<longrightarrow> dumps_plain S (PDict d) = dumps_plain S (PDict e))"

text \<open>Ed25519: what \<open>NipIdentity.sign\<close> returns for a payload verifies under the public key \<open>key\<close>.\<close>

definition signs_with :: "ca_lib \<Rightarrow> sig_lib \<Rightarrow> string \<Rightarrow> bool" where
  "signs_with L S key \<longleftrightarrow>
     py_startswith key ''ed25519:''
     \<and> (\<forall>payload sig. lib_sign L payload = Inr sig \<longrightarrow>
          py_startswith sig ''ed25519:''
          \<and> (\<exists>text. dumps_plain S payload = Inr text \<and> ed_der S (drop 8 key) (drop 8 sig) text))"

definition iso_inverse :: "ca_lib \<Rightarrow> iso_parser \<Rightarrow> bool" where
  "iso_inverse L rd_iso \<longleftrightarrow> (\<forall>t. parse_timestamp rd_iso (PStr (lib_iso L t)) = Inr (Some t))"

text \<open>\<open>InMemoryNipCaStore\<close> as the \<open>NipRevocationStore\<close> of a verifier.\<close>

definition as_revocation_store :: "ca_lib \<Rightarrow> ca_store \<Rightarrow> pyval \<Rightarrow> nip_cert_record option res" where
  "as_revocation_store L s serial =
     Inr (case serial of
            PStr n \<Rightarrow> map_option (\<lambda>r. \<lparr>nc_serial = cr_serial r, nc_revoked_at = map_option (lib_iso L) (cr_revoked_at r),
                                      nc_revoke_reason = cr_revoke_reason r\<rparr>) (get_by_serial n s)
          | _ \<Rightarrow> None)"

definition ca_backed :: "ca_lib \<Rightarrow> ca_options \<Rightarrow> string \<Rightarrow> ca_store \<Rightarrow> verifier_options \<Rightarrow> bool" where
  "ca_backed L opts key s v \<longleftrightarrow>
     dict_get (vo_trusted_issuers v) (ca_nid opts) = Some key \<and> vo_local_revoked_serials v = None \<and> vo_revocation_check v = None
     \<and> vo_revocation_store v = Some (as_revocation_store L s) \<and> vo_ocsp_url v = None"

section \<open>Issued frames\<close>

lemma certify_frame:
  assumes "certify L opts r level lineage plain_frame s = (Inr f, s')"
  shows "issue_frame L opts (cr_nid r) (cr_pub_key r) (cr_capabilities r) (cr_scope_json r) (cr_issued_at r) (cr_expires_at r)
      (serial_text (Suc (ca_serial s))) (cr_metadata_json r) level lineage = Inr f"
  using assms by (auto simp: certify_def st_bind_def plain_frame_def st_lift_def split: sum.splits prod.splits)

lemma certify_appends:
  assumes "serials_ok s" "certify L opts r level lineage plain_frame s = (Inr f, s')"
  shows "ca_records s' = ca_records s @ [r\<lparr>cr_serial := serial_text (Suc (ca_serial s))\<rparr>]"
  using assms(2) serial_unused [OF assms(1)]
  by (auto simp: certify_def st_bind_def ca_save_def st_lift_def st_read_def st_when_def st_write_def split: sum.splits prod.splits if_splits)

lemma issued_fields:
  assumes "issue_frame L opts nid pk caps sj issued expires serial m level lineage = Inr f"
  shows "id_issued_by f = PStr (ca_nid opts)" "id_expires_at f = PStr (lib_iso L expires)" "id_serial f = PStr serial"
    "id_capabilities f = map PStr caps" "id_cert_format f = PNone" "id_nid f = PStr nid"
    "m = None \<Longrightarrow> id_metadata f = None"
  using assms by (auto simp: issue_frame_def res_bind_eq_Inr)

lemma dict_pop_items: "dict_pop k [] = []" "dict_pop k (x # d) = (if fst x = k then dict_pop k d else x # dict_pop k d)"
  by (cases x) (auto simp: dict_pop_def)

lemma signed_part_plain:
  assumes "id_metadata f = None" "id_cert_format f = PNone" "id_cert_chain f = None" "id_ocsp_staple f = PNone" "id_node_roles f = None"
  shows "signed_part f =
    [(''frame'', PStr ''0x20''), (''nid'', id_nid f), (''pub_key'', id_pub_key f), (''capabilities'', PList (id_capabilities f)),
     (''scope'', id_scope f), (''issued_by'', id_issued_by f), (''issued_at'', id_issued_at f), (''expires_at'', id_expires_at f),
     (''serial'', id_serial f)]
    @ not_none ''assurance_level'' (opt_val (\<lambda>l. PStr (assurance_wire l)) (id_assurance_level f))
    @ not_none ''lineage'' (opt_val ident_lineage_to_dict (id_lineage f))"
  by (simp add: signed_part_def ident_unsigned_dict_def dict_without_def ident_to_dict_def assms dict_pop_items)
     (simp add: not_none_def)

lemma not_none_keys: "map fst (not_none k v) = (if v = PNone then [] else [k])"
  by (simp add: not_none_def)

lemma issued_signature:
  assumes "issue_frame L opts nid pk caps sj issued expires serial None level lineage = Inr f" "signs_with L S key" "sorted_dumps S"
  shows "verify_signature S key (signed_part f) (id_signature f)"
proof -
  from assms(1) obtain scope sig where
    sig: "lib_sign L (ident_payload L opts nid pk caps scope issued expires serial level lineage) = Inr sig"
    and f: "f = \<lparr>id_nid = PStr nid, id_pub_key = PStr pk, id_capabilities = map PStr caps, id_scope = scope,
            id_issued_by = PStr (ca_nid opts), id_issued_at = PStr (lib_iso L issued), id_expires_at = PStr (lib_iso L expires),
            id_serial = PStr serial, id_signature = PStr sig, id_metadata = None, id_assurance_level = level,
            id_cert_format = PNone, id_cert_chain = None, id_ocsp_staple = PNone, id_node_roles = None,
            id_lineage = lineage\<rparr>"
    by (auto simp: issue_frame_def res_bind_eq_Inr)
  have part: "signed_part f =
    [(''frame'', PStr ''0x20''), (''nid'', PStr nid), (''pub_key'', PStr pk), (''capabilities'', PList (map PStr caps)),
     (''scope'', scope), (''issued_by'', PStr (ca_nid opts)), (''issued_at'', PStr (lib_iso L issued)),
     (''expires_at'', PStr (lib_iso L expires)), (''serial'', PStr serial)]
    @ not_none ''assurance_level'' (opt_val (\<lambda>l. PStr (assurance_wire l)) level)
    @ not_none ''lineage'' (opt_val ident_lineage_to_dict lineage)"
    by (subst signed_part_plain) (simp_all add: f)
  obtain d where d: "ident_payload L opts nid pk caps scope issued expires serial level lineage = PDict d"
    and same: "distinct (map fst d)" "distinct (map fst (signed_part f))" "set (signed_part f) = set d"
  proof (rule that [OF _ _ _ _])
    show "ident_payload L opts nid pk caps scope issued expires serial level lineage = PDict
      ([(''capabilities'', PList (map PStr caps)), (''expires_at'', PStr (lib_iso L expires)), (''frame'', PStr ''0x20''),
             (''issued_at'', PStr (lib_iso L issued)), (''issued_by'', PStr (ca_nid opts)), (''nid'', PStr nid),
             (''pub_key'', PStr pk), (''scope'', scope), (''serial'', PStr serial)]
       @ not_none ''assurance_level'' (opt_val (\<lambda>l. PStr (assurance_wire l)) level)
       @ not_none ''lineage'' (opt_val ident_lineage_to_dict lineage))"
      by (simp add: ident_payload_def)
  qed (auto simp: part not_none_keys)
  then have "dumps_plain S (PDict (signed_part f)) = dumps_plain S (PDict d)"
    using assms(3) unfolding sorted_dumps_def by blast
  then show ?thesis
    using assms(2) sig unfolding signs_with_def d by (fastforce simp: verify_signature_def f)
qed

lemma get_by_serial_unique:
  assumes "serials_ok s" "r \<in> set (ca_records s)"
  shows "get_by_serial (cr_serial r) s = Some r"
proof -
  obtain x where x: "get_by_serial (cr_serial r) s = Some x"
    using assms(2) by (cases "get_by_serial (cr_serial r) s") (auto simp: get_by_serial_def find_None_iff)
  then have "x \<in> set (ca_records s)" "cr_serial x = cr_serial r"
    by (auto simp: get_by_serial_def dest: find_mem)
  then show ?thesis
    using assms x inj_onD [of cr_serial "set (ca_records s)" x r] by (simp add: serials_ok_def distinct_map)
qed

lemma records_kept:
  assumes "ca_run L opts s s'" "ca_inv opts s" "r \<in> set (ca_records s)"
  shows "\<exists>y \<in> set (ca_records s'). marks r y"
  using assms
proof (induction rule: ca_run.induct)
  case (ca_step s s' call)
  then obtain y where y: "y \<in> set (ca_records s')" "marks r y" by blast
  have "serials_ok s'" using ca_step ca_run_inv by (auto simp: ca_inv_def)
  from ca_do_cases [OF this ca_step(2)] show ?case
  proof
    assume "issues opts s' (ca_do L opts call s')"
    then show ?thesis using y by (auto simp: issues_def unchanged_def adds_def)
  next
    assume "marks_store s' (ca_do L opts call s')"
    then have "marked (ca_records s') (ca_records (ca_do L opts call s'))" by (simp add: marks_store_def)
    then obtain z where "z \<in> set (ca_records (ca_do L opts call s'))" "marks y z" using y(1) by (rule marked_mem')
    then show ?thesis using y(2) by (blast intro: marks_trans)
  qed
qed (auto intro: bexI [of _ r])

lemma pstr_inj: "inj PStr"
  by (simp add: inj_def)

lemma register_frame:
  assumes "serials_ok s" "register L opts now et i pk caps sj m s = (Inr f, s1)"
  obtains r where "r \<in> set (ca_records s1)" "cr_nid r = build_nid opts et i" "id_serial f = PStr (cr_serial r)"
    "cr_revoked_at r = None"
    "issue_frame L opts (cr_nid r) pk caps sj now (cr_expires_at r) (cr_serial r) m None None = Inr f"
proof -
  let ?nid = "build_nid opts et i"
  obtain expires where c: "certify L opts (fresh_record opts ?nid et pk caps sj now expires m None None None) None None plain_frame s = (Inr f, s1)"
    using assms(2) by (auto simp: register_def st_bind_def require_unused_run st_lift_def Let_def split: sum.splits if_splits)
  let ?r = "fresh_record opts ?nid et pk caps sj now expires m None None None"
  have "ca_records s1 = ca_records s @ [?r\<lparr>cr_serial := serial_text (Suc (ca_serial s))\<rparr>]"
    by (rule certify_appends [OF assms(1) c])
  moreover have "issue_frame L opts ?nid pk caps sj now expires (serial_text (Suc (ca_serial s))) m None None = Inr f"
    using certify_frame [OF c] by (simp add: fresh_record_def)
  ultimately show thesis
    by (intro that [of "?r\<lparr>cr_serial := serial_text (Suc (ca_serial s))\<rparr>"]) (simp_all add: issued_fields(3))
qed

text \<open>
  The calls that return a plain frame, and the frame: registration, group, session, and renewal, without metadata.
\<close>

inductive issued_plainly :: "ca_lib \<Rightarrow> ca_options \<Rightarrow> ca_call \<Rightarrow> ca_store \<Rightarrow> ident_frame \<Rightarrow> bool" for L opts where
  by_register: "fst (register L opts now et i pk cs sj None s) = Inr f \<Longrightarrow> issued_plainly L opts (Register now et i pk cs sj None) s f"
| by_register_with_ra: "fst (register_with_ra L opts check now et i pk cs sj None s) = Inr f \<Longrightarrow>
     issued_plainly L opts (RegisterRa check now et i pk cs sj None) s f"
| by_register_group: "fst (register_group L opts now tok gi pk cs sj ou ok None s) = Inr f \<Longrightarrow>
     issued_plainly L opts (RegisterGroup now tok gi pk cs sj ou ok None) s f"
| by_issue_session: "fst (issue_session L opts t0 unix rand now gn pk vs purpose caps scope None s) = Inr f \<Longrightarrow>
     issued_plainly L opts (IssueSession t0 unix rand now gn pk vs purpose caps scope None) s f"
| by_renew: "get_by_nid nid s = Some old \<Longrightarrow> cr_metadata_json old = None \<Longrightarrow> fst (renew L opts now nid s) = Inr f \<Longrightarrow>
     issued_plainly L opts (Renew now nid) s f"

lemma issued_certified:
  assumes "issued_plainly L opts call s f"
  shows "\<exists>r level lineage. certify L opts r level lineage plain_frame s = (Inr f, ca_do L opts call s) \<and> cr_metadata_json r = None"
  using assms
proof cases
  case (by_register now et i pk cs sj)
  then show ?thesis
    by (cases "register L opts now et i pk cs sj None s")
       (fastforce simp: register_def st_bind_def require_unused_run st_lift_def Let_def fresh_record_def split: sum.splits if_splits)
next
  case (by_register_with_ra check now et i pk cs sj)
  then show ?thesis
    by (cases "register_with_ra L opts check now et i pk cs sj None s")
       (fastforce simp: register_with_ra_def register_def st_bind_def require_unused_run st_lift_def Let_def fresh_record_def
          split: sum.splits if_splits)
next
  case (by_register_group now tok gi pk cs sj ou ok)
  then show ?thesis
    by (cases "register_group L opts now tok gi pk cs sj ou ok None s")
       (fastforce simp: register_group_def st_bind_def st_when_def require_unused_run st_lift_def Let_def fresh_record_def
          split: sum.splits if_splits)
next
  case (by_issue_session t0 unix rand now gn pk vs purpose caps scope)
  then show ?thesis
    by (cases "issue_session L opts t0 unix rand now gn pk vs purpose caps scope None s")
       (fastforce simp: issue_session_def st_bind_def st_when_def st_read_def st_lift_def Let_def fresh_record_def
          split: sum.splits if_splits)
next
  case (by_renew nid old now)
  then show ?thesis
    by (cases "renew L opts now nid s")
       (fastforce simp: renew_def st_bind_def st_when_def st_read_def st_lift_def of_option_def fresh_record_def split: sum.splits if_splits)
qed

lemma issued_record:
  assumes "serials_ok s" "issued_plainly L opts call s f"
  shows "\<exists>r \<in> set (ca_records (ca_do L opts call s)). \<exists>level lineage.
    issue_frame L opts (cr_nid r) (cr_pub_key r) (cr_capabilities r) (cr_scope_json r) (cr_issued_at r) (cr_expires_at r)
      (cr_serial r) None level lineage = Inr f"
proof -
  obtain r level lineage where r: "certify L opts r level lineage plain_frame s = (Inr f, ca_do L opts call s)" "cr_metadata_json r = None"
    using issued_certified [OF assms(2)] by blast
  let ?r = "r\<lparr>cr_serial := serial_text (Suc (ca_serial s))\<rparr>"
  have "?r \<in> set (ca_records (ca_do L opts call s))" by (simp add: certify_appends [OF assms(1) r(1)])
  moreover have "issue_frame L opts (cr_nid ?r) (cr_pub_key ?r) (cr_capabilities ?r) (cr_scope_json ?r) (cr_issued_at ?r) (cr_expires_at ?r)
      (cr_serial ?r) None level lineage = Inr f"
    using certify_frame [OF r(1)] r(2) by simp
  ultimately show ?thesis by blast
qed

lemma issued_verifies:
  assumes f: "issue_frame L opts nid pk caps sj issued expires serial None level lineage = Inr f"
    and lib: "signs_with L S key" "sorted_dumps S" "iso_inverse L rd_iso" "ca_backed L opts key s v"
    and y: "serials_ok s" "y \<in> set (ca_records s)" "cr_serial y = serial"
  shows "ident_verify S X rd_iso render v clock f ctx = Inr Accept \<longleftrightarrow>
      (case vc_as_of ctx of Some n \<Rightarrow> n | None \<Rightarrow> clock) < expires \<and> cr_revoked_at y = None
      \<and> (\<forall>req. vc_required_capabilities ctx = Some req \<longrightarrow> set req \<subseteq> set caps)
      \<and> (\<forall>p. vc_target_node_path ctx = Some p \<longrightarrow> check_scope f p = Accept)"
proof -
  have sig: "verify_signature S key (signed_part f) (id_signature f)"
    by (rule issued_signature [OF f lib(1,2)])
  have clear: "sources_clear render v f \<longleftrightarrow> cr_revoked_at y = None"
    using lib(4) get_by_serial_unique [OF y(1,2)] issued_fields(3) [OF f]
    by (simp add: sources_clear_def ca_backed_def as_revocation_store_def y(3))
  have caps: "check_capabilities_claimed f (vc_required_capabilities ctx) = Inr Accept \<longleftrightarrow>
      (\<forall>req. vc_required_capabilities ctx = Some req \<longrightarrow> set req \<subseteq> set caps)"
    unfolding capabilities_Accept issued_fields(4) [OF f] set_map inj_image_subset_iff [OF pstr_inj] by (auto simp: py_hashable_def)
  show ?thesis
    unfolding ident_verify_steps check_revocation_Accept clear caps
    using lib(3,4) sig issued_fields(1,2,5) [OF f]
    by (auto simp: iso_inverse_def ca_backed_def check_x509_def split: option.splits)
qed

text \<open>A certificate that was renewed leaves the old record behind the new one.\<close>

lemma renew_appends:
  assumes "serials_ok s" "renew L opts now nid s = (Inr f, s')"
  obtains r where "ca_records s' = ca_records s @ [r]" "cr_nid r = nid" "cr_revoked_at r = None" "cr_nid_role r \<noteq> Some ''group''"
proof -
  obtain et pk caps sj expires m where
    "certify L opts (fresh_record opts nid et pk caps sj now expires m None None None) None None plain_frame s = (Inr f, s')"
    using assms(2) by (auto simp: renew_def st_bind_def st_read_def st_lift_def st_when_def split: sum.splits if_splits option.splits)
  then have "ca_records s' = ca_records s @ [(fresh_record opts nid et pk caps sj now expires m None None None)\<lparr>cr_serial := serial_text (Suc (ca_serial s))\<rparr>]"
    by (rule certify_appends [OF assms(1)])
  then show thesis by (rule that) (simp_all add: fresh_record_def)
qed

lemma revoke_newest:
  assumes "ca_records s = rs @ [r]" "cr_nid r = nid" "cr_revoked_at r = None" "cr_nid_role r \<noteq> Some ''group''"
    and "revoke L opts now nid reason s = (Inr rf, s')"
  shows "ca_records s' = rs @ [with_revocation now reason r]"
proof -
  have "get_by_nid nid s = Some r" using assms(1,2) by (simp add: get_by_nid_def)
  then show ?thesis
    using assms by (auto simp: revoke_def st_bind_def st_read_def st_lift_def st_when_def st_write_def store_revoke_def of_option_def
        split: sum.splits if_splits option.splits prod.splits)
qed

section \<open>Properties\<close>

text \<open>
  C11: A plain certificate without metadata is usable until it expires or is revoked. Take any frame that the
  authority returns from a registration (direct or through a registration authority), a group registration, a
  session or a renewal, whose record has no metadata. Whatever else the authority does afterwards, a node that
  trusts the authority's key and has the authority's store as its only revocation source accepts the frame
  exactly when it is unexpired, the record of its serial number is not revoked, the record has every required
  capability, and a pattern of its scope covers the target. X.509 frames and frames with metadata are not part
  of the statement; the verifier refuses the latter, as is shown below.
\<close>

theorem issued_identity_verifies:
  assumes "ca_run L opts empty_ca s" "issued_plainly L opts call s f" "call_ok opts call s"
    and "ca_run L opts (ca_do L opts call s) s2"
    and "signs_with L S key" "sorted_dumps S" "iso_inverse L rd_iso" "ca_backed L opts key s2 v"
  shows "\<exists>r \<in> set (ca_records s2). id_serial f = PStr (cr_serial r) \<and> id_nid f = PStr (cr_nid r)
    \<and> (ident_verify S X rd_iso render v clock f ctx = Inr Accept \<longleftrightarrow>
         (case vc_as_of ctx of Some n \<Rightarrow> n | None \<Rightarrow> clock) < cr_expires_at r \<and> cr_revoked_at r = None
         \<and> (\<forall>req. vc_required_capabilities ctx = Some req \<longrightarrow> set req \<subseteq> set (cr_capabilities r))
         \<and> (\<forall>p. vc_target_node_path ctx = Some p \<longrightarrow>
              (\<exists>nodes n. scope_nodes (id_scope f) = Some nodes \<and> PStr n \<in> set nodes \<and> nwp_path_matches n p)))"
proof -
  have inv: "ca_inv opts s" by (rule reachable_inv_ca [OF assms(1)])
  then have "serials_ok s" by (simp add: ca_inv_def)
  then obtain r level lineage where r: "r \<in> set (ca_records (ca_do L opts call s))"
    and f: "issue_frame L opts (cr_nid r) (cr_pub_key r) (cr_capabilities r) (cr_scope_json r) (cr_issued_at r) (cr_expires_at r)
        (cr_serial r) None level lineage = Inr f"
    using issued_record [OF _ assms(2)] by metis
  obtain y where y: "y \<in> set (ca_records s2)" "marks r y" "serials_ok s2"
    using records_kept [OF assms(4) _ r] ca_run_inv [OF assms(4)] ca_do_inv [OF inv assms(3), of L] by (auto simp: ca_inv_def)
  note same = marks_simps [OF y(2)]
  show ?thesis
    using issued_verifies [OF f assms(5-8) y(3,1), of X render clock ctx] y(1) issued_fields(3,6) [OF f] same
    by (intro bexI [of _ y]) (simp_all add: scope_Accept)
qed

text \<open>
  C39: Revoking a renewed identity leaves its previous certificate usable. Revocation marks only the newest
  record of an identity, so after a renewal and a revocation the authority answers that the identity is
  revoked, while a node that looks the certificate's serial number up in the authority's store goes on
  accepting the frame that was issued before the renewal, until it expires.
\<close>

theorem renewed_predecessor_survives:
  assumes "ca_run L opts empty_ca s" "register L opts now et i pk caps sj None s = (Inr f, s1)"
    and "renew L opts t2 (build_nid opts et i) s1 = (Inr f2, s2)" "revoke L opts t3 (build_nid opts et i) reason s2 = (Inr rf, s3)"
    and "signs_with L S key" "sorted_dumps S" "iso_inverse L rd_iso" "ca_backed L opts key s3 v"
    and "parse_timestamp rd_iso (id_expires_at f) = Inr (Some t)" "(case vc_as_of ctx of Some n \<Rightarrow> n | None \<Rightarrow> clock) < t"
    and "vc_required_capabilities ctx = None" "vc_target_node_path ctx = None"
  shows "ident_verify S X rd_iso render v clock f ctx = Inr Accept
    \<and> verify t0 t1 (build_nid opts et i) s3 = Invalid CERT_REVOKED"
proof -
  have inv: "ca_inv opts s" by (rule reachable_inv_ca [OF assms(1)])
  then have "serials_ok s" by (simp add: ca_inv_def)
  from this assms(2) obtain r where r: "r \<in> set (ca_records s1)" "cr_nid r = build_nid opts et i" "id_serial f = PStr (cr_serial r)"
    "cr_revoked_at r = None" "issue_frame L opts (cr_nid r) pk caps sj now (cr_expires_at r) (cr_serial r) None None None = Inr f"
    by (rule register_frame)
  note f = r(5)
  have inv1: "ca_inv opts s1"
    using ca_do_inv [OF inv, of "Register now et i pk caps sj None" L] assms(2) by simp
  then have "serials_ok s1" by (simp add: ca_inv_def)
  from this assms(3) obtain r2 where r2: "ca_records s2 = ca_records s1 @ [r2]" "cr_nid r2 = build_nid opts et i"
    "cr_revoked_at r2 = None" "cr_nid_role r2 \<noteq> Some ''group''"
    by (rule renew_appends)
  have s3: "ca_records s3 = ca_records s1 @ [with_revocation t3 reason r2]"
    by (rule revoke_newest [OF r2 assms(4)])
  have "ca_inv opts s2" using ca_do_inv [OF inv1, of "Renew t2 (build_nid opts et i)" L] assms(3) by simp
  then have "ca_inv opts s3" using ca_do_inv [of opts s2 "Revoke t3 (build_nid opts et i) reason" L] assms(4) by simp
  then have "serials_ok s3" by (simp add: ca_inv_def)
  moreover have "r \<in> set (ca_records s3)" using r(1) s3 by simp
  ultimately have "ident_verify S X rd_iso render v clock f ctx = Inr Accept"
    using issued_verifies [OF f assms(5-8), of r X render clock ctx] r(4) assms(7,9-12) issued_fields(2) [OF f]
    by (simp add: iso_inverse_def)
  moreover have "verify t0 t1 (build_nid opts et i) s3 = Invalid CERT_REVOKED"
    using r2(2) by (simp add: verify_def get_by_nid_def s3) (simp add: with_revocation_def)
  ultimately show ?thesis by blast
qed

section \<open>What a frame cannot carry\<close>

text \<open>
  Ed25519 and JSON once more, in the other direction: a signature verifies only for the text that was signed,
  and equal texts come from dictionaries with the same keys.
\<close>

definition signs_only :: "ca_lib \<Rightarrow> sig_lib \<Rightarrow> string \<Rightarrow> bool" where
  "signs_only L S key \<longleftrightarrow>
     (\<forall>payload sig text. lib_sign L payload = Inr sig \<and> ed_der S (drop 8 key) (drop 8 sig) text \<longrightarrow> dumps_plain S payload = Inr text)"

definition dumps_keys :: "sig_lib \<Rightarrow> bool" where
  "dumps_keys S \<longleftrightarrow>
     (\<forall>d e text. dumps_plain S (PDict d) = Inr text \<and> dumps_plain S (PDict e) = Inr text \<longrightarrow> fst ` set d = fst ` set e)"

text \<open>The keys that \<open>_issue_frame\<close> signs.\<close>

definition payload_keys :: "string set" where
  "payload_keys = {''capabilities'', ''expires_at'', ''frame'', ''issued_at'', ''issued_by'', ''nid'', ''pub_key'', ''scope'',
     ''serial'', ''assurance_level'', ''lineage''}"

lemma payload_keys_only:
  "\<exists>d. ident_payload L opts nid pk caps scope issued expires serial level lineage = PDict d \<and> fst ` set d \<subseteq> payload_keys"
  by (auto simp: ident_payload_def payload_keys_def not_none_def)

lemma issued_signed:
  assumes "issue_frame L opts nid pk caps sj issued expires serial m level lineage = Inr f"
  obtains scope sig where "lib_sign L (ident_payload L opts nid pk caps scope issued expires serial level lineage) = Inr sig"
    "id_signature f = PStr sig" "id_metadata f = None \<longleftrightarrow> m = None"
proof -
  from assms obtain scope sig meta where
    "lib_sign L (ident_payload L opts nid pk caps scope issued expires serial level lineage) = Inr sig"
    "(case m of None \<Rightarrow> Inr None
      | Some j \<Rightarrow> res_bind (lib_loads L j) (\<lambda>v. res_bind (ident_metadata_from_dict v) (\<lambda>m. Inr (Some m)))) = Inr meta"
    "id_signature f = PStr sig" "id_metadata f = meta"
    unfolding issue_frame_def res_bind_eq_Inr by force
  moreover from this(2) have "meta = None \<longleftrightarrow> m = None" by (cases m) (auto simp: res_bind_eq_Inr)
  ultimately show thesis by (intro that [of scope sig]) simp_all
qed

lemma register_x509_frame:
  assumes "register_x509 L opts now et i pk caps sj level m s = (Inr f, s1)"
  obtains plain expires serial where
    "issue_frame L opts (build_nid opts et i) pk caps sj now expires serial m (Some level) None = Inr plain"
    "id_signature f = id_signature plain" "id_cert_format f = PStr ''v2-x509''" "id_issued_by f = id_issued_by plain"
proof -
  let ?nid = "build_nid opts et i"
  obtain expires where "certify L opts (fresh_record opts ?nid et pk caps sj now expires m None None None) (Some level) None
      (x509_finish L ?nid et pk level now expires) s = (Inr f, s1)"
    using assms by (auto simp: register_x509_def st_bind_def require_unused_run st_lift_def Let_def split: sum.splits if_splits)
  then obtain plain where
    "issue_frame L opts ?nid pk caps sj now expires (serial_text (Suc (ca_serial s))) m (Some level) None = Inr plain"
    "x509_finish L ?nid et pk level now expires (serial_text (Suc (ca_serial s))) plain = Inr f"
    by (auto simp: certify_def fresh_record_def st_bind_def st_lift_def split: sum.splits prod.splits)
  then show thesis by (intro that [where plain = plain]) (auto simp: x509_finish_def res_bind_eq_Inr)
qed

lemma foreign_key_rejected:
  assumes "lib_sign L (ident_payload L opts nid pk caps scope issued expires serial level lineage) = Inr sig"
    and "id_signature g = PStr sig" "k \<in> fst ` set (signed_part g)" "k \<notin> payload_keys" "signs_only L S key" "dumps_keys S"
  shows "\<not> verify_signature S key (signed_part g) (id_signature g)"
proof
  obtain d where d: "ident_payload L opts nid pk caps scope issued expires serial level lineage = PDict d" "fst ` set d \<subseteq> payload_keys"
    using payload_keys_only by blast
  assume "verify_signature S key (signed_part g) (id_signature g)"
  then obtain body where "dumps_plain S (PDict (signed_part g)) = Inr body" "ed_der S (drop 8 key) (drop 8 sig) body"
    using assms(2) by (auto simp: verify_signature_def split: sum.splits)
  then have "fst ` set (signed_part g) = fst ` set d"
    using assms(1,5,6) d(1) unfolding signs_only_def dumps_keys_def by metis
  then show False using assms(3,4) d(2) by blast
qed

lemma signed_part_keys:
  "id_metadata g \<noteq> None \<Longrightarrow> ''metadata'' \<in> fst ` set (signed_part g)"
  "id_ocsp_staple g \<noteq> PNone \<Longrightarrow> ''ocsp_staple'' \<in> fst ` set (signed_part g)"
  by (auto simp: signed_part_def ident_unsigned_dict_def dict_without_def ident_to_dict_def dict_pop_items not_none_def
      ident_metadata_to_dict_def)

text \<open>
  C40: Metadata makes a certificate unusable: the authority signs a payload without the metadata, but the part
  of a frame that the verifier checks the signature against contains it. A frame registered with metadata is
  refused at step three by every verifier, although it is unexpired and its issuer is trusted.
\<close>

theorem metadata_breaks_signature:
  assumes "serials_ok s" "register L opts now et i pk caps sj (Some mj) s = (Inr f, s1)"
    and "signs_only L S key" "dumps_keys S" "dict_get (vo_trusted_issuers v) (ca_nid opts) = Some key"
    and "parse_timestamp rd_iso (id_expires_at f) = Inr (Some t)" "(case vc_as_of ctx of Some n \<Rightarrow> n | None \<Rightarrow> clock) < t"
  shows "ident_verify S X rd_iso render v clock f ctx = Inr (Reject 3 CERT_SIGNATURE_INVALID)"
proof -
  obtain r where "r \<in> set (ca_records s1)" "cr_nid r = build_nid opts et i" "id_serial f = PStr (cr_serial r)" "cr_revoked_at r = None"
    and f: "issue_frame L opts (cr_nid r) pk caps sj now (cr_expires_at r) (cr_serial r) (Some mj) None None = Inr f"
    using assms(1,2) by (rule register_frame)
  from f obtain scope sig where sig: "lib_sign L (ident_payload L opts (cr_nid r) pk caps scope now (cr_expires_at r) (cr_serial r) None None) = Inr sig"
    "id_signature f = PStr sig" "id_metadata f = None \<longleftrightarrow> Some mj = None"
    by (rule issued_signed)
  have "\<not> verify_signature S key (signed_part f) (id_signature f)"
    by (rule foreign_key_rejected [OF sig(1), where k = "''metadata''"])
       (use assms(3,4) sig(2,3) in \<open>simp_all add: signed_part_keys payload_keys_def\<close>)
  then show ?thesis
    using assms(5-7) issued_fields(1) [OF f] by (simp add: ident_verify_def Let_def py_hashable_def)
qed

text \<open>
  Phase-3 enforcement refuses every frame of the authority. The enforcer insists on a staple, which the
  authority does not put into the frames it issues, and a staple attached later is inside the part that the
  signature covers.
\<close>

theorem phase3_refuses_issued:
  assumes "register_x509 L opts now et i pk caps sj level m s = (Inr f, s1)" "signs_only L S key" "dumps_keys S"
    and "vo_trusted_issuers v = [(ca_nid opts, key)]" "vo_trusted_x509_roots v \<noteq> []" "vo_phase3_enforcement v"
  shows "ident_verify S X rd_iso render v clock (f\<lparr>id_ocsp_staple := staple\<rparr>) ctx \<noteq> Inr Accept"
proof
  let ?g = "f\<lparr>id_ocsp_staple := staple\<rparr>"
  assume a: "ident_verify S X rd_iso render v clock ?g ctx = Inr Accept"
  obtain plain expires serial where plain: "issue_frame L opts (build_nid opts et i) pk caps sj now expires serial m (Some level) None = Inr plain"
    "id_signature f = id_signature plain" "id_cert_format f = PStr ''v2-x509''" "id_issued_by f = id_issued_by plain"
    using assms(1) by (rule register_x509_frame)
  obtain scope sig where sig: "lib_sign L (ident_payload L opts (build_nid opts et i) pk caps scope now expires serial (Some level) None) = Inr sig"
    "id_signature plain = PStr sig"
    using plain(1) by (rule issued_signed)
  show False
  proof (cases "staple = PNone")
    case True
    then show False
      using a assms(5,6) plain(3) unfolding ident_verify_steps x509_Accept
      by (auto simp: phase3_enforce_def and_then_Accept staple_check_def)
  next
    case False
    have "\<not> verify_signature S key (signed_part ?g) (id_signature ?g)"
      by (rule foreign_key_rejected [OF sig(1), where k = "''ocsp_staple''"])
         (use assms(2,3) False plain(2) sig(2) in \<open>simp_all add: signed_part_keys payload_keys_def\<close>)
    then show False
      using a assms(4) issued_fields(1) [OF plain(1)] plain(4) unfolding ident_verify_steps by (simp add: dict_get_def)
  qed
qed

section \<open>A concrete authority and node\<close>

text \<open>
  Times are written in binary, the text of a dictionary lists which keys it has, and a signature is the text
  itself.
\<close>

function int_text :: "int \<Rightarrow> string" where
  "int_text n = (if n \<le> 0 then [] else (if n mod 2 = 1 then CHR ''1'' else CHR ''0'') # int_text (n div 2))"
  by auto
termination by (relation "measure nat") auto

declare int_text.simps [simp del]

fun text_int :: "string \<Rightarrow> int" where
  "text_int [] = 0"
| "text_int (c # cs) = (if c = CHR ''1'' then 1 else 0) + 2 * text_int cs"

definition ex_iso_text :: "int \<Rightarrow> string" where
  "ex_iso_text t = (if t < 0 then CHR ''n'' else CHR ''p'') # int_text \<bar>t\<bar>"

definition ex_read :: iso_parser where
  "ex_read s = (case s of [] \<Rightarrow> None | c # cs \<Rightarrow> Some (if c = CHR ''n'' then - text_int cs else text_int cs, None))"

lemma text_int_text: "0 \<le> n \<Longrightarrow> text_int (int_text n) = n"
proof (induction n rule: int_text.induct)
  case (1 n)
  show ?case
  proof (cases "n \<le> 0")
    case False
    then have "text_int (int_text (n div 2)) = n div 2" using 1 by simp
    with False show ?thesis by (subst int_text.simps) (simp, presburger)
  qed (use 1 in \<open>simp add: int_text.simps\<close>)
qed

lemma int_text_chars: "c \<in> set (int_text n) \<Longrightarrow> c \<in> {CHR ''0'', CHR ''1''}"
proof (induction n rule: int_text.induct)
  case (1 n)
  then show ?case by (subst (asm) (2) int_text.simps) (auto split: if_splits)
qed

lemma iso_text_last: "last (ex_iso_text t) \<in> {CHR ''0'', CHR ''1'', CHR ''n'', CHR ''p''}"
  using int_text_chars [of "last (int_text \<bar>t\<bar>)" "\<bar>t\<bar>"] last_in_set [of "int_text \<bar>t\<bar>"]
  by (cases "int_text \<bar>t\<bar> = []") (auto simp: ex_iso_text_def)

lemma iso_text_inverse: "parse_timestamp ex_read (PStr (ex_iso_text t)) = Inr (Some t)"
proof -
  have "hd (ex_iso_text t) \<in> {CHR ''n'', CHR ''p''}" "ex_iso_text t \<noteq> []" by (simp_all add: ex_iso_text_def)
  with iso_text_last [of t] have strip: "py_strip (ex_iso_text t) = ex_iso_text t" "last (ex_iso_text t) \<noteq> CHR ''Z''"
    by (auto intro!: py_strip_id simp: py_isspace_def)
  then show ?thesis
    by (simp add: parse_timestamp_def Let_def) (simp add: ex_read_def ex_iso_text_def text_int_text)
qed

definition ex_keys :: "string list" where
  "ex_keys = [''frame'', ''nid'', ''pub_key'', ''capabilities'', ''scope'', ''issued_by'', ''issued_at'', ''expires_at'', ''serial'',
     ''assurance_level'', ''lineage'', ''metadata'', ''ocsp_staple'', ''target_nid'', ''reason'', ''revoked_at'', ''signer_nid'']"

definition ex_dumps :: "pyval \<Rightarrow> string res" where
  "ex_dumps v =
     (case v of
        PDict d \<Rightarrow>
          if fst ` set d \<subseteq> set ex_keys then Inr (map (\<lambda>k. if k \<in> fst ` set d then CHR ''1'' else CHR ''0'') ex_keys) else Inl TypeError
      | _ \<Rightarrow> Inl TypeError)"

definition ex_crypto :: sig_lib where
  "ex_crypto = \<lparr>ed_raw = (\<lambda>k s m. s = m), ed_der = (\<lambda>k s m. s = m), dumps_plain = ex_dumps\<rparr>"

definition ex_issuer :: ca_lib where
  "ex_issuer = \<lparr>lib_sign = (\<lambda>v. res_bind (ex_dumps v) (\<lambda>t. Inr (''ed25519:'' @ t))),
     lib_loads = (\<lambda>j. Inr (PDict [(''nodes'', PList [PStr ''nwp://h/*''])])), lib_dumps = (\<lambda>_. ''{}''), lib_iso = ex_iso_text,
     lib_parse_key = (\<lambda>_. Inr ()), lib_leaf = (\<lambda>_ _ _ _ _ _ _. Inr ''leaf''), lib_root = ''root''\<rparr>"

lemma ex_crypto_laws:
  "sorted_dumps ex_crypto" "dumps_keys ex_crypto" "signs_with ex_issuer ex_crypto ''ed25519:key''"
  "signs_only ex_issuer ex_crypto ''ed25519:key''" "iso_inverse ex_issuer ex_read"
proof -
  show "sorted_dumps ex_crypto" by (simp add: sorted_dumps_def ex_crypto_def ex_dumps_def)
  have "A = B" if "A \<subseteq> set ex_keys" "B \<subseteq> set ex_keys" "\<forall>k \<in> set ex_keys. k \<in> A \<longleftrightarrow> k \<in> B" for A B
    using that by blast
  then show "dumps_keys ex_crypto"
    unfolding dumps_keys_def ex_crypto_def ex_dumps_def by (simp split: if_splits) metis
  show "signs_with ex_issuer ex_crypto ''ed25519:key''"
    by (auto simp: signs_with_def ex_issuer_def ex_crypto_def res_bind_eq_Inr py_startswith_def)
  show "signs_only ex_issuer ex_crypto ''ed25519:key''"
    by (auto simp: signs_only_def ex_issuer_def ex_crypto_def res_bind_eq_Inr)
  show "iso_inverse ex_issuer ex_read" by (simp add: iso_inverse_def ex_issuer_def iso_text_inverse)
qed

definition ex_frame :: "string option \<Rightarrow> ident_frame" where
  "ex_frame m = projr (fst (register ex_issuer ex_ca 7 ''agent'' ''a'' ''ed25519:k'' [''read''] ''{}'' m empty_ca))"

definition ex_issued :: "string option \<Rightarrow> ca_store" where
  "ex_issued m = snd (register ex_issuer ex_ca 7 ''agent'' ''a'' ''ed25519:k'' [''read''] ''{}'' m empty_ca)"

definition ex_node :: "ca_store \<Rightarrow> verifier_options" where
  "ex_node s = \<lparr>vo_trusted_issuers = [(''urn:nps:ca:d:root'', ''ed25519:key'')], vo_trusted_x509_roots = [ex_leaf],
     vo_local_revoked_serials = None, vo_revocation_check = None, vo_revocation_store = Some (as_revocation_store ex_issuer s),
     vo_ocsp_url = None, vo_ocsp_fail_open = False, vo_revocation_mode = REQUIRED, vo_phase3_enforcement = True,
     vo_http_get = (\<lambda>url. Inl HttpError)\<rparr>"

definition ex_visit :: "int \<Rightarrow> verify_context" where
  "ex_visit t = \<lparr>vc_required_capabilities = Some [''read''], vc_target_node_path = Some ''nwp://h/x'', vc_as_of = Some t\<rparr>"

lemma ex_registered:
  "register ex_issuer ex_ca 7 ''agent'' ''a'' ''ed25519:k'' [''read''] ''{}'' None empty_ca = (Inr (ex_frame None), ex_issued None)"
  "register ex_issuer ex_ca 7 ''agent'' ''a'' ''ed25519:k'' [''read''] ''{}'' (Some ''{}'') empty_ca = (Inr (ex_frame (Some ''{}'')), ex_issued (Some ''{}''))"
  by code_simp+

lemma ex_node_backed: "ca_backed ex_issuer ex_ca ''ed25519:key'' s (ex_node s)"
  by (simp add: ca_backed_def ex_node_def ex_ca_def dict_get_def)

theorem issued_identity_verifies_witness:
  "ident_verify ex_crypto ex_x5 ex_read (\<lambda>v. []) (ex_node (ex_issued None)) 0 (ex_frame None) (ex_visit 8) = Inr Accept"
proof -
  let ?call = "Register 7 ''agent'' ''a'' ''ed25519:k'' [''read''] ''{}'' None"
  have issued: "issued_plainly ex_issuer ex_ca ?call empty_ca (ex_frame None)"
    by (rule by_register) (simp add: ex_registered)
  have run: "ca_run ex_issuer ex_ca (ca_do ex_issuer ex_ca ?call empty_ca) (ex_issued None)"
    by (simp add: ex_registered ca_run.ca_stay)
  have "\<forall>r \<in> set (ca_records (ex_issued None)). 8 < cr_expires_at r \<and> cr_revoked_at r = None \<and> cr_capabilities r = [''read'']"
    "scope_nodes (id_scope (ex_frame None)) = Some [PStr ''nwp://h/*'']" "nwp_path_matches ''nwp://h/*'' ''nwp://h/x''" by code_simp+
  then show ?thesis
    using issued_identity_verifies [OF ca_run.ca_stay issued _ run ex_crypto_laws(3,1,5) ex_node_backed,
        of ex_x5 "\<lambda>v. []" 0 "ex_visit 8"]
    by (auto simp: ex_visit_def)
qed

definition ex_renewed :: ca_store where
  "ex_renewed = snd (renew ex_issuer ex_ca (days 25) ''urn:nps:agent:d:a'' (ex_issued None))"

definition ex_withdrawn :: ca_store where
  "ex_withdrawn = snd (revoke ex_issuer ex_ca (days 26) ''urn:nps:agent:d:a'' ''key_compromise'' ex_renewed)"

lemma succeeds: "\<not> isl (fst p) \<Longrightarrow> \<exists>x. p = (Inr x, snd p)"
  by (cases p; cases "fst p") auto

lemma ex_renew_revoke:
  "\<exists>f. renew ex_issuer ex_ca (days 25) (build_nid ex_ca ''agent'' ''a'') (ex_issued None) = (Inr f, ex_renewed)"
  "\<exists>f. revoke ex_issuer ex_ca (days 26) (build_nid ex_ca ''agent'' ''a'') ''key_compromise'' ex_renewed = (Inr f, ex_withdrawn)"
proof -
  have nid: "build_nid ex_ca ''agent'' ''a'' = ''urn:nps:agent:d:a''" by code_simp
  have "\<not> isl (fst (renew ex_issuer ex_ca (days 25) ''urn:nps:agent:d:a'' (ex_issued None)))" by code_simp
  then show "\<exists>f. renew ex_issuer ex_ca (days 25) (build_nid ex_ca ''agent'' ''a'') (ex_issued None) = (Inr f, ex_renewed)"
    unfolding nid ex_renewed_def by (rule succeeds)
  have "\<not> isl (fst (revoke ex_issuer ex_ca (days 26) ''urn:nps:agent:d:a'' ''key_compromise'' ex_renewed))" by code_simp
  then show "\<exists>f. revoke ex_issuer ex_ca (days 26) (build_nid ex_ca ''agent'' ''a'') ''key_compromise'' ex_renewed = (Inr f, ex_withdrawn)"
    unfolding nid ex_withdrawn_def by (rule succeeds)
qed

lemma ex_frame_expiry: "parse_timestamp ex_read (id_expires_at (ex_frame m)) = Inr (Some (days 30 + 7))" if "m = None \<or> m = Some ''{}''"
  using that by (elim disjE; hypsubst; code_simp)

theorem renewed_predecessor_survives_witness:
  "ident_verify ex_crypto ex_x5 ex_read (\<lambda>v. []) (ex_node ex_withdrawn) 0 (ex_frame None)
     \<lparr>vc_required_capabilities = None, vc_target_node_path = None, vc_as_of = Some (days 27)\<rparr> = Inr Accept
   \<and> verify (days 27) (days 27) (build_nid ex_ca ''agent'' ''a'') ex_withdrawn = Invalid CERT_REVOKED"
proof -
  obtain f2 rf where
    "renew ex_issuer ex_ca (days 25) (build_nid ex_ca ''agent'' ''a'') (ex_issued None) = (Inr f2, ex_renewed)"
    "revoke ex_issuer ex_ca (days 26) (build_nid ex_ca ''agent'' ''a'') ''key_compromise'' ex_renewed = (Inr rf, ex_withdrawn)"
    using ex_renew_revoke by blast
  then show ?thesis
    by (rule renewed_predecessor_survives [OF ca_run.ca_stay ex_registered(1) _ _ ex_crypto_laws(3,1,5) ex_node_backed ex_frame_expiry])
       (simp_all add: days_def)
qed

theorem metadata_breaks_signature_witness:
  "ident_verify ex_crypto ex_x5 ex_read (\<lambda>v. []) (ex_node (ex_issued (Some ''{}''))) 0 (ex_frame (Some ''{}'')) (ex_visit 8)
     = Inr (Reject 3 CERT_SIGNATURE_INVALID)"
  by (rule metadata_breaks_signature [OF _ ex_registered(2) ex_crypto_laws(4,2) _ ex_frame_expiry])
     (simp_all add: serials_ok_def empty_ca_def ex_node_def ex_ca_def dict_get_def ex_visit_def days_def)

theorem phase3_refuses_issued_witness:
  "\<exists>f s. register_x509 ex_issuer ex_ca 7 ''agent'' ''a'' ''ed25519:k'' [''read''] ''{}'' ATTESTED None empty_ca = (Inr f, s)
     \<and> ident_verify ex_crypto ex_x5 ex_read (\<lambda>v. []) (ex_node s) 0 (f\<lparr>id_ocsp_staple := PStr ex_entry\<rparr>) (ex_visit 8) \<noteq> Inr Accept"
proof -
  have "\<not> isl (fst (register_x509 ex_issuer ex_ca 7 ''agent'' ''a'' ''ed25519:k'' [''read''] ''{}'' ATTESTED None empty_ca))" by code_simp
  then obtain f s where f: "register_x509 ex_issuer ex_ca 7 ''agent'' ''a'' ''ed25519:k'' [''read''] ''{}'' ATTESTED None empty_ca = (Inr f, s)"
    using succeeds by metis
  have "ident_verify ex_crypto ex_x5 ex_read (\<lambda>v. []) (ex_node s) 0 (f\<lparr>id_ocsp_staple := PStr ex_entry\<rparr>) (ex_visit 8) \<noteq> Inr Accept"
    by (rule phase3_refuses_issued [OF f ex_crypto_laws(4,2)]) (simp_all add: ex_node_def ex_ca_def)
  with f show ?thesis by blast
qed

end
