(* ===== verification/NipReputation.thy ===== *)
theory NipReputation
  imports Base64 PyValue "HOL-Library.List_Lexorder" "HOL-Library.Char_ord"
begin

text \<open>
  The reputation log, \<open>nps_sdk/nip/reputation.py\<close>: entries with their wire form, the canonical text that is signed and
  hashed, signing and verification of entries, and Merkle inclusion proofs.

  SHA-256, Ed25519 and the text of a JSON value with its keys in the given order (\<open>json.dumps\<close>) are arguments. The
  HTTP client is modelled from the decoded response on.
\<close>

section \<open>Canonical order\<close>

text \<open>\<open>sorted(obj.items())\<close>: the keys of a dictionary differ, so the order is that of the keys.\<close>

fun sort_keys :: "pyval \<Rightarrow> pyval" where
  "sort_keys (PDict d) = PDict (sort_key fst (map (\<lambda>kv. (fst kv, sort_keys (snd kv))) d))"
| "sort_keys (PList xs) = PList (map sort_keys xs)"
| "sort_keys v = v"

section \<open>Incidents and severities\<close>

datatype incident_type =
    CERT_REVOKED_INCIDENT | RATE_LIMIT_VIOLATION | TOS_VIOLATION | SCRAPING_PATTERN | PAYMENT_DEFAULT | CONTRACT_DISPUTE
  | IMPERSONATION_CLAIM | POSITIVE_ATTESTATION | OTHER

definition incident_types :: "incident_type list" where
  "incident_types = [CERT_REVOKED_INCIDENT, RATE_LIMIT_VIOLATION, TOS_VIOLATION, SCRAPING_PATTERN, PAYMENT_DEFAULT, CONTRACT_DISPUTE,
     IMPERSONATION_CLAIM, POSITIVE_ATTESTATION, OTHER]"

fun incident_wire :: "incident_type \<Rightarrow> string" where
  "incident_wire CERT_REVOKED_INCIDENT = ''cert-revoked''"
| "incident_wire RATE_LIMIT_VIOLATION = ''rate-limit-violation''"
| "incident_wire TOS_VIOLATION = ''tos-violation''"
| "incident_wire SCRAPING_PATTERN = ''scraping-pattern''"
| "incident_wire PAYMENT_DEFAULT = ''payment-default''"
| "incident_wire CONTRACT_DISPUTE = ''contract-dispute''"
| "incident_wire IMPERSONATION_CLAIM = ''impersonation-claim''"
| "incident_wire POSITIVE_ATTESTATION = ''positive-attestation''"
| "incident_wire OTHER = ''__other__''"

definition incident_from_wire :: "pyval \<Rightarrow> incident_type" where
  "incident_from_wire v = (case find (\<lambda>m. PStr (incident_wire m) = v) incident_types of None \<Rightarrow> OTHER | Some m \<Rightarrow> m)"

datatype severity = INFO | MINOR | MODERATE | MAJOR | CRITICAL

definition severities :: "severity list" where
  "severities = [INFO, MINOR, MODERATE, MAJOR, CRITICAL]"

fun severity_wire :: "severity \<Rightarrow> string" where
  "severity_wire INFO = ''info''"
| "severity_wire MINOR = ''minor''"
| "severity_wire MODERATE = ''moderate''"
| "severity_wire MAJOR = ''major''"
| "severity_wire CRITICAL = ''critical''"

fun severity_rank :: "severity \<Rightarrow> int" where
  "severity_rank INFO = 0"
| "severity_rank MINOR = 1"
| "severity_rank MODERATE = 2"
| "severity_rank MAJOR = 3"
| "severity_rank CRITICAL = 4"

definition severity_from_wire :: "pyval \<Rightarrow> severity res" where
  "severity_from_wire v =
     res_bind (as_str v) (\<lambda>s. of_option ValueError (find (\<lambda>m. severity_wire m = py_lower s) severities))"

text \<open>The comparisons of \<open>Severity\<close> are those of the values, and order the severities linearly.\<close>

definition severity_lt :: "severity \<Rightarrow> severity \<Rightarrow> bool" where
  "severity_lt a b = (severity_rank a < severity_rank b)"

definition severity_le :: "severity \<Rightarrow> severity \<Rightarrow> bool" where
  "severity_le a b = (severity_rank a \<le> severity_rank b)"

definition severity_gt :: "severity \<Rightarrow> severity \<Rightarrow> bool" where
  "severity_gt a b = (severity_rank a > severity_rank b)"

definition severity_ge :: "severity \<Rightarrow> severity \<Rightarrow> bool" where
  "severity_ge a b = (severity_rank a \<ge> severity_rank b)"

instantiation severity :: linorder
begin

definition less_eq_severity :: "severity \<Rightarrow> severity \<Rightarrow> bool" where
  "less_eq_severity = severity_le"

definition less_severity :: "severity \<Rightarrow> severity \<Rightarrow> bool" where
  "less_severity = severity_lt"

instance
proof
  fix x y z :: severity
  show "x < y \<longleftrightarrow> x \<le> y \<and> \<not> y \<le> x" by (auto simp: less_eq_severity_def less_severity_def severity_le_def severity_lt_def)
  show "x \<le> x" by (simp add: less_eq_severity_def severity_le_def)
  show "x \<le> y \<Longrightarrow> y \<le> z \<Longrightarrow> x \<le> z" by (simp add: less_eq_severity_def severity_le_def)
  show "x \<le> y \<Longrightarrow> y \<le> x \<Longrightarrow> x = y" by (cases x; cases y; simp add: less_eq_severity_def severity_le_def)
  show "x \<le> y \<or> y \<le> x" by (auto simp: less_eq_severity_def severity_le_def)
qed

end

lemma severity_order: "severity_gt a b \<longleftrightarrow> b < a" "severity_ge a b \<longleftrightarrow> b \<le> a"
  by (simp_all add: severity_gt_def severity_ge_def less_severity_def less_eq_severity_def severity_lt_def severity_le_def)

section \<open>Entries\<close>

record observation_window =
  ow_start :: pyval
  ow_end :: pyval

definition window_to_dict :: "observation_window \<Rightarrow> pyval" where
  "window_to_dict w = PDict [(''start'', ow_start w), (''end'', ow_end w)]"

definition window_from_dict :: "pyval \<Rightarrow> observation_window res" where
  "window_from_dict d =
     res_bind (py_item d ''start'') (\<lambda>s. res_bind (py_item d ''end'') (\<lambda>e. Inr \<lparr>ow_start = s, ow_end = e\<rparr>))"

definition optional_window :: "pyval \<Rightarrow> observation_window option res" where
  "optional_window raw = (if raw = PNone then Inr None else res_bind (window_from_dict raw) (\<lambda>w. Inr (Some w)))"

record log_entry =
  le_v :: pyval
  le_log_id :: pyval
  le_seq :: pyval
  le_timestamp :: pyval
  le_subject_nid :: pyval
  le_incident :: incident_type
  le_severity :: severity
  le_issuer_nid :: pyval
  le_window :: "observation_window option"
  le_observation :: pyval
  le_evidence_ref :: pyval
  le_evidence_sha256 :: pyval
  le_signature :: pyval
  le_incident_raw :: pyval

definition wire_incident :: "log_entry \<Rightarrow> pyval" where
  "wire_incident e = (if le_incident e = OTHER \<and> le_incident_raw e \<noteq> PNone then le_incident_raw e else PStr (incident_wire (le_incident e)))"

definition entry_to_dict :: "log_entry \<Rightarrow> pyval dict" where
  "entry_to_dict e =
     [(''v'', le_v e), (''log_id'', le_log_id e), (''seq'', le_seq e), (''timestamp'', le_timestamp e), (''subject_nid'', le_subject_nid e),
      (''incident'', wire_incident e),
      (''severity'', PStr (severity_wire (le_severity e))), (''issuer_nid'', le_issuer_nid e)]
     @ not_none ''window'' (opt_val window_to_dict (le_window e)) @ not_none ''observation'' (le_observation e)
     @ not_none ''evidence_ref'' (le_evidence_ref e) @ not_none ''evidence_sha256'' (le_evidence_sha256 e)
     @ not_none ''signature'' (le_signature e)"

definition entry_from_dict :: "pyval \<Rightarrow> log_entry res" where
  "entry_from_dict data =
     res_bind (py_item data ''incident'') (\<lambda>incident_str.
     let incident = incident_from_wire incident_str in
     res_bind (py_get data ''window'') (\<lambda>window_raw.
     res_bind (optional_window window_raw) (\<lambda>window.
     res_bind (py_get_or data ''v'' (PInt 1)) (\<lambda>v.
     res_bind (py_item data ''log_id'') (\<lambda>log_id.
     res_bind (py_get_or data ''seq'' (PInt 0)) (\<lambda>seq.
     res_bind (py_get_or data ''timestamp'' (PStr [])) (\<lambda>timestamp.
     res_bind (py_item data ''subject_nid'') (\<lambda>subject.
     res_bind (res_bind (py_item data ''severity'') severity_from_wire) (\<lambda>severity.
     res_bind (py_item data ''issuer_nid'') (\<lambda>issuer.
     res_bind (py_get data ''observation'') (\<lambda>observation.
     res_bind (py_get data ''evidence_ref'') (\<lambda>ref.
     res_bind (py_get data ''evidence_sha256'') (\<lambda>sha.
     res_bind (py_get data ''signature'') (\<lambda>signature.
       Inr \<lparr>le_v = v, le_log_id = log_id, le_seq = seq, le_timestamp = timestamp, le_subject_nid = subject, le_incident = incident,
            le_severity = severity, le_issuer_nid = issuer, le_window = window, le_observation = observation, le_evidence_ref = ref,
            le_evidence_sha256 = sha, le_signature = signature, le_incident_raw = (if incident = OTHER then incident_str else PNone)\<rparr>))))))))))))))"

record signed_tree_head =
  th_log_id :: pyval
  th_tree_size :: pyval
  th_timestamp :: pyval
  th_root_hash :: pyval
  th_signature :: pyval

definition sth_to_dict :: "signed_tree_head \<Rightarrow> pyval" where
  "sth_to_dict t =
     PDict [(''log_id'', th_log_id t), (''tree_size'', th_tree_size t), (''timestamp'', th_timestamp t), (''sha256_root_hash'', th_root_hash t),
            (''signature'', th_signature t)]"

definition sth_from_dict :: "pyval \<Rightarrow> signed_tree_head res" where
  "sth_from_dict d =
     res_bind (py_item d ''log_id'') (\<lambda>a. res_bind (py_item d ''tree_size'') (\<lambda>b. res_bind (py_item d ''timestamp'') (\<lambda>c.
     res_bind (py_item d ''sha256_root_hash'') (\<lambda>h. res_bind (py_item d ''signature'') (\<lambda>s.
       Inr \<lparr>th_log_id = a, th_tree_size = b, th_timestamp = c, th_root_hash = h, th_signature = s\<rparr>)))))"

record inclusion_proof =
  ip_seq :: pyval
  ip_leaf_index :: pyval
  ip_tree_size :: pyval
  ip_leaf_hash :: pyval
  ip_audit_path :: "pyval list"

definition proof_to_dict :: "inclusion_proof \<Rightarrow> pyval" where
  "proof_to_dict p =
     PDict [(''seq'', ip_seq p), (''leaf_index'', ip_leaf_index p), (''tree_size'', ip_tree_size p), (''leaf_hash'', ip_leaf_hash p),
            (''audit_path'', PList (ip_audit_path p))]"

definition proof_from_dict :: "pyval \<Rightarrow> inclusion_proof res" where
  "proof_from_dict d =
     res_bind (py_item d ''seq'') (\<lambda>a. res_bind (py_item d ''leaf_index'') (\<lambda>b. res_bind (py_item d ''tree_size'') (\<lambda>c.
     res_bind (py_item d ''leaf_hash'') (\<lambda>h. res_bind (res_bind (py_get_or d ''audit_path'' (PList [])) py_iter) (\<lambda>p.
       Inr \<lparr>ip_seq = a, ip_leaf_index = b, ip_tree_size = c, ip_leaf_hash = h, ip_audit_path = p\<rparr>)))))"

section \<open>Signing and hashing\<close>

record log_lib =
  ll_dumps :: "pyval \<Rightarrow> bytes res"
  ll_sha256 :: "bytes \<Rightarrow> bytes"

definition canonical_for_signing :: "log_lib \<Rightarrow> log_entry \<Rightarrow> bytes res" where
  "canonical_for_signing L e = ll_dumps L (sort_keys (PDict (dict_pop ''signature'' (entry_to_dict e))))"

definition canonical_for_leaf :: "log_lib \<Rightarrow> log_entry \<Rightarrow> bytes res" where
  "canonical_for_leaf L e = ll_dumps L (sort_keys (PDict (entry_to_dict e)))"

definition sign_entry :: "log_lib \<Rightarrow> (bytes \<Rightarrow> bytes) \<Rightarrow> log_entry \<Rightarrow> log_entry res" where
  "sign_entry L sign e =
     res_bind (canonical_for_signing L e) (\<lambda>payload. Inr (e\<lparr>le_signature := PStr (''ed25519:'' @ b64u_encode (sign payload))\<rparr>))"

definition verify_entry :: "log_lib \<Rightarrow> (bytes \<Rightarrow> bytes \<Rightarrow> bool) \<Rightarrow> log_entry \<Rightarrow> bool res" where
  "verify_entry L check e =
     (if le_signature e = PNone then Inr False
      else res_bind (as_str (le_signature e)) (\<lambda>s.
        if \<not> py_startswith s ''ed25519:'' then Inr False
        else Inr (case res_bind (b64u_decode (drop 8 s)) (\<lambda>raw. res_bind (canonical_for_signing L e) (\<lambda>payload. Inr (check raw payload))) of
                    Inl _ \<Rightarrow> False | Inr ok \<Rightarrow> ok)))"

text \<open>The fold over the audit path; \<open>i\<close> is the position in the path.\<close>

definition leaf_hash :: "(bytes \<Rightarrow> bytes) \<Rightarrow> bytes \<Rightarrow> bytes" where
  "leaf_hash sha leaf = sha (0 # leaf)"

definition node_hash :: "(bytes \<Rightarrow> bytes) \<Rightarrow> bytes \<Rightarrow> bytes \<Rightarrow> bytes" where
  "node_hash sha l r = sha (1 # l @ r)"

text \<open>\<open>(leaf_index >> i) & 1 == 0\<close>, for integers of either sign.\<close>

definition is_left :: "int \<Rightarrow> nat \<Rightarrow> bool" where
  "is_left index i \<longleftrightarrow> index div 2 ^ i mod 2 = 0"

fun fold_path :: "(bytes \<Rightarrow> bytes) \<Rightarrow> int \<Rightarrow> nat \<Rightarrow> pyval list \<Rightarrow> bytes \<Rightarrow> bytes res" where
  "fold_path sha index i [] h = Inr h"
| "fold_path sha index i (step # path) h =
     res_bind (res_bind (as_str step) b64u_decode) (\<lambda>sibling.
       fold_path sha index (Suc i) path (if is_left index i then node_hash sha h sibling else node_hash sha sibling h))"

definition verify_inclusion :: "log_lib \<Rightarrow> inclusion_proof \<Rightarrow> signed_tree_head \<Rightarrow> log_entry \<Rightarrow> bool" where
  "verify_inclusion L p sth e =
     (case res_bind (canonical_for_leaf L e) (\<lambda>leaf.
             res_bind (if ip_audit_path p = [] then Inr 0 else case ip_leaf_index p of PInt i \<Rightarrow> Inr i | PBool b \<Rightarrow> Inr (if b then 1 else 0)
                       | _ \<Rightarrow> Inl TypeError) (\<lambda>index.
             res_bind (fold_path (ll_sha256 L) index 0 (ip_audit_path p) (leaf_hash (ll_sha256 L) leaf)) (\<lambda>h.
             res_bind (res_bind (as_str (th_root_hash sth)) b64u_decode) (\<lambda>root_bytes. Inr (h = root_bytes))))) of
        Inl _ \<Rightarrow> False
      | Inr ok \<Rightarrow> ok)"

section \<open>The client\<close>

text \<open>A response: its status, and its body when it is JSON. \<open>raise_for_status\<close> raises unless the status is a success.\<close>

datatype log_failure = LogException pyval pyval | OtherFailure py_error

definition parse_response :: "int \<Rightarrow> pyval option \<Rightarrow> log_failure + pyval" where
  "parse_response http_status body =
     (case body of
        None \<Rightarrow> if 200 \<le> http_status \<and> http_status < 300 then Inl (LogException (PStr ''NIP-0000'') (PStr ''parse-error'')) else Inl (OtherFailure HttpError)
      | Some data \<Rightarrow>
          if 400 \<le> http_status \<and> http_status < 600
          then (case res_bind (py_get_or data ''error'' (PStr ''NIP-0000'')) (\<lambda>c. res_bind (py_get_or data ''status'' (PStr ''unknown'')) (\<lambda>s. Inr (c, s))) of
                  Inl e \<Rightarrow> Inl (OtherFailure e) | Inr (c, s) \<Rightarrow> Inl (LogException c s))
          else Inr data)"

definition of_response :: "int \<Rightarrow> pyval option \<Rightarrow> (pyval \<Rightarrow> 'a res) \<Rightarrow> log_failure + 'a" where
  "of_response http_status body convert =
     (case parse_response http_status body of
        Inl f \<Rightarrow> Inl f
      | Inr data \<Rightarrow> (case convert data of Inl e \<Rightarrow> Inl (OtherFailure e) | Inr x \<Rightarrow> Inr x))"

definition client_submit :: "int \<Rightarrow> pyval option \<Rightarrow> log_failure + log_entry" where
  "client_submit http_status body = of_response http_status body entry_from_dict"

definition query_params :: "string option \<Rightarrow> int option \<Rightarrow> pyval dict" where
  "query_params nid since_seq = not_none ''nid'' (opt_val PStr nid) @ not_none ''since'' (opt_val PInt since_seq)"

definition client_query :: "int \<Rightarrow> pyval option \<Rightarrow> log_failure + log_entry list" where
  "client_query http_status body =
     of_response http_status body (\<lambda>data. res_bind (res_bind (py_get_or data ''entries'' (PList [])) py_iter) (res_map entry_from_dict))"

definition client_get_sth :: "int \<Rightarrow> pyval option \<Rightarrow> log_failure + signed_tree_head" where
  "client_get_sth http_status body = of_response http_status body sth_from_dict"

definition client_get_proof :: "int \<Rightarrow> pyval option \<Rightarrow> log_failure + inclusion_proof" where
  "client_get_proof http_status body = of_response http_status body proof_from_dict"

section \<open>Entries on the wire\<close>

text \<open>The raw text of an incident is kept exactly when its type is not a known one.\<close>

definition entry_wf :: "log_entry \<Rightarrow> bool" where
  "entry_wf e \<longleftrightarrow>
     (if le_incident e = OTHER then le_incident_raw e \<noteq> PNone \<and> incident_from_wire (le_incident_raw e) = OTHER else le_incident_raw e = PNone)"

lemma incident_from_to [simp]: "incident_from_wire (PStr (incident_wire i)) = i"
  by (cases i) (simp_all add: incident_from_wire_def incident_types_def)

lemma severity_wires: "list_all (\<lambda>s. severity_from_wire (PStr (severity_wire s)) = Inr s) severities"
  by code_simp

lemma severity_from_to [simp]: "severity_from_wire (PStr (severity_wire s)) = Inr s"
  using severity_wires by (cases s) (simp_all add: severities_def del: severity_wire.simps)

lemma window_dict [simp]: "window_from_dict (window_to_dict w) = Inr w"
  by (simp add: window_from_dict_def window_to_dict_def py_item_def of_option_def res_bind_def)

lemma entry_lookup:
  "map_of (entry_to_dict e) ''v'' = Some (le_v e)" "map_of (entry_to_dict e) ''log_id'' = Some (le_log_id e)"
  "map_of (entry_to_dict e) ''seq'' = Some (le_seq e)" "map_of (entry_to_dict e) ''timestamp'' = Some (le_timestamp e)"
  "map_of (entry_to_dict e) ''subject_nid'' = Some (le_subject_nid e)"
  "map_of (entry_to_dict e) ''incident'' = Some (wire_incident e)"
  "map_of (entry_to_dict e) ''severity'' = Some (PStr (severity_wire (le_severity e)))"
  "map_of (entry_to_dict e) ''issuer_nid'' = Some (le_issuer_nid e)"
  by (simp_all add: entry_to_dict_def)

lemma entry_optional:
  "(case map_of (entry_to_dict e) ''window'' of None \<Rightarrow> PNone | Some v \<Rightarrow> v) = opt_val window_to_dict (le_window e)"
  "(case map_of (entry_to_dict e) ''observation'' of None \<Rightarrow> PNone | Some v \<Rightarrow> v) = le_observation e"
  "(case map_of (entry_to_dict e) ''evidence_ref'' of None \<Rightarrow> PNone | Some v \<Rightarrow> v) = le_evidence_ref e"
  "(case map_of (entry_to_dict e) ''evidence_sha256'' of None \<Rightarrow> PNone | Some v \<Rightarrow> v) = le_evidence_sha256 e"
  "(case map_of (entry_to_dict e) ''signature'' of None \<Rightarrow> PNone | Some v \<Rightarrow> v) = le_signature e"
  by (simp_all add: entry_to_dict_def map_add_def)

lemma window_read [simp]: "optional_window (opt_val window_to_dict w) = Inr w"
proof (cases w)
  case (Some x)
  moreover have "window_to_dict x \<noteq> PNone" by (simp add: window_to_dict_def)
  ultimately show ?thesis by (simp add: optional_window_def res_bind_def)
qed (simp add: optional_window_def)

lemma entry_dict:
  assumes "entry_wf e"
  shows "entry_from_dict (PDict (entry_to_dict e)) = Inr e"
proof -
  have "incident_from_wire (wire_incident e) = le_incident e" "(if le_incident e = OTHER then wire_incident e else PNone) = le_incident_raw e"
    using assms by (auto simp: entry_wf_def wire_incident_def)
  then show ?thesis
    by (simp add: entry_from_dict_def py_item_def py_get_def py_get_or_def entry_lookup entry_optional of_option_def Let_def)
qed

lemma sth_dict: "sth_from_dict (sth_to_dict t) = Inr t"
  by (simp add: sth_from_dict_def sth_to_dict_def py_item_def of_option_def res_bind_def)

lemma proof_dict: "proof_from_dict (proof_to_dict p) = Inr p"
  by (simp add: proof_from_dict_def proof_to_dict_def py_item_def py_get_or_def py_iter_def of_option_def res_bind_def)

section \<open>Signatures\<close>

lemma signed_part_unsigned: "dict_pop ''signature'' (entry_to_dict (e\<lparr>le_signature := s\<rparr>)) = dict_pop ''signature'' (entry_to_dict e)"
  by (simp add: entry_to_dict_def dict_pop_def AList.delete_eq not_none_def wire_incident_def)

lemma canonical_signature [simp]: "canonical_for_signing L (e\<lparr>le_signature := s\<rparr>) = canonical_for_signing L e"
  by (simp add: canonical_for_signing_def signed_part_unsigned)

lemma sign_then_verify:
  assumes "sign_entry L sign e = Inr e'" and "\<And>m. check (sign m) m"
  shows "verify_entry L check e' = Inr True"
  using assms by (auto simp: sign_entry_def verify_entry_def res_bind_def as_str_def py_startswith_def b64u_roundtrip split: sum.splits)

section \<open>Merkle trees\<close>

text \<open>The tree of RFC 9162: the left part holds the largest power of two below the number of leaves.\<close>

fun split_size :: "nat \<Rightarrow> nat" where
  "split_size n = (if n \<le> 2 then 1 else 2 * split_size ((n + 1) div 2))"

declare split_size.simps [simp del]

lemma split_size_bounds: "2 \<le> n \<Longrightarrow> 0 < split_size n \<and> split_size n < n"
proof (induction n rule: split_size.induct)
  case (1 n)
  show ?case
  proof (cases "n \<le> 2")
    case False
    then have "0 < split_size ((n + 1) div 2)" "split_size ((n + 1) div 2) < (n + 1) div 2" using "1.IH" by auto
    then show ?thesis using False by (simp add: split_size.simps [of n])
  qed (use 1 in \<open>simp add: split_size.simps\<close>)
qed

lemma split_size_pow: "split_size (2 ^ Suc d) = 2 ^ d"
proof (induction d)
  case (Suc d)
  have "(2 ^ Suc (Suc d) + 1) div 2 = (2::nat) ^ Suc d" by simp
  moreover have "\<not> (2::nat) ^ Suc (Suc d) \<le> 2" using one_le_power [of "2::nat" d] by (simp only: power_Suc) linarith
  ultimately have "split_size (2 ^ Suc (Suc d)) = 2 * split_size (2 ^ Suc d)" by (subst split_size.simps) (simp only: if_False)
  then show ?case using Suc by simp
qed (simp add: split_size.simps)

function mth :: "(bytes \<Rightarrow> bytes) \<Rightarrow> bytes list \<Rightarrow> bytes" where
  "mth sha leaves =
     (if length leaves < 2 then leaf_hash sha (case leaves of [] \<Rightarrow> [] | x # _ \<Rightarrow> x)
      else node_hash sha (mth sha (take (split_size (length leaves)) leaves)) (mth sha (drop (split_size (length leaves)) leaves)))"
  by pat_completeness auto
termination
  by (relation "measure (\<lambda>(sha, leaves). length leaves)") (use split_size_bounds in \<open>force simp: not_less min_def\<close>)+

function audit :: "(bytes \<Rightarrow> bytes) \<Rightarrow> nat \<Rightarrow> bytes list \<Rightarrow> bytes list" where
  "audit sha m leaves =
     (if length leaves < 2 then []
      else let k = split_size (length leaves) in
           if m < k then audit sha m (take k leaves) @ [mth sha (drop k leaves)]
           else audit sha (m - k) (drop k leaves) @ [mth sha (take k leaves)])"
  by pat_completeness auto
termination
  by (relation "measure (\<lambda>(sha, m, leaves). length leaves)") (use split_size_bounds in \<open>force simp: not_less min_def\<close>)+

declare mth.simps [simp del] audit.simps [simp del]

text \<open>The fold on decoded hashes.\<close>

fun climb :: "(bytes \<Rightarrow> bytes) \<Rightarrow> int \<Rightarrow> nat \<Rightarrow> bytes list \<Rightarrow> bytes \<Rightarrow> bytes" where
  "climb sha index i [] h = h"
| "climb sha index i (s # ss) h = climb sha index (Suc i) ss (if is_left index i then node_hash sha h s else node_hash sha s h)"

definition encode_path :: "bytes list \<Rightarrow> pyval list" where
  "encode_path hs = map (\<lambda>h. PStr (b64u_encode h)) hs"

lemma fold_path_encoded: "fold_path sha index i (encode_path hs) h = Inr (climb sha index i hs h)"
  by (induction hs arbitrary: i h) (simp_all add: encode_path_def as_str_def b64u_roundtrip)

lemma climb_append: "climb sha index i (p @ q) h = climb sha index (i + length p) q (climb sha index i p h)"
  by (induction p arbitrary: i h) simp_all

lemma climb_cong: "\<forall>j < length p. is_left a (i + j) = is_left b (i + j) \<Longrightarrow> climb sha a i p h = climb sha b i p h"
proof (induction p arbitrary: i h)
  case (Cons s ss)
  have "is_left a i = is_left b i" using Cons.prems by (metis add.right_neutral length_greater_0_conv list.distinct(1))
  moreover have "\<forall>j < length ss. is_left a (Suc i + j) = is_left b (Suc i + j)" using Cons.prems by force
  ultimately show ?case using Cons.IH by simp
qed simp

lemma is_left_add:
  assumes "j < d"
  shows "is_left (a + 2 ^ d) j = is_left a j"
proof -
  have "(2::int) ^ d = 2 ^ j * (2 * 2 ^ (d - Suc j))" using assms by (simp flip: power_add power_Suc)
  then have "(a + 2 ^ d) div 2 ^ j = 2 * 2 ^ (d - Suc j) + a div 2 ^ j" by simp
  then show ?thesis by (simp add: is_left_def)
qed

lemma mth_pow:
  assumes "length leaves = 2 ^ Suc d"
  shows "mth sha leaves = node_hash sha (mth sha (take (2 ^ d) leaves)) (mth sha (drop (2 ^ d) leaves))"
    and "audit sha m leaves = (if m < 2 ^ d then audit sha m (take (2 ^ d) leaves) @ [mth sha (drop (2 ^ d) leaves)]
       else audit sha (m - 2 ^ d) (drop (2 ^ d) leaves) @ [mth sha (take (2 ^ d) leaves)])"
proof -
  have "\<not> length leaves < 2" using assms one_le_power [of "2::nat" d] by simp
  then show "mth sha leaves = node_hash sha (mth sha (take (2 ^ d) leaves)) (mth sha (drop (2 ^ d) leaves))"
    and "audit sha m leaves = (if m < 2 ^ d then audit sha m (take (2 ^ d) leaves) @ [mth sha (drop (2 ^ d) leaves)]
       else audit sha (m - 2 ^ d) (drop (2 ^ d) leaves) @ [mth sha (take (2 ^ d) leaves)])"
    using assms split_size_pow [of d] by (simp_all add: mth.simps [of sha leaves] audit.simps [of sha m leaves] Let_def)
qed

lemma length_audit: "length leaves = 2 ^ d \<Longrightarrow> length (audit sha m leaves) = d"
proof (induction d arbitrary: leaves m)
  case 0
  then show ?case by (simp add: audit.simps)
next
  case (Suc d)
  then show ?case by (simp add: mth_pow(2) [OF Suc.prems] Suc.IH)
qed

lemma climb_audit:
  assumes "length leaves = 2 ^ d" and "m < 2 ^ d"
  shows "climb sha (int m) 0 (audit sha m leaves) (leaf_hash sha (leaves ! m)) = mth sha leaves"
  using assms
proof (induction d arbitrary: leaves m)
  case 0
  then show ?case by (cases leaves) (simp_all add: audit.simps mth.simps)
next
  case (Suc d)
  let ?l = "take (2 ^ d) leaves" and ?r = "drop (2 ^ d) leaves"
  have len: "length ?l = 2 ^ d" "length ?r = 2 ^ d" using Suc.prems(1) by simp_all
  show ?case
  proof (cases "m < 2 ^ d")
    case True
    then have "is_left (int m) d" by (simp add: is_left_def)
    then show ?thesis using Suc.IH [OF len(1) True] True Suc.prems(1)
      by (simp add: mth_pow [OF Suc.prems(1)] climb_append length_audit [OF len(1)])
  next
    case False
    define k where "k = m - 2 ^ d"
    have k: "k < 2 ^ d" "int m = int k + 2 ^ d" using False Suc.prems(2) by (simp_all add: k_def of_nat_diff)
    have "climb sha (int m) 0 (audit sha k ?r) h = climb sha (int k) 0 (audit sha k ?r) h" for h
      by (rule climb_cong) (simp add: k(2) is_left_add length_audit [OF len(2)])
    moreover have "\<not> is_left (int m) d" using k by (simp add: is_left_def)
    moreover have "leaves ! m = ?r ! k" using False Suc.prems by (simp add: k_def)
    ultimately show ?thesis using Suc.IH [OF len(2) k(1)] False
      by (simp add: mth_pow [OF Suc.prems(1)] climb_append length_audit [OF len(2)] flip: k_def)
  qed
qed

section \<open>What an accepted proof says\<close>

text \<open>Everything that is hashed in a tree and while a path is folded.\<close>

function tree_inputs :: "(bytes \<Rightarrow> bytes) \<Rightarrow> bytes list \<Rightarrow> bytes list" where
  "tree_inputs sha leaves =
     (if length leaves < 2 then [0 # (case leaves of [] \<Rightarrow> [] | x # _ \<Rightarrow> x)]
      else let k = split_size (length leaves) in
           (1 # mth sha (take k leaves) @ mth sha (drop k leaves)) # tree_inputs sha (take k leaves) @ tree_inputs sha (drop k leaves))"
  by pat_completeness auto
termination
  by (relation "measure (\<lambda>(sha, leaves). length leaves)") (use split_size_bounds in \<open>force simp: not_less min_def\<close>)+

declare tree_inputs.simps [simp del]

fun climb_inputs :: "(bytes \<Rightarrow> bytes) \<Rightarrow> int \<Rightarrow> nat \<Rightarrow> bytes list \<Rightarrow> bytes \<Rightarrow> bytes list" where
  "climb_inputs sha index i [] h = []"
| "climb_inputs sha index i (s # ss) h =
     (let x = (if is_left index i then 1 # h @ s else 1 # s @ h) in x # climb_inputs sha index (Suc i) ss (sha x))"

lemma climb_inputs_append:
  "climb_inputs sha index i (p @ q) h = climb_inputs sha index i p h @ climb_inputs sha index (i + length p) q (climb sha index i p h)"
  by (induction p arbitrary: i h) (simp_all add: Let_def node_hash_def)

lemma tree_inputs_pow:
  assumes "length leaves = 2 ^ Suc d"
  shows "tree_inputs sha leaves = (1 # mth sha (take (2 ^ d) leaves) @ mth sha (drop (2 ^ d) leaves))
    # tree_inputs sha (take (2 ^ d) leaves) @ tree_inputs sha (drop (2 ^ d) leaves)"
proof -
  have "\<not> length leaves < 2" using assms one_le_power [of "2::nat" d] by simp
  then show ?thesis using assms split_size_pow [of d] by (simp add: tree_inputs.simps [of sha leaves] Let_def)
qed

lemma length_mth: "(\<And>x. length (sha x) = n) \<Longrightarrow> length (mth sha leaves) = n"
  by (simp add: mth.simps [of sha leaves] leaf_hash_def node_hash_def)

lemma length_climb: "(\<And>x. length (sha x) = n) \<Longrightarrow> length h = n \<Longrightarrow> length (climb sha index i p h) = n"
  by (induction p arbitrary: i h) (simp_all add: node_hash_def)

lemma mod_next_bit: "index mod 2 ^ Suc d = index mod 2 ^ d + (if is_left index d then 0 else 2 ^ d)" for index :: int
proof -
  have "index mod (2 ^ d * 2) = 2 ^ d * (index div 2 ^ d mod 2) + index mod 2 ^ d" by (rule zmod_zmult2_eq) simp
  moreover have "index div 2 ^ d mod 2 = (if is_left index d then 0 else 1)" by (auto simp: is_left_def)
  ultimately show ?thesis by (simp add: mult.commute)
qed

lemma climb_sound:
  assumes len: "\<And>x. length (sha x) = n" and "length leaves = 2 ^ d"
    and "inj_on sha (set (tree_inputs sha leaves) \<union> insert (0 # leaf) (set (climb_inputs sha index 0 path (leaf_hash sha leaf))))"
    and "climb sha index 0 path (leaf_hash sha leaf) = mth sha leaves"
  shows "length path = d \<and> leaf = leaves ! nat (index mod 2 ^ d)"
  using assms(2-4)
proof (induction d arbitrary: leaves path)
  case 0
  then obtain x where leaves: "leaves = [x]" by (cases leaves) auto
  then have mth: "mth sha leaves = sha (0 # x)" "tree_inputs sha leaves = [0 # x]" by (simp_all add: mth.simps leaf_hash_def tree_inputs.simps)
  show ?case
  proof (cases path rule: rev_cases)
    case Nil
    then show ?thesis using 0(2,3) mth leaves by (auto simp: leaf_hash_def dest: inj_onD)
  next
    case (snoc p s)
    let ?h = "climb sha index 0 p (leaf_hash sha leaf)"
    let ?x = "if is_left index (length p) then 1 # ?h @ s else 1 # s @ ?h"
    have "sha ?x = sha (0 # x)" using 0(3) snoc mth(1) by (auto simp: climb_append node_hash_def)
    then have "?x = 0 # x"
      by (rule inj_onD [OF 0(2)]) (auto simp: snoc climb_inputs_append Let_def mth(2))
    then show ?thesis by (simp split: if_splits)
  qed
next
  case (Suc d)
  let ?l = "take (2 ^ d) leaves" and ?r = "drop (2 ^ d) leaves"
  have halves: "length ?l = 2 ^ d" "length ?r = 2 ^ d" using Suc.prems(1) by simp_all
  note tree = mth_pow(1) [OF Suc.prems(1), of sha] tree_inputs_pow [OF Suc.prems(1), of sha]
  show ?case
  proof (cases path rule: rev_cases)
    case Nil
    then have "sha (0 # leaf) = sha (1 # mth sha ?l @ mth sha ?r)" using Suc.prems(3) tree(1) by (simp add: leaf_hash_def node_hash_def)
    then have "0 # leaf = 1 # mth sha ?l @ mth sha ?r" by (rule inj_onD [OF Suc.prems(2)]) (simp_all add: tree(2))
    then show ?thesis by simp
  next
    case (snoc p s)
    let ?h = "climb sha index 0 p (leaf_hash sha leaf)"
    let ?x = "if is_left index (length p) then 1 # ?h @ s else 1 # s @ ?h"
    have "sha ?x = sha (1 # mth sha ?l @ mth sha ?r)"
      using Suc.prems(3) snoc tree(1) by (auto simp: climb_append node_hash_def)
    then have "?x = 1 # mth sha ?l @ mth sha ?r"
      by (rule inj_onD [OF Suc.prems(2)]) (auto simp: snoc tree(2) climb_inputs_append Let_def)
    moreover have "length ?h = n" by (rule length_climb [OF len]) (simp add: leaf_hash_def len)
    ultimately have h: "?h = (if is_left index (length p) then mth sha ?l else mth sha ?r)"
      using length_mth [of sha n ?l, OF len] length_mth [of sha n ?r, OF len] by (auto split: if_splits)
    define sub where "sub = (if is_left index (length p) then ?l else ?r)"
    have "inj_on sha (set (tree_inputs sha sub) \<union> insert (0 # leaf) (set (climb_inputs sha index 0 p (leaf_hash sha leaf))))"
      by (rule inj_on_subset [OF Suc.prems(2)]) (simp add: tree(2) snoc climb_inputs_append sub_def, blast)
    moreover have "length sub = 2 ^ d" using halves by (cases "is_left index (length p)") (simp_all add: sub_def)
    moreover have "?h = mth sha sub" using h by (cases "is_left index (length p)") (simp_all add: sub_def)
    ultimately have ih: "length p = d" "leaf = sub ! nat (index mod 2 ^ d)" using Suc.IH [of sub p] by blast+
    have "index mod 2 ^ d < 2 ^ d" "0 \<le> index mod 2 ^ d" by simp_all
    then have "nat (index mod 2 ^ d) < 2 ^ d" by (simp add: nat_less_iff)
    then show ?thesis using ih snoc Suc.prems(1) mod_next_bit [of index d]
      by (auto simp: sub_def nat_add_distrib nat_power_eq add.commute)
  qed
qed

section \<open>Properties\<close>

text \<open>The proof and the head that an honest log gives for a leaf.\<close>

definition honest_proof :: "(bytes \<Rightarrow> bytes) \<Rightarrow> nat \<Rightarrow> bytes list \<Rightarrow> inclusion_proof" where
  "honest_proof sha m leaves =
     \<lparr>ip_seq = PInt (int m), ip_leaf_index = PInt (int m), ip_tree_size = PInt (int (length leaves)), ip_leaf_hash = PStr [],
      ip_audit_path = encode_path (audit sha m leaves)\<rparr>"

definition honest_head :: "(bytes \<Rightarrow> bytes) \<Rightarrow> bytes list \<Rightarrow> signed_tree_head" where
  "honest_head sha leaves =
     \<lparr>th_log_id = PStr ''log'', th_tree_size = PInt (int (length leaves)), th_timestamp = PStr [], th_root_hash = PStr (b64u_encode (mth sha leaves)),
      th_signature = PStr []\<rparr>"

lemma verify_inclusion_climb:
  assumes "canonical_for_leaf L e = Inr leaf" and "th_root_hash sth = PStr (b64u_encode r)"
  shows "verify_inclusion L (p\<lparr>ip_leaf_index := PInt i, ip_audit_path := encode_path hs\<rparr>) sth e \<longleftrightarrow>
    climb (ll_sha256 L) i 0 hs (leaf_hash (ll_sha256 L) leaf) = r"
  using assms fold_path_encoded [of "ll_sha256 L" i 0 hs] fold_path_encoded [of "ll_sha256 L" 0 0 hs]
  by (cases hs) (auto simp: verify_inclusion_def as_str_def b64u_roundtrip encode_path_def)

lemma honest_root: "th_root_hash (honest_head sha leaves) = PStr (b64u_encode (mth sha leaves))"
  by (simp add: honest_head_def)

lemma verify_honest:
  assumes "canonical_for_leaf L e = Inr leaf"
  shows "verify_inclusion L (honest_proof (ll_sha256 L) m leaves) (honest_head (ll_sha256 L) leaves) e \<longleftrightarrow>
    climb (ll_sha256 L) (int m) 0 (audit (ll_sha256 L) m leaves) (leaf_hash (ll_sha256 L) leaf) = mth (ll_sha256 L) leaves"
proof -
  have "honest_proof (ll_sha256 L) m leaves =
      (honest_proof (ll_sha256 L) m leaves)\<lparr>ip_leaf_index := PInt (int m), ip_audit_path := encode_path (audit (ll_sha256 L) m leaves)\<rparr>"
    by (simp add: honest_proof_def)
  then show ?thesis using verify_inclusion_climb [OF assms honest_root] by metis
qed

text \<open>
  In a log whose size is a power of two, the proof that RFC 9162 prescribes for a leaf is accepted for the entry with that leaf.
\<close>

theorem inclusion_complete:
  assumes "canonical_for_leaf L e = Inr (leaves ! m)" and "length leaves = 2 ^ d" and "m < 2 ^ d"
  shows "verify_inclusion L (honest_proof (ll_sha256 L) m leaves) (honest_head (ll_sha256 L) leaves) e"
  using climb_audit [OF assms(2,3)] by (simp add: verify_honest [OF assms(1)])

text \<open>A hash for the examples: the first three bytes.\<close>

definition sample_lib :: log_lib where
  "sample_lib = \<lparr>ll_dumps = (\<lambda>v. case v of PDict d \<Rightarrow> (case map_of d ''seq'' of Some (PInt i) \<Rightarrow> Inr [word_of_int i] | _ \<Rightarrow> Inl TypeError)
     | _ \<Rightarrow> Inl TypeError), ll_sha256 = (\<lambda>x. take 3 (x @ [0, 0, 0]))\<rparr>"

definition sample_log_entry :: "int \<Rightarrow> log_entry" where
  "sample_log_entry i =
     \<lparr>le_v = PInt 1, le_log_id = PStr ''log'', le_seq = PInt i, le_timestamp = PStr [], le_subject_nid = PStr ''s'', le_incident = TOS_VIOLATION,
      le_severity = MAJOR, le_issuer_nid = PStr ''i'', le_window = None, le_observation = PNone, le_evidence_ref = PNone,
      le_evidence_sha256 = PNone, le_signature = PNone, le_incident_raw = PNone\<rparr>"

lemma sample_leaf: "canonical_for_leaf sample_lib (sample_log_entry 8) = Inr [8]"
  by code_simp

theorem inclusion_complete_witness:
  "verify_inclusion sample_lib (honest_proof (ll_sha256 sample_lib) 1 [[7], [8]]) (honest_head (ll_sha256 sample_lib) [[7], [8]]) (sample_log_entry 8)"
  by (rule inclusion_complete [where d = 1]) (simp_all add: sample_leaf)

text \<open>
  C24: an accepted proof is about the leaf it names: in a log whose size is a power of two, and unless the hash collides on what the
  tree and the proof hash, the entry's canonical text is the leaf at the index, taken modulo the size, and the path has the
  height of the tree.
\<close>

theorem inclusion_sound:
  assumes "verify_inclusion L (p\<lparr>ip_leaf_index := PInt index, ip_audit_path := encode_path path\<rparr>) (honest_head (ll_sha256 L) leaves) e"
    and "canonical_for_leaf L e = Inr leaf" and "\<And>x. length (ll_sha256 L x) = n" and "length leaves = 2 ^ d"
    and "inj_on (ll_sha256 L) (set (tree_inputs (ll_sha256 L) leaves) \<union>
      insert (0 # leaf) (set (climb_inputs (ll_sha256 L) index 0 path (leaf_hash (ll_sha256 L) leaf))))"
  shows "length path = d \<and> leaf = leaves ! nat (index mod 2 ^ d)"
proof (rule climb_sound [OF assms(3,4,5)])
  show "climb (ll_sha256 L) index 0 path (leaf_hash (ll_sha256 L) leaf) = mth (ll_sha256 L) leaves"
    using assms(1) by (simp add: verify_inclusion_climb [OF assms(2) honest_root])
qed

theorem inclusion_sound_witness:
  "length [[0::byte, 7, 0]] = 1 \<and> [8::byte] = [[7], [8]] ! nat (1 mod 2 ^ 1)"
proof (rule inclusion_sound [where L = sample_lib and e = "sample_log_entry 8" and p = "honest_proof (ll_sha256 sample_lib) 1 [[7], [8]]" and n = 3])
  show "verify_inclusion sample_lib ((honest_proof (ll_sha256 sample_lib) 1 [[7], [8]])\<lparr>ip_leaf_index := PInt 1, ip_audit_path := encode_path [[0, 7, 0]]\<rparr>)
      (honest_head (ll_sha256 sample_lib) [[7], [8]]) (sample_log_entry 8)" by code_simp
  show "canonical_for_leaf sample_lib (sample_log_entry 8) = Inr [8]" by (rule sample_leaf)
  have "tree_inputs (ll_sha256 sample_lib) [[7], [8]] = [[1, 0, 7, 0, 0, 8, 0], [0, 7], [0, 8]]" by code_simp
  moreover have "climb_inputs (ll_sha256 sample_lib) 1 0 [[0, 7, 0]] (leaf_hash (ll_sha256 sample_lib) [8]) = [[1, 0, 7, 0, 0, 8, 0]]" by code_simp
  ultimately show "inj_on (ll_sha256 sample_lib) (set (tree_inputs (ll_sha256 sample_lib) [[7], [8]]) \<union>
      insert (0 # [8]) (set (climb_inputs (ll_sha256 sample_lib) 1 0 [[0, 7, 0]] (leaf_hash (ll_sha256 sample_lib) [8]))))"
    by (auto simp: sample_lib_def inj_on_def)
qed (simp_all add: sample_lib_def)

lemma audit_last_of_three: "audit sha 2 [a, b, c] = [node_hash sha (leaf_hash sha a) (leaf_hash sha b)]"
  by (simp add: audit.simps mth.simps split_size.simps Let_def)

lemma mth_of_three: "mth sha [a, b, c] = node_hash sha (node_hash sha (leaf_hash sha a) (leaf_hash sha b)) (leaf_hash sha c)"
  by (simp add: mth.simps split_size.simps)

text \<open>
  C38: in a log of three entries the RFC 9162 proof of the last one is refused, unless the hash collides: the path skips a level
  that the fold does not skip, so the last leaf is hashed on the wrong side.
\<close>

theorem unbalanced_proof_refused:
  assumes "canonical_for_leaf L e = Inr c" and "\<And>x. length (ll_sha256 L x) = n"
    and "inj_on (ll_sha256 L) (set (tree_inputs (ll_sha256 L) [a, b, c]) \<union>
      set (climb_inputs (ll_sha256 L) 2 0 (audit (ll_sha256 L) 2 [a, b, c]) (leaf_hash (ll_sha256 L) c)))"
  shows "\<not> verify_inclusion L (honest_proof (ll_sha256 L) 2 [a, b, c]) (honest_head (ll_sha256 L) [a, b, c]) e"
proof
  let ?sha = "ll_sha256 L"
  let ?ab = "node_hash ?sha (leaf_hash ?sha a) (leaf_hash ?sha b)" and ?c = "leaf_hash ?sha c"
  assume "verify_inclusion L (honest_proof ?sha 2 [a, b, c]) (honest_head ?sha [a, b, c]) e"
  then have "climb ?sha 2 0 (audit ?sha 2 [a, b, c]) ?c = mth ?sha [a, b, c]"
    by (simp add: verify_honest [OF assms(1)])
  then have same: "?sha (1 # ?c @ ?ab) = ?sha (1 # ?ab @ ?c)"
    by (simp add: audit_last_of_three mth_of_three is_left_def node_hash_def)
  have folded: "climb_inputs ?sha 2 0 (audit ?sha 2 [a, b, c]) ?c = [1 # ?c @ ?ab]" by (simp add: audit_last_of_three is_left_def)
  have tree: "{1 # ?ab @ ?c, 0 # c, 1 # leaf_hash ?sha a @ leaf_hash ?sha b} \<subseteq> set (tree_inputs ?sha [a, b, c])"
    by (simp add: tree_inputs.simps mth.simps split_size.simps Let_def)
  have "1 # ?c @ ?ab = 1 # ?ab @ ?c"
  proof (rule inj_onD [OF assms(3) same])
    show "1 # ?c @ ?ab \<in> set (tree_inputs ?sha [a, b, c]) \<union> set (climb_inputs ?sha 2 0 (audit ?sha 2 [a, b, c]) ?c)" unfolding folded by simp
    show "1 # ?ab @ ?c \<in> set (tree_inputs ?sha [a, b, c]) \<union> set (climb_inputs ?sha 2 0 (audit ?sha 2 [a, b, c]) ?c)" using tree by blast
  qed
  moreover have "length ?c = n" "length ?ab = n" using assms(2) by (simp_all add: leaf_hash_def node_hash_def)
  ultimately have "?c = ?ab" by (metis append_eq_append_conv list.inject)
  then have "?sha (0 # c) = ?sha (1 # leaf_hash ?sha a @ leaf_hash ?sha b)"
    by (simp only: leaf_hash_def [of ?sha c] node_hash_def [of ?sha "leaf_hash ?sha a"])
  then have "0 # c = 1 # leaf_hash ?sha a @ leaf_hash ?sha b" by (rule inj_onD [OF assms(3)]) (use tree in blast)+
  then show False by simp
qed

theorem unbalanced_proof_refused_witness:
  "\<not> verify_inclusion sample_lib (honest_proof (ll_sha256 sample_lib) 2 [[6], [7], [8]]) (honest_head (ll_sha256 sample_lib) [[6], [7], [8]])
     (sample_log_entry 8)"
proof (rule unbalanced_proof_refused [OF sample_leaf])
  have "tree_inputs (ll_sha256 sample_lib) [[6], [7], [8]] = [[1, 1, 0, 6, 0, 8, 0], [1, 0, 6, 0, 0, 7, 0], [0, 6], [0, 7], [0, 8]]" by code_simp
  moreover have "climb_inputs (ll_sha256 sample_lib) 2 0 (audit (ll_sha256 sample_lib) 2 [[6], [7], [8]]) (leaf_hash (ll_sha256 sample_lib) [8]) =
      [[1, 0, 8, 0, 1, 0, 6]]" by code_simp
  ultimately show "inj_on (ll_sha256 sample_lib) (set (tree_inputs (ll_sha256 sample_lib) [[6], [7], [8]]) \<union>
      set (climb_inputs (ll_sha256 sample_lib) 2 0 (audit (ll_sha256 sample_lib) 2 [[6], [7], [8]]) (leaf_hash (ll_sha256 sample_lib) [8])))"
    by (auto simp: sample_lib_def inj_on_def)
  show "length (ll_sha256 sample_lib x) = 3" for x by (simp add: sample_lib_def)
qed

end
