(* ===== verification/NwpLlm.thy ===== *)
theory NwpLlm
  imports NwpAction
begin

text \<open>
  The payloads of the language-model actions, \<open>nps_sdk/nwp/llm.py\<close>: requests, responses and stream chunks with their wire
  forms. Tool calls, tool definitions, messages and receipts are the records of \<open>NwpContext\<close>.

  The classes do not check the types of their fields. Fields that are only passed on are dynamic values; a field
  that the context store works with has its declared type, and a value of another type is read as \<open>IllTyped\<close>.
\<close>

section \<open>Names\<close>

definition LLM_COMPLETE :: string where "LLM_COMPLETE = ''llm.complete''"
definition LLM_CONTEXT_STATUS :: string where "LLM_CONTEXT_STATUS = ''llm.context.status''"
definition LLM_CONTEXT_RELEASE :: string where "LLM_CONTEXT_RELEASE = ''llm.context.release''"
definition LLM_COMPLETE_RESPONSE_ANCHOR :: string where "LLM_COMPLETE_RESPONSE_ANCHOR = ''nps:system:llm.complete:response''"
definition LLM_COMPLETE_STREAM_ANCHOR :: string where "LLM_COMPLETE_STREAM_ANCHOR = ''nps:system:llm.complete:stream''"
definition LLM_CONTEXT_STATUS_RESPONSE_ANCHOR :: string where
  "LLM_CONTEXT_STATUS_RESPONSE_ANCHOR = ''nps:system:llm.context.status:response''"
definition LLM_CONTEXT_RELEASE_RESPONSE_ANCHOR :: string where
  "LLM_CONTEXT_RELEASE_RESPONSE_ANCHOR = ''nps:system:llm.context.release:response''"
definition CAPABILITY_LLM_COMPLETE :: string where "CAPABILITY_LLM_COMPLETE = ''llm:complete''"
definition CAPABILITY_LLM_CONTEXT :: string where "CAPABILITY_LLM_CONTEXT = ''llm:context''"
definition CAPABILITY_LLM_STREAM :: string where "CAPABILITY_LLM_STREAM = ''llm:stream''"
definition CAPABILITY_LLM_TOOL_CALL :: string where "CAPABILITY_LLM_TOOL_CALL = ''llm:tool_call''"

datatype stop_reason = END_TURN | TOOL_USE | TOOL_CALLS | MAX_TOKENS | LENGTH_LIMIT | STOP_ERROR

definition stop_reasons :: "stop_reason list" where
  "stop_reasons = [END_TURN, TOOL_USE, TOOL_CALLS, MAX_TOKENS, LENGTH_LIMIT, STOP_ERROR]"

fun stop_wire :: "stop_reason \<Rightarrow> string" where
  "stop_wire END_TURN = ''end_turn''"
| "stop_wire TOOL_USE = ''tool_use''"
| "stop_wire TOOL_CALLS = ''tool_calls''"
| "stop_wire MAX_TOKENS = ''max_tokens''"
| "stop_wire LENGTH_LIMIT = ''length''"
| "stop_wire STOP_ERROR = ''error''"

definition context_operations :: "context_operation list" where
  "context_operations = [CREATE, APPEND, FORK, RESET, RELEASE]"

fun operation_wire :: "context_operation \<Rightarrow> string" where
  "operation_wire CREATE = ''create''"
| "operation_wire APPEND = ''append''"
| "operation_wire FORK = ''fork''"
| "operation_wire RESET = ''reset''"
| "operation_wire RELEASE = ''release''"

definition context_states :: "context_state list" where
  "context_states = [BUSY, ACTIVE, RELEASED, EXPIRED, CTX_FAILED]"

fun state_wire :: "context_state \<Rightarrow> string" where
  "state_wire BUSY = ''busy''"
| "state_wire ACTIVE = ''active''"
| "state_wire RELEASED = ''released''"
| "state_wire EXPIRED = ''expired''"
| "state_wire CTX_FAILED = ''failed''"

text \<open>An enumeration called with a value gives the member of that value or raises \<open>ValueError\<close>.\<close>

definition enum_of :: "('a \<Rightarrow> string) \<Rightarrow> 'a list \<Rightarrow> pyval \<Rightarrow> 'a res" where
  "enum_of wire members v = of_option ValueError (find (\<lambda>m. PStr (wire m) = v) members)"

section \<open>Reading\<close>

definition text_of :: "pyval \<Rightarrow> string res" where
  "text_of v = (case v of PStr s \<Rightarrow> Inr s | _ \<Rightarrow> Inl IllTyped)"

definition int_of :: "pyval \<Rightarrow> int res" where
  "int_of v = (case v of PInt i \<Rightarrow> Inr i | _ \<Rightarrow> Inl IllTyped)"

definition bool_of :: "pyval \<Rightarrow> bool res" where
  "bool_of v = (case v of PBool b \<Rightarrow> Inr b | _ \<Rightarrow> Inl IllTyped)"

text \<open>\<open>None if v is None else read(v)\<close>\<close>

definition opt_of :: "(pyval \<Rightarrow> 'a res) \<Rightarrow> pyval \<Rightarrow> 'a option res" where
  "opt_of read v = (if v = PNone then Inr None else res_bind (read v) (\<lambda>x. Inr (Some x)))"

definition opt_text :: "pyval \<Rightarrow> string option res" where "opt_text = opt_of text_of"
definition opt_integer :: "pyval \<Rightarrow> int option res" where "opt_integer = opt_of int_of"

text \<open>\<open>Cls(**item)\<close>: a mapping with the required keys and no unknown ones.\<close>

definition kwargs :: "string list \<Rightarrow> string list \<Rightarrow> pyval \<Rightarrow> pyval dict res" where
  "kwargs required optional item =
     (case item of
        PDict d \<Rightarrow>
          if list_all (\<lambda>k. map_of d k \<noteq> None) required \<and> list_all (\<lambda>(k, v). k \<in> set (required @ optional)) d
          then Inr d else Inl TypeError
      | _ \<Rightarrow> Inl TypeError)"

definition kwarg :: "pyval dict \<Rightarrow> string \<Rightarrow> pyval \<Rightarrow> pyval" where
  "kwarg d k dflt = (case map_of d k of None \<Rightarrow> dflt | Some v \<Rightarrow> v)"

definition tool_call_of :: "pyval \<Rightarrow> tool_call res" where
  "tool_call_of item =
     res_bind (kwargs [''call_id'', ''tool_name'', ''arguments_json''] [] item) (\<lambda>d.
     res_bind (text_of (kwarg d ''call_id'' PNone)) (\<lambda>c.
     res_bind (text_of (kwarg d ''tool_name'' PNone)) (\<lambda>t.
     res_bind (text_of (kwarg d ''arguments_json'' PNone)) (\<lambda>a.
       Inr \<lparr>tc_call_id = c, tc_tool_name = t, tc_arguments_json = a\<rparr>))))"

definition tool_calls_of :: "pyval \<Rightarrow> tool_call list option res" where
  "tool_calls_of = opt_of (\<lambda>v. res_bind (py_iter v) (res_map tool_call_of))"

definition tool_parameter_of :: "pyval \<Rightarrow> tool_parameter res" where
  "tool_parameter_of item =
     res_bind (kwargs [''name'', ''type''] [''description'', ''required''] item) (\<lambda>d.
     res_bind (text_of (kwarg d ''name'' PNone)) (\<lambda>n.
     res_bind (text_of (kwarg d ''type'' PNone)) (\<lambda>t.
     res_bind (opt_text (kwarg d ''description'' PNone)) (\<lambda>desc.
     res_bind (bool_of (kwarg d ''required'' (PBool False))) (\<lambda>r.
       Inr \<lparr>tp_name = n, tp_type = t, tp_description = desc, tp_required = r\<rparr>)))))"

definition tool_definition_of :: "pyval \<Rightarrow> tool_definition res" where
  "tool_definition_of item =
     res_bind (res_bind (py_item item ''name'') text_of) (\<lambda>n.
     res_bind (res_bind (py_get item ''description'') opt_text) (\<lambda>desc.
     res_bind (res_bind (py_get item ''parameters'') (opt_of (\<lambda>v. res_bind (py_iter v) (res_map tool_parameter_of)))) (\<lambda>ps.
       Inr \<lparr>td_name = n, td_description = desc, td_parameters = ps\<rparr>)))"

definition message_of :: "pyval \<Rightarrow> llm_message res" where
  "message_of item =
     res_bind (res_bind (py_item item ''role'') text_of) (\<lambda>role.
     res_bind (res_bind (py_get item ''content'') opt_text) (\<lambda>content.
     res_bind (res_bind (py_get item ''tool_call_id'') opt_text) (\<lambda>cid.
     res_bind (res_bind (py_get item ''tool_name'') opt_text) (\<lambda>name.
     res_bind (res_bind (py_get item ''tool_calls'') tool_calls_of) (\<lambda>calls.
       Inr \<lparr>lm_role = role, lm_content = content, lm_tool_call_id = cid, lm_tool_name = name, lm_tool_calls = calls\<rparr>)))))"

record context_request =
  xr_operation :: context_operation
  xr_context_id :: "string option"
  xr_base_version :: "int option"
  xr_ttl_seconds :: "int option"

definition context_request_of :: "pyval \<Rightarrow> context_request res" where
  "context_request_of v =
     res_bind (res_bind (py_item v ''operation'') (enum_of operation_wire context_operations)) (\<lambda>op.
     res_bind (res_bind (py_get v ''context_id'') opt_text) (\<lambda>cid.
     res_bind (res_bind (py_get v ''base_version'') opt_integer) (\<lambda>base.
     res_bind (res_bind (py_get v ''ttl_seconds'') opt_integer) (\<lambda>ttl.
       Inr \<lparr>xr_operation = op, xr_context_id = cid, xr_base_version = base, xr_ttl_seconds = ttl\<rparr>))))"

definition receipt_of :: "pyval \<Rightarrow> context_receipt res" where
  "receipt_of v =
     res_bind (res_bind (py_item v ''context_id'') text_of) (\<lambda>cid.
     res_bind (res_bind (py_item v ''version'') int_of) (\<lambda>version.
     res_bind (res_bind (py_item v ''operation'') (enum_of operation_wire context_operations)) (\<lambda>op.
     res_bind (res_bind (py_item v ''state'') (enum_of state_wire context_states)) (\<lambda>st.
     res_bind (res_bind (py_get v ''expires_at'') opt_text) (\<lambda>expires.
     res_bind (res_bind (py_get v ''parent_context_id'') opt_text) (\<lambda>pid.
     res_bind (res_bind (py_get v ''parent_version'') opt_integer) (\<lambda>pv.
       Inr \<lparr>cr_context_id = cid, cr_version = version, cr_operation = op, cr_state = st, cr_expires_at = expires,
            cr_parent_context_id = pid, cr_parent_version = pv\<rparr>)))))))"

record llm_usage =
  us_input_tokens :: pyval
  us_output_tokens :: pyval
  us_cache_hit :: pyval
  us_reused_tokens :: pyval
  us_evaluated_tokens :: pyval
  us_wire_input_bytes :: pyval

definition usage_of :: "pyval \<Rightarrow> llm_usage res" where
  "usage_of v =
     res_bind (kwargs [] [''input_tokens'', ''output_tokens'', ''cache_hit'', ''reused_tokens'', ''evaluated_tokens'', ''wire_input_bytes''] v)
       (\<lambda>d. Inr \<lparr>us_input_tokens = kwarg d ''input_tokens'' PNone, us_output_tokens = kwarg d ''output_tokens'' PNone,
                  us_cache_hit = kwarg d ''cache_hit'' PNone, us_reused_tokens = kwarg d ''reused_tokens'' PNone,
                  us_evaluated_tokens = kwarg d ''evaluated_tokens'' PNone, us_wire_input_bytes = kwarg d ''wire_input_bytes'' PNone\<rparr>)"

section \<open>Requests, responses and chunks\<close>

record complete_request =
  lq_model :: pyval
  lq_messages :: "llm_message list"
  lq_kind :: pyval
  lq_max_tokens :: pyval
  lq_stream :: bool
  lq_tools :: "tool_definition list option"
  lq_context :: "context_request option"

definition request_of :: "pyval \<Rightarrow> complete_request res" where
  "request_of data =
     res_bind (res_bind (res_bind (py_item data ''messages'') py_iter) (res_map message_of)) (\<lambda>messages.
     res_bind (py_get data ''tools'') (\<lambda>raw_tools.
     res_bind (py_get data ''context'') (\<lambda>raw_context.
     res_bind (py_get_or data ''kind'' (PStr LLM_COMPLETE)) (\<lambda>kind.
     res_bind (py_item data ''model'') (\<lambda>model.
     res_bind (py_get data ''max_tokens'') (\<lambda>max_tokens.
     res_bind (py_get_or data ''stream'' (PBool False)) (\<lambda>stream.
     res_bind (opt_of (\<lambda>v. res_bind (py_iter v) (res_map tool_definition_of)) raw_tools) (\<lambda>tools.
     res_bind (opt_of context_request_of raw_context) (\<lambda>context.
       Inr \<lparr>lq_model = model, lq_messages = messages, lq_kind = kind, lq_max_tokens = max_tokens, lq_stream = py_bool stream,
            lq_tools = tools, lq_context = context\<rparr>)))))))))"

definition from_action_frame :: "action_frame \<Rightarrow> complete_request res" where
  "from_action_frame frame =
     (if af_action_id frame \<noteq> LLM_COMPLETE then Inl ValueError
      else res_bind (request_of (af_params frame)) (\<lambda>request.
        if lq_kind request \<noteq> PStr LLM_COMPLETE then Inl ValueError else Inr request))"

record complete_response =
  lr_stop_reason :: stop_reason
  lr_content :: "string option"
  lr_tool_calls :: "tool_call list option"
  lr_error :: pyval
  lr_usage :: "llm_usage option"
  lr_context :: "context_receipt option"

definition response_of :: "pyval \<Rightarrow> complete_response res" where
  "response_of data =
     res_bind (py_get data ''usage'') (\<lambda>raw_usage.
     res_bind (py_get data ''context'') (\<lambda>raw_context.
     res_bind (res_bind (py_item data ''stop_reason'') (enum_of stop_wire stop_reasons)) (\<lambda>stop.
     res_bind (res_bind (py_get data ''content'') opt_text) (\<lambda>content.
     res_bind (res_bind (py_get data ''tool_calls'') tool_calls_of) (\<lambda>calls.
     res_bind (py_get data ''error'') (\<lambda>err.
     res_bind (opt_of usage_of raw_usage) (\<lambda>usage.
     res_bind (opt_of receipt_of raw_context) (\<lambda>context.
       Inr \<lparr>lr_stop_reason = stop, lr_content = content, lr_tool_calls = calls, lr_error = err, lr_usage = usage, lr_context = context\<rparr>))))))))"

record complete_chunk =
  ck_content_delta :: "string option"
  ck_tool_calls :: "tool_call list option"
  ck_stop_reason :: "stop_reason option"
  ck_error :: pyval
  ck_usage :: "llm_usage option"
  ck_context :: "context_receipt option"

definition chunk_of :: "pyval \<Rightarrow> complete_chunk res" where
  "chunk_of data =
     res_bind (py_get data ''usage'') (\<lambda>raw_usage.
     res_bind (py_get data ''context'') (\<lambda>raw_context.
     res_bind (res_bind (py_get data ''content_delta'') opt_text) (\<lambda>delta.
     res_bind (res_bind (py_get data ''tool_calls'') tool_calls_of) (\<lambda>calls.
     res_bind (res_bind (py_get data ''stop_reason'') (opt_of (enum_of stop_wire stop_reasons))) (\<lambda>stop.
     res_bind (py_get data ''error'') (\<lambda>err.
     res_bind (opt_of usage_of raw_usage) (\<lambda>usage.
     res_bind (opt_of receipt_of raw_context) (\<lambda>context.
       Inr \<lparr>ck_content_delta = delta, ck_tool_calls = calls, ck_stop_reason = stop, ck_error = err, ck_usage = usage, ck_context = context\<rparr>))))))))"

section \<open>Writing\<close>

text \<open>\<open>_wire\<close>, at each class.\<close>

definition wire_context_request :: "context_request \<Rightarrow> pyval" where
  "wire_context_request x =
     PDict ([(''operation'', PStr (operation_wire (xr_operation x)))] @ opt_wire ''context_id'' PStr (xr_context_id x)
       @ opt_wire ''base_version'' PInt (xr_base_version x) @ opt_wire ''ttl_seconds'' PInt (xr_ttl_seconds x))"

definition wire_receipt :: "context_receipt \<Rightarrow> pyval" where
  "wire_receipt r =
     PDict ([(''context_id'', PStr (cr_context_id r)), (''version'', PInt (cr_version r)),
             (''operation'', PStr (operation_wire (cr_operation r))), (''state'', PStr (state_wire (cr_state r)))]
       @ opt_wire ''expires_at'' PStr (cr_expires_at r) @ opt_wire ''parent_context_id'' PStr (cr_parent_context_id r)
       @ opt_wire ''parent_version'' PInt (cr_parent_version r))"

definition wire_status :: "context_status \<Rightarrow> pyval" where
  "wire_status st =
     PDict ([(''state'', PStr (state_wire (cst_state st)))] @ opt_wire ''context_id'' PStr (cst_context_id st)
       @ opt_wire ''version'' PInt (cst_version st) @ opt_wire ''expires_at'' PStr (cst_expires_at st)
       @ opt_wire ''request_id'' PStr (cst_request_id st) @ opt_wire ''error_code'' PStr (cst_error_code st))"

definition wire_usage :: "llm_usage \<Rightarrow> pyval" where
  "wire_usage u =
     PDict (not_none ''input_tokens'' (us_input_tokens u) @ not_none ''output_tokens'' (us_output_tokens u)
       @ not_none ''cache_hit'' (us_cache_hit u) @ not_none ''reused_tokens'' (us_reused_tokens u)
       @ not_none ''evaluated_tokens'' (us_evaluated_tokens u) @ not_none ''wire_input_bytes'' (us_wire_input_bytes u))"

definition wire_calls :: "tool_call list \<Rightarrow> pyval" where
  "wire_calls cs = PList (map wire_tool_call cs)"

definition wire_request :: "complete_request \<Rightarrow> pyval" where
  "wire_request q =
     PDict (not_none ''model'' (lq_model q) @ [(''messages'', PList (map wire_message (lq_messages q)))] @ not_none ''kind'' (lq_kind q)
       @ not_none ''max_tokens'' (lq_max_tokens q) @ [(''stream'', PBool (lq_stream q))]
       @ opt_wire ''tools'' (\<lambda>ts. PList (map wire_tool ts)) (lq_tools q) @ opt_wire ''context'' wire_context_request (lq_context q))"

definition wire_response :: "complete_response \<Rightarrow> pyval" where
  "wire_response r =
     PDict ([(''stop_reason'', PStr (stop_wire (lr_stop_reason r)))] @ opt_wire ''content'' PStr (lr_content r)
       @ opt_wire ''tool_calls'' wire_calls (lr_tool_calls r) @ not_none ''error'' (lr_error r)
       @ opt_wire ''usage'' wire_usage (lr_usage r) @ opt_wire ''context'' wire_receipt (lr_context r))"

definition wire_chunk :: "complete_chunk \<Rightarrow> pyval" where
  "wire_chunk c =
     PDict (opt_wire ''content_delta'' PStr (ck_content_delta c) @ opt_wire ''tool_calls'' wire_calls (ck_tool_calls c)
       @ opt_wire ''stop_reason'' (\<lambda>r. PStr (stop_wire r)) (ck_stop_reason c) @ not_none ''error'' (ck_error c)
       @ opt_wire ''usage'' wire_usage (ck_usage c) @ opt_wire ''context'' wire_receipt (ck_context c))"

definition to_action_frame :: "complete_request \<Rightarrow> pyval \<Rightarrow> int \<Rightarrow> bool \<Rightarrow> pyval \<Rightarrow> action_frame" where
  "to_action_frame q idempotency_key timeout_ms async request_id =
     \<lparr>af_action_id = LLM_COMPLETE, af_params = wire_request q, af_idempotency_key = idempotency_key, af_timeout_ms = timeout_ms,
      af_async = async, af_request_id = request_id\<rparr>"

definition context_status_frame :: "pyval \<Rightarrow> pyval \<Rightarrow> pyval \<Rightarrow> action_frame" where
  "context_status_frame context_id idempotency_key request_id =
     \<lparr>af_action_id = LLM_CONTEXT_STATUS, af_params = PDict (not_none ''context_id'' context_id @ not_none ''idempotency_key'' idempotency_key),
      af_idempotency_key = PNone, af_timeout_ms = 5000, af_async = False, af_request_id = request_id\<rparr>"

definition context_release_frame :: "string \<Rightarrow> int \<Rightarrow> string \<Rightarrow> pyval \<Rightarrow> action_frame" where
  "context_release_frame context_id base_version idempotency_key request_id =
     \<lparr>af_action_id = LLM_CONTEXT_RELEASE, af_params = PDict [(''context_id'', PStr context_id), (''base_version'', PInt base_version)],
      af_idempotency_key = PStr idempotency_key, af_timeout_ms = 5000, af_async = False, af_request_id = request_id\<rparr>"

section \<open>Round trips\<close>

lemma enum_wire [simp]:
  "enum_of operation_wire context_operations (PStr (operation_wire op)) = Inr op"
  "enum_of state_wire context_states (PStr (state_wire st)) = Inr st"
  "enum_of stop_wire stop_reasons (PStr (stop_wire r)) = Inr r"
  by (cases op; cases st; cases r; simp add: enum_of_def context_operations_def context_states_def stop_reasons_def)+

lemma read_wire [simp]:
  "text_of (PStr s) = Inr s" "int_of (PInt i) = Inr i" "bool_of (PBool b) = Inr b" "opt_of rd PNone = Inr None"
  "opt_text PNone = Inr None" "opt_integer PNone = Inr None" "opt_text (PStr s) = Inr (Some s)" "opt_integer (PInt i) = Inr (Some i)"
  "tool_calls_of PNone = Inr None"
  by (simp_all add: text_of_def int_of_def bool_of_def opt_of_def opt_text_def opt_integer_def tool_calls_of_def)

lemma tool_call_wire [simp]: "tool_call_of (wire_tool_call c) = Inr c"
  by (simp add: tool_call_of_def wire_tool_call_def kwargs_def kwarg_def)

lemma tool_calls_wire [simp]: "tool_calls_of (wire_calls cs) = Inr (Some cs)"
  by (simp add: tool_calls_of_def wire_calls_def opt_of_def py_iter_def res_map_comp)

lemma tool_parameter_wire [simp]: "tool_parameter_of (wire_tool_parameter p) = Inr p"
  by (cases "tp_description p") (simp_all add: tool_parameter_of_def wire_tool_parameter_def kwargs_def kwarg_def opt_wire_def)

lemma tool_wire [simp]: "tool_definition_of (wire_tool t) = Inr t"
  by (cases "td_description t"; cases "td_parameters t")
     (simp_all add: tool_definition_of_def wire_tool_def opt_wire_def py_item_def py_get_def py_get_or_def py_iter_def opt_of_def res_map_comp)

lemma message_wire [simp]: "message_of (wire_message m) = Inr m"
proof -
  have "tool_calls_of (PList (map wire_tool_call cs)) = Inr (Some cs)" for cs
    using tool_calls_wire by (simp add: wire_calls_def)
  then show ?thesis
    by (cases "lm_content m"; cases "lm_tool_call_id m"; cases "lm_tool_name m"; cases "lm_tool_calls m")
       (simp_all add: message_of_def wire_message_def opt_wire_def py_item_def py_get_def py_get_or_def)
qed

lemma context_request_wire [simp]: "context_request_of (wire_context_request x) = Inr x"
  by (cases "xr_context_id x"; cases "xr_base_version x"; cases "xr_ttl_seconds x")
     (simp_all add: context_request_of_def wire_context_request_def opt_wire_def py_item_def py_get_def py_get_or_def)

lemma receipt_wire [simp]: "receipt_of (wire_receipt r) = Inr r"
  by (cases "cr_expires_at r"; cases "cr_parent_context_id r"; cases "cr_parent_version r")
     (simp_all add: receipt_of_def wire_receipt_def opt_wire_def py_item_def py_get_def py_get_or_def)

lemma usage_wire [simp]: "usage_of (wire_usage u) = Inr u"
  by (simp add: usage_of_def wire_usage_def kwargs_def kwarg_def not_none_def)

lemma wired_not_none [simp]: "wire_context_request x \<noteq> PNone" "wire_receipt r \<noteq> PNone" "wire_usage u \<noteq> PNone"
  by (simp_all add: wire_context_request_def wire_receipt_def wire_usage_def)

lemma opt_of_some [simp]:
  "opt_of context_request_of (wire_context_request x) = Inr (Some x)" "opt_of receipt_of (wire_receipt r) = Inr (Some r)"
  "opt_of usage_of (wire_usage u) = Inr (Some u)" "opt_of (enum_of stop_wire stop_reasons) (PStr (stop_wire st)) = Inr (Some st)"
  by (simp_all add: opt_of_def)

lemma request_frame:
  assumes "lq_model q \<noteq> PNone" and "lq_kind q = PStr LLM_COMPLETE"
  shows "from_action_frame (to_action_frame q key timeout async rid) = Inr q"
proof -
  have "opt_of (\<lambda>v. res_bind (py_iter v) (res_map tool_definition_of)) (PList (map wire_tool ts)) = Inr (Some ts)" for ts
    by (simp add: opt_of_def py_iter_def res_map_comp)
  then have "request_of (wire_request q) = Inr q"
    using assms
    by (cases "lq_tools q"; cases "lq_context q"; cases "lq_max_tokens q = PNone")
       (simp_all add: request_of_def wire_request_def opt_wire_def not_none_def py_item_def py_get_def py_get_or_def py_iter_def res_map_comp)
  then show ?thesis using assms by (simp add: from_action_frame_def to_action_frame_def)
qed

lemma response_wire: "response_of (wire_response r) = Inr r"
  by (cases "lr_content r"; cases "lr_tool_calls r"; cases "lr_usage r"; cases "lr_context r"; cases "lr_error r = PNone")
     (simp_all add: response_of_def wire_response_def opt_wire_def not_none_def py_item_def py_get_def py_get_or_def)

lemma chunk_wire [simp]: "chunk_of (wire_chunk c) = Inr c"
  by (cases "ck_content_delta c"; cases "ck_tool_calls c"; cases "ck_stop_reason c"; cases "ck_usage c"; cases "ck_context c";
      cases "ck_error c = PNone")
     (simp_all add: chunk_of_def wire_chunk_def opt_wire_def not_none_def py_item_def py_get_def py_get_or_def)

end
