(* ===== verification/NwpLlmNode.thy ===== *)
theory NwpLlmNode
  imports NwpLlm NcpPolicies
begin

text \<open>
  The coordinator of stateful completions, \<open>nps_sdk/nwp/llm_action_server.py\<close>: it reserves a mutation of a context, lets the
  wrapped provider answer, asks the authorizer again, and commits or aborts the reservation.

  The coordinator awaits the wrapped provider, the frames of a stream and the authorizer. Its handlers are
  split there: \<open>execute_begin\<close> runs up to the first of these points, \<open>sync_verdict\<close> and \<open>coordinate\<close> say what the answer
  leads to without touching the store, and \<open>settle_sync\<close> and \<open>settle_stream\<close> resolve the reservation. The store may have
  changed in between, and the run relation lets other requests do so. Message texts are not kept.
\<close>

section \<open>Errors\<close>

definition NWP_ERROR_TO_NPS_STATUS :: "string dict" where
  "NWP_ERROR_TO_NPS_STATUS =
     [(''NWP-CHALLENGE-INVALID'', ''NPS-CLIENT-BAD-FRAME''), (''NWP-CHALLENGE-NOT-FOUND'', ''NPS-CLIENT-NOT-FOUND''),
      (''NWP-CHALLENGE-BINDING-CONFLICT'', ''NPS-CLIENT-CONFLICT''), (''NWP-CHALLENGE-NOT-APPROVED'', ''NPS-CLIENT-CONFLICT''),
      (''NWP-CHALLENGE-EXPIRED'', ''NPS-CLIENT-CONFLICT''), (''NWP-CHALLENGE-STATE-UNAVAILABLE'', ''NPS-SERVER-UNAVAILABLE''),
      (''NWP-FEATURE-REQUIREMENTS-INVALID'', ''NPS-CLIENT-BAD-FRAME''), (''NWP-FEATURE-REQUIRED-UNSUPPORTED'', ''NPS-CLIENT-CONFLICT''),
      (''NWP-AUTH-NID-SCOPE-VIOLATION'', ''NPS-AUTH-FORBIDDEN''), (''NWP-AUTH-NID-EXPIRED'', ''NPS-AUTH-UNAUTHENTICATED''),
      (''NWP-AUTH-NID-REVOKED'', ''NPS-AUTH-UNAUTHENTICATED''), (''NWP-AUTH-NID-UNTRUSTED-ISSUER'', ''NPS-AUTH-UNAUTHENTICATED''),
      (''NWP-AUTH-NID-CAPABILITY-MISSING'', ''NPS-AUTH-FORBIDDEN''), (''NWP-AUTH-ASSURANCE-TOO-LOW'', ''NPS-AUTH-FORBIDDEN''),
      (''NWP-AUTH-REPUTATION-BLOCKED'', ''NPS-AUTH-FORBIDDEN''), (''NWP-REPUTATION-THROTTLED'', ''NPS-CLIENT-RATE-LIMITED''),
      (''NWP-REPUTATION-REJECTED'', ''NPS-AUTH-FORBIDDEN''), (''NWP-REPUTATION-BANNED'', ''NPS-AUTH-FORBIDDEN''),
      (''NWP-QUERY-FILTER-INVALID'', ''NPS-CLIENT-BAD-PARAM''), (''NWP-QUERY-FIELD-UNKNOWN'', ''NPS-CLIENT-BAD-PARAM''),
      (''NWP-QUERY-CURSOR-INVALID'', ''NPS-CLIENT-BAD-PARAM''), (''NWP-QUERY-REGEX-UNSAFE'', ''NPS-CLIENT-BAD-PARAM''),
      (''NWP-QUERY-VECTOR-UNSUPPORTED'', ''NPS-SERVER-UNSUPPORTED''), (''NWP-QUERY-AGGREGATE-UNSUPPORTED'', ''NPS-SERVER-UNSUPPORTED''),
      (''NWP-QUERY-AGGREGATE-INVALID'', ''NPS-CLIENT-BAD-PARAM''), (''NWP-QUERY-STREAM-UNSUPPORTED'', ''NPS-SERVER-UNSUPPORTED''),
      (''NWP-ACTION-NOT-FOUND'', ''NPS-CLIENT-NOT-FOUND''), (''NWP-ACTION-PARAMS-INVALID'', ''NPS-CLIENT-UNPROCESSABLE''),
      (''NWP-ACTION-IDEMPOTENCY-CONFLICT'', ''NPS-CLIENT-CONFLICT''), (''NWP-LLM-CONTEXT-NOT-FOUND'', ''NPS-CLIENT-NOT-FOUND''),
      (''NWP-LLM-CONTEXT-EXPIRED'', ''NPS-CLIENT-GONE''), (''NWP-LLM-CONTEXT-VERSION-CONFLICT'', ''NPS-CLIENT-CONFLICT''),
      (''NWP-LLM-CONTEXT-BINDING-MISMATCH'', ''NPS-CLIENT-CONFLICT''), (''NWP-LLM-CONTEXT-FORBIDDEN'', ''NPS-AUTH-FORBIDDEN''),
      (''NWP-LLM-CONTEXT-LIMIT-EXCEEDED'', ''NPS-LIMIT-RESOURCE''),
      (''NWP-LLM-CONTEXT-OPERATION-UNSUPPORTED'', ''NPS-SERVER-UNSUPPORTED''), (''NWP-TASK-NOT-FOUND'', ''NPS-CLIENT-NOT-FOUND''),
      (''NWP-TASK-ALREADY-CANCELLED'', ''NPS-CLIENT-CONFLICT''), (''NWP-TASK-ALREADY-COMPLETED'', ''NPS-CLIENT-CONFLICT''),
      (''NWP-TASK-ALREADY-FAILED'', ''NPS-CLIENT-CONFLICT''), (''NWP-SUBSCRIBE-STREAM-NOT-FOUND'', ''NPS-CLIENT-NOT-FOUND''),
      (''NWP-SUBSCRIBE-LIMIT-EXCEEDED'', ''NPS-LIMIT-EXCEEDED''), (''NWP-SUBSCRIBE-FILTER-UNSUPPORTED'', ''NPS-SERVER-UNSUPPORTED''),
      (''NWP-SUBSCRIBE-INTERRUPTED'', ''NPS-SERVER-UNAVAILABLE''), (''NWP-SUBSCRIBE-SEQ-TOO-OLD'', ''NPS-CLIENT-CONFLICT''),
      (''NWP-SUBSCRIBE-LEASE-INVALID'', ''NPS-CLIENT-BAD-PARAM''), (''NWP-SUBSCRIBE-LEASE-EXPIRED'', ''NPS-CLIENT-GONE''),
      (''NWP-BUDGET-EXCEEDED'', ''NPS-LIMIT-BUDGET''), (''NWP-CGN-LIMIT-EXCEEDED'', ''NPS-CLIENT-REQUEST-TOO-LARGE''),
      (''NWP-DEPTH-EXCEEDED'', ''NPS-CLIENT-BAD-PARAM''), (''NWP-GRAPH-CYCLE'', ''NPS-CLIENT-UNPROCESSABLE''),
      (''NWP-NODE-UNAVAILABLE'', ''NPS-SERVER-UNAVAILABLE''), (''NWP-MANIFEST-VERSION-UNSUPPORTED'', ''NPS-CLIENT-BAD-PARAM''),
      (''NWP-MANIFEST-NODE-TYPE-REMOVED'', ''NPS-CLIENT-BAD-FRAME''), (''NWP-MANIFEST-NODE-TYPE-UNKNOWN'', ''NPS-CLIENT-BAD-FRAME''),
      (''NWP-RATE-LIMIT-EXCEEDED'', ''NPS-LIMIT-RATE''), (''NWP-RESERVED-TYPE-UNSUPPORTED'', ''NPS-SERVER-UNSUPPORTED''),
      (''NWP-HTTP-ORIGIN-FORBIDDEN'', ''NPS-AUTH-FORBIDDEN''), (''NWP-HTTP-CONTENT-TYPE-UNSUPPORTED'', ''NPS-CLIENT-BAD-FRAME''),
      (''NWP-HTTP-ACCEPT-UNSATISFIABLE'', ''NPS-CLIENT-BAD-PARAM''), (''NWP-HTTP-REQUEST-ID-MISMATCH'', ''NPS-CLIENT-BAD-PARAM''),
      (''NWP-HTTP-FRAME-BODY-MALFORMED'', ''NPS-CLIENT-BAD-FRAME''), (''NWP-HTTP-BODY-TOO-LARGE'', ''NPS-LIMIT-PAYLOAD''),
      (''NWP-CAPABILITY-ADVERTISED-UNIMPLEMENTED'', ''NPS-SERVER-UNSUPPORTED''), (''NWP-TOPOLOGY-UNAUTHORIZED'', ''NPS-AUTH-FORBIDDEN''),
      (''NWP-TOPOLOGY-UNSUPPORTED-SCOPE'', ''NPS-CLIENT-BAD-PARAM''), (''NWP-TOPOLOGY-DEPTH-UNSUPPORTED'', ''NPS-CLIENT-BAD-PARAM''),
      (''NWP-TOPOLOGY-FILTER-UNSUPPORTED'', ''NPS-CLIENT-BAD-PARAM''), (''NWP-ANCHOR-NOT-LEADER'', ''NPS-CLIENT-CONFLICT''),
      (''NWP-ANCHOR-EPOCH-FENCED'', ''NPS-CLIENT-CONFLICT''), (''NWP-BRIDGE-DIRECTION-UNSUPPORTED'', ''NPS-SERVER-UNSUPPORTED''),
      (''NWP-BRIDGE-TARGET-INVALID'', ''NPS-CLIENT-UNPROCESSABLE''), (''NWP-BRIDGE-PROTOCOL-UNSUPPORTED'', ''NPS-SERVER-UNSUPPORTED''),
      (''NWP-BRIDGE-ENDPOINT-INVALID'', ''NPS-CLIENT-UNPROCESSABLE''), (''NWP-BRIDGE-UPSTREAM-FAILED'', ''NPS-DOWNSTREAM-UNAVAILABLE''),
      (''NWP-BRIDGE-SERVER-TOOL-NOT-FOUND'', ''NPS-CLIENT-NOT-FOUND''),
      (''NWP-BRIDGE-SERVER-DISPATCHER-MISSING'', ''NPS-SERVER-INTERNAL''),
      (''NWP-BRIDGE-SERVER-DISPATCH-FAILED'', ''NPS-SERVER-INTERNAL'')]"

text \<open>What leaves the coordinator: an \<open>ActionExecutionError\<close> (or what the provider raised), or another exception.\<close>

datatype llm_fail = Raised raised | Py py_error

definition exec_error :: "int \<Rightarrow> string \<Rightarrow> string \<Rightarrow> llm_fail" where
  "exec_error http_status nps_status code = Raised (ExecutionError http_status nps_status code [] None)"

definition params_error :: llm_fail where
  "params_error = exec_error 422 (the (dict_get NWP_ERROR_TO_NPS_STATUS ACTION_PARAMS_INVALID)) ACTION_PARAMS_INVALID"

definition internal_error :: llm_fail where
  "internal_error = exec_error 500 ''NPS-SERVER-INTERNAL'' NODE_UNAVAILABLE"

text \<open>\<open>except LlmContextStoreError as ex: raise _store_error(ex)\<close>; other exceptions pass.\<close>

definition store_error :: "py_error \<Rightarrow> llm_fail" where
  "store_error e =
     (case e of
        LlmContextStoreError code version \<Rightarrow>
          (let st = (case dict_get NWP_ERROR_TO_NPS_STATUS code of None \<Rightarrow> ''NPS-SERVER-INTERNAL'' | Some st \<Rightarrow> st)
           in exec_error (to_http_status st) st code)
      | _ \<Rightarrow> Py e)"

text \<open>\<open>except (KeyError, TypeError, ValueError)\<close>\<close>

definition reading_error :: "py_error \<Rightarrow> bool" where
  "reading_error e \<longleftrightarrow> e \<in> {KeyError, TypeError, ValueError}"

definition params_fail :: "py_error \<Rightarrow> llm_fail" where
  "params_fail e = (if reading_error e then params_error else Py e)"

text \<open>The code a reservation is aborted with: that of an \<open>ActionExecutionError\<close>, otherwise that of an unavailable node.\<close>

definition fail_code :: "llm_fail \<Rightarrow> string" where
  "fail_code f = (case f of Raised (ExecutionError _ _ code _ _) \<Rightarrow> code | _ \<Rightarrow> NODE_UNAVAILABLE)"

section \<open>Options\<close>

datatype auth_stage = ADMISSION | COMMIT

type_synonym llm_authorizer = "context_owner \<Rightarrow> string \<Rightarrow> auth_stage \<Rightarrow> string list \<Rightarrow> action_context \<Rightarrow> llm_fail option"

record llm_options =
  lo_security_scope :: string
  lo_runtime_revision :: string
  lo_provider_name :: "string option"
  lo_default_model :: "string option"
  lo_supports_tools :: bool
  lo_supports_stream :: bool
  lo_supports_json_mode :: bool
  lo_reasoning_visibility :: "string option"
  lo_authorizer :: "llm_authorizer option"

definition check_llm_options :: "llm_options \<Rightarrow> unit res" where
  "check_llm_options lo =
     (if py_strip (lo_security_scope lo) = [] then Inl ValueError
      else if py_strip (lo_runtime_revision lo) = [] then Inl ValueError else Inr ())"

definition complete_spec :: "action_spec option \<Rightarrow> action_spec" where
  "complete_spec current =
     \<lparr>as_async = (case current of None \<Rightarrow> True | Some c \<Rightarrow> as_async c),
      as_description = (case current of None \<Rightarrow> Some ''Complete an LLM request'' | Some c \<Rightarrow> as_description c),
      as_params_anchor = Some ''nps:system:llm.complete:request'', as_result_anchor = Some LLM_COMPLETE_RESPONSE_ANCHOR,
      as_idempotent = Some True, as_timeout_ms_default = Option.bind current as_timeout_ms_default,
      as_timeout_ms_max = Option.bind current as_timeout_ms_max, as_required_capability = Some CAPABILITY_LLM_COMPLETE\<rparr>"

definition status_spec :: action_spec where
  "status_spec =
     \<lparr>as_async = False, as_description = Some ''Inspect an LLM context or retained create outcome'',
      as_params_anchor = Some ''nps:system:llm.context.status:request'', as_result_anchor = Some LLM_CONTEXT_STATUS_RESPONSE_ANCHOR,
      as_idempotent = None, as_timeout_ms_default = None, as_timeout_ms_max = None, as_required_capability = Some CAPABILITY_LLM_CONTEXT\<rparr>"

definition release_spec :: action_spec where
  "release_spec =
     \<lparr>as_async = False, as_description = Some ''Release an LLM context'',
      as_params_anchor = Some ''nps:system:llm.context.release:request'', as_result_anchor = Some LLM_CONTEXT_RELEASE_RESPONSE_ANCHOR,
      as_idempotent = Some True, as_timeout_ms_default = None, as_timeout_ms_max = None, as_required_capability = Some CAPABILITY_LLM_CONTEXT\<rparr>"

definition llm_profile :: "llm_options \<Rightarrow> context_options \<Rightarrow> pyval" where
  "llm_profile lo opts =
     PDict ([(''profile_version'', PStr ''0.2''),
             (''actions'', PList [PStr LLM_COMPLETE, PStr LLM_CONTEXT_STATUS, PStr LLM_CONTEXT_RELEASE]),
             (''supports_stream'', PBool (lo_supports_stream lo)), (''supports_tools'', PBool (lo_supports_tools lo)),
             (''supports_json_mode'', PBool (lo_supports_json_mode lo)),
             (''context'',
               PDict [(''supported'', PBool True),
                      (''operations'', PList (map (\<lambda>op. PStr (operation_wire op)) (filter (\<lambda>op. op \<in> set (co_supported opts)) context_operations))),
                      (''persistence'', PStr ''process''), (''max_contexts_per_principal'', PInt (co_max_contexts_per_principal opts)),
                      (''max_ttl_seconds'', PInt (co_max_ttl_seconds opts)), (''tombstone_seconds'', PInt (co_tombstone_seconds opts))])]
       @ not_none ''provider'' (opt_val PStr (lo_provider_name lo)) @ not_none ''default_model'' (opt_val PStr (lo_default_model lo))
       @ not_none ''reasoning_visibility'' (opt_val PStr (lo_reasoning_visibility lo)))"

definition configure_node :: "llm_options \<Rightarrow> context_options \<Rightarrow> node_options \<Rightarrow> node_options" where
  "configure_node lo opts node =
     node\<lparr>no_actions :=
            dict_set LLM_CONTEXT_RELEASE release_spec (dict_set LLM_CONTEXT_STATUS status_spec
              (dict_set LLM_COMPLETE (complete_spec (dict_get (no_actions node) LLM_COMPLETE)) (no_actions node))),
          no_profiles := Some (dict_set ''llm'' (llm_profile lo opts) (case no_profiles node of None \<Rightarrow> [] | Some d \<Rightarrow> d))\<rparr>"

section \<open>Authorization\<close>

definition owner_of :: "llm_options \<Rightarrow> action_context \<Rightarrow> llm_fail + context_owner" where
  "owner_of lo ctx =
     (case ac_agent_nid ctx of
        None \<Rightarrow> Inl (exec_error 401 ''NPS-AUTH-UNAUTHENTICATED'' AUTH_NID_SCOPE_VIOLATION)
      | Some nid \<Rightarrow>
          if py_strip nid = [] then Inl (exec_error 401 ''NPS-AUTH-UNAUTHENTICATED'' AUTH_NID_SCOPE_VIOLATION)
          else Inr \<lparr>ow_nid = nid, ow_security_scope = lo_security_scope lo\<rparr>)"

definition check_authorization ::
  "llm_options \<Rightarrow> context_owner \<Rightarrow> string \<Rightarrow> auth_stage \<Rightarrow> string list \<Rightarrow> action_context \<Rightarrow> llm_fail option" where
  "check_authorization lo ow action_id stage caps ctx =
     (case lo_authorizer lo of
        None \<Rightarrow> Some (exec_error 403 ''NPS-AUTH-FORBIDDEN'' LLM_CONTEXT_FORBIDDEN)
      | Some f \<Rightarrow> f ow action_id stage caps ctx)"

definition required_capabilities :: "action_frame \<Rightarrow> string list" where
  "required_capabilities frame =
     (if af_action_id frame \<in> {LLM_CONTEXT_STATUS, LLM_CONTEXT_RELEASE} then [CAPABILITY_LLM_CONTEXT]
      else let params = (case af_params frame of PDict d \<Rightarrow> d | _ \<Rightarrow> []) in
           [CAPABILITY_LLM_COMPLETE, CAPABILITY_LLM_CONTEXT]
           @ (if map_of params ''stream'' = Some (PBool True) then [CAPABILITY_LLM_STREAM] else [])
           @ (case map_of params ''tools'' of Some (PList (t # ts)) \<Rightarrow> [CAPABILITY_LLM_TOOL_CALL] | _ \<Rightarrow> []))"

definition requires_context_auth :: "action_frame \<Rightarrow> bool" where
  "requires_context_auth frame \<longleftrightarrow>
     (if af_action_id frame = LLM_COMPLETE
      then (case af_params frame of PDict d \<Rightarrow> (case map_of d ''context'' of None \<Rightarrow> False | Some v \<Rightarrow> v \<noteq> PNone) | _ \<Rightarrow> False)
      else af_action_id frame \<in> {LLM_CONTEXT_STATUS, LLM_CONTEXT_RELEASE})"

definition async_stream_refused :: "action_frame \<Rightarrow> llm_fail option" where
  "async_stream_refused frame =
     (if af_action_id frame = LLM_COMPLETE \<and> af_async frame
      then (case from_action_frame frame of
              Inl e \<Rightarrow> Some (params_fail e)
            | Inr request \<Rightarrow> if lq_stream request then Some params_error else None)
      else None)"

definition authorize_llm :: "llm_options \<Rightarrow> action_frame \<Rightarrow> action_context \<Rightarrow> llm_fail option" where
  "authorize_llm lo frame ctx =
     (if \<not> requires_context_auth frame then None
      else case async_stream_refused frame of
             Some f \<Rightarrow> Some f
           | None \<Rightarrow>
               (case owner_of lo ctx of
                  Inl f \<Rightarrow> Some f
                | Inr ow \<Rightarrow> check_authorization lo ow (af_action_id frame) ADMISSION (required_capabilities frame) ctx))"

section \<open>Starting\<close>

text \<open>
  The readings of the clock during a call are numbered; \<open>rid\<close> is the fresh reservation id. \<open>Delegate\<close> hands the frame to
  the wrapped provider and returns what it returns, \<open>Finished\<close> is an answer, \<open>Waiting\<close> has a reservation and awaits the
  wrapped provider.
\<close>

datatype llm_begun = Delegate | Finished execution_result | Waiting complete_request context_owner reservation

definition system_messages :: "llm_message list \<Rightarrow> llm_message list" where
  "system_messages ms = filter (\<lambda>m. py_lower (lm_role m) = ''system'') ms"

definition resolve_binding ::
  "context_options \<Rightarrow> llm_options \<Rightarrow> int option \<Rightarrow> context_owner \<Rightarrow> string \<Rightarrow> complete_request \<Rightarrow> context_request \<Rightarrow> context_store
     \<Rightarrow> (llm_fail + context_binding) \<times> context_store" where
  "resolve_binding opts lo clk ow model q x s =
     (if xr_operation x \<in> {APPEND, FORK}
      then (case xr_context_id x of
              None \<Rightarrow> (Inl params_error, s)
            | Some cid \<Rightarrow>
                (case snapshot opts clk ow cid s of
                   (Inl e, s') \<Rightarrow> (Inl (store_error e), s')
                 | (Inr snap, s') \<Rightarrow>
                     (Inr \<lparr>cb_model = model, cb_system_messages = cb_system_messages (sn_binding snap),
                           cb_runtime_revision = lo_runtime_revision lo,
                           cb_tools = (case lq_tools q of None \<Rightarrow> cb_tools (sn_binding snap) | Some ts \<Rightarrow> Some ts)\<rparr>, s')))
      else (Inr \<lparr>cb_model = model, cb_system_messages = system_messages (lq_messages q),
                 cb_runtime_revision = lo_runtime_revision lo, cb_tools = lq_tools q\<rparr>, s))"

text \<open>\<open>v or ""\<close>\<close>

definition text_or_empty :: "pyval \<Rightarrow> string res" where
  "text_or_empty v = (if py_bool v then text_of v else Inr [])"

definition mutation_of ::
  "action_frame \<Rightarrow> context_owner \<Rightarrow> context_binding \<Rightarrow> complete_request \<Rightarrow> context_request \<Rightarrow> mutation_request res" where
  "mutation_of frame ow binding q x =
     res_bind (text_or_empty (af_idempotency_key frame)) (\<lambda>key.
     res_bind (text_or_empty (af_request_id frame)) (\<lambda>request_id.
       Inr \<lparr>mr_operation = xr_operation x, mr_owner = ow, mr_binding = binding, mr_messages = lq_messages q,
            mr_idempotency_key = key, mr_request_id = request_id, mr_context_id = xr_context_id x,
            mr_base_version = xr_base_version x, mr_ttl_seconds = xr_ttl_seconds x\<rparr>))"

definition reserve_completion ::
  "canon_hash \<Rightarrow> context_options \<Rightarrow> llm_options \<Rightarrow> (nat \<Rightarrow> int option) \<Rightarrow> string \<Rightarrow> action_frame \<Rightarrow> context_owner \<Rightarrow> string
     \<Rightarrow> complete_request \<Rightarrow> context_request \<Rightarrow> context_store \<Rightarrow> (llm_fail + llm_begun) \<times> context_store" where
  "reserve_completion H opts lo clk rid frame ow model q x s =
     (case resolve_binding opts lo (clk 0) ow model q x s of
        (Inl f, s1) \<Rightarrow> (Inl f, s1)
      | (Inr binding, s1) \<Rightarrow>
          (case mutation_of frame ow binding q x of
             Inl e \<Rightarrow> (Inl (Py e), s1)
           | Inr m \<Rightarrow>
               (case reserve H opts (clk 1) (clk 2) (clk 3) rid m s1 of
                  (Inl e, s2) \<Rightarrow> (Inl (store_error e), s2)
                | (Inr rv, s2) \<Rightarrow> (Inr (Waiting q ow rv), s2))))"

text \<open>The checks of \<open>_complete\<close> that come before the store is used.\<close>

definition complete_checks :: "llm_options \<Rightarrow> action_frame \<Rightarrow> llm_fail + complete_request \<times> string \<times> context_request option" where
  "complete_checks lo frame =
     (case from_action_frame frame of
        Inl e \<Rightarrow> Inl (params_fail e)
      | Inr q \<Rightarrow>
          (case as_str (lq_model q) of
             Inl e \<Rightarrow> Inl (Py e)
           | Inr model \<Rightarrow>
               if py_strip model = [] then Inl params_error
               else if \<not> lo_supports_tools lo \<and> (case lq_tools q of None \<Rightarrow> False | Some ts \<Rightarrow> ts \<noteq> []) then Inl params_error
               else (case lq_context q of
                       None \<Rightarrow> Inr (q, model, None)
                     | Some x \<Rightarrow>
                         if lq_stream q \<and> \<not> lo_supports_stream lo then Inl params_error
                         else if lq_stream q \<and> af_async frame then Inl params_error
                         else if xr_operation x \<in> {APPEND, FORK, RESET} \<and>
                                 (xr_context_id x = None \<or> xr_context_id x = Some [] \<or> xr_base_version x = None)
                         then Inl params_error
                         else Inr (q, model, Some x))))"

definition complete_begin ::
  "canon_hash \<Rightarrow> context_options \<Rightarrow> llm_options \<Rightarrow> (nat \<Rightarrow> int option) \<Rightarrow> string \<Rightarrow> action_frame \<Rightarrow> action_context \<Rightarrow> context_store
     \<Rightarrow> (llm_fail + llm_begun) \<times> context_store" where
  "complete_begin H opts lo clk rid frame ctx s =
     (case complete_checks lo frame of
        Inl f \<Rightarrow> (Inl f, s)
      | Inr (q, model, None) \<Rightarrow> (Inr Delegate, s)
      | Inr (q, model, Some x) \<Rightarrow>
          (case owner_of lo ctx of
             Inl f \<Rightarrow> (Inl f, s)
           | Inr ow \<Rightarrow> reserve_completion H opts lo clk rid frame ow model q x s))"

definition plain_result :: "pyval \<Rightarrow> string \<Rightarrow> execution_result" where
  "plain_result result anchor = \<lparr>er_result = result, er_stream = None, er_anchor_ref = Some anchor, er_token_est = 0\<rparr>"

definition status_action ::
  "context_options \<Rightarrow> llm_options \<Rightarrow> (nat \<Rightarrow> int option) \<Rightarrow> action_frame \<Rightarrow> action_context \<Rightarrow> context_store
     \<Rightarrow> (llm_fail + llm_begun) \<times> context_store" where
  "status_action opts lo clk frame ctx s =
     (case af_params frame of
        PDict d \<Rightarrow>
          (case (opt_text (kwarg d ''context_id'' PNone), opt_text (kwarg d ''idempotency_key'' PNone), owner_of lo ctx) of
             (Inr cid, Inr key, Inr ow) \<Rightarrow>
               (case status opts (clk 0) (clk 1) ow cid key s of
                  (Inl e, s') \<Rightarrow> (Inl (store_error e), s')
                | (Inr st, s') \<Rightarrow> (Inr (Finished (plain_result (wire_status st) LLM_CONTEXT_STATUS_RESPONSE_ANCHOR)), s'))
           | (Inr cid, Inr key, Inl f) \<Rightarrow> (Inl f, s)
           | _ \<Rightarrow> (Inl (Py IllTyped), s))
      | _ \<Rightarrow> (Inl params_error, s))"

definition release_params :: "action_frame \<Rightarrow> (string \<times> int \<times> string) res" where
  "release_params frame =
     res_bind (res_bind (py_item (af_params frame) ''context_id'') text_of) (\<lambda>cid.
     res_bind (res_bind (py_item (af_params frame) ''base_version'') int_of) (\<lambda>base.
     res_bind (text_or_empty (af_idempotency_key frame)) (\<lambda>key. Inr (cid, base, key))))"

definition release_action ::
  "context_options \<Rightarrow> llm_options \<Rightarrow> (nat \<Rightarrow> int option) \<Rightarrow> action_frame \<Rightarrow> action_context \<Rightarrow> context_store
     \<Rightarrow> (llm_fail + llm_begun) \<times> context_store" where
  "release_action opts lo clk frame ctx s =
     (case release_params frame of
        Inl e \<Rightarrow> (Inl (params_fail e), s)
      | Inr (cid, base, key) \<Rightarrow>
          (case owner_of lo ctx of
             Inl f \<Rightarrow> (Inl f, s)
           | Inr ow \<Rightarrow>
               (case release opts (clk 0) (clk 1) (clk 2) ow cid base key s of
                  (Inl e, s') \<Rightarrow> (Inl (store_error e), s')
                | (Inr receipt, s') \<Rightarrow> (Inr (Finished (plain_result (wire_receipt receipt) LLM_CONTEXT_RELEASE_RESPONSE_ANCHOR)), s'))))"

definition execute_begin ::
  "canon_hash \<Rightarrow> context_options \<Rightarrow> llm_options \<Rightarrow> (nat \<Rightarrow> int option) \<Rightarrow> string \<Rightarrow> action_frame \<Rightarrow> action_context \<Rightarrow> context_store
     \<Rightarrow> (llm_fail + llm_begun) \<times> context_store" where
  "execute_begin H opts lo clk rid frame ctx s =
     (if af_action_id frame = LLM_COMPLETE then complete_begin H opts lo clk rid frame ctx s
      else if af_action_id frame = LLM_CONTEXT_STATUS then status_action opts lo clk frame ctx s
      else if af_action_id frame = LLM_CONTEXT_RELEASE then release_action opts lo clk frame ctx s
      else (Inr Delegate, s))"

section \<open>Finishing a completion\<close>

text \<open>What \<open>inner.execute\<close> does in the end. Cancellation is the exception \<open>CancelledError\<close>.\<close>

datatype inner_outcome = InnerReturns execution_result | InnerRaises llm_fail

text \<open>
  What the answer leads to: the reservation is aborted with a code and an exception raised or a result returned;
  an exception escapes without that; or the authorizer is asked and the answer committed.
\<close>

datatype completion_verdict = AbortRaise string llm_fail | AbortReturn string execution_result | Escapes llm_fail | AskCommit complete_response execution_result

definition completion_result :: "complete_response \<Rightarrow> execution_result \<Rightarrow> execution_result" where
  "completion_result response provider_result =
     \<lparr>er_result = wire_response response, er_stream = None,
      er_anchor_ref = (case er_anchor_ref provider_result of
                         None \<Rightarrow> Some LLM_COMPLETE_RESPONSE_ANCHOR
                       | Some a \<Rightarrow> Some (if a = [] then LLM_COMPLETE_RESPONSE_ANCHOR else a)),
      er_token_est = er_token_est provider_result\<rparr>"

text \<open>\<open>cancelling\<close>: a cancellation of the task has been requested.\<close>

definition sync_verdict :: "bool \<Rightarrow> inner_outcome \<Rightarrow> completion_verdict" where
  "sync_verdict cancelling outcome =
     (case outcome of
        InnerRaises f \<Rightarrow> AbortRaise (fail_code f) f
      | InnerReturns r \<Rightarrow>
          if cancelling then AbortRaise NODE_UNAVAILABLE (Py CancelledError)
          else (case er_result r of
                  PDict d \<Rightarrow>
                    (case response_of (PDict d) of
                       Inl e \<Rightarrow> if reading_error e then AbortRaise NODE_UNAVAILABLE internal_error else Escapes (Py e)
                     | Inr response \<Rightarrow>
                         if lr_stop_reason response = STOP_ERROR
                         then AbortReturn NODE_UNAVAILABLE (completion_result (response\<lparr>lr_context := None\<rparr>) r)
                         else AskCommit response r)
                | _ \<Rightarrow> AbortRaise NODE_UNAVAILABLE internal_error))"

definition stream_anchor :: "execution_result \<Rightarrow> string" where
  "stream_anchor r =
     (case er_anchor_ref r of None \<Rightarrow> LLM_COMPLETE_STREAM_ANCHOR | Some a \<Rightarrow> if a = [] then LLM_COMPLETE_STREAM_ANCHOR else a)"

text \<open>With \<open>stream\<close>: the reservation is aborted, or the stream is handed out.\<close>

definition stream_opened :: "inner_outcome \<Rightarrow> completion_verdict + stream_source" where
  "stream_opened outcome =
     (case outcome of
        InnerRaises f \<Rightarrow> Inl (AbortRaise (fail_code f) f)
      | InnerReturns r \<Rightarrow>
          (case er_stream r of None \<Rightarrow> Inl (AbortRaise NODE_UNAVAILABLE internal_error) | Some src \<Rightarrow> Inr src))"

text \<open>\<open>_abort\<close>\<close>

definition abort_step ::
  "context_options \<Rightarrow> int option \<Rightarrow> int option \<Rightarrow> reservation \<Rightarrow> string \<Rightarrow> context_store \<Rightarrow> llm_fail option \<times> context_store" where
  "abort_step opts c0 c1 rv code s =
     (case abort opts c0 c1 rv (Some code) s of
        (Inr _, s') \<Rightarrow> (None, s')
      | (Inl e, s') \<Rightarrow> (Some (if e = RuntimeError then internal_error else Py e), s'))"

definition abort_then ::
  "context_options \<Rightarrow> (nat \<Rightarrow> int option) \<Rightarrow> reservation \<Rightarrow> string \<Rightarrow> llm_fail + 'a \<Rightarrow> context_store \<Rightarrow> (llm_fail + 'a) \<times> context_store" where
  "abort_then opts clk rv code out s =
     (case abort_step opts (clk 0) (clk 1) rv code s of (None, s') \<Rightarrow> (out, s') | (Some f, s') \<Rightarrow> (Inl f, s'))"

definition assistant_message :: "string option \<Rightarrow> tool_call list option \<Rightarrow> llm_message" where
  "assistant_message content calls =
     \<lparr>lm_role = ''assistant'', lm_content = content, lm_tool_call_id = None, lm_tool_name = None, lm_tool_calls = calls\<rparr>"

definition commit_allowed :: "llm_options \<Rightarrow> context_owner \<Rightarrow> action_frame \<Rightarrow> action_context \<Rightarrow> llm_fail option" where
  "commit_allowed lo ow frame ctx = check_authorization lo ow (af_action_id frame) COMMIT (required_capabilities frame) ctx"

definition settle_sync ::
  "context_options \<Rightarrow> (nat \<Rightarrow> int option) \<Rightarrow> (nat \<Rightarrow> string) \<Rightarrow> llm_fail option \<Rightarrow> reservation \<Rightarrow> completion_verdict
     \<Rightarrow> context_store \<Rightarrow> (llm_fail + execution_result) \<times> context_store" where
  "settle_sync opts clk factory auth rv v s =
     (case v of
        AbortRaise code f \<Rightarrow> abort_then opts clk rv code (Inl f) s
      | AbortReturn code r \<Rightarrow> abort_then opts clk rv code (Inr r) s
      | Escapes f \<Rightarrow> (Inl f, s)
      | AskCommit response provider_result \<Rightarrow>
          (case auth of
             Some f \<Rightarrow> abort_then opts clk rv (fail_code f) (Inl f) s
           | None \<Rightarrow>
               (case commit opts (clk 2) (clk 3) factory rv (assistant_message (lr_content response) (lr_tool_calls response)) s of
                  (Inl e, s') \<Rightarrow> (Inl (store_error e), s')
                | (Inr receipt, s') \<Rightarrow> (Inr (completion_result (response\<lparr>lr_context := Some receipt\<rparr>) provider_result), s'))))"

section \<open>Streams\<close>

text \<open>
  How the generator \<open>_coordinate_stream\<close> ends: it raises, is closed at a \<open>yield\<close>, passes on a failing terminal frame, or
  has a terminal frame to commit.
\<close>

datatype stream_ending =
    EndRaises llm_fail
  | EndClosed
  | EndFailed stream_frame string
  | EndCommit stream_frame "complete_chunk list" llm_message

definition terminal_only :: "complete_chunk \<Rightarrow> bool" where
  "terminal_only c \<longleftrightarrow> ck_stop_reason c \<noteq> None \<or> ck_error c \<noteq> PNone \<or> ck_usage c \<noteq> None \<or> ck_context c \<noteq> None"

definition sanitized :: "complete_chunk list \<Rightarrow> complete_chunk list" where
  "sanitized cs = map (\<lambda>c. c\<lparr>ck_context := None\<rparr>) cs"

definition deltas :: "complete_chunk list \<Rightarrow> string" where
  "deltas cs = concat (map (\<lambda>c. case ck_content_delta c of None \<Rightarrow> [] | Some d \<Rightarrow> d) cs)"

definition chunk_calls :: "complete_chunk list \<Rightarrow> tool_call list" where
  "chunk_calls cs = concat (map (\<lambda>c. case ck_tool_calls c of None \<Rightarrow> [] | Some ts \<Rightarrow> ts) cs)"

definition nonempty :: "'a list \<Rightarrow> 'a list option" where
  "nonempty xs = (if xs = [] then None else Some xs)"

definition with_chunks :: "stream_frame \<Rightarrow> complete_chunk list \<Rightarrow> stream_frame" where
  "with_chunks f cs = f\<lparr>str_data := map wire_chunk cs\<rparr>"

text \<open>What the terminal frame leads to; \<open>content\<close> and \<open>calls\<close> are what all frames said.\<close>

definition terminal_ending :: "string \<Rightarrow> tool_call list \<Rightarrow> stream_frame \<Rightarrow> complete_chunk list \<Rightarrow> stream_ending" where
  "terminal_ending content calls f cs =
     (if str_error_code f \<noteq> PNone \<or> list_ex (\<lambda>c. ck_stop_reason c = Some STOP_ERROR \<or> ck_error c \<noteq> PNone) cs
      then (case (if py_bool (str_error_code f) then text_of (str_error_code f) else Inr NODE_UNAVAILABLE) of
              Inl e \<Rightarrow> EndRaises (Py e)
            | Inr code \<Rightarrow> EndFailed ((with_chunks f cs)\<lparr>str_error_code := PStr code\<rparr>) code)
      else if \<not> list_ex (\<lambda>c. ck_stop_reason c \<noteq> None) cs then EndRaises internal_error
      else EndCommit f cs (assistant_message (nonempty content) (nonempty calls)))"

text \<open>
  The loop. The consumer has asked for a frame and will ask for \<open>n\<close> more before it closes the generator; the result is
  what it was given and how the generator ended.
\<close>

fun coordinate :: "nat \<Rightarrow> source_end \<Rightarrow> string \<Rightarrow> tool_call list \<Rightarrow> stream_frame list \<Rightarrow> stream_frame list \<times> stream_ending" where
  "coordinate n fin content calls [] =
     ([], EndRaises (case fin of Ends \<Rightarrow> internal_error | Raises r \<Rightarrow> Raised r | IsCancelled \<Rightarrow> Py CancelledError))"
| "coordinate n fin content calls (f # fs) =
     (case res_map chunk_of (str_data f) of
        Inl e \<Rightarrow> ([], EndRaises (if reading_error e then internal_error else Py e))
      | Inr chunks \<Rightarrow>
          if \<not> str_is_last f \<and> list_ex terminal_only chunks then ([], EndRaises internal_error)
          else let content' = content @ deltas chunks; calls' = calls @ chunk_calls chunks; cs = sanitized chunks in
               if str_is_last f then ([], terminal_ending content' calls' f cs)
               else (case n of
                       0 \<Rightarrow> ([with_chunks f cs], EndClosed)
                     | Suc m \<Rightarrow> (case coordinate m fin content' calls' fs of (out, e) \<Rightarrow> (with_chunks f cs # out, e))))"

text \<open>The receipt goes into the last chunk with a stop reason.\<close>

fun stamp_first :: "context_receipt \<Rightarrow> complete_chunk list \<Rightarrow> complete_chunk list" where
  "stamp_first r [] = []"
| "stamp_first r (c # cs) = (if ck_stop_reason c \<noteq> None then c\<lparr>ck_context := Some r\<rparr> # cs else c # stamp_first r cs)"

definition stamped :: "context_receipt \<Rightarrow> complete_chunk list \<Rightarrow> complete_chunk list" where
  "stamped r cs = rev (stamp_first r (rev cs))"

text \<open>An abort inside the loop; when it raises, the \<open>finally\<close> block aborts once more.\<close>

definition resolve_with ::
  "context_options \<Rightarrow> (nat \<Rightarrow> int option) \<Rightarrow> reservation \<Rightarrow> string \<Rightarrow> llm_fail + 'a \<Rightarrow> context_store \<Rightarrow> (llm_fail + 'a) \<times> context_store" where
  "resolve_with opts clk rv code out s =
     (case abort_step opts (clk 4) (clk 5) rv code s of
        (None, s') \<Rightarrow> (out, s')
      | (Some f, s') \<Rightarrow> abort_then opts clk rv NODE_UNAVAILABLE (Inl f) s')"

text \<open>The end of the generator: the last frame it yields, if any, or what it raises.\<close>

definition settle_stream ::
  "context_options \<Rightarrow> (nat \<Rightarrow> int option) \<Rightarrow> (nat \<Rightarrow> string) \<Rightarrow> llm_fail option \<Rightarrow> reservation \<Rightarrow> stream_ending \<Rightarrow> context_store
     \<Rightarrow> (llm_fail + stream_frame option) \<times> context_store" where
  "settle_stream opts clk factory auth rv ending s =
     (case ending of
        EndRaises f \<Rightarrow> abort_then opts clk rv NODE_UNAVAILABLE (Inl f) s
      | EndClosed \<Rightarrow> abort_then opts clk rv NODE_UNAVAILABLE (Inr None) s
      | EndFailed f code \<Rightarrow> resolve_with opts clk rv code (Inr (Some f)) s
      | EndCommit f cs message \<Rightarrow>
          (case auth of
             Some err \<Rightarrow>
               if err = Py CancelledError then abort_then opts clk rv NODE_UNAVAILABLE (Inl err) s
               else resolve_with opts clk rv (fail_code err) (Inl err) s
           | None \<Rightarrow>
               (case commit opts (clk 2) (clk 3) factory rv message s of
                  (Inr receipt, s') \<Rightarrow> (Inr (Some (with_chunks f (stamped receipt cs))), s')
                | (Inl (LlmContextStoreError code version), s') \<Rightarrow>
                    resolve_with opts clk rv code (Inl (store_error (LlmContextStoreError code version))) s'
                | (Inl e, s') \<Rightarrow> abort_then opts clk rv NODE_UNAVAILABLE (Inl (Py e)) s')))"

section \<open>Runs\<close>

text \<open>The completions that hold a reservation and await something.\<close>

record running_call =
  rc_frame :: action_frame
  rc_context :: action_context
  rc_request :: complete_request
  rc_owner :: context_owner
  rc_rv :: reservation

record llm_node =
  ln_store :: context_store
  ln_running :: "running_call list"

definition rc_auth :: "llm_options \<Rightarrow> running_call \<Rightarrow> llm_fail option" where
  "rc_auth lo c = commit_allowed lo (rc_owner c) (rc_frame c) (rc_context c)"

text \<open>
  A request arrives; the wrapped provider answers call \<open>i\<close>; the stream handed out for call \<open>i\<close> is iterated, with \<open>n\<close> frames
  asked for after the first; or it is dropped before its first frame is asked for, in which case the body of the
  generator, and its \<open>finally\<close> block, never run.
\<close>

datatype llm_event =
    Begin "nat \<Rightarrow> int option" string action_frame action_context
  | Answer nat bool inner_outcome "nat \<Rightarrow> int option" "nat \<Rightarrow> string"
  | Iterate nat nat stream_source "nat \<Rightarrow> int option" "nat \<Rightarrow> string"
  | NeverIterated nat

definition without :: "nat \<Rightarrow> 'a list \<Rightarrow> 'a list" where
  "without i xs = take i xs @ drop (Suc i) xs"

text \<open>The verdict on an answer; \<open>None\<close> when a stream is handed out.\<close>

definition answer_verdict :: "running_call \<Rightarrow> bool \<Rightarrow> inner_outcome \<Rightarrow> completion_verdict option" where
  "answer_verdict c cancelling outcome =
     (if lq_stream (rc_request c) then (case stream_opened outcome of Inl v \<Rightarrow> Some v | Inr src \<Rightarrow> None)
      else Some (sync_verdict cancelling outcome))"

definition stream_ending_of :: "nat \<Rightarrow> stream_source \<Rightarrow> stream_ending" where
  "stream_ending_of n src = snd (coordinate n (so_end src) [] [] (so_frames src))"

fun llm_do :: "canon_hash \<Rightarrow> context_options \<Rightarrow> llm_options \<Rightarrow> llm_event \<Rightarrow> llm_node \<Rightarrow> llm_node" where
  "llm_do H opts lo (Begin clk rid frame ctx) n =
     (case execute_begin H opts lo clk rid frame ctx (ln_store n) of
        (Inr (Waiting q ow rv), s') \<Rightarrow>
          n\<lparr>ln_store := s',
            ln_running := ln_running n @ [\<lparr>rc_frame = frame, rc_context = ctx, rc_request = q, rc_owner = ow, rc_rv = rv\<rparr>]\<rparr>
      | (_, s') \<Rightarrow> n\<lparr>ln_store := s'\<rparr>)"
| "llm_do H opts lo (Answer i cancelling outcome clk factory) n =
     (let c = ln_running n ! i in
      case answer_verdict c cancelling outcome of
        None \<Rightarrow> n
      | Some v \<Rightarrow> n\<lparr>ln_store := snd (settle_sync opts clk factory (rc_auth lo c) (rc_rv c) v (ln_store n)), ln_running := without i (ln_running n)\<rparr>)"
| "llm_do H opts lo (Iterate i m src clk factory) n =
     (let c = ln_running n ! i in
      n\<lparr>ln_store := snd (settle_stream opts clk factory (rc_auth lo c) (rc_rv c) (stream_ending_of m src) (ln_store n)),
        ln_running := without i (ln_running n)\<rparr>)"
| "llm_do H opts lo (NeverIterated i) n = n\<lparr>ln_running := without i (ln_running n)\<rparr>"

text \<open>
  What the node relies on: reservation ids are fresh, and the clock is far enough from the end of the calendar. An event
  refers to a running call, and streams belong to streaming requests.
\<close>

fun llm_event_ok :: "context_options \<Rightarrow> llm_node \<Rightarrow> llm_event \<Rightarrow> bool" where
  "llm_event_ok opts n (Begin clk rid frame ctx) \<longleftrightarrow>
     dict_get (cs_reservations (ln_store n)) rid = None \<and> (\<exists>t. retain_time opts (clk 3) = Inr t)"
| "llm_event_ok opts n (Answer i cancelling outcome clk factory) \<longleftrightarrow>
     i < length (ln_running n) \<and> (\<exists>t. retain_time opts (clk 3) = Inr t)"
| "llm_event_ok opts n (Iterate i m src clk factory) \<longleftrightarrow>
     i < length (ln_running n) \<and> lq_stream (rc_request (ln_running n ! i)) \<and> (\<exists>t. retain_time opts (clk 3) = Inr t)"
| "llm_event_ok opts n (NeverIterated i) \<longleftrightarrow> i < length (ln_running n) \<and> lq_stream (rc_request (ln_running n ! i))"

text \<open>
  The events after which a reservation is resolved: every stream that is handed out is iterated, and the commit of an
  answer that is not streamed does not raise: the expiry time is representable and the id factory finds a free id.
\<close>

definition commit_possible :: "(nat \<Rightarrow> int option) \<Rightarrow> (nat \<Rightarrow> string) \<Rightarrow> reservation \<Rightarrow> context_store \<Rightarrow> bool" where
  "commit_possible clk factory rv s \<longleftrightarrow> (\<exists>x. expiry_for (clk 2) rv = Inr x) \<and> (\<exists>cid. next_context_id factory s = Inr cid)"

fun resolving :: "llm_node \<Rightarrow> llm_event \<Rightarrow> bool" where
  "resolving n (Answer i cancelling outcome clk factory) \<longleftrightarrow>
     commit_possible clk factory (rc_rv (ln_running n ! i)) (ln_store n)
     \<and> (\<forall>f. answer_verdict (ln_running n ! i) cancelling outcome \<noteq> Some (Escapes f))"
| "resolving n (NeverIterated i) \<longleftrightarrow> False"
| "resolving n e \<longleftrightarrow> True"

inductive llm_run :: "canon_hash \<Rightarrow> context_options \<Rightarrow> llm_options \<Rightarrow> (llm_node \<Rightarrow> llm_event \<Rightarrow> bool) \<Rightarrow> llm_node \<Rightarrow> llm_node \<Rightarrow> bool"
  for H opts lo P where
  llm_none: "llm_run H opts lo P n n"
| llm_more: "llm_run H opts lo P n n1 \<Longrightarrow> llm_event_ok opts n1 e \<Longrightarrow> P n1 e \<Longrightarrow> llm_run H opts lo P n (llm_do H opts lo e n1)"

definition llm_start :: llm_node where
  "llm_start = \<lparr>ln_store = empty_store, ln_running = []\<rparr>"

section \<open>Lemmas\<close>

subsection \<open>The store's calls\<close>

text \<open>A call that leaves the reservations as they are.\<close>

definition keeps_reservations :: "context_options \<Rightarrow> reservation dict \<Rightarrow> context_store \<Rightarrow> bool" where
  "keeps_reservations opts rs s \<longleftrightarrow> context_inv opts s \<and> cs_reservations s = rs"

lemma sweep_reservations: "cs_reservations (snd (sweep_at opts clk s)) = cs_reservations s"
  by (cases clk) (auto simp: sweep_at_def clock_now_def st_bind_def sweep_def Let_def split: prod.splits sum.splits)

lemma sweep_keeps_reservations [keeps]: "st_keeps (keeps_reservations opts rs) (sweep_at opts clk)"
  using sweep_keeps [of opts clk] by (simp add: st_keeps_def keeps_reservations_def sweep_reservations)

lemmas reading_keeps_reservations = reading_keeps [OF sweep_keeps_reservations]

lemma release_keeps_reservations: "st_keeps (keeps_reservations opts rs) (release opts c0 c1 c2 ow cid base key)"
proof -
  have "cs_reservations (snd (release_entry opts clk ow cid base s)) = cs_reservations s" for clk s
    by (cases rule: release_entry_run [of opts clk ow cid base s]) simp_all
  then have "st_keeps (\<lambda>s. cs_reservations s = rs) (release opts c0 c1 c2 ow cid base key)"
    unfolding release_def Let_def
    by (intro keeps) (simp_all add: st_keeps_def sweep_reservations)
  then show ?thesis using release_keeps [of opts c0 c1 c2 ow cid base key] by (simp add: st_keeps_def keeps_reservations_def)
qed

text \<open>A call that resolves one reservation.\<close>

definition resolved :: "reservation \<Rightarrow> context_store \<Rightarrow> context_store \<Rightarrow> bool" where
  "resolved rv s s' \<longleftrightarrow> cs_reservations s' = dict_pop (rv_reservation_id rv) (cs_reservations s)"

definition active :: "reservation \<Rightarrow> context_store \<Rightarrow> bool" where
  "active rv s \<longleftrightarrow> dict_get (cs_reservations s) (rv_reservation_id rv) = Some rv"

lemma abort_resolves: "active rv s \<Longrightarrow> resolved rv s (snd (abort opts c0 c1 rv err s))"
  unfolding active_def resolved_def
  by (erule abort_run [where opts = opts and ?c0.0 = c0 and ?c1.0 = c1 and err = err]) (simp_all add: sweep_reservations)

lemma abort_step_run: "snd (abort_step opts c0 c1 rv code s) = snd (abort opts c0 c1 rv (Some code) s)"
  by (simp add: abort_step_def split: prod.splits sum.splits)

lemma abort_then_run: "snd (abort_then opts clk rv code out s) = snd (abort opts (clk 0) (clk 1) rv (Some code) s)"
  by (simp add: abort_then_def abort_step_run [symmetric] split: prod.splits option.splits)

text \<open>A second abort finds nothing to do.\<close>

lemma resolve_run:
  assumes "active rv s" "distinct (map fst (cs_reservations s))"
  shows "snd (resolve_with opts clk rv code out s) = snd (abort opts (clk 4) (clk 5) rv (Some code) s)"
proof -
  obtain r s' where run: "abort_step opts (clk 4) (clk 5) rv code s = (r, s')" by (cases "abort_step opts (clk 4) (clk 5) rv code s")
  then have s': "s' = snd (abort opts (clk 4) (clk 5) rv (Some code) s)" using abort_step_run [of opts "clk 4" "clk 5" rv code s] by simp
  then have "dict_get (cs_reservations s') (rv_reservation_id rv) = None"
    using abort_resolves [OF assms(1), of opts "clk 4" "clk 5" "Some code"] assms(2) by (simp add: resolved_def)
  then have "abort opts (clk 0) (clk 1) rv (Some NODE_UNAVAILABLE) s' = (Inl RuntimeError, s')" by (simp add: inactive_unchanged(2))
  then show ?thesis using run s' by (simp add: resolve_with_def abort_then_run split: option.splits)
qed

lemma commit_resolves:
  assumes inv: "context_inv opts s" and rv: "active rv s" and t: "retain_time opts c1 = Inr t"
    and run: "commit opts c0 c1 factory rv msg s = (Inr receipt, s')"
  shows "resolved rv s s'"
  using commit_run [OF inv _ t run] rv by (auto simp: active_def resolved_def)

lemma commit_fails_unchanged:
  assumes "context_inv opts s" and "active rv s" and "retain_time opts c1 = Inr t"
    and "commit opts c0 c1 factory rv msg s = (Inl e, s')"
  shows "s' = s"
  using commit_run [OF assms(1) _ assms(3,4)] assms(2) by (auto simp: active_def)

lemma commit_succeeds:
  assumes inv: "context_inv opts s" and rv: "active rv s" and t: "retain_time opts (clk 3) = Inr t" and ok: "commit_possible clk factory rv s"
  shows "\<exists>receipt s'. commit opts (clk 2) (clk 3) factory rv msg s = (Inr receipt, s')"
proof -
  obtain r s' where run: "commit opts (clk 2) (clk 3) factory rv msg s = (r, s')" by (cases "commit opts (clk 2) (clk 3) factory rv msg s")
  obtain x cid where x: "expiry_for (clk 2) rv = Inr x" "next_context_id factory s = Inr cid" using ok by (auto simp: commit_possible_def)
  have "r \<noteq> Inl e" for e
  proof
    assume "r = Inl e"
    then have "rv_op rv \<in> {CREATE, FORK}" using commit_run [OF inv _ t run] rv x by (auto simp: active_def)
    then show False using run \<open>r = Inl e\<close> x rv t
      by (auto simp: commit_def commit_new_def rv_op_def st_bind_def require_reservation_def active_def complete_idempotency_def Let_def)
  qed
  then show ?thesis using run by (cases r) auto
qed

subsection \<open>Resolving a reservation\<close>

lemma settle_sync_resolves:
  assumes inv: "context_inv opts s" and rv: "active rv s" and t: "retain_time opts (clk 3) = Inr t"
    and ok: "commit_possible clk factory rv s" and v: "\<And>f. v \<noteq> Escapes f"
  shows "context_inv opts (snd (settle_sync opts clk factory auth rv v s)) \<and> resolved rv s (snd (settle_sync opts clk factory auth rv v s))"
proof -
  have ab: "context_inv opts (snd (abort_then opts clk rv code out s)) \<and> resolved rv s (snd (abort_then opts clk rv code out s))"
    for code and out :: "llm_fail + execution_result"
    unfolding abort_then_run using abort_inv [OF inv] abort_resolves [OF rv] rv by (simp add: active_def)
  show ?thesis
  proof (cases v)
    case (AskCommit response provider_result)
    let ?msg = "assistant_message (lr_content response) (lr_tool_calls response)"
    obtain receipt s' where run: "commit opts (clk 2) (clk 3) factory rv ?msg s = (Inr receipt, s')"
      using commit_succeeds [OF inv rv t ok] by blast
    have "context_inv opts s' \<and> resolved rv s s'"
      using commit_inv [OF inv _ t, of rv "clk 2" factory ?msg] commit_resolves [OF inv rv t run] run rv by (simp add: active_def)
    then show ?thesis using AskCommit run ab by (cases auth) (simp_all add: settle_sync_def)
  qed (use ab v in \<open>simp_all add: settle_sync_def\<close>)
qed

lemma settle_stream_resolves:
  assumes inv: "context_inv opts s" and rv: "active rv s" and t: "retain_time opts (clk 3) = Inr t"
  shows "context_inv opts (snd (settle_stream opts clk factory auth rv e s)) \<and> resolved rv s (snd (settle_stream opts clk factory auth rv e s))"
proof -
  have d: "distinct (map fst (cs_reservations s))" using context_invD(1) [OF inv] by (simp add: keys_distinct_def)
  have ab: "context_inv opts (snd (abort opts c0 c1 rv code s)) \<and> resolved rv s (snd (abort opts c0 c1 rv code s))" for c0 c1 code
    using abort_inv [OF inv] abort_resolves [OF rv] rv by (simp add: active_def)
  show ?thesis
  proof (cases e)
    case (EndCommit f cs msg)
    obtain r s' where run: "commit opts (clk 2) (clk 3) factory rv msg s = (r, s')" by (cases "commit opts (clk 2) (clk 3) factory rv msg s")
    show ?thesis
    proof (cases r)
      case (Inl err)
      then have "s' = s" using commit_fails_unchanged [OF inv rv t] run by simp
      then show ?thesis using EndCommit Inl run ab
        by (cases auth; cases err) (simp_all add: settle_stream_def abort_then_run resolve_run [OF rv d])
    next
      case (Inr receipt)
      have "context_inv opts s' \<and> resolved rv s s'"
        using commit_inv [OF inv _ t, of rv "clk 2" factory msg] commit_resolves [OF inv rv t] run rv Inr by (simp add: active_def)
      then show ?thesis using EndCommit Inr run ab
        by (cases auth) (simp_all add: settle_stream_def abort_then_run resolve_run [OF rv d])
    qed
  qed (use ab in \<open>simp_all add: settle_stream_def abort_then_run resolve_run [OF rv d]\<close>)
qed

subsection \<open>Starting a request\<close>

lemma resolve_binding_keeps:
  assumes k: "keeps_reservations opts rs s" and run: "resolve_binding opts lo clk ow model q x s = (b, s')"
  shows "keeps_reservations opts rs s'"
proof (cases "xr_operation x \<in> {APPEND, FORK} \<and> xr_context_id x \<noteq> None")
  case True
  then obtain cid where cid: "xr_context_id x = Some cid" by blast
  obtain r s1 where sn: "snapshot opts clk ow cid s = (r, s1)" by (cases "snapshot opts clk ow cid s")
  have "s' = s1" using run True cid sn by (cases r) (auto simp: resolve_binding_def)
  then show ?thesis using st_keepsD [OF reading_keeps_reservations(2) k sn] by simp
next
  case False
  then show ?thesis using run k by (auto simp: resolve_binding_def split: if_splits)
qed

lemma reserve_completion_run:
  assumes inv: "context_inv opts s" and fresh: "dict_get (cs_reservations s) rid = None" and t: "retain_time opts (clk 3) = Inr t"
    and run: "reserve_completion H opts lo clk rid frame ow model q x s = (res, s')"
  shows "context_inv opts s' \<and> (case res of
      Inr (Waiting q ow rv) \<Rightarrow> rv_reservation_id rv = rid \<and> cs_reservations s' = dict_set rid rv (cs_reservations s)
    | _ \<Rightarrow> cs_reservations s' = cs_reservations s)"
proof -
  obtain b s1 where b: "resolve_binding opts lo (clk 0) ow model q x s = (b, s1)" by (cases "resolve_binding opts lo (clk 0) ow model q x s")
  have "keeps_reservations opts (cs_reservations s) s1"
    by (rule resolve_binding_keeps [OF _ b]) (use inv in \<open>simp add: keeps_reservations_def\<close>)
  then have inv1: "context_inv opts s1" and rs: "cs_reservations s1 = cs_reservations s" by (simp_all add: keeps_reservations_def)
  show ?thesis
  proof (cases "\<exists>binding m. b = Inr binding \<and> mutation_of frame ow binding q x = Inr m")
    case False
    then show ?thesis using run b inv1 rs by (auto simp: reserve_completion_def split: sum.splits)
  next
    case True
    then obtain binding m where m: "b = Inr binding" "mutation_of frame ow binding q x = Inr m" by blast
    obtain r s2 where r: "reserve H opts (clk 1) (clk 2) (clk 3) rid m s1 = (r, s2)" by (cases "reserve H opts (clk 1) (clk 2) (clk 3) rid m s1")
    have "context_inv opts s2"
      using context_do_inv [OF inv1, of "Reserve (clk 1) (clk 2) (clk 3) rid m" H] fresh t rs r by auto
    moreover from r t have "case r of Inl e \<Rightarrow> cs_reservations s2 = cs_reservations s1
      | Inr rv \<Rightarrow> rv_reservation_id rv = rid \<and> cs_reservations s2 = dict_set rid rv (cs_reservations s1)"
    proof (cases rule: reserve_run)
      case (refused e y s3)
      then show ?thesis using sweep_reservations [of opts "clk 1" s1] by simp
    next
      case (reserved rv y s3)
      then show ?thesis using sweep_reservations [of opts "clk 1" s1] by (simp add: granted_def)
    qed
    ultimately show ?thesis using run b m r rs by (auto simp: reserve_completion_def split: sum.splits)
  qed
qed

lemma execute_begin_run:
  assumes inv: "context_inv opts s" and fresh: "dict_get (cs_reservations s) rid = None" and t: "retain_time opts (clk 3) = Inr t"
    and run: "execute_begin H opts lo clk rid frame ctx s = (res, s')"
  shows "context_inv opts s' \<and> (case res of
      Inr (Waiting q ow rv) \<Rightarrow> rv_reservation_id rv = rid \<and> cs_reservations s' = dict_set rid rv (cs_reservations s)
    | _ \<Rightarrow> cs_reservations s' = cs_reservations s)"
proof -
  have k: "keeps_reservations opts (cs_reservations s) s" using inv by (simp add: keeps_reservations_def)
  have st: "keeps_reservations opts (cs_reservations s) s'" if "status opts c0 c1 ow cid key s = (r, s')" for c0 c1 ow cid key r s'
    by (rule st_keepsD [OF reading_keeps_reservations(1) k that])
  have rl: "keeps_reservations opts (cs_reservations s) s'" if "release opts c0 c1 c2 ow cid base key s = (r, s')" for c0 c1 c2 ow cid base key r s'
    by (rule st_keepsD [OF release_keeps_reservations k that])
  show ?thesis
  proof (cases "af_action_id frame = LLM_COMPLETE")
    case True
    then have c: "complete_begin H opts lo clk rid frame ctx s = (res, s')" using run by (simp add: execute_begin_def)
    show ?thesis
    proof (cases "\<exists>q model x ow. complete_checks lo frame = Inr (q, model, Some x) \<and> owner_of lo ctx = Inr ow")
      case True
      then obtain q model x ow where "reserve_completion H opts lo clk rid frame ow model q x s = (res, s')"
        using c by (auto simp: complete_begin_def)
      then show ?thesis by (rule reserve_completion_run [where clk = clk, OF inv fresh t])
    next
      case False
      then show ?thesis using c inv by (auto simp: complete_begin_def split: sum.splits option.splits)
    qed
  next
    case False
    then show ?thesis
      using run inv
      by (auto simp: execute_begin_def status_action_def release_action_def split: if_splits sum.splits prod.splits pyval.splits
          dest!: st rl simp: keeps_reservations_def)
  qed
qed

subsection \<open>Accounting\<close>

text \<open>The reservations of the store are those of the running calls.\<close>

definition accounted :: "context_options \<Rightarrow> llm_node \<Rightarrow> bool" where
  "accounted opts n \<longleftrightarrow>
     context_inv opts (ln_store n) \<and> distinct (map (\<lambda>c. rv_reservation_id (rc_rv c)) (ln_running n))
     \<and> (\<forall>rid rv. dict_get (cs_reservations (ln_store n)) rid = Some rv \<longleftrightarrow>
          (\<exists>c \<in> set (ln_running n). rc_rv c = rv \<and> rv_reservation_id rv = rid))"

lemma without_distinct:
  assumes d: "distinct (map f xs)" and i: "i < length xs"
  shows "distinct (map f (without i xs)) \<and> set (without i xs) = {x \<in> set xs. f x \<noteq> f (xs ! i)}"
proof -
  define ys zs where yz: "ys = take i xs" "zs = drop (Suc i) xs"
  have xs: "xs = ys @ xs ! i # zs" unfolding yz using i by (rule id_take_nth_drop)
  have "distinct (map f (ys @ xs ! i # zs))" using d xs by simp
  then have dis: "distinct (map f ys @ map f zs)" "f (xs ! i) \<notin> f ` set ys" "f (xs ! i) \<notin> f ` set zs" by auto
  have "set xs = insert (xs ! i) (set ys \<union> set zs)" by (subst xs) simp
  moreover have "f x \<noteq> f (xs ! i)" if "x \<in> set ys \<union> set zs" for x using dis(2,3) that by (metis Un_iff image_eqI)
  ultimately have "{x \<in> set xs. f x \<noteq> f (xs ! i)} = set ys \<union> set zs" by auto
  then show ?thesis using dis(1) by (simp add: without_def yz)
qed

lemma running_active: "accounted opts n \<Longrightarrow> c \<in> set (ln_running n) \<Longrightarrow> active (rc_rv c) (ln_store n)"
  by (auto simp: accounted_def active_def)

lemma accounted_resolved:
  assumes a: "accounted opts n" and i: "i < length (ln_running n)"
    and s': "context_inv opts s'" "resolved (rc_rv (ln_running n ! i)) (ln_store n) s'"
  shows "accounted opts (n\<lparr>ln_store := s', ln_running := without i (ln_running n)\<rparr>)"
proof -
  have d: "distinct (map (\<lambda>c. rv_reservation_id (rc_rv c)) (ln_running n))" using a by (simp add: accounted_def)
  have "keys_distinct (ln_store n)" using a context_invD(1) by (auto simp: accounted_def)
  then have "dict_get (cs_reservations s') rid = (if rid = rv_reservation_id (rc_rv (ln_running n ! i)) then None
      else dict_get (cs_reservations (ln_store n)) rid)" for rid
    using s'(2) by (simp add: resolved_def keys_distinct_def)
  then have "dict_get (cs_reservations s') rid = Some rv \<longleftrightarrow>
      (\<exists>c \<in> set (without i (ln_running n)). rc_rv c = rv \<and> rv_reservation_id rv = rid)" for rid rv
    using a without_distinct [OF d i] by (auto simp: accounted_def)
  then show ?thesis using a s'(1) without_distinct [OF d i] by (simp add: accounted_def)
qed

lemma accounted_reserved:
  assumes a: "accounted opts n" and fresh: "dict_get (cs_reservations (ln_store n)) (rv_reservation_id (rc_rv c)) = None"
    and s': "context_inv opts s'" "cs_reservations s' = dict_set (rv_reservation_id (rc_rv c)) (rc_rv c) (cs_reservations (ln_store n))"
  shows "accounted opts (n\<lparr>ln_store := s', ln_running := ln_running n @ [c]\<rparr>)"
proof -
  have new: "rv_reservation_id (rc_rv c') \<noteq> rv_reservation_id (rc_rv c)" if "c' \<in> set (ln_running n)" for c'
    using running_active [OF a that] fresh by (auto simp: active_def)
  have "dict_get (cs_reservations s') rid = Some rv \<longleftrightarrow>
      (\<exists>c' \<in> set (ln_running n @ [c]). rc_rv c' = rv \<and> rv_reservation_id rv = rid)" for rid rv
  proof (cases "rid = rv_reservation_id (rc_rv c)")
    case True
    then show ?thesis using new by (auto simp: s'(2))
  next
    case False
    then show ?thesis using a by (auto simp: s'(2) accounted_def)
  qed
  then show ?thesis using a s'(1) new by (simp add: accounted_def image_iff) metis
qed

lemma llm_do_accounted:
  assumes a: "accounted opts n" and ok: "llm_event_ok opts n e" and r: "resolving n e"
  shows "accounted opts (llm_do H opts lo e n)"
proof -
  have inv: "context_inv opts (ln_store n)" using a by (simp add: accounted_def)
  show ?thesis
  proof (cases e)
    case (Begin clk rid frame ctx)
    then obtain t where t: "retain_time opts (clk 3) = Inr t" and fresh: "dict_get (cs_reservations (ln_store n)) rid = None" using ok by auto
    obtain res s' where run: "execute_begin H opts lo clk rid frame ctx (ln_store n) = (res, s')"
      by (cases "execute_begin H opts lo clk rid frame ctx (ln_store n)")
    note b = execute_begin_run [where clk = clk, OF inv fresh t run]
    show ?thesis
    proof (cases "\<exists>q ow rv. res = Inr (Waiting q ow rv)")
      case True
      then obtain q ow rv where w: "res = Inr (Waiting q ow rv)" by blast
      let ?c = "\<lparr>rc_frame = frame, rc_context = ctx, rc_request = q, rc_owner = ow, rc_rv = rv\<rparr>"
      have "accounted opts (n\<lparr>ln_store := s', ln_running := ln_running n @ [?c]\<rparr>)"
        using b w fresh by (intro accounted_reserved [OF a]) auto
      then show ?thesis using Begin run w by simp
    next
      case False
      then have "cs_reservations s' = cs_reservations (ln_store n)" using b by (auto split: sum.splits llm_begun.splits)
      moreover have "llm_do H opts lo e n = n\<lparr>ln_store := s'\<rparr>" using Begin run False by (auto split: sum.splits llm_begun.splits)
      ultimately show ?thesis using a b by (simp add: accounted_def)
    qed
  next
    case (Answer i cancelling outcome clk factory)
    then have i: "i < length (ln_running n)" using ok by simp
    show ?thesis
    proof (cases "answer_verdict (ln_running n ! i) cancelling outcome")
      case None
      then show ?thesis using Answer a by simp
    next
      case (Some v)
      obtain u where u: "retain_time opts (clk 3) = Inr u" using ok Answer by auto
      have p: "commit_possible clk factory (rc_rv (ln_running n ! i)) (ln_store n)" "\<And>f. v \<noteq> Escapes f" using r Answer Some by auto
      note settle_sync_resolves [where clk = clk, OF inv running_active [OF a nth_mem [OF i]] u p]
      then show ?thesis using Answer Some accounted_resolved [OF a i] by (simp add: Let_def)
    qed
  next
    case (Iterate i m src clk factory)
    then have i: "i < length (ln_running n)" using ok by simp
    obtain u where u: "retain_time opts (clk 3) = Inr u" using ok Iterate by auto
    note settle_stream_resolves [where clk = clk, OF inv running_active [OF a nth_mem [OF i]] u]
    then show ?thesis using Iterate accounted_resolved [OF a i] by (simp add: Let_def)
  qed (use r in simp)
qed

lemma llm_run_accounted:
  assumes "llm_run H opts lo resolving n n'" and "accounted opts n"
  shows "accounted opts n'"
  using assms by (induction rule: llm_run.induct) (simp_all add: llm_do_accounted)

lemma start_accounted: "accounted opts llm_start"
  using empty_inv [of opts] by (simp add: accounted_def llm_start_def empty_store_def)

subsection \<open>Runs in which a reservation may be lost\<close>

definition covered :: "context_options \<Rightarrow> llm_node \<Rightarrow> bool" where
  "covered opts n \<longleftrightarrow>
     context_inv opts (ln_store n) \<and> distinct (map (\<lambda>c. rv_reservation_id (rc_rv c)) (ln_running n))
     \<and> (\<forall>c \<in> set (ln_running n). active (rc_rv c) (ln_store n))"

text \<open>An orphan is a reservation in the store that no running call will resolve.\<close>

definition orphan :: "reservation \<Rightarrow> llm_node \<Rightarrow> bool" where
  "orphan rv n \<longleftrightarrow> active rv (ln_store n) \<and> (\<forall>c \<in> set (ln_running n). rv_reservation_id (rc_rv c) \<noteq> rv_reservation_id rv)"

lemma settle_sync_safe:
  assumes inv: "context_inv opts s" and rv: "active rv s" and t: "retain_time opts (clk 3) = Inr t"
  shows "context_inv opts (snd (settle_sync opts clk factory auth rv v s))
    \<and> (resolved rv s (snd (settle_sync opts clk factory auth rv v s)) \<or> snd (settle_sync opts clk factory auth rv v s) = s)"
proof -
  have ab: "context_inv opts (snd (abort_then opts clk rv code out s)) \<and> resolved rv s (snd (abort_then opts clk rv code out s))"
    for code and out :: "llm_fail + execution_result"
    unfolding abort_then_run using abort_inv [OF inv] abort_resolves [OF rv] rv by (simp add: active_def)
  have "context_inv opts s' \<and> (resolved rv s s' \<or> s' = s)"
    if run: "commit opts (clk 2) (clk 3) factory rv msg s = (r, s')" for msg r s'
    using commit_inv [OF inv _ t, of rv "clk 2" factory msg] rv run commit_resolves [OF inv rv t] commit_fails_unchanged [OF inv rv t]
    by (cases r) (auto simp: active_def)
  then have cm: "context_inv opts (snd (settle_sync opts clk factory None rv (AskCommit response r) s))
      \<and> (resolved rv s (snd (settle_sync opts clk factory None rv (AskCommit response r) s))
         \<or> snd (settle_sync opts clk factory None rv (AskCommit response r) s) = s)" for response r
    by (simp add: settle_sync_def split: prod.splits sum.splits)
  show ?thesis
  proof (cases v)
    case (AskCommit response r)
    then show ?thesis using ab cm [of response r] by (cases auth) (simp_all add: settle_sync_def)
  qed (use ab inv in \<open>simp_all add: settle_sync_def\<close>)
qed

text \<open>A commit that raises leaves the reservation of an answer that is not streamed in the store.\<close>

lemma failed_commit_keeps_reservation:
  assumes "context_inv opts s" and "active rv s" and "retain_time opts (clk 3) = Inr t"
    and "commit opts (clk 2) (clk 3) factory rv (assistant_message (lr_content response) (lr_tool_calls response)) s = (Inl e, s')"
  shows "settle_sync opts clk factory None rv (AskCommit response r) s = (Inl (store_error e), s)"
  using commit_fails_unchanged [OF assms] assms(4) by (simp add: settle_sync_def)

lemma covered_dropped:
  assumes n: "covered opts n" and i: "i < length (ln_running n)" and inv: "context_inv opts s'"
    and s': "resolved (rc_rv (ln_running n ! i)) (ln_store n) s' \<or> s' = ln_store n"
  shows "covered opts (n\<lparr>ln_store := s', ln_running := without i (ln_running n)\<rparr>)
    \<and> (orphan rv n \<longrightarrow> orphan rv (n\<lparr>ln_store := s', ln_running := without i (ln_running n)\<rparr>))"
proof -
  let ?rid = "rv_reservation_id (rc_rv (ln_running n ! i))"
  have d: "distinct (map (\<lambda>c. rv_reservation_id (rc_rv c)) (ln_running n))" using n by (simp add: covered_def)
  have "keys_distinct (ln_store n)" using n context_invD(1) by (auto simp: covered_def)
  then have other: "active r s'" if "active r (ln_store n)" "rv_reservation_id r \<noteq> ?rid" for r
    using s' that by (auto simp: resolved_def keys_distinct_def active_def)
  have "orphan rv (n\<lparr>ln_store := s', ln_running := without i (ln_running n)\<rparr>)" if o: "orphan rv n"
    using o other [of rv] nth_mem [OF i] without_distinct [OF d i] by (fastforce simp: orphan_def)
  then show ?thesis using n inv other without_distinct [OF d i] by (auto simp: covered_def)
qed

lemma covered_reserved:
  assumes n: "covered opts n" and fresh: "dict_get (cs_reservations (ln_store n)) (rv_reservation_id (rc_rv c)) = None"
    and inv: "context_inv opts s'" and s': "cs_reservations s' = dict_set (rv_reservation_id (rc_rv c)) (rc_rv c) (cs_reservations (ln_store n))"
  shows "covered opts (n\<lparr>ln_store := s', ln_running := ln_running n @ [c]\<rparr>)
    \<and> (orphan rv n \<longrightarrow> orphan rv (n\<lparr>ln_store := s', ln_running := ln_running n @ [c]\<rparr>))"
proof -
  have other: "active r s' \<and> rv_reservation_id r \<noteq> rv_reservation_id (rc_rv c)" if "active r (ln_store n)" for r
    using that fresh by (auto simp: active_def s')
  moreover have "active (rc_rv c) s'" by (simp add: active_def s')
  moreover have "rv_reservation_id (rc_rv c) \<notin> (\<lambda>c. rv_reservation_id (rc_rv c)) ` set (ln_running n)"
    using n other by (metis (no_types, lifting) covered_def imageE)
  ultimately have "covered opts (n\<lparr>ln_store := s', ln_running := ln_running n @ [c]\<rparr>)" using n inv by (auto simp: covered_def)
  moreover have "orphan rv (n\<lparr>ln_store := s', ln_running := ln_running n @ [c]\<rparr>)" if "orphan rv n"
    using that other [of rv] unfolding orphan_def by simp metis
  ultimately show ?thesis by blast
qed

lemma llm_do_covered:
  assumes n: "covered opts n" and ok: "llm_event_ok opts n e"
  shows "covered opts (llm_do H opts lo e n) \<and> (orphan rv n \<longrightarrow> orphan rv (llm_do H opts lo e n))"
proof -
  have inv: "context_inv opts (ln_store n)" using n by (simp add: covered_def)
  have act: "active (rc_rv (ln_running n ! i)) (ln_store n)" if "i < length (ln_running n)" for i using n that by (simp add: covered_def)
  show ?thesis
  proof (cases e)
    case (Begin clk rid frame ctx)
    then obtain t where t: "retain_time opts (clk 3) = Inr t" and fresh: "dict_get (cs_reservations (ln_store n)) rid = None" using ok by auto
    obtain res s' where run: "execute_begin H opts lo clk rid frame ctx (ln_store n) = (res, s')"
      by (cases "execute_begin H opts lo clk rid frame ctx (ln_store n)")
    note b = execute_begin_run [where clk = clk, OF inv fresh t run]
    show ?thesis
    proof (cases "\<exists>q ow rv. res = Inr (Waiting q ow rv)")
      case True
      then obtain q ow r where w: "res = Inr (Waiting q ow r)" by blast
      let ?c = "\<lparr>rc_frame = frame, rc_context = ctx, rc_request = q, rc_owner = ow, rc_rv = r\<rparr>"
      have do: "llm_do H opts lo e n = n\<lparr>ln_store := s', ln_running := ln_running n @ [?c]\<rparr>" using Begin run w by simp
      show ?thesis unfolding do using b w fresh by (intro covered_reserved [OF n]) auto
    next
      case False
      then have "cs_reservations s' = cs_reservations (ln_store n)" using b by (auto split: sum.splits llm_begun.splits)
      moreover have "llm_do H opts lo e n = n\<lparr>ln_store := s'\<rparr>" using Begin run False by (auto split: sum.splits llm_begun.splits)
      ultimately show ?thesis using n b by (simp add: covered_def orphan_def active_def)
    qed
  next
    case (Answer i cancelling outcome clk factory)
    then obtain u where i: "i < length (ln_running n)" and u: "retain_time opts (clk 3) = Inr u" using ok by auto
    note s = settle_sync_safe [where clk = clk, OF inv act [OF i] u]
    show ?thesis using Answer n covered_dropped [OF n i, of _ rv] s
      by (cases "answer_verdict (ln_running n ! i) cancelling outcome") (simp_all add: Let_def)
  next
    case (Iterate i m src clk factory)
    then obtain u where i: "i < length (ln_running n)" and u: "retain_time opts (clk 3) = Inr u" using ok by auto
    note s = settle_stream_resolves [where clk = clk, OF inv act [OF i] u]
    show ?thesis using Iterate covered_dropped [OF n i, of _ rv] s by (simp add: Let_def)
  next
    case (NeverIterated i)
    then show ?thesis using ok covered_dropped [OF n _ inv, of i rv] by simp
  qed
qed

lemma llm_run_covered:
  assumes "llm_run H opts lo P n n'" and "covered opts n"
  shows "covered opts n' \<and> (orphan rv n \<longrightarrow> orphan rv n')"
  using assms
proof (induction rule: llm_run.induct)
  case (llm_more n n1 e)
  then show ?case using llm_do_covered [of opts n1 e H lo rv] by simp
qed simp

lemma start_covered: "covered opts llm_start"
  using empty_inv [of opts] by (simp add: covered_def llm_start_def)

text \<open>A context that is held refuses every further mutation.\<close>

lemma held_refuses:
  assumes inv: "context_inv opts s" and rv: "active rv s" "rv_op rv \<in> {APPEND, RESET}" and m: "context_id_of m = rv_cid rv" "mr_operation m \<noteq> CREATE"
    and t: "retain_time opts c2 = Inr t" and run: "reserve H opts c0 c1 c2 rid m s = (res, s')"
  shows "\<exists>e. res = Inl e"
  using run t
proof (cases rule: reserve_run)
  case (reserved r y s1)
  have "swept s s1" using context_invD(1) [OF inv] sweep_at_swept [OF _ _ reserved(2)] by (simp add: keys_distinct_def)
  then have "context_inv opts s1" "active rv s1" using swept_inv [OF inv] rv(1) by (auto simp: swept_def active_def)
  then have "holds_context s1 rv" using context_invD(4) rv(2) by (auto simp: active_def reservation_ok_def)
  then show ?thesis using reserved(3) m by (auto simp: granted_def require_mutable_Inr holds_context_def)
qed simp

subsection \<open>Content\<close>

text \<open>No context appears, and none changes its owner, version, transcript or binding.\<close>

definition content_frozen :: "context_store \<Rightarrow> context_store \<Rightarrow> bool" where
  "content_frozen s s' \<longleftrightarrow>
     (\<forall>cid e'. dict_get (cs_contexts s') cid = Some e' \<longrightarrow> (\<exists>e. dict_get (cs_contexts s) cid = Some e \<and> same_content e e'))"

lemma content_frozen_refl: "content_frozen s s"
  by (auto simp: content_frozen_def)

lemma abort_freezes:
  assumes inv: "context_inv opts s"
  shows "content_frozen s (snd (abort opts c0 c1 rv err s))"
proof (cases "active rv s")
  case True
  have d: "keys_distinct s" using context_invD(1) [OF inv] .
  have dom: "dict_get (cs_contexts (clear_reservation rv s)) cid = None" if "dict_get (cs_contexts s) cid = None" for cid
    using that by (auto simp: clear_reservation_def Let_def split: option.splits)
  have one: "dict_get (cs_contexts (snd (abort opts c0 c1 rv err s))) cid = None" if c: "dict_get (cs_contexts s) cid = None" for cid
    using True unfolding active_def
  proof (cases rule: abort_run [where opts = opts and ?c0.0 = c0 and ?c1.0 = c1 and err = err])
    case 1
    then show ?thesis using dom [OF c] by simp
  next
    case (2 i)
    let ?s1 = "set_outcome (complete_key (rv_request rv)) i (drop_reservation rv (clear_reservation rv s))"
    have "distinct (map fst (cs_contexts ?s1))" "distinct (map fst (cs_idempotency ?s1))"
      using d by (auto simp: keys_distinct_def clear_reservation_def Let_def distinct_dict_set split: option.splits)
    then have "swept ?s1 (snd (sweep_at opts c1 ?s1))" by (rule sweep_at_swept [OF _ _ prod.collapse [symmetric]])
    then show ?thesis using 2 dom [OF c] by (fastforce simp: swept_def)
  qed
  then show ?thesis using abort_content [OF inv] by (metis content_frozen_def option.exhaust)
next
  case False
  then show ?thesis using inactive_unchanged(2) [of s rv opts c0 c1 err] by (simp add: active_def content_frozen_refl)
qed

lemma refused_settle_freezes:
  assumes inv: "context_inv opts s" and rv: "active rv s"
  shows "content_frozen s (snd (settle_sync opts clk factory (Some f) rv v s))"
    and "content_frozen s (snd (settle_stream opts clk factory (Some f) rv e s))"
proof -
  have d: "distinct (map fst (cs_reservations s))" using context_invD(1) [OF inv] by (simp add: keys_distinct_def)
  note run = abort_then_run resolve_run [OF rv d] abort_freezes [OF inv] content_frozen_refl
  show "content_frozen s (snd (settle_sync opts clk factory (Some f) rv v s))" by (cases v) (simp_all add: settle_sync_def run)
  show "content_frozen s (snd (settle_stream opts clk factory (Some f) rv e s))" by (cases e) (simp_all add: settle_stream_def run)
qed

subsection \<open>Streams\<close>

text \<open>A frame of a well-formed stream before its terminal frame, with its chunks.\<close>

definition delta_frame :: "stream_frame \<Rightarrow> complete_chunk list \<Rightarrow> bool" where
  "delta_frame f cs \<longleftrightarrow> str_data f = map wire_chunk cs \<and> \<not> str_is_last f \<and> \<not> list_ex terminal_only cs"

definition closing_frame :: "stream_frame \<Rightarrow> complete_chunk list \<Rightarrow> bool" where
  "closing_frame f cs \<longleftrightarrow>
     str_data f = map wire_chunk cs \<and> str_is_last f \<and> str_error_code f = PNone
     \<and> list_ex (\<lambda>c. ck_stop_reason c \<noteq> None) cs \<and> \<not> list_ex (\<lambda>c. ck_stop_reason c = Some STOP_ERROR \<or> ck_error c \<noteq> PNone) cs"

lemma deltas_append [simp]: "deltas (a @ b) = deltas a @ deltas b" "chunk_calls (a @ b) = chunk_calls a @ chunk_calls b"
  "deltas [] = []" "chunk_calls [] = []"
  by (simp_all add: deltas_def chunk_calls_def)

lemma sanitized_stops [simp]:
  "list_ex (\<lambda>c. ck_stop_reason c \<noteq> None) (sanitized cs) = list_ex (\<lambda>c. ck_stop_reason c \<noteq> None) cs"
  "list_ex (\<lambda>c. ck_stop_reason c = Some STOP_ERROR \<or> ck_error c \<noteq> PNone) (sanitized cs)
     = list_ex (\<lambda>c. ck_stop_reason c = Some STOP_ERROR \<or> ck_error c \<noteq> PNone) cs"
  by (simp_all add: sanitized_def list_ex_iff)

lemma coordinate_stream:
  assumes "list_all2 delta_frame fs css" and "length fs \<le> n" and "closing_frame f cs"
  shows "snd (coordinate n fin content calls (fs @ f # rest)) =
    EndCommit f (sanitized cs) (assistant_message (nonempty (content @ deltas (concat css @ cs))) (nonempty (calls @ chunk_calls (concat css @ cs))))"
  using assms
proof (induction arbitrary: n content calls rule: list_all2_induct)
  case Nil
  then show ?case by (simp add: closing_frame_def res_map_comp terminal_ending_def Let_def del: not_None_eq)
next
  case (Cons x xs y ys)
  then obtain m where n: "n = Suc m" "length xs \<le> m" by (cases n) auto
  show ?case using Cons.hyps(1) Cons.IH [OF n(2) Cons.prems(2)]
    by (simp add: n(1) delta_frame_def res_map_comp Let_def case_prod_beta)
qed

subsection \<open>A run\<close>

definition ex_clk :: "nat \<Rightarrow> int option" where "ex_clk i = Some 10"

text \<open>The authorizer refuses to commit streams.\<close>

definition ex_llm_options :: llm_options where
  "ex_llm_options = \<lparr>lo_security_scope = ''s'', lo_runtime_revision = ''1'', lo_provider_name = None, lo_default_model = None,
     lo_supports_tools = False, lo_supports_stream = True, lo_supports_json_mode = False, lo_reasoning_visibility = None,
     lo_authorizer = Some (\<lambda>ow action_id stage caps ctx. if stage = COMMIT \<and> CAPABILITY_LLM_STREAM \<in> set caps
                             then Some (exec_error 403 ''NPS-AUTH-FORBIDDEN'' LLM_CONTEXT_FORBIDDEN) else None)\<rparr>"

definition ex_complete :: "context_operation \<Rightarrow> bool \<Rightarrow> complete_request" where
  "ex_complete op stream = \<lparr>lq_model = PStr ''m'', lq_messages = [ex_msg ''user''], lq_kind = PStr LLM_COMPLETE, lq_max_tokens = PNone,
     lq_stream = stream, lq_tools = None,
     lq_context = Some \<lparr>xr_operation = op, xr_context_id = (if op = CREATE then None else Some ex_cid),
                        xr_base_version = (if op = CREATE then None else Some 1), xr_ttl_seconds = None\<rparr>\<rparr>"

definition ex_llm_context :: action_context where
  "ex_llm_context = \<lparr>ac_agent_nid = Some ''urn:nps:agent:a:1'', ac_request_id = PNone, ac_spec = complete_spec None, ac_timeout_ms = 5000,
     ac_priority = PNone, ac_task_id = None, ac_wire_input_bytes = 0\<rparr>"

definition ex_response :: complete_response where
  "ex_response = \<lparr>lr_stop_reason = END_TURN, lr_content = Some ''hello'', lr_tool_calls = None, lr_error = PNone, lr_usage = None, lr_context = None\<rparr>"

definition ex_provided :: execution_result where
  "ex_provided = \<lparr>er_result = wire_response ex_response, er_stream = None, er_anchor_ref = None, er_token_est = 0\<rparr>"

definition ex_llm_events :: "llm_event list" where
  "ex_llm_events =
     [Begin ex_clk ''r1'' (to_action_frame (ex_complete CREATE False) (PStr ''k1'') 5000 False PNone) ex_llm_context,
      Answer 0 False (InnerReturns ex_provided) ex_clk (\<lambda>i. ex_cid),
      Begin ex_clk ''r2'' (to_action_frame (ex_complete APPEND True) (PStr ''k2'') 5000 False PNone) ex_llm_context]"

definition ex_llm_nodes :: "nat \<Rightarrow> llm_node" where
  "ex_llm_nodes i = fold (llm_do ex_hash ex_ctx_opts ex_llm_options) (take i ex_llm_events) llm_start"

lemma ex_clock: "retain_time ex_ctx_opts (ex_clk i) = Inr 86400000010"
  by (simp add: ex_clk_def retain_time_def clock_now_def time_plus_def ex_ctx_opts_def MAX_TIME_def)

lemma llm_run_fold:
  "llm_run H opts lo P n0 n \<Longrightarrow>
   (\<And>i. i < length es \<Longrightarrow> llm_event_ok opts (fold (llm_do H opts lo) (take i es) n) (es ! i)
      \<and> P (fold (llm_do H opts lo) (take i es) n) (es ! i)) \<Longrightarrow>
   llm_run H opts lo P n0 (fold (llm_do H opts lo) es n)"
proof (induction es arbitrary: n)
  case (Cons e es)
  have "llm_event_ok opts n e \<and> P n e" using Cons.prems(2) [of 0] by simp
  then have "llm_run H opts lo P n0 (llm_do H opts lo e n)" using Cons.prems(1) by (blast intro: llm_run.llm_more)
  moreover have "llm_event_ok opts (fold (llm_do H opts lo) (take i es) (llm_do H opts lo e n)) (es ! i)
      \<and> P (fold (llm_do H opts lo) (take i es) (llm_do H opts lo e n)) (es ! i)" if "i < length es" for i
    using Cons.prems(2) [of "Suc i"] that by simp
  ultimately show ?case using Cons.IH by simp
qed simp

lemma ex_llm_run: "llm_run ex_hash ex_ctx_opts ex_llm_options resolving llm_start (ex_llm_nodes 3)"
proof -
  have "llm_event_ok ex_ctx_opts (ex_llm_nodes i) (ex_llm_events ! i) \<and> resolving (ex_llm_nodes i) (ex_llm_events ! i)"
    if "i < length ex_llm_events" for i
  proof -
    from that consider "i = 0" | "i = 1" | "i = 2" by (auto simp: ex_llm_events_def less_Suc_eq)
    then show ?thesis
    proof cases
      case 1
      have "dict_get (cs_reservations (ln_store (ex_llm_nodes 0))) ''r1'' = None" by code_simp
      then show ?thesis using 1 ex_clock by (simp add: ex_llm_events_def)
    next
      case 2
      let ?n = "ex_llm_nodes 1"
      have "length (ln_running ?n) = 1" by code_simp
      moreover have "expiry_for (ex_clk 2) (rc_rv (ln_running ?n ! 0)) = Inr (Some 3600000010)" by code_simp
      moreover have "next_context_id (\<lambda>i. ex_cid) (ln_store ?n) = Inr ex_cid" by code_simp
      moreover have "answer_verdict (ln_running ?n ! 0) False (InnerReturns ex_provided) = Some (AskCommit ex_response ex_provided)" by code_simp
      ultimately show ?thesis using 2 ex_clock by (simp add: ex_llm_events_def commit_possible_def)
    next
      case 3
      have "dict_get (cs_reservations (ln_store (ex_llm_nodes 2))) ''r2'' = None" by code_simp
      then show ?thesis using 3 ex_clock by (simp add: ex_llm_events_def numeral_2_eq_2)
    qed
  qed
  then have "llm_run ex_hash ex_ctx_opts ex_llm_options resolving llm_start (fold (llm_do ex_hash ex_ctx_opts ex_llm_options) ex_llm_events llm_start)"
    by (intro llm_run_fold llm_run.llm_none) (simp add: ex_llm_nodes_def)
  then show ?thesis by (simp add: ex_llm_nodes_def ex_llm_events_def)
qed

lemma ex_llm_call:
  "length (ln_running (ex_llm_nodes 3)) = 1" "lq_stream (rc_request (ln_running (ex_llm_nodes 3) ! 0))"
  "mr_operation (rv_request (rc_rv (ln_running (ex_llm_nodes 3) ! 0))) = APPEND"
  "context_id_of (rv_request (rc_rv (ln_running (ex_llm_nodes 3) ! 0))) = ex_cid"
  "map_option (\<lambda>e. (ce_reservation_id e, ce_version e)) (dict_get (cs_contexts (ln_store (ex_llm_nodes 3))) ex_cid) = Some (Some ''r2'', 1)"
  "rc_auth ex_llm_options (ln_running (ex_llm_nodes 3) ! 0) = Some (exec_error 403 ''NPS-AUTH-FORBIDDEN'' LLM_CONTEXT_FORBIDDEN)"
  by code_simp+

definition ex_piece :: "string \<Rightarrow> stop_reason option \<Rightarrow> complete_chunk" where
  "ex_piece text stop = \<lparr>ck_content_delta = Some text, ck_tool_calls = None, ck_stop_reason = stop, ck_error = PNone, ck_usage = None, ck_context = None\<rparr>"

definition ex_stream_frame :: "int \<Rightarrow> complete_chunk \<Rightarrow> bool \<Rightarrow> stream_frame" where
  "ex_stream_frame seq c fin = \<lparr>str_stream_id = PStr ''x'', str_seq = seq, str_is_last = fin, str_data = [wire_chunk c], str_anchor_ref = PNone,
     str_window_size = PNone, str_error_code = PNone\<rparr>"

definition ex_llm_stream :: stream_source where
  "ex_llm_stream = \<lparr>so_frames = [ex_stream_frame 0 (ex_piece ''hel'' None) False, ex_stream_frame 1 (ex_piece ''lo'' (Some END_TURN)) True], so_end = Ends\<rparr>"

section \<open>Properties\<close>

text \<open>
  C13: in every run in which streams that are handed out are iterated and commits are possible, the reservations of the
  store are exactly those of the running completions, whatever the provider, the authorizer and the consumers
  of streams do: a context is held only by a completion that is still running.
\<close>

theorem reservations_accounted:
  assumes "llm_run H opts lo resolving llm_start n"
  shows "(dict_get (cs_reservations (ln_store n)) rid = Some rv \<longleftrightarrow>
          (\<exists>c \<in> set (ln_running n). rc_rv c = rv \<and> rv_reservation_id rv = rid))
    \<and> (dict_get (cs_contexts (ln_store n)) cid = Some e \<and> ce_reservation_id e = Some held \<longrightarrow>
         (\<exists>c \<in> set (ln_running n). rv_reservation_id (rc_rv c) = held \<and> context_id_of (rv_request (rc_rv c)) = cid))"
proof -
  have a: "accounted opts n" using llm_run_accounted [OF assms start_accounted] .
  then have iff: "dict_get (cs_reservations (ln_store n)) r = Some v \<longleftrightarrow>
      (\<exists>c \<in> set (ln_running n). rc_rv c = v \<and> rv_reservation_id v = r)" for r v by (simp add: accounted_def)
  moreover have "entry_ok (ln_store n) cid e" if "dict_get (cs_contexts (ln_store n)) cid = Some e"
    using a context_invD(3) that by (auto simp: accounted_def)
  ultimately show ?thesis by (auto simp: entry_ok_def rv_cid_def)
qed

theorem reservations_accounted_witness:
  "\<exists>c \<in> set (ln_running (ex_llm_nodes 3)). rv_reservation_id (rc_rv c) = ''r2'' \<and> context_id_of (rv_request (rc_rv c)) = ex_cid"
proof -
  obtain e where "dict_get (cs_contexts (ln_store (ex_llm_nodes 3))) ex_cid = Some e" "ce_reservation_id e = Some ''r2''"
    using ex_llm_call(5) by auto
  then show ?thesis using reservations_accounted [OF ex_llm_run, of undefined undefined ex_cid e "''r2''"] by simp
qed

text \<open>
  C14: an answer, streamed or not, changes no context unless the authorizer allows the commit: without an authorizer, or
  when it refuses, no context appears and none changes its version, transcript or binding.
\<close>

theorem unauthorized_changes_nothing:
  assumes "llm_run H opts lo P llm_start n" and "i < length (ln_running n)" and "rc_auth lo (ln_running n ! i) = Some f"
    and "ev = Answer i cancelling outcome clk factory \<or> ev = Iterate i m src clk factory"
    and "dict_get (cs_contexts (ln_store (llm_do H opts lo ev n))) cid = Some e'"
  shows "\<exists>e. dict_get (cs_contexts (ln_store n)) cid = Some e \<and> ce_owner e' = ce_owner e \<and> ce_version e' = ce_version e
    \<and> ce_transcript e' = ce_transcript e \<and> ce_binding e' = ce_binding e"
proof -
  let ?c = "ln_running n ! i"
  have c: "covered opts n" using llm_run_covered [OF assms(1) start_covered] by simp
  then have inv: "context_inv opts (ln_store n)" and act: "active (rc_rv ?c) (ln_store n)" using assms(2) by (simp_all add: covered_def)
  have "content_frozen (ln_store n) (ln_store (llm_do H opts lo ev n))"
    using assms(3,4) refused_settle_freezes [OF inv act] content_frozen_refl
    by (cases "answer_verdict ?c cancelling outcome") (auto simp: Let_def)
  then show ?thesis using assms(5) by (auto simp: content_frozen_def same_content_def)
qed

theorem unauthorized_changes_nothing_witness:
  "map_option ce_version (dict_get (cs_contexts (ln_store (llm_do ex_hash ex_ctx_opts ex_llm_options
     (Iterate 0 5 ex_llm_stream ex_clk (\<lambda>i. ex_cid)) (ex_llm_nodes 3)))) ex_cid) = Some 1"
proof -
  let ?ev = "Iterate 0 5 ex_llm_stream ex_clk (\<lambda>i. ex_cid)"
  let ?get = "dict_get (cs_contexts (ln_store (llm_do ex_hash ex_ctx_opts ex_llm_options ?ev (ex_llm_nodes 3)))) ex_cid"
  have "?get \<noteq> None" by code_simp
  then obtain e' where e': "?get = Some e'" by blast
  have "0 < length (ln_running (ex_llm_nodes 3))" by (simp add: ex_llm_call(1))
  from unauthorized_changes_nothing [OF ex_llm_run this ex_llm_call(6) disjI2 [OF refl] e']
  obtain e where "dict_get (cs_contexts (ln_store (ex_llm_nodes 3))) ex_cid = Some e" "ce_version e' = ce_version e" by blast
  then show ?thesis using ex_llm_call(5) e' by simp
qed

text \<open>
  C15: a streamed answer is recorded as the whole answer would be: when the frames carry the content and the tool calls of a
  response in pieces and end in a terminal frame with a stop reason, both commit the same message, leave the
  same store and return the same receipt, the stream in the chunk with the stop reason.
\<close>

theorem streamed_as_whole:
  assumes "list_all2 delta_frame fs css" and "length fs \<le> n" and "closing_frame f cs" and "so_frames src = fs @ f # rest"
    and "lr_content response = nonempty (deltas (concat css @ cs))" and "lr_tool_calls response = nonempty (chunk_calls (concat css @ cs))"
    and "er_result r = wire_response response" and "lr_stop_reason response \<noteq> STOP_ERROR"
    and "commit opts (clk 2) (clk 3) factory rv (assistant_message (lr_content response) (lr_tool_calls response)) s = (Inr receipt, s')"
  shows "settle_sync opts clk factory None rv (sync_verdict False (InnerReturns r)) s =
      (Inr (completion_result (response\<lparr>lr_context := Some receipt\<rparr>) r), s')
    \<and> settle_stream opts clk factory None rv (stream_ending_of n src) s =
      (Inr (Some (with_chunks f (stamped receipt (sanitized cs)))), s')"
proof -
  obtain d where d: "wire_response response = PDict d" by (simp add: wire_response_def)
  then have "sync_verdict False (InnerReturns r) = AskCommit response r"
    using assms(7,8) response_wire [of response] by (simp add: sync_verdict_def)
  moreover have "stream_ending_of n src = EndCommit f (sanitized cs) (assistant_message (lr_content response) (lr_tool_calls response))"
    unfolding stream_ending_of_def assms(4) coordinate_stream [OF assms(1-3)] assms(5,6) by simp
  ultimately show ?thesis using assms(9) by (simp add: settle_sync_def settle_stream_def)
qed

theorem streamed_as_whole_witness:
  "\<exists>receipt s'. settle_sync ex_ctx_opts ex_clk (\<lambda>i. ex_cid) None (rc_rv (ln_running (ex_llm_nodes 3) ! 0)) (sync_verdict False (InnerReturns ex_provided))
       (ln_store (ex_llm_nodes 3)) = (Inr (completion_result (ex_response\<lparr>lr_context := Some receipt\<rparr>) ex_provided), s')
     \<and> settle_stream ex_ctx_opts ex_clk (\<lambda>i. ex_cid) None (rc_rv (ln_running (ex_llm_nodes 3) ! 0)) (stream_ending_of 1 ex_llm_stream)
       (ln_store (ex_llm_nodes 3)) = (Inr (Some (with_chunks (ex_stream_frame 1 (ex_piece ''lo'' (Some END_TURN)) True)
         (stamped receipt (sanitized [ex_piece ''lo'' (Some END_TURN)])))), s')"
proof -
  let ?rv = "rc_rv (ln_running (ex_llm_nodes 3) ! 0)" and ?s = "ln_store (ex_llm_nodes 3)"
  let ?run = "commit ex_ctx_opts (ex_clk 2) (ex_clk 3) (\<lambda>i. ex_cid) ?rv (assistant_message (lr_content ex_response) (lr_tool_calls ex_response)) ?s"
  have "isl (fst ?run) = False" by code_simp
  then obtain receipt s' where run: "?run = (Inr receipt, s')" by (cases "fst ?run"; cases ?run) auto
  show ?thesis
    by (intro exI [of _ receipt] exI [of _ s'] streamed_as_whole [where fs = "[ex_stream_frame 0 (ex_piece ''hel'' None) False]" and css = "[[ex_piece ''hel'' None]]"
          and rest = "[]", OF _ _ _ _ _ _ _ _ run])
       (simp_all add: delta_frame_def closing_frame_def ex_stream_frame_def ex_piece_def terminal_only_def ex_llm_stream_def ex_response_def
          ex_provided_def deltas_def chunk_calls_def nonempty_def)
qed

text \<open>
  C37: a stream that is dropped before its first frame is asked for keeps its context reserved for ever: whatever happens
  afterwards, every append, fork or reset of that context is refused.
\<close>

theorem unstarted_stream_blocks_context:
  assumes "llm_run H opts lo P llm_start n" and "i < length (ln_running n)" and "lq_stream (rc_request (ln_running n ! i))"
    and "mr_operation (rv_request (rc_rv (ln_running n ! i))) \<in> {APPEND, RESET}"
    and "llm_run H opts lo Q (llm_do H opts lo (NeverIterated i) n) n'"
    and "mr_operation m \<noteq> CREATE" and "context_id_of m = context_id_of (rv_request (rc_rv (ln_running n ! i)))"
    and "retain_time opts c2 = Inr t"
  shows "\<exists>err. fst (reserve H opts c0 c1 c2 rid m (ln_store n')) = Inl err"
proof -
  let ?rv = "rc_rv (ln_running n ! i)" and ?n1 = "llm_do H opts lo (NeverIterated i) n"
  have c: "covered opts n" using llm_run_covered [OF assms(1) start_covered] by simp
  then have d: "distinct (map (\<lambda>c. rv_reservation_id (rc_rv c)) (ln_running n))" and act: "active ?rv (ln_store n)"
    using assms(2) by (simp_all add: covered_def)
  have "orphan ?rv ?n1" using act without_distinct [OF d assms(2)] by (simp add: orphan_def)
  moreover have "covered opts ?n1" using llm_do_covered [OF c, of "NeverIterated i" H lo ?rv] assms(2,3) by simp
  ultimately have "covered opts n'" "orphan ?rv n'" using llm_run_covered [OF assms(5), of ?rv] by simp_all
  then have n': "context_inv opts (ln_store n')" "active ?rv (ln_store n')" by (simp_all add: covered_def orphan_def)
  obtain res s' where run: "reserve H opts c0 c1 c2 rid m (ln_store n') = (res, s')" by (cases "reserve H opts c0 c1 c2 rid m (ln_store n')")
  then show ?thesis
    using held_refuses [OF n' _ _ assms(6,8) run] assms(4,7) by (simp add: rv_op_def rv_cid_def)
qed

theorem unstarted_stream_blocks_context_witness:
  "\<exists>err. fst (reserve ex_hash ex_ctx_opts (Some 99) (Some 99) (Some 99) ''r9'' (ex_request APPEND ''k9'')
     (ln_store (llm_do ex_hash ex_ctx_opts ex_llm_options (NeverIterated 0) (ex_llm_nodes 3)))) = Inl err"
proof -
  have cid: "context_id_of (ex_request APPEND ''k9'') = ex_cid" by (simp add: ex_request_def context_id_of_def)
  show ?thesis
  proof (rule unstarted_stream_blocks_context [OF ex_llm_run _ ex_llm_call(2) _ llm_run.llm_none])
    show "retain_time ex_ctx_opts (Some 99) = Inr 86400000099"
      by (simp add: retain_time_def clock_now_def time_plus_def ex_ctx_opts_def MAX_TIME_def)
  qed (simp_all add: ex_llm_call cid, simp add: ex_request_def)
qed

end
