(* ===== verification/Spec2Isabelle.thy ===== *)
theory Spec2Isabelle
  imports NcpSession NcpPolicies NdpRegistry NdpProfile NopOrchestrator NwpAnchor NipTrust NipReputation NwpLlmNode
begin

text \<open>
  The NPS SDK for Python (\<open>src/nps_sdk\<close>): a suite of agent protocols. NCP frames and transports messages, NDP
  announces and resolves nodes, NIP issues and verifies identities, NOP orchestrates task graphs over agents,
  and NWP serves actions, among them language-model actions with server-side contexts. This development
  models the parts that carry protocol state or decide something, and proves what they promise.

  \<^bold>\<open>How the code is modelled.\<close> An exception is a value of \<open>py_error\<close>, a fallible call has type \<open>'a res\<close> (\<open>Inl\<close> the
  exception), a method that changes its object has type \<open>('s, 'a) effectful\<close> (\<open>Prelude\<close>). Python values that
  come from outside are \<open>pyval\<close> (\<open>PyValue\<close>), dictionaries keep insertion order as association lists, bytes are
  words of eight bits, times are integers of microseconds. The clock, random numbers, SHA-256, Ed25519, JSON
  and MessagePack texts, certificate parsing and the network are arguments; what a theorem needs of them is a
  named hypothesis with a witness on concrete functions. Every loop is a total function: loops over lists are
  structural, the others (\<open>kahn\<close>, \<open>bfs\<close>, the condition parser, the DER string loop) have a termination proof,
  and the scheduling loop of the orchestrator is a step relation whose length is bounded by the number of nodes.
  There is no fuel.

  \<^bold>\<open>Foundations.\<close> \<open>Prelude\<close> (errors, the effect combinators, strings, decimal numbers, dictionaries), \<open>PyValue\<close>
  (dynamic values, equality, truth, item access), \<open>Base64\<close> (the lenient decoder of \<open>nip/reputation.py\<close> and the strict
  one of \<open>nip/phase3.py\<close>, with round trips), \<open>Election\<close> (a locale for choosing the holder of the highest epoch,
  interpreted by the cluster resolution of \<open>NdpRegistry\<close> and the selection of \<open>NdpProfile\<close>).

  \<^bold>\<open>NCP.\<close> \<open>NpsFrames\<close> models \<open>core/frames.py\<close> and \<open>core/registry.py\<close>: header layout, flags, frame types. \<open>Codec\<close> models
  \<open>core/codec.py\<close> with its three tiers; the locales \<open>dict_frames\<close> and \<open>plain_frames\<close> state what a family of frame
  classes owes the codec and prove the wire round trip once, and \<open>NcpFrames\<close>, \<open>NdpFrames\<close>, \<open>NipFrames\<close>,
  \<open>NopFrames\<close> and \<open>NwpFrames\<close> interpret them for the frame classes of each protocol. \<open>AnchorCache\<close> models \<open>core/cache.py\<close> (a live
  anchor keeps its schema hash). \<open>NcpHandshake\<close> models the preamble, the encoding policy, the handshake profile
  and the failover connector; \<open>NcpSession\<close> composes codec and handshake into the client and server sessions of
  \<open>ncp/client.py\<close>, \<open>ncp/server.py\<close> and \<open>ncp/session.py\<close> (both ends agree, frames arrive in order); \<open>NcpPolicies\<close> holds the decision
  tables of \<open>core/status_codes.py\<close>, \<open>core/patch_format.py\<close>, \<open>ncp/runtime_hardening.py\<close> and the feature header.

  \<^bold>\<open>NDP.\<close> \<open>NdpRegistry\<close> models the in-memory registry, cluster election, TXT records and federation headers;
  \<open>NdpProfile\<close> models \<open>ndp/registry_profile.py\<close>, \<open>ndp/validator.py\<close> and \<open>ndp/recovery_policy.py\<close> (a withdrawn identity does
  not come back with an old sequence number).

  \<^bold>\<open>NOP.\<close> \<open>NopCondition\<close> models the tokenizer, parser and evaluator of conditions and the input mapper, and relates
  them to a meaning over a value domain of its own, in which a truth value is not a number (the code's equality mixes the two,
  which the theorem excludes and a lemma shows); \<open>NopDag\<close> models graph validation and result aggregation; \<open>NopNode\<close> one node's
  attempts, streams and the task store (which documented streams complete a node, and which others slip through);
  \<open>NopOrchestrator\<close> the scheduling loop, from head to head as a step relation and with the states in which it waits as a
  function of the events (concurrency, K-of-N, no idling, at most one run per node, termination, progress), abort by reachability, saga compensation, and the
  life cycle of a task as recorded in the store.

  \<^bold>\<open>NIP.\<close> \<open>NipCa\<close> models \<open>nip/ca/store.py\<close> and \<open>nip/ca/service.py\<close> (serials, groups and sessions, renewal, revocation and
  its cascade) over runs of calls; \<open>NipRa\<close> models \<open>nip/ca/ra.py\<close>, the locales \<open>gate\<close> and \<open>metered_gate\<close> state the contract
  of an enrollment policy and are interpreted by the three policies; \<open>NipX509\<close> models \<open>nip/x509/verifier.py\<close> and the DER
  reader and enforcer of \<open>nip/phase3.py\<close>; \<open>NipVerifier\<close> models the six-step verifier, the revocation policy and the
  trust-frame validator; \<open>NipTrust\<close> composes authority and verifier: a plain frame without metadata, from a
  registration, a group, a session or a renewal, is accepted exactly while it is unexpired, its record is not revoked and it
  has the capabilities and the scope that are asked for, and three defects at that seam (metadata, staples, renewal) are proved. \<open>NipReputation\<close>
  models \<open>nip/reputation.py\<close>: signed log entries and Merkle inclusion proofs, compared with the tree hash and audit path of
  RFC 9162; proofs are sound and complete for trees of a power-of-two size and refused at the edge of the others.

  \<^bold>\<open>NWP.\<close> \<open>NwpContext\<close> models \<open>nwp/context_store.py\<close>: the reserve, commit, abort, release and sweep operations of the
  language-model context store, with its allocation limit, exclusive reservations and isolation of owners as
  invariants over every sequence of calls. \<open>NwpLlm\<close> models the payloads of \<open>nwp/llm.py\<close> and \<open>NwpLlmNode\<close> the
  coordinator of \<open>nwp/llm_action_server.py\<close>, which reserves, lets the provider answer or stream, asks the authorizer and
  commits or aborts: over every interleaving, reservations belong to running completions and nothing changes without
  authorization; a stream that is never iterated is the exception. \<open>NwpAction\<close> models \<open>nwp/action_node_server.py\<close>: the routes, the gates of a
  request, the task store, the idempotency cache, asynchronous execution and streams. Its runs interleave requests
  with executions that end in any order: settled tasks are final, requests touch only their caller's tasks, a
  finished call is replayed and a running one is not. \<open>NwpReputation\<close> models the rules and the evaluator of
  \<open>nwp/reputation.py\<close>; \<open>NwpTopology\<close> models the data of \<open>nwp/anchor_client.py\<close>, the epoch guard, the in-memory topology service
  and the parsers of \<open>nwp/anchor_server.py\<close>, and the client; \<open>NwpAnchor\<close> puts them together in the handlers of the anchor
  node: what the client reads is what the service said, writes need the highest epoch, every gate in front of
  an invocation counts, and a slot of the rate limiter is returned on every path, also when a response cannot be sent, except
  when the reputation gate is interrupted. Sending may fail in the invoke handler only; elsewhere a response is a value.

  \<^bold>\<open>Concurrency.\<close> Methods that hold a lock or contain no \<open>await\<close> between reading and writing are single steps, and
  the run theorems quantify over every order of such steps. Completions in the orchestrator arrive in any
  order. In \<open>NipRa\<close> the count and the insertion of \<open>PendingQueuePolicy.check\<close> are one step, because no \<open>await\<close>
  that yields lies between them.

  \<^bold>\<open>Limits.\<close> Strings are sequences of characters below 256 (the texts that protocol identifiers and headers use).
  Message texts of exceptions are not kept, error codes are. The identity shortcut of Python's container
  comparison, which matters for NaN only, is not represented. Classes do not check the types of their fields; where a
  component works on typed fields, a value of another type is read as \<open>IllTyped\<close> and not followed further.

  \<^bold>\<open>Not modelled.\<close> The other HTTP and gRPC front ends (\<open>nwp/complex_node_server.py\<close>, \<open>nwp/memory_node_server.py\<close>,
  \<open>nwp/native_server.py\<close>, \<open>nwp/inbound\<close>, \<open>nip/ca/router.py\<close>), HTTP clients,
  SQL stores, ACME, key files and certificate building, telemetry and daemon support, and the
  portable conformance profiles of NWP and NOP.
\<close>

end
